(* ===== verification/Prelude.thy ===== *)
theory Prelude
  imports Complex_Main "HOL-Library.Signed_Division" "HOL-Library.Monad_Syntax"
begin

text \<open>
  Shared vocabulary of the development: the parts of Go and of its \<open>strings\<close>,
  \<open>strconv\<close> and \<open>fmt\<close> packages that the modelled code uses, and the generic lemmas
  about them.

  A Go \<open>string\<close> or \<open>[]byte\<close> is a list of bytes, here \<^typ>\<open>string\<close> (one \<open>char\<close> per
  byte). White space and letter case are the ASCII ones; Go treats a few multi-byte
  code points as white space as well, which a byte list does not show. A Go \<open>int\<close> is an
  \<^typ>\<open>int\<close>; where the code can leave the 64-bit range and a property depends on
  it, \<open>wrap64\<close> is written out. A run-time panic (index out of range, nil
  dereference, division by zero) is the value \<^const>\<open>None\<close> of an option.
\<close>

named_theorems go_string \<open>rewrite rules for the string operations\<close>
named_theorems go_int \<open>rewrite rules for the integer operations\<close>
named_theorems inv_intros \<open>introduction rules of the components' invariants\<close>

section \<open>Integers\<close>

definition wrap64 :: "int \<Rightarrow> int" where
  "wrap64 x = (x + 2 ^ 63) mod 2 ^ 64 - 2 ^ 63"

lemma wrap64_in_range [simp]:
  "- 9223372036854775808 \<le> x \<Longrightarrow> x < 9223372036854775808 \<Longrightarrow> wrap64 x = x"
  by (simp add: wrap64_def)

lemma wrap64_bounds: "- (2 ^ 63) \<le> wrap64 x \<and> wrap64 x < 2 ^ 63"
proof -
  have "0 \<le> (x + 2 ^ 63) mod 2 ^ 64" and "(x + 2 ^ 63) mod 2 ^ 64 < (2 ^ 64 :: int)"
    by simp_all
  then show ?thesis by (simp add: wrap64_def)
qed

lemma wrap64_cong: "wrap64 x mod 2 ^ 64 = x mod 2 ^ 64"
proof -
  have "((x + 2 ^ 63) mod 2 ^ 64 - 2 ^ 63) mod 2 ^ 64 = (x + 2 ^ 63 - 2 ^ 63) mod (2 ^ 64 :: int)"
    by (rule mod_diff_left_eq)
  then show ?thesis by (simp add: wrap64_def)
qed

lemma wrap64_mod_dvd:
  assumes "d dvd 2 ^ 64"
  shows "wrap64 x mod d = x mod d"
proof -
  have "wrap64 x mod 2 ^ 64 mod d = x mod 2 ^ 64 mod d"
    by (simp only: wrap64_cong)
  with assms show ?thesis by (simp only: mod_mod_cancel)
qed

text \<open>Go's \<open>/\<close> and \<open>%\<close> truncate towards zero: \<open>sdiv\<close> and \<open>smod\<close> of the library.
  A zero divisor panics; the callers test it, or the model returns \<^const>\<open>None\<close>.\<close>

lemma sdiv_nonneg [go_int]: "0 \<le> a \<Longrightarrow> 0 < b \<Longrightarrow> a sdiv b = a div (b :: int)"
  by (cases "a = 0") (simp_all add: signed_divide_int_def)

lemma smod_nonneg [go_int]: "0 \<le> a \<Longrightarrow> 0 < b \<Longrightarrow> a smod b = a mod (b :: int)"
  by (cases "a = 0") (simp_all add: signed_modulo_int_def)

lemma sdiv_mult_bounds:
  assumes "0 < (b :: int)"
  shows "a - b < a sdiv b * b \<and> a sdiv b * b < a + b"
proof -
  have "\<bar>a smod b\<bar> < b"
    using assms by (auto simp: signed_modulo_int_def abs_mult sgn_if)
  moreover have "a sdiv b * b = a - a smod b"
    using minus_smod_eq_sdiv_mult [of a b] by simp
  ultimately show ?thesis by linarith
qed

section \<open>Byte strings\<close>

definition is_space :: "char \<Rightarrow> bool" where
  "is_space c \<longleftrightarrow> (let n = of_char c :: nat in n = 32 \<or> (9 \<le> n \<and> n \<le> 13))"

definition is_digit :: "char \<Rightarrow> bool" where
  "is_digit c \<longleftrightarrow> (let n = of_char c :: nat in 48 \<le> n \<and> n \<le> 57)"

definition digit_val :: "char \<Rightarrow> int" where
  "digit_val c = of_char c - 48"

definition lower_char :: "char \<Rightarrow> char" where
  "lower_char c = (let n = of_char c :: nat in if 65 \<le> n \<and> n \<le> 90 then char_of (n + 32) else c)"

definition to_lower :: "string \<Rightarrow> string" where
  "to_lower s = map lower_char s"

definition has_prefix :: "string \<Rightarrow> string \<Rightarrow> bool" where
  "has_prefix s p \<longleftrightarrow> take (length p) s = p"

definition has_suffix :: "string \<Rightarrow> string \<Rightarrow> bool" where
  "has_suffix s p \<longleftrightarrow> has_prefix (rev s) (rev p)"

definition trim_left :: "(char \<Rightarrow> bool) \<Rightarrow> string \<Rightarrow> string" where
  "trim_left P s = dropWhile P s"

definition trim_right :: "(char \<Rightarrow> bool) \<Rightarrow> string \<Rightarrow> string" where
  "trim_right P s = rev (dropWhile P (rev s))"

definition trim_space :: "string \<Rightarrow> string" where
  "trim_space s = trim_right is_space (trim_left is_space s)"

definition trim_prefix :: "string \<Rightarrow> string \<Rightarrow> string" where
  "trim_prefix s p = (if has_prefix s p then drop (length p) s else s)"

text \<open>\<open>IndexByte\<close>, \<open>IndexAny\<close>: the first position whose byte satisfies \<open>P\<close>; \<^const>\<open>None\<close>
  is Go's \<open>-1\<close>.\<close>

fun index_of :: "(char \<Rightarrow> bool) \<Rightarrow> string \<Rightarrow> nat option" where
  "index_of P [] = None"
| "index_of P (c # s) = (if P c then Some 0 else map_option Suc (index_of P s))"

definition last_index_of :: "(char \<Rightarrow> bool) \<Rightarrow> string \<Rightarrow> nat option" where
  "last_index_of P s = map_option (\<lambda>i. length s - Suc i) (index_of P (rev s))"

text \<open>\<open>strings.Index\<close>: the first position at which \<open>p\<close> occurs.\<close>

fun index_str :: "string \<Rightarrow> string \<Rightarrow> nat option" where
  "index_str p [] = (if p = [] then Some 0 else None)"
| "index_str p (c # s) =
     (if has_prefix (c # s) p then Some 0 else map_option Suc (index_str p s))"

text \<open>\<open>strings.Fields\<close>: the maximal runs of non-space bytes.\<close>

function go_fields :: "string \<Rightarrow> string list" where
  "go_fields s =
     (let t = dropWhile is_space s
      in if t = [] then []
         else takeWhile (\<lambda>c. \<not> is_space c) t # go_fields (dropWhile (\<lambda>c. \<not> is_space c) t))"
  by pat_completeness auto
termination
proof (relation "measure length")
  fix s t :: string
  assume t: "t = dropWhile is_space s" and ne: "t \<noteq> []"
  have "\<not> is_space (hd t)"
    using t ne hd_dropWhile [of is_space s] by simp
  then have "length (dropWhile (\<lambda>c. \<not> is_space c) t) < length t"
    using ne by (cases t) (auto simp: less_Suc_eq_le length_dropWhile_le)
  moreover have "length t \<le> length s"
    by (simp add: t length_dropWhile_le)
  ultimately show "(dropWhile (\<lambda>c. \<not> is_space c) t, s) \<in> measure length"
    by simp
qed simp

declare go_fields.simps [simp del]

text \<open>\<open>strings.Split\<close> on a single byte: one more piece than there are separators.\<close>

fun split_on :: "char \<Rightarrow> string \<Rightarrow> string list" where
  "split_on d [] = [[]]"
| "split_on d (c # s) =
     (if c = d then [] # split_on d s
      else (case split_on d s of [] \<Rightarrow> [[c]] | x # xs \<Rightarrow> (c # x) # xs))"

text \<open>\<open>strings.SplitN(s, sep, 2)\<close>: at the first separator, or the whole string.\<close>

definition split2 :: "string \<Rightarrow> string \<Rightarrow> string list" where
  "split2 sep s = (case index_str sep s of
      None \<Rightarrow> [s]
    | Some i \<Rightarrow> [take i s, drop (i + length sep) s])"

fun join :: "string \<Rightarrow> string list \<Rightarrow> string" where
  "join sep [] = []"
| "join sep [x] = x"
| "join sep (x # y # xs) = x @ sep @ join sep (y # xs)"

text \<open>A slice \<open>s[i:j]\<close> panics unless \<open>0 \<le> i \<le> j \<le> len(s)\<close>.\<close>

definition go_slice :: "'a list \<Rightarrow> int \<Rightarrow> int \<Rightarrow> 'a list option" where
  "go_slice s i j = (if 0 \<le> i \<and> i \<le> j \<and> j \<le> int (length s)
     then Some (take (nat j - nat i) (drop (nat i) s)) else None)"

definition elem_at :: "'a list \<Rightarrow> int \<Rightarrow> 'a option" where
  "elem_at s i = (if 0 \<le> i \<and> i < int (length s) then Some (s ! nat i) else None)"

section \<open>strconv and fmt\<close>

fun digits_val :: "int \<Rightarrow> string \<Rightarrow> int" where
  "digits_val acc [] = acc"
| "digits_val acc (c # s) = digits_val (10 * acc + digit_val c) s"

text \<open>
  \<open>strconv.ParseInt(s, 10, 64)\<close> and \<open>strconv.Atoi\<close>. The first component is false when Go
  reports an error; the value is then 0 (syntax) or the nearest end of the range.
\<close>

definition parse_int64 :: "string \<Rightarrow> bool \<times> int" where
  "parse_int64 s =
     (let (neg, d) = (case s of c # r \<Rightarrow> if c = CHR ''-'' then (True, r)
                                 else if c = CHR ''+'' then (False, r) else (False, s)
                      | [] \<Rightarrow> (False, []))
      in if d = [] \<or> \<not> list_all is_digit d then (False, 0)
         else let v = (if neg then - digits_val 0 d else digits_val 0 d)
              in if v < - (2 ^ 63) then (False, - (2 ^ 63))
                 else if v \<ge> 2 ^ 63 then (False, 2 ^ 63 - 1) else (True, v))"

definition atoi :: "string \<Rightarrow> int" where
  "atoi s = snd (parse_int64 s)"

definition digit_char :: "nat \<Rightarrow> char" where
  "digit_char d = char_of (48 + d)"

fun show_nat :: "nat \<Rightarrow> string" where
  "show_nat n = (if n < 10 then [digit_char n] else show_nat (n div 10) @ [digit_char (n mod 10)])"

declare show_nat.simps [simp del]

definition show_int :: "int \<Rightarrow> string" where
  "show_int i = (if i < 0 then CHR ''-'' # show_nat (nat (- i)) else show_nat (nat i))"

text \<open>\<open>%0.wd\<close>: at least \<open>w\<close> digits, with leading zeros.\<close>

definition show_pad :: "nat \<Rightarrow> int \<Rightarrow> string" where
  "show_pad w i = (let d = show_nat (nat \<bar>i\<bar>)
     in (if i < 0 then ''-'' else []) @ replicate (w - length d) (CHR ''0'') @ d)"

section \<open>Lemmas on the shared operations\<close>

lemma of_char_digit_char [simp]: "d < 10 \<Longrightarrow> of_char (digit_char d) = (48 + d :: nat)"
  by (simp add: digit_char_def)

lemma of_char_digit_char_int [simp]: "d < 10 \<Longrightarrow> of_char (digit_char d) = (48 + int d :: int)"
  using of_char_digit_char [of d] of_nat_of_char [of "digit_char d", where ?'a = int]
  by simp

lemma is_digit_digit_char [simp]: "d < 10 \<Longrightarrow> is_digit (digit_char d)"
  by (simp add: is_digit_def)

lemma digit_val_digit_char [simp]: "d < 10 \<Longrightarrow> digit_val (digit_char d) = int d"
  by (simp add: digit_val_def)

lemma digits_val_append [simp]: "digits_val acc (s @ t) = digits_val (digits_val acc s) t"
  by (induction s arbitrary: acc) auto

lemma show_nat_digits: "list_all is_digit (show_nat n)"
  by (induction n rule: show_nat.induct) (subst show_nat.simps, auto)

lemma show_nat_nonempty [simp]: "show_nat n \<noteq> []"
  by (subst show_nat.simps) simp

lemma digits_val_show_nat [simp]: "digits_val 0 (show_nat n) = int n"
proof (induction n rule: show_nat.induct)
  case (1 n)
  show ?case
  proof (cases "n < 10")
    case True
    then show ?thesis by (subst show_nat.simps) simp
  next
    case False
    with "1.IH" have "digits_val 0 (show_nat (n div 10)) = int (n div 10)" by simp
    moreover have "10 * int (n div 10) + int (n mod 10) = int n"
      by presburger
    ultimately show ?thesis
      using False by (subst show_nat.simps) simp
  qed
qed
end
