(* ===== verification/ArgusBase.thy ===== *)
theory ArgusBase
  imports Prelude "HOL-Library.Word"
begin

text \<open>
  Package \<open>argus\<close> (\<open>src/argus/argus\<close>): the enumerations and their names, booleans, tag
  lists and access lists, schedules, time specifications, hashing, \<open>unpack\<close>, the
  escaping codes and their inverse, the start-up log, and saving to a file.
\<close>

unbundle bit_operations_syntax

section \<open>Enumerations: status, gravity, darp mode\<close>

text \<open>
  \<open>type Status int\<close>: any integer is a value of the type (a peer's status arrives as
  \<open>argus.Status(Atoi(...))\<close>), so the model keeps the integer.
\<close>

type_synonym status = int
type_synonym gravity = int
type_synonym darp_mode = int

abbreviation (input) UNKNOWN :: status where "UNKNOWN \<equiv> 0"
abbreviation (input) CLEAR :: status where "CLEAR \<equiv> 1"
abbreviation (input) WARNING :: status where "WARNING \<equiv> 2"
abbreviation (input) MINOR :: status where "MINOR \<equiv> 3"
abbreviation (input) MAJOR :: status where "MAJOR \<equiv> 4"
abbreviation (input) CRITICAL :: status where "CRITICAL \<equiv> 5"
abbreviation (input) OVERRIDE :: status where "OVERRIDE \<equiv> 6"
abbreviation (input) DEPENDS :: status where "DEPENDS \<equiv> 7"
abbreviation (input) MAXSTATUS :: status where "MAXSTATUS \<equiv> 7"

abbreviation (input) GRAV_UP :: gravity where "GRAV_UP \<equiv> 0"
abbreviation (input) GRAV_DN :: gravity where "GRAV_DN \<equiv> 1"
abbreviation (input) GRAV_VOTE :: gravity where "GRAV_VOTE \<equiv> 2"
abbreviation (input) GRAV_IETF :: gravity where "GRAV_IETF \<equiv> 3"
abbreviation (input) GRAV_SELF :: gravity where "GRAV_SELF \<equiv> 4"

abbreviation (input) MODE_NONE :: darp_mode where "MODE_NONE \<equiv> 0"
abbreviation (input) MODE_FAILOVER :: darp_mode where "MODE_FAILOVER \<equiv> 1"
abbreviation (input) MODE_DISTRIBUTED :: darp_mode where "MODE_DISTRIBUTED \<equiv> 2"
abbreviation (input) MODE_REDUNDANT :: darp_mode where "MODE_REDUNDANT \<equiv> 3"

definition statusname :: "string list" where
  "statusname = [''unknown'', ''clear'', ''warning'', ''minor'', ''major'', ''critical'',
     ''override'', ''depends'']"

definition Status_String :: "status \<Rightarrow> string" where
  "Status_String s = (if s < UNKNOWN \<or> s > MAXSTATUS then ''invalid'' else statusname ! nat s)"

definition StatusValue :: "string \<Rightarrow> status" where
  "StatusValue name = (let n = to_lower name in
     if n = ''clear'' then CLEAR
     else if n = ''warning'' then WARNING
     else if n = ''minor'' then MINOR
     else if n = ''major'' then MAJOR
     else if n = ''critical'' then CRITICAL
     else UNKNOWN)"

definition gravityname :: "string list" where
  "gravityname = [''up'', ''down'', ''vote'', ''ietf'', ''self'']"

definition Gravity_String :: "gravity \<Rightarrow> string" where
  "Gravity_String g = (if g < GRAV_UP \<or> g > GRAV_SELF then ''invalid'' else gravityname ! nat g)"

definition GravityValue :: "string \<Rightarrow> gravity" where
  "GravityValue name = (let n = to_lower name in
     if n = ''up'' then GRAV_UP
     else if n = ''down'' then GRAV_DN
     else if n = ''vote'' then GRAV_VOTE
     else if n = ''ietf'' then GRAV_IETF
     else if n = ''self'' then GRAV_SELF
     else GRAV_UP)"

definition darpModeName :: "string list" where
  "darpModeName = [''none'', ''failover'', ''distributed'', ''redundant'']"

definition DarpMode_String :: "darp_mode \<Rightarrow> string" where
  "DarpMode_String d = (if d < MODE_NONE \<or> d > MODE_REDUNDANT then ''invalid'' else darpModeName ! nat d)"

definition DarpModeValue :: "string \<Rightarrow> darp_mode" where
  "DarpModeValue name = (let n = to_lower name in
     if n = ''none'' then MODE_NONE
     else if n = ''failover'' then MODE_FAILOVER
     else if n \<in> {''distributed'', ''distrib''} then MODE_DISTRIBUTED
     else if n \<in> {''redundant'', ''redund''} then MODE_REDUNDANT
     else MODE_NONE)"

section \<open>Booleans and schedules\<close>

definition CheckBool :: "string \<Rightarrow> bool" where
  "CheckBool v \<longleftrightarrow> v \<in> {''yes'', ''YES'', ''on'', ''ON'', ''true'', ''TRUE'', ''1''}"

record schedule_item =
  Dow :: int     \<comment> \<open>-1 is all\<close>
  Start :: int   \<comment> \<open>hhmm\<close>
  End :: int     \<comment> \<open>hhmm\<close>
  Val :: string

type_synonym schedule = "schedule_item list"

definition ScheduleAlways :: "string \<Rightarrow> schedule" where
  "ScheduleAlways val = [\<lparr>Dow = -1, Start = 0, End = 2400, Val = val\<rparr>]"

definition ScheduleAlwaysYes :: schedule where
  "ScheduleAlwaysYes = [\<lparr>Dow = -1, Start = 0, End = 2400, Val = ''yes''\<rparr>]"

text \<open>The time of day is an input: day of week, hours and minutes of \<open>time.Now()\<close>.\<close>

record wall_clock =
  w_dow :: int
  w_hrs :: int
  w_min :: int

fun sched_scan :: "int \<Rightarrow> int \<Rightarrow> schedule \<Rightarrow> string \<Rightarrow> string" where
  "sched_scan dow tim [] def = def"
| "sched_scan dow tim (r # rs) def =
     (if Dow r \<noteq> -1 \<and> Dow r \<noteq> dow then sched_scan dow tim rs def
      else if tim < Start r then sched_scan dow tim rs def
      else if tim \<ge> End r then sched_scan dow tim rs def
      else Val r)"

definition ResultNow :: "wall_clock \<Rightarrow> schedule \<Rightarrow> string \<Rightarrow> string" where
  "ResultNow now s def = sched_scan (w_dow now) (w_hrs now * 100 + w_min now) s def"

definition PermitNow :: "wall_clock \<Rightarrow> schedule \<Rightarrow> string \<Rightarrow> bool" where
  "PermitNow now s def = CheckBool (ResultNow now s def)"

definition Schedule_Append :: "schedule \<Rightarrow> int \<Rightarrow> int \<Rightarrow> int \<Rightarrow> string \<Rightarrow> schedule" where
  "Schedule_Append s dow start stop value =
     s @ [\<lparr>Dow = dow, Start = start, End = stop, Val = value\<rparr>]"

section \<open>Tags and access lists\<close>

definition tag_space :: "char \<Rightarrow> bool" where
  "tag_space c \<longleftrightarrow> c = CHR '' '' \<or> c = CHR 0x09"

text \<open>
  The loop index is the remaining suffix. After a word that does not match, the inner
  loop moves to the space that ends it, and the outer \<open>i++\<close> moves past that space.
\<close>

function IncludesTag :: "string \<Rightarrow> string \<Rightarrow> bool \<Rightarrow> bool" where
  "IncludesTag [] tag wildcard = False"
| "IncludesTag (c # s) tag wildcard =
     (if tag_space c then IncludesTag s tag wildcard
      else let tt = c # takeWhile (\<lambda>x. \<not> tag_space x) s
           in if tt = tag then True
              else if wildcard \<and> (tt = ''all'' \<or> tt = ''*'') then True
              else IncludesTag (tl (dropWhile (\<lambda>x. \<not> tag_space x) s)) tag wildcard)"
  by pat_completeness auto
termination
proof (relation "measure (\<lambda>(t, tag, w). length t)")
  fix c s and tt tag :: string and w :: bool
  have "length (tl (dropWhile (\<lambda>x. \<not> tag_space x) s)) \<le> length s"
    by (metis length_dropWhile_le length_tl diff_le_self le_trans)
  then show "((tl (dropWhile (\<lambda>x. \<not> tag_space x) s), tag, w), (c # s, tag, w))
      \<in> measure (\<lambda>(t, tag, w). length t)"
    by simp
qed auto

definition ACLPermitsUser :: "string \<Rightarrow> string list \<Rightarrow> bool" where
  "ACLPermitsUser acl creds = list_ex (\<lambda>cred. IncludesTag acl cred False) creds"

section \<open>Hashing\<close>

definition HashDjb2 :: "string \<Rightarrow> int" where
  "HashDjb2 s = foldl (\<lambda>h c. wrap64 (33 * h + of_char c)) 5381 s AND 0x7fffffff"

definition HashedDirectory :: "string \<Rightarrow> string" where
  "HashedDirectory file =
     (let h = HashDjb2 file AND 0xffffff;
          a = h smod 26 + 65;
          h = drop_bit 5 h;
          b = h smod 26 + 65
      in [char_of (nat a), CHR ''/'', char_of (nat b)])"

section \<open>Unpack\<close>

text \<open>The digits after \<open>x\<close>: the count (in 64-bit arithmetic) and the rest of the template.\<close>

fun unpack_skip :: "int \<Rightarrow> string \<Rightarrow> int \<times> string" where
  "unpack_skip skip [] = (skip, [])"
| "unpack_skip skip (c # how) =
     (if is_digit c then unpack_skip (wrap64 (wrap64 (skip * 10) + digit_val c)) how
      else (skip, c # how))"

definition byte32 :: "char \<Rightarrow> 32 word" where
  "byte32 c = of_nat (of_char c)"

text \<open>\<^const>\<open>None\<close> is the panic of \<open>dat[skip:]\<close> when the data is shorter than the skip.\<close>

definition Unpack :: "string \<Rightarrow> string \<Rightarrow> (32 word \<times> bool) option" where
  "Unpack how dat =
     (if how = [] then Some (0, False)
      else
        let how = dropWhile (\<lambda>c. c = CHR '' '') how in
        do {
          (how, dat) \<leftarrow>
            (if how \<noteq> [] \<and> hd how = CHR ''x''
             then let (skip, rest) = unpack_skip 0 (tl how);
                      skip = (if skip = 0 then 1 else skip)
                  in map_option (\<lambda>d. (rest, d)) (go_slice dat skip (int (length dat)))
             else Some (how, dat));
          let how = dropWhile (\<lambda>c. c = CHR '' '') how;
          Some (case how of
              [] \<Rightarrow> (0, False)
            | k # _ \<Rightarrow>
                if k = CHR ''c'' then
                  (if length dat < 1 then (0, True)
                   else let v = byte32 (dat ! 0) in (if 127 < sint v then v - 256 else v, True))
                else if k = CHR ''C'' then
                  (if length dat < 1 then (0, True) else (byte32 (dat ! 0), True))
                else if k = CHR ''n'' then
                  (if length dat < 2 then (0, True)
                   else (push_bit 8 (byte32 (dat ! 0)) OR byte32 (dat ! 1), True))
                else if k = CHR ''N'' then
                  (if length dat < 4 then (0, True)
                   else (push_bit 24 (byte32 (dat ! 0)) OR push_bit 16 (byte32 (dat ! 1))
                         OR push_bit 8 (byte32 (dat ! 2)) OR byte32 (dat ! 3), True))
                else (0, False))
        })"

section \<open>Time specifications\<close>

definition timespec_unit :: "char \<Rightarrow> int option" where
  "timespec_unit c =
     (if c = CHR ''s'' then Some 1
      else if c = CHR ''m'' then Some 60
      else if c = CHR ''h'' then Some 3600
      else if c = CHR ''d'' then Some (24 * 3600)
      else if c = CHR ''w'' then Some (7 * 24 * 3600)
      else if c = CHR ''M'' then Some (30 * 24 * 3600)
      else if c = CHR ''y'' then Some (365 * 24 * 3600)
      else None)"

text \<open>\<open>Inl\<close> is the error text (which names the digits, not the offending letter).\<close>

function timespec_loop :: "int \<Rightarrow> int \<Rightarrow> string \<Rightarrow> string + int" where
  "timespec_loop def tot v =
     (if v = [] then Inr tot
      else let ds = takeWhile is_digit v; rest = dropWhile is_digit v; t = atoi ds
           in case rest of
                [] \<Rightarrow> timespec_loop def (wrap64 (tot + wrap64 (t * def))) []
              | c # v' \<Rightarrow>
                  (case timespec_unit c of
                     None \<Rightarrow> Inl (''invalid timespec '' @ [CHR 0x27] @ ds @ [CHR 0x27])
                   | Some u \<Rightarrow> timespec_loop def (wrap64 (tot + wrap64 (t * u))) v'))"
  by pat_completeness auto
termination
proof (relation "measure (\<lambda>(def, tot, v). length v)", goal_cases)
  case 1
  show ?case by simp
next
  case (2 def tot v)
  then show ?case by simp
next
  case (3 def tot v ds rest t c v' u)
  have "length (c # v') \<le> length v"
    using 3 length_dropWhile_le [of is_digit v] by simp
  then show ?case by simp
qed

declare timespec_loop.simps [simp del]

definition Timespec :: "string \<Rightarrow> int \<Rightarrow> string + int" where
  "Timespec v def = timespec_loop def 0 v"

definition Elapsed :: "int \<Rightarrow> string" where
  "Elapsed e =
     (let sec = e smod 60; e = e sdiv 60;
          min = e smod 60; e = e sdiv 60;
          hrs = e smod 24; e = e sdiv 24;
          day = e smod 30; e = e sdiv 30;
          mon = e
      in if mon > 0 then show_int mon @ ''M '' @ show_int day @ ''d '' @ show_pad 2 hrs @ '':'' @ show_pad 2 min
         else if day > 0 then show_int day @ ''d '' @ show_pad 2 hrs @ '':'' @ show_pad 2 min
         else show_pad 2 hrs @ '':'' @ show_pad 2 min @ '':'' @ show_pad 2 sec)"

section \<open>Escaping\<close>

definition byte_in :: "char \<Rightarrow> char \<Rightarrow> char \<Rightarrow> bool" where
  "byte_in lo hi c \<longleftrightarrow> (of_char lo :: nat) \<le> of_char c \<and> (of_char c :: nat) \<le> of_char hi"

definition shouldEscapeFile :: "char \<Rightarrow> char \<Rightarrow> bool" where
  "shouldEscapeFile c pct \<longleftrightarrow>
     c = pct \<or> c \<in> set ''%#+;=?&~<>/'' \<or> c \<in> {CHR 0x5C, CHR 0x22, CHR 0x27, CHR 0x60}
     \<or> (of_char c :: nat) \<le> 32 \<or> (of_char c :: nat) \<ge> 127"

definition shouldEscapeUrl :: "char \<Rightarrow> char \<Rightarrow> bool" where
  "shouldEscapeUrl c pct \<longleftrightarrow>
     c = pct \<or> c \<in> set '' /+?;&:=$@,'' \<or> c = CHR 0x5C
     \<or> (of_char c :: nat) \<le> 32 \<or> (of_char c :: nat) \<ge> 127"

definition shouldEscapePunct :: "char \<Rightarrow> char \<Rightarrow> bool" where
  "shouldEscapePunct c pct \<longleftrightarrow>
     c = pct
     \<or> (of_char c :: nat) < 48 \<or> (of_char c :: nat) > 57 \<and> (of_char c :: nat) < 65
     \<or> (of_char c :: nat) > 90 \<and> (of_char c :: nat) < 97 \<or> (of_char c :: nat) > 122"

definition hex_digit :: "nat \<Rightarrow> char" where
  "hex_digit n = ''0123456789ABCDEF'' ! n"

definition encode_byte :: "char \<Rightarrow> (char \<Rightarrow> char \<Rightarrow> bool) \<Rightarrow> char \<Rightarrow> string" where
  "encode_byte pct should c =
     (if should c pct then [pct, hex_digit (of_char c div 16), hex_digit (of_char c mod 16)] else [c])"

text \<open>
  The code counts the escapes, returns the argument itself when there are none, and
  otherwise fills a buffer of the exact size from left to right; the buffer's content
  is the concatenation of what each byte contributes.
\<close>

definition encode :: "string \<Rightarrow> char \<Rightarrow> (char \<Rightarrow> char \<Rightarrow> bool) \<Rightarrow> string" where
  "encode s pct should =
     (let hexCount = length (filter (\<lambda>c. should c pct) s)
      in if hexCount = 0 then s else concat (map (encode_byte pct should) s))"

definition FileEncode :: "string \<Rightarrow> string" where
  "FileEncode s = encode s (CHR ''~'') shouldEscapeFile"

definition PunctEncode :: "string \<Rightarrow> string" where
  "PunctEncode s = encode s (CHR ''~'') shouldEscapePunct"

definition UrlEncode :: "string \<Rightarrow> string" where
  "UrlEncode s = encode s (CHR ''%'') shouldEscapeUrl"

text \<open>\<open>url.QueryUnescape\<close>: \<open>%XY\<close> is a byte, \<open>+\<close> a space, anything else itself; a \<open>%\<close>
  without two hex digits is an error.\<close>

definition unhex :: "char \<Rightarrow> nat option" where
  "unhex c = (let n = of_char c in
     if 48 \<le> n \<and> n \<le> 57 then Some (n - 48)
     else if 97 \<le> n \<and> n \<le> 102 then Some (n - 87)
     else if 65 \<le> n \<and> n \<le> 70 then Some (n - 55)
     else None)"

fun unescape :: "char \<Rightarrow> bool \<Rightarrow> string \<Rightarrow> string option" where
  "unescape pct spc [] = Some []"
| "unescape pct spc (c # s) =
     (if c = pct then
        (case s of
           x # y # s' \<Rightarrow> (case (unhex x, unhex y) of
               (Some a, Some b) \<Rightarrow> map_option ((#) (char_of (a * 16 + b))) (unescape pct spc s')
             | _ \<Rightarrow> None)
         | _ \<Rightarrow> None)
      else if spc \<and> c = CHR ''+'' then map_option ((#) (CHR '' '')) (unescape pct spc s)
      else map_option ((#) c) (unescape pct spc s))"

definition UrlDecode :: "string \<Rightarrow> string" where
  "UrlDecode s = (case unescape (CHR ''%'') True s of None \<Rightarrow> [] | Some r \<Rightarrow> r)"

section \<open>The start-up log\<close>

record log_msg =
  Tag :: string
  Msg :: string

record log_state =
  haveErrors :: bool
  haveWarns :: bool
  logmsgs :: "log_msg list"

abbreviation (input) MAXLOGS :: nat where "MAXLOGS \<equiv> 100"

text \<open>\<open>txt\<close> is the text that \<open>fmt.Sprintf(msg, args...)\<close> gives.\<close>

definition Loggit :: "string \<Rightarrow> string \<Rightarrow> log_state \<Rightarrow> log_state" where
  "Loggit tag txt st =
     (if length (logmsgs st) < MAXLOGS
      then st\<lparr>logmsgs := logmsgs st @ [\<lparr>Tag = tag, Msg = txt\<rparr>]\<rparr> else st)"

definition ConfigError :: "string \<Rightarrow> int \<Rightarrow> string \<Rightarrow> log_state \<Rightarrow> log_state" where
  "ConfigError file line txt st =
     Loggit ''logerror'' (''ERROR: in file '' @ file @ '' on line '' @ show_int line @ '': '' @ txt)
       (st\<lparr>haveErrors := True\<rparr>)"

definition ConfigWarning :: "string \<Rightarrow> int \<Rightarrow> string \<Rightarrow> log_state \<Rightarrow> log_state" where
  "ConfigWarning file line txt st =
     Loggit ''logwarning'' (''WARNING: in file '' @ file @ '' on line '' @ show_int line @ '': '' @ txt)
       (st\<lparr>haveWarns := True\<rparr>)"

section \<open>Saving and loading\<close>

text \<open>\<open>nl := bytes.Index(s, "\n"); s = s[nl:]\<close> panics when there is no newline (\<open>nl = -1\<close>).\<close>

definition removeLeadingComment :: "string \<Rightarrow> string option" where
  "removeLeadingComment s =
     (if has_prefix s ''//'' then
        (case index_of (\<lambda>c. c = CHR 0x0A) s of None \<Rightarrow> None | Some nl \<Rightarrow> Some (drop nl s))
      else Some s)"

definition save_comment :: string where
  "save_comment = ''// autogenerated file - do not edit'' @ [CHR 0x0A]"

text \<open>The file system is a map; \<open>can_create\<close> says whether \<open>os.Create\<close> succeeds; the JSON
  encoder and decoder are parameters. The result is the error flag and the new files.\<close>

definition Save :: "(string \<Rightarrow> bool) \<Rightarrow> ('a \<Rightarrow> string) \<Rightarrow> string \<Rightarrow> 'a \<Rightarrow> (string \<rightharpoonup> string)
    \<Rightarrow> bool \<times> (string \<rightharpoonup> string)" where
  "Save can_create marshal file thing fs =
     (let temp = file @ ''.tmp''; js = marshal thing
      in if \<not> can_create temp then (True, fs)
         else let fs = fs(temp \<mapsto> save_comment @ js)
              in (False, fs(file := fs temp, temp := None)))"

datatype 'a loaded = LoadPanic | LoadError | Loaded 'a

text \<open>\<open>unmarshal\<close> gives \<^const>\<open>None\<close> on a decoding error or a recovered panic; the panic of
  \<^const>\<open>removeLeadingComment\<close> comes before the deferred \<open>recover\<close> is installed.\<close>

definition Load :: "(string \<Rightarrow> 'a option) \<Rightarrow> string \<Rightarrow> (string \<rightharpoonup> string) \<Rightarrow> 'a loaded" where
  "Load unmarshal file fs =
     (case fs file of
        None \<Rightarrow> LoadError
      | Some js \<Rightarrow> (case removeLeadingComment js of
            None \<Rightarrow> LoadPanic
          | Some js \<Rightarrow> (case unmarshal js of None \<Rightarrow> LoadError | Some v \<Rightarrow> Loaded v)))"

section \<open>Linear feedback shift register\<close>

definition Next16 :: "int \<Rightarrow> int" where
  "Next16 x =
     (let x = (if x = 0 then x + 1 else x);
          bit = (drop_bit 15 x XOR drop_bit 13 x XOR drop_bit 12 x XOR drop_bit 10 x
                 XOR drop_bit 6 x XOR drop_bit 5 x XOR drop_bit 2 x XOR x) AND 1;
          x = push_bit 1 x OR bit
      in x AND 0xFFFF)"

section \<open>Escaping is injective and safe\<close>

lemma hex_digit_unhex [simp]: "n < 16 \<Longrightarrow> unhex (hex_digit n) = Some n"
proof -
  assume n: "n < 16"
  have "list_all (\<lambda>n. unhex (hex_digit n) = Some n) [0..<16]" by code_simp
  with n show ?thesis by (simp add: list_all_iff)
qed

lemma of_char_nibbles [simp]:
  "(of_char c :: nat) div 16 < 16" "(of_char c :: nat) mod 16 < 16"
  "char_of ((of_char c :: nat) div 16 * 16 + of_char c mod 16) = c"
proof -
  have "(of_char c :: nat) < 256" by simp
  then show "(of_char c :: nat) div 16 < 16" by linarith
qed simp_all

definition hex_alphabet :: string where
  "hex_alphabet = ''0123456789ABCDEF''"

lemma hex_digit_alphabet [simp]: "n < 16 \<Longrightarrow> hex_digit n \<in> set hex_alphabet"
  unfolding hex_digit_def hex_alphabet_def by (rule nth_mem) simp

lemma encode_concat: "encode s pct should = concat (map (encode_byte pct should) s)"
proof (cases "filter (\<lambda>c. should c pct) s = []")
  case True
  then have "\<forall>c \<in> set s. \<not> should c pct"
    by (simp add: filter_empty_conv)
  then have "concat (map (encode_byte pct should) s) = s"
    by (induction s) (auto simp: encode_byte_def)
  with True show ?thesis by (simp add: encode_def)
next
  case False
  then show ?thesis by (simp add: encode_def)
qed

lemma encode_Nil [simp]: "encode [] pct should = []"
  by (simp add: encode_concat)

lemma encode_Cons: "encode (c # s) pct should = encode_byte pct should c @ encode s pct should"
  by (simp add: encode_concat)

text \<open>
  The contract of an escaping code: the escape character is itself escaped. It is all the
  decoder needs; with \<open>+\<close> escaped as well, the query decoder inverts the code too.
\<close>

locale escape_code =
  fixes should :: "char \<Rightarrow> char \<Rightarrow> bool" and pct :: char
  assumes escapes_pct: "should pct pct"
begin

lemma unescape_encode_byte:
  "\<not> spc \<or> should (CHR ''+'') pct \<Longrightarrow>
   unescape pct spc (encode_byte pct should c @ s) = map_option ((#) c) (unescape pct spc s)"
proof (cases "should c pct")
  case True
  then show ?thesis by (simp add: encode_byte_def)
next
  case False
  assume "\<not> spc \<or> should (CHR ''+'') pct"
  with False escapes_pct have "c \<noteq> pct" and "spc \<longrightarrow> c \<noteq> CHR ''+''" by auto
  with False show ?thesis by (auto simp: encode_byte_def)
qed

lemma decode_plain: "unescape pct False (encode s pct should) = Some s"
  by (induction s) (simp_all add: encode_Cons unescape_encode_byte)

lemma encode_inject: "encode s pct should = encode t pct should \<Longrightarrow> s = t"
  using decode_plain by (metis option.inject)

lemma encode_bytes:
  "c \<in> set (encode s pct should) \<Longrightarrow> c = pct \<or> \<not> should c pct \<or> c \<in> set hex_alphabet"
  by (induction s) (auto simp: encode_Cons encode_byte_def split: if_splits)

lemma encode_length:
  "length (encode s pct should) = length s + 2 * length (filter (\<lambda>c. should c pct) s)"
  by (induction s) (auto simp: encode_Cons encode_byte_def)

end

locale query_code = escape_code +
  assumes escapes_plus: "should (CHR ''+'') pct"
begin

lemma decode_query: "unescape pct True (encode s pct should) = Some s"
  by (induction s) (simp_all add: encode_Cons unescape_encode_byte escapes_plus)

end

interpretation file_code: query_code shouldEscapeFile "CHR ''~''"
  by unfold_locales (simp_all add: shouldEscapeFile_def)

interpretation punct_code: query_code shouldEscapePunct "CHR ''~''"
  by unfold_locales (simp_all add: shouldEscapePunct_def)

interpretation url_code: query_code shouldEscapeUrl "CHR ''%''"
  by unfold_locales (simp_all add: shouldEscapeUrl_def)

lemma FileEncode_inject: "FileEncode s = FileEncode t \<Longrightarrow> s = t"
  unfolding FileEncode_def by (rule file_code.encode_inject)

lemma FileEncode_no_slash: "CHR ''/'' \<notin> set (FileEncode s)"
  using file_code.encode_bytes [of "CHR ''/''" s]
  by (auto simp: FileEncode_def shouldEscapeFile_def hex_alphabet_def)

lemma UrlEncode_bytes:
  "c \<in> set (UrlEncode s) \<Longrightarrow> \<not> is_space c"
  using url_code.encode_bytes [of c s]
  by (auto simp: UrlEncode_def shouldEscapeUrl_def is_space_def Let_def hex_alphabet_def)

text \<open>\<open>UrlDecode\<close> (which is \<open>url.QueryUnescape\<close>) inverts \<open>UrlEncode\<close> on every
  byte string, so a value survives the argus protocol's \<open>key: urlencoded-value\<close> line
  whatever bytes it holds.\<close>

theorem UrlDecode_UrlEncode: "UrlDecode (UrlEncode s) = s"
  by (simp add: UrlDecode_def UrlEncode_def url_code.decode_query)

text \<open>\<open>FileEncode\<close>, which names the files that keep an object's state, is injective and
  yields a single path component: no two objects share a file and no name leaves the
  directory. The same holds of the decoder for \<open>PunctEncode\<close>.\<close>

theorem FileEncode_safe:
  "(FileEncode s = FileEncode t) = (s = t) \<and> CHR ''/'' \<notin> set (FileEncode s)
   \<and> unescape (CHR ''~'') False (PunctEncode s) = Some s"
  using FileEncode_inject [of s t] FileEncode_no_slash [of s] punct_code.decode_plain [of s]
  by (auto simp: PunctEncode_def)

section \<open>Tag lists\<close>

text \<open>The words of a tag list, the specification of the scan.\<close>

fun tag_words :: "string \<Rightarrow> string \<Rightarrow> string list" where
  "tag_words w [] = (if w = [] then [] else [w])"
| "tag_words w (c # s) =
     (if tag_space c then (if w = [] then [] else [w]) @ tag_words [] s else tag_words (w @ [c]) s)"

lemma tag_words_span:
  "w \<noteq> [] \<Longrightarrow> tag_words w s =
     (w @ takeWhile (\<lambda>x. \<not> tag_space x) s) # tag_words [] (tl (dropWhile (\<lambda>x. \<not> tag_space x) s))"
  by (induction s arbitrary: w) auto

lemma tag_words_Cons:
  "\<not> tag_space c \<Longrightarrow> tag_words [] (c # s) =
     (c # takeWhile (\<lambda>x. \<not> tag_space x) s) # tag_words [] (tl (dropWhile (\<lambda>x. \<not> tag_space x) s))"
  by (simp add: tag_words_span)

lemma IncludesTag_words:
  "IncludesTag tags tag wildcard \<longleftrightarrow>
     tag \<in> set (tag_words [] tags)
     \<or> wildcard \<and> (''all'' \<in> set (tag_words [] tags) \<or> ''*'' \<in> set (tag_words [] tags))"
proof (induction tags tag wildcard rule: IncludesTag.induct)
  case (1 tag wildcard)
  show ?case by simp
next
  case (2 c s tag wildcard)
  show ?case
  proof (cases "tag_space c")
    case True
    with "2.IH"(1) show ?thesis by simp
  next
    case False
    define tt where "tt = c # takeWhile (\<lambda>x. \<not> tag_space x) s"
    have "tt \<noteq> tag \<Longrightarrow> \<not> (wildcard \<and> (tt = ''all'' \<or> tt = ''*'')) \<Longrightarrow> ?thesis"
      using "2.IH"(2) [OF False refl] False unfolding tt_def
      by (auto simp: tag_words_Cons simp del: tag_words.simps)
    moreover have "tt = tag \<or> wildcard \<and> (tt = ''all'' \<or> tt = ''*'') \<Longrightarrow> ?thesis"
      using False unfolding tt_def
      by (auto simp: tag_words_Cons simp del: tag_words.simps)
    ultimately show ?thesis by blast
  qed
qed

text \<open>C31: the scan of \<open>IncludesTag\<close> finds exactly the listed words: it answers true when
  the tag is one of the blank-separated words, or, with the wildcard flag, when one of
  the words is \<open>all\<close> or \<open>*\<close>. An access list permits a user exactly when it lists one
  of the user's groups; there the wildcards give nothing.\<close>

theorem ACLPermitsUser_iff:
  "(IncludesTag tags tag wildcard \<longleftrightarrow>
     tag \<in> set (tag_words [] tags)
     \<or> wildcard \<and> (''all'' \<in> set (tag_words [] tags) \<or> ''*'' \<in> set (tag_words [] tags)))
   \<and> (ACLPermitsUser acl creds \<longleftrightarrow> set creds \<inter> set (tag_words [] acl) \<noteq> {})"
  unfolding ACLPermitsUser_def IncludesTag_words list_ex_iff by blast

section \<open>Names and values of the enumerations\<close>

lemma enum_cases:
  "0 \<le> (s :: int) \<Longrightarrow> s \<le> 7 \<Longrightarrow>
   s = 0 \<or> s = 1 \<or> s = 2 \<or> s = 3 \<or> s = 4 \<or> s = 5 \<or> s = 6 \<or> s = 7"
  by arith

lemmas enum_defs =
  Status_String_def StatusValue_def statusname_def
  Gravity_String_def GravityValue_def gravityname_def
  DarpMode_String_def DarpModeValue_def darpModeName_def

text \<open>The configuration names round trip: reading back the printed name of a severity
  up to \<open>critical\<close>, of a gravity or of a darp mode gives the value itself; the two derived
  statuses \<open>override\<close> and \<open>depends\<close> cannot be configured and read back as \<open>unknown\<close>.\<close>

theorem enum_names_roundtrip:
  "(0 \<le> s \<and> s \<le> 7 \<longrightarrow> StatusValue (Status_String s) = (if s \<le> CRITICAL then s else UNKNOWN))
   \<and> (0 \<le> g \<and> g \<le> 4 \<longrightarrow> GravityValue (Gravity_String g) = g)
   \<and> (0 \<le> d \<and> d \<le> 3 \<longrightarrow> DarpModeValue (DarpMode_String d) = d)"
proof (intro conjI impI)
  assume "0 \<le> s \<and> s \<le> 7"
  then have "s \<in> set [0, 1, 2, 3, 4, 5, 6, 7]" by auto
  moreover have "list_all (\<lambda>s. StatusValue (Status_String s) = (if s \<le> CRITICAL then s else UNKNOWN))
      [0, 1, 2, 3, 4, 5, 6, 7]" by code_simp
  ultimately show "StatusValue (Status_String s) = (if s \<le> CRITICAL then s else UNKNOWN)"
    by (simp only: list_all_iff)
next
  assume "0 \<le> g \<and> g \<le> 4"
  then have "g \<in> set [0, 1, 2, 3, 4]" by auto
  moreover have "list_all (\<lambda>g. GravityValue (Gravity_String g) = g) [0, 1, 2, 3, 4]" by code_simp
  ultimately show "GravityValue (Gravity_String g) = g" by (simp only: list_all_iff)
next
  assume "0 \<le> d \<and> d \<le> 3"
  then have "d \<in> set [0, 1, 2, 3]" by auto
  moreover have "list_all (\<lambda>d. DarpModeValue (DarpMode_String d) = d) [0, 1, 2, 3]" by code_simp
  ultimately show "DarpModeValue (DarpMode_String d) = d" by (simp only: list_all_iff)
qed

theorem enum_names_roundtrip_witness:
  "StatusValue (Status_String MAJOR) = MAJOR \<and> GravityValue (Gravity_String GRAV_IETF) = GRAV_IETF
   \<and> DarpModeValue (DarpMode_String MODE_REDUNDANT) = MODE_REDUNDANT"
  using enum_names_roundtrip [of MAJOR GRAV_IETF MODE_REDUNDANT] by simp

section \<open>Schedules\<close>

definition sched_matches :: "wall_clock \<Rightarrow> schedule_item \<Rightarrow> bool" where
  "sched_matches now r \<longleftrightarrow> (Dow r = -1 \<or> Dow r = w_dow now)
     \<and> Start r \<le> w_hrs now * 100 + w_min now \<and> w_hrs now * 100 + w_min now < End r"

lemma ResultNow_find:
  "ResultNow now s def = (case find (sched_matches now) s of None \<Rightarrow> def | Some r \<Rightarrow> Val r)"
  unfolding ResultNow_def by (induction s) (auto simp: sched_matches_def)

lemma ResultNow_Append:
  "ResultNow now (Schedule_Append s d a b v) def =
     ResultNow now s (ResultNow now [\<lparr>Dow = d, Start = a, End = b, Val = v\<rparr>] def)"
  unfolding ResultNow_def Schedule_Append_def
  by (induction s) auto

lemma ScheduleAlways_result:
  "0 \<le> w_hrs now \<Longrightarrow> w_hrs now \<le> 23 \<Longrightarrow> 0 \<le> w_min now \<Longrightarrow> w_min now \<le> 59 \<Longrightarrow>
   ResultNow now (ScheduleAlways v) def = v"
  by (simp add: ResultNow_def ScheduleAlways_def)

section \<open>Hashing\<close>

lemma foldl_hash_mod:
  assumes m: "m dvd 2 ^ 64"
  shows "foldl (\<lambda>h c. wrap64 (33 * h + of_char c)) a s mod m
   = foldl (\<lambda>h c. (33 * h + of_char c) mod m) (a mod m) s mod m"
proof (induction s arbitrary: a)
  case Nil
  show ?case by simp
next
  case (Cons c s)
  have "wrap64 (33 * a + of_char c) mod m = (33 * a + of_char c) mod m"
    by (rule wrap64_mod_dvd [OF m])
  also have "\<dots> = (33 * (a mod m) + of_char c) mod m"
    by (subst (1 2) mod_add_left_eq [symmetric]) (simp only: mod_mult_right_eq)
  finally show ?case by (simp only: foldl_Cons Cons.IH)
qed

lemma dvd_31_64: "(2 ^ 31 :: int) dvd 2 ^ 64"
  by (rule le_imp_power_dvd) simp

lemma HashDjb2_mod: "HashDjb2 s = foldl (\<lambda>h c. wrap64 (33 * h + of_char c)) 5381 s mod 2 ^ 31"
proof -
  have "(x :: int) AND 0x7fffffff = x mod 2 ^ 31" for x
  proof -
    have "(0x7fffffff :: int) = mask 31" by (simp add: mask_eq_exp_minus_1)
    then show ?thesis by (simp only: take_bit_eq_mask [symmetric] take_bit_eq_mod)
  qed
  then show ?thesis by (simp add: HashDjb2_def)
qed

lemma HashDjb2_bounds: "0 \<le> HashDjb2 s" "HashDjb2 s < 2 ^ 31"
  by (simp_all add: HashDjb2_mod)

lemma upper_letter: "(0 :: int) \<le> n \<Longrightarrow> byte_in (CHR ''A'') (CHR ''Z'') (char_of (nat (n mod 26 + 65)))"
proof -
  assume "0 \<le> n"
  have "0 \<le> n mod 26" "n mod 26 < 26" by simp_all
  then show ?thesis by (simp add: byte_in_def nat_add_distrib)
qed

lemma and_mask_nonneg: "0 \<le> (x :: int) \<Longrightarrow> 0 \<le> x AND y"
  by simp

text \<open>The hash is the 31-bit DJB polynomial: although the running product overflows
  the 64-bit integer, the masked result is the same as reducing modulo \<open>2^31\<close> at every
  byte, it is never negative (so a lock index taken modulo the number of locks is in
  range), and the directory derived from it is always two capital letters.\<close>

theorem HashDjb2_poly:
  "HashDjb2 s = foldl (\<lambda>h c. (33 * h + of_char c) mod 2 ^ 31) 5381 s
   \<and> 0 \<le> HashDjb2 s \<and> HashDjb2 s < 2 ^ 31
   \<and> (\<exists>a b. HashedDirectory s = [a, CHR ''/'', b]
          \<and> byte_in (CHR ''A'') (CHR ''Z'') a \<and> byte_in (CHR ''A'') (CHR ''Z'') b)"
proof (intro conjI)
  have "foldl (\<lambda>h c. (33 * h + of_char c) mod 2 ^ 31) a s mod 2 ^ 31
      = foldl (\<lambda>h c. (33 * h + of_char c) mod 2 ^ 31) a s" if "a mod 2 ^ 31 = (a :: int)" for a
    using that by (induction s arbitrary: a) auto
  from this [of 5381]
  show "HashDjb2 s = foldl (\<lambda>h c. (33 * h + of_char c) mod 2 ^ 31) 5381 s"
    using foldl_hash_mod [OF dvd_31_64, of 5381 s] by (simp add: HashDjb2_mod)
  show "0 \<le> HashDjb2 s" and "HashDjb2 s < 2 ^ 31"
    by (rule HashDjb2_bounds)+
  have "0 \<le> HashDjb2 s AND 0xffffff"
    by (rule and_mask_nonneg) (rule HashDjb2_bounds)
  then show "\<exists>a b. HashedDirectory s = [a, CHR ''/'', b]
      \<and> byte_in (CHR ''A'') (CHR ''Z'') a \<and> byte_in (CHR ''A'') (CHR ''Z'') b"
    by (auto simp: HashedDirectory_def Let_def smod_nonneg intro!: upper_letter)
qed

section \<open>Time specifications\<close>

lemma wrap64_add [simp]: "wrap64 (wrap64 a + wrap64 b) = wrap64 (a + b)"
proof -
  have "(wrap64 a + wrap64 b + 2 ^ 63) mod 2 ^ 64 = (a + b + 2 ^ 63) mod 2 ^ 64"
    by (metis mod_add_eq wrap64_cong)
  then show ?thesis unfolding wrap64_def [of "wrap64 a + wrap64 b"] wrap64_def [of "a + b"] by simp
qed

lemma wrap64_idem [simp]: "wrap64 (wrap64 a) = wrap64 a"
  using wrap64_bounds [of a] by (simp add: wrap64_in_range)

lemma wrap64_add_right [simp]: "wrap64 (a + wrap64 b) = wrap64 (a + b)"
  using wrap64_add [of "a" "wrap64 b"] wrap64_add [of a b] by simp

lemma wrap64_add_left [simp]: "wrap64 (wrap64 a + b) = wrap64 (a + b)"
  using wrap64_add [of "wrap64 a" b] wrap64_add [of a b] by simp

lemma atoi_show_nat [simp]: "int n < 2 ^ 63 \<Longrightarrow> atoi (show_nat n) = int n"
proof -
  assume n: "int n < 2 ^ 63"
  obtain c r where cr: "show_nat n = c # r" by (cases "show_nat n") auto
  with show_nat_digits [of n] have "is_digit c" by simp
  then have "c \<noteq> CHR ''-''" and "c \<noteq> CHR ''+''" by (auto simp: is_digit_def)
  with n cr show_nat_digits [of n] digits_val_show_nat [of n] show ?thesis
    by (simp add: atoi_def parse_int64_def)
qed

lemma unit_not_digit: "timespec_unit u = Some k \<Longrightarrow> \<not> is_digit u"
  by (auto simp: timespec_unit_def is_digit_def split: if_splits)

definition timespec_value :: "(nat \<times> char) list \<Rightarrow> int" where
  "timespec_value ps = (\<Sum>(n, u) \<leftarrow> ps. int n * the (timespec_unit u))"

lemma span_digits:
  assumes "\<not> is_digit u"
  shows "takeWhile is_digit (show_nat n @ u # r) = show_nat n"
    "dropWhile is_digit (show_nat n @ u # r) = u # r"
proof -
  have "\<forall>c \<in> set (show_nat n). is_digit c"
    using show_nat_digits [of n] by (simp add: list_all_iff)
  with assms show "takeWhile is_digit (show_nat n @ u # r) = show_nat n"
    "dropWhile is_digit (show_nat n @ u # r) = u # r"
    by simp_all
qed

lemma timespec_loop_pairs:
  assumes "\<forall>(n, u) \<in> set ps. int n < 2 ^ 63 \<and> timespec_unit u \<noteq> None"
  shows "timespec_loop def tot (concat (map (\<lambda>(n, u). show_nat n @ [u]) ps) @ r)
    = timespec_loop def (if ps = [] then tot else wrap64 (tot + timespec_value ps)) r"
  using assms
proof (induction ps arbitrary: tot)
  case Nil
  show ?case by simp
next
  case (Cons p ps)
  obtain n u where p: "p = (n, u)" by (cases p)
  with Cons.prems obtain k where k: "timespec_unit u = Some k" and n: "int n < 2 ^ 63" by auto
  have "timespec_loop def tot (show_nat n @ u # concat (map (\<lambda>(n, u). show_nat n @ [u]) ps) @ r)
      = timespec_loop def (wrap64 (tot + int n * k)) (concat (map (\<lambda>(n, u). show_nat n @ [u]) ps) @ r)"
    using k n by (subst timespec_loop.simps) (simp add: span_digits unit_not_digit)
  with Cons.IH [of "wrap64 (tot + int n * k)"] Cons.prems p k show ?case
    by (simp add: timespec_value_def add.assoc)
qed

lemma timespec_loop_digits:
  "int n < 2 ^ 63 \<Longrightarrow> timespec_loop def tot (show_nat n) = Inr (wrap64 (tot + int n * def))"
proof -
  assume n: "int n < 2 ^ 63"
  have span: "takeWhile is_digit (show_nat n) = show_nat n" "dropWhile is_digit (show_nat n) = []"
    using show_nat_digits [of n] by (simp_all add: list_all_iff)
  show ?thesis
    using n by (subst timespec_loop.simps) (simp add: span timespec_loop.simps [of _ _ "[]"])
qed

text \<open>A time specification \<open>n1 u1 n2 u2 ... [n]\<close> is the sum of its terms in seconds,
  a last number without a letter counting in the default unit, in 64-bit arithmetic: the
  sum wraps around without an error when it leaves the range.\<close>

theorem Timespec_sum:
  assumes "\<forall>(n, u) \<in> set ps. int n < 2 ^ 63 \<and> timespec_unit u \<noteq> None"
    and "int fin < 2 ^ 63"
  shows "Timespec (concat (map (\<lambda>(n, u). show_nat n @ [u]) ps) @ show_nat fin) def
      = Inr (wrap64 (timespec_value ps + int fin * def))"
  unfolding Timespec_def
  using timespec_loop_pairs [OF assms(1), of def 0 "show_nat fin"] timespec_loop_digits [OF assms(2)]
  by (simp add: timespec_value_def)

theorem Timespec_sum_witness:
  "Timespec (concat (map (\<lambda>(n, u). show_nat n @ [u]) [(10, CHR ''h''), (10, CHR ''m'')]) @ show_nat 5) 1
   = Inr 36605"
  using Timespec_sum [of "[(10, CHR ''h''), (10, CHR ''m'')]" 5 1]
  by (simp add: timespec_value_def timespec_unit_def)

section \<open>Unpack\<close>

lemma of_char_bounds: "(of_char c :: nat) < 256" "0 \<le> (of_char c :: int)" "(of_char c :: int) < 256"
proof -
  show n: "(of_char c :: nat) < 256" by simp
  have "(of_char c :: int) = int (of_char c)" by (simp only: of_nat_of_char)
  with n show "0 \<le> (of_char c :: int)" "(of_char c :: int) < 256" by linarith+
qed

lemma unat_byte32 [simp]: "unat (byte32 c) = of_char c"
proof -
  have "(256 :: nat) \<le> 2 ^ LENGTH(32)" by simp
  with of_char_bounds(1) [of c] show ?thesis
    unfolding byte32_def unat_of_nat by (intro mod_less) (rule less_le_trans)
qed

lemma uint_byte32 [simp]: "uint (byte32 c) = of_char c"
  using unat_byte32 [of c] by (metis of_nat_of_char uint_nat)

lemma sint_byte32 [simp]: "sint (byte32 c) = of_char c"
proof -
  have "signed_take_bit 31 (of_char c :: int) = of_char c"
    using of_char_bounds(2,3) [of c] by (intro signed_take_bit_int_eq_self) simp_all
  then show ?thesis by (simp add: sint_uint)
qed

lemma digit_val_nonneg: "is_digit c \<Longrightarrow> 0 \<le> digit_val c \<and> digit_val c \<le> 9"
  using of_nat_of_char [of c, where ?'a = int] by (simp add: is_digit_def digit_val_def Let_def)

lemma digits_val_ge: "list_all is_digit ds \<Longrightarrow> 0 \<le> a \<Longrightarrow> a \<le> digits_val a ds"
proof (induction ds arbitrary: a)
  case (Cons d ds)
  then have "0 \<le> digit_val d" by (simp add: digit_val_nonneg)
  with Cons.prems Cons.IH [of "10 * a + digit_val d"] show ?case by simp
qed simp

lemma unpack_skip_digits:
  assumes "list_all is_digit ds" "0 \<le> a" "digits_val a ds < 2 ^ 63"
    "\<not> is_digit c"
  shows "unpack_skip a (ds @ c # r) = (digits_val a ds, c # r)"
  using assms
proof (induction ds arbitrary: a)
  case (Cons d ds)
  then have d: "0 \<le> digit_val d" "digit_val d \<le> 9" by (simp_all add: digit_val_nonneg)
  have "10 * a + digit_val d \<le> digits_val (10 * a + digit_val d) ds"
    using Cons.prems d by (intro digits_val_ge) simp_all
  then have "10 * a + digit_val d < 2 ^ 63" using Cons.prems by simp
  with d Cons.prems(2) have "wrap64 (wrap64 (a * 10) + digit_val d) = 10 * a + digit_val d"
    by simp
  with Cons.IH [of "10 * a + digit_val d"] Cons.prems d show ?case by simp
qed simp

lemma or_push_int: "0 \<le> y \<Longrightarrow> y < 2 ^ n \<Longrightarrow> push_bit n x OR y = x * 2 ^ n + (y :: int)"
  using concat_bit_eq [of n y x] concat_bit_def [of n y x]
  by (simp add: take_bit_int_eq_self or.commute push_bit_eq_mult add.commute)

lemma uint_push_byte:
  "n \<le> 24 \<Longrightarrow> uint (push_bit n (byte32 c)) = of_char c * 2 ^ n"
proof -
  assume n: "n \<le> 24"
  have "(of_char c :: int) * 2 ^ n \<le> 255 * 2 ^ 24"
    using of_char_bounds [of c] n by (intro mult_mono power_increasing) simp_all
  then have "(of_char c :: int) * 2 ^ n < 2 ^ 32" by simp
  then have "take_bit 32 (of_char c * 2 ^ n) = (of_char c * 2 ^ n :: int)"
    using of_char_bounds [of c] by (intro take_bit_int_eq_self) simp_all
  then show ?thesis
    using unsigned_push_bit_eq [of n "byte32 c", where ?'a = int]
    by (simp add: push_bit_eq_mult)
qed

lemma uint_byte_mult:
  "uint (byte32 c * 256) = of_char c * 256"
  "uint (byte32 c * 65536) = of_char c * 65536"
  "uint (byte32 c * 16777216) = of_char c * 16777216"
  using uint_push_byte [of 8 c] uint_push_byte [of 16 c] uint_push_byte [of 24 c]
  by (simp_all add: push_bit_eq_mult)

lemma Unpack_cases:
  assumes "0 < k" "int k < 2 ^ 63" "f \<in> set ''cCnN''"
  shows "map_option (\<lambda>(v, ok). (uint v, ok)) (Unpack ''N'' (a # b # c # d # r))
      = Some (of_char a * 2 ^ 24 + of_char b * 2 ^ 16 + of_char c * 2 ^ 8 + of_char d, True)"
    and "map_option (\<lambda>(v, ok). (uint v, ok)) (Unpack ''n'' (a # b # r))
      = Some (of_char a * 2 ^ 8 + of_char b, True)"
    and "map_option (\<lambda>(v, ok). (uint v, ok)) (Unpack ''C'' (a # r)) = Some (of_char a, True)"
    and "map_option (\<lambda>(v, ok). (sint v, ok)) (Unpack ''c'' (a # r))
      = Some (if 127 < (of_char a :: int) then of_char a - 256 else of_char a, True)"
    and "Unpack (CHR ''x'' # show_nat k @ [f]) dat = (if k \<le> length dat then Unpack [f] (drop k dat) else None)"
proof -
  note bounds = of_char_bounds(2,3)
  show "map_option (\<lambda>(v, ok). (uint v, ok)) (Unpack ''N'' (a # b # c # d # r))
      = Some (of_char a * 2 ^ 24 + of_char b * 2 ^ 16 + of_char c * 2 ^ 8 + of_char d, True)"
    using bounds [of a] bounds [of b] bounds [of c] bounds [of d]
      or_push_int [of "of_char d" 8 "of_char c"]
      or_push_int [of "of_char c * 2 ^ 8 + of_char d" 16 "of_char b"]
      or_push_int [of "of_char b * 2 ^ 16 + of_char c * 2 ^ 8 + of_char d" 24 "of_char a"]
    by (simp add: Unpack_def unsigned_or_eq uint_byte_mult push_bit_eq_mult add.assoc)
  show "map_option (\<lambda>(v, ok). (uint v, ok)) (Unpack ''n'' (a # b # r))
      = Some (of_char a * 2 ^ 8 + of_char b, True)"
    using bounds [of a] bounds [of b] or_push_int [of "of_char b" 8 "of_char a"]
    by (simp add: Unpack_def unsigned_or_eq uint_byte_mult push_bit_eq_mult add.assoc)
  show "map_option (\<lambda>(v, ok). (uint v, ok)) (Unpack ''C'' (a # r)) = Some (of_char a, True)"
    by (simp add: Unpack_def)
  show "map_option (\<lambda>(v, ok). (sint v, ok)) (Unpack ''c'' (a # r))
      = Some (if 127 < (of_char a :: int) then of_char a - 256 else of_char a, True)"
  proof -
    have "signed_take_bit 31 (of_char a - 256 :: int) = of_char a - 256"
      using bounds [of a] by (intro signed_take_bit_int_eq_self) simp_all
    then show ?thesis by (simp add: Unpack_def sint_word_ariths)
  qed
  have "f \<in> {CHR ''c'', CHR ''C'', CHR ''n'', CHR ''N''}" using assms(3) by simp
  then have f: "\<not> is_digit f" "f \<noteq> CHR '' ''" "f \<noteq> CHR ''x''" by (auto simp: is_digit_def)
  then have "unpack_skip 0 (show_nat k @ [f]) = (int k, [f])"
    using unpack_skip_digits [of "show_nat k" 0 f "[]"] assms(1,2) show_nat_digits [of k] by simp
  with f assms(1)
  show "Unpack (CHR ''x'' # show_nat k @ [f]) dat = (if k \<le> length dat then Unpack [f] (drop k dat) else None)"
    by (simp add: Unpack_def go_slice_def Let_def)
qed

text \<open>\<open>unpack\<close> reads big-endian fields: \<open>C\<close> is the byte, \<open>c\<close> the byte as a signed number,
  \<open>n\<close> and \<open>N\<close> the two- and four-byte values modulo \<open>2^32\<close>; and a skip \<open>x<k>\<close> before the field
  moves the data by \<open>k\<close> bytes, or panics (\<open>None\<close>) when fewer than \<open>k\<close> bytes were received,
  which the test on the field's own length comes too late to prevent.\<close>

theorem Unpack_fields:
  assumes "0 < k" "int k < 2 ^ 63" "f \<in> set ''cCnN''"
  shows "map_option (\<lambda>(v, ok). (uint v, ok)) (Unpack ''N'' (a # b # c # d # r))
      = Some (of_char a * 2 ^ 24 + of_char b * 2 ^ 16 + of_char c * 2 ^ 8 + of_char d, True)
    \<and> map_option (\<lambda>(v, ok). (uint v, ok)) (Unpack ''n'' (a # b # r))
      = Some (of_char a * 2 ^ 8 + of_char b, True)
    \<and> map_option (\<lambda>(v, ok). (uint v, ok)) (Unpack ''C'' (a # r)) = Some (of_char a, True)
    \<and> map_option (\<lambda>(v, ok). (sint v, ok)) (Unpack ''c'' (a # r))
      = Some (if 127 < (of_char a :: int) then of_char a - 256 else of_char a, True)
    \<and> Unpack (CHR ''x'' # show_nat k @ [f]) dat
        = (if k \<le> length dat then Unpack [f] (drop k dat) else None)"
  by (intro conjI Unpack_cases [OF assms])

theorem Unpack_fields_witness:
  "Unpack (CHR ''x'' # show_nat 9 @ ''C'') ''ab'' = None
   \<and> map_option (\<lambda>(v, ok). (uint v, ok)) (Unpack ''n'' ''%M'') = Some (9549, True)"
  using Unpack_fields [where k = 9 and f = "CHR ''C''" and a = "CHR ''%''" and b = "CHR ''M''" and r = "[]"
      and dat = "''ab''"]
  by simp

section \<open>Saving and loading\<close>

text \<open>What \<open>Save\<close> writes, \<open>Load\<close> reads back, provided the JSON decoder inverts the encoder
  and skips the newline that ends the comment line; no other file but the temporary one is
  touched, and when the temporary file cannot be created nothing changes.\<close>

theorem Load_Save:
  assumes "unmarshal (CHR 0x0A # marshal thing) = Some thing"
    and "can_create (file @ ''.tmp'')"
  shows "Load unmarshal file (snd (Save can_create marshal file thing fs)) = Loaded thing
    \<and> (\<forall>g. g \<noteq> file \<longrightarrow> g \<noteq> file @ ''.tmp'' \<longrightarrow> snd (Save can_create marshal file thing fs) g = fs g)
    \<and> Save (\<lambda>f. False) marshal file thing fs = (True, fs)"
proof -
  have "removeLeadingComment (save_comment @ js) = Some (CHR 0x0A # js)" for js
    by (simp add: removeLeadingComment_def has_prefix_def save_comment_def)
  with assms show ?thesis
    by (simp add: Load_def Save_def)
qed

theorem Load_Save_witness:
  "Load (\<lambda>s. Some (tl s)) ''notno'' (snd (Save (\<lambda>_. True) (\<lambda>x. x) ''notno'' ''1001'' Map.empty)) = Loaded ''1001''"
  using Load_Save [of "\<lambda>s. Some (tl s)" "\<lambda>x. x" "''1001''" "\<lambda>_. True" "''notno''" Map.empty]
  by simp

lemma Load_truncated:
  "has_prefix s ''//'' \<Longrightarrow> CHR 0x0A \<notin> set s \<Longrightarrow> Load unmarshal file [file \<mapsto> s] = LoadPanic"
proof -
  assume "has_prefix s ''//''" and "CHR 0x0A \<notin> set s"
  moreover have "c \<notin> set s \<Longrightarrow> index_of (\<lambda>x. x = c) s = None" for c
    by (induction s) auto
  ultimately show ?thesis by (simp add: Load_def removeLeadingComment_def)
qed

end
