(* ===== verification/GoFloat.thy ===== *)
theory GoFloat
  imports Prelude "HOL-Library.Code_Target_Nat"
begin

text \<open>
  Go's \<open>float64\<close> and \<open>float32\<close>: IEEE 754 values with a signed zero, two infinities and
  one NaN, arithmetic rounded to nearest, ties to even. A finite value is a sign and a
  rational magnitude. The operations are executable; \<open>round64\<close> and \<open>round32\<close> are the
  two formats' rounding functions, and the operations take the rounding as an argument.
  \<open>ParseFloat\<close> reads the decimal syntax and the names of the special values (the
  hexadecimal syntax is not modelled); \<open>fmt_f\<close> is \<open>fmt.Sprintf("%f", x)\<close>.
\<close>

section \<open>Rounding\<close>

fun bit_count :: "nat \<Rightarrow> nat" where
  "bit_count n = (if n = 0 then 0 else Suc (bit_count (n div 2)))"

declare bit_count.simps [simp del]

definition pow2 :: "int \<Rightarrow> rat" where
  "pow2 e = (if 0 \<le> e then 2 ^ nat e else 1 / 2 ^ nat (- e))"

definition ilog2 :: "rat \<Rightarrow> int" where
  "ilog2 m = (let (n, d) = quotient_of m;
                  e = int (bit_count (nat n)) - int (bit_count (nat d))
              in if pow2 e \<le> m then e else e - 1)"

definition rne :: "rat \<Rightarrow> int" where
  "rne x = (let f = \<lfloor>x\<rfloor>; r = x - of_int f
            in if r < 1 / 2 then f else if r > 1 / 2 then f + 1 else if even f then f else f + 1)"

definition rexp :: "int \<Rightarrow> int \<Rightarrow> rat \<Rightarrow> int" where
  "rexp p emin m = max emin (ilog2 m - p + 1)"

definition rmag :: "int \<Rightarrow> int \<Rightarrow> rat \<Rightarrow> rat" where
  "rmag p emin m = (if m \<le> 0 then 0
     else let e = rexp p emin m in of_int (rne (m / pow2 e)) * pow2 e)"

datatype gofloat = NaN | Inf bool | Num bool rat

type_synonym rounding = "bool \<Rightarrow> rat \<Rightarrow> gofloat"

definition fround :: "int \<Rightarrow> int \<Rightarrow> int \<Rightarrow> rounding" where
  "fround p emin emax s m = (let v = rmag p emin m in if v \<ge> pow2 emax then Inf s else Num s v)"

definition round64 :: rounding where "round64 = fround 53 (- 1074) 1024"
definition round32 :: rounding where "round32 = fround 24 (- 149) 128"

section \<open>Arithmetic and comparison\<close>

definition num_val :: "bool \<Rightarrow> rat \<Rightarrow> rat" where
  "num_val s m = (if s then - m else m)"

definition round_signed :: "rounding \<Rightarrow> rat \<Rightarrow> gofloat" where
  "round_signed rnd v = rnd (v < 0) \<bar>v\<bar>"

fun fneg :: "gofloat \<Rightarrow> gofloat" where
  "fneg NaN = NaN"
| "fneg (Inf s) = Inf (\<not> s)"
| "fneg (Num s m) = Num (\<not> s) m"

fun fabs :: "gofloat \<Rightarrow> gofloat" where
  "fabs NaN = NaN"
| "fabs (Inf s) = Inf False"
| "fabs (Num s m) = Num False m"

fun fadd :: "rounding \<Rightarrow> gofloat \<Rightarrow> gofloat \<Rightarrow> gofloat" where
  "fadd rnd NaN y = NaN"
| "fadd rnd x NaN = NaN"
| "fadd rnd (Inf s) (Inf t) = (if s = t then Inf s else NaN)"
| "fadd rnd (Inf s) (Num _ _) = Inf s"
| "fadd rnd (Num _ _) (Inf t) = Inf t"
| "fadd rnd (Num s a) (Num t b) =
     (let v = num_val s a + num_val t b
      in if v = 0 then Num (s \<and> t) 0 else round_signed rnd v)"

definition fsub :: "rounding \<Rightarrow> gofloat \<Rightarrow> gofloat \<Rightarrow> gofloat" where
  "fsub rnd x y = fadd rnd x (fneg y)"

fun fmul :: "rounding \<Rightarrow> gofloat \<Rightarrow> gofloat \<Rightarrow> gofloat" where
  "fmul rnd NaN y = NaN"
| "fmul rnd x NaN = NaN"
| "fmul rnd (Inf s) (Inf t) = Inf (s \<noteq> t)"
| "fmul rnd (Inf s) (Num t b) = (if b = 0 then NaN else Inf (s \<noteq> t))"
| "fmul rnd (Num s a) (Inf t) = (if a = 0 then NaN else Inf (s \<noteq> t))"
| "fmul rnd (Num s a) (Num t b) = rnd (s \<noteq> t) (a * b)"

fun fdiv :: "rounding \<Rightarrow> gofloat \<Rightarrow> gofloat \<Rightarrow> gofloat" where
  "fdiv rnd NaN y = NaN"
| "fdiv rnd x NaN = NaN"
| "fdiv rnd (Inf s) (Inf t) = NaN"
| "fdiv rnd (Inf s) (Num t b) = Inf (s \<noteq> t)"
| "fdiv rnd (Num s a) (Inf t) = Num (s \<noteq> t) 0"
| "fdiv rnd (Num s a) (Num t b) =
     (if b = 0 then (if a = 0 then NaN else Inf (s \<noteq> t)) else rnd (s \<noteq> t) (a / b))"

fun flt :: "gofloat \<Rightarrow> gofloat \<Rightarrow> bool" where
  "flt NaN y = False"
| "flt x NaN = False"
| "flt (Inf s) (Inf t) = (s \<and> \<not> t)"
| "flt (Inf s) (Num _ _) = s"
| "flt (Num _ _) (Inf t) = (\<not> t)"
| "flt (Num s a) (Num t b) = (num_val s a < num_val t b)"

fun feq :: "gofloat \<Rightarrow> gofloat \<Rightarrow> bool" where
  "feq NaN y = False"
| "feq x NaN = False"
| "feq (Inf s) (Inf t) = (s = t)"
| "feq (Inf s) (Num _ _) = False"
| "feq (Num _ _) (Inf t) = False"
| "feq (Num s a) (Num t b) = (num_val s a = num_val t b)"

text \<open>The IEEE order as the type's \<open><\<close> and \<open>\<le>\<close>: a partial order with NaN related to nothing.\<close>

instantiation gofloat :: ord
begin

definition less_gofloat :: "gofloat \<Rightarrow> gofloat \<Rightarrow> bool" where
  "less_gofloat x y = flt x y"

definition less_eq_gofloat :: "gofloat \<Rightarrow> gofloat \<Rightarrow> bool" where
  "less_eq_gofloat x y = (flt x y \<or> feq x y)"

instance ..

end

definition is_nan :: "gofloat \<Rightarrow> bool" where
  "is_nan x \<longleftrightarrow> x = NaN"

definition fzero :: gofloat where "fzero = Num False 0"

definition f_of_int :: "rounding \<Rightarrow> int \<Rightarrow> gofloat" where
  "f_of_int rnd i = round_signed rnd (of_int i)"

definition f_of_rat :: "rounding \<Rightarrow> rat \<Rightarrow> gofloat" where
  "f_of_rat rnd q = round_signed rnd q"

text \<open>The conversion between formats: \<open>float32(x)\<close>, \<open>float64(x)\<close>.\<close>

fun f_conv :: "rounding \<Rightarrow> gofloat \<Rightarrow> gofloat" where
  "f_conv rnd NaN = NaN"
| "f_conv rnd (Inf s) = Inf s"
| "f_conv rnd (Num s m) = rnd s m"

text \<open>\<open>int64(x)\<close>: truncation; outside the range the result is the implementation's, here that
  of amd64 (the least integer).\<close>

fun f_to_int64 :: "gofloat \<Rightarrow> int" where
  "f_to_int64 (Num s m) =
     (let t = \<lfloor>m\<rfloor>; v = (if s then - t else t)
      in if v < - (2 ^ 63) \<or> v \<ge> 2 ^ 63 then - (2 ^ 63) else v)"
| "f_to_int64 _ = - (2 ^ 63)"

fun f_floor :: "gofloat \<Rightarrow> gofloat" where
  "f_floor (Num s m) = (let v = \<lfloor>num_val s m\<rfloor> in Num s \<bar>of_int v\<bar>)"
| "f_floor x = x"

fun f_ceil :: "gofloat \<Rightarrow> gofloat" where
  "f_ceil (Num s m) = (let v = \<lceil>num_val s m\<rceil> in Num s \<bar>of_int v\<bar>)"
| "f_ceil x = x"

section \<open>Reading and printing\<close>

text \<open>\<open>%f\<close>: six decimals, the exact value rounded to nearest, ties to even.\<close>

fun fmt_f :: "gofloat \<Rightarrow> string" where
  "fmt_f NaN = ''NaN''"
| "fmt_f (Inf s) = (if s then ''-Inf'' else ''+Inf'')"
| "fmt_f (Num s m) =
     (let n = nat (rne (m * 1000000))
      in (if s then ''-'' else []) @ show_nat (n div 1000000) @ ''.'' @ show_pad 6 (int (n mod 1000000)))"

text \<open>A decimal number: digits with at most one point and at least one digit, then an
  optional exponent. The result is the magnitude.\<close>

definition parse_exponent :: "string \<Rightarrow> int option" where
  "parse_exponent s = (case s of
      [] \<Rightarrow> Some 0
    | e # r \<Rightarrow>
        if e \<in> {CHR ''e'', CHR ''E''} then
          (let (neg, d) = (case r of c # d \<Rightarrow> if c = CHR ''-'' then (True, d)
                                     else if c = CHR ''+'' then (False, d) else (False, r)
                           | [] \<Rightarrow> (False, []))
           in if d = [] \<or> \<not> list_all is_digit d then None
              else Some (if neg then - digits_val 0 d else digits_val 0 d))
        else None)"

definition pow10 :: "int \<Rightarrow> rat" where
  "pow10 e = (if 0 \<le> e then 10 ^ nat e else 1 / 10 ^ nat (- e))"

definition parse_decimal :: "string \<Rightarrow> rat option" where
  "parse_decimal s =
     (let ip = takeWhile is_digit s; r = dropWhile is_digit s;
          (fp, r) = (case r of c # t \<Rightarrow> if c = CHR ''.'' then (takeWhile is_digit t, dropWhile is_digit t)
                                        else ([], r)
                     | [] \<Rightarrow> ([], []))
      in if ip = [] \<and> fp = [] then None
         else map_option (\<lambda>x. of_int (digits_val 0 (ip @ fp)) * pow10 (x - int (length fp)))
                (parse_exponent r))"

text \<open>\<open>strconv.ParseFloat(s, 64)\<close>: \<^const>\<open>None\<close> where Go reports an error (a syntax error, or a
  value out of range).\<close>

definition ParseFloat :: "string \<Rightarrow> gofloat option" where
  "ParseFloat s =
     (let (sgn, neg, d) = (case s of c # r \<Rightarrow> if c = CHR ''-'' then (True, True, r)
                                     else if c = CHR ''+'' then (True, False, r) else (False, False, s)
                           | [] \<Rightarrow> (False, False, []))
      in if to_lower d \<in> {''inf'', ''infinity''} then Some (Inf neg)
         else if \<not> sgn \<and> to_lower d = ''nan'' then Some NaN
         else case parse_decimal d of
                None \<Rightarrow> None
              | Some m \<Rightarrow> (case round64 neg m of Inf _ \<Rightarrow> None | x \<Rightarrow> Some x))"

text \<open>\<open>f, _ := strconv.ParseFloat(s, 64)\<close>, the error ignored: 0 after a syntax error, the
  infinity of the right sign when the value is out of range.\<close>

definition ParseFloat_ignore :: "string \<Rightarrow> gofloat" where
  "ParseFloat_ignore s =
     (case ParseFloat s of
        Some x \<Rightarrow> x
      | None \<Rightarrow>
          (let (neg, d) = (case s of c # r \<Rightarrow> if c = CHR ''-'' then (True, r)
                                      else if c = CHR ''+'' then (False, r) else (False, s)
                           | [] \<Rightarrow> (False, []))
           in case parse_decimal d of None \<Rightarrow> fzero | Some _ \<Rightarrow> Inf neg))"

text \<open>\<open>fmt.Sscan(s, &fval)\<close> into a float: skip white space, take the longest prefix that
  looks like a number, and store it when it parses; the variable keeps its value
  otherwise.\<close>

definition accept :: "(char \<Rightarrow> bool) \<Rightarrow> string \<Rightarrow> string \<times> string" where
  "accept P s = (case s of c # r \<Rightarrow> if P c then ([c], r) else ([], s) | [] \<Rightarrow> ([], []))"

definition float_token :: "string \<Rightarrow> string" where
  "float_token s =
     (if to_lower (take 3 s) = ''nan'' then take 3 s
      else let (sg, s) = accept (\<lambda>c. c \<in> {CHR ''+'', CHR ''-''}) s
           in if to_lower (take 3 s) = ''inf'' then sg @ take 3 s
              else let digits = (\<lambda>c. is_digit c \<or> c = CHR ''_'');
                       ip = takeWhile digits s; s = dropWhile digits s;
                       (pt, s) = accept (\<lambda>c. c = CHR ''.'') s;
                       fp = (if pt = [] then [] else takeWhile digits s);
                       s = (if pt = [] then s else dropWhile digits s);
                       (ex, s) = accept (\<lambda>c. c \<in> {CHR ''e'', CHR ''E'', CHR ''p'', CHR ''P''}) s;
                       (es, s) = (if ex = [] then ([], s) else accept (\<lambda>c. c \<in> {CHR ''+'', CHR ''-''}) s);
                       ed = (if ex = [] then [] else takeWhile digits s)
                   in sg @ ip @ pt @ fp @ ex @ es @ ed)"

definition Sscan_float :: "string \<Rightarrow> gofloat \<Rightarrow> gofloat" where
  "Sscan_float s old =
     (case ParseFloat (float_token (dropWhile is_space s)) of None \<Rightarrow> old | Some x \<Rightarrow> x)"

section \<open>Lemmas on rounding\<close>

lemma pow2_powi: "pow2 e = 2 powi e"
  by (simp add: pow2_def power_int_def field_simps)

lemma pow2_pos [simp]: "0 < pow2 e"
  by (simp add: pow2_powi)

lemma pow2_nonneg [simp]: "0 \<le> pow2 e" and pow2_nonzero [simp]: "pow2 e \<noteq> 0"
  using pow2_pos [of e] by linarith+

lemma pow2_add: "pow2 (a + b) = pow2 a * pow2 b"
  by (simp add: pow2_powi power_int_add)

lemma pow2_diff: "pow2 (a - b) = pow2 a / pow2 b"
  by (simp add: pow2_powi power_int_diff)

lemma pow2_nat: "pow2 (int n) = 2 ^ n"
  by (simp add: pow2_def)

lemma pow2_less_mono: "a < b \<Longrightarrow> pow2 a < pow2 b"
  unfolding pow2_powi by (rule power_int_strict_increasing) simp_all

lemma pow2_less [simp]: "pow2 a < pow2 b \<longleftrightarrow> a < b"
  using pow2_less_mono [of a b] pow2_less_mono [of b a] by (cases a b rule: linorder_cases) auto

lemma pow2_le [simp]: "pow2 a \<le> pow2 b \<longleftrightarrow> a \<le> b"
  using pow2_less [of b a] by linarith

lemma of_int_less_2power: "i < 2 ^ n \<Longrightarrow> (of_int i :: rat) < 2 ^ n"
  by (metis of_int_less_iff of_int_numeral of_int_power)

lemma of_int_ge_2power: "2 ^ n \<le> 2 * i \<Longrightarrow> (2 ^ n :: rat) \<le> 2 * of_int i"
  by (metis of_int_le_iff of_int_mult of_int_numeral of_int_power)

lemma bit_count_bounds: "n > 0 \<Longrightarrow> 2 ^ bit_count n \<le> 2 * n \<and> n < 2 ^ bit_count n"
proof (induction n rule: bit_count.induct)
  case (1 n)
  show ?case
  proof (cases "n div 2 = 0")
    case True
    with 1(2) have "n = 1" by auto
    then show ?thesis by (simp add: bit_count.simps)
  next
    case False
    with 1 have "2 ^ bit_count (n div 2) \<le> 2 * (n div 2) \<and> n div 2 < 2 ^ bit_count (n div 2)" by auto
    moreover have "bit_count n = Suc (bit_count (n div 2))"
      using 1(2) by (subst bit_count.simps) simp
    ultimately show ?thesis
      by (simp, linarith)
  qed
qed

lemma bit_count_bounds_int:
  assumes "n > 0"
  shows "2 ^ bit_count (nat n) \<le> 2 * n" "n < 2 ^ bit_count (nat n)"
proof -
  have b: "2 ^ bit_count (nat n) \<le> 2 * nat n" "nat n < 2 ^ bit_count (nat n)"
    using bit_count_bounds [of "nat n"] assms by simp_all
  have "int (2 ^ bit_count (nat n)) \<le> int (2 * nat n)" "int (nat n) < int (2 ^ bit_count (nat n))"
    using b by (simp_all only: of_nat_le_iff of_nat_less_iff)
  then show "2 ^ bit_count (nat n) \<le> 2 * n" "n < 2 ^ bit_count (nat n)"
    using assms by simp_all
qed

lemma ilog2_bounds:
  assumes "m > 0"
  shows "pow2 (ilog2 m) \<le> m" "m < pow2 (ilog2 m + 1)"
proof -
  obtain n d where nd: "quotient_of m = (n, d)" by fastforce
  have d: "d > 0" using quotient_of_denom_pos [OF nd] .
  have m: "m = of_int n / of_int d" using quotient_of_div [OF nd] .
  have n: "n > 0" using assms d m by (simp add: zero_less_divide_iff)
  define bn bd where "bn = bit_count (nat n)" and "bd = bit_count (nat d)"
  have bn: "2 ^ bn \<le> 2 * n" "n < 2 ^ bn"
    using bit_count_bounds_int [of n] n unfolding bn_def by simp_all
  have bd: "2 ^ bd \<le> 2 * d" "d < 2 ^ bd"
    using bit_count_bounds_int [of d] d unfolding bd_def by simp_all
  have rn: "2 ^ bn \<le> 2 * (of_int n :: rat)" "of_int n < (2 ^ bn :: rat)"
    using bn by (auto intro: of_int_less_2power of_int_ge_2power)
  have rd: "2 ^ bd \<le> 2 * (of_int d :: rat)" "of_int d < (2 ^ bd :: rat)"
    using bd by (auto intro: of_int_less_2power of_int_ge_2power)
  have d': "(0 :: rat) < of_int d" using d by simp
  define e where "e = int bn - int bd"
  have pe: "pow2 e * 2 ^ bd = 2 ^ bn"
    unfolding e_def by (simp add: pow2_diff pow2_nat)
  have "m * of_int d = of_int n" using d' m by simp
  have up: "m < pow2 (e + 1)"
  proof -
    have "m * of_int d < pow2 e * 2 ^ bd" using \<open>m * of_int d = of_int n\<close> pe rn by simp
    also have "\<dots> \<le> pow2 e * (2 * of_int d)" using rd(1) by (intro mult_left_mono) simp_all
    finally have "m < pow2 e * 2" using d' by (simp add: mult.assoc [symmetric])
    then show ?thesis by (simp add: pow2_add) (simp add: pow2_def)
  qed
  have lo: "pow2 (e - 1) \<le> m"
  proof -
    have "pow2 e * of_int d \<le> pow2 e * 2 ^ bd" using rd(2) by (intro mult_left_mono) simp_all
    also have "\<dots> \<le> 2 * m * of_int d" using \<open>m * of_int d = of_int n\<close> pe rn by simp
    finally have "pow2 e \<le> 2 * m" using d' by simp
    then show ?thesis by (simp add: pow2_diff) (simp add: pow2_def)
  qed
  have il: "ilog2 m = (if pow2 e \<le> m then e else e - 1)"
    by (simp add: ilog2_def nd e_def bn_def bd_def)
  show "pow2 (ilog2 m) \<le> m" "m < pow2 (ilog2 m + 1)"
    using il up lo by (auto split: if_splits)
qed

lemma ilog2_unique:
  assumes "pow2 e \<le> m" "m < pow2 (e + 1)"
  shows "ilog2 m = e"
proof -
  have m: "m > 0" using assms(1) pow2_pos [of e] by linarith
  have "pow2 e < pow2 (ilog2 m + 1)" "pow2 (ilog2 m) < pow2 (e + 1)"
    using assms ilog2_bounds [OF m] by linarith+
  then show ?thesis by simp
qed

lemma ilog2_mono: "0 < a \<Longrightarrow> a \<le> b \<Longrightarrow> ilog2 a \<le> ilog2 b"
proof -
  assume "0 < a" "a \<le> b"
  then have "pow2 (ilog2 a) < pow2 (ilog2 b + 1)"
    using ilog2_bounds [of a] ilog2_bounds [of b] by linarith
  then show ?thesis by simp
qed

lemma rne_of_int [simp]: "rne (of_int i) = i"
  by (simp add: rne_def)

lemma rne_mono: "x \<le> y \<Longrightarrow> rne x \<le> rne y"
proof -
  assume xy: "x \<le> y"
  then have "\<lfloor>x\<rfloor> \<le> \<lfloor>y\<rfloor>" by (rule floor_mono)
  then consider "\<lfloor>x\<rfloor> = \<lfloor>y\<rfloor>" | "\<lfloor>x\<rfloor> + 1 \<le> \<lfloor>y\<rfloor>" by linarith
  then show ?thesis
  proof cases
    case 1
    with xy show ?thesis by (auto simp: rne_def Let_def)
  next
    case 2
    then show ?thesis by (auto simp: rne_def Let_def)
  qed
qed

lemma rmag_exact:
  assumes "v > 0" "v = of_int k * pow2 f" "rexp p emin v \<le> f"
  shows "rmag p emin v = v"
proof -
  define e where "e = rexp p emin v"
  have "v / pow2 e = of_int k * pow2 (f - e)"
    using assms(2) by (simp add: pow2_diff)
  also have "pow2 (f - e) = of_int (2 ^ nat (f - e))"
    using assms(3) by (simp add: pow2_def e_def)
  finally have "v / pow2 e = of_int (k * 2 ^ nat (f - e))" by simp
  then have "rne (v / pow2 e) = k * 2 ^ nat (f - e)"
    by (simp only: rne_of_int)
  then have "of_int (rne (v / pow2 e)) * pow2 e = v"
    using \<open>v / pow2 e = of_int (k * 2 ^ nat (f - e))\<close>
    by (metis nonzero_divide_eq_eq pow2_nonzero)
  with assms(1) show ?thesis by (simp add: rmag_def e_def Let_def)
qed

lemma rmag_int:
  assumes "0 \<le> i" "i < 2 ^ nat p" "0 < p" "emin \<le> 0"
  shows "rmag p emin (of_int i) = of_int i"
proof (cases "i = 0")
  case False
  with assms have pos: "(0 :: rat) < of_int i" by simp
  have "of_int i < (2 ^ nat p :: rat)"
    using assms(2) by (rule of_int_less_2power)
  then have "of_int i < pow2 p" using assms(3) by (simp add: pow2_def)
  with ilog2_bounds(1) [OF pos] have "pow2 (ilog2 (of_int i)) < pow2 p" by linarith
  then have "rexp p emin (of_int i) \<le> 0"
    using assms(4) by (simp add: rexp_def)
  then show ?thesis
    using pos by (intro rmag_exact [where k = i and f = 0]) (simp_all add: pow2_def)
qed (simp add: rmag_def)

lemma rmag_mono_exp:
  assumes "0 < a" "a \<le> b" "rexp p emin a = rexp p emin b"
  shows "rmag p emin a \<le> rmag p emin b"
  using assms by (simp add: rmag_def Let_def mult_right_mono rne_mono divide_right_mono)

text \<open>Below the power of two that starts the next exponent the rounding stays below it.\<close>

lemma rmag_le_pow2:
  assumes "0 < a" "a \<le> pow2 k" "rexp p emin a \<le> k"
  shows "rmag p emin a \<le> pow2 k"
proof -
  define e where "e = rexp p emin a"
  have "a / pow2 e \<le> pow2 (k - e)"
    using assms(2) by (simp add: pow2_diff divide_right_mono)
  also have "pow2 (k - e) = of_int (2 ^ nat (k - e))"
    using assms(3) by (simp add: pow2_def e_def)
  finally have "rne (a / pow2 e) \<le> 2 ^ nat (k - e)"
    by (metis rne_mono rne_of_int)
  then have "of_int (rne (a / pow2 e)) \<le> (of_int (2 ^ nat (k - e)) :: rat)"
    by (simp only: of_int_le_iff)
  also have "\<dots> = pow2 (k - e)" using assms(3) by (simp add: pow2_def e_def)
  finally have "of_int (rne (a / pow2 e)) * pow2 e \<le> pow2 (k - e) * pow2 e"
    by (rule mult_right_mono) simp
  also have "\<dots> = pow2 k" by (simp add: pow2_diff)
  finally show ?thesis using assms(1) by (simp add: rmag_def e_def Let_def)
qed

lemma rmag_ge_pow2:
  assumes "pow2 k \<le> b" "rexp p emin b \<le> k"
  shows "pow2 k \<le> rmag p emin b"
proof -
  define e where "e = rexp p emin b"
  have "pow2 (k - e) = of_int (2 ^ nat (k - e))"
    using assms(2) by (simp add: pow2_def e_def)
  moreover have "pow2 (k - e) \<le> b / pow2 e"
    using assms(1) by (simp add: pow2_diff divide_right_mono)
  ultimately have "of_int (2 ^ nat (k - e)) \<le> b / pow2 e" by linarith
  then have "2 ^ nat (k - e) \<le> rne (b / pow2 e)"
    by (metis rne_mono rne_of_int)
  then have "(of_int (2 ^ nat (k - e)) :: rat) \<le> of_int (rne (b / pow2 e))"
    by (simp only: of_int_le_iff)
  with \<open>pow2 (k - e) = of_int (2 ^ nat (k - e))\<close>
  have "pow2 (k - e) * pow2 e \<le> of_int (rne (b / pow2 e)) * pow2 e"
    by (intro mult_right_mono) simp_all
  moreover have "0 < b" using assms(1) pow2_pos [of k] by linarith
  ultimately show ?thesis by (simp add: rmag_def e_def Let_def pow2_diff)
qed

lemma rmag_nonneg: "0 \<le> rmag p emin m"
proof (cases "m \<le> 0")
  case False
  then have "0 \<le> m / pow2 (rexp p emin m)" by simp
  then have "rne 0 \<le> rne (m / pow2 (rexp p emin m))" by (rule rne_mono)
  moreover have "rne 0 = 0" by (simp add: rne_def)
  ultimately show ?thesis using False by (simp add: rmag_def Let_def)
qed (simp add: rmag_def)

lemma rmag_mono:
  assumes "a \<le> b" "0 < p"
  shows "rmag p emin a \<le> rmag p emin b"
proof (cases "a \<le> 0")
  case True
  then show ?thesis using rmag_nonneg by (simp add: rmag_def)
next
  case False
  then have a: "0 < a" and b: "0 < b" using assms by linarith+
  have le: "ilog2 a \<le> ilog2 b" using ilog2_mono [OF a assms(1)] .
  show ?thesis
  proof (cases "rexp p emin a = rexp p emin b")
    case True
    then show ?thesis by (rule rmag_mono_exp [OF a assms(1)])
  next
    case False
    then have ne: "rexp p emin a < rexp p emin b" "ilog2 a < ilog2 b"
      using le by (auto simp: rexp_def)
    have rb: "rexp p emin b = ilog2 b - p + 1" using ne by (auto simp: rexp_def)
    have "a \<le> pow2 (ilog2 b)"
      using ilog2_bounds(2) [OF a] ne(2) pow2_le [of "ilog2 a + 1" "ilog2 b"] by linarith
    then have "rmag p emin a \<le> pow2 (ilog2 b)"
      using rmag_le_pow2 [OF a, of "ilog2 b" p emin] ne rb assms(2) by linarith
    also have "\<dots> \<le> rmag p emin b"
      using rmag_ge_pow2 [OF ilog2_bounds(1) [OF b]] rb assms(2) by simp
    finally show ?thesis .
  qed
qed

lemma round64_int [simp]:
  assumes "0 \<le> i" "i < 2 ^ 53"
  shows "round64 s (of_int i) = Num s (of_int i)"
proof -
  have "rmag 53 (- 1074) (of_int i) = of_int i"
    using assms by (intro rmag_int) simp_all
  moreover have "\<not> pow2 1024 \<le> (of_int i :: rat)"
  proof -
    have "of_int i < (2 ^ 53 :: rat)"
      using assms(2) by (rule of_int_less_2power)
    also have "(2 ^ 53 :: rat) = pow2 53" by (simp add: pow2_def)
    also have "\<dots> < pow2 1024" by simp
    finally show ?thesis by simp
  qed
  ultimately show ?thesis by (simp add: round64_def fround_def)
qed

lemma f_of_int_exact [simp]:
  assumes "\<bar>i\<bar> < 2 ^ 53"
  shows "f_of_int round64 i = Num (i < 0) (of_int \<bar>i\<bar>)"
  using round64_int [of "\<bar>i\<bar>" "i < 0"] assms
  by (simp add: f_of_int_def round_signed_def flip: of_int_abs)
end
