(* ===== verification/Notify.thy ===== *)
theory Notify
  imports ArgusBase
begin

text \<open>
  Package \<open>notify\<close> (\<open>src/argus/notify\<close>): creating a notification, its message and the
  table of who is told when, the per-destination queues, transmission, acknowledgement,
  escalation and repetition, time-out and removal. A notification is a pointer into the
  heap \<open>ns_heap\<close>; the registries \<open>byid\<close> and \<open>actives\<close> and the queues hold pointers, as
  in the code. The text template engine and the date format are parameters; the commands
  that are run are recorded in \<open>ns_sent\<close>. The order in which Go visits a map is an
  argument of the operation that visits it.
\<close>

type_synonym ptr = nat

section \<open>State\<close>

record notify_conf =
  nc_Notify :: "schedule option list"
  nc_NotifyAlso :: string
  nc_MessageUp :: string
  nc_MessageDn :: string
  nc_UnAck_Timeout :: int
  nc_Renotify :: int
  nc_AutoAck :: "bool list"
  nc_AckOnUp :: "bool list"
  nc_Ack_On_Better :: "bool list"
  nc_Ack_On_Worse :: "bool list"
  nc_Escalate :: "string list"

record global_conf =
  gc_Mail_From :: string
  gc_Message_Fmt :: string
  gc_Message_Style :: string
  gc_ACL_NotifyDetail :: string
  gc_ACL_NotifyList :: string
  gc_ACL_NotifyAck :: string
  gc_Notify_Discard :: int

record senddat =
  sd_When :: int
  sd_Last :: int
  sd_Dst :: "string list"

record logdat =
  ld_When :: int
  ld_Who :: string
  ld_Msg :: string

text \<open>The persistent part of a notification; \<open>notif\<close> extends it as the Go struct embeds it.\<close>

record notif_p =
  n_IdNo :: int
  n_Created :: int
  n_LastSent :: int
  n_IsActive :: bool
  n_StepNo :: nat
  n_Escalated :: bool
  n_Message :: string
  n_MessageFmted :: string
  n_Unique :: string
  n_ShortName :: string
  n_FriendlyName :: string
  n_Reason :: string
  n_Result :: string
  n_OvStatus :: status
  n_PrevOv :: status
  n_CurrOv :: status
  n_Status :: "string \<rightharpoonup> string"
  n_SendTo :: "senddat list"
  n_Log :: "logdat list"

record notif = notif_p +
  n_cf :: notify_conf
  n_mon :: ptr

record new_conf =
  nw_Conf :: notify_conf
  nw_Unique :: string
  nw_ShortName :: string
  nw_FriendlyName :: string
  nw_Reason :: string
  nw_Result :: string
  nw_OvStatus :: status
  nw_PrevOv :: status

record notify_method =
  me_builtin :: bool
  me_Command :: string
  me_Send :: string
  me_Qtime :: int

record queuedat =
  q_dst :: string
  q_addr :: string
  q_meth :: notify_method
  q_lastt :: int
  q_notif :: "ptr list"

text \<open>One run of a notification command: destination, notifications, command and input.\<close>

record transmission =
  t_dst :: string
  t_notes :: "ptr list"
  t_command :: string
  t_send :: string

datatype nfile = IdFile int | NoteFile notif_p

record notify_state =
  ns_heap :: "ptr \<Rightarrow> notif"
  ns_next :: ptr
  ns_byid :: "int \<rightharpoonup> ptr"
  ns_actives :: "int \<rightharpoonup> ptr"
  ns_queue :: "string \<rightharpoonup> queuedat"
  ns_methods :: "string \<rightharpoonup> notify_method"
  ns_chan :: "ptr list"
  ns_idno :: int
  ns_conf :: global_conf
  ns_files :: "string \<rightharpoonup> nfile"
  ns_sent :: "transmission list"
  ns_removed :: "(ptr \<times> ptr) list"

text \<open>What an operation reads from outside: the clock, the configuration's \<open>datadir\<close>, which
  files can be created, the template engine (template and data to text) and the date.\<close>

record notify_env =
  ne_now :: int
  ne_wall :: wall_clock
  ne_datadir :: string
  ne_create :: "string \<Rightarrow> bool"
  ne_exec :: "string \<Rightarrow> (string \<rightharpoonup> string) \<Rightarrow> string"
  ne_date :: "int \<Rightarrow> string"   \<comment> \<open>\<open>time.Unix(t, 0).Format("2/Jan 15:04")\<close>\<close>
  ne_time :: "int \<Rightarrow> string"   \<comment> \<open>the value \<open>time.Unix(t, 0)\<close> as the template engine prints it\<close>

definition globalDefaults :: global_conf where
  "globalDefaults = \<lparr>gc_Mail_From = ''argus'', gc_Message_Fmt = ''{{.IDNO}} {{.CREATED}} {{.CONTENT}}'',
     gc_Message_Style = [], gc_ACL_NotifyDetail = ''staff root'', gc_ACL_NotifyList = ''staff root'',
     gc_ACL_NotifyAck = ''staff root'', gc_Notify_Discard = 30 * 24 * 3600\<rparr>"

definition NotifyCfDefaults :: notify_conf where
  "NotifyCfDefaults = \<lparr>nc_Notify = replicate 6 None, nc_NotifyAlso = [], nc_MessageUp = [], nc_MessageDn = [],
     nc_UnAck_Timeout = 24 * 3600, nc_Renotify = 300,
     nc_AutoAck = [False, True, False, False, False, False],
     nc_AckOnUp = replicate 6 False, nc_Ack_On_Better = replicate 6 False,
     nc_Ack_On_Worse = [True, False, False, False, False, False],
     nc_Escalate = replicate 6 []\<rparr>"

definition note_NewCF :: notify_conf where
  "note_NewCF = NotifyCfDefaults"

definition default_methods :: "string \<rightharpoonup> notify_method" where
  "default_methods =
     [''mail'' \<mapsto> \<lparr>me_builtin = True, me_Command = ''sendmail -t -f {{.MAILFROM}}'',
        me_Send = ''To: {{.MAILTO}}'' @ [CHR 0x0A] @ ''From: {{.MAILFROM}}'' @ [CHR 0x0A]
          @ ''Subject: {{.SUBJECT}}'' @ [CHR 0x0A, CHR 0x0A] @ ''{{.CONTENT}}'' @ [CHR 0x0A],
        me_Qtime = 300\<rparr>,
      ''qpage'' \<mapsto> \<lparr>me_builtin = True, me_Command = ''qpage'',
        me_Send = ''{{.CONTENT}}{{.ESCALATED}}'', me_Qtime = 0\<rparr>]"

definition upd_n :: "ptr \<Rightarrow> (notif \<Rightarrow> notif) \<Rightarrow> notify_state \<Rightarrow> notify_state" where
  "upd_n p f st = st\<lparr>ns_heap := (ns_heap st)(p := f (ns_heap st p))\<rparr>"

definition note_log :: "int \<Rightarrow> string \<Rightarrow> string \<Rightarrow> notif \<Rightarrow> notif" where
  "note_log now who msg n = n\<lparr>n_Log := n_Log n @ [\<lparr>ld_When = now, ld_Who = who, ld_Msg = msg\<rparr>]\<rparr>"

section \<open>Files\<close>

definition note_file :: "notify_env \<Rightarrow> int \<Rightarrow> string" where
  "note_file env idno = ne_datadir env @ ''/notify/'' @ show_int idno"

definition save_file :: "notify_env \<Rightarrow> string \<Rightarrow> nfile \<Rightarrow> notify_state \<Rightarrow> notify_state" where
  "save_file env file x st =
     (if ne_datadir env = [] then st
      else if \<not> ne_create env (file @ ''.tmp'') then st
      else st\<lparr>ns_files := (ns_files st)(file \<mapsto> x)\<rparr>)"

definition saveIdNo :: "notify_env \<Rightarrow> notify_state \<Rightarrow> notify_state" where
  "saveIdNo env st = save_file env (ne_datadir env @ ''/notno'') (IdFile (ns_idno st)) st"

definition loadIdNo :: "notify_env \<Rightarrow> notify_state \<Rightarrow> notify_state" where
  "loadIdNo env st =
     (if ne_datadir env = [] then st
      else case ns_files st (ne_datadir env @ ''/notno'') of
             Some (IdFile i) \<Rightarrow> st\<lparr>ns_idno := i\<rparr>
           | _ \<Rightarrow> st)"

definition note_Save :: "notify_env \<Rightarrow> ptr \<Rightarrow> notify_state \<Rightarrow> notify_state" where
  "note_Save env p st =
     save_file env (note_file env (n_IdNo (ns_heap st p))) (NoteFile (notif_p.truncate (ns_heap st p))) st"

definition note_Load :: "notify_env \<Rightarrow> notify_conf option \<Rightarrow> int \<Rightarrow> ptr \<Rightarrow> notify_state \<Rightarrow> ptr option \<times> notify_state" where
  "note_Load env conf idno mon st =
     (case conf of
        None \<Rightarrow> (None, st)
      | Some cf \<Rightarrow>
          if ne_datadir env = [] then (None, st)
          else case ns_files st (note_file env idno) of
                 Some (NoteFile p) \<Rightarrow>
                   (Some (ns_next st),
                    st\<lparr>ns_heap := (ns_heap st)(ns_next st := notif_p.extend p (notif.fields cf mon)),
                       ns_next := Suc (ns_next st),
                       ns_chan := ns_chan st @ [ns_next st]\<rparr>)
               | _ \<Rightarrow> (None, st))"

definition nextIdNo :: "notify_env \<Rightarrow> notify_state \<Rightarrow> int \<times> notify_state" where
  "nextIdNo env st = (let st = st\<lparr>ns_idno := wrap64 (ns_idno st + 1)\<rparr>; st = saveIdNo env st in (ns_idno st, st))"

definition NumActive :: "notify_state \<Rightarrow> nat" where
  "NumActive st = card (dom (ns_actives st))"

section \<open>Message and destinations\<close>

definition expand :: "notify_env \<Rightarrow> notif_p \<Rightarrow> string \<Rightarrow> string \<Rightarrow> (string \<rightharpoonup> string) \<Rightarrow> string" where
  "expand env n templ content param =
     (let status = (if n_OvStatus n = CLEAR then ''UP'' else ''DOWN'');
          dat = [''IDNO'' \<mapsto> show_int (n_IdNo n), ''CREATED'' \<mapsto> ne_date env (n_Created n), ''TIME'' \<mapsto> ne_time env (n_Created n),
             ''CONTENT'' \<mapsto> content, ''BODY'' \<mapsto> content, ''MESSAGE'' \<mapsto> n_Message n,
             ''MESSAGEFMTED'' \<mapsto> n_MessageFmted n, ''OBJECT'' \<mapsto> n_Unique n, ''UNAME'' \<mapsto> n_ShortName n,
             ''FRIENDLY'' \<mapsto> n_FriendlyName n, ''REASON'' \<mapsto> n_Reason n, ''RESULT'' \<mapsto> n_Result n,
             ''STATUS'' \<mapsto> status, ''SEVERITY'' \<mapsto> Status_String (n_OvStatus n)]
      in ne_exec env templ (dat ++ param))"

definition determineMessage :: "notify_env \<Rightarrow> global_conf \<Rightarrow> new_conf \<Rightarrow> notif_p \<Rightarrow> notif_p" where
  "determineMessage env gc ncf n =
     (let st = n_OvStatus n; cf = nw_Conf ncf in
      if st = CLEAR \<and> nc_MessageUp cf \<noteq> [] then n\<lparr>n_Message := expand env n (nc_MessageUp cf) [] Map.empty\<rparr>
      else if st \<noteq> CLEAR \<and> nc_MessageDn cf \<noteq> [] then n\<lparr>n_Message := expand env n (nc_MessageDn cf) [] Map.empty\<rparr>
      else
        let bmsg = (if gc_Message_Style gc = ''long'' then nw_Unique ncf
                    else if gc_Message_Style gc = ''short'' then nw_ShortName ncf
                    else nw_FriendlyName ncf)
        in n\<lparr>n_Message := (if st = CLEAR then bmsg @ '' is UP''
                          else bmsg @ '' is DOWN/'' @ Status_String st)\<rparr>)"

definition escalate_entry :: "string \<Rightarrow> senddat option" where
  "escalate_entry e =
     (case go_fields e of
        t # d # ds \<Rightarrow> (case Timespec t 60 of
            Inl _ \<Rightarrow> None
          | Inr w \<Rightarrow> Some \<lparr>sd_When = w, sd_Last = 0, sd_Dst = d # ds\<rparr>)
      | _ \<Rightarrow> None)"

text \<open>\<^const>\<open>None\<close>: the panic of indexing the per-status arrays with a negative status.\<close>

definition determineSendTo :: "notify_env \<Rightarrow> notify_conf \<Rightarrow> status \<Rightarrow> senddat list option" where
  "determineSendTo env cf st = do {
     ns \<leftarrow> elem_at (nc_Notify cf) st;
     ns0 \<leftarrow> elem_at (nc_Notify cf) UNKNOWN;
     let ns = (if ns = None then ns0 else ns);
     let dst = (case ns of None \<Rightarrow> [] | Some s \<Rightarrow> go_fields (ResultNow (ne_wall env) s []));
     let dst = dst @ go_fields (nc_NotifyAlso cf);
     let sendto = (if dst = [] then [] else [\<lparr>sd_When = 0, sd_Last = 0, sd_Dst = dst\<rparr>]);
     esc \<leftarrow> elem_at (nc_Escalate cf) st;
     esc0 \<leftarrow> elem_at (nc_Escalate cf) UNKNOWN;
     let esc = (if esc = [] then esc0 else esc);
     Some (if esc = [] then sendto
           else sendto @ List.map_filter escalate_entry (split_on (CHR '';'') esc))
   }"

definition note_New :: "notify_env \<Rightarrow> new_conf \<Rightarrow> ptr \<Rightarrow> notify_state \<Rightarrow> (ptr option \<times> notify_state) option" where
  "note_New env ncf mon st =
     (if nw_OvStatus ncf > CRITICAL then Some (None, st)
      else do {
        let (id, st) = nextIdNo env st;
        let n = \<lparr>n_IdNo = id, n_Created = ne_now env, n_LastSent = 0, n_IsActive = True, n_StepNo = 0,
                 n_Escalated = False, n_Message = [], n_MessageFmted = [],
                 n_Unique = nw_Unique ncf, n_ShortName = nw_ShortName ncf, n_FriendlyName = nw_FriendlyName ncf,
                 n_Reason = nw_Reason ncf, n_Result = nw_Result ncf, n_OvStatus = nw_OvStatus ncf,
                 n_PrevOv = nw_PrevOv ncf, n_CurrOv = nw_OvStatus ncf, n_Status = Map.empty,
                 n_SendTo = [], n_Log = []\<rparr>;
        let n = determineMessage env (ns_conf st) ncf n;
        sendto \<leftarrow> determineSendTo env (nw_Conf ncf) (n_OvStatus n);
        let n = n\<lparr>n_SendTo := sendto\<rparr>;
        let n = n\<lparr>n_MessageFmted := expand env n (gc_Message_Fmt (ns_conf st)) (n_Message n) Map.empty\<rparr>;
        if n_SendTo n = [] then Some (None, st)
        else do {
          let n = note_log (ne_now env) ''system'' ''created'' (notif_p.extend n (notif.fields (nw_Conf ncf) mon));
          let p = ns_next st;
          let st = st\<lparr>ns_heap := (ns_heap st)(p := n), ns_next := Suc p\<rparr>;
          let st = note_Save env p st;
          Some (Some p, st\<lparr>ns_chan := ns_chan st @ [p]\<rparr>)
        }
      })"

section \<open>Status changes and acknowledgement\<close>

definition note_Update :: "ptr \<Rightarrow> status \<Rightarrow> notify_state \<Rightarrow> notify_state" where
  "note_Update p status st =
     (if \<not> n_IsActive (ns_heap st p) then st
      else let st = upd_n p (\<lambda>n. n\<lparr>n_CurrOv := status\<rparr>) st in st\<lparr>ns_chan := ns_chan st @ [p]\<rparr>)"

definition ack :: "notify_env \<Rightarrow> string \<Rightarrow> ptr \<Rightarrow> notify_state \<Rightarrow> notify_state" where
  "ack env who p st =
     (let st = upd_n p (\<lambda>n. n\<lparr>n_IsActive := False\<rparr>) st;
          st = st\<lparr>ns_actives := (ns_actives st)(n_IdNo (ns_heap st p) := None)\<rparr>;
          st = note_Save env p st
      in upd_n p (\<lambda>n. let n = note_log (ne_now env) who ''acked'' n
                    in n\<lparr>n_Status := map_option (\<lambda>_. ''acked'') \<circ> n_Status n\<rparr>) st)"

definition flag_at :: "bool list \<Rightarrow> status \<Rightarrow> bool option" where
  "flag_at arr st = do { a \<leftarrow> elem_at arr st; b \<leftarrow> elem_at arr UNKNOWN; Some (a \<or> b) }"

definition maybeAck :: "notify_env \<Rightarrow> ptr \<Rightarrow> notify_state \<Rightarrow> notify_state option" where
  "maybeAck env p st =
     (let n = ns_heap st p; cf = n_cf n; ost = n_OvStatus n; nst = n_CurrOv n in do {
        up \<leftarrow> (if nst = CLEAR \<and> ost < int (length (nc_AckOnUp cf)) then flag_at (nc_AckOnUp cf) ost else Some False);
        if up then Some (ack env ''auto'' p st)
        else do {
          worse \<leftarrow> (if nst > ost \<and> ost < int (length (nc_Ack_On_Worse cf)) then flag_at (nc_Ack_On_Worse cf) ost else Some False);
          if worse then Some (ack env ''auto'' p st)
          else do {
            better \<leftarrow> (if nst < ost \<and> ost < int (length (nc_Ack_On_Better cf)) then flag_at (nc_Ack_On_Better cf) ost else Some False);
            Some (if better then ack env ''auto'' p st else st)
          }
        }
      })"

definition maybeAutoAck :: "notify_env \<Rightarrow> ptr \<Rightarrow> notify_state \<Rightarrow> notify_state option" where
  "maybeAutoAck env p st =
     (let n = ns_heap st p; cf = n_cf n in
      if n_OvStatus n \<ge> int (length (nc_AutoAck cf)) then Some st
      else do {
        auto \<leftarrow> flag_at (nc_AutoAck cf) (n_OvStatus n);
        Some (if auto then ack env ''auto'' p st else st)
      })"

definition statusChange :: "notify_env \<Rightarrow> ptr \<Rightarrow> notify_state \<Rightarrow> notify_state option" where
  "statusChange env p st = (if \<not> n_IsActive (ns_heap st p) then Some st else maybeAck env p st)"

section \<open>Queues\<close>

definition methodForDst :: "(string \<rightharpoonup> notify_method) \<Rightarrow> string \<Rightarrow> notify_method option \<times> string" where
  "methodForDst methods dst =
     (case split2 '':'' dst of
        a # b # _ \<Rightarrow> (methods a, b)
      | _ \<Rightarrow> (methods ''mail'', dst))"

text \<open>The queue of a destination, created on first use; \<^const>\<open>None\<close> when no method serves it.\<close>

definition queue_for :: "(string \<rightharpoonup> notify_method) \<Rightarrow> (string \<rightharpoonup> queuedat) \<Rightarrow> string \<Rightarrow> queuedat option" where
  "queue_for methods queue d =
     (case queue d of
        Some qd \<Rightarrow> Some qd
      | None \<Rightarrow> (case methodForDst methods d of
           (None, addr) \<Rightarrow> None
         | (Some meth, addr) \<Rightarrow>
             Some \<lparr>q_dst = d, q_addr = addr, q_meth = meth, q_lastt = 0, q_notif = []\<rparr>))"

fun addToQueue :: "int \<Rightarrow> (string \<rightharpoonup> notify_method) \<Rightarrow> ptr \<Rightarrow> string list
    \<Rightarrow> notif \<times> (string \<rightharpoonup> queuedat) \<Rightarrow> notif \<times> (string \<rightharpoonup> queuedat)" where
  "addToQueue now methods p [] s = s"
| "addToQueue now methods p (d # ds) (n, queue) =
     (case queue_for methods queue d of
           None \<Rightarrow> addToQueue now methods p ds (note_log now d ''failed'' n, queue)
         | Some qd \<Rightarrow>
             addToQueue now methods p ds
               ((note_log now d ''queued'' n)\<lparr>n_Status := (n_Status n)(d \<mapsto> ''queued'')\<rparr>,
                queue(d \<mapsto> qd\<lparr>q_notif := q_notif qd @ [p]\<rparr>)))"

definition set_Last :: "nat \<Rightarrow> int \<Rightarrow> notif \<Rightarrow> notif" where
  "set_Last i now n = n\<lparr>n_SendTo := (n_SendTo n)[i := (n_SendTo n ! i)\<lparr>sd_Last := now\<rparr>]\<rparr>"

text \<open>The initial send and the escalations: at most one step each time.\<close>

definition queue_step :: "int \<Rightarrow> (string \<rightharpoonup> notify_method) \<Rightarrow> ptr
    \<Rightarrow> notif \<times> (string \<rightharpoonup> queuedat) \<Rightarrow> notif \<times> (string \<rightharpoonup> queuedat)" where
  "queue_step now methods p s =
     (let (n, queue) = s; k = n_StepNo n in
      if length (n_SendTo n) > k \<and> wrap64 (sd_When (n_SendTo n ! k) + n_Created n) \<le> now then
        let (n, queue) = addToQueue now methods p (sd_Dst (n_SendTo n ! k)) (set_Last k now n, queue)
        in ((if k > 0 then n\<lparr>n_Escalated := True\<rparr> else n)\<lparr>n_StepNo := Suc k\<rparr>, queue)
      else (n, queue))"

fun resend :: "int \<Rightarrow> (string \<rightharpoonup> notify_method) \<Rightarrow> ptr \<Rightarrow> nat list
    \<Rightarrow> notif \<times> (string \<rightharpoonup> queuedat) \<Rightarrow> notif \<times> (string \<rightharpoonup> queuedat)" where
  "resend now methods p [] s = s"
| "resend now methods p (i # is) (n, queue) =
     (let s = n_SendTo n ! i in
      if i \<ge> n_StepNo n then (n, queue)
      else if sd_Last s = 0 then resend now methods p is (n, queue)
      else if wrap64 (sd_Last s + nc_Renotify (n_cf n)) \<le> now then
        resend now methods p is (addToQueue now methods p (sd_Dst s) (set_Last i now n, queue))
      else resend now methods p is (n, queue))"

definition maybeQueue :: "notify_env \<Rightarrow> ptr \<Rightarrow> notify_state \<Rightarrow> notify_state" where
  "maybeQueue env p st =
     (let n = ns_heap st p; now = ne_now env in
      if \<not> n_IsActive n then st
      else
        let s = queue_step now (ns_methods st) p (n, ns_queue st);
            (n, queue) = (if nc_Renotify (n_cf n) = 0 then s
                          else resend now (ns_methods st) p [0..<length (n_SendTo n)] s)
        in st\<lparr>ns_heap := (ns_heap st)(p := n), ns_queue := queue\<rparr>)"

section \<open>Transmission\<close>

definition transmit :: "notify_env \<Rightarrow> notify_method \<Rightarrow> string \<Rightarrow> string \<Rightarrow> ptr list \<Rightarrow> notify_state \<Rightarrow> notify_state" where
  "transmit env m dst addr notes st =
     (let ns = map (ns_heap st) notes;
          subj = (if list_ex (\<lambda>n. n_OvStatus n \<noteq> CLEAR) ns then ''Argus - DOWN'' else ''Argus'');
          joinWith = (if list_ex (\<lambda>n. CHR 0x0A \<in> set (n_MessageFmted n)) ns then [CHR 0x0A, CHR 0x0A] else [CHR 0x0A]);
          subj = (if list_ex n_Escalated ns then subj @ '' (Escalated)'' else subj);
          content = join joinWith (map n_MessageFmted ns);
          from = gc_Mail_From (ns_conf st);
          dat = [''MAILFROM'' \<mapsto> from, ''SENDER'' \<mapsto> from, ''MAILTO'' \<mapsto> addr, ''ADDR'' \<mapsto> addr,
                 ''RCPT'' \<mapsto> addr, ''SUBJECT'' \<mapsto> subj];
          n0 = notif_p.truncate (hd ns)
      in st\<lparr>ns_sent := ns_sent st @ [\<lparr>t_dst = dst, t_notes = notes,
             t_command = expand env n0 (me_Command m) content dat,
             t_send = expand env n0 (me_Send m) content dat\<rparr>]\<rparr>)"

definition mark_sent :: "int \<Rightarrow> string \<Rightarrow> notif \<Rightarrow> notif" where
  "mark_sent now dst n =
     (note_log now dst ''transmit'' (n\<lparr>n_LastSent := now\<rparr>))\<lparr>n_Status := (n_Status n)(dst \<mapsto> ''sent'')\<rparr>"

fun sent_loop :: "notify_env \<Rightarrow> string \<Rightarrow> ptr list \<Rightarrow> notify_state \<Rightarrow> notify_state option" where
  "sent_loop env dst [] st = Some st"
| "sent_loop env dst (p # ps) st = do {
     let st = upd_n p (mark_sent (ne_now env) dst) st;
     st \<leftarrow> maybeAutoAck env p st;
     sent_loop env dst ps st
   }"

text \<open>\<open>for dst, qd := range dstQueue\<close>: \<open>order\<close> lists the keys in the order they are visited. A
  queue whose notifications are all inactive ends the whole pass (\<open>return\<close>).\<close>

fun run_queues :: "notify_env \<Rightarrow> string list \<Rightarrow> notify_state \<Rightarrow> notify_state option" where
  "run_queues env [] st = Some st"
| "run_queues env (dst # order) st =
     (case ns_queue st dst of
        None \<Rightarrow> run_queues env order st
      | Some qd \<Rightarrow>
          if q_notif qd = [] then run_queues env order st
          else if \<not> wrap64 (q_lastt qd + me_Qtime (q_meth qd)) \<le> ne_now env then run_queues env order st
          else
            let ns = filter (\<lambda>p. n_IsActive (ns_heap st p)) (q_notif qd) in
            if ns = [] then Some st
            else do {
              let st = st\<lparr>ns_queue := (ns_queue st)(dst \<mapsto> qd\<lparr>q_notif := [], q_lastt := ne_now env\<rparr>)\<rparr>;
              let st = (if me_Qtime (q_meth qd) = 0
                        then foldl (\<lambda>st p. transmit env (q_meth qd) dst (q_addr qd) [p] st) st ns
                        else transmit env (q_meth qd) dst (q_addr qd) ns st);
              st \<leftarrow> sent_loop env dst ns st;
              run_queues env order st
            })"

section \<open>The worker\<close>

definition discard :: "ptr \<Rightarrow> notify_state \<Rightarrow> notify_state" where
  "discard p st =
     (let n = ns_heap st p in
      st\<lparr>ns_byid := (ns_byid st)(n_IdNo n := None), ns_actives := (ns_actives st)(n_IdNo n := None),
         ns_removed := ns_removed st @ [(n_mon n, p)]\<rparr>)"

definition note_register :: "ptr \<Rightarrow> notify_state \<Rightarrow> notify_state" where
  "note_register p st =
     (let n = ns_heap st p; st = st\<lparr>ns_byid := (ns_byid st)(n_IdNo n \<mapsto> p)\<rparr>
      in if n_IsActive n then st\<lparr>ns_actives := (ns_actives st)(n_IdNo n \<mapsto> p)\<rparr> else st)"

definition note_work :: "notify_env \<Rightarrow> ptr \<Rightarrow> notify_state \<Rightarrow> notify_state option" where
  "note_work env p st =
     (let n = ns_heap st p in
      if ns_byid st (n_IdNo n) = None then Some (maybeQueue env p (note_register p st))
      else statusChange env p st)"

text \<open>\<open>ids\<close> is the order in which the map is visited; an entry deleted meanwhile is skipped.\<close>

fun maint_active :: "notify_env \<Rightarrow> int list \<Rightarrow> notify_state \<Rightarrow> notify_state" where
  "maint_active env [] st = st"
| "maint_active env (i # ids) st =
     (case ns_actives st i of
        None \<Rightarrow> maint_active env ids st
      | Some p \<Rightarrow>
          let n = ns_heap st p; cf = n_cf n in
          if nc_UnAck_Timeout cf > 0 \<and> wrap64 (n_Created n + nc_UnAck_Timeout cf) < ne_now env
          then maint_active env ids (ack env ''timeout'' p st)
          else maint_active env ids (maybeQueue env p st))"

fun maint_discard :: "notify_env \<Rightarrow> int list \<Rightarrow> notify_state \<Rightarrow> notify_state" where
  "maint_discard env [] st = st"
| "maint_discard env (i # ids) st =
     (case ns_byid st i of
        None \<Rightarrow> maint_discard env ids st
      | Some p \<Rightarrow>
          let d = gc_Notify_Discard (ns_conf st) in
          if d > 0 \<and> wrap64 (n_Created (ns_heap st p) + d) < ne_now env
          then maint_discard env ids (discard p st)
          else maint_discard env ids st)"

definition notifMaintenance :: "notify_env \<Rightarrow> int list \<Rightarrow> int list \<Rightarrow> notify_state \<Rightarrow> notify_state" where
  "notifMaintenance env ids1 ids2 st = maint_discard env ids2 (maint_active env ids1 st)"

text \<open>One turn of the worker's \<open>select\<close>: a notification from the channel, or the ticker.\<close>

definition worker_recv :: "notify_env \<Rightarrow> string list \<Rightarrow> notify_state \<Rightarrow> notify_state option" where
  "worker_recv env order st =
     (case ns_chan st of
        [] \<Rightarrow> Some st
      | p # ps \<Rightarrow> do { st \<leftarrow> note_work env p (st\<lparr>ns_chan := ps\<rparr>); run_queues env order st })"

definition worker_tick :: "notify_env \<Rightarrow> int list \<Rightarrow> int list \<Rightarrow> string list \<Rightarrow> notify_state \<Rightarrow> notify_state option" where
  "worker_tick env ids1 ids2 order st = run_queues env order (notifMaintenance env ids1 ids2 st)"

definition note_Stop :: "notify_env \<Rightarrow> int list \<Rightarrow> notify_state \<Rightarrow> notify_state" where
  "note_Stop env ids st =
     foldl (\<lambda>st i. case ns_byid st i of None \<Rightarrow> st | Some p \<Rightarrow> note_Save env p st) st ids"

definition cleanOldFiles :: "notify_env \<Rightarrow> string list \<Rightarrow> notify_state \<Rightarrow> notify_state" where
  "cleanOldFiles env all st =
     (if ne_datadir env = [] then st
      else foldl (\<lambda>st id.
             if has_prefix id ''.'' then st
             else if ns_byid st (atoi id) \<noteq> None then st
             else st\<lparr>ns_files := (ns_files st)(ne_datadir env @ ''/notify/'' @ id := None)\<rparr>) st all)"

section \<open>Methods and requests\<close>

text \<open>\<open>m\<close> is the method as configured; \<open>Inl\<close> carries the error.\<close>

definition NewMethod :: "string \<Rightarrow> notify_method \<Rightarrow> notify_state \<Rightarrow> string + notify_state" where
  "NewMethod name m st =
     (if me_Command m = [] then Inl ''Invalid Notification Method - command not specified''
      else case ns_methods st name of
             Some old \<Rightarrow> if \<not> me_builtin old then Inl (''Duplicate Method '' @ [CHR 0x27] @ name @ [CHR 0x27])
                        else Inr (st\<lparr>ns_methods := (ns_methods st)(name \<mapsto> m)\<rparr>)
           | None \<Rightarrow> Inr (st\<lparr>ns_methods := (ns_methods st)(name \<mapsto> m)\<rparr>))"

text \<open>\<open>strconv.ParseInt(s, 10, 32)\<close>, the error ignored: the value clamped to 32 bits.\<close>

definition parse_id32 :: "string \<Rightarrow> int" where
  "parse_id32 s = max (- (2 ^ 31)) (min (2 ^ 31 - 1) (atoi s))"

text \<open>The status code of the reply and the new state.\<close>

definition note_apiAck :: "notify_env \<Rightarrow> string \<Rightarrow> notify_state \<Rightarrow> int \<times> notify_state" where
  "note_apiAck env idno st =
     (case ns_byid st (parse_id32 idno) of
        None \<Rightarrow> (404, st)
      | Some p \<Rightarrow> (200, ack env ''api'' p st))"

definition webGetNotifyCreds :: "notify_state \<Rightarrow> (string \<times> string) option \<Rightarrow> string \<Rightarrow> int + (ptr \<times> string list)" where
  "webGetNotifyCreds st user idno =
     (case user of
        None \<Rightarrow> Inl 403
      | Some (name, groups) \<Rightarrow>
          let creds = go_fields groups in
          if \<not> ACLPermitsUser (gc_ACL_NotifyDetail (ns_conf st)) creds then Inl 403
          else case ns_byid st (parse_id32 idno) of
                 None \<Rightarrow> Inl 404
               | Some p \<Rightarrow> Inr (p, creds))"

definition note_webAck :: "notify_env \<Rightarrow> (string \<times> string) option \<Rightarrow> string \<Rightarrow> notify_state \<Rightarrow> int \<times> notify_state" where
  "note_webAck env user idno st =
     (case webGetNotifyCreds st user idno of
        Inl code \<Rightarrow> (code, st)
      | Inr (p, creds) \<Rightarrow>
          if \<not> ACLPermitsUser (gc_ACL_NotifyAck (ns_conf st)) creds then (403, st)
          else (200, ack env (fst (the user)) p st))"


section \<open>The notifier as a transition system\<close>

text \<open>
  One step of the notifier: the worker takes a notification from the channel or its ticker
  fires, a new notification is created, a status is passed on, or a user acknowledges. The
  environment (clock, template engine, visiting order) may differ at every step; \<open>good\<close> is what
  a property assumes of it, nothing for \<open>nstep\<close>.
\<close>

inductive nstep_in :: "(notify_env \<Rightarrow> bool) \<Rightarrow> notify_state \<Rightarrow> notify_state \<Rightarrow> bool" for good where
  recv: "good env \<Longrightarrow> worker_recv env order st = Some st' \<Longrightarrow> nstep_in good st st'"
| tick: "good env \<Longrightarrow> worker_tick env ids1 ids2 order st = Some st' \<Longrightarrow> nstep_in good st st'"
| new: "good env \<Longrightarrow> note_New env ncf mon st = Some (r, st') \<Longrightarrow> nstep_in good st st'"
| update: "nstep_in good st (note_Update p status st)"
| acked: "nstep_in good st (ack env who p st)"

abbreviation nstep :: "notify_state \<Rightarrow> notify_state \<Rightarrow> bool" where
  "nstep \<equiv> nstep_in (\<lambda>_. True)"

inductive_cases nstepE: "nstep_in good st st'"

text \<open>
  Escalation: the steps before \<open>StepNo\<close> have been sent, none before its time; the others
  have not.
\<close>

definition in64 :: "int \<Rightarrow> bool" where
  "in64 x \<longleftrightarrow> - (2 ^ 63) \<le> x \<and> x < 2 ^ 63"

lemma wrap64_in64: "in64 x \<Longrightarrow> wrap64 x = x"
  by (simp add: in64_def)

text \<open>A clock after 1970 that is far from the end of \<open>int64\<close>.\<close>

definition sane_clock :: "notify_env \<Rightarrow> bool" where
  "sane_clock env \<longleftrightarrow> 0 \<le> ne_now env \<and> ne_now env < 2 ^ 62"

text \<open>A step that was sent: the time is a clock time, and not before the time of the step.\<close>

definition sent_ok :: "notif \<Rightarrow> senddat \<Rightarrow> bool" where
  "sent_ok n d \<longleftrightarrow> 0 \<le> sd_Last d \<and> sd_Last d < 2 ^ 62
     \<and> (0 \<le> nc_Renotify (n_cf n) \<longrightarrow> nc_Renotify (n_cf n) < 2 ^ 62 \<longrightarrow> in64 (sd_When d + n_Created n) \<longrightarrow>
          sd_When d + n_Created n \<le> sd_Last d)"

definition steps_ok :: "notif \<Rightarrow> bool" where
  "steps_ok n \<longleftrightarrow> n_StepNo n \<le> length (n_SendTo n)
     \<and> (\<forall>i < length (n_SendTo n).
          (if i < n_StepNo n then sent_ok n (n_SendTo n ! i) else sd_Last (n_SendTo n ! i) = 0))"

text \<open>What saving, logging and queueing leave alone.\<close>

lemma save_file_frame [simp]:
  "ns_heap (save_file env f x st) = ns_heap st" "ns_next (save_file env f x st) = ns_next st"
  "ns_byid (save_file env f x st) = ns_byid st" "ns_actives (save_file env f x st) = ns_actives st"
  "ns_queue (save_file env f x st) = ns_queue st" "ns_chan (save_file env f x st) = ns_chan st"
  "ns_sent (save_file env f x st) = ns_sent st" "ns_conf (save_file env f x st) = ns_conf st"
  "ns_methods (save_file env f x st) = ns_methods st" "ns_idno (save_file env f x st) = ns_idno st"
  by (simp_all add: save_file_def)

lemma note_Save_frame [simp]:
  "ns_heap (note_Save env p st) = ns_heap st" "ns_next (note_Save env p st) = ns_next st"
  "ns_byid (note_Save env p st) = ns_byid st" "ns_actives (note_Save env p st) = ns_actives st"
  "ns_queue (note_Save env p st) = ns_queue st" "ns_chan (note_Save env p st) = ns_chan st"
  "ns_sent (note_Save env p st) = ns_sent st" "ns_idno (note_Save env p st) = ns_idno st"
  by (simp_all add: note_Save_def)

lemma note_log_frame [simp]:
  "n_IsActive (note_log now who msg n) = n_IsActive n" "n_IdNo (note_log now who msg n) = n_IdNo n"
  "n_SendTo (note_log now who msg n) = n_SendTo n" "n_StepNo (note_log now who msg n) = n_StepNo n"
  "n_Created (note_log now who msg n) = n_Created n" "n_cf (note_log now who msg n) = n_cf n"
  "n_mon (note_log now who msg n) = n_mon n"
  by (simp_all add: note_log_def)

lemma upd_n_frame [simp]:
  "ns_heap (upd_n p f st) = (ns_heap st)(p := f (ns_heap st p))" "ns_next (upd_n p f st) = ns_next st"
  "ns_byid (upd_n p f st) = ns_byid st" "ns_actives (upd_n p f st) = ns_actives st"
  "ns_queue (upd_n p f st) = ns_queue st" "ns_sent (upd_n p f st) = ns_sent st"
  by (simp_all add: upd_n_def)

lemma ack_frame [simp]:
  "ns_next (ack env who p st) = ns_next st" "ns_byid (ack env who p st) = ns_byid st"
  "ns_queue (ack env who p st) = ns_queue st" "ns_sent (ack env who p st) = ns_sent st"
  "ns_actives (ack env who p st) = (ns_actives st)(n_IdNo (ns_heap st p) := None)"
  "q \<noteq> p \<Longrightarrow> ns_heap (ack env who p st) q = ns_heap st q"
  by (simp_all add: ack_def Let_def)

lemma ack_note [simp]:
  "n_IsActive (ns_heap (ack env who p st) q) = (n_IsActive (ns_heap st q) \<and> q \<noteq> p)"
  "n_SendTo (ns_heap (ack env who p st) q) = n_SendTo (ns_heap st q)"
  "n_StepNo (ns_heap (ack env who p st) q) = n_StepNo (ns_heap st q)"
  "n_Created (ns_heap (ack env who p st) q) = n_Created (ns_heap st q)"
  "n_IdNo (ns_heap (ack env who p st) q) = n_IdNo (ns_heap st q)"
  "n_cf (ns_heap (ack env who p st) q) = n_cf (ns_heap st q)"
  by (simp_all add: ack_def Let_def)

lemma maybeAck_cases: "maybeAck env p st = Some st' \<Longrightarrow> st' = st \<or> st' = ack env ''auto'' p st"
  by (auto simp: maybeAck_def Let_def bind_eq_Some_conv split: if_splits)

lemma maybeAutoAck_cases: "maybeAutoAck env p st = Some st' \<Longrightarrow> st' = st \<or> st' = ack env ''auto'' p st"
  by (auto simp: maybeAutoAck_def Let_def bind_eq_Some_conv split: if_splits)

lemma statusChange_cases: "statusChange env p st = Some st' \<Longrightarrow> st' = st \<or> st' = ack env ''auto'' p st"
  by (auto simp: statusChange_def dest: maybeAck_cases split: if_splits)

lemma addToQueue_note:
  "\<exists>log status. fst (addToQueue now methods p ds (n, queue)) = n\<lparr>n_Log := log, n_Status := status\<rparr>"
proof (induction ds arbitrary: n queue)
  case Nil
  have "n = n\<lparr>n_Log := n_Log n, n_Status := n_Status n\<rparr>" by simp
  then show ?case by (metis addToQueue.simps(1) fst_conv)
next
  case (Cons d ds)
  show ?case
  proof (cases "queue_for methods queue d")
    case None
    with Cons [of "note_log now d ''failed'' n" queue] show ?thesis by (auto simp: note_log_def)
  next
    case (Some qd)
    with Cons [of "(note_log now d ''queued'' n)\<lparr>n_Status := (n_Status n)(d \<mapsto> ''queued'')\<rparr>"
                "queue(d \<mapsto> qd\<lparr>q_notif := q_notif qd @ [p]\<rparr>)"]
    show ?thesis by (auto simp: note_log_def simp del: fun_upd_apply)
  qed
qed

lemma addToQueue_frame [simp]:
  "n_IsActive (fst (addToQueue now methods p ds (n, queue))) = n_IsActive n"
  "n_IdNo (fst (addToQueue now methods p ds (n, queue))) = n_IdNo n"
  "n_SendTo (fst (addToQueue now methods p ds (n, queue))) = n_SendTo n"
  "n_StepNo (fst (addToQueue now methods p ds (n, queue))) = n_StepNo n"
  "n_Created (fst (addToQueue now methods p ds (n, queue))) = n_Created n"
  "n_cf (fst (addToQueue now methods p ds (n, queue))) = n_cf n"
  using addToQueue_note [of now methods p ds n queue] by auto

lemma maybeQueue_frame [simp]:
  "ns_next (maybeQueue env p st) = ns_next st" "ns_sent (maybeQueue env p st) = ns_sent st"
  "ns_byid (maybeQueue env p st) = ns_byid st" "ns_actives (maybeQueue env p st) = ns_actives st"
  "q \<noteq> p \<Longrightarrow> ns_heap (maybeQueue env p st) q = ns_heap st q"
  by (simp_all add: maybeQueue_def Let_def split: prod.split)

lemma maybeQueue_inactive [simp]: "\<not> n_IsActive (ns_heap st p) \<Longrightarrow> maybeQueue env p st = st"
  by (simp add: maybeQueue_def)

lemma transmit_frame [simp]:
  "ns_heap (transmit env m dst addr notes st) = ns_heap st" "ns_next (transmit env m dst addr notes st) = ns_next st"
  "ns_byid (transmit env m dst addr notes st) = ns_byid st" "ns_actives (transmit env m dst addr notes st) = ns_actives st"
  by (simp_all add: transmit_def Let_def)

lemma mark_sent_frame [simp]:
  "n_IsActive (mark_sent now dst n) = n_IsActive n" "n_IdNo (mark_sent now dst n) = n_IdNo n"
  "n_SendTo (mark_sent now dst n) = n_SendTo n" "n_StepNo (mark_sent now dst n) = n_StepNo n"
  "n_Created (mark_sent now dst n) = n_Created n" "n_cf (mark_sent now dst n) = n_cf n"
  by (simp_all add: mark_sent_def)

lemma note_register_frame [simp]:
  "ns_heap (note_register p st) = ns_heap st" "ns_next (note_register p st) = ns_next st"
  "ns_sent (note_register p st) = ns_sent st"
  by (simp_all add: note_register_def Let_def)

lemma discard_frame [simp]:
  "ns_heap (discard p st) = ns_heap st" "ns_next (discard p st) = ns_next st" "ns_sent (discard p st) = ns_sent st"
  by (simp_all add: discard_def Let_def)

lemma note_Update_frame [simp]:
  "ns_next (note_Update p status st) = ns_next st" "ns_sent (note_Update p status st) = ns_sent st"
  "ns_byid (note_Update p status st) = ns_byid st" "ns_actives (note_Update p status st) = ns_actives st"
  "n_IsActive (ns_heap (note_Update p status st) q) = n_IsActive (ns_heap st q)"
  "n_IdNo (ns_heap (note_Update p status st) q) = n_IdNo (ns_heap st q)"
  "steps_ok (ns_heap (note_Update p status st) q) = steps_ok (ns_heap st q)"
  by (simp_all add: note_Update_def Let_def steps_ok_def sent_ok_def)

section \<open>What holds of every step holds of every run\<close>

text \<open>
  A reflexive and transitive relation on states that contains the notifier's primitive
  actions contains every operation, every step and every run. The primitives are: queue,
  channel and registry updates, a transmission of active notifications and its mark,
  acknowledging, queueing, discarding, passing a status on, and creation.
\<close>

locale notifier_relation =
  fixes R :: "notify_state \<Rightarrow> notify_state \<Rightarrow> bool" and good :: "notify_env \<Rightarrow> bool"
  assumes R_refl: "R st st"
    and R_trans: "R a b \<Longrightarrow> R b c \<Longrightarrow> R a c"
    and R_queue: "R st (st\<lparr>ns_queue := q\<rparr>)"
    and R_chan: "R st (st\<lparr>ns_chan := ch\<rparr>)"
    and R_transmit: "\<forall>p \<in> set notes. n_IsActive (ns_heap st p) \<Longrightarrow> R st (transmit env m dst addr notes st)"
    and R_mark: "R st (upd_n p (mark_sent now dst) st)"
    and R_ack: "R st (ack env who p st)"
    and R_maybeQueue: "good env \<Longrightarrow> R st (maybeQueue env p st)"
    and R_register: "ns_byid st (n_IdNo (ns_heap st p)) = None \<Longrightarrow> R st (note_register p st)"
    and R_discard: "R st (discard p st)"
    and R_update: "R st (note_Update p status st)"
    and R_new: "note_New env ncf mon st = Some (r, st') \<Longrightarrow> R st st'"
begin

lemma transmit_each:
  "\<forall>p \<in> set ns. n_IsActive (ns_heap st p) \<Longrightarrow> R st (foldl (\<lambda>st p. transmit env m dst addr [p] st) st ns)"
proof (induction ns arbitrary: st)
  case (Cons p ns)
  then have "R st (transmit env m dst addr [p] st)" by (intro R_transmit) simp
  with Cons show ?case by (auto intro: R_trans)
qed (simp add: R_refl)

lemma maybeAutoAck: "maybeAutoAck env p st = Some st' \<Longrightarrow> R st st'"
  by (auto dest: maybeAutoAck_cases intro: R_refl R_ack)

lemma sent_loop: "sent_loop env dst ps st = Some st' \<Longrightarrow> R st st'"
proof (induction ps arbitrary: st)
  case (Cons p ps)
  then obtain s where s: "maybeAutoAck env p (upd_n p (mark_sent (ne_now env) dst) st) = Some s"
      "sent_loop env dst ps s = Some st'"
    by (auto simp: Let_def bind_eq_Some_conv)
  then show ?case using Cons.IH maybeAutoAck R_mark R_trans by metis
qed (simp add: R_refl)

lemma send_queue:
  assumes "ns_queue st dst = Some qd" "ns = filter (\<lambda>p. n_IsActive (ns_heap st p)) (q_notif qd)"
    and "s1 = st\<lparr>ns_queue := q\<rparr>"
    and "s2 = (if b then foldl (\<lambda>st p. transmit env m dst addr [p] st) s1 ns else transmit env m dst addr ns s1)"
  shows "R st s2"
proof -
  have "\<forall>p \<in> set ns. n_IsActive (ns_heap s1 p)" using assms(2,3) by simp
  then have "R s1 s2" using assms(4) R_transmit transmit_each by simp
  then show ?thesis using R_queue R_trans assms(3) by blast
qed

lemma run_queues: "run_queues env order st = Some st' \<Longrightarrow> R st st'"
proof (induction order arbitrary: st)
  case (Cons dst order)
  show ?case
  proof (cases "\<exists>qd. ns_queue st dst = Some qd \<and> q_notif qd \<noteq> []
                  \<and> wrap64 (q_lastt qd + me_Qtime (q_meth qd)) \<le> ne_now env
                  \<and> filter (\<lambda>p. n_IsActive (ns_heap st p)) (q_notif qd) \<noteq> []")
    case False
    with Cons show ?thesis by (auto simp: Let_def intro: R_refl split: option.splits if_splits)
  next
    case True
    then obtain qd where qd: "ns_queue st dst = Some qd" "q_notif qd \<noteq> []"
        "wrap64 (q_lastt qd + me_Qtime (q_meth qd)) \<le> ne_now env"
        "filter (\<lambda>p. n_IsActive (ns_heap st p)) (q_notif qd) \<noteq> []" by auto
    define ns where "ns = filter (\<lambda>p. n_IsActive (ns_heap st p)) (q_notif qd)"
    define s1 where "s1 = st\<lparr>ns_queue := (ns_queue st)(dst \<mapsto> qd\<lparr>q_notif := [], q_lastt := ne_now env\<rparr>)\<rparr>"
    define s2 where "s2 = (if me_Qtime (q_meth qd) = 0
                        then foldl (\<lambda>st p. transmit env (q_meth qd) dst (q_addr qd) [p] st) s1 ns
                        else transmit env (q_meth qd) dst (q_addr qd) ns s1)"
    have "run_queues env (dst # order) st = do { s3 \<leftarrow> sent_loop env dst ns s2; run_queues env order s3 }"
      using qd by (simp add: Let_def s1_def s2_def ns_def)
    with Cons.prems obtain s3 where s3: "sent_loop env dst ns s2 = Some s3" "run_queues env order s3 = Some st'"
      by (auto simp: bind_eq_Some_conv simp del: run_queues.simps)
    then show ?thesis
      using send_queue [OF qd(1) ns_def s1_def s2_def] sent_loop Cons.IH R_trans by metis
  qed
qed (simp add: R_refl)

lemma note_work: "good env \<Longrightarrow> note_work env p st = Some st' \<Longrightarrow> R st st'"
proof (cases "ns_byid st (n_IdNo (ns_heap st p)) = None")
  case True
  moreover assume g: "good env" and "note_work env p st = Some st'"
  ultimately have "st' = maybeQueue env p (note_register p st)" by (simp add: note_work_def)
  with g True show ?thesis using R_register R_maybeQueue R_trans by blast
next
  case False
  moreover assume "note_work env p st = Some st'"
  ultimately have "statusChange env p st = Some st'" by (auto simp: note_work_def Let_def)
  then show ?thesis by (auto dest: statusChange_cases intro: R_refl R_ack)
qed

lemma maintenance: "good env \<Longrightarrow> R st (notifMaintenance env ids1 ids2 st)"
proof -
  assume g: "good env"
  have "R st (maint_active env ids st)" for ids st
  proof (induction ids arbitrary: st)
    case (Cons i ids)
    have "R st (maint_active env ids (ack env ''timeout'' p st))" "R st (maint_active env ids (maybeQueue env p st))" for p
      using Cons R_ack R_maybeQueue [OF g] R_trans by blast+
    with Cons show ?case by (simp add: Let_def split: option.split)
  qed (simp add: R_refl)
  moreover have "R st (maint_discard env ids st)" for ids st
  proof (induction ids arbitrary: st)
    case (Cons i ids)
    have "R st (maint_discard env ids (discard p st))" for p
      using Cons R_discard R_trans by blast
    with Cons show ?case by (simp add: Let_def split: option.split)
  qed (simp add: R_refl)
  ultimately show ?thesis unfolding notifMaintenance_def using R_trans by blast
qed

lemma step: "nstep_in good st st' \<Longrightarrow> R st st'"
proof (induction rule: nstep_in.induct)
  case (recv env order st st')
  show ?case
  proof (cases "ns_chan st")
    case (Cons p ps)
    with recv obtain s where s: "note_work env p (st\<lparr>ns_chan := ps\<rparr>) = Some s" "run_queues env order s = Some st'"
      by (auto simp: worker_recv_def bind_eq_Some_conv)
    then show ?thesis using note_work [OF recv(1)] run_queues R_chan R_trans by metis
  qed (use recv in \<open>simp add: worker_recv_def R_refl\<close>)
next
  case (tick env ids1 ids2 order st st')
  then show ?case unfolding worker_tick_def using run_queues maintenance R_trans by metis
qed (auto intro: R_new R_update R_ack)

lemma steps: "(nstep_in good)\<^sup>*\<^sup>* st st' \<Longrightarrow> R st st'"
  by (induction rule: rtranclp_induct) (auto intro: R_refl R_trans step)

end

section \<open>Acknowledgement is final\<close>

text \<open>\<open>quiet q\<close>: if \<open>q\<close> was inactive it stays so, and nothing was transmitted for it.\<close>

definition quiet :: "ptr \<Rightarrow> notify_state \<Rightarrow> notify_state \<Rightarrow> bool" where
  "quiet q st st' \<longleftrightarrow>
     (q < ns_next st \<and> \<not> n_IsActive (ns_heap st q) \<longrightarrow>
        q < ns_next st' \<and> \<not> n_IsActive (ns_heap st' q)
        \<and> (\<exists>new. ns_sent st' = ns_sent st @ new \<and> (\<forall>t \<in> set new. q \<notin> set (t_notes t))))"

lemma quiet_refl [simp]: "quiet q st st"
  by (simp add: quiet_def)

lemma quiet_trans [trans]: "quiet q a b \<Longrightarrow> quiet q b c \<Longrightarrow> quiet q a c"
  unfolding quiet_def by (metis (no_types, lifting) Un_iff append.assoc set_append)

lemma quiet_same:
  assumes "ns_next st \<le> ns_next st'" "ns_sent st' = ns_sent st"
    and "q < ns_next st \<Longrightarrow> \<not> n_IsActive (ns_heap st q) \<Longrightarrow> \<not> n_IsActive (ns_heap st' q)"
  shows "quiet q st st'"
  using assms by (auto simp: quiet_def)


lemma note_New_frame:
  assumes "note_New env ncf mon st = Some (r, st')"
  shows "ns_sent st' = ns_sent st" "ns_next st \<le> ns_next st'"
    and "q \<noteq> ns_next st \<Longrightarrow> ns_heap st' q = ns_heap st q"
    and "ns_next st < ns_next st' \<Longrightarrow> ns_next st' = Suc (ns_next st)
      \<and> n_StepNo (ns_heap st' (ns_next st)) = 0 \<and> n_cf (ns_heap st' (ns_next st)) = nw_Conf ncf
      \<and> determineSendTo env (nw_Conf ncf) (nw_OvStatus ncf) = Some (n_SendTo (ns_heap st' (ns_next st)))"
  using assms
  by (auto simp: note_New_def nextIdNo_def saveIdNo_def Let_def bind_eq_Some_conv determineMessage_def
        notif_p.defs notif.defs split: if_splits)

interpretation silence: notifier_relation "quiet q" "\<lambda>_. True"
proof
  fix st :: notify_state and ns env m dst addr
  assume "\<forall>p \<in> set ns. n_IsActive (ns_heap st p)"
  then show "quiet q st (transmit env m dst addr ns st)" by (auto simp: quiet_def transmit_def Let_def)
next
  fix st env p
  show "quiet q st (maybeQueue env p st)"
  proof (cases "q = p \<and> \<not> n_IsActive (ns_heap st p)")
    case False
    then show ?thesis by (intro quiet_same) (auto, metis maybeQueue_frame(5))
  qed simp
next
  fix env ncf mon st r st'
  assume "note_New env ncf mon st = Some (r, st')"
  note f = note_New_frame [OF this]
  show "quiet q st st'" by (rule quiet_same) (use f in auto)
next
  fix st :: notify_state and p now dst
  show "quiet q st (upd_n p (mark_sent now dst) st)" by (rule quiet_same) auto
qed (auto intro: quiet_same quiet_trans)

text \<open>C9: acknowledging is final. Whatever the notifier does afterwards (new notifications,
  status changes, ticks, channel messages, in any order, with any clock), a notification that
  is not active never becomes active again and no command is run for it any more, even when
  it is still sitting in a queue.\<close>

theorem ack_is_final:
  assumes "nstep\<^sup>*\<^sup>* (ack env who p st) st'" and "p < ns_next st"
  shows "\<not> n_IsActive (ns_heap st' p)
    \<and> (\<exists>new. ns_sent st' = ns_sent st @ new \<and> (\<forall>t \<in> set new. p \<notin> set (t_notes t)))"
proof -
  have "quiet p (ack env who p st) st'" using assms(1) by (rule silence.steps)
  with assms(2) show ?thesis by (simp add: quiet_def)
qed

text \<open>The witness: a destination's notification is acknowledged while it waits in the queue.\<close>

definition witness_env :: "int \<Rightarrow> notify_env" where
  "witness_env now = \<lparr>ne_now = now, ne_wall = \<lparr>w_dow = 1, w_hrs = 12, w_min = 0\<rparr>, ne_datadir = [],
     ne_create = (\<lambda>_. True), ne_exec = (\<lambda>t d. t), ne_date = show_int, ne_time = show_int\<rparr>"

definition witness_new :: new_conf where
  "witness_new = \<lparr>nw_Conf = note_NewCF\<lparr>nc_NotifyAlso := ''ops'', nc_Escalate := ''10 boss'' # replicate 5 []\<rparr>,
     nw_Unique = ''Top:Web'', nw_ShortName = ''Web'', nw_FriendlyName = ''Web server'', nw_Reason = ''timeout'',
     nw_Result = [], nw_OvStatus = CRITICAL, nw_PrevOv = CLEAR\<rparr>"

definition witness_start :: notify_state where
  "witness_start = \<lparr>ns_heap = (\<lambda>_. undefined), ns_next = 0, ns_byid = Map.empty, ns_actives = Map.empty,
     ns_queue = Map.empty, ns_methods = default_methods, ns_chan = [], ns_idno = 1000, ns_conf = globalDefaults,
     ns_files = Map.empty, ns_sent = [], ns_removed = []\<rparr>"

definition witness_created :: "ptr option \<times> notify_state" where
  "witness_created = the (note_New (witness_env 1000) witness_new 7 witness_start)"

definition witness_queued :: notify_state where
  "witness_queued = the (worker_recv (witness_env 1000) [] (snd witness_created))"

definition witness_tick :: "notify_state option" where
  "witness_tick = worker_tick (witness_env 2000) [1001] [1001] [''ops''] (ack (witness_env 1001) ''api'' 0 witness_queued)"

lemma witness_runs:
  "ns_next witness_queued = 1 \<and> ns_sent witness_queued = [] \<and> map_option ns_next witness_tick = Some 1
   \<and> map_option q_notif (ns_queue witness_queued ''ops'') = Some [0]"
  by code_simp

theorem ack_is_final_witness:
  "\<not> n_IsActive (ns_heap (the witness_tick) 0) \<and> list_all (\<lambda>t. 0 \<notin> set (t_notes t)) (ns_sent (the witness_tick))
   \<and> map_option q_notif (ns_queue witness_queued ''ops'') = Some [0]"
proof -
  obtain st' where st': "witness_tick = Some st'" using witness_runs by auto
  then have "nstep (ack (witness_env 1001) ''api'' 0 witness_queued) st'"
    unfolding witness_tick_def by (rule nstep_in.tick [OF TrueI])
  then have "nstep\<^sup>*\<^sup>* (ack (witness_env 1001) ''api'' 0 witness_queued) st'" by blast
  from ack_is_final [OF this] show ?thesis
    unfolding st' option.sel using witness_runs by (auto simp: list_all_iff)
qed

section \<open>Escalation keeps its order and its times\<close>

definition notify_ok :: "notify_state \<Rightarrow> bool" where
  "notify_ok st \<longleftrightarrow> (\<forall>p < ns_next st. steps_ok (ns_heap st p))"

definition keeps_ok :: "notify_state \<Rightarrow> notify_state \<Rightarrow> bool" where
  "keeps_ok st st' \<longleftrightarrow> (notify_ok st \<longrightarrow> notify_ok st')"

lemma keeps_ok_same:
  assumes "ns_next st' = ns_next st" and "\<And>p. steps_ok (ns_heap st p) \<Longrightarrow> steps_ok (ns_heap st' p)"
  shows "keeps_ok st st'"
  using assms by (simp add: keeps_ok_def notify_ok_def)

lemma set_Last_frame [simp]:
  "n_IsActive (set_Last i now n) = n_IsActive n" "n_StepNo (set_Last i now n) = n_StepNo n"
  "n_Created (set_Last i now n) = n_Created n" "n_cf (set_Last i now n) = n_cf n"
  "n_IdNo (set_Last i now n) = n_IdNo n"
  "n_SendTo (set_Last i now n) = (n_SendTo n)[i := (n_SendTo n ! i)\<lparr>sd_Last := now\<rparr>]"
  by (simp_all add: set_Last_def)

lemma addToQueue_steps:
  assumes "addToQueue now methods p dst (set_Last i now n, queue) = (m, q)"
  shows "n_cf m = n_cf n" "n_Created m = n_Created n" "n_StepNo m = n_StepNo n"
    "n_SendTo m = (n_SendTo n)[i := (n_SendTo n ! i)\<lparr>sd_Last := now\<rparr>]"
  using addToQueue_frame [of now methods p dst "set_Last i now n" queue] assms by simp_all

lemma sent_ok_cong: "n_cf m = n_cf n \<Longrightarrow> n_Created m = n_Created n \<Longrightarrow> sent_ok m = sent_ok n"
  by (simp add: sent_ok_def fun_eq_iff)

lemma steps_ok_cong:
  "n_cf m = n_cf n \<Longrightarrow> n_Created m = n_Created n \<Longrightarrow> n_StepNo m = n_StepNo n \<Longrightarrow> n_SendTo m = n_SendTo n \<Longrightarrow> steps_ok m = steps_ok n"
  by (simp add: steps_ok_def sent_ok_cong [of m n])

lemma steps_ok_queue_step:
  assumes "steps_ok n" "0 \<le> now" "now < 2 ^ 62"
  shows "steps_ok (fst (queue_step now methods p (n, queue)))"
proof -
  let ?k = "n_StepNo n"
  show ?thesis
  proof (cases "length (n_SendTo n) > ?k \<and> wrap64 (sd_When (n_SendTo n ! ?k) + n_Created n) \<le> now")
    case True
    obtain m q where m: "addToQueue now methods p (sd_Dst (n_SendTo n ! ?k)) (set_Last ?k now n, queue) = (m, q)"
      by fastforce
    note f = addToQueue_steps [OF m]
    have "sent_ok n ((n_SendTo n ! ?k)\<lparr>sd_Last := now\<rparr>)"
      using True assms(2,3) by (auto simp: sent_ok_def wrap64_in64)
    moreover have "fst (queue_step now methods p (n, queue)) = (if ?k > 0 then m\<lparr>n_Escalated := True\<rparr> else m)\<lparr>n_StepNo := Suc ?k\<rparr>"
      using True m by (simp add: queue_step_def)
    moreover have "sent_ok ((if ?k > 0 then m\<lparr>n_Escalated := True\<rparr> else m)\<lparr>n_StepNo := Suc ?k\<rparr>) = sent_ok n"
      using f by (intro sent_ok_cong) simp_all
    ultimately show ?thesis using assms(1) True f by (auto simp: steps_ok_def nth_list_update less_Suc_eq)
  qed (use assms in \<open>auto simp: queue_step_def Let_def\<close>)
qed

lemma steps_ok_resend:
  assumes "0 \<le> now" "now < 2 ^ 62"
  shows "steps_ok n \<Longrightarrow> steps_ok (fst (resend now methods p is (n, queue)))"
proof (induction "is" arbitrary: n queue)
  case (Cons i "is")
  let ?s = "n_SendTo n ! i"
  show ?case
  proof (cases "i < n_StepNo n \<and> sd_Last ?s \<noteq> 0 \<and> wrap64 (sd_Last ?s + nc_Renotify (n_cf n)) \<le> now")
    case True
    obtain m q where m: "addToQueue now methods p (sd_Dst ?s) (set_Last i now n, queue) = (m, q)"
      by fastforce
    note f = addToQueue_steps [OF m]
    have i: "i < length (n_SendTo n)" using True Cons.prems by (simp add: steps_ok_def)
    have s: "sent_ok n ?s" using True Cons.prems by (simp add: steps_ok_def)
    have later: "sd_Last ?s \<le> now" if "0 \<le> nc_Renotify (n_cf n)" "nc_Renotify (n_cf n) < 2 ^ 62"
    proof -
      have "in64 (sd_Last ?s + nc_Renotify (n_cf n))" using s that by (simp add: sent_ok_def in64_def)
      then show ?thesis using True that(1) by (simp add: wrap64_in64)
    qed
    have "sent_ok n (?s\<lparr>sd_Last := now\<rparr>)" using s later assms by (fastforce simp: sent_ok_def)
    then have "steps_ok m"
      using Cons.prems f sent_ok_cong [OF f(1,2)] i True by (auto simp: steps_ok_def nth_list_update)
    then show ?thesis using True m Cons.IH by (simp add: Let_def)
  next
    case False
    then show ?thesis using Cons by (auto simp: Let_def)
  qed
qed simp

lemma steps_ok_maybeQueue:
  assumes "sane_clock env" "steps_ok (ns_heap st q)"
  shows "steps_ok (ns_heap (maybeQueue env p st) q)"
proof (cases "q = p \<and> n_IsActive (ns_heap st p)")
  case True
  obtain n queue where s: "queue_step (ne_now env) (ns_methods st) p (ns_heap st p, ns_queue st) = (n, queue)"
    by fastforce
  have now: "0 \<le> ne_now env" "ne_now env < 2 ^ 62" using assms(1) by (simp_all add: sane_clock_def)
  have "steps_ok n" using steps_ok_queue_step [OF _ now] assms(2) True s by (metis fst_conv)
  moreover from this have "steps_ok (fst (resend (ne_now env) (ns_methods st) p ns (n, queue)))" for ns
    by (rule steps_ok_resend [OF now])
  ultimately show ?thesis using True s
    by (simp add: maybeQueue_def Let_def split: prod.split) (metis fst_conv)
next
  case False
  with assms(2) show ?thesis by (metis maybeQueue_frame(5) maybeQueue_inactive)
qed

lemma escalate_entry_unsent: "escalate_entry e = Some d \<Longrightarrow> sd_Last d = 0"
  by (auto simp: escalate_entry_def split: list.splits sum.splits)

lemma determineSendTo_unsent:
  assumes "determineSendTo env cf st = Some ds" "d \<in> set ds"
  shows "sd_Last d = 0"
proof -
  have "sd_Last d = 0" if "d \<in> set (if b then [] else [\<lparr>sd_When = 0, sd_Last = 0, sd_Dst = x\<rparr>])" for b x
    using that by (simp split: if_splits)
  moreover have "sd_Last d = 0" if "d \<in> set (List.map_filter escalate_entry xs)" for xs
    using that escalate_entry_unsent by (force simp: map_filter_def)
  ultimately show ?thesis
    using assms unfolding determineSendTo_def Let_def
    by (fastforce simp: bind_eq_Some_conv split: if_splits)
qed

lemma steps_ok_New:
  assumes "note_New env ncf mon st = Some (r, st')" "notify_ok st"
  shows "notify_ok st'"
  unfolding notify_ok_def
proof (intro allI impI)
  fix p assume p: "p < ns_next st'"
  note f = note_New_frame [OF assms(1)]
  show "steps_ok (ns_heap st' p)"
  proof (cases "p < ns_next st")
    case True
    then show ?thesis using assms(2) f(3) [of p] by (simp add: notify_ok_def)
  next
    case False
    with p f(4) have "p = ns_next st" by simp
    with p f(4) show ?thesis
      using determineSendTo_unsent by (fastforce simp: steps_ok_def)
  qed
qed

interpretation escalation: notifier_relation keeps_ok sane_clock
proof
  fix st env p
  assume "sane_clock env"
  then show "keeps_ok st (maybeQueue env p st)" by (intro keeps_ok_same) (auto intro: steps_ok_maybeQueue)
next
  fix st :: notify_state and env who p
  have "steps_ok (ns_heap (ack env who p st) q) = steps_ok (ns_heap st q)" for q by (rule steps_ok_cong) simp_all
  then show "keeps_ok st (ack env who p st)" by (intro keeps_ok_same) simp_all
next
  fix st :: notify_state and now dst p
  have "steps_ok (ns_heap (upd_n p (mark_sent now dst) st) q) = steps_ok (ns_heap st q)" for q by (rule steps_ok_cong) auto
  then show "keeps_ok st (upd_n p (mark_sent now dst) st)" by (intro keeps_ok_same) simp_all
qed (auto simp: keeps_ok_def steps_ok_New intro: keeps_ok_same, auto simp: notify_ok_def)

text \<open>C15: escalation keeps its order and its times. In every state that the notifier can reach from an
  empty one while the clock is sane (between 1970 and \<open>2 ^ 62\<close> seconds), the number of steps sent
  never exceeds the table and no step after them has been sent: an escalation never overtakes an
  earlier one. A step that was sent, and every repetition of it, went out at or after its time
  counted from the creation, provided that this time fits in an \<open>int64\<close> and the repetition
  interval is between 0 and \<open>2 ^ 62\<close>; the code adds them without a check, and a sum that wraps is
  due at once (\<open>escalation_wraps\<close>).\<close>

theorem escalation_order:
  assumes "(nstep_in sane_clock)\<^sup>*\<^sup>* st st'" and "ns_next st = 0" and "p < ns_next st'" and "i < length (n_SendTo (ns_heap st' p))"
  shows "n_StepNo (ns_heap st' p) \<le> length (n_SendTo (ns_heap st' p))
    \<and> (if i < n_StepNo (ns_heap st' p)
       then 0 \<le> nc_Renotify (n_cf (ns_heap st' p)) \<and> nc_Renotify (n_cf (ns_heap st' p)) < 2 ^ 62
          \<and> in64 (sd_When (n_SendTo (ns_heap st' p) ! i) + n_Created (ns_heap st' p)) \<longrightarrow>
          sd_When (n_SendTo (ns_heap st' p) ! i) + n_Created (ns_heap st' p) \<le> sd_Last (n_SendTo (ns_heap st' p) ! i)
       else sd_Last (n_SendTo (ns_heap st' p) ! i) = 0)"
proof -
  have "notify_ok st" using assms(2) by (simp add: notify_ok_def)
  then have "notify_ok st'" using escalation.steps [OF assms(1)] by (simp add: keeps_ok_def)
  then have ok: "steps_ok (ns_heap st' p)" using assms(3) by (simp add: notify_ok_def)
  then have "i < n_StepNo (ns_heap st' p) \<Longrightarrow> sent_ok (ns_heap st' p) (n_SendTo (ns_heap st' p) ! i)"
    using assms(4) by (simp add: steps_ok_def)
  then show ?thesis using ok assms(4) by (auto simp: steps_ok_def sent_ok_def)
qed

text \<open>A step that is due after the end of time is sent at once.\<close>

lemma escalation_wraps:
  assumes "n_StepNo n = k" "k < length (n_SendTo n)" "sd_When (n_SendTo n ! k) = 2 ^ 63 - 1" "0 < n_Created n" "n_Created n < 2 ^ 62" "0 \<le> now"
  shows "n_StepNo (fst (queue_step now methods p (n, queue))) = Suc k"
proof -
  have "wrap64 (sd_When (n_SendTo n ! k) + n_Created n) = (n_Created n - 1 + 2 ^ 64) mod 2 ^ 64 - 2 ^ 63"
    unfolding wrap64_def assms(3) by (simp add: algebra_simps)
  also have "\<dots> = n_Created n - 1 - 2 ^ 63" using assms(4,5) by (subst mod_add_self2) simp
  finally have "wrap64 (sd_When (n_SendTo n ! k) + n_Created n) \<le> now" using assms(5,6) by simp
  then show ?thesis using assms(1,2) by (auto simp: queue_step_def Let_def split: prod.split)
qed

definition witness_later :: "notify_state option" where
  "witness_later = worker_tick (witness_env 1700) [1001] [1001] [''ops''] witness_queued"

lemma witness_later_runs:
  "ns_next witness_start = 0 \<and> note_New (witness_env 1000) witness_new 7 witness_start \<noteq> None
   \<and> worker_recv (witness_env 1000) [] (snd witness_created) \<noteq> None
   \<and> map_option (\<lambda>st. (ns_next st, n_StepNo (ns_heap st 0), map sd_Last (n_SendTo (ns_heap st 0)),
         map sd_When (n_SendTo (ns_heap st 0)), n_Created (ns_heap st 0), nc_Renotify (n_cf (ns_heap st 0))))
       witness_later = Some (1, 2, [1700, 1700], [0, 600], 1000, 300)"
  by code_simp

theorem escalation_order_witness:
  "sd_When (n_SendTo (ns_heap (the witness_later) 0) ! 1) + n_Created (ns_heap (the witness_later) 0)
     \<le> sd_Last (n_SendTo (ns_heap (the witness_later) 0) ! 1)
   \<and> n_StepNo (ns_heap (the witness_later) 0) = 2"
proof -
  note runs = witness_later_runs
  obtain st' where st': "witness_later = Some st'" using runs by auto
  have sane: "sane_clock (witness_env 1000)" "sane_clock (witness_env 1700)" by (simp_all add: sane_clock_def witness_env_def)
  have "nstep_in sane_clock witness_start (snd witness_created)"
    using runs sane by (intro nstep_in.new [of _ "witness_env 1000" witness_new 7 _ "fst witness_created"])
      (auto simp: witness_created_def)
  moreover have "nstep_in sane_clock (snd witness_created) witness_queued"
    unfolding witness_queued_def using runs sane by (intro nstep_in.recv [of _ "witness_env 1000" "[]"]) auto
  moreover have "nstep_in sane_clock witness_queued st'"
    using st' unfolding witness_later_def by (rule nstep_in.tick [where good = sane_clock, OF sane(2)])
  ultimately have "(nstep_in sane_clock)\<^sup>*\<^sup>* witness_start st'" by (meson converse_rtranclp_into_rtranclp rtranclp.rtrancl_refl)
  moreover have "ns_next st' = 1" "n_StepNo (ns_heap st' 0) = 2" "length (n_SendTo (ns_heap st' 0)) = 2"
    using runs unfolding st' by auto
  moreover have "map sd_When (n_SendTo (ns_heap st' 0)) = [0, 600]" "n_Created (ns_heap st' 0) = 1000" "nc_Renotify (n_cf (ns_heap st' 0)) = 300"
    using runs unfolding st' by auto
  moreover from this have "sd_When (n_SendTo (ns_heap st' 0) ! 1) = 600"
    using nth_map [of 1 "n_SendTo (ns_heap st' 0)" sd_When] calculation(4) by simp
  ultimately show ?thesis
    unfolding st' option.sel using escalation_order [of witness_start st' 0 1] runs by (simp add: in64_def)
qed

section \<open>Creation, starvation, and who may acknowledge\<close>

text \<open>A created notification. When the status is one that is notified, the identifier is
  taken in any case; with no destination nothing else happens and there is no notification;
  otherwise the new one is active, at step 0, holds the destinations of the matching
  schedule, then those of \<open>notifyalso\<close>, as its first step and the well-formed escalation
  entries after it, and it is handed to the worker.\<close>

theorem note_New_spec:
  assumes "elem_at (nc_Notify cf) st = Some sch" and "elem_at (nc_Notify cf) UNKNOWN = Some sch0"
    and "elem_at (nc_Escalate cf) st = Some esc" and "elem_at (nc_Escalate cf) UNKNOWN = Some esc0"
    and "nw_Conf ncf = cf" and "nw_OvStatus ncf = st" and "st \<le> CRITICAL"
    and dst: "dst = (case (if sch = None then sch0 else sch) of
        None \<Rightarrow> [] | Some s \<Rightarrow> go_fields (ResultNow (ne_wall env) s [])) @ go_fields (nc_NotifyAlso cf)"
    and escl: "escl = (if esc = [] \<and> esc0 = [] then []
        else List.map_filter escalate_entry (split_on (CHR '';'') (if esc = [] then esc0 else esc)))"
  shows "\<exists>r s'. note_New env ncf mon s = Some (r, s') \<and> ns_idno s' = wrap64 (ns_idno s + 1)
    \<and> (if dst = [] \<and> escl = [] then r = None \<and> ns_heap s' = ns_heap s \<and> ns_chan s' = ns_chan s
       else r = Some (ns_next s) \<and> ns_chan s' = ns_chan s @ [ns_next s]
         \<and> (let n = ns_heap s' (ns_next s) in n_IsActive n \<and> n_StepNo n = 0 \<and> n_mon n = mon
              \<and> n_SendTo n = (if dst = [] then [] else [\<lparr>sd_When = 0, sd_Last = 0, sd_Dst = dst\<rparr>]) @ escl))"
proof -
  have "determineSendTo env cf st
      = Some ((if dst = [] then [] else [\<lparr>sd_When = 0, sd_Last = 0, sd_Dst = dst\<rparr>]) @ escl)"
    using assms by (simp add: determineSendTo_def Let_def)
  moreover have "n_OvStatus (determineMessage env gc ncf n) = n_OvStatus n"
      "n_IsActive (determineMessage env gc ncf n) = n_IsActive n" "n_StepNo (determineMessage env gc ncf n) = n_StepNo n" for gc n
    by (simp_all add: determineMessage_def Let_def)
  moreover have "(if dst = [] then [] else [\<lparr>sd_When = 0, sd_Last = 0, sd_Dst = dst\<rparr>]) @ escl = []
      \<longleftrightarrow> dst = [] \<and> escl = []" by simp
  ultimately show ?thesis
    using assms(5-7)
    by (cases "dst = [] \<and> escl = []")
       (simp_all add: note_New_def nextIdNo_def saveIdNo_def Let_def notif_p.defs notif.defs)
qed

theorem note_New_spec_witness:
  "\<exists>r s'. note_New (witness_env 1000) witness_new 7 witness_start = Some (r, s') \<and> r = Some 0"
proof -
  have "go_fields (nc_NotifyAlso (nw_Conf witness_new)) \<noteq> []" by code_simp
  moreover have "elem_at (nc_Notify (nw_Conf witness_new)) CRITICAL = Some None"
      "elem_at (nc_Notify (nw_Conf witness_new)) UNKNOWN = Some None"
      "elem_at (nc_Escalate (nw_Conf witness_new)) CRITICAL = Some []"
      "elem_at (nc_Escalate (nw_Conf witness_new)) UNKNOWN = Some ''10 boss''"
      "nw_OvStatus witness_new = CRITICAL" "ns_next witness_start = 0"
    by code_simp+
  ultimately show ?thesis
    using note_New_spec [of "nw_Conf witness_new" CRITICAL None None "[]" "''10 boss''" witness_new, OF _ _ _ _ refl _ _ refl refl,
        of "witness_env 1000" 7 witness_start] by (auto split: if_splits)
qed

text \<open>A due queue that holds only inactive notifications ends the whole pass and is not
  cleared: the destinations visited after it wait, each time it is visited before them.\<close>

lemma run_queues_blocked:
  assumes "ns_queue st dst = Some qd" "q_notif qd \<noteq> []" "wrap64 (q_lastt qd + me_Qtime (q_meth qd)) \<le> ne_now env"
    and "\<forall>p \<in> set (q_notif qd). \<not> n_IsActive (ns_heap st p)"
  shows "run_queues env (dst # order) st = Some st"
  using assms by (auto simp: Let_def filter_empty_conv)

text \<open>A user's acknowledgement over the web succeeds exactly for a known notification and
  a user whose groups are on both access lists; in every other case the reply is an error
  and nothing changes.\<close>

theorem note_webAck_authorised:
  "(fst (note_webAck env user idno st) = 200 \<longleftrightarrow>
      (\<exists>name groups. user = Some (name, groups)
         \<and> ACLPermitsUser (gc_ACL_NotifyDetail (ns_conf st)) (go_fields groups)
         \<and> ACLPermitsUser (gc_ACL_NotifyAck (ns_conf st)) (go_fields groups))
      \<and> ns_byid st (parse_id32 idno) \<noteq> None)
   \<and> (fst (note_webAck env user idno st) \<noteq> 200 \<longrightarrow> snd (note_webAck env user idno st) = st)"
  by (auto simp: note_webAck_def webGetNotifyCreds_def Let_def split: option.split)

theorem note_webAck_authorised_witness:
  "snd (note_webAck (witness_env 5) (Some (''joe'', ''user'')) ''1001'' witness_queued) = witness_queued"
proof -
  have "fst (note_webAck (witness_env 5) (Some (''joe'', ''user'')) ''1001'' witness_queued) = 403" by code_simp
  then show ?thesis using note_webAck_authorised by fastforce
qed

end
