(* ===== verification/Sched.thy ===== *)
theory Sched
  imports ArgusBase "HOL-Library.Multiset"
begin

text \<open>
  Package \<open>sched\<close> (\<open>src/argus/sched/sched.go\<close>): when a job runs next, the calendar of
  buckets that the main loop keeps, the three bounded work queues and their overflow rule,
  and the number of workers. Jobs (\<open>*D\<close>) and buckets (\<open>*te\<close>) are pointers into two heaps:
  a job that sits in a channel is read when it is received, with the \<open>when\<close> it has then.
  The clock, the random numbers and the order in which a bucket's map is visited are
  arguments; the workers' channels have the capacities of the code, the request channel
  is unbounded.
\<close>

section \<open>State\<close>

record sched_conf =
  sc_Freq :: int
  sc_Phase :: int
  sc_Auto :: bool
  sc_Prio :: bool
  sc_Text :: string

abbreviation (input) PRIO_NONE :: int where "PRIO_NONE \<equiv> 0"
abbreviation (input) PRIO_EXPRESS :: int where "PRIO_EXPRESS \<equiv> 1"
abbreviation (input) PRIO_HIGH :: int where "PRIO_HIGH \<equiv> 2"
abbreviation (input) EXPRESS_LIMIT :: int where "EXPRESS_LIMIT \<equiv> 50"
abbreviation (input) QUEUELEN :: nat where "QUEUELEN \<equiv> 1000"
abbreviation (input) EXPRLEN :: nat where "EXPRLEN \<equiv> 1000"
abbreviation (input) PRIOLEN :: nat where "PRIOLEN \<equiv> 10"

type_synonym dptr = nat
type_synonym tptr = nat

record sched_d =
  d_freq :: int
  d_phase :: int
  d_prio :: int
  d_auto :: bool
  d_xdt :: int
  d_text :: string
  d_when :: int
  d_obj :: nat
  d_locte :: "tptr option"

record sched_te =
  te_when :: int
  te_todo :: "dptr set"

record sched_state =
  s_d :: "dptr \<Rightarrow> sched_d"
  s_nd :: dptr
  s_te :: "tptr \<Rightarrow> sched_te"
  s_nte :: tptr
  s_schedule :: "tptr list"
  s_schedchan :: "dptr list"
  s_workchan :: "dptr list"
  s_expresschan :: "dptr list"
  s_priochan :: "dptr list"
  s_WorkDefer :: int
  s_ExprDefer :: int
  s_PrioDefer :: int

definition upd_d :: "dptr \<Rightarrow> (sched_d \<Rightarrow> sched_d) \<Rightarrow> sched_state \<Rightarrow> sched_state" where
  "upd_d d f st = st\<lparr>s_d := (s_d st)(d := f (s_d st d))\<rparr>"

section \<open>When a job runs\<close>

text \<open>\<open>r\<close> is \<open>rand.Intn(4)\<close>, used at the top of the hour.\<close>

function when_loop :: "int \<Rightarrow> int \<Rightarrow> int \<Rightarrow> int" where
  "when_loop now freq w = (if w < now \<and> 0 < freq then when_loop now freq (w + freq) else w)"
  by pat_completeness auto
termination by (relation "measure (\<lambda>(now, freq, w). nat (now - w))") auto

declare when_loop.simps [simp del]

definition next_when :: "int \<Rightarrow> int \<Rightarrow> int \<Rightarrow> int \<Rightarrow> int \<Rightarrow> int" where
  "next_when now r freq phase delay =
     (let freq = (if freq \<le> 0 then 60 else freq);
          when = (if delay > 0 then now + delay
                  else when_loop now freq ((now - phase) sdiv freq * freq + freq + phase))
      in if when smod 3600 = 0 then when + (r + 1) else when)"

definition ReScheduleSamePrio :: "int \<Rightarrow> int \<Rightarrow> dptr \<Rightarrow> int \<Rightarrow> sched_state \<Rightarrow> sched_state" where
  "ReScheduleSamePrio now r d delay st =
     (let st = upd_d d (\<lambda>x. x\<lparr>d_when := next_when now r (d_freq x) (d_phase x) delay\<rparr>) st
      in st\<lparr>s_schedchan := s_schedchan st @ [d]\<rparr>)"

definition new_xdt :: "int \<Rightarrow> int \<Rightarrow> int" where
  "new_xdt xdt expt = (let xdt = (if xdt = 0 then expt else xdt) in (3 * xdt + expt) sdiv 4)"

definition new_prio :: "int \<Rightarrow> int \<Rightarrow> int" where
  "new_prio prio xdt =
     (if prio = PRIO_HIGH then prio
      else if xdt = 0 then PRIO_NONE
      else if xdt < EXPRESS_LIMIT then PRIO_EXPRESS
      else PRIO_NONE)"

definition ReSchedule :: "int \<Rightarrow> int \<Rightarrow> dptr \<Rightarrow> int \<Rightarrow> int \<Rightarrow> sched_state \<Rightarrow> sched_state" where
  "ReSchedule now r d delay expt st =
     ReScheduleSamePrio now r d delay
       (upd_d d (\<lambda>x. let xdt = new_xdt (d_xdt x) expt in x\<lparr>d_xdt := xdt, d_prio := new_prio (d_prio x) xdt\<rparr>) st)"

text \<open>\<open>rp\<close> is \<open>rand.Intn(cf.Freq)\<close>, which panics for a frequency that is not positive, as does
  \<open>cf.Phase %= 0\<close>.\<close>

definition sched_New :: "int \<Rightarrow> int \<Rightarrow> int \<Rightarrow> sched_conf \<Rightarrow> nat \<Rightarrow> sched_state \<Rightarrow> (dptr \<times> sched_state) option" where
  "sched_New now r rp cf obj st =
     (if sc_Phase cf \<le> 0 \<and> sc_Freq cf \<le> 0 \<or> sc_Freq cf = 0 then None
      else
        let phase = (if sc_Phase cf \<le> 0 then rp else sc_Phase cf) smod sc_Freq cf;
            d = s_nd st;
            x = \<lparr>d_freq = sc_Freq cf, d_phase = phase, d_prio = (if sc_Prio cf then PRIO_HIGH else PRIO_NONE),
                 d_auto = sc_Auto cf, d_xdt = 0, d_text = sc_Text cf, d_when = 0, d_obj = obj, d_locte = None\<rparr>
        in Some (d, ReSchedule now r d 0 0 (st\<lparr>s_d := (s_d st)(d := x), s_nd := Suc d\<rparr>)))"

definition sched_At :: "int \<Rightarrow> string \<Rightarrow> nat \<Rightarrow> sched_state \<Rightarrow> sched_state" where
  "sched_At unix text obj st =
     (let d = s_nd st;
          x = \<lparr>d_freq = 0, d_phase = 0, d_prio = PRIO_HIGH, d_auto = False, d_xdt = 0, d_text = text,
               d_when = unix, d_obj = obj, d_locte = None\<rparr>
      in st\<lparr>s_d := (s_d st)(d := x), s_nd := Suc d, s_schedchan := s_schedchan st @ [d]\<rparr>)"

definition sched_Remove :: "dptr \<Rightarrow> sched_state \<Rightarrow> sched_state" where
  "sched_Remove d st =
     (let st = upd_d d (\<lambda>x. x\<lparr>d_when := 0\<rparr>) st in st\<lparr>s_schedchan := s_schedchan st @ [d]\<rparr>)"

section \<open>Work queues\<close>

definition send_work :: "dptr \<Rightarrow> sched_state \<Rightarrow> bool \<times> sched_state" where
  "send_work d st =
     (if length (s_workchan st) < QUEUELEN then (True, st\<lparr>s_workchan := s_workchan st @ [d]\<rparr>) else (False, st))"

definition send_express :: "dptr \<Rightarrow> sched_state \<Rightarrow> bool \<times> sched_state" where
  "send_express d st =
     (if length (s_expresschan st) < EXPRLEN then (True, st\<lparr>s_expresschan := s_expresschan st @ [d]\<rparr>)
      else send_work d (st\<lparr>s_ExprDefer := s_ExprDefer st + 1\<rparr>))"

definition sendWork :: "dptr \<Rightarrow> sched_state \<Rightarrow> bool \<times> sched_state" where
  "sendWork d st =
     (if d_prio (s_d st d) = PRIO_HIGH then
        (if length (s_priochan st) < PRIOLEN then (True, st\<lparr>s_priochan := s_priochan st @ [d]\<rparr>)
         else send_express d (st\<lparr>s_PrioDefer := s_PrioDefer st + 1\<rparr>))
      else if d_prio (s_d st d) = PRIO_EXPRESS then send_express d st
      else send_work d st)"

definition sched_ASAP :: "int \<Rightarrow> int \<Rightarrow> dptr \<Rightarrow> sched_state \<Rightarrow> sched_state" where
  "sched_ASAP now r d st =
     (let (ok, st) = sendWork d st
      in if ok then st else ReScheduleSamePrio now r d 1 (st\<lparr>s_WorkDefer := s_WorkDefer st + 1\<rparr>))"

section \<open>The calendar\<close>

text \<open>\<open>sort.Search\<close>: bisection of \<open>[i, j)\<close>.\<close>

function sort_search :: "(nat \<Rightarrow> bool) \<Rightarrow> nat \<Rightarrow> nat \<Rightarrow> nat" where
  "sort_search f i j =
     (if i < j then
        let h = (i + j) div 2 in if \<not> f h then sort_search f (h + 1) j else sort_search f i h
      else i)"
  by pat_completeness auto
termination by (relation "measure (\<lambda>(f, i, j). j - i)") auto

declare sort_search.simps [simp del]

definition sched_add :: "dptr \<Rightarrow> sched_state \<Rightarrow> sched_state" where
  "sched_add d st =
     (let w = d_when (s_d st d) in
      if w = 0 then st
      else
        let sch = s_schedule st;
            i = sort_search (\<lambda>j. te_when (s_te st (sch ! j)) \<ge> w) 0 (length sch);
            l = s_nte st;
            fresh = st\<lparr>s_te := (s_te st)(l := \<lparr>te_when = w, te_todo = {d}\<rparr>), s_nte := Suc l\<rparr>
        in if i = length sch then
             upd_d d (\<lambda>x. x\<lparr>d_locte := Some l\<rparr>) (fresh\<lparr>s_schedule := sch @ [l]\<rparr>)
           else if te_when (s_te st (sch ! i)) = w then
             upd_d d (\<lambda>x. x\<lparr>d_locte := Some (sch ! i)\<rparr>)
               (st\<lparr>s_te := (s_te st)(sch ! i := (s_te st (sch ! i))\<lparr>te_todo := insert d (te_todo (s_te st (sch ! i)))\<rparr>)\<rparr>)
           else
             upd_d d (\<lambda>x. x\<lparr>d_locte := Some l\<rparr>) (fresh\<lparr>s_schedule := take i sch @ [l] @ drop i sch\<rparr>))"

definition sched_del :: "dptr \<Rightarrow> sched_state \<Rightarrow> sched_state" where
  "sched_del d st =
     (case d_locte (s_d st d) of
        None \<Rightarrow> st
      | Some t \<Rightarrow> upd_d d (\<lambda>x. x\<lparr>d_locte := None\<rparr>)
          (st\<lparr>s_te := (s_te st)(t := (s_te st t)\<lparr>te_todo := te_todo (s_te st t) - {d}\<rparr>)\<rparr>))"

text \<open>The main loop receives a request: move the job to the bucket of its new time.\<close>

definition sched_recv :: "sched_state \<Rightarrow> sched_state" where
  "sched_recv st =
     (case s_schedchan st of
        [] \<Rightarrow> st
      | d # ds \<Rightarrow>
          let st = st\<lparr>s_schedchan := ds\<rparr>;
              st = (if d_locte (s_d st d) \<noteq> None then sched_del d st else st)
          in if d_when (s_d st d) \<noteq> 0 then sched_add d st else st)"

text \<open>One bucket: \<open>ds\<close> lists its map in the order it is visited. The flag is false when a
  queue was full: the rest of the bucket stays.\<close>

fun dispatch_bucket :: "tptr \<Rightarrow> dptr list \<Rightarrow> sched_state \<Rightarrow> bool \<times> sched_state" where
  "dispatch_bucket t [] st = (True, st)"
| "dispatch_bucket t (d # ds) st =
     (let st = upd_d d (\<lambda>x. x\<lparr>d_locte := None\<rparr>) st;
          (ok, st) = sendWork d st
      in if ok
         then dispatch_bucket t ds
                (st\<lparr>s_te := (s_te st)(t := (s_te st t)\<lparr>te_todo := te_todo (s_te st t) - {d}\<rparr>)\<rparr>)
         else (False, st))"

fun dispatch_loop :: "int \<Rightarrow> (tptr \<Rightarrow> dptr list) \<Rightarrow> tptr list \<Rightarrow> sched_state \<Rightarrow> sched_state" where
  "dispatch_loop now order [] st = st\<lparr>s_schedule := []\<rparr>"
| "dispatch_loop now order (t # ts) st =
     (if te_when (s_te st t) > now then st\<lparr>s_schedule := t # ts\<rparr>
      else case dispatch_bucket t (order t) st of
             (True, st) \<Rightarrow> dispatch_loop now order ts st
           | (False, st) \<Rightarrow> st\<lparr>s_schedule := t # ts, s_WorkDefer := s_WorkDefer st + 1\<rparr>)"

definition dispatch :: "int \<Rightarrow> (tptr \<Rightarrow> dptr list) \<Rightarrow> sched_state \<Rightarrow> sched_state" where
  "dispatch now order st = dispatch_loop now order (s_schedule st) st"

text \<open>A worker takes a job; what \<open>run\<close> does is the job's business (\<open>obj.Start()\<close>), afterwards
  an automatic job is rescheduled.\<close>

datatype queue_name = WorkQ | ExpressQ | PrioQ

definition queue_of :: "queue_name \<Rightarrow> sched_state \<Rightarrow> dptr list" where
  "queue_of q st = (case q of WorkQ \<Rightarrow> s_workchan st | ExpressQ \<Rightarrow> s_expresschan st | PrioQ \<Rightarrow> s_priochan st)"

definition take_work :: "queue_name \<Rightarrow> sched_state \<Rightarrow> (dptr \<times> sched_state) option" where
  "take_work q st =
     (case queue_of q st of
        [] \<Rightarrow> None
      | d # ds \<Rightarrow> Some (d, case q of WorkQ \<Rightarrow> st\<lparr>s_workchan := ds\<rparr>
                                   | ExpressQ \<Rightarrow> st\<lparr>s_expresschan := ds\<rparr>
                                   | PrioQ \<Rightarrow> st\<lparr>s_priochan := ds\<rparr>))"

definition worker_done :: "int \<Rightarrow> int \<Rightarrow> dptr \<Rightarrow> sched_state \<Rightarrow> sched_state" where
  "worker_done now r d st = (if d_auto (s_d st d) then ReScheduleSamePrio now r d 0 st else st)"

section \<open>Number of workers\<close>

abbreviation (input) MINWORKER :: int where "MINWORKER \<equiv> 2"
abbreviation (input) MINEXPRESS :: int where "MINEXPRESS \<equiv> 2"
abbreviation (input) NUMWORKER :: int where "NUMWORKER \<equiv> 100"
abbreviation (input) MAXWORKER :: int where "MAXWORKER \<equiv> 10000"

definition Init_workers :: "int \<Rightarrow> int \<times> int" where
  "Init_workers maxrun =
     (let nwork = (if maxrun = 0 then NUMWORKER else maxrun);
          nwork = (if nwork < MINWORKER then MINWORKER else nwork);
          nwork = (if nwork > MAXWORKER then MAXWORKER else nwork);
          nexpr = nwork sdiv 10;
          nexpr = (if nexpr < MINEXPRESS then MINEXPRESS else nexpr)
      in (nwork, nexpr))"

record tune_state =
  tu_nwork :: int
  tu_nexpr :: int
  tu_ovlim :: int
  tu_ovct :: int
  tu_pdeferd :: int
  tu_pexpdfr :: int

text \<open>One turn of \<open>autotune\<close>'s loop, every 10 seconds; \<open>deferd\<close> and \<open>expdfr\<close> are the counters
  read. \<^const>\<open>None\<close>: the loop ended with the overload warning.\<close>

definition autotune_step :: "int \<Rightarrow> int \<Rightarrow> int \<Rightarrow> tune_state \<Rightarrow> tune_state option" where
  "autotune_step maxrun deferd expdfr tu =
     (if deferd = tu_pdeferd tu then
        Some (tu\<lparr>tu_ovlim := (if tu_ovct tu = 0 \<and> tu_ovlim tu < 600 then tu_ovlim tu + 1 else tu_ovlim tu),
                 tu_ovct := (if tu_ovct tu > 0 then tu_ovct tu - 10 else tu_ovct tu)\<rparr>)
      else
        let exprok = (tu_pexpdfr tu = expdfr);
            tu = tu\<lparr>tu_pdeferd := deferd, tu_pexpdfr := expdfr, tu_ovct := tu_ovct tu + 10\<rparr>
        in if tu_ovct tu < tu_ovlim tu then Some tu
           else if tu_nwork tu < MAXWORKER \<and> maxrun = 0 then
             (let more = tu_nwork tu sdiv 5;
                  tu = tu\<lparr>tu_nwork := tu_nwork tu + more\<rparr>;
                  tu = (if exprok then tu else tu\<lparr>tu_nexpr := tu_nexpr tu + (more + 5) sdiv 10\<rparr>)
              in Some (tu\<lparr>tu_ovct := 0\<rparr>))
           else None)"

section \<open>The next time of a job\<close>

lemma when_loop_ge: "now \<le> w \<Longrightarrow> when_loop now freq w = w"
  by (subst when_loop.simps) simp

text \<open>A periodic job runs on its grid. For a positive frequency and a phase that is not in
  the future, the next time is later than now by at most one period and is the phase plus
  a whole number of periods; a time at the top of an hour is moved by one to four seconds.
  With a positive delay the time is now plus the delay (moved alike).\<close>

theorem next_when_grid:
  assumes "0 < freq" "0 \<le> phase" "phase \<le> now" "0 \<le> r" "r < 4"
  shows "\<exists>w k. (next_when now r freq phase delay = w \<or> w smod 3600 = 0 \<and> next_when now r freq phase delay = w + r + 1)
    \<and> (if 0 < delay then w = now + delay else w = phase + k * freq \<and> now < w \<and> w \<le> now + freq)"
proof (cases "0 < delay")
  case True
  with assms(1) show ?thesis by (auto simp: next_when_def Let_def)
next
  case False
  define q where "q = (now - phase) div freq"
  have w: "(now - phase) sdiv freq * freq + freq + phase = phase + (q + 1) * freq"
    using assms by (simp add: sdiv_nonneg q_def algebra_simps)
  have "q * freq \<le> now - phase" "now - phase < q * freq + freq"
    using div_mult_mod_eq [of "now - phase" freq] pos_mod_bound [OF assms(1), of "now - phase"]
      pos_mod_sign [OF assms(1), of "now - phase"]
    unfolding q_def by linarith+
  then have b: "now < phase + (q + 1) * freq" "phase + (q + 1) * freq \<le> now + freq"
    by (simp_all add: algebra_simps)
  then have "when_loop now freq (phase + (q + 1) * freq) = phase + (q + 1) * freq"
    by (simp add: when_loop_ge)
  then have "next_when now r freq phase delay
      = (if (phase + (q + 1) * freq) smod 3600 = 0 then phase + (q + 1) * freq + (r + 1) else phase + (q + 1) * freq)"
    using False assms(1) by (simp add: next_when_def w)
  with b False show ?thesis by (auto simp: add.assoc)
qed

theorem next_when_grid_witness:
  "\<exists>w k. (next_when 7200 2 300 60 0 = w \<or> w smod 3600 = 0 \<and> next_when 7200 2 300 60 0 = w + 2 + 1)
    \<and> (if (0 :: int) < 0 then w = 7200 + 0 else w = 60 + k * 300 \<and> 7200 < w \<and> w \<le> 7200 + 300)"
  using next_when_grid [of 300 60 7200 2 0] by simp

section \<open>The calendar stays sorted\<close>

lemma sort_search_range: "i \<le> j \<Longrightarrow> i \<le> sort_search f i j \<and> sort_search f i j \<le> j"
  by (induction f i j rule: sort_search.induct) (subst (1 2) sort_search.simps, force simp: Let_def)

lemma sort_search_least:
  assumes "\<And>a b. a \<le> b \<Longrightarrow> b < n \<Longrightarrow> f a \<Longrightarrow> f b"
    and "i \<le> j" "j \<le> n" "\<And>k. k < i \<Longrightarrow> \<not> f k" "\<And>k. j \<le> k \<Longrightarrow> k < n \<Longrightarrow> f k"
  shows "(\<forall>k < sort_search f i j. \<not> f k) \<and> (\<forall>k. sort_search f i j \<le> k \<longrightarrow> k < n \<longrightarrow> f k)"
  using assms
proof (induction f i j rule: sort_search.induct)
  case (1 f i j)
  define h where "h = (i + j) div 2"
  consider "i < j" "\<not> f h" | "i < j" "f h" | "i = j" using "1.prems"(2) by linarith
  then show ?case
  proof cases
    case 1
    have "h < n" using 1 "1.prems"(3) unfolding h_def by linarith
    then have "\<not> f k" if "k < h + 1" for k
      using "1.prems"(1) [of k h] 1 that by auto
    moreover have "sort_search f i j = sort_search f (h + 1) j"
      using 1 by (subst sort_search.simps) (simp add: h_def)
    moreover have "(\<forall>k < sort_search f (h + 1) j. \<not> f k) \<and> (\<forall>k. sort_search f (h + 1) j \<le> k \<longrightarrow> k < n \<longrightarrow> f k)"
    proof (rule "1.IH"(1) [OF 1(1) h_def 1(2) "1.prems"(1)])
      show "h + 1 \<le> j" using 1(1) unfolding h_def by linarith
    qed (use "1.prems" calculation(1) in auto)
    ultimately show ?thesis by simp
  next
    case 2
    have "f k" if "h \<le> k" "k < n" for k
      using "1.prems"(1) [of h k] 2 that by blast
    moreover have "sort_search f i j = sort_search f i h"
      using 2 by (subst sort_search.simps) (simp add: h_def)
    moreover have "(\<forall>k < sort_search f i h. \<not> f k) \<and> (\<forall>k. sort_search f i h \<le> k \<longrightarrow> k < n \<longrightarrow> f k)"
    proof (rule "1.IH"(2) [OF 2(1) h_def _ "1.prems"(1)])
      show "\<not> \<not> f h" "i \<le> h" "h \<le> n" using 2 "1.prems"(3) unfolding h_def by simp_all
    qed (use "1.prems" calculation(1) in auto)
    ultimately show ?thesis by simp
  next
    case 3
    then have "sort_search f i j = i" by (subst sort_search.simps) simp
    with 3 "1.prems" show ?thesis by simp
  qed
qed

definition cal :: "sched_state \<Rightarrow> int list" where
  "cal st = map (\<lambda>t. te_when (s_te st t)) (s_schedule st)"

text \<open>
  The calendar's invariant: buckets in strictly increasing order of time, allocated, and
  every job that believes itself in a bucket is in that bucket of the calendar.
\<close>

definition sched_ok :: "sched_state \<Rightarrow> bool" where
  "sched_ok st \<longleftrightarrow> sorted_wrt (<) (cal st) \<and> (\<forall>t \<in> set (s_schedule st). t < s_nte st)
     \<and> (\<forall>d t. d_locte (s_d st d) = Some t \<longrightarrow> t \<in> set (s_schedule st) \<and> d \<in> te_todo (s_te st t))"

lemma sched_okI:
  assumes "sorted_wrt (<) (cal st)" "\<And>t. t \<in> set (s_schedule st) \<Longrightarrow> t < s_nte st"
    and "\<And>d t. d_locte (s_d st d) = Some t \<Longrightarrow> t \<in> set (s_schedule st)"
    and "\<And>d t. d_locte (s_d st d) = Some t \<Longrightarrow> d \<in> te_todo (s_te st t)"
  shows "sched_ok st"
  using assms by (auto simp: sched_ok_def)

lemma sched_okD:
  assumes "sched_ok st"
  shows "sorted_wrt (<) (cal st)" "t \<in> set (s_schedule st) \<Longrightarrow> t < s_nte st"
    and "d_locte (s_d st d) = Some t \<Longrightarrow> t \<in> set (s_schedule st)"
    and "d_locte (s_d st d) = Some t \<Longrightarrow> d \<in> te_todo (s_te st t)"
  using assms by (auto simp: sched_ok_def)

lemma sched_ok_same:
  assumes "sched_ok st" "s_schedule st' = s_schedule st" "s_te st' = s_te st" "s_nte st \<le> s_nte st'"
    and "\<And>d t. d_locte (s_d st' d) = Some t \<Longrightarrow> d_locte (s_d st d) = Some t"
  shows "sched_ok st'"
  using assms by (fastforce simp: sched_ok_def cal_def)

lemma upd_d_frame [simp]:
  "s_d (upd_d d f st) = (s_d st)(d := f (s_d st d))" "s_te (upd_d d f st) = s_te st" "s_nte (upd_d d f st) = s_nte st"
  "s_schedule (upd_d d f st) = s_schedule st" "s_schedchan (upd_d d f st) = s_schedchan st"
  "s_workchan (upd_d d f st) = s_workchan st" "s_expresschan (upd_d d f st) = s_expresschan st"
  "s_priochan (upd_d d f st) = s_priochan st" "s_WorkDefer (upd_d d f st) = s_WorkDefer st" "s_nd (upd_d d f st) = s_nd st"
  by (simp_all add: upd_d_def)

lemma send_frame [simp]:
  "s_d (snd (send_work d st)) = s_d st" "s_te (snd (send_work d st)) = s_te st" "s_nte (snd (send_work d st)) = s_nte st"
  "s_schedule (snd (send_work d st)) = s_schedule st" "s_WorkDefer (snd (send_work d st)) = s_WorkDefer st"
  "s_d (snd (send_express d st)) = s_d st" "s_te (snd (send_express d st)) = s_te st" "s_nte (snd (send_express d st)) = s_nte st"
  "s_schedule (snd (send_express d st)) = s_schedule st" "s_WorkDefer (snd (send_express d st)) = s_WorkDefer st"
  by (simp_all add: send_work_def send_express_def)

lemma sendWork_frame [simp]:
  "s_d (snd (sendWork d st)) = s_d st" "s_te (snd (sendWork d st)) = s_te st" "s_nte (snd (sendWork d st)) = s_nte st"
  "s_schedule (snd (sendWork d st)) = s_schedule st" "s_WorkDefer (snd (sendWork d st)) = s_WorkDefer st"
  by (simp_all add: sendWork_def)

lemma sched_ok_del:
  assumes "sched_ok st"
  shows "sched_ok (sched_del d st)"
proof (cases "d_locte (s_d st d)")
  case (Some t)
  let ?s = "sched_del d st"
  have c: "cal ?s = cal st" by (auto simp: sched_del_def Some cal_def)
  show ?thesis
    by (rule sched_okI, unfold c)
      (use sched_okD [OF assms] in \<open>auto simp: sched_del_def Some split: if_splits\<close>)
qed (use assms in \<open>simp add: sched_del_def\<close>)

lemma cal_nth: "i < length (s_schedule st) \<Longrightarrow> te_when (s_te st (s_schedule st ! i)) = cal st ! i"
  by (simp add: cal_def)

lemma sched_search:
  assumes "sched_ok st" and "i = sort_search (\<lambda>j. te_when (s_te st (s_schedule st ! j)) \<ge> w) 0 (length (s_schedule st))"
  shows "i \<le> length (s_schedule st)" "\<And>k. k < i \<Longrightarrow> cal st ! k < w"
    and "\<And>k. i \<le> k \<Longrightarrow> k < length (s_schedule st) \<Longrightarrow> w \<le> cal st ! k"
proof -
  let ?n = "length (s_schedule st)" and ?f = "\<lambda>j. te_when (s_te st (s_schedule st ! j)) \<ge> w"
  have mono: "?f b" if "a \<le> b" "b < ?n" "?f a" for a b
  proof (cases "a = b")
    case False
    then have "cal st ! a < cal st ! b"
      using sched_okD(1) [OF assms(1)] that by (simp add: sorted_wrt_iff_nth_less cal_def)
    with that show ?thesis by (simp add: cal_nth)
  qed (use that in simp)
  have r: "i \<le> ?n" using sort_search_range [of 0 ?n ?f] assms(2) by simp
  have l: "(\<forall>k < i. \<not> ?f k) \<and> (\<forall>k. i \<le> k \<longrightarrow> k < ?n \<longrightarrow> ?f k)"
    unfolding assms(2) using mono by (intro sort_search_least) auto
  show "i \<le> ?n" by (rule r)
  show "cal st ! k < w" if "k < i" for k using l r that cal_nth [of k st] by fastforce
  show "w \<le> cal st ! k" if "i \<le> k" "k < ?n" for k using l that cal_nth [of k st] by fastforce
qed

lemma sorted_insert:
  assumes "sorted_wrt (<) (xs :: int list)" "i \<le> length xs"
    and "\<And>k. k < i \<Longrightarrow> xs ! k < w" "\<And>k. i \<le> k \<Longrightarrow> k < length xs \<Longrightarrow> w < xs ! k"
  shows "sorted_wrt (<) (take i xs @ [w] @ drop i xs)"
proof -
  have "sorted_wrt (<) (take i xs) \<and> sorted_wrt (<) (drop i xs) \<and> (\<forall>x \<in> set (take i xs). \<forall>y \<in> set (drop i xs). x < y)"
    using assms(1) sorted_wrt_append [of "(<)" "take i xs" "drop i xs"] by (simp only: append_take_drop_id)
  then have "sorted_wrt (<) (take i xs)" "sorted_wrt (<) (drop i xs)" "\<forall>x \<in> set (take i xs). \<forall>y \<in> set (drop i xs). x < y"
    by blast+
  moreover have "\<forall>x \<in> set (take i xs). x < w"
    using assms(2,3) by (auto simp: in_set_conv_nth)
  moreover have "\<forall>y \<in> set (drop i xs). w < y"
    using assms(4) by (auto simp: in_set_conv_nth)
  ultimately show ?thesis by (auto simp: sorted_wrt_append)
qed

lemma sched_ok_add:
  assumes ok: "sched_ok st" and free: "d_locte (s_d st d) = None"
  shows "sched_ok (sched_add d st)"
proof -
  let ?sch = "s_schedule st" and ?w = "d_when (s_d st d)" and ?l = "s_nte st"
  define i where "i = sort_search (\<lambda>j. te_when (s_te st (?sch ! j)) \<ge> ?w) 0 (length ?sch)"
  note srch = sched_search [OF ok i_def]
  have fresh: "?l \<notin> set ?sch" using sched_okD(2) [OF ok] by blast
  show ?thesis
  proof (cases "?w = 0 \<or> (i < length ?sch \<and> te_when (s_te st (?sch ! i)) = ?w)")
    case True
    show ?thesis
    proof (cases "?w = 0")
      case False
      with True have i: "i < length ?sch" "te_when (s_te st (?sch ! i)) = ?w" by simp_all
      have add: "sched_add d st = upd_d d (\<lambda>x. x\<lparr>d_locte := Some (?sch ! i)\<rparr>)
               (st\<lparr>s_te := (s_te st)(?sch ! i := (s_te st (?sch ! i))\<lparr>te_todo := insert d (te_todo (s_te st (?sch ! i)))\<rparr>)\<rparr>)"
        using False i by (simp add: sched_add_def Let_def flip: i_def)
      have c: "cal (sched_add d st) = cal st" by (auto simp: add cal_def)
      show ?thesis
        by (rule sched_okI, unfold c)
          (use sched_okD [OF ok] i in \<open>auto simp: add split: if_splits\<close>)
    qed (use ok in \<open>simp add: sched_add_def\<close>)
  next
    case False
    have add: "sched_add d st = upd_d d (\<lambda>x. x\<lparr>d_locte := Some ?l\<rparr>)
        (st\<lparr>s_te := (s_te st)(?l := \<lparr>te_when = ?w, te_todo = {d}\<rparr>), s_nte := Suc ?l,
           s_schedule := take i ?sch @ [?l] @ drop i ?sch\<rparr>)"
      using False srch(1) by (auto simp: sched_add_def Let_def simp flip: i_def)
    have c: "cal (sched_add d st) = take i (cal st) @ [?w] @ drop i (cal st)"
      using fresh by (auto simp: add cal_def take_map drop_map dest: in_set_takeD in_set_dropD)
    have lt: "?w < cal st ! k" if "i \<le> k" "k < length (cal st)" for k
    proof (cases "k = i")
      case True
      with False srch(3) [of k] that show ?thesis by (auto simp: cal_def)
    next
      case False': False
      with that have "cal st ! i < cal st ! k"
        using sched_okD(1) [OF ok] by (simp add: sorted_wrt_iff_nth_less)
      with srch(3) [of i] that show ?thesis by (simp add: cal_def)
    qed
    have "sorted_wrt (<) (cal (sched_add d st))"
      unfolding c using sched_okD(1) [OF ok] srch lt by (intro sorted_insert) (simp_all add: cal_def)
    moreover have "set (s_schedule (sched_add d st)) = insert ?l (set ?sch)"
      by (simp add: add) (metis append_take_drop_id set_append)
    ultimately show ?thesis
      using sched_okD [OF ok] fresh free
      by (intro sched_okI) (fastforce simp: add less_Suc_eq split: if_splits)+
  qed
qed

section \<open>Dispatch loses nothing\<close>

definition queued :: "sched_state \<Rightarrow> dptr multiset" where
  "queued st = mset (s_priochan st) + mset (s_expresschan st) + mset (s_workchan st)"

definition bucket :: "sched_state \<Rightarrow> tptr \<Rightarrow> dptr multiset" where
  "bucket st t = mset_set (te_todo (s_te st t))"

definition waiting :: "sched_state \<Rightarrow> dptr multiset" where
  "waiting st = (\<Sum>t\<leftarrow>s_schedule st. bucket st t)"

lemma sendWork_queued: "queued (snd (sendWork d st)) = (if fst (sendWork d st) then add_mset d (queued st) else queued st)"
  by (auto simp: sendWork_def send_express_def send_work_def queued_def)

text \<open>No job is refused while its work queue has room, and each queue keeps its capacity.\<close>

lemma sendWork_refuses:
  "fst (sendWork d st) = False \<longleftrightarrow> length (s_workchan st) \<ge> QUEUELEN
     \<and> (d_prio (s_d st d) \<in> {PRIO_HIGH, PRIO_EXPRESS} \<longrightarrow> length (s_expresschan st) \<ge> EXPRLEN)
     \<and> (d_prio (s_d st d) = PRIO_HIGH \<longrightarrow> length (s_priochan st) \<ge> PRIOLEN)"
  by (auto simp: sendWork_def send_express_def send_work_def)

text \<open>One job of a bucket: taken out of it exactly when a queue accepts it.\<close>

definition dispatch_one :: "tptr \<Rightarrow> dptr \<Rightarrow> sched_state \<Rightarrow> bool \<times> sched_state" where
  "dispatch_one t d st =
     (let (ok, st) = sendWork d (upd_d d (\<lambda>x. x\<lparr>d_locte := None\<rparr>) st)
      in (ok, if ok then st\<lparr>s_te := (s_te st)(t := (s_te st t)\<lparr>te_todo := te_todo (s_te st t) - {d}\<rparr>)\<rparr> else st))"

lemma dispatch_bucket_Cons:
  "dispatch_bucket t (d # ds) st
     = (let (ok, st) = dispatch_one t d st in if ok then dispatch_bucket t ds st else (False, st))"
  by (simp add: dispatch_one_def Let_def split: prod.split)

lemma dispatch_one_props:
  assumes "dispatch_one t d st = (ok, st')"
  shows "s_schedule st' = s_schedule st" "s_nte st' = s_nte st" "s_WorkDefer st' = s_WorkDefer st"
    and "te_when (s_te st' u) = te_when (s_te st u)" "u \<noteq> t \<Longrightarrow> s_te st' u = s_te st u"
    and "s_d st' = (s_d st)(d := (s_d st d)\<lparr>d_locte := None\<rparr>)"
    and "te_todo (s_te st' t) = (if ok then te_todo (s_te st t) - {d} else te_todo (s_te st t))"
    and "queued st' = (if ok then add_mset d (queued st) else queued st)"
proof -
  let ?s = "upd_d d (\<lambda>x. x\<lparr>d_locte := None\<rparr>) st"
  obtain s where s: "sendWork d ?s = (ok, s)"
    and st': "st' = (if ok then s\<lparr>s_te := (s_te s)(t := (s_te s t)\<lparr>te_todo := te_todo (s_te s t) - {d}\<rparr>)\<rparr> else s)"
    using assms by (auto simp: dispatch_one_def Let_def split: prod.splits)
  note f = sendWork_frame [of d ?s, unfolded s snd_conv]
  show "s_schedule st' = s_schedule st" "s_nte st' = s_nte st" "s_WorkDefer st' = s_WorkDefer st"
    "te_when (s_te st' u) = te_when (s_te st u)" "u \<noteq> t \<Longrightarrow> s_te st' u = s_te st u"
    "s_d st' = (s_d st)(d := (s_d st d)\<lparr>d_locte := None\<rparr>)"
    "te_todo (s_te st' t) = (if ok then te_todo (s_te st t) - {d} else te_todo (s_te st t))"
    using f by (simp_all add: st')
  have "queued ?s = queued st" by (simp add: queued_def)
  then have q: "queued s = (if ok then add_mset d (queued st) else queued st)"
    using sendWork_queued [of d ?s] s by simp
  have "queued (s\<lparr>s_te := x\<rparr>) = queued s" for x by (simp add: queued_def)
  with q show "queued st' = (if ok then add_mset d (queued st) else queued st)" by (simp add: st')
qed

lemma dispatch_bucket_props:
  assumes "dispatch_bucket t ds st = (ok, st')"
  shows "s_schedule st' = s_schedule st \<and> s_nte st' = s_nte st \<and> s_WorkDefer st' = s_WorkDefer st
    \<and> (\<forall>u. te_when (s_te st' u) = te_when (s_te st u)) \<and> (\<forall>u. u \<noteq> t \<longrightarrow> s_te st' u = s_te st u)
    \<and> te_todo (s_te st' t) \<subseteq> te_todo (s_te st t)
    \<and> (\<forall>d u. d_locte (s_d st' d) = Some u \<longrightarrow> d_locte (s_d st d) = Some u
          \<and> (d \<in> te_todo (s_te st u) \<longrightarrow> d \<in> te_todo (s_te st' u)))
    \<and> (ok \<longrightarrow> te_todo (s_te st' t) = te_todo (s_te st t) - set ds)"
  using assms
proof (induction ds arbitrary: st)
  case (Cons d ds)
  obtain b s where b: "dispatch_one t d st = (b, s)" by fastforce
  note one = dispatch_one_props [OF b]
  show ?case
  proof (cases b)
    case True
    then have rest: "dispatch_bucket t ds s = (ok, st')"
      using Cons.prems b by (simp add: dispatch_bucket_Cons del: dispatch_bucket.simps)
    note IH = Cons.IH [OF rest]
    have old: "d_locte (s_d s x) = Some u \<Longrightarrow> d_locte (s_d st x) = Some u \<and> x \<noteq> d" for x u
      by (simp add: one(6) split: if_splits)
    have keep: "d_locte (s_d s x) = Some u \<Longrightarrow> x \<in> te_todo (s_te st u) \<Longrightarrow> x \<in> te_todo (s_te s u)" for x u
      using old [of x u] one(5) [of u] one(7) True by (cases "u = t") auto
    show ?thesis
      using IH one(1-5,7) old keep True by (auto 0 3)
  next
    case False
    then have "ok = False" "st' = s"
      using Cons.prems b by (simp_all add: dispatch_bucket_Cons del: dispatch_bucket.simps)
    moreover have "d_locte (s_d s x) = Some u \<Longrightarrow> d_locte (s_d st x) = Some u \<and> (x \<in> te_todo (s_te st u) \<longrightarrow> x \<in> te_todo (s_te s u))" for x u
      using one(5) [of u] one(7) False by (cases "u = t") (auto simp: one(6) split: if_splits)
    ultimately show ?thesis using one(1-5,7) False by auto
  qed
qed simp

lemma dispatch_bucket_conserves:
  assumes "dispatch_bucket t ds st = (ok, st')" "finite (te_todo (s_te st t))" "distinct ds" "set ds \<subseteq> te_todo (s_te st t)"
  shows "queued st' + bucket st' t = queued st + bucket st t"
  using assms
proof (induction ds arbitrary: st)
  case (Cons d ds)
  obtain b s where b: "dispatch_one t d st = (b, s)" by fastforce
  note one = dispatch_one_props [OF b]
  show ?case
  proof (cases b)
    case True
    then have rest: "dispatch_bucket t ds s = (ok, st')"
      using Cons.prems(1) b by (simp add: dispatch_bucket_Cons del: dispatch_bucket.simps)
    have "queued st' + bucket st' t = queued s + bucket s t"
      using Cons.prems one(7) True by (intro Cons.IH [OF rest]) auto
    also have "\<dots> = queued st + bucket st t"
      using Cons.prems one(7,8) True
      by (simp add: bucket_def mset_set.remove [of "te_todo (s_te st t)" d])
    finally show ?thesis .
  next
    case False
    then have "st' = s" using Cons.prems(1) b by (simp add: dispatch_bucket_Cons del: dispatch_bucket.simps)
    then show ?thesis using one(7,8) False by (simp add: bucket_def)
  qed
qed simp

lemma dispatch_one_blocked: "dispatch_one t d st = (False, st') \<Longrightarrow> length (s_workchan st') \<ge> QUEUELEN"
  by (auto simp: dispatch_one_def sendWork_def send_express_def send_work_def Let_def split: prod.splits if_splits)

lemma dispatch_bucket_blocked: "dispatch_bucket t ds st = (False, st') \<Longrightarrow> length (s_workchan st') \<ge> QUEUELEN"
proof (induction ds arbitrary: st)
  case (Cons d ds)
  obtain b s where b: "dispatch_one t d st = (b, s)" by fastforce
  with Cons show ?case
    by (cases b) (auto simp: dispatch_bucket_Cons simp del: dispatch_bucket.simps dest: dispatch_one_blocked)
qed simp

text \<open>The invariant and the visiting orders, for the part \<open>ts\<close> of the calendar still to visit.\<close>

definition loop_ok :: "tptr list \<Rightarrow> sched_state \<Rightarrow> bool" where
  "loop_ok ts st \<longleftrightarrow> sched_ok (st\<lparr>s_schedule := ts\<rparr>)"

definition visits :: "(tptr \<Rightarrow> dptr list) \<Rightarrow> tptr list \<Rightarrow> sched_state \<Rightarrow> bool" where
  "visits order ts st \<longleftrightarrow> (\<forall>t \<in> set ts. set (order t) = te_todo (s_te st t) \<and> distinct (order t))"

lemma loop_ok_iff:
  "loop_ok ts st \<longleftrightarrow> sorted_wrt (<) (map (\<lambda>t. te_when (s_te st t)) ts) \<and> (\<forall>t \<in> set ts. t < s_nte st)
     \<and> (\<forall>d t. d_locte (s_d st d) = Some t \<longrightarrow> t \<in> set ts \<and> d \<in> te_todo (s_te st t))"
  by (simp add: loop_ok_def sched_ok_def cal_def)

definition dispatched :: "int \<Rightarrow> tptr list \<Rightarrow> sched_state \<Rightarrow> sched_state \<Rightarrow> bool" where
  "dispatched now ts st st' \<longleftrightarrow>
     queued st' + waiting st' = queued st + (\<Sum>t\<leftarrow>ts. bucket st t)
     \<and> set (s_schedule st') \<subseteq> set ts
     \<and> (\<forall>t \<in> set ts. now < te_when (s_te st t) \<longrightarrow> t \<in> set (s_schedule st') \<and> s_te st' t = s_te st t)
     \<and> ((\<forall>t \<in> set (s_schedule st'). now < te_when (s_te st' t)) \<or> length (s_workchan st') \<ge> QUEUELEN)"

lemma dispatch_loop_later:
  assumes "loop_ok (t # ts) st" "now < te_when (s_te st t)"
  shows "sched_ok (dispatch_loop now order (t # ts) st) \<and> dispatched now (t # ts) st (dispatch_loop now order (t # ts) st)"
  using assms by (auto simp: loop_ok_iff sched_ok_def cal_def dispatched_def waiting_def queued_def bucket_def)

lemma queued_upd [simp]:
  "queued (st\<lparr>s_schedule := x, s_WorkDefer := y\<rparr>) = queued st" "queued (st\<lparr>s_schedule := x\<rparr>) = queued st"
  "bucket (st\<lparr>s_schedule := x, s_WorkDefer := y\<rparr>) = bucket st" "bucket (st\<lparr>s_schedule := x\<rparr>) = bucket st"
  by (simp_all add: queued_def bucket_def fun_eq_iff)

lemma dispatch_loop_props:
  assumes "loop_ok ts st" "visits order ts st"
  shows "sched_ok (dispatch_loop now order ts st) \<and> dispatched now ts st (dispatch_loop now order ts st)"
  using assms
proof (induction ts arbitrary: st)
  case Nil
  then show ?case by (auto simp: loop_ok_iff sched_ok_def cal_def dispatched_def waiting_def)
next
  case (Cons t ts)
  show ?case
  proof (cases "now < te_when (s_te st t)")
    case True
    with Cons.prems(1) show ?thesis by (rule dispatch_loop_later)
  next
    case due: False
    obtain ok s where s: "dispatch_bucket t (order t) st = (ok, s)" by fastforce
    note P = dispatch_bucket_props [OF s]
    have order: "set (order t) = te_todo (s_te st t)" "distinct (order t)"
      using Cons.prems(2) by (simp_all add: visits_def)
    then have fin: "finite (te_todo (s_te st t))" by (metis List.finite_set)
    have C: "queued s + bucket s t = queued st + bucket st t"
      using dispatch_bucket_conserves [OF s fin order(2)] order(1) by simp
    have t: "t \<notin> set ts" using Cons.prems(1) by (auto simp: loop_ok_iff)
    have same: "s_te s u = s_te st u" if "u \<in> set ts" for u using P that t by auto
    have buckets: "(\<Sum>u\<leftarrow>ts. bucket s u) = (\<Sum>u\<leftarrow>ts. bucket st u)"
      using same by (intro arg_cong [where f = sum_list] map_cong) (simp_all add: bucket_def)
    have srt: "map (\<lambda>u. te_when (s_te s u)) xs = map (\<lambda>u. te_when (s_te st u)) xs" for xs using P by simp
    show ?thesis
    proof (cases ok)
      case True
      have gone: "te_todo (s_te s t) = {}" using P True order(1) by simp
      have "loop_ok ts s"
        unfolding loop_ok_iff
      proof (intro conjI allI ballI impI)
        show "sorted_wrt (<) (map (\<lambda>u. te_when (s_te s u)) ts)"
          unfolding srt using Cons.prems(1) by (simp add: loop_ok_iff)
      next
        fix u assume "u \<in> set ts"
        then show "u < s_nte s" using Cons.prems(1) P by (simp add: loop_ok_iff)
      next
        fix d u assume "d_locte (s_d s d) = Some u"
        then have *: "d_locte (s_d st d) = Some u" "d \<in> te_todo (s_te st u) \<longrightarrow> d \<in> te_todo (s_te s u)" using P by blast+
        then have **: "u \<in> set (t # ts)" "d \<in> te_todo (s_te s u)" using Cons.prems(1) by (auto simp: loop_ok_iff)
        with gone show "u \<in> set ts" "d \<in> te_todo (s_te s u)" by auto
      qed
      moreover have "visits order ts s" using Cons.prems(2) same by (simp add: visits_def)
      ultimately have IH: "sched_ok (dispatch_loop now order ts s) \<and> dispatched now ts s (dispatch_loop now order ts s)"
        by (rule Cons.IH)
      have "dispatch_loop now order (t # ts) st = dispatch_loop now order ts s"
        using due s True by simp
      moreover have "queued s + (\<Sum>u\<leftarrow>ts. bucket s u) = queued st + (\<Sum>u\<leftarrow>t # ts. bucket st u)"
        using C gone buckets by (simp add: bucket_def)
      ultimately show ?thesis using IH same due P by (auto simp: dispatched_def)
    next
      case False
      let ?f = "s\<lparr>s_schedule := t # ts, s_WorkDefer := s_WorkDefer s + 1\<rparr>"
      have r: "dispatch_loop now order (t # ts) st = ?f" using due s False by simp
      have "sched_ok ?f"
      proof (rule sched_okI)
        have "cal ?f = map (\<lambda>u. te_when (s_te st u)) (t # ts)" using srt [of "t # ts"] by (simp add: cal_def)
        then show "sorted_wrt (<) (cal ?f)" using Cons.prems(1) by (simp only: loop_ok_iff)
      next
        fix u assume "u \<in> set (s_schedule ?f)"
        then show "u < s_nte ?f" using Cons.prems(1) P by (auto simp: loop_ok_iff)
      next
        fix d u assume "d_locte (s_d ?f d) = Some u"
        then have *: "d_locte (s_d st d) = Some u" "d \<in> te_todo (s_te st u) \<longrightarrow> d \<in> te_todo (s_te s u)" using P by simp_all
        then show "u \<in> set (s_schedule ?f)" "d \<in> te_todo (s_te ?f u)" using Cons.prems(1) by (auto simp: loop_ok_iff)
      qed
      moreover have "queued s + (\<Sum>u\<leftarrow>t # ts. bucket s u) = queued st + (\<Sum>u\<leftarrow>t # ts. bucket st u)"
        using C buckets by (simp add: add.assoc [symmetric])
      moreover have "length (s_workchan s) \<ge> QUEUELEN" using dispatch_bucket_blocked s False by simp
      ultimately show ?thesis
        unfolding r using same due by (auto simp: dispatched_def waiting_def)
    qed
  qed
qed

text \<open>C10: dispatching loses no job and runs none early. From a well-formed calendar, whatever
  the order in which the buckets' maps are visited: the jobs in the work queues and in the
  calendar together are the same multiset as before; buckets in the future are untouched;
  and when a due bucket is left behind, the work queue is full. The calendar stays well
  formed.\<close>

theorem dispatch_conserves:
  assumes "sched_ok st" and "visits order (s_schedule st) st"
  shows "sched_ok (dispatch now order st)
    \<and> queued (dispatch now order st) + waiting (dispatch now order st) = queued st + waiting st
    \<and> (\<forall>t \<in> set (s_schedule st). now < te_when (s_te st t) \<longrightarrow>
         t \<in> set (s_schedule (dispatch now order st)) \<and> s_te (dispatch now order st) t = s_te st t)
    \<and> ((\<exists>t \<in> set (s_schedule (dispatch now order st)). te_when (s_te (dispatch now order st) t) \<le> now)
         \<longrightarrow> length (s_workchan (dispatch now order st)) \<ge> QUEUELEN)"
proof -
  have "loop_ok (s_schedule st) st" using assms(1) by (simp add: loop_ok_def)
  from dispatch_loop_props [OF this assms(2), of now]
  show ?thesis unfolding dispatch_def dispatched_def waiting_def by (auto simp: not_less)
qed

definition sched_start :: sched_state where
  "sched_start = \<lparr>s_d = (\<lambda>_. undefined\<lparr>d_locte := None\<rparr>), s_nd = 0, s_te = (\<lambda>_. undefined), s_nte = 0,
     s_schedule = [], s_schedchan = [], s_workchan = [], s_expresschan = [], s_priochan = [],
     s_WorkDefer = 0, s_ExprDefer = 0, s_PrioDefer = 0\<rparr>"

lemma sched_ok_start: "sched_ok sched_start"
  by (simp add: sched_ok_def sched_start_def cal_def)

text \<open>Three jobs: two at time 100, one at time 50.\<close>

definition sched_three :: sched_state where
  "sched_three = sched_recv (sched_recv (sched_recv (sched_At 100 ''c'' 3 (sched_At 50 ''b'' 2 (sched_At 100 ''a'' 1 sched_start)))))"

lemma sched_three_eval:
  "s_schedule sched_three = [1, 0] \<and> te_when (s_te sched_three 1) = 50 \<and> te_when (s_te sched_three 0) = 100
   \<and> te_todo (s_te sched_three 1) = {1} \<and> te_todo (s_te sched_three 0) = {0, 2}"
  by (simp add: sched_three_def sched_At_def sched_start_def sched_recv_def sched_add_def sort_search.simps upd_d_def
      insert_commute numeral_2_eq_2)

section \<open>Every reachable calendar is well formed\<close>

inductive sched_step :: "sched_state \<Rightarrow> sched_state \<Rightarrow> bool" where
  receive: "sched_step st (sched_recv st)"
| tick: "visits order (s_schedule st) st \<Longrightarrow> sched_step st (dispatch now order st)"
| reschedule: "sched_step st (ReSchedule now r d delay expt st)"
| remove: "sched_step st (sched_Remove d st)"
| asap: "sched_step st (sched_ASAP now r d st)"
| once: "sched_step st (sched_At unix text obj st)"
| create: "sched_New now r rp cf obj st = Some (d, st') \<Longrightarrow> sched_step st st'"
| take: "take_work q st = Some (d, st') \<Longrightarrow> sched_step st st'"
| finish: "sched_step st (worker_done now r d st)"

inductive_cases sched_stepE: "sched_step st st'"

lemma sched_ok_upd_chan [inv_intros]:
  "sched_ok st \<Longrightarrow> sched_ok (st\<lparr>s_schedchan := x\<rparr>)" "sched_ok st \<Longrightarrow> sched_ok (st\<lparr>s_WorkDefer := y\<rparr>)"
  "sched_ok st \<Longrightarrow> (\<And>x. d_locte (f x) = d_locte x) \<Longrightarrow> sched_ok (upd_d d f st)"
  "sched_ok st \<Longrightarrow> sched_ok (snd (sendWork d st))"
  by (auto intro: sched_ok_same split: if_splits)

lemma sched_ok_SamePrio [inv_intros]: "sched_ok st \<Longrightarrow> sched_ok (ReScheduleSamePrio now r d delay st)"
  by (auto simp: ReScheduleSamePrio_def Let_def intro!: inv_intros)

lemma sched_ok_ReSchedule [inv_intros]: "sched_ok st \<Longrightarrow> sched_ok (ReSchedule now r d delay expt st)"
  by (auto simp: ReSchedule_def Let_def intro!: inv_intros)

lemma sched_ok_alloc [inv_intros]:
  "sched_ok st \<Longrightarrow> d_locte x = None \<Longrightarrow> sched_ok (st\<lparr>s_d := (s_d st)(d := x), s_nd := n\<rparr>)"
  by (auto intro: sched_ok_same split: if_splits)

lemma sched_ok_recv:
  assumes "sched_ok st"
  shows "sched_ok (sched_recv st)"
proof (cases "s_schedchan st")
  case (Cons d ds)
  define s1 where "s1 = st\<lparr>s_schedchan := ds\<rparr>"
  define s2 where "s2 = (if d_locte (s_d s1 d) \<noteq> None then sched_del d s1 else s1)"
  have "sched_ok s1" using assms unfolding s1_def by (rule inv_intros)
  then have "sched_ok s2" by (simp add: s2_def sched_ok_del)
  moreover have "d_locte (s_d s2 d) = None" by (auto simp: s2_def sched_del_def)
  ultimately have "sched_ok (sched_add d s2)" by (rule sched_ok_add)
  moreover have "sched_recv st = (if d_when (s_d s2 d) \<noteq> 0 then sched_add d s2 else s2)"
    by (simp add: sched_recv_def Cons s1_def s2_def)
  ultimately show ?thesis using \<open>sched_ok s2\<close> by simp
qed (use assms in \<open>simp add: sched_recv_def\<close>)

lemma sched_ok_step: "sched_step st st' \<Longrightarrow> sched_ok st \<Longrightarrow> sched_ok st'"
proof (induction rule: sched_step.induct)
  case (tick order st now)
  then have "loop_ok (s_schedule st) st" by (simp add: loop_ok_def)
  from dispatch_loop_props [OF this tick(1), of now] show ?case by (simp add: dispatch_def)
next
  case (remove st d)
  then show ?case by (auto simp: sched_Remove_def Let_def intro!: inv_intros)
next
  case (asap st now r d)
  have "sched_ok (snd (sendWork d st))" using asap by (rule inv_intros)
  then show ?case by (auto simp: sched_ASAP_def Let_def intro!: inv_intros split: prod.split)
next
  case (once st unix tx obj)
  then have "sched_ok (sched_At unix tx obj st \<lparr>s_schedchan := s_schedchan st\<rparr>)"
    by (auto simp: sched_At_def Let_def intro!: sched_ok_alloc)
  then have "sched_ok (sched_At unix tx obj st \<lparr>s_schedchan := s_schedchan st\<rparr> \<lparr>s_schedchan := s_schedchan (sched_At unix tx obj st)\<rparr>)"
    by (rule inv_intros)
  then show ?case by simp
next
  case (create now r rp cf obj st d st')
  then show ?case by (auto simp: sched_New_def Let_def intro!: inv_intros split: if_splits)
next
  case (take q st d st')
  then show ?case
    by (intro sched_ok_same [OF take(2)]) (auto simp: take_work_def split: list.splits queue_name.splits)
next
  case (finish st now r d)
  then show ?case by (auto simp: worker_done_def intro!: inv_intros)
qed (auto intro: inv_intros sched_ok_recv)

text \<open>C12: whatever requests, ticks, workers and reschedulings have happened, in any order, the
  calendar's buckets are in strictly increasing order of time (so no two buckets share a
  time, the bisection of \<open>add\<close> finds the right place, and \<open>dispatch\<close> may stop at the first
  bucket that lies in the future), and a job that holds a bucket is in that bucket.\<close>

theorem calendar_sorted:
  assumes "sched_step\<^sup>*\<^sup>* sched_start st"
  shows "sorted_wrt (<) (map (\<lambda>t. te_when (s_te st t)) (s_schedule st))
    \<and> (\<forall>d t. d_locte (s_d st d) = Some t \<longrightarrow> t \<in> set (s_schedule st) \<and> d \<in> te_todo (s_te st t))"
proof -
  have "sched_ok st"
    using assms by (induction rule: rtranclp_induct) (auto intro: sched_ok_start sched_ok_step)
  then show ?thesis by (simp add: sched_ok_def cal_def)
qed

lemma sched_three_reach: "sched_step\<^sup>*\<^sup>* sched_start sched_three"
  unfolding sched_three_def
  by (meson receive once rtranclp.rtrancl_refl rtranclp.rtrancl_into_rtrancl)

theorem calendar_sorted_witness:
  "map (\<lambda>t. te_when (s_te sched_three t)) (s_schedule sched_three) = [50, 100]
   \<and> sorted_wrt (<) (map (\<lambda>t. te_when (s_te sched_three t)) (s_schedule sched_three))"
  using calendar_sorted [OF sched_three_reach] sched_three_eval by simp

theorem dispatch_conserves_witness:
  "queued (dispatch 60 (\<lambda>t. if t = 1 then [1] else [0, 2]) sched_three)
     + waiting (dispatch 60 (\<lambda>t. if t = 1 then [1] else [0, 2]) sched_three) = queued sched_three + waiting sched_three"
proof -
  have "sched_ok sched_three"
    using sched_three_reach by (induction rule: rtranclp_induct) (auto intro: sched_ok_start sched_ok_step)
  moreover have "visits (\<lambda>t. if t = 1 then [1] else [0, 2]) (s_schedule sched_three) sched_three"
    using sched_three_eval by (simp add: visits_def)
  ultimately show ?thesis using dispatch_conserves by blast
qed

text \<open>
  A job whose dispatch was refused has lost its bucket but is still in it: a later removal or
  rescheduling does not take it out, and the bucket will still run it.
\<close>

lemma refused_job_stays:
  assumes "dispatch_one t d st = (False, st')" "d \<in> te_todo (s_te st t)"
  shows "sched_del d st' = st' \<and> d \<in> te_todo (s_te st' t)"
  using dispatch_one_props [OF assms(1)] assms(2) by (simp add: sched_del_def)

section \<open>Number of workers\<close>

text \<open>Worker counts. At start there are between \<open>MINWORKER\<close> and \<open>MAXWORKER\<close> workers and at
  least \<open>MINEXPRESS\<close> express workers, whatever the configuration says. Tuning never removes
  a worker and never touches a configured number; but as it tests the limit before it adds
  a fifth, the number can pass \<open>MAXWORKER\<close>, up to 11998.\<close>

theorem worker_counts:
  assumes "autotune_step maxrun deferd expdfr tu = Some tu'" and "0 \<le> tu_nwork tu" "tu_nwork tu \<le> 11998"
  shows "2 \<le> fst (Init_workers m) \<and> fst (Init_workers m) \<le> 10000 \<and> 2 \<le> snd (Init_workers m)
    \<and> tu_nwork tu \<le> tu_nwork tu' \<and> tu_nwork tu' \<le> 11998 \<and> (maxrun \<noteq> 0 \<longrightarrow> tu_nwork tu' = tu_nwork tu)"
proof -
  have "fst (Init_workers m) \<le> 10000 \<and> 2 \<le> fst (Init_workers m) \<and> 2 \<le> snd (Init_workers m)"
    by (simp add: Init_workers_def Let_def)
  moreover have "tu_nwork tu sdiv 5 = tu_nwork tu div 5" using assms(2) by (simp add: sdiv_nonneg)
  moreover from this have "tu_nwork tu < 10000 \<longrightarrow> tu_nwork tu + tu_nwork tu sdiv 5 \<le> 11998" "0 \<le> tu_nwork tu sdiv 5"
    using assms(2) by (simp_all, presburger)
  ultimately show ?thesis
    using assms by (auto simp: autotune_step_def Let_def split: if_splits)
qed

theorem worker_counts_witness:
  "map_option tu_nwork (autotune_step 0 7 0 \<lparr>tu_nwork = 9999, tu_nexpr = 2, tu_ovlim = 60, tu_ovct = 50, tu_pdeferd = 6, tu_pexpdfr = 0\<rparr>)
     = Some 11998
   \<and> fst (Init_workers 20000) \<le> 10000"
  using worker_counts [of 0 7 0 "\<lparr>tu_nwork = 9999, tu_nexpr = 2, tu_ovlim = 60, tu_ovct = 50, tu_pdeferd = 6, tu_pexpdfr = 0\<rparr>"
      "\<lparr>tu_nwork = 11998, tu_nexpr = 2, tu_ovlim = 60, tu_ovct = 0, tu_pdeferd = 7, tu_pexpdfr = 0\<rparr>" 20000]
  by (simp add: autotune_step_def)

end
