(* ===== verification/Configure.thy ===== *)
theory Configure
  imports ArgusBase GoFloat
begin

text \<open>
  Package \<open>configure\<close> (\<open>src/argus/configure/configure.go\<close>): the parameters of a block of
  the configuration file, their inheritance from the enclosing blocks, the per-block
  cache, and the conversion of a configured value to the type of the field it sets. Blocks
  (\<open>*CF\<close>) and values (\<open>*CFV\<close>) are pointers: a value found through a cache is the same
  object as in its block, so that marking it used is seen there. A block is allocated
  after its parent.
\<close>

section \<open>Blocks and values\<close>

datatype cfvalue = CStr string | CSched schedule

record cfv =
  cv_Value :: cfvalue
  cv_Line :: int
  cv_Used :: bool

type_synonym cptr = nat
type_synonym vptr = nat

record cf =
  cf_parent :: "cptr option"
  cf_Type :: string
  cf_Name :: string
  cf_Extra :: "string list"
  cf_File :: string
  cf_Line :: int
  cf_Param :: "string \<rightharpoonup> vptr"
  cf_cache :: "(string \<rightharpoonup> vptr option) option"  \<comment> \<open>\<open>None\<close>: drained\<close>

record cf_state =
  cs_cf :: "cptr \<Rightarrow> cf"
  cs_ncf :: cptr
  cs_cfv :: "vptr \<Rightarrow> cfv"
  cs_ncfv :: vptr
  cs_log :: log_state

definition NewCF :: "string \<Rightarrow> string \<Rightarrow> cptr option \<Rightarrow> cf_state \<Rightarrow> cptr \<times> cf_state" where
  "NewCF t n pcf st =
     (let c = cs_ncf st;
          x = \<lparr>cf_parent = pcf, cf_Type = t, cf_Name = n, cf_Extra = [], cf_File = [], cf_Line = 0,
               cf_Param = Map.empty, cf_cache = Some Map.empty\<rparr>
      in (c, st\<lparr>cs_cf := (cs_cf st)(c := x), cs_ncf := Suc c\<rparr>))"

text \<open>\<open>cf.Param[name] = &CFV{...}\<close>\<close>

definition set_param :: "cptr \<Rightarrow> string \<Rightarrow> cfvalue \<Rightarrow> int \<Rightarrow> cf_state \<Rightarrow> cf_state" where
  "set_param c name val line st =
     (let v = cs_ncfv st; x = cs_cf st c
      in st\<lparr>cs_cfv := (cs_cfv st)(v := \<lparr>cv_Value = val, cv_Line = line, cv_Used = False\<rparr>), cs_ncfv := Suc v,
            cs_cf := (cs_cf st)(c := x\<lparr>cf_Param := (cf_Param x)(name \<mapsto> v)\<rparr>)\<rparr>)"

definition mark_used :: "vptr \<Rightarrow> cf_state \<Rightarrow> cf_state" where
  "mark_used v st = st\<lparr>cs_cfv := (cs_cfv st)(v := (cs_cfv st v)\<lparr>cv_Used := True\<rparr>)\<rparr>"

section \<open>Lookup\<close>

function iGet :: "cptr \<Rightarrow> string \<Rightarrow> bool \<Rightarrow> cf_state \<Rightarrow> vptr option \<times> cf_state" where
  "iGet c name useInherit st =
     (case (if useInherit then cf_Param (cs_cf st c) (name @ ''!'') else None) of
        Some v \<Rightarrow> (Some v, mark_used v st)
      | None \<Rightarrow>
          (case cf_Param (cs_cf st c) name of
             Some v \<Rightarrow> (Some v, mark_used v st)
           | None \<Rightarrow>
               (case (case cf_cache (cs_cf st c) of None \<Rightarrow> None | Some m \<Rightarrow> m name) of
                  Some cc \<Rightarrow> (cc, st)
                | None \<Rightarrow>
                    (case cf_parent (cs_cf st c) of
                       None \<Rightarrow> (None, st)
                     | Some q \<Rightarrow>
                         if \<not> q < c then (None, st)
                         else
                           let (v, st) = iGet q name False st; x = cs_cf st c
                           in (v, case cf_cache x of
                                    None \<Rightarrow> st
                                  | Some m \<Rightarrow> st\<lparr>cs_cf := (cs_cf st)(c := x\<lparr>cf_cache := Some (m(name \<mapsto> v))\<rparr>)\<rparr>)))))"
  by pat_completeness auto
termination by (relation "measure (\<lambda>(c, name, u, st). c)") auto

declare iGet.simps [simp del]

definition cf_Get :: "cptr \<Rightarrow> string \<Rightarrow> cf_state \<Rightarrow> vptr option \<times> cf_state" where
  "cf_Get c name st = iGet c name True st"

definition DrainCache :: "cptr \<Rightarrow> cf_state \<Rightarrow> cf_state" where
  "DrainCache c st = st\<lparr>cs_cf := (cs_cf st)(c := (cs_cf st c)\<lparr>cf_cache := None\<rparr>)\<rparr>"

definition cf_Error :: "cptr \<Rightarrow> string \<Rightarrow> cf_state \<Rightarrow> cf_state" where
  "cf_Error c e st = st\<lparr>cs_log := ConfigError (cf_File (cs_cf st c)) (cf_Line (cs_cf st c)) e (cs_log st)\<rparr>"

definition cf_Warning :: "cptr \<Rightarrow> string \<Rightarrow> cf_state \<Rightarrow> cf_state" where
  "cf_Warning c e st = st\<lparr>cs_log := ConfigWarning (cf_File (cs_cf st c)) (cf_Line (cs_cf st c)) e (cs_log st)\<rparr>"

text \<open>\<open>keys\<close> is the order in which the map is visited.\<close>

definition CheckTypos :: "cptr \<Rightarrow> string list \<Rightarrow> cf_state \<Rightarrow> cf_state" where
  "CheckTypos c keys st =
     foldl (\<lambda>st key. case cf_Param (cs_cf st c) key of
              None \<Rightarrow> st
            | Some v \<Rightarrow>
                if cv_Used (cs_cfv st v) then st
                else st\<lparr>cs_log := ConfigWarning (cf_File (cs_cf st c)) (cv_Line (cs_cfv st v))
                       (''unused parameter '' @ [CHR 0x27] @ key @ [CHR 0x27] @ '' - typo?'') (cs_log st)\<rparr>) st keys"

section \<open>Fields\<close>

text \<open>
  A field of a configuration struct by the type the code switches on; \<open>reflect\<close> is
  replaced by the list of a struct's fields.
\<close>

datatype fval =
    FInt int
  | FBool bool
  | FFloat gofloat
  | FString string
  | FStatus status
  | FGravity gravity
  | FDarpMode darp_mode
  | FSchedule "schedule option"
  | FArray "fval list"
  | FOther

datatype cfconv = NoConv | ConvTimespec | ConvDotsev

record field =
  fl_name :: string
  fl_conv :: cfconv
  fl_val :: fval

definition set_string :: "cptr \<Rightarrow> cfconv \<Rightarrow> string \<Rightarrow> fval \<Rightarrow> cf_state \<Rightarrow> fval \<times> cf_state" where
  "set_string c conv cval v st =
     (case v of
        FInt _ \<Rightarrow>
          if conv = ConvTimespec then
            (case Timespec cval 1 of
               Inl _ \<Rightarrow> (v, cf_Error c (''invalid timespec '' @ [CHR 0x27] @ cval @ [CHR 0x27]) st)
             | Inr ts \<Rightarrow> (FInt ts, st))
          else (FInt (atoi cval), st)
      | FBool _ \<Rightarrow> (FBool (CheckBool cval), st)
      | FFloat _ \<Rightarrow> (FFloat (ParseFloat_ignore cval), st)
      | FString _ \<Rightarrow> (FString cval, st)
      | FStatus _ \<Rightarrow> (FStatus (StatusValue cval), st)
      | FGravity _ \<Rightarrow> (FGravity (GravityValue cval), st)
      | FDarpMode _ \<Rightarrow> (FDarpMode (DarpModeValue cval), st)
      | FSchedule _ \<Rightarrow> (FSchedule (Some (ScheduleAlways cval)), st)
      | FArray _ \<Rightarrow> (v, st)
      | FOther \<Rightarrow> (v, st))"

definition setValue :: "cptr \<Rightarrow> cfconv \<Rightarrow> string \<Rightarrow> fval \<Rightarrow> cf_state \<Rightarrow> fval \<times> cf_state" where
  "setValue c conv name v st =
     (let (p, st) = cf_Get c name st in
      case p of
        None \<Rightarrow> (v, st)
      | Some p \<Rightarrow>
          (case cv_Value (cs_cfv st p) of
             CStr cval \<Rightarrow> set_string c conv cval v st
           | CSched s \<Rightarrow> ((case v of FSchedule _ \<Rightarrow> FSchedule (Some s) | _ \<Rightarrow> v), st)))"

text \<open>\<open>thing.severity\<close> sets \<open>thing[sev]\<close>; \<open>thing\<close> itself sets the entry \<open>UNKNOWN\<close>. An empty
  array panics.\<close>

fun dotsev_loop :: "cptr \<Rightarrow> string \<Rightarrow> status list \<Rightarrow> fval list \<Rightarrow> cf_state \<Rightarrow> fval list \<times> cf_state" where
  "dotsev_loop c name [] arr st = (arr, st)"
| "dotsev_loop c name (sev # sevs) arr st =
     (if sev \<ge> int (length arr) then (arr, st)
      else let (v, st) = setValue c NoConv (name @ ''.'' @ Status_String sev) (arr ! nat sev) st
           in dotsev_loop c name sevs (arr[nat sev := v]) st)"

definition initDotSev :: "cptr \<Rightarrow> string \<Rightarrow> fval list \<Rightarrow> cf_state \<Rightarrow> (fval list \<times> cf_state) option" where
  "initDotSev c name arr st =
     (let (arr, st) = dotsev_loop c name [CLEAR..CRITICAL] arr st in
      if arr = [] then None
      else let (v, st) = setValue c NoConv name (arr ! 0) st in Some (arr[0 := v], st))"

fun InitFromConfig :: "cptr \<Rightarrow> string \<Rightarrow> field list \<Rightarrow> cf_state \<Rightarrow> (field list \<times> cf_state) option" where
  "InitFromConfig c prefix [] st = Some ([], st)"
| "InitFromConfig c prefix (f # fs) st =
     (let name = prefix @ to_lower (fl_name f) in
      (case (fl_conv f, fl_val f) of
         (ConvDotsev, FArray arr) \<Rightarrow>
           map_option (\<lambda>(arr, st). (FArray arr, st)) (initDotSev c name arr st)
       | (conv, v) \<Rightarrow> Some (setValue c conv name v st))
      \<bind> (\<lambda>(v, st). map_option (\<lambda>(fs, st). (f\<lparr>fl_val := v\<rparr> # fs, st)) (InitFromConfig c prefix fs st)))"

section \<open>The cache implements inheritance\<close>

text \<open>
  What a lookup means, without caches: a block's own \<open>name!\<close>, then its own \<open>name\<close>, then the
  \<open>name\<close> of the nearest enclosing block that has one. The \<open>!\<close> form of an enclosing block is
  not looked at.
\<close>

function inherited :: "(cptr \<Rightarrow> cf) \<Rightarrow> cptr \<Rightarrow> string \<Rightarrow> vptr option" where
  "inherited h c name =
     (case cf_Param (h c) name of
        Some v \<Rightarrow> Some v
      | None \<Rightarrow> (case cf_parent (h c) of None \<Rightarrow> None | Some q \<Rightarrow> if q < c then inherited h q name else None))"
  by pat_completeness auto
termination by (relation "measure (\<lambda>(h, c, name). c)") auto

declare inherited.simps [simp del]

definition cf_lookup :: "(cptr \<Rightarrow> cf) \<Rightarrow> cptr \<Rightarrow> string \<Rightarrow> vptr option" where
  "cf_lookup h c name =
     (case cf_Param (h c) (name @ ''!'') of Some v \<Rightarrow> Some v | None \<Rightarrow> inherited h c name)"

text \<open>Every cached answer is the right one.\<close>

definition cache_ok :: "(cptr \<Rightarrow> cf) \<Rightarrow> bool" where
  "cache_ok h \<longleftrightarrow> (\<forall>c m name v. cf_cache (h c) = Some m \<longrightarrow> m name = Some v \<longrightarrow> v = inherited h c name)"

text \<open>Two heaps that differ in caches only.\<close>

definition same_blocks :: "(cptr \<Rightarrow> cf) \<Rightarrow> (cptr \<Rightarrow> cf) \<Rightarrow> bool" where
  "same_blocks h h' \<longleftrightarrow> (\<forall>c. cf_Param (h' c) = cf_Param (h c) \<and> cf_parent (h' c) = cf_parent (h c))"

lemma same_blocks_refl [simp]: "same_blocks h h"
  by (simp add: same_blocks_def)

lemma same_blocks_trans: "same_blocks a b \<Longrightarrow> same_blocks b c \<Longrightarrow> same_blocks a c"
  by (simp add: same_blocks_def)

lemma inherited_same: "same_blocks h h' \<Longrightarrow> inherited h' c name = inherited h c name"
proof (induction h c name rule: inherited.induct)
  case (1 h c name)
  show ?case
    using 1 by (subst (1 2) inherited.simps) (simp add: same_blocks_def split: option.split)
qed

lemma iGet_sound:
  assumes "cache_ok (cs_cf st)"
  shows "cache_ok (cs_cf (snd (iGet c name u st))) \<and> same_blocks (cs_cf st) (cs_cf (snd (iGet c name u st)))
    \<and> fst (iGet c name u st) = (if u then cf_lookup (cs_cf st) c name else inherited (cs_cf st) c name)"
  using assms
proof (induction c name u st rule: iGet.induct)
  case (1 c name u st)
  let ?x = "cs_cf st c"
  show ?case
  proof (cases "(u \<and> cf_Param ?x (name @ ''!'') \<noteq> None) \<or> cf_Param ?x name \<noteq> None")
    case True
    then show ?thesis
      using "1.prems"
      by (subst (1 2 3) iGet.simps, subst inherited.simps)
        (auto simp: mark_used_def cf_lookup_def inherited.simps [of _ c] split: option.split)
  next
    case own: False
    then have look: "cf_lookup (cs_cf st) c name = inherited (cs_cf st) c name" if u
      using that by (simp add: cf_lookup_def)
    show ?thesis
    proof (cases "case cf_cache ?x of None \<Rightarrow> None | Some m \<Rightarrow> m name")
      case (Some cc)
      then have "cc = inherited (cs_cf st) c name"
        using "1.prems" by (auto simp: cache_ok_def split: option.splits)
      moreover have "iGet c name u st = (cc, st)"
        using own Some by (subst iGet.simps) (auto split: option.splits)
      ultimately show ?thesis using "1.prems" look by simp
    next
      case nocache: None
      show ?thesis
      proof (cases "\<exists>q. cf_parent ?x = Some q \<and> q < c")
        case False
        then have "iGet c name u st = (None, st)"
          using own nocache by (subst iGet.simps) (auto split: option.splits)
        moreover have "inherited (cs_cf st) c name = None"
          using own False by (subst inherited.simps) (auto split: option.splits)
        ultimately show ?thesis using "1.prems" look by simp
      next
        case True
        then obtain q where q: "cf_parent ?x = Some q" "q < c" by blast
        obtain v s where s: "iGet q name False st = (v, s)" by fastforce
        have IH: "cache_ok (cs_cf s)" "same_blocks (cs_cf st) (cs_cf s)" "v = inherited (cs_cf st) q name"
          using "1.IH" [of q] own nocache q "1.prems" s by (auto split: option.splits)
        have inh: "inherited (cs_cf st) c name = v"
          using own q IH(3) by (subst inherited.simps) (auto split: option.splits)
        define s' where "s' = (case cf_cache (cs_cf s c) of None \<Rightarrow> s
            | Some m \<Rightarrow> s\<lparr>cs_cf := (cs_cf s)(c := (cs_cf s c)\<lparr>cf_cache := Some (m(name \<mapsto> v))\<rparr>)\<rparr>)"
        have r: "iGet c name u st = (v, s')"
          using own nocache q s by (subst iGet.simps) (auto simp: s'_def split: option.splits)
        have sb: "same_blocks (cs_cf s) (cs_cf s')"
          by (auto simp: same_blocks_def s'_def split: option.split)
        have "cache_ok (cs_cf s')"
          unfolding cache_ok_def inherited_same [OF sb]
          using IH(1) inherited_same [OF IH(2), of c name] inh
          by (fastforce simp: cache_ok_def s'_def split: option.splits if_splits)
        then show ?thesis
          using r sb IH(2) inh look by (auto intro: same_blocks_trans)
      qed
    qed
  qed
qed

text \<open>C18: the cached lookup implements inheritance. When every cached answer is right, the
  answer of \<open>Get\<close> is the block's own \<open>name!\<close>, else its own \<open>name\<close>, else that of the nearest
  enclosing block, never an enclosing block's \<open>name!\<close>; the parameters do not change and the
  caches stay right, so this holds of every later lookup.\<close>

theorem Get_inherits:
  assumes "cache_ok (cs_cf st)"
  shows "fst (cf_Get c name st) = cf_lookup (cs_cf st) c name
    \<and> cache_ok (cs_cf (snd (cf_Get c name st)))
    \<and> (\<forall>d n. cf_lookup (cs_cf (snd (cf_Get c name st))) d n = cf_lookup (cs_cf st) d n)"
proof -
  note s = iGet_sound [OF assms, of c name True]
  then have "cf_lookup (cs_cf (snd (iGet c name True st))) d n = cf_lookup (cs_cf st) d n" for d n
    using inherited_same by (auto simp: cf_lookup_def same_blocks_def split: option.split)
  with s show ?thesis by (simp add: cf_Get_def)
qed

definition witness_cf :: cf_state where
  "witness_cf =
     (let st = \<lparr>cs_cf = (\<lambda>_. undefined\<lparr>cf_cache := None\<rparr>), cs_ncf = 0, cs_cfv = (\<lambda>_. undefined), cs_ncfv = 0,
                cs_log = \<lparr>haveErrors = False, haveWarns = False, logmsgs = []\<rparr>\<rparr>;
          (g, st) = NewCF ''group'' ''Top'' None st;
          st = set_param g ''frequency'' (CStr ''60'') 3 st;
          st = set_param g ''retries!'' (CStr ''9'') 4 st;
          st = set_param g ''sendnotify.down'' (CStr ''no'') 5 st;
          (s, st) = NewCF ''service'' ''Ping'' (Some g) st;
          st = set_param s ''siren.major'' (CStr ''yes'') 7 st;
          st = set_param s ''siren'' (CStr ''no'') 8 st
      in st)"

lemma witness_cf_ok: "cache_ok (cs_cf witness_cf)"
  by (auto simp: cache_ok_def witness_cf_def NewCF_def set_param_def Let_def split: if_splits)

theorem Get_inherits_witness:
  "fst (cf_Get 1 ''frequency'' witness_cf) = Some 0 \<and> fst (cf_Get 1 ''retries'' witness_cf) = None"
proof -
  have "cf_lookup (cs_cf witness_cf) 1 ''frequency'' = Some 0" "cf_lookup (cs_cf witness_cf) 1 ''retries'' = None"
    by (simp_all add: cf_lookup_def witness_cf_def NewCF_def set_param_def Let_def inherited.simps)
  with Get_inherits [OF witness_cf_ok, of 1] show ?thesis by simp
qed

section \<open>Fields by severity\<close>

definition conv_value :: "cfvalue \<Rightarrow> fval \<Rightarrow> fval" where
  "conv_value x v =
     (case x of
        CSched s \<Rightarrow> (case v of FSchedule _ \<Rightarrow> FSchedule (Some s) | _ \<Rightarrow> v)
      | CStr s \<Rightarrow> (case v of
            FInt _ \<Rightarrow> FInt (atoi s) | FBool _ \<Rightarrow> FBool (CheckBool s) | FFloat _ \<Rightarrow> FFloat (ParseFloat_ignore s)
          | FString _ \<Rightarrow> FString s | FStatus _ \<Rightarrow> FStatus (StatusValue s) | FGravity _ \<Rightarrow> FGravity (GravityValue s)
          | FDarpMode _ \<Rightarrow> FDarpMode (DarpModeValue s) | FSchedule _ \<Rightarrow> FSchedule (Some (ScheduleAlways s)) | w \<Rightarrow> w))"

text \<open>What the configuration says about a field: the inherited value converted, or the default.\<close>

definition configured :: "cf_state \<Rightarrow> cptr \<Rightarrow> string \<Rightarrow> fval \<Rightarrow> fval" where
  "configured st c name v =
     (case cf_lookup (cs_cf st) c name of None \<Rightarrow> v | Some p \<Rightarrow> conv_value (cv_Value (cs_cfv st p)) v)"

text \<open>Lookups change caches and \<open>Used\<close> marks only.\<close>

definition same_config :: "cf_state \<Rightarrow> cf_state \<Rightarrow> bool" where
  "same_config st st' \<longleftrightarrow> same_blocks (cs_cf st) (cs_cf st') \<and> cache_ok (cs_cf st')
     \<and> (\<forall>p. cv_Value (cs_cfv st' p) = cv_Value (cs_cfv st p))"

lemma iGet_values: "cv_Value (cs_cfv (snd (iGet c name u st)) p) = cv_Value (cs_cfv st p)"
proof (induction c name u st rule: iGet.induct)
  case (1 c name u st)
  show ?case
  proof (cases "(u \<and> cf_Param (cs_cf st c) (name @ ''!'') \<noteq> None) \<or> cf_Param (cs_cf st c) name \<noteq> None
      \<or> (case cf_cache (cs_cf st c) of None \<Rightarrow> None | Some m \<Rightarrow> m name) \<noteq> None
      \<or> (case cf_parent (cs_cf st c) of None \<Rightarrow> True | Some q \<Rightarrow> \<not> q < c)")
    case True
    then show ?thesis
      by (subst iGet.simps) (auto simp: mark_used_def split: option.splits if_splits)
  next
    case False
    then obtain q where q: "cf_parent (cs_cf st c) = Some q" "q < c" by (auto split: option.splits)
    with False 1 have "cv_Value (cs_cfv (snd (iGet q name False st)) p) = cv_Value (cs_cfv st p)"
      by (auto split: option.splits)
    then show ?thesis
      using False q by (subst iGet.simps) (auto simp: Let_def split: option.splits prod.split)
  qed
qed

lemma cf_lookup_same: "same_blocks h h' \<Longrightarrow> cf_lookup h' c name = cf_lookup h c name"
  using inherited_same by (simp add: cf_lookup_def same_blocks_def split: option.split)

lemma configured_same: "same_config st st' \<Longrightarrow> configured st' c name v = configured st c name v"
  by (auto simp: same_config_def configured_def cf_lookup_same split: option.split)

lemma setValue_sound:
  assumes "cache_ok (cs_cf st)"
  shows "fst (setValue c NoConv name v st) = configured st c name v \<and> same_config st (snd (setValue c NoConv name v st))"
proof -
  obtain p s where s: "iGet c name True st = (p, s)" by fastforce
  have "set_string c NoConv x v s = (conv_value (CStr x) v, s)" for x
    by (simp add: set_string_def conv_value_def split: fval.split)
  moreover have "p = cf_lookup (cs_cf st) c name" "same_config st s"
    using iGet_sound [OF assms, of c name True] iGet_values [of c name True st] s by (simp_all add: same_config_def)
  ultimately show ?thesis
    by (auto simp: setValue_def cf_Get_def s configured_def same_config_def conv_value_def split: option.split cfvalue.split)
qed

lemma same_config_trans: "same_config a b \<Longrightarrow> same_config b c \<Longrightarrow> same_config a c"
  by (auto simp: same_config_def intro: same_blocks_trans)

definition dotsev_name :: "string \<Rightarrow> nat \<Rightarrow> string" where
  "dotsev_name name i = (if i = 0 then name else name @ ''.'' @ Status_String (int i))"

lemma dotsev_loop_sound:
  assumes "cache_ok (cs_cf st)" "sorted_wrt (<) sevs" "\<forall>s \<in> set sevs. 1 \<le> s \<and> s \<le> 5"
  shows "length (fst (dotsev_loop c name sevs arr st)) = length arr
    \<and> (\<forall>i < length arr. fst (dotsev_loop c name sevs arr st) ! i
         = (if int i \<in> set sevs then configured st c (dotsev_name name i) (arr ! i) else arr ! i))
    \<and> cache_ok (cs_cf (snd (dotsev_loop c name sevs arr st)))
    \<and> (sevs = [] \<or> snd (dotsev_loop c name sevs arr st) = st \<or> same_config st (snd (dotsev_loop c name sevs arr st)))"
  using assms
proof (induction c name sevs arr st rule: dotsev_loop.induct)
  case (2 c name sev sevs arr st)
  show ?case
  proof (cases "sev \<ge> int (length arr)")
    case True
    then have "int i \<notin> set (sev # sevs)" if "i < length arr" for i
      using "2.prems"(2) that by fastforce
    with True "2.prems"(1) show ?thesis by auto
  next
    case False
    define i where "i = nat sev"
    have i: "sev = int i" "0 < i" "i < length arr" using False "2.prems"(3) by (auto simp: i_def)
    obtain v s where s: "setValue c NoConv (name @ ''.'' @ Status_String sev) (arr ! nat sev) st = (v, s)" by fastforce
    have v: "v = configured st c (dotsev_name name i) (arr ! i)" "same_config st s"
      using setValue_sound [OF "2.prems"(1), of c "name @ ''.'' @ Status_String sev" "arr ! nat sev"] s i
      by (simp_all add: dotsev_name_def)
    have ok: "cache_ok (cs_cf s)" using v(2) by (simp add: same_config_def)
    define arr' where "arr' = arr[i := v]"
    have step: "dotsev_loop c name (sev # sevs) arr st = dotsev_loop c name sevs arr' s"
      using False s by (simp add: arr'_def i_def)
    have IH: "length (fst (dotsev_loop c name sevs arr' s)) = length arr'
      \<and> (\<forall>j < length arr'. fst (dotsev_loop c name sevs arr' s) ! j
         = (if int j \<in> set sevs then configured s c (dotsev_name name j) (arr' ! j) else arr' ! j))
      \<and> cache_ok (cs_cf (snd (dotsev_loop c name sevs arr' s)))
      \<and> (sevs = [] \<or> snd (dotsev_loop c name sevs arr' s) = s \<or> same_config s (snd (dotsev_loop c name sevs arr' s)))"
      using "2.IH" [OF False s [symmetric] refl] ok "2.prems" by (simp add: arr'_def i_def)
    have notin: "int i \<notin> set sevs" using "2.prems"(2) i(1) by auto
    show ?thesis
      unfolding step using IH v configured_same [OF v(2)] notin i
      by (auto simp: arr'_def nth_list_update same_config_trans [OF v(2)] v(2))
  qed
qed auto

text \<open>A field that varies by severity. Entry \<open>sev\<close> of the array becomes what
  \<open>name.severity\<close> is configured to (inheritance included) and entry 0, the default for all
  severities, what \<open>name\<close> is configured to; entries nothing is configured for keep their
  defaults, and no entry beyond \<open>critical\<close> is touched.\<close>

theorem initDotSev_spec:
  assumes "cache_ok (cs_cf st)" and "arr \<noteq> []"
  shows "\<exists>arr' st'. initDotSev c name arr st = Some (arr', st') \<and> length arr' = length arr
    \<and> (\<forall>i < length arr. arr' ! i = (if i \<le> 5 then configured st c (dotsev_name name i) (arr ! i) else arr ! i))"
proof -
  obtain a s where a: "dotsev_loop c name [1..5] arr st = (a, s)" by fastforce
  have sevs: "[1..5] = [1, 2, 3, 4, 5 :: int]" by (simp add: upto_rec1)
  note L = dotsev_loop_sound [OF assms(1), of "[1..5]" c name arr, unfolded a fst_conv snd_conv]
  have L': "length a = length arr" "cache_ok (cs_cf s)" "s = st \<or> same_config st s"
    "\<And>i. i < length arr \<Longrightarrow> a ! i = (if int i \<in> set [1..5] then configured st c (dotsev_name name i) (arr ! i) else arr ! i)"
    using L by (auto simp: sevs)
  obtain v t where v: "setValue c NoConv name (a ! 0) s = (v, t)" by fastforce
  have "v = configured s c name (a ! 0)" using setValue_sound [OF L'(2), of c name "a ! 0"] v by simp
  also have "\<dots> = configured st c name (a ! 0)" using L'(3) configured_same by auto
  finally have v0: "v = configured st c (dotsev_name name 0) (arr ! 0)"
    using L'(4) [of 0] assms(2) by (simp add: dotsev_name_def)
  have "a \<noteq> []" using L'(1) assms(2) by auto
  then have "initDotSev c name arr st = Some (a[0 := v], t)" by (simp add: initDotSev_def a v)
  moreover have "a[0 := v] ! i = (if i \<le> 5 then configured st c (dotsev_name name i) (arr ! i) else arr ! i)"
    if "i < length arr" for i
    using that L'(1,4) v0 by (cases i) auto
  ultimately show ?thesis using L'(1) by auto
qed

theorem initDotSev_spec_witness:
  "\<exists>arr' st'. initDotSev 1 ''siren'' [FBool True, FBool False, FBool False, FBool False, FBool False, FBool False] witness_cf
      = Some (arr', st') \<and> arr' ! 4 = FBool True \<and> arr' ! 0 = FBool False"
proof -
  have s: "Status_String 4 = ''major''" by (simp add: Status_String_def statusname_def)
  have "cf_lookup (cs_cf witness_cf) 1 ''siren.major'' = Some 3 \<and> cf_lookup (cs_cf witness_cf) 1 ''siren'' = Some 4
      \<and> cv_Value (cs_cfv witness_cf 3) = CStr ''yes'' \<and> cv_Value (cs_cfv witness_cf 4) = CStr ''no''"
    by (simp add: cf_lookup_def witness_cf_def NewCF_def set_param_def Let_def inherited.simps)
  then have "configured witness_cf 1 (dotsev_name ''siren'' 4) (FBool False) = FBool True"
      "configured witness_cf 1 (dotsev_name ''siren'' 0) (FBool True) = FBool False"
    by (simp_all add: configured_def dotsev_name_def s conv_value_def CheckBool_def)
  with initDotSev_spec [OF witness_cf_ok, of "[FBool True, FBool False, FBool False, FBool False, FBool False, FBool False]" 1 "''siren''"]
  show ?thesis by fastforce
qed

end
