(* ===== verification/Aggregate.thy ===== *)
theory Aggregate
  imports ArgusBase "HOL-Library.Multiset"
begin

text \<open>
  The contract of a status aggregator: several statuses (of a group's children, or of a
  service as seen from several servers) become one, by gravity: the worst (\<open>down\<close>), the
  best (\<open>up\<close>), or the lower median (\<open>vote\<close>). Both \<open>monel.calcAggrStatus\<close> and
  \<open>darp.CalcAggrStatus\<close> work on a table of counts, \<open>hist\<close> here, and share the voting
  loop; they are the two providers of this contract.
\<close>

section \<open>Tables of counts\<close>

definition hist :: "status list \<Rightarrow> int list" where
  "hist xs = map (\<lambda>i. int (count_list xs (int i))) [0..<8]"

text \<open>The loop over severities that ends when half of the votes are reached.\<close>

fun vote_scan :: "int list \<Rightarrow> int \<Rightarrow> int \<Rightarrow> status list \<Rightarrow> status option" where
  "vote_scan counts half cum [] = None"
| "vote_scan counts half cum (sev # sevs) =
     (let cum = cum + counts ! nat sev in if cum \<ge> half then Some sev else vote_scan counts half cum sevs)"

lemma hist_nth: "0 \<le> s \<Longrightarrow> s < 8 \<Longrightarrow> hist xs ! nat s = int (count_list xs s)"
  by (simp add: hist_def nat_less_iff)

lemma length_hist [simp]: "length (hist xs) = 8"
  by (simp add: hist_def)

lemma hist_pos: "0 \<le> s \<Longrightarrow> s < 8 \<Longrightarrow> hist xs ! nat s > 0 \<longleftrightarrow> s \<in> set xs"
  using count_list_0_iff [of xs s] by (auto simp: hist_nth)

lemma find_append: "find P (xs @ ys) = (case find P xs of None \<Rightarrow> find P ys | Some x \<Rightarrow> Some x)"
  by (induction xs) simp_all

lemma find_upto:
  assumes "\<And>s. lo \<le> s \<Longrightarrow> s \<le> hi \<Longrightarrow> P s \<longleftrightarrow> s \<in> S" "S \<subseteq> {lo..hi}" "S \<noteq> {}"
  shows "find P [lo..hi] = Some (Min S)" "find P (rev [lo..hi]) = Some (Max S)"
proof -
  have fin: "finite S" using assms(2) finite_subset by auto
  then have "Min S \<in> S" "Max S \<in> S" using assms(3) by simp_all
  then have mem: "lo \<le> Min S" "Min S \<le> hi" "lo \<le> Max S" "Max S \<le> hi" using assms(2) by auto
  have "\<not> P s" if "s \<in> set [lo..Min S - 1]" for s
    using that assms(1) [of s] mem Min_le [OF fin, of s] by auto
  then have none: "find P [lo..Min S - 1] = None" by (simp only: find_None_iff) blast
  have "find P [lo..hi] = find P ([lo..Min S - 1] @ Min S # [Min S + 1..hi])"
    using mem upto_split3 [of lo "Min S" hi] by (simp only:)
  also have "\<dots> = Some (Min S)"
    using none assms(1) mem \<open>Min S \<in> S\<close> by (simp only: find_append option.case find.simps if_True)
  finally show "find P [lo..hi] = Some (Min S)" .
  have "\<not> P s" if "s \<in> set (rev [Max S + 1..hi])" for s
    using that assms(1) [of s] mem Max_ge [OF fin, of s] by auto
  then have none: "find P (rev [Max S + 1..hi]) = None" by (simp only: find_None_iff) blast
  have "find P (rev [lo..hi]) = find P (rev ([lo..Max S - 1] @ Max S # [Max S + 1..hi]))"
    using mem upto_split3 [of lo "Max S" hi] by (simp only:)
  also have "\<dots> = find P (rev [Max S + 1..hi] @ Max S # rev [lo..Max S - 1])" by simp
  also have "\<dots> = Some (Max S)"
    using none assms(1) mem \<open>Max S \<in> S\<close> by (simp only: find_append option.case find.simps if_True)
  finally show "find P (rev [lo..hi]) = Some (Max S)" .
qed

text \<open>How many are at most \<open>s\<close>.\<close>

definition at_most :: "status list \<Rightarrow> status \<Rightarrow> int" where
  "at_most xs s = int (length (filter (\<lambda>x. x \<le> s) xs))"

lemma at_most_Suc: "at_most xs s = at_most xs (s - 1) + int (count_list xs s)"
  by (induction xs) (auto simp: at_most_def)

lemma at_most_mono: "s \<le> t \<Longrightarrow> at_most xs s \<le> at_most xs t"
  by (induction xs) (auto simp: at_most_def)

lemma at_most_all: "set xs \<subseteq> {lo..hi} \<Longrightarrow> at_most xs hi = int (length xs)"
  by (auto simp: at_most_def subset_iff intro: arg_cong [where f = length] filter_True)

lemma at_most_none: "set xs \<subseteq> {lo..hi} \<Longrightarrow> s < lo \<Longrightarrow> at_most xs s = 0"
  by (auto simp: at_most_def filter_empty_conv)

text \<open>The lower median: the least severity that at least half do not exceed.\<close>

definition is_median :: "status list \<Rightarrow> status \<Rightarrow> bool" where
  "is_median xs r \<longleftrightarrow> int (length xs) \<le> 2 * at_most xs r \<and> 2 * at_most xs (r - 1) < int (length xs)"

lemma is_median_unique: "is_median xs r \<Longrightarrow> is_median xs s \<Longrightarrow> r = s"
proof (rule ccontr)
  assume m: "is_median xs r" "is_median xs s" and "r \<noteq> s"
  then consider "r \<le> s - 1" | "s \<le> r - 1" by linarith
  then show False
  proof cases
    case 1
    with m at_most_mono [of r "s - 1" xs] show ?thesis by (simp add: is_median_def)
  next
    case 2
    with m at_most_mono [of s "r - 1" xs] show ?thesis by (simp add: is_median_def)
  qed
qed

lemma is_median_mem: "is_median xs r \<Longrightarrow> r \<in> set xs"
proof -
  assume "is_median xs r"
  then have "count_list xs r \<noteq> 0" using at_most_Suc [of xs r] by (simp add: is_median_def)
  then show ?thesis by (simp add: count_list_0_iff)
qed

lemma vote_scan_median:
  assumes "set xs \<subseteq> {1..worst}" "xs \<noteq> []" "worst < 8" "1 \<le> lo" "lo \<le> worst + 1"
    and "2 * at_most xs (lo - 1) < int (length xs)"
  shows "\<exists>r. vote_scan (hist xs) ((int (length xs) + 1) div 2) (at_most xs (lo - 1)) [lo..worst] = Some r \<and> is_median xs r"
  using assms(4-)
proof (induction "nat (worst + 1 - lo)" arbitrary: lo)
  case 0
  then have "lo - 1 = worst" by simp
  with 0(4) at_most_all [OF assms(1)] show ?case by simp
next
  case (Suc n)
  then have lo: "lo \<le> worst" by linarith
  then have range: "[lo..worst] = lo # [lo + 1..worst]" by (simp add: upto_rec1)
  have cum: "at_most xs (lo - 1) + hist xs ! nat lo = at_most xs lo"
    using lo assms(3) Suc.prems(1) at_most_Suc [of xs lo] by (simp add: hist_nth)
  show ?case
  proof (cases "at_most xs lo \<ge> (int (length xs) + 1) div 2")
    case True
    then have "int (length xs) \<le> 2 * at_most xs lo" by linarith
    with True Suc.prems show ?thesis unfolding range by (simp add: cum is_median_def)
  next
    case False
    then have "2 * at_most xs lo < int (length xs)" by linarith
    moreover have "n = nat (worst + 1 - (lo + 1))" using Suc(2) by linarith
    ultimately show ?thesis
      using Suc(1) [of "lo + 1"] Suc.prems lo False unfolding range by (simp add: cum)
  qed
qed

lemma vote_scan_cong:
  "(\<And>s. s \<in> set sevs \<Longrightarrow> a ! nat s = b ! nat s) \<Longrightarrow> vote_scan a half cum sevs = vote_scan b half cum sevs"
  by (induction sevs arbitrary: cum) (simp_all add: Let_def)

text \<open>The reading of the scan on any table that agrees with the counts of \<open>xs\<close>: the first severity that
  \<open>half\<close> do not exceed.\<close>

lemma vote_scan_find:
  assumes "\<And>s. 1 \<le> s \<Longrightarrow> s \<le> worst \<Longrightarrow> c ! nat s = int (count_list xs s)" "set xs \<subseteq> {1..worst}" "1 \<le> lo"
  shows "vote_scan c half (at_most xs (lo - 1)) [lo..worst] = find (\<lambda>s. half \<le> at_most xs s) [lo..worst]"
  using assms(3)
proof (induction "nat (worst + 1 - lo)" arbitrary: lo)
  case (Suc n)
  then have lo: "lo \<le> worst" and n: "n = nat (worst + 1 - (lo + 1))" by linarith+
  then have range: "[lo..worst] = lo # [lo + 1..worst]" by (simp add: upto_rec1)
  have cum: "at_most xs (lo - 1) + c ! nat lo = at_most xs lo"
    using assms(1) [of lo] lo Suc.prems at_most_Suc [of xs lo] by simp
  show ?case
    using Suc(1) [OF n] Suc.prems unfolding range by (simp add: cum)
qed simp

text \<open>\<open>r\<close> is what gravity \<open>g\<close> makes of the statuses \<open>xs\<close>.\<close>

definition aggregates :: "gravity \<Rightarrow> status list \<Rightarrow> status \<Rightarrow> bool" where
  "aggregates g xs r \<longleftrightarrow>
     (if g = GRAV_DN then r = Max (set xs) else if g = GRAV_UP then r = Min (set xs) else is_median xs r)"

section \<open>The contract\<close>

locale status_aggregate =
  fixes aggr :: "gravity \<Rightarrow> status list \<Rightarrow> status" and worst :: status
  assumes down: "xs \<noteq> [] \<Longrightarrow> set xs \<subseteq> {1..worst} \<Longrightarrow> aggr GRAV_DN xs = Max (set xs)"
    and up: "xs \<noteq> [] \<Longrightarrow> set xs \<subseteq> {1..worst} \<Longrightarrow> aggr GRAV_UP xs = Min (set xs)"
    and vote: "xs \<noteq> [] \<Longrightarrow> set xs \<subseteq> {1..worst} \<Longrightarrow> is_median xs (aggr GRAV_VOTE xs)"
begin

lemma gravity_cases:
  assumes "g \<in> {GRAV_UP, GRAV_DN, GRAV_VOTE}"
  obtains "g = GRAV_UP" | "g = GRAV_DN" | "g = GRAV_VOTE"
  using assms by auto

lemma member:
  assumes "xs \<noteq> []" "set xs \<subseteq> {1..worst}" "g \<in> {GRAV_UP, GRAV_DN, GRAV_VOTE}"
  shows "aggr g xs \<in> set xs"
  using assms(3)
proof (cases rule: gravity_cases)
  case 1
  then show ?thesis using up [OF assms(1,2)] assms(1) by simp
next
  case 2
  then show ?thesis using down [OF assms(1,2)] assms(1) by simp
next
  case 3
  then show ?thesis using vote [OF assms(1,2)] is_median_mem by simp
qed

lemma bounds:
  assumes "xs \<noteq> []" "set xs \<subseteq> {1..worst}" "g \<in> {GRAV_UP, GRAV_DN, GRAV_VOTE}"
  shows "aggr GRAV_UP xs \<le> aggr g xs \<and> aggr g xs \<le> aggr GRAV_DN xs"
  using member [OF assms] up [OF assms(1,2)] down [OF assms(1,2)] by simp

lemma unanimous:
  assumes "xs \<noteq> []" "set xs \<subseteq> {1..worst}" "g \<in> {GRAV_UP, GRAV_DN, GRAV_VOTE}" "\<forall>x \<in> set xs. x = s"
  shows "aggr g xs = s"
  using member [OF assms(1-3)] assms(4) by simp

lemma permutation:
  assumes "xs \<noteq> []" "set xs \<subseteq> {1..worst}" "g \<in> {GRAV_UP, GRAV_DN, GRAV_VOTE}" "mset xs = mset ys"
  shows "aggr g xs = aggr g ys"
proof -
  have ys: "ys \<noteq> []" "set ys = set xs" "length ys = length xs"
    using assms(1,4) mset_eq_setD [OF assms(4)] mset_eq_length [OF assms(4)] by auto
  have "at_most xs s = at_most ys s" for s
    unfolding at_most_def using assms(4) by (metis mset_filter size_mset)
  then have "is_median ys r = is_median xs r" for r using ys(3) by (simp add: is_median_def)
  then show ?thesis
    using assms(2,3) up [OF assms(1,2)] down [OF assms(1,2)] vote [OF assms(1,2)] up [OF ys(1)] down [OF ys(1)] vote [OF ys(1)]
      is_median_unique ys(2) by auto
qed

text \<open>When no member gets better, the aggregate does not get better.\<close>

lemma monotone:
  assumes "xs \<noteq> []" "set xs \<subseteq> {1..worst}" "set ys \<subseteq> {1..worst}" "g \<in> {GRAV_UP, GRAV_DN, GRAV_VOTE}"
    and le: "list_all2 (\<le>) xs ys"
  shows "aggr g xs \<le> aggr g ys"
proof -
  have len: "length ys = length xs" using le by (simp add: list_all2_lengthD)
  with assms(1) have ys: "ys \<noteq> []" by auto
  show ?thesis
    using assms(4)
  proof (cases rule: gravity_cases)
    case 1
    have "Min (set xs) \<le> y" if y: "y \<in> set ys" for y
    proof -
      obtain i where "i < length ys" "y = ys ! i" using y by (auto simp: in_set_conv_nth)
      then have "xs ! i \<le> y" "xs ! i \<in> set xs" using le len by (simp_all add: list_all2_conv_all_nth)
      then show ?thesis by (meson List.finite_set Min_le order_trans)
    qed
    then show ?thesis using 1 up [OF assms(1,2)] up [OF ys assms(3)] ys by simp
  next
    case 2
    have "x \<le> Max (set ys)" if x: "x \<in> set xs" for x
    proof -
      obtain i where "i < length xs" "x = xs ! i" using x by (auto simp: in_set_conv_nth)
      then have "x \<le> ys ! i" "ys ! i \<in> set ys" using le len by (simp_all add: list_all2_conv_all_nth)
      then show ?thesis by (meson List.finite_set Max_ge order_trans)
    qed
    then show ?thesis using 2 down [OF assms(1,2)] down [OF ys assms(3)] assms(1) by simp
  next
    case 3
    let ?r = "aggr GRAV_VOTE xs" and ?s = "aggr GRAV_VOTE ys"
    have m: "is_median xs ?r" "is_median ys ?s" using vote assms ys by auto
    have "at_most ys t \<le> at_most xs t" for t
      using le unfolding at_most_def by (induction rule: list_all2_induct) auto
    from this [of ?s] have "int (length xs) \<le> 2 * at_most xs ?s" using m(2) len by (simp add: is_median_def)
    then have "\<not> ?s \<le> ?r - 1" using m(1) at_most_mono [of ?s "?r - 1" xs] by (auto simp: is_median_def)
    then show ?thesis using 3 by simp
  qed
qed

end

end
