(* ===== verification/Monel.thy ===== *)
theory Monel
  imports Configure Notify Sched Aggregate "HOL-Library.List_Lexorder" "HOL-Library.Char_ord"
begin

text \<open>
  Package \<open>monel\<close> (\<open>src/argus/monel\<close>), with the groups and aliases it manages
  (\<open>src/argus/group\<close>, \<open>src/argus/alias\<close>): the tree of monitored objects, how a status
  becomes an object's status and override status, how groups aggregate their children, the
  transition handler and what it triggers, overrides, dependencies, statistics, the log.

  Objects are pointers into \<open>ms_heap\<close>; pointer 0 is nil, and dereferencing it, like an index
  out of range, is a panic (\<^const>\<open>None\<close>). A \<open>go\<close> statement adds a task to \<open>ms_go\<close>; the
  tasks run later, in any order. The recursions over the tree take the number of allocated
  objects as fuel, which is enough on every graph without a cycle. The clock, the local
  calendar and the environment of notifications are arguments.
\<close>

section \<open>State\<close>

record monel_conf =
  mc_Uname :: string
  mc_Unique :: string
  mc_Label :: string
  mc_Friendlyname :: string
  mc_Depends :: string
  mc_Sort :: bool
  mc_Overridable :: bool
  mc_Passive :: bool
  mc_Countstop :: bool
  mc_Hidden :: bool
  mc_Graph :: bool
  mc_Debug :: bool
  mc_Siren :: "bool list"
  mc_Sendnotify :: "schedule option list"
  mc_Gravity :: gravity
  mc_ACL_Page :: string
  mc_ACL_Override :: string
  mc_ACL_Annotate :: string
  mc_ACL_CheckNow :: string
  mc_ACL_About :: string

definition monel_defaults :: monel_conf where
  "monel_defaults = \<lparr>mc_Uname = [], mc_Unique = [], mc_Label = [], mc_Friendlyname = [], mc_Depends = [],
     mc_Sort = True, mc_Overridable = True, mc_Passive = False, mc_Countstop = False, mc_Hidden = False, mc_Graph = False,
     mc_Debug = False, mc_Siren = [True, False, False, False, False, False], mc_Sendnotify = replicate 6 None,
     mc_Gravity = GRAV_DN, mc_ACL_Page = ''user staff root'', mc_ACL_Override = ''staff root'',
     mc_ACL_Annotate = ''staff root'', mc_ACL_CheckNow = ''root'', mc_ACL_About = ''root''\<rparr>"

record statdat =
  sx_Start :: int    \<comment> \<open>nanoseconds\<close>
  sx_Elapsed :: int  \<comment> \<open>seconds\<close>
  sx_Ndown :: int
  sx_TUp :: int
  sx_TDn :: int

record stats =
  ss_Lastt :: int
  ss_Status :: status
  ss_Daily :: "statdat list"
  ss_Monthly :: "statdat list"
  ss_Yearly :: "statdat list"

record mlog =
  lg_When :: int
  lg_OvStatus :: status
  lg_Tag :: string
  lg_Msg :: string

record override =
  ov_User :: string
  ov_Auto :: bool
  ov_Quiet :: bool
  ov_Text :: string
  ov_Expires :: int
  ov_Ticket :: string

text \<open>The three kinds of \<open>Moneler\<close>; an alias holds its name, its target and the object found.\<close>

datatype moneler = GroupM | ServiceM | AliasM string string "ptr option"

record monel_p =
  p_Status :: status
  p_OvStatus :: status
  p_Override :: "override option"
  p_Annotation :: string
  p_Result :: string
  p_Reason :: string
  p_AncInOv :: bool
  p_Alarm :: bool
  p_OvStatusSummary :: "int list"
  p_TransTime :: int
  p_SirenTime :: int
  p_Culprit :: string
  p_Stats :: stats
  p_Log :: "mlog list"

record monel = monel_p +
  m_Name :: string
  m_Me :: moneler
  m_Parent :: "ptr list"
  m_Children :: "ptr list"
  m_Cf :: monel_conf
  m_NotifyCf :: "notify_conf option"
  m_ConfCF :: cptr
  m_WebTime :: int
  m_Filename :: string
  m_DirName :: string
  m_Uname :: string
  m_Label :: string
  m_Friendlyname :: string
  m_Depends :: "string list"
  m_Notifies :: "ptr list"
  m_Interesting :: bool

datatype task =
    UpdateIsDown ptr status   \<comment> \<open>\<open>go m.updateIsDown(ov)\<close>\<close>
  | UpUpdates "ptr list" ptr  \<comment> \<open>the loop of \<open>andUpwards\<close>\<close>

datatype me_call = MeInit ptr | MeDoneConfig ptr | MeRecycle ptr | MeCheckNow ptr

record monel_state =
  ms_heap :: "ptr \<Rightarrow> monel"
  ms_next :: ptr
  ms_byname :: "string \<rightharpoonup> ptr"
  ms_isdown :: "string \<rightharpoonup> ptr"
  ms_inoverride :: "string \<rightharpoonup> ptr"
  ms_go :: "task list"
  ms_notify :: notify_state
  ms_sched :: sched_state
  ms_conf :: cf_state
  ms_me :: "me_call list"
  ms_files :: "string \<rightharpoonup> monel_p \<times> int list"

record monel_env =
  ev_nano :: int
  ev_unix :: int
  ev_cal :: "int \<Rightarrow> (int \<times> int \<times> int) \<times> (int \<times> int \<times> int)"  \<comment> \<open>local date and time of day\<close>
  ev_note :: notify_env

abbreviation (input) SECSNANO :: int where "SECSNANO \<equiv> 1000000000"

definition upd_m :: "ptr \<Rightarrow> (monel \<Rightarrow> monel) \<Rightarrow> monel_state \<Rightarrow> monel_state" where
  "upd_m p f st = st\<lparr>ms_heap := (ms_heap st)(p := f (ms_heap st p))\<rparr>"

definition go_task :: "task \<Rightarrow> monel_state \<Rightarrow> monel_state" where
  "go_task t st = st\<lparr>ms_go := ms_go st @ [t]\<rparr>"

definition Unique :: "monel_state \<Rightarrow> ptr \<Rightarrow> string" where
  "Unique st p = mc_Unique (m_Cf (ms_heap st p))"

definition Find :: "monel_state \<Rightarrow> string \<Rightarrow> ptr option" where
  "Find st name = ms_byname st name"

section \<open>Groups, services, aliases\<close>

definition AddChild :: "ptr \<Rightarrow> ptr \<Rightarrow> monel_state \<Rightarrow> monel_state" where
  "AddChild p n st = upd_m p (\<lambda>m. m\<lparr>m_Children := m_Children m @ [n]\<rparr>) st"

definition AddParent :: "ptr \<Rightarrow> ptr \<Rightarrow> monel_state \<Rightarrow> monel_state" where
  "AddParent p n st = upd_m p (\<lambda>m. m\<lparr>m_Parent := m_Parent m @ [n]\<rparr>) st"

definition aliasLookup :: "ptr \<Rightarrow> monel_state \<Rightarrow> ptr option \<times> monel_state" where
  "aliasLookup p st =
     (case m_Me (ms_heap st p) of
        AliasM aname target (Some obj) \<Rightarrow> (Some obj, st)
      | AliasM aname target None \<Rightarrow>
          (case Find st target of
             None \<Rightarrow> (None, st\<lparr>ms_conf := cf_Error (m_ConfCF (ms_heap st p))
                (''cannot resolve alias '' @ [CHR 0x27] @ aname @ [CHR 0x27] @ '' -> '' @ [CHR 0x27] @ target @ [CHR 0x27])
                (ms_conf st)\<rparr>)
           | Some t \<Rightarrow> (Some t, upd_m p (\<lambda>m. m\<lparr>m_Me := AliasM aname target (Some t)\<rparr>) (AddParent t p st)))
      | _ \<Rightarrow> (None, st))"

text \<open>\<open>m.Me.Children()\<close>\<close>

definition me_Children :: "ptr \<Rightarrow> monel_state \<Rightarrow> ptr list \<times> monel_state" where
  "me_Children p st =
     (case m_Me (ms_heap st p) of
        GroupM \<Rightarrow> (m_Children (ms_heap st p), st)
      | ServiceM \<Rightarrow> ([], st)
      | AliasM _ _ _ \<Rightarrow>
          (case aliasLookup p st of
             (None, st) \<Rightarrow> ([], st)
           | (Some t, st) \<Rightarrow> (if m_Children (ms_heap st t) \<noteq> [] then m_Children (ms_heap st t) else [t], st)))"

definition Self :: "ptr \<Rightarrow> monel_state \<Rightarrow> ptr" where
  "Self p st = (case m_Me (ms_heap st p) of AliasM _ _ (Some t) \<Rightarrow> t | _ \<Rightarrow> p)"

section \<open>Log\<close>

abbreviation (input) MAXLOG :: nat where "MAXLOG \<equiv> 500"

definition appendToLog :: "int \<Rightarrow> string \<Rightarrow> string \<Rightarrow> monel \<Rightarrow> monel" where
  "appendToLog nano tag msg m =
     (let log = p_Log m @ [\<lparr>lg_When = nano, lg_OvStatus = p_OvStatus m, lg_Tag = tag, lg_Msg = msg\<rparr>]
      in m\<lparr>p_Log := (if length log > MAXLOG then drop (length log - MAXLOG) log else log)\<rparr>)"

definition loggitL :: "int \<Rightarrow> string \<Rightarrow> string \<Rightarrow> monel \<Rightarrow> monel" where
  "loggitL nano tag msg m =
     appendToLog nano tag (if tag = ''TRANSITION'' \<and> msg = [] then Status_String (p_OvStatus m) else msg) m"

section \<open>Statistics\<close>

abbreviation (input) MAXSTAT :: nat where "MAXSTAT \<equiv> 14"

text \<open>Index 0 of each of the three lists; an empty list panics.\<close>

definition stat_hd :: "(statdat \<Rightarrow> statdat) \<Rightarrow> statdat list \<Rightarrow> statdat list option" where
  "stat_hd f xs = (case xs of [] \<Rightarrow> None | x # r \<Rightarrow> Some (f x # r))"

definition on_periods :: "(statdat \<Rightarrow> statdat) \<Rightarrow> stats \<Rightarrow> stats option" where
  "on_periods f s = do {
     d \<leftarrow> stat_hd f (ss_Daily s);
     m \<leftarrow> stat_hd f (ss_Monthly s);
     y \<leftarrow> stat_hd f (ss_Yearly s);
     Some (s\<lparr>ss_Daily := d, ss_Monthly := m, ss_Yearly := y\<rparr>)
   }"

definition statsUpdate :: "int \<Rightarrow> stats \<Rightarrow> stats option" where
  "statsUpdate t s =
     (let dt = t - ss_Lastt s in
      if dt = 0 then Some s
      else do {
        s \<leftarrow> on_periods (\<lambda>x. x\<lparr>sx_Elapsed := sx_Elapsed x + dt\<rparr>) s;
        s \<leftarrow> on_periods (\<lambda>x. if ss_Status s = CLEAR \<or> ss_Status s = UNKNOWN then x\<lparr>sx_TUp := sx_TUp x + dt\<rparr>
                              else x\<lparr>sx_TDn := sx_TDn x + dt\<rparr>) s;
        Some (s\<lparr>ss_Lastt := t\<rparr>)
      })"

definition statsRollOverStat :: "statdat list \<Rightarrow> int \<Rightarrow> statdat list" where
  "statsRollOverStat s t =
     (let s = \<lparr>sx_Start = t * SECSNANO, sx_Elapsed = 0, sx_Ndown = 0, sx_TUp = 0, sx_TDn = 0\<rparr> # s
      in if length s > MAXSTAT then take MAXSTAT s else s)"

definition statsRollOver :: "int \<times> int \<times> int \<Rightarrow> int \<times> int \<times> int \<Rightarrow> int \<Rightarrow> stats \<Rightarrow> stats" where
  "statsRollOver cdate ldate midnite s =
     (let (cy, cm, _) = cdate; (ly, lm, _) = ldate;
          s = s\<lparr>ss_Daily := statsRollOverStat (ss_Daily s) midnite\<rparr>;
          s = (if cm \<noteq> lm then s\<lparr>ss_Monthly := statsRollOverStat (ss_Monthly s) midnite\<rparr> else s)
      in if cy \<noteq> ly then s\<lparr>ss_Yearly := statsRollOverStat (ss_Yearly s) midnite\<rparr> else s)"

text \<open>The flag says that the day changed (and the caller sets \<open>WebTime\<close>).\<close>

definition statsUpdateMaybeRoll :: "monel_env \<Rightarrow> stats \<Rightarrow> (bool \<times> stats) option" where
  "statsUpdateMaybeRoll env s =
     (let now = ev_unix env; (ldate, _) = ev_cal env (ss_Lastt s); (cdate, (ch, cm, cs)) = ev_cal env now in
      if snd (snd ldate) \<noteq> snd (snd cdate) then do {
        let midnite = now - ((ch * 60 + cm) * 60 + cs);
        s \<leftarrow> statsUpdate midnite s;
        let s = statsRollOver cdate ldate midnite s;
        s \<leftarrow> statsUpdate now s;
        Some (True, s)
      }
      else map_option (\<lambda>s. (False, s)) (statsUpdate now s))"

definition count_down :: "status \<Rightarrow> stats \<Rightarrow> stats option" where
  "count_down status s =
     (if status = UNKNOWN \<or> ss_Status s = UNKNOWN then Some (s\<lparr>ss_Status := status\<rparr>)
      else do {
        s \<leftarrow> (if ss_Status s = CLEAR \<and> status \<noteq> CLEAR
              then on_periods (\<lambda>x. x\<lparr>sx_Ndown := sx_Ndown x + 1\<rparr>) s else Some s);
        Some (s\<lparr>ss_Status := status\<rparr>)
      })"

definition statsTransition :: "monel_env \<Rightarrow> ptr \<Rightarrow> monel_state \<Rightarrow> monel_state option" where
  "statsTransition env p st = do {
     (rolled, s) \<leftarrow> statsUpdateMaybeRoll env (p_Stats (ms_heap st p));
     s \<leftarrow> count_down (p_Status (ms_heap st p)) s;
     Some (upd_m p (\<lambda>m. if rolled then m\<lparr>p_Stats := s, m_WebTime := ev_nano env\<rparr> else m\<lparr>p_Stats := s\<rparr>) st)
   }"

definition StatsPeriodic :: "monel_env \<Rightarrow> ptr \<Rightarrow> monel_state \<Rightarrow> monel_state option" where
  "StatsPeriodic env p st = do {
     (rolled, s) \<leftarrow> statsUpdateMaybeRoll env (p_Stats (ms_heap st p));
     Some (upd_m p (\<lambda>m. if rolled then m\<lparr>p_Stats := s, m_WebTime := ev_nano env\<rparr> else m\<lparr>p_Stats := s\<rparr>) st)
   }"

definition statsInitMaybeRoll :: "monel_env \<Rightarrow> stats \<Rightarrow> stats option" where
  "statsInitMaybeRoll env s = do {
     let now = ev_unix env;
     d \<leftarrow> elem_at (ss_Daily s) 0;
     m \<leftarrow> elem_at (ss_Monthly s) 0;
     y \<leftarrow> elem_at (ss_Yearly s) 0;
     let (cty, ctm, ctd) = fst (ev_cal env now);
     let (ldy, ldm, ldd) = fst (ev_cal env (sx_Start d sdiv SECSNANO));
     let (lmy, lmm, _) = fst (ev_cal env (sx_Start m sdiv SECSNANO));
     let (lyy, _, _) = fst (ev_cal env (sx_Start y sdiv SECSNANO));
     let s = (if ctd \<noteq> ldd \<or> ctm \<noteq> ldm \<or> cty \<noteq> ldy then s\<lparr>ss_Daily := statsRollOverStat (ss_Daily s) now\<rparr> else s);
     let s = (if ctm \<noteq> lmm \<or> cty \<noteq> lmy then s\<lparr>ss_Monthly := statsRollOverStat (ss_Monthly s) now\<rparr> else s);
     Some (if cty \<noteq> lyy then s\<lparr>ss_Yearly := statsRollOverStat (ss_Yearly s) now\<rparr> else s)
   }"

definition stats_prepare :: "int \<Rightarrow> status \<Rightarrow> stats \<Rightarrow> stats" where
  "stats_prepare now status s =
     (let s = (if ss_Lastt s = 0 then s\<lparr>ss_Lastt := now sdiv SECSNANO, ss_Status := status\<rparr> else s);
          fresh = [\<lparr>sx_Start = now, sx_Elapsed = 0, sx_Ndown = 0, sx_TUp = 0, sx_TDn = 0\<rparr>];
          s = (if ss_Daily s = [] then s\<lparr>ss_Daily := fresh\<rparr> else s);
          s = (if ss_Monthly s = [] then s\<lparr>ss_Monthly := fresh\<rparr> else s);
          s = (if ss_Yearly s = [] then s\<lparr>ss_Yearly := fresh\<rparr> else s)
      in s\<lparr>ss_Lastt := now sdiv SECSNANO\<rparr>)"

definition statsInit :: "monel_env \<Rightarrow> ptr \<Rightarrow> monel_state \<Rightarrow> monel_state option" where
  "statsInit env p st = do {
     let m = ms_heap st p;
     s \<leftarrow> statsInitMaybeRoll env (stats_prepare (ev_nano env) (p_Status m) (p_Stats m));
     statsTransition env p (upd_m p (\<lambda>m. m\<lparr>p_Stats := s\<rparr>) st)
   }"

section \<open>Status\<close>

definition count_at :: "int list \<Rightarrow> status \<Rightarrow> int list option" where
  "count_at xs s = map_option (\<lambda>n. xs[nat s := n + 1]) (elem_at xs s)"

definition calcAggrStatus :: "gravity \<Rightarrow> int \<Rightarrow> status \<Rightarrow> int list \<Rightarrow> status" where
  "calcAggrStatus grav tot maxst statuses =
     (let tot = tot - statuses ! nat UNKNOWN;
          present = (\<lambda>sev. statuses ! nat sev > 0)
      in if grav = GRAV_DN then
           (case find present (rev [CLEAR..maxst]) of Some sev \<Rightarrow> sev | None \<Rightarrow> UNKNOWN)
         else if grav = GRAV_UP then
           (case find present [CLEAR..maxst] of Some sev \<Rightarrow> sev | None \<Rightarrow> CLEAR)
         else
           (case vote_scan statuses ((tot + 1) sdiv 2) 0 [CLEAR..maxst] of Some sev \<Rightarrow> sev | None \<Rightarrow> UNKNOWN))"

fun count_children :: "monel_state \<Rightarrow> ptr list \<Rightarrow> int list \<Rightarrow> int list \<Rightarrow> (int list \<times> int list) option" where
  "count_children st [] rsum osum = Some (rsum, osum)"
| "count_children st (c # cs) rsum osum =
     (if c = 0 then None
      else do {
        rsum \<leftarrow> count_at rsum (p_Status (ms_heap st c));
        osum \<leftarrow> count_at osum (p_OvStatus (ms_heap st c));
        count_children st cs rsum osum
      })"

definition determineAggrStatus :: "ptr \<Rightarrow> monel_state \<Rightarrow> monel_state option" where
  "determineAggrStatus p st =
     (let (children, st) = me_Children p st in
      if children = [] then Some (upd_m p (\<lambda>m. m\<lparr>p_OvStatus := p_Status m\<rparr>) st)
      else do {
        (rsum, osum) \<leftarrow> count_children st children (replicate 8 0) (replicate 8 0);
        let n = int (length children);
        let grav = mc_Gravity (m_Cf (ms_heap st p));
        Some (upd_m p (\<lambda>m. m\<lparr>p_Status := calcAggrStatus grav n CRITICAL rsum,
                              p_OvStatus := calcAggrStatus grav n MAXSTATUS osum\<rparr>) st)
      })"

fun depends_loop :: "ptr \<Rightarrow> string list \<Rightarrow> monel_state \<Rightarrow> monel_state" where
  "depends_loop p [] st = st"
| "depends_loop p (name # names) st =
     (case Find st name of
        None \<Rightarrow> depends_loop p names st
      | Some o' \<Rightarrow>
          let s = p_OvStatus (ms_heap st o') in
          if s \<noteq> CLEAR \<and> s \<noteq> UNKNOWN
          then upd_m p (\<lambda>m. m\<lparr>p_OvStatus := DEPENDS, p_Alarm := False, p_Culprit := name\<rparr>) st
          else depends_loop p names st)"

definition checkDepends :: "ptr \<Rightarrow> monel_state \<Rightarrow> monel_state" where
  "checkDepends p st = depends_loop p (m_Depends (ms_heap st p)) st"

definition checkOverride :: "ptr \<Rightarrow> monel_state \<Rightarrow> monel_state" where
  "checkOverride p st =
     (let m = ms_heap st p in
      if p_Status m = CLEAR \<or> p_Status m = UNKNOWN then st
      else if p_OvStatus m = DEPENDS then st
      else if p_Override m \<noteq> None then upd_m p (\<lambda>m. m\<lparr>p_OvStatus := OVERRIDE\<rparr>) st
      else st)"

definition determineStatus :: "ptr \<Rightarrow> monel_state \<Rightarrow> (bool \<times> monel_state) option" where
  "determineStatus p st = do {
     let prevo = p_OvStatus (ms_heap st p);
     st \<leftarrow> determineAggrStatus p st;
     let st = checkOverride p (checkDepends p st);
     Some (p_OvStatus (ms_heap st p) \<noteq> prevo, st)
   }"

text \<open>Summaries have eight entries. The branch on the override inside the loop is dead.\<close>

fun sum_children :: "monel_state \<Rightarrow> ptr list \<Rightarrow> int list \<Rightarrow> int list option" where
  "sum_children st [] acc = Some acc"
| "sum_children st (c # cs) acc =
     (if c = 0 then None
      else sum_children st cs (map (\<lambda>i. acc ! i + p_OvStatusSummary (ms_heap st c) ! i) [0..<8]))"

definition determineSummary :: "ptr \<Rightarrow> monel_state \<Rightarrow> monel_state option" where
  "determineSummary p st = do {
     let zero = replicate 8 0;
     let (children, st) = me_Children p st;
     let m = ms_heap st p;
     s \<leftarrow> (if children = [] \<or> mc_Countstop (m_Cf m) then
            map_option (\<lambda>_. zero[nat (p_OvStatus m) := 1]) (elem_at zero (p_OvStatus m))
          else if p_Override m \<noteq> None then
            Some (zero[nat OVERRIDE := int (length (m_Children m))])
          else sum_children st children zero);
     Some (upd_m p (\<lambda>m. m\<lparr>p_OvStatusSummary := s\<rparr>) st)
   }"

definition setAlarm :: "monel_env \<Rightarrow> monel \<Rightarrow> monel" where
  "setAlarm env m =
     (let ov = p_OvStatus m;
          siren = mc_Siren (m_Cf m);
          a = (ov > CLEAR \<and> ov \<le> CRITICAL \<and> (siren ! nat ov \<or> siren ! nat UNKNOWN));
          m = m\<lparr>p_TransTime := ev_nano env\<rparr>
      in if a \<noteq> p_Alarm m then m\<lparr>p_Alarm := a, p_SirenTime := p_TransTime m\<rparr> else m)"

definition updateIsDown :: "ptr \<Rightarrow> status \<Rightarrow> monel_state \<Rightarrow> monel_state" where
  "updateIsDown p ovstatus st =
     (if ovstatus \<in> {UNKNOWN, CLEAR, OVERRIDE, DEPENDS}
      then st\<lparr>ms_isdown := (ms_isdown st)(Unique st p := None)\<rparr>
      else st\<lparr>ms_isdown := (ms_isdown st)(Unique st p \<mapsto> p)\<rparr>)"

section \<open>Notifications\<close>

definition permitNotify :: "wall_clock \<Rightarrow> schedule option list \<Rightarrow> status \<Rightarrow> bool option" where
  "permitNotify wall sn status =
     (if status \<ge> int (length sn) then Some False
      else do {
        a \<leftarrow> elem_at sn status;
        b \<leftarrow> elem_at sn UNKNOWN;
        Some (case a of
            Some s \<Rightarrow> PermitNow wall s ''yes''
          | None \<Rightarrow> (case b of Some s \<Rightarrow> PermitNow wall s ''yes'' | None \<Rightarrow> False))
      })"

text \<open>The conditions of \<open>maybeNotify\<close> on the transition alone.\<close>

definition worth_notifying :: "status \<Rightarrow> status \<Rightarrow> bool \<Rightarrow> bool" where
  "worth_notifying prevOv st ancInOv \<longleftrightarrow>
     \<not> (prevOv = UNKNOWN \<and> st = CLEAR)
     \<and> \<not> (st = OVERRIDE \<or> st = DEPENDS \<or> st = UNKNOWN)
     \<and> \<not> (st = CLEAR \<and> (prevOv = OVERRIDE \<or> prevOv = DEPENDS))
     \<and> \<not> ancInOv"

definition maybeNotify :: "monel_env \<Rightarrow> ptr \<Rightarrow> status \<Rightarrow> monel_state \<Rightarrow> monel_state option" where
  "maybeNotify env p prevOv st =
     (let m = ms_heap st p in
      case m_NotifyCf m of
        None \<Rightarrow> Some st
      | Some ncf \<Rightarrow>
          if \<not> worth_notifying prevOv (p_OvStatus m) (p_AncInOv m) then Some st
          else do {
            ok \<leftarrow> permitNotify (ne_wall (ev_note env)) (mc_Sendnotify (m_Cf m)) (p_OvStatus m);
            if \<not> ok then Some st
            else do {
              (notif, ns) \<leftarrow> note_New (ev_note env)
                 \<lparr>nw_Conf = ncf, nw_Unique = mc_Unique (m_Cf m), nw_ShortName = mc_Label (m_Cf m),
                  nw_FriendlyName = mc_Friendlyname (m_Cf m), nw_Reason = p_Reason m, nw_Result = p_Result m,
                  nw_OvStatus = p_OvStatus m, nw_PrevOv = prevOv\<rparr> p (ms_notify st);
              let st = st\<lparr>ms_notify := ns\<rparr>;
              Some (case notif of None \<Rightarrow> st | Some n \<Rightarrow> upd_m p (\<lambda>m. m\<lparr>m_Notifies := m_Notifies m @ [n]\<rparr>) st)
            }
          })"

definition updateNotifies :: "ptr \<Rightarrow> monel_state \<Rightarrow> monel_state" where
  "updateNotifies p st =
     st\<lparr>ms_notify := foldl (\<lambda>ns n. note_Update n (p_OvStatus (ms_heap st p)) ns) (ms_notify st) (m_Notifies (ms_heap st p))\<rparr>"

text \<open>\<open>RemoveNotify\<close> drops the first occurrence.\<close>

definition RemoveNotify :: "ptr \<Rightarrow> ptr \<Rightarrow> monel_state \<Rightarrow> monel_state" where
  "RemoveNotify p n st = upd_m p (\<lambda>m. m\<lparr>m_Notifies := remove1 n (m_Notifies m)\<rparr>) st"

section \<open>Transitions\<close>

fun up_targets :: "monel_state \<Rightarrow> bool \<Rightarrow> ptr list \<Rightarrow> ptr list option" where
  "up_targets st notfirst [] = Some []"
| "up_targets st notfirst (q # qs) =
     (if notfirst \<and> q = 0 then None
      else if notfirst \<and> length (m_Children (ms_heap st q)) = 1
      then map_option ((#) (hd (m_Children (ms_heap st q)))) (up_targets st notfirst qs)
      else map_option ((#) q) (up_targets st True qs))"

definition andUpwards :: "ptr \<Rightarrow> monel_state \<Rightarrow> monel_state option" where
  "andUpwards p st =
     map_option (\<lambda>us. go_task (UpUpdates us p) st) (up_targets st False (m_Parent (ms_heap st p)))"

definition commonUpdate :: "monel_env \<Rightarrow> ptr \<Rightarrow> status \<Rightarrow> monel_state \<Rightarrow> monel_state option" where
  "commonUpdate env p prevOv st = do {
     let st = upd_m p (\<lambda>m. setAlarm env (m\<lparr>m_WebTime := ev_nano env\<rparr>)) st;
     let st = go_task (UpdateIsDown p (p_OvStatus (ms_heap st p))) st;
     let st = upd_m p (\<lambda>m. loggitL (ev_nano env) ''TRANSITION'' (p_Reason m) m) st;
     st \<leftarrow> statsTransition env p st;
     st \<leftarrow> determineSummary p st;
     let st = updateNotifies p st;
     st \<leftarrow> maybeNotify env p prevOv st;
     andUpwards p st
   }"

definition commonUpdateNoChange :: "monel_env \<Rightarrow> ptr \<Rightarrow> monel_state \<Rightarrow> monel_state option" where
  "commonUpdateNoChange env p st = do {
     let st = upd_m p (\<lambda>m. m\<lparr>m_WebTime := ev_nano env\<rparr>) st;
     st \<leftarrow> statsTransition env p st;
     st \<leftarrow> determineSummary p st;
     let st = upd_m p (setAlarm env) st;
     let st = go_task (UpdateIsDown p (p_OvStatus (ms_heap st p))) st;
     andUpwards p st
   }"

definition updateStatus :: "ptr \<Rightarrow> status \<Rightarrow> string \<Rightarrow> string \<Rightarrow> monel_state \<Rightarrow> (bool \<times> monel_state) option" where
  "updateStatus p status result reason st =
     (let st = upd_m p (\<lambda>m. m\<lparr>p_Result := result\<rparr>) st in
      if status = p_Status (ms_heap st p) then Some (False, st)
      else determineStatus p (upd_m p (\<lambda>m. m\<lparr>p_Status := status, p_Reason := reason\<rparr>) st))"

definition monel_Update :: "monel_env \<Rightarrow> ptr \<Rightarrow> status \<Rightarrow> string \<Rightarrow> string \<Rightarrow> monel_state \<Rightarrow> monel_state option" where
  "monel_Update env p status result reason st = do {
     let prev = p_OvStatus (ms_heap st p);
     (changed, st) \<leftarrow> updateStatus p status result reason st;
     if changed then commonUpdate env p prev st else Some st
   }"

definition ReUpdate :: "monel_env \<Rightarrow> ptr \<Rightarrow> string \<Rightarrow> monel_state \<Rightarrow> monel_state option" where
  "ReUpdate env p reason st = do {
     let prev = p_OvStatus (ms_heap st p);
     (changed, st) \<leftarrow> determineStatus p st;
     if \<not> changed then commonUpdateNoChange env p st
     else
       (let st = (if reason \<noteq> [] then upd_m p (\<lambda>m. m\<lparr>p_Reason := reason\<rparr>) st else st)
        in commonUpdate env p prev st)
   }"

definition UpUpdate :: "monel_env \<Rightarrow> ptr \<Rightarrow> ptr \<Rightarrow> monel_state \<Rightarrow> monel_state option" where
  "UpUpdate env u by st = ReUpdate env u (mc_Uname (m_Cf (ms_heap st by))) st"

text \<open>Run one step of one pending task: the \<open>i\<close>-th goroutine advances.\<close>

definition run_task :: "monel_env \<Rightarrow> nat \<Rightarrow> monel_state \<Rightarrow> monel_state option" where
  "run_task env i st =
     (if \<not> i < length (ms_go st) then Some st
      else
        let rest = take i (ms_go st) @ drop (Suc i) (ms_go st) in
        case ms_go st ! i of
          UpdateIsDown p s \<Rightarrow> Some (updateIsDown p s (st\<lparr>ms_go := rest\<rparr>))
        | UpUpdates [] by \<Rightarrow> Some (st\<lparr>ms_go := rest\<rparr>)
        | UpUpdates (u # us) by \<Rightarrow>
            if u = 0 then None
            else UpUpdate env u by (st\<lparr>ms_go := (ms_go st)[i := UpUpdates us by]\<rparr>))"

section \<open>Overrides\<close>

definition monel_Loggit :: "monel_env \<Rightarrow> string \<Rightarrow> string \<Rightarrow> ptr \<Rightarrow> monel_state \<Rightarrow> monel_state" where
  "monel_Loggit env tag msg p st = upd_m p (loggitL (ev_nano env) tag msg) st"

text \<open>\<open>AncInOv\<close> of every descendant; \<^const>\<open>None\<close>: a nil child, or the fuel ran out.\<close>

fun propDown :: "nat \<Rightarrow> ptr \<Rightarrow> monel_state \<Rightarrow> monel_state option"
  and propDown_list :: "nat \<Rightarrow> bool \<Rightarrow> ptr list \<Rightarrow> monel_state \<Rightarrow> monel_state option" where
  "propDown 0 p st = None"
| "propDown (Suc fuel) p st =
     (let m = ms_heap st p; v = (p_Override m \<noteq> None \<or> p_AncInOv m)
      in propDown_list fuel v (m_Children m) st)"
| "propDown_list fuel v [] st = Some st"
| "propDown_list fuel v (c # cs) st =
     (if c = 0 then None
      else do {
        st \<leftarrow> propDown fuel c (upd_m c (\<lambda>m. m\<lparr>p_AncInOv := v\<rparr>) st);
        propDown_list fuel v cs st
      })"

definition ovPropDown :: "ptr \<Rightarrow> monel_state \<Rightarrow> monel_state option" where
  "ovPropDown p st = propDown (ms_next st) p st"

definition override_exp :: "ptr \<Rightarrow> monel_state \<Rightarrow> int" where
  "override_exp p st = (case p_Override (ms_heap st p) of None \<Rightarrow> 0 | Some ov \<Rightarrow> ov_Expires ov)"

definition setOverrideExpire :: "ptr \<Rightarrow> monel_state \<Rightarrow> monel_state" where
  "setOverrideExpire p st =
     (let exp = override_exp p st in
      if exp \<noteq> 0 then st\<lparr>ms_sched := sched_At exp ''override expire'' p (ms_sched st)\<rparr> else st)"

definition SetOverride :: "monel_env \<Rightarrow> ptr \<Rightarrow> override \<Rightarrow> monel_state \<Rightarrow> monel_state option" where
  "SetOverride env p ov st = do {
     let st = (if ov_Text ov \<noteq> [] then monel_Loggit env ''OVERRIDE'' (ov_Text ov) p st else st);
     let st = (if ov_User ov \<noteq> [] then monel_Loggit env ''OVERRIDE'' (''enabled by '' @ ov_User ov) p st else st);
     let st = upd_m p (\<lambda>m. m\<lparr>p_Override := Some ov, m_WebTime := ev_nano env\<rparr>) st;
     let st = st\<lparr>ms_inoverride := (ms_inoverride st)(Unique st p \<mapsto> p)\<rparr>;
     st \<leftarrow> ovPropDown p st;
     st \<leftarrow> ReUpdate env p ''override'' st;
     Some (setOverrideExpire p st)
   }"

definition DelOverride :: "monel_env \<Rightarrow> ptr \<Rightarrow> string \<Rightarrow> string \<Rightarrow> monel_state \<Rightarrow> monel_state option" where
  "DelOverride env p user reason st = do {
     let st = (if reason \<noteq> [] then monel_Loggit env ''OVERRIDE'' reason p st else st);
     let st = (if user \<noteq> [] then monel_Loggit env ''OVERRIDE'' (''removed by '' @ user) p st else st);
     let st = upd_m p (\<lambda>m. m\<lparr>p_Override := None, m_WebTime := ev_nano env\<rparr>) st;
     let st = st\<lparr>ms_inoverride := (ms_inoverride st)(Unique st p := None)\<rparr>;
     st \<leftarrow> ovPropDown p st;
     ReUpdate env p ''override'' st
   }"

definition overrideExpire :: "monel_env \<Rightarrow> ptr \<Rightarrow> monel_state \<Rightarrow> monel_state option" where
  "overrideExpire env p st =
     (let exp = override_exp p st in
      if exp \<noteq> 0 \<and> exp \<le> ev_unix env then DelOverride env p ''system'' ''expired'' st else Some st)"

section \<open>Configuration and life cycle\<close>

definition monel_New :: "monel_env \<Rightarrow> moneler \<Rightarrow> ptr \<Rightarrow> monel_state \<Rightarrow> ptr \<times> monel_state" where
  "monel_New env me parent st =
     (let p = ms_next st;
          m = \<lparr>p_Status = 0, p_OvStatus = 0, p_Override = None, p_Annotation = [], p_Result = [], p_Reason = [],
               p_AncInOv = False, p_Alarm = False, p_OvStatusSummary = replicate 8 0, p_TransTime = 0, p_SirenTime = 0,
               p_Culprit = [], p_Stats = \<lparr>ss_Lastt = 0, ss_Status = 0, ss_Daily = [], ss_Monthly = [], ss_Yearly = []\<rparr>,
               p_Log = [], m_Name = [], m_Me = me, m_Parent = (if parent \<noteq> 0 then [parent] else []), m_Children = [],
               m_Cf = (if parent = 0 then monel_defaults\<lparr>mc_Sort := False\<rparr> else monel_defaults), m_NotifyCf = None,
               m_ConfCF = 0, m_WebTime = ev_nano env, m_Filename = [], m_DirName = [], m_Uname = [], m_Label = [],
               m_Friendlyname = [], m_Depends = [], m_Notifies = [], m_Interesting = False\<rparr>
      in (p, st\<lparr>ms_heap := (ms_heap st)(p := m), ms_next := Suc p\<rparr>))"

definition cleanName :: "string \<Rightarrow> string" where
  "cleanName n =
     map (\<lambda>c. if c = CHR '' '' then CHR ''_'' else c) (filter (\<lambda>c. \<not> (of_char c :: nat) < 32) n)"

definition whoami :: "ptr \<Rightarrow> monel_state \<Rightarrow> monel_state" where
  "whoami p st =
     (let m = ms_heap st p; cf = m_Cf m in
      if mc_Unique cf \<noteq> [] then st
      else
        let cf = (if mc_Label cf = [] \<and> mc_Uname cf \<noteq> [] then cf\<lparr>mc_Label := mc_Uname cf\<rparr> else cf);
            cf = (if mc_Uname cf = [] then cf\<lparr>mc_Uname := m_Uname m\<rparr> else cf);
            cf = (if mc_Label cf = [] then cf\<lparr>mc_Label := m_Label m\<rparr> else cf);
            cf = (if mc_Friendlyname cf = [] then cf\<lparr>mc_Friendlyname := m_Friendlyname m\<rparr> else cf);
            name = (case m_Parent m of [] \<Rightarrow> [] | q # _ \<Rightarrow> Unique st q @ '':'') @ cleanName (mc_Uname cf);
            cf = cf\<lparr>mc_Unique := name\<rparr>
        in upd_m p (\<lambda>m. m\<lparr>m_Cf := cf, m_Filename := FileEncode name, m_DirName := HashedDirectory name\<rparr>) st)"

definition Pathname :: "monel \<Rightarrow> string \<Rightarrow> string \<Rightarrow> string" where
  "Pathname m pre suf = m_DirName m @ ''/'' @ pre @ m_Filename m @ suf"

definition passive_conf :: "monel_conf \<Rightarrow> monel_conf" where
  "passive_conf cf =
     (if mc_Passive cf then cf\<lparr>mc_Sendnotify := map (\<lambda>_. None) (mc_Sendnotify cf), mc_Siren := map (\<lambda>_. False) (mc_Siren cf)\<rparr>
      else cf)"

definition SetNames :: "ptr \<Rightarrow> string \<Rightarrow> string \<Rightarrow> string \<Rightarrow> monel_state \<Rightarrow> monel_state" where
  "SetNames p uname label friendly st =
     upd_m p (\<lambda>m. m\<lparr>m_Uname := uname, m_Label := label, m_Friendlyname := friendly\<rparr>) st"

text \<open>\<open>m.Me.Config(conf)\<close> of groups and aliases; a service's is in its own component.\<close>

definition me_Config :: "ptr \<Rightarrow> cptr \<Rightarrow> monel_state \<Rightarrow> (string + monel_state) option" where
  "me_Config p c st =
     (let cf = cs_cf (ms_conf st) c in
      case m_Me (ms_heap st p) of
        GroupM \<Rightarrow> Some (Inr (SetNames p (cf_Name cf) (cf_Name cf) (cf_Name cf) st))
      | ServiceM \<Rightarrow> Some (Inr st)
      | AliasM _ _ obj \<Rightarrow>
          (case cf_Extra cf of
             [] \<Rightarrow> None
           | target # _ \<Rightarrow>
               let st = upd_m p (\<lambda>m. m\<lparr>m_Me := AliasM (cf_Name cf) target obj\<rparr>) st in
               if target = [] then Some (Inl ''invalid alias - target not specified'')
               else Some (Inr (SetNames p (cf_Name cf) (cf_Name cf) (cf_Name cf) st))))"

definition monel_restore :: "monel_env \<Rightarrow> ptr \<Rightarrow> monel_state \<Rightarrow> monel_state" where
  "monel_restore env p st =
     (let dir = ne_datadir (ev_note env); m = ms_heap st p in
      if dir = [] then st
      else case ms_files st (dir @ ''/stats/'' @ Pathname m [] []) of
             None \<Rightarrow> st
           | Some (saved, ids) \<Rightarrow>
               let st = upd_m p (\<lambda>m. monel_p.extend saved (monel.fields (m_Name m) (m_Me m) (m_Parent m) (m_Children m)
                          (m_Cf m) (m_NotifyCf m) (m_ConfCF m) (m_WebTime m) (m_Filename m) (m_DirName m) (m_Uname m)
                          (m_Label m) (m_Friendlyname m) (m_Depends m) (m_Notifies m) (m_Interesting m))) st;
                   st = foldl (\<lambda>st id. let (n, ns) = note_Load (ev_note env) (m_NotifyCf m) id p (ms_notify st);
                                           st = st\<lparr>ms_notify := ns\<rparr>
                                       in case n of None \<Rightarrow> st
                                          | Some n \<Rightarrow> upd_m p (\<lambda>m. m\<lparr>m_Notifies := m_Notifies m @ [n]\<rparr>) st) st ids
               in if p_Override (ms_heap st p) \<noteq> None
                  then setOverrideExpire p (st\<lparr>ms_inoverride := (ms_inoverride st)(Unique st p \<mapsto> p)\<rparr>)
                  else st)"

definition monel_persist :: "monel_env \<Rightarrow> ptr \<Rightarrow> monel_state \<Rightarrow> monel_state option" where
  "monel_persist env p st =
     (let dir = ne_datadir (ev_note env); file = dir @ ''/stats/'' @ Pathname (ms_heap st p) [] [] in
      if mc_Passive (m_Cf (ms_heap st p)) then Some st
      else if dir = [] then Some st
      else do {
        st \<leftarrow> StatsPeriodic env p st;
        let m = ms_heap st p;
        let st = st\<lparr>ms_notify := foldl (\<lambda>ns n. note_Save (ev_note env) n ns) (ms_notify st) (m_Notifies m)\<rparr>;
        let ids = map (\<lambda>n. n_IdNo (ns_heap (ms_notify st) n)) (m_Notifies m);
        Some (if \<not> ne_create (ev_note env) (file @ ''.tmp'') then st
              else st\<lparr>ms_files := (ms_files st)(file \<mapsto> (monel_p.truncate m, ids))\<rparr>)
      })"

definition monel_Init :: "monel_env \<Rightarrow> ptr \<Rightarrow> monel_state \<Rightarrow> monel_state option" where
  "monel_Init env p st = do {
     st \<leftarrow> statsInit env p st;
     let st = (case m_Parent (ms_heap st p) of [] \<Rightarrow> st | q # _ \<Rightarrow> AddChild q p st);
     let st = st\<lparr>ms_me := ms_me st @ [MeInit p]\<rparr>;
     Some (st\<lparr>ms_byname := (ms_byname st)(Unique st p \<mapsto> p)\<rparr>)
   }"

text \<open>\<open>initcf\<close> is the effect of \<open>InitFromConfig\<close> on the object's settings and \<open>ncf\<close> its result
  on a fresh notification configuration. \<open>Inl\<close>: the configuration error.\<close>

definition monel_Config :: "monel_env \<Rightarrow> (monel_conf \<Rightarrow> monel_conf) \<Rightarrow> notify_conf \<Rightarrow> ptr \<Rightarrow> cptr \<Rightarrow> monel_state
    \<Rightarrow> (string + monel_state) option" where
  "monel_Config env initcf ncf p c st =
     (let st = upd_m p (\<lambda>m. let cf = passive_conf (initcf (m_Cf m)) in
            m\<lparr>m_ConfCF := c, m_Name := cf_Name (cs_cf (ms_conf st) c), m_Cf := cf,
              m_NotifyCf := (if list_ex (\<lambda>x. x \<noteq> None) (mc_Sendnotify cf) then Some ncf else m_NotifyCf m)\<rparr>) st in
      case me_Config p c st of
        None \<Rightarrow> None
      | Some (Inl e) \<Rightarrow> Some (Inl e)
      | Some (Inr st) \<Rightarrow>
          let st = whoami p st in
          if Find st (Unique st p) \<noteq> None
          then Some (Inl (''Duplicate object '' @ [CHR 0x27] @ Unique st p @ [CHR 0x27] @ '' ('' @ cf_Type (cs_cf (ms_conf st) c) @ '')''))
          else map_option Inr (monel_Init env p (monel_restore env p st)))"

definition determineInteresting :: "ptr \<Rightarrow> monel_state \<Rightarrow> monel_state" where
  "determineInteresting p st =
     (let m = ms_heap st p; cf = m_Cf m in
      if (case m_Parent m of [] \<Rightarrow> False | q # _ \<Rightarrow> m_Interesting (ms_heap st q)) then st
      else
        let ip = (mc_Countstop cf \<or> mc_Gravity cf = GRAV_UP \<or> m_Children m = []) \<and> \<not> mc_Passive cf \<and> \<not> mc_Hidden cf
        in upd_m p (\<lambda>m. m\<lparr>m_Interesting := ip\<rparr>) st)"

text \<open>The sort key: every run of digits becomes its value with nine digits.\<close>

function sort_name :: "string \<Rightarrow> string" where
  "sort_name [] = []"
| "sort_name (c # s) =
     (if is_digit c
      then show_pad 9 (atoi (takeWhile is_digit (c # s))) @ sort_name (dropWhile is_digit s)
      else c # sort_name s)"
  by pat_completeness auto
termination by (relation "measure length") (auto simp: less_Suc_eq_le length_dropWhile_le)

definition sortChildren :: "ptr \<Rightarrow> monel_state \<Rightarrow> monel_state" where
  "sortChildren p st =
     (let m = ms_heap st p in
      if \<not> mc_Sort (m_Cf m) \<or> m_Children m = [] then st
      else upd_m p (\<lambda>m. m\<lparr>m_Children := sort_key (\<lambda>c. sort_name (Unique st c)) (m_Children m)\<rparr>) st)"

definition resolveDepends :: "ptr \<Rightarrow> monel_state \<Rightarrow> monel_state" where
  "resolveDepends p st =
     foldl (\<lambda>st name.
        if name = Unique st p
        then st\<lparr>ms_conf := cf_Error (m_ConfCF (ms_heap st p)) ''cannot depend on self'' (ms_conf st)\<rparr>
        else case Find st name of
               None \<Rightarrow> st\<lparr>ms_conf := cf_Error (m_ConfCF (ms_heap st p))
                  (''cannot resolve dependancy '' @ [CHR 0x27] @ name @ [CHR 0x27]) (ms_conf st)\<rparr>
             | Some _ \<Rightarrow> upd_m p (\<lambda>m. m\<lparr>m_Depends := m_Depends m @ [name]\<rparr>) st)
       st (go_fields (mc_Depends (m_Cf (ms_heap st p))))"

text \<open>\<open>keys\<close> is the order in which a block's parameters are visited by the typo check.\<close>

fun DoneConfig :: "nat \<Rightarrow> monel_env \<Rightarrow> (cptr \<Rightarrow> string list) \<Rightarrow> ptr \<Rightarrow> monel_state \<Rightarrow> monel_state option"
  and DoneConfig_list :: "nat \<Rightarrow> monel_env \<Rightarrow> (cptr \<Rightarrow> string list) \<Rightarrow> ptr \<Rightarrow> ptr list \<Rightarrow> monel_state \<Rightarrow> monel_state option" where
  "DoneConfig 0 env keys p st = None"
| "DoneConfig (Suc fuel) env keys p st = do {
     let st = determineInteresting p st;
     st \<leftarrow> DoneConfig_list fuel env keys p (m_Children (ms_heap st p)) st;
     let c = m_ConfCF (ms_heap st p);
     let st = st\<lparr>ms_conf := DrainCache c (CheckTypos c (keys c) (ms_conf st))\<rparr>;
     let st = resolveDepends p (sortChildren p st);
     let st = (case m_Me (ms_heap st p) of AliasM _ _ _ \<Rightarrow> snd (aliasLookup p st) | _ \<Rightarrow> st);
     let st = st\<lparr>ms_me := ms_me st @ [MeDoneConfig p]\<rparr>;
     (changed, st) \<leftarrow> determineStatus p st;
     st \<leftarrow> determineSummary p st;
     let st = upd_m p (setAlarm env) st;
     Some (updateIsDown p (p_OvStatus (ms_heap st p)) st)
   }"
| "DoneConfig_list fuel env keys p [] st = Some st"
| "DoneConfig_list fuel env keys p (c # cs) st = do {
     st \<leftarrow> DoneConfig fuel env keys c st;
     let wt = m_WebTime (ms_heap st c);
     let st = (if wt > m_WebTime (ms_heap st p) then upd_m p (\<lambda>m. m\<lparr>m_WebTime := wt\<rparr>) st else st);
     DoneConfig_list fuel env keys p cs st
   }"

fun last_index :: "ptr \<Rightarrow> ptr list \<Rightarrow> nat \<Rightarrow> nat option \<Rightarrow> nat option" where
  "last_index x [] i idx = idx"
| "last_index x (l # ls) i idx = last_index x ls (Suc i) (if l = x then Some i else idx)"

text \<open>The new list, and what is left in the old list's array: the elements after the removed one
  move down and the last becomes nil.\<close>

definition removeFromList :: "ptr list \<Rightarrow> ptr \<Rightarrow> ptr list \<times> ptr list" where
  "removeFromList list x =
     (case last_index x list 0 None of
        None \<Rightarrow> (list, list)
      | Some i \<Rightarrow> let short = take i list @ drop (Suc i) list in (short, short @ [0]))"

text \<open>The parents' loop assigns the shortened \<open>Children\<close> to \<open>Parent\<close> and leaves \<open>Children\<close> with the
  old length over the shifted array.\<close>

fun Recycle :: "nat \<Rightarrow> monel_env \<Rightarrow> bool \<Rightarrow> ptr \<Rightarrow> monel_state \<Rightarrow> monel_state option"
  and Recycle_list :: "nat \<Rightarrow> monel_env \<Rightarrow> bool \<Rightarrow> ptr \<Rightarrow> ptr list \<Rightarrow> monel_state \<Rightarrow> monel_state option" where
  "Recycle 0 env cascade p st = None"
| "Recycle (Suc fuel) env cascade p st = do {
     st \<leftarrow> monel_persist env p st;
     let u = Unique st p;
     let st = st\<lparr>ms_byname := (ms_byname st)(u := None), ms_isdown := (ms_isdown st)(u := None),
                 ms_inoverride := (ms_inoverride st)(u := None)\<rparr>;
     st \<leftarrow> Recycle_list fuel env cascade p (m_Children (ms_heap st p)) st;
     let st = foldl (\<lambda>st q. upd_m q (\<lambda>m. let (short, old) = removeFromList (m_Children m) p
                                           in m\<lparr>m_Parent := short, m_Children := old\<rparr>) st) st (m_Parent (ms_heap st p));
     let st = upd_m p (\<lambda>m. m\<lparr>m_Children := [], m_Parent := []\<rparr>) st;
     Some (st\<lparr>ms_me := ms_me st @ [MeRecycle p]\<rparr>)
   }"
| "Recycle_list fuel env cascade p [] st = Some st"
| "Recycle_list fuel env cascade p (c # cs) st =
     (if c = 0 then None
      else do {
        let st = upd_m c (\<lambda>m. m\<lparr>m_Parent := fst (removeFromList (m_Parent m) p)\<rparr>) st;
        st \<leftarrow> (if cascade then Recycle fuel env cascade c st else Some st);
        Recycle_list fuel env cascade p cs st
      })"

fun checkNow :: "nat \<Rightarrow> ptr \<Rightarrow> monel_state \<Rightarrow> monel_state option"
  and checkNow_list :: "nat \<Rightarrow> ptr list \<Rightarrow> monel_state \<Rightarrow> monel_state option" where
  "checkNow 0 p st = None"
| "checkNow (Suc fuel) p st = do {
     let (children, st) = me_Children p st;
     st \<leftarrow> checkNow_list fuel children st;
     Some (st\<lparr>ms_me := ms_me st @ [MeCheckNow p]\<rparr>)
   }"
| "checkNow_list fuel [] st = Some st"
| "checkNow_list fuel (c # cs) st =
     (if c = 0 then None else do { st \<leftarrow> checkNow fuel c st; checkNow_list fuel cs st })"

section \<open>Requests\<close>

text \<open>\<open>user\<close> is the logged-in user's name and groups. \<open>Inl\<close> carries the status code.\<close>

definition webObjUserCheck :: "(string \<times> string) option \<Rightarrow> string \<Rightarrow> monel_state \<Rightarrow> int + ptr \<times> string list" where
  "webObjUserCheck user obj st =
     (case Find st obj of
        None \<Rightarrow> Inl 404
      | Some p \<Rightarrow>
          let creds = (case user of None \<Rightarrow> [] | Some (_, groups) \<Rightarrow> go_fields groups) in
          if \<not> ACLPermitsUser (mc_ACL_Page (m_Cf (ms_heap st p))) creds then Inl 403 else Inr (p, creds))"

text \<open>The handler does not test whether the check failed: \<^const>\<open>None\<close> is its nil dereference,
  also for a permitted visitor who is not logged in.\<close>

definition webOverride :: "monel_env \<Rightarrow> (string \<times> string) option \<Rightarrow> string \<Rightarrow> string \<Rightarrow> string \<Rightarrow> string \<Rightarrow> string
    \<Rightarrow> monel_state \<Rightarrow> (int \<times> monel_state) option" where
  "webOverride env user obj txt mode expires remove st =
     (case webObjUserCheck user obj st of
        Inl _ \<Rightarrow> None
      | Inr (p, creds) \<Rightarrow>
          let cf = m_Cf (ms_heap st p) in
          if \<not> ACLPermitsUser (mc_ACL_Override cf) creds \<or> \<not> mc_Overridable cf then Some (403, st)
          else
            let exp = atoi expires; exp = (if exp > 0 then wrap64 (exp + ev_unix env) else exp) in
            case user of
              None \<Rightarrow> None
            | Some (name, _) \<Rightarrow>
                map_option (\<lambda>st. (200, st))
                  (if remove \<noteq> [] then DelOverride env p name [] st
                   else SetOverride env p \<lparr>ov_User = name, ov_Auto = (mode = ''auto''), ov_Quiet = False, ov_Text = txt,
                          ov_Expires = exp, ov_Ticket = []\<rparr> st))"

definition webAnnotate :: "monel_env \<Rightarrow> (string \<times> string) option \<Rightarrow> string \<Rightarrow> string \<Rightarrow> monel_state \<Rightarrow> (int \<times> monel_state) option" where
  "webAnnotate env user obj txt st =
     (case webObjUserCheck user obj st of
        Inl code \<Rightarrow> Some (code, st)
      | Inr (p, creds) \<Rightarrow>
          if \<not> ACLPermitsUser (mc_ACL_Annotate (m_Cf (ms_heap st p))) creds then Some (403, st)
          else case user of
                 None \<Rightarrow> None
               | Some (name, _) \<Rightarrow>
                   let st = upd_m p (\<lambda>m. m\<lparr>p_Annotation := txt, m_WebTime := ev_nano env\<rparr>) st
                   in Some (200, monel_Loggit env ''ANNOTATION''
                        (if txt = [] then ''removed by '' @ name else ''added by '' @ name) p st))"

definition webCheckNow :: "(string \<times> string) option \<Rightarrow> string \<Rightarrow> monel_state \<Rightarrow> (int \<times> monel_state) option" where
  "webCheckNow user obj st =
     (case webObjUserCheck user obj st of
        Inl code \<Rightarrow> Some (code, st)
      | Inr (p, creds) \<Rightarrow>
          if \<not> ACLPermitsUser (mc_ACL_CheckNow (m_Cf (ms_heap st p))) creds then Some (403, st)
          else map_option (\<lambda>st. (200, st)) (checkNow (Suc (ms_next st)) p st))"

definition apiCheckNow :: "string \<Rightarrow> monel_state \<Rightarrow> (int \<times> monel_state) option" where
  "apiCheckNow obj st =
     (case Find st obj of None \<Rightarrow> Some (404, st) | Some p \<Rightarrow> map_option (\<lambda>st. (200, st)) (checkNow (Suc (ms_next st)) p st))"

definition apiSetDebug :: "string \<Rightarrow> string \<Rightarrow> monel_state \<Rightarrow> int \<times> monel_state" where
  "apiSetDebug obj enabled st =
     (case Find st obj of
        None \<Rightarrow> (404, st)
      | Some p \<Rightarrow> (200, upd_m p (\<lambda>m. m\<lparr>m_Cf := (m_Cf m)\<lparr>mc_Debug := (if enabled \<noteq> [] then CheckBool enabled else True)\<rparr>\<rparr>) st))"

definition apiClrDebug :: "string \<Rightarrow> monel_state \<Rightarrow> int \<times> monel_state" where
  "apiClrDebug obj st =
     (case Find st obj of
        None \<Rightarrow> (404, st)
      | Some p \<Rightarrow> (200, upd_m p (\<lambda>m. m\<lparr>m_Cf := (m_Cf m)\<lparr>mc_Debug := False\<rparr>\<rparr>) st))"

definition webChangedSince :: "int \<Rightarrow> monel \<Rightarrow> bool \<times> int" where
  "webChangedSince since m = (if m_WebTime m > since then (True, m_WebTime m) else (False, since))"

text \<open>The counts of a child's summary: up, down, overridden, total, worst severity present.\<close>

definition child_counts :: "monel \<Rightarrow> int \<times> int \<times> int \<times> int \<times> status" where
  "child_counts m =
     (let s = p_OvStatusSummary m;
          up = s ! nat CLEAR + s ! nat DEPENDS;
          ov = s ! nat OVERRIDE;
          dn = sum_list (map (\<lambda>sev. s ! nat sev) [WARNING..CRITICAL]);
          sev = foldl (\<lambda>a sev. if s ! nat sev > 0 then sev else a) (p_OvStatus m) [WARNING..CRITICAL]
      in (up, dn, ov, up + dn + ov, sev))"

text \<open>The list of down or overridden objects, newest transition first; \<open>ps\<close> is the order in which
  the registry is visited.\<close>

definition webList :: "(string \<times> string) option \<Rightarrow> ptr list \<Rightarrow> bool \<Rightarrow> monel_state \<Rightarrow> int + (string \<times> status) list" where
  "webList user ps interesting st =
     (case user of
        None \<Rightarrow> Inl 403
      | Some (_, groups) \<Rightarrow>
          let creds = go_fields groups; all = sort_key (\<lambda>p. - p_TransTime (ms_heap st p)) ps
          in Inr (map (\<lambda>p. (Unique st p, p_OvStatus (ms_heap st p)))
               (filter (\<lambda>p. let m = ms_heap st p; cf = m_Cf m in
                   ACLPermitsUser (mc_ACL_Page cf) creds \<and> \<not> mc_Hidden cf \<and> (interesting \<longrightarrow> m_Interesting m)) all)))"

end
