(* ===== verification/MonelLemmas.thy ===== *)
theory MonelLemmas
  imports Monel
begin

text \<open>
  What the monitored objects guarantee: how a group's status follows from its children, how
  dependencies and overrides change it, that an override reaches all descendants, that the
  statistics account for every second, that names and state files are distinct.
\<close>

section \<open>Aggregation\<close>

lemma hist_count: "0 \<le> s \<Longrightarrow> s < 8 \<Longrightarrow> count_at (hist xs) s = Some (hist (xs @ [s]))"
  by (auto simp: count_at_def elem_at_def hist_def list_eq_iff_nth_eq nth_list_update nat_less_iff)

lemma count_children_hist:
  assumes "0 \<notin> set cs" "\<forall>c \<in> set cs. 0 \<le> p_Status (ms_heap st c) \<and> p_Status (ms_heap st c) < 8"
    and "\<forall>c \<in> set cs. 0 \<le> p_OvStatus (ms_heap st c) \<and> p_OvStatus (ms_heap st c) < 8"
  shows "count_children st cs (hist xs) (hist ys)
    = Some (hist (xs @ map (\<lambda>c. p_Status (ms_heap st c)) cs), hist (ys @ map (\<lambda>c. p_OvStatus (ms_heap st c)) cs))"
  using assms
proof (induction cs arbitrary: xs ys)
  case (Cons c cs)
  then show ?case by (simp add: hist_count Cons.IH)
qed simp

lemma hist_Nil: "replicate 8 0 = hist []"
  by (simp add: hist_def list_eq_iff_nth_eq)

lemma calcAggr_known:
  assumes "xs \<noteq> []" "set xs \<subseteq> {1..worst}" "worst < 8"
  shows "calcAggrStatus GRAV_DN (int (length xs)) worst (hist xs) = Max (set xs)"
    and "calcAggrStatus GRAV_UP (int (length xs)) worst (hist xs) = Min (set xs)"
    and "g \<noteq> GRAV_DN \<Longrightarrow> g \<noteq> GRAV_UP \<Longrightarrow> is_median xs (calcAggrStatus g (int (length xs)) worst (hist xs))"
proof -
  have pos: "hist xs ! nat s > 0 \<longleftrightarrow> s \<in> set xs" if "1 \<le> s" "s \<le> worst" for s
    using that assms(3) by (intro hist_pos) auto
  have ne: "set xs \<noteq> {}" using assms(1) by simp
  note f = find_upto [of 1 worst "\<lambda>sev. hist xs ! nat sev > 0" "set xs", OF pos assms(2) ne]
  have "(0 :: int) \<notin> set xs" using assms(2) by auto
  then have "hist xs ! 0 = 0" using hist_pos [of 0 xs] hist_nth [of 0 xs] by simp
  moreover have "(int (length xs) + 1) sdiv 2 = (int (length xs) + 1) div 2" by (simp add: sdiv_nonneg)
  moreover obtain r where "vote_scan (hist xs) ((int (length xs) + 1) div 2) 0 [1..worst] = Some r" "is_median xs r"
    using vote_scan_median [OF assms(2,1,3), of 1] at_most_none [OF assms(2), of 0] assms
    by (cases xs) auto
  ultimately show "calcAggrStatus GRAV_DN (int (length xs)) worst (hist xs) = Max (set xs)"
    "calcAggrStatus GRAV_UP (int (length xs)) worst (hist xs) = Min (set xs)"
    "g \<noteq> GRAV_DN \<Longrightarrow> g \<noteq> GRAV_UP \<Longrightarrow> is_median xs (calcAggrStatus g (int (length xs)) worst (hist xs))"
    using f by (simp_all add: calcAggrStatus_def)
qed

interpretation real: status_aggregate "\<lambda>g xs. calcAggrStatus g (int (length xs)) CRITICAL (hist xs)" CRITICAL
  by unfold_locales (use calcAggr_known in auto)

interpretation shown: status_aggregate "\<lambda>g xs. calcAggrStatus g (int (length xs)) MAXSTATUS (hist xs)" MAXSTATUS
  by unfold_locales (use calcAggr_known in auto)

text \<open>Children whose status is unknown do not count.\<close>

definition known :: "status list \<Rightarrow> status list" where
  "known xs = filter (\<lambda>s. s \<noteq> UNKNOWN) xs"

lemma hist_known: "1 \<le> s \<Longrightarrow> s < 8 \<Longrightarrow> hist xs ! nat s = hist (known xs) ! nat s"
proof -
  have "count_list (known xs) s = count_list xs s" if "1 \<le> s" for s
    using that unfolding known_def by (induction xs) auto
  then show "1 \<le> s \<Longrightarrow> s < 8 \<Longrightarrow> ?thesis" by (simp add: hist_nth)
qed

lemma find_cong_set: "(\<And>x. x \<in> set xs \<Longrightarrow> P x = Q x) \<Longrightarrow> find P xs = find Q xs"
  by (rule find_cong) simp_all

lemma calcAggr_unknown:
  assumes "worst < 8"
  shows "calcAggrStatus g (int (length xs)) worst (hist xs) = calcAggrStatus g (int (length (known xs))) worst (hist (known xs))"
proof -
  have h: "hist xs ! nat s = hist (known xs) ! nat s" if "s \<in> set [1..worst]" for s
    using that assms by (intro hist_known) auto
  have n: "count_list xs 0 + length (known xs) = length xs" unfolding known_def by (induction xs) auto
  have "count_list (known xs) 0 = 0" by (simp add: known_def count_list_0_iff)
  then have "int (length xs) - hist xs ! 0 = int (length (known xs)) - hist (known xs) ! 0"
    using n hist_nth [of 0 xs] hist_nth [of 0 "known xs"] by simp
  moreover have "find (\<lambda>s. hist xs ! nat s > 0) [1..worst] = find (\<lambda>s. hist (known xs) ! nat s > 0) [1..worst]"
    "find (\<lambda>s. hist xs ! nat s > 0) (rev [1..worst]) = find (\<lambda>s. hist (known xs) ! nat s > 0) (rev [1..worst])"
    "vote_scan (hist xs) v 0 [1..worst] = vote_scan (hist (known xs)) v 0 [1..worst]" for v
    using h by (auto intro!: find_cong_set vote_scan_cong)
  ultimately show ?thesis by (simp add: calcAggrStatus_def Let_def)
qed

lemma calcAggr_aggregates:
  assumes "known xs \<noteq> []" "set xs \<subseteq> {0..worst}" "worst < 8"
  shows "aggregates g (known xs) (calcAggrStatus g (int (length xs)) worst (hist xs))"
proof -
  have "x \<in> {1..worst}" if "x \<in> set (known xs)" for x
    using that assms(2) by (force simp: known_def)
  then have "set (known xs) \<subseteq> {1..worst}" by blast
  note k = calcAggr_known [OF assms(1) this assms(3)]
  then show ?thesis
    unfolding calcAggr_unknown [OF assms(3), of g xs] by (simp add: aggregates_def)
qed

text \<open>With nothing known the gravities disagree: \<open>down\<close> says unknown, \<open>up\<close> and \<open>vote\<close> say clear.\<close>

lemma calcAggr_nothing_known:
  assumes "known xs = []"
  shows "calcAggrStatus GRAV_DN (int (length xs)) MAXSTATUS (hist xs) = UNKNOWN
    \<and> calcAggrStatus GRAV_UP (int (length xs)) MAXSTATUS (hist xs) = CLEAR
    \<and> calcAggrStatus GRAV_VOTE (int (length xs)) MAXSTATUS (hist xs) = CLEAR"
proof -
  have e: "calcAggrStatus g (int (length xs)) 7 (hist xs) = calcAggrStatus g 0 7 (hist [])" for g
    using calcAggr_unknown [of 7 g xs] assms by simp
  have "hist [] = [0, 0, 0, 0, 0, 0, 0, 0]" by code_simp
  moreover have "calcAggrStatus GRAV_DN 0 7 [0, 0, 0, 0, 0, 0, 0, 0] = UNKNOWN"
    "calcAggrStatus GRAV_UP 0 7 [0, 0, 0, 0, 0, 0, 0, 0] = CLEAR"
    "calcAggrStatus GRAV_VOTE 0 7 [0, 0, 0, 0, 0, 0, 0, 0] = CLEAR" by code_simp+
  ultimately show ?thesis unfolding e by simp
qed

section \<open>An object's status\<close>

lemma upd_m_frame [simp]:
  "ms_heap (upd_m p f st) = (ms_heap st)(p := f (ms_heap st p))" "ms_next (upd_m p f st) = ms_next st"
  "ms_byname (upd_m p f st) = ms_byname st" "ms_isdown (upd_m p f st) = ms_isdown st"
  "ms_inoverride (upd_m p f st) = ms_inoverride st" "ms_go (upd_m p f st) = ms_go st"
  "ms_notify (upd_m p f st) = ms_notify st" "ms_sched (upd_m p f st) = ms_sched st"
  "ms_conf (upd_m p f st) = ms_conf st" "ms_files (upd_m p f st) = ms_files st"
  by (simp_all add: upd_m_def)

lemma go_task_frame [simp]:
  "ms_heap (go_task t st) = ms_heap st" "ms_notify (go_task t st) = ms_notify st" "ms_go (go_task t st) = ms_go st @ [t]"
  "ms_byname (go_task t st) = ms_byname st"
  by (simp_all add: go_task_def)

lemma Find_upd [simp]: "Find (upd_m p f st) name = Find st name"
  by (simp add: Find_def)

text \<open>Some object this one depends on is down (or overridden, or itself depends on one).\<close>

definition depends_down :: "monel_state \<Rightarrow> ptr \<Rightarrow> bool" where
  "depends_down st p \<longleftrightarrow> list_ex (\<lambda>name. case Find st name of
      None \<Rightarrow> False | Some q \<Rightarrow> p_OvStatus (ms_heap st q) \<noteq> CLEAR \<and> p_OvStatus (ms_heap st q) \<noteq> UNKNOWN)
    (m_Depends (ms_heap st p))"

lemma depends_loop_spec:
  "p_OvStatus (ms_heap (depends_loop p names st) p)
     = (if list_ex (\<lambda>name. case Find st name of None \<Rightarrow> False
          | Some q \<Rightarrow> p_OvStatus (ms_heap st q) \<noteq> CLEAR \<and> p_OvStatus (ms_heap st q) \<noteq> UNKNOWN) names
        then DEPENDS else p_OvStatus (ms_heap st p))
   \<and> p_Status (ms_heap (depends_loop p names st) p) = p_Status (ms_heap st p)
   \<and> p_Override (ms_heap (depends_loop p names st) p) = p_Override (ms_heap st p)
   \<and> (q \<noteq> p \<longrightarrow> ms_heap (depends_loop p names st) q = ms_heap st q)"
  by (induction p names st rule: depends_loop.induct) (auto simp: Let_def split: option.splits)

definition no_self_depend :: "monel_state \<Rightarrow> ptr \<Rightarrow> bool" where
  "no_self_depend st p \<longleftrightarrow> list_all (\<lambda>name. Find st name \<noteq> Some p) (m_Depends (ms_heap st p))"

lemma depends_down_upd:
  assumes "no_self_depend st p" "\<And>m. m_Depends (f m) = m_Depends m"
  shows "depends_down (upd_m p f st) p = depends_down st p"
proof -
  have "list_ex P (m_Depends (ms_heap st p)) = list_ex Q (m_Depends (ms_heap st p))"
    if "\<And>n. n \<in> set (m_Depends (ms_heap st p)) \<Longrightarrow> P n = Q n" for P Q
    using that by (auto simp: list_ex_iff)
  then show ?thesis
    using assms unfolding depends_down_def no_self_depend_def
    by (auto simp: list_all_iff list_ex_iff split: option.splits)
qed

definition combined :: "monel_state \<Rightarrow> ptr \<Rightarrow> status \<Rightarrow> status \<Rightarrow> status" where
  "combined st p s ov =
     (if depends_down st p then DEPENDS
      else if s = CLEAR \<or> s = UNKNOWN \<or> ov = DEPENDS \<or> p_Override (ms_heap st p) = None then ov
      else OVERRIDE)"

lemma after_aggregate:
  assumes "no_self_depend st p"
  shows "let st' = checkOverride p (checkDepends p (upd_m p (\<lambda>m. m\<lparr>p_Status := s, p_OvStatus := ov\<rparr>) st))
    in p_Status (ms_heap st' p) = s \<and> p_OvStatus (ms_heap st' p) = combined st p s ov
       \<and> (\<forall>q. q \<noteq> p \<longrightarrow> ms_heap st' q = ms_heap st q)"
proof -
  let ?st = "upd_m p (\<lambda>m. m\<lparr>p_Status := s, p_OvStatus := ov\<rparr>) st"
  have d: "depends_down ?st p = depends_down st p" by (rule depends_down_upd [OF assms]) simp
  note L = depends_loop_spec [of p "m_Depends (ms_heap ?st p)" ?st, folded depends_down_def, unfolded d]
  let ?c = "checkDepends p ?st"
  have c: "p_OvStatus (ms_heap ?c p) = (if depends_down st p then DEPENDS else ov)"
    "p_Status (ms_heap ?c p) = s" "p_Override (ms_heap ?c p) = p_Override (ms_heap st p)"
    "\<And>q. q \<noteq> p \<Longrightarrow> ms_heap ?c q = ms_heap st q"
    using L by (simp_all add: checkDepends_def)
  show ?thesis
    using c by (auto simp: checkOverride_def combined_def Let_def)
qed

text \<open>C1: the status of a group. Its status and override status are what its gravity makes of
  the known statuses and override statuses of its children (the worst, the best, or the
  lower median); then a dependency that is down makes it \<open>depends\<close>, and otherwise an
  override of its own makes it \<open>override\<close> unless its status is clear or unknown or its
  children already make it \<open>depends\<close>. No other object changes, and the change is reported
  exactly when the override status changed.\<close>

theorem group_status:
  assumes "m_Me (ms_heap st p) = GroupM" and cs: "m_Children (ms_heap st p) = cs" "0 \<notin> set cs"
    and rs: "rs = map (\<lambda>c. p_Status (ms_heap st c)) cs" "set rs \<subseteq> {0..5}" "known rs \<noteq> []"
    and os: "os = map (\<lambda>c. p_OvStatus (ms_heap st c)) cs" "set os \<subseteq> {0..7}" "known os \<noteq> []"
    and "no_self_depend st p"
  shows "\<exists>s ov changed st'. determineStatus p st = Some (changed, st')
    \<and> aggregates (mc_Gravity (m_Cf (ms_heap st p))) (known rs) s
    \<and> aggregates (mc_Gravity (m_Cf (ms_heap st p))) (known os) ov
    \<and> p_Status (ms_heap st' p) = s \<and> p_OvStatus (ms_heap st' p) = combined st p s ov
    \<and> (\<forall>q. q \<noteq> p \<longrightarrow> ms_heap st' q = ms_heap st q)
    \<and> changed = (p_OvStatus (ms_heap st' p) \<noteq> p_OvStatus (ms_heap st p))"
proof -
  let ?g = "mc_Gravity (m_Cf (ms_heap st p))"
  define s where "s = calcAggrStatus ?g (int (length rs)) CRITICAL (hist rs)"
  define ov where "ov = calcAggrStatus ?g (int (length os)) MAXSTATUS (hist os)"
  have "cs \<noteq> []" using rs by (auto simp: known_def)
  have "count_children st cs (hist []) (hist []) = Some (hist ([] @ rs), hist ([] @ os))"
    unfolding rs(1) os(1) by (rule count_children_hist [OF cs(2)]) (use rs os in fastforce)+
  then have aggr: "determineAggrStatus p st = Some (upd_m p (\<lambda>m. m\<lparr>p_Status := s, p_OvStatus := ov\<rparr>) st)"
    using \<open>cs \<noteq> []\<close> assms(1) cs(1)
    by (simp add: determineAggrStatus_def me_Children_def hist_Nil s_def ov_def rs(1) os(1) Let_def)
  have "aggregates ?g (known rs) s" "aggregates ?g (known os) ov"
    unfolding s_def ov_def by (rule calcAggr_aggregates [OF rs(3,2)] calcAggr_aggregates [OF os(3,2)]; simp)+
  moreover note after_aggregate [OF assms(10), where s = s and ov = ov]
  ultimately show ?thesis by (auto simp: determineStatus_def aggr Let_def)
qed

section \<open>A small tree\<close>

text \<open>A group (1) of two services (2, 3), one critical and one clear, for the witnesses.\<close>

definition witness_menv :: "int \<Rightarrow> monel_env" where
  "witness_menv now = \<lparr>ev_nano = now * SECSNANO, ev_unix = now,
     ev_cal = (\<lambda>t. ((1970, 1, 1 + t div 86400), ((t mod 86400) div 3600, (t mod 3600) div 60, t mod 60))),
     ev_note = witness_env now\<rparr>"

definition witness_stats :: stats where
  "witness_stats = (let x = [\<lparr>sx_Start = 0, sx_Elapsed = 0, sx_Ndown = 0, sx_TUp = 0, sx_TDn = 0\<rparr>]
     in \<lparr>ss_Lastt = 0, ss_Status = 0, ss_Daily = x, ss_Monthly = x, ss_Yearly = x\<rparr>)"

definition blank_object :: monel where
  "blank_object = \<lparr>p_Status = 0, p_OvStatus = 0, p_Override = None, p_Annotation = [], p_Result = [], p_Reason = [],
     p_AncInOv = False, p_Alarm = False, p_OvStatusSummary = replicate 8 0, p_TransTime = 0, p_SirenTime = 0,
     p_Culprit = [], p_Stats = witness_stats, p_Log = [], m_Name = [], m_Me = ServiceM, m_Parent = [], m_Children = [], m_Cf = monel_defaults,
     m_NotifyCf = None, m_ConfCF = 0, m_WebTime = 0, m_Filename = [], m_DirName = [], m_Uname = [], m_Label = [],
     m_Friendlyname = [], m_Depends = [], m_Notifies = [], m_Interesting = False\<rparr>"

definition empty_monel :: monel_state where
  "empty_monel = \<lparr>ms_heap = (\<lambda>_. blank_object), ms_next = 1, ms_byname = Map.empty, ms_isdown = Map.empty,
     ms_inoverride = Map.empty, ms_go = [], ms_notify = witness_start, ms_sched = sched_start,
     ms_conf = witness_cf, ms_me = [], ms_files = Map.empty\<rparr>"

definition witness_tree :: monel_state where
  "witness_tree =
     (let env = witness_menv 1000;
          (g, st) = monel_New env GroupM 0 empty_monel;
          (a, st) = monel_New env ServiceM g st;
          (b, st) = monel_New env ServiceM g st;
          st = AddChild g b (AddChild g a st);
          st = upd_m a (\<lambda>m. m\<lparr>p_Status := CRITICAL, p_OvStatus := CRITICAL\<rparr>) st;
          st = upd_m b (\<lambda>m. m\<lparr>p_Status := CLEAR, p_OvStatus := CLEAR\<rparr>) st
      in st)"

lemma witness_tree_eval:
  "m_Me (ms_heap witness_tree 1) = GroupM" "m_Children (ms_heap witness_tree 1) = [2, 3]"
  "m_Children (ms_heap witness_tree 2) = []" "m_Children (ms_heap witness_tree 3) = []"
  "ms_next witness_tree = 4" "q \<notin> {1, 2, 3} \<Longrightarrow> m_Children (ms_heap witness_tree q) = []"
  "p_Status (ms_heap witness_tree 2) = CRITICAL" "p_OvStatus (ms_heap witness_tree 2) = CRITICAL"
  "p_Status (ms_heap witness_tree 3) = CLEAR" "p_OvStatus (ms_heap witness_tree 3) = CLEAR"
  "m_Depends (ms_heap witness_tree 1) = []" "mc_Gravity (m_Cf (ms_heap witness_tree 1)) = GRAV_DN"
  "p_Override (ms_heap witness_tree 1) = None" "p_AncInOv (ms_heap witness_tree 1) = False"
  by (simp_all add: witness_tree_def monel_New_def empty_monel_def blank_object_def AddChild_def monel_defaults_def Let_def)

theorem group_status_witness:
  "\<exists>changed st'. determineStatus 1 witness_tree = Some (changed, st') \<and> p_OvStatus (ms_heap st' 1) = CRITICAL"
proof -
  note w = witness_tree_eval [unfolded One_nat_def]
  have nd: "no_self_depend witness_tree 1" "depends_down witness_tree 1 = False"
    by (simp_all add: no_self_depend_def depends_down_def w)
  have k: "known [CRITICAL, CLEAR] = [CRITICAL, CLEAR]" by (simp add: known_def)
  have "\<exists>s ov changed st'. determineStatus 1 witness_tree = Some (changed, st')
    \<and> aggregates (mc_Gravity (m_Cf (ms_heap witness_tree 1))) (known [CRITICAL, CLEAR]) s
    \<and> aggregates (mc_Gravity (m_Cf (ms_heap witness_tree 1))) (known [CRITICAL, CLEAR]) ov
    \<and> p_Status (ms_heap st' 1) = s \<and> p_OvStatus (ms_heap st' 1) = combined witness_tree 1 s ov
    \<and> (\<forall>q. q \<noteq> 1 \<longrightarrow> ms_heap st' q = ms_heap witness_tree q)
    \<and> changed = (p_OvStatus (ms_heap st' 1) \<noteq> p_OvStatus (ms_heap witness_tree 1))"
    by (rule group_status [where cs = "[2, 3]"]) (use nd in \<open>simp_all add: w k\<close>)
  then obtain s ov changed st' where r: "determineStatus 1 witness_tree = Some (changed, st')"
    "aggregates GRAV_DN [CRITICAL, CLEAR] ov" "p_OvStatus (ms_heap st' 1) = combined witness_tree 1 s ov"
    unfolding k witness_tree_eval by blast
  have "ov = CRITICAL" using r(2) by (simp add: aggregates_def)
  then have "p_OvStatus (ms_heap st' 1) = CRITICAL"
    using r(3) nd(2) witness_tree_eval(13) by (simp add: combined_def)
  with r(1) show ?thesis by blast
qed

section \<open>An override reaches every descendant\<close>

definition is_child :: "(ptr \<Rightarrow> monel) \<Rightarrow> ptr \<Rightarrow> ptr \<Rightarrow> bool" where
  "is_child h q c \<longleftrightarrow> c \<in> set (m_Children (h q))"

text \<open>The tree: children are not nil, lie deeper (\<open>rank\<close> is the height), and have one parent.\<close>

definition tree_ok :: "(ptr \<Rightarrow> monel) \<Rightarrow> (ptr \<Rightarrow> nat) \<Rightarrow> bool" where
  "tree_ok h rank \<longleftrightarrow> (\<forall>q c. is_child h q c \<longrightarrow> c \<noteq> 0 \<and> rank c < rank q)
     \<and> (\<forall>q q' c. is_child h q c \<longrightarrow> is_child h q' c \<longrightarrow> q = q') \<and> (\<forall>q. distinct (m_Children (h q)))"

lemma tree_okD:
  assumes "tree_ok h rank"
  shows "is_child h q c \<Longrightarrow> c \<noteq> 0" "is_child h q c \<Longrightarrow> rank c < rank q"
    and "is_child h q c \<Longrightarrow> is_child h q' c \<Longrightarrow> q = q'" "distinct (m_Children (h q))"
  using assms by (auto simp: tree_ok_def)

lemma desc_rank: "(is_child h)\<^sup>*\<^sup>* a b \<Longrightarrow> tree_ok h rank \<Longrightarrow> rank b \<le> rank a"
  by (induction rule: rtranclp_induct) (auto dest: tree_okD(2))

lemma desc_comparable:
  assumes "(is_child h)\<^sup>*\<^sup>* a q" "(is_child h)\<^sup>*\<^sup>* b q" "tree_ok h rank"
  shows "(is_child h)\<^sup>*\<^sup>* a b \<or> (is_child h)\<^sup>*\<^sup>* b a"
  using assms(1,2)
proof (induction arbitrary: b rule: rtranclp_induct)
  case (step y z)
  from step.prems show ?case
  proof (cases rule: rtranclp.cases)
    case rtrancl_refl
    then show ?thesis using step.hyps by (meson rtranclp.rtrancl_into_rtrancl)
  next
    case (rtrancl_into_rtrancl w)
    then have "w = y" using step.hyps(2) tree_okD(3) [OF assms(3)] by blast
    then show ?thesis using step.IH rtrancl_into_rtrancl by blast
  qed
qed blast

lemma below_parent:
  assumes "tree_ok h rank" "(is_child h)\<^sup>*\<^sup>* x y" "x \<noteq> y" "is_child h p x" "is_child h p y"
  shows False
proof -
  from assms(2,3) obtain w where w: "(is_child h)\<^sup>*\<^sup>* x w" "is_child h w y" by (auto elim: rtranclp.cases)
  then have "w = p" using assms(5) tree_okD(3) [OF assms(1)] by blast
  then have "rank p \<le> rank x" using desc_rank [OF w(1) assms(1)] by simp
  moreover have "rank x < rank p" using assms(4) tree_okD(2) [OF assms(1)] by blast
  ultimately show False by simp
qed

lemma siblings_disjoint:
  assumes "tree_ok h rank" "is_child h p a" "is_child h p b" "a \<noteq> b" "(is_child h)\<^sup>*\<^sup>* a q"
  shows "\<not> (is_child h)\<^sup>*\<^sup>* b q"
proof
  assume "(is_child h)\<^sup>*\<^sup>* b q"
  then consider "(is_child h)\<^sup>*\<^sup>* a b" | "(is_child h)\<^sup>*\<^sup>* b a"
    using desc_comparable [OF assms(5)] assms(1) by blast
  then show False
  proof cases
    case 1
    then show False using below_parent [OF assms(1) 1 assms(4,2,3)] by simp
  next
    case 2
    then show False using below_parent [OF assms(1) 2 assms(4) [symmetric] assms(3,2)] by simp
  qed
qed

text \<open>\<open>h'\<close> differs from \<open>h\<close> in \<open>AncInOv\<close> only, and only on \<open>D\<close>.\<close>

definition anc_only :: "ptr set \<Rightarrow> (ptr \<Rightarrow> monel) \<Rightarrow> (ptr \<Rightarrow> monel) \<Rightarrow> bool" where
  "anc_only D h h' \<longleftrightarrow> (\<forall>q. \<exists>v. h' q = (h q)\<lparr>p_AncInOv := v\<rparr>) \<and> (\<forall>q. q \<notin> D \<longrightarrow> h' q = h q)"

lemma anc_only_frame:
  assumes "anc_only D h h'"
  shows "is_child h' = is_child h" "p_Override (h' q) = p_Override (h q)" "tree_ok h' rank = tree_ok h rank"
    and "q \<notin> D \<Longrightarrow> h' q = h q"
proof -
  have "m_Children (h' q) = m_Children (h q) \<and> p_Override (h' q) = p_Override (h q)" for q
  proof -
    obtain v where "h' q = (h q)\<lparr>p_AncInOv := v\<rparr>" using assms unfolding anc_only_def by blast
    then show ?thesis by simp
  qed
  then show "is_child h' = is_child h" "p_Override (h' q) = p_Override (h q)" "tree_ok h' rank = tree_ok h rank"
    by (simp_all add: is_child_def tree_ok_def fun_eq_iff)
  show "q \<notin> D \<Longrightarrow> h' q = h q" using assms by (simp add: anc_only_def)
qed


lemma anc_only_trans: "anc_only D h h1 \<Longrightarrow> anc_only E h1 h2 \<Longrightarrow> D \<union> E \<subseteq> F \<Longrightarrow> anc_only F h h2"
  unfolding anc_only_def
proof (intro conjI allI impI)
  fix q
  assume a: "(\<forall>q. \<exists>v. h1 q = (h q)\<lparr>p_AncInOv := v\<rparr>) \<and> (\<forall>q. q \<notin> D \<longrightarrow> h1 q = h q)"
    and b: "(\<forall>q. \<exists>v. h2 q = (h1 q)\<lparr>p_AncInOv := v\<rparr>) \<and> (\<forall>q. q \<notin> E \<longrightarrow> h2 q = h1 q)" and c: "D \<union> E \<subseteq> F"
  obtain v w where "h1 q = (h q)\<lparr>p_AncInOv := v\<rparr>" "h2 q = (h1 q)\<lparr>p_AncInOv := w\<rparr>" using a b by blast
  then show "\<exists>v. h2 q = (h q)\<lparr>p_AncInOv := v\<rparr>" by auto
  assume "q \<notin> F"
  then have "q \<notin> D" "q \<notin> E" using c by auto
  then show "h2 q = h q" using a b by auto
qed

lemma anc_only_upd: "anc_only {c} h (h(c := (h c)\<lparr>p_AncInOv := v\<rparr>))"
proof -
  have "h q = (h q)\<lparr>p_AncInOv := p_AncInOv (h q)\<rparr>" for q by simp
  then show ?thesis unfolding anc_only_def by (metis fun_upd_apply singletonI)
qed

text \<open>The rule of \<open>AncInOv\<close>: an object has an overridden ancestor when its parent is overridden or
  has one.\<close>

definition anc_rule :: "(ptr \<Rightarrow> monel) \<Rightarrow> ptr \<Rightarrow> bool" where
  "anc_rule h q \<longleftrightarrow> (\<forall>c. is_child h q c \<longrightarrow> p_AncInOv (h c) = (p_Override (h q) \<noteq> None \<or> p_AncInOv (h q)))"

lemma anc_rule_frame:
  assumes "anc_only D h h'" "anc_rule h q" "q \<notin> D" "\<And>c. is_child h q c \<Longrightarrow> c \<notin> D"
  shows "anc_rule h' q"
  using assms anc_only_frame [OF assms(1)] unfolding anc_rule_def by auto

lemma propDown_list_spec:
  assumes "\<And>c st. tree_ok (ms_heap st) rank \<Longrightarrow> rank c < fuel \<Longrightarrow>
      \<exists>st'. propDown fuel c st = Some st' \<and> anc_only {q. (is_child (ms_heap st))\<^sup>+\<^sup>+ c q} (ms_heap st) (ms_heap st')
        \<and> (\<forall>q. (is_child (ms_heap st))\<^sup>*\<^sup>* c q \<longrightarrow> anc_rule (ms_heap st') q) \<and> st' = st\<lparr>ms_heap := ms_heap st'\<rparr>"
  shows "tree_ok (ms_heap st) rank \<Longrightarrow> \<forall>c \<in> set cs. is_child (ms_heap st) p c \<and> rank c < fuel \<Longrightarrow> distinct cs \<Longrightarrow>
    \<exists>st'. propDown_list fuel v cs st = Some st'
      \<and> anc_only {q. \<exists>c \<in> set cs. (is_child (ms_heap st))\<^sup>*\<^sup>* c q} (ms_heap st) (ms_heap st')
      \<and> (\<forall>c \<in> set cs. p_AncInOv (ms_heap st' c) = v)
      \<and> (\<forall>c \<in> set cs. \<forall>q. (is_child (ms_heap st))\<^sup>*\<^sup>* c q \<longrightarrow> anc_rule (ms_heap st') q) \<and> st' = st\<lparr>ms_heap := ms_heap st'\<rparr>"
proof (induction cs arbitrary: st)
  case Nil
  have "anc_only {} (ms_heap st) (ms_heap st)"
    unfolding anc_only_def by (metis monel_p.surjective monel_p.update_convs(7) monel.surjective)
  then show ?case by simp
next
  case (Cons c cs)
  let ?h = "ms_heap st"
  define st1 where "st1 = upd_m c (\<lambda>m. m\<lparr>p_AncInOv := v\<rparr>) st"
  have a1: "anc_only {c} ?h (ms_heap st1)" unfolding st1_def by (simp add: anc_only_upd)
  note f1 = anc_only_frame [OF a1]
  have t1: "tree_ok (ms_heap st1) rank" using Cons.prems(1) f1(3) by simp
  obtain st2 where p2: "propDown fuel c st1 = Some st2"
    and a2: "anc_only {q. (is_child ?h)\<^sup>+\<^sup>+ c q} (ms_heap st1) (ms_heap st2)"
    and r2: "\<And>q. (is_child ?h)\<^sup>*\<^sup>* c q \<Longrightarrow> anc_rule (ms_heap st2) q" and s2: "st2 = st1\<lparr>ms_heap := ms_heap st2\<rparr>"
    using assms [OF t1, of c] Cons.prems(2) f1(1) by auto
  note f2 = anc_only_frame [OF a2]
  have t2: "tree_ok (ms_heap st2) rank" and i2: "is_child (ms_heap st2) = is_child ?h"
    using t1 f2(1,3) f1(1) by auto
  obtain st3 where p3: "propDown_list fuel v cs st2 = Some st3"
    and a3: "anc_only {q. \<exists>c \<in> set cs. (is_child ?h)\<^sup>*\<^sup>* c q} (ms_heap st2) (ms_heap st3)"
    and v3: "\<And>d. d \<in> set cs \<Longrightarrow> p_AncInOv (ms_heap st3 d) = v"
    and r3: "\<And>d q. d \<in> set cs \<Longrightarrow> (is_child ?h)\<^sup>*\<^sup>* d q \<Longrightarrow> anc_rule (ms_heap st3) q"
    and s3: "st3 = st2\<lparr>ms_heap := ms_heap st3\<rparr>"
    using Cons.IH [OF t2] Cons.prems(2,3) i2 by auto
  have away: "q \<notin> {q. \<exists>c \<in> set cs. (is_child ?h)\<^sup>*\<^sup>* c q}" if "(is_child ?h)\<^sup>*\<^sup>* c q" for q
    using that siblings_disjoint [OF Cons.prems(1)] Cons.prems(2,3) by fastforce
  have "\<not> (is_child ?h)\<^sup>+\<^sup>+ c c"
    using desc_rank [OF _ Cons.prems(1)] tree_okD(2) [OF Cons.prems(1)] by (metis leD tranclpD)
  then have vc: "p_AncInOv (ms_heap st3 c) = v"
    using anc_only_frame(4) [OF a3 away [of c]] anc_only_frame(4) [OF a2, of c] by (simp add: st1_def)
  have rc: "anc_rule (ms_heap st3) q" if "(is_child ?h)\<^sup>*\<^sup>* c q" for q
  proof (rule anc_rule_frame [OF a3 r2 [OF that] away [OF that]])
    show "d \<notin> {q. \<exists>c \<in> set cs. (is_child ?h)\<^sup>*\<^sup>* c q}" if "is_child (ms_heap st2) q d" for d
      using that \<open>(is_child ?h)\<^sup>*\<^sup>* c q\<close> away i2 by (metis rtranclp.rtrancl_into_rtrancl)
  qed
  have "anc_only {q. \<exists>d \<in> set (c # cs). (is_child ?h)\<^sup>*\<^sup>* d q} ?h (ms_heap st3)"
    by (rule anc_only_trans [OF anc_only_trans [OF a1 a2 subset_refl] a3]) (auto dest: tranclp_into_rtranclp)
  moreover have "st3 = st\<lparr>ms_heap := ms_heap st3\<rparr>"
    by (subst s3, subst s2) (simp add: st1_def upd_m_def)
  moreover have "c \<noteq> 0" using Cons.prems(1,2) tree_okD(1) by auto
  then have "propDown_list fuel v (c # cs) st = Some st3" by (simp add: st1_def [symmetric] p2 p3)
  ultimately show ?case using vc v3 rc r3 by auto
qed

lemma propDown_spec:
  "tree_ok (ms_heap st) rank \<Longrightarrow> rank p < fuel \<Longrightarrow>
   \<exists>st'. propDown fuel p st = Some st' \<and> anc_only {q. (is_child (ms_heap st))\<^sup>+\<^sup>+ p q} (ms_heap st) (ms_heap st')
     \<and> (\<forall>q. (is_child (ms_heap st))\<^sup>*\<^sup>* p q \<longrightarrow> anc_rule (ms_heap st') q) \<and> st' = st\<lparr>ms_heap := ms_heap st'\<rparr>"
proof (induction fuel arbitrary: p st)
  case (Suc fuel)
  let ?h = "ms_heap st" and ?v = "p_Override (ms_heap st p) \<noteq> None \<or> p_AncInOv (ms_heap st p)"
  let ?D = "{q. \<exists>c \<in> set (m_Children (?h p)). (is_child ?h)\<^sup>*\<^sup>* c q}"
  have ch: "is_child ?h p c \<and> rank c < fuel" if "c \<in> set (m_Children (?h p))" for c
    using that Suc.prems tree_okD(2) [OF Suc.prems(1), of p c] by (auto simp: is_child_def)
  obtain st' where p: "propDown_list fuel ?v (m_Children (?h p)) st = Some st'" and a: "anc_only ?D ?h (ms_heap st')"
    and v: "\<And>c. c \<in> set (m_Children (?h p)) \<Longrightarrow> p_AncInOv (ms_heap st' c) = ?v"
    and r: "\<And>c q. c \<in> set (m_Children (?h p)) \<Longrightarrow> (is_child ?h)\<^sup>*\<^sup>* c q \<Longrightarrow> anc_rule (ms_heap st') q"
    and s: "st' = st\<lparr>ms_heap := ms_heap st'\<rparr>"
    using propDown_list_spec [OF Suc.IH Suc.prems(1), of "m_Children (?h p)" p ?v] ch tree_okD(4) [OF Suc.prems(1)] by blast
  have D: "{q. (is_child ?h)\<^sup>+\<^sup>+ p q} = ?D"
  proof -
    have "(is_child ?h)\<^sup>+\<^sup>+ p q \<longleftrightarrow> (\<exists>c \<in> set (m_Children (?h p)). (is_child ?h)\<^sup>*\<^sup>* c q)" for q
      using tranclpD [of "is_child ?h" p q] rtranclp_into_tranclp2 [of "is_child ?h" p _ q]
      by (auto simp: is_child_def)
    then show ?thesis by simp
  qed
  have "p \<notin> ?D"
    using desc_rank [OF _ Suc.prems(1)] tree_okD(2) [OF Suc.prems(1), of p] by (fastforce simp: is_child_def)
  then have "anc_rule (ms_heap st') p"
    using v anc_only_frame [OF a] by (auto simp: anc_rule_def is_child_def)
  moreover have "anc_rule (ms_heap st') q" if "(is_child ?h)\<^sup>*\<^sup>* p q" "q \<noteq> p" for q
    using that(1)
  proof (cases rule: converse_rtranclpE)
    case (step c)
    then show ?thesis using r by (simp add: is_child_def)
  qed (use that(2) in simp)
  ultimately show ?case
    using p a s D by (simp add: Let_def) blast
qed simp

end
