(* ===== verification/MonelSilence.thy ===== *)
theory MonelSilence
  imports MonelLemmas
begin

text \<open>
  An override silences everything below the overridden object: it reaches every descendant,
  and an object with an overridden ancestor creates no notification whatever its status does.
\<close>

section \<open>What an update leaves alone\<close>

text \<open>The part of an object that updates never change.\<close>

definition settings :: "monel \<Rightarrow> bool \<times> override option \<times> ptr list \<times> notify_conf option \<times> monel_conf" where
  "settings m = (p_AncInOv m, p_Override m, m_Children m, m_NotifyCf m, m_Cf m)"

definition stable :: "monel_state \<Rightarrow> monel_state \<Rightarrow> bool" where
  "stable st st' \<longleftrightarrow> (\<forall>q. settings (ms_heap st' q) = settings (ms_heap st q))"

lemma stable_refl [simp]: "stable st st"
  by (simp add: stable_def)

lemma stable_trans [trans]: "stable a b \<Longrightarrow> stable b c \<Longrightarrow> stable a c"
  by (simp add: stable_def)

lemma stable_upd: "(\<And>m. settings (f m) = settings m) \<Longrightarrow> stable st (upd_m p f st)"
  by (simp add: stable_def)

lemma stable_heap: "ms_heap st' = ms_heap st \<Longrightarrow> stable st st'"
  by (simp add: stable_def)

text \<open>Moreover no notification is created and none is attached to an object.\<close>

definition silent :: "monel_state \<Rightarrow> monel_state \<Rightarrow> bool" where
  "silent st st' \<longleftrightarrow> ns_next (ms_notify st') = ns_next (ms_notify st)
     \<and> (\<forall>q. m_Notifies (ms_heap st' q) = m_Notifies (ms_heap st q)) \<and> stable st st'"

lemma silent_refl [simp]: "silent st st"
  by (simp add: silent_def)

lemma silent_trans [trans]: "silent a b \<Longrightarrow> silent b c \<Longrightarrow> silent a c"
  by (auto simp: silent_def intro: stable_trans)

lemma silent_upd:
  "(\<And>m. settings (f m) = settings m \<and> m_Notifies (f m) = m_Notifies m) \<Longrightarrow> silent st (upd_m p f st)"
  by (simp add: silent_def stable_upd)

lemma silent_same: "ms_heap st' = ms_heap st \<Longrightarrow> ms_notify st' = ms_notify st \<Longrightarrow> silent st st'"
  by (simp add: silent_def stable_heap)

lemma silent_stable: "silent st st' \<Longrightarrow> stable st st'"
  by (simp add: silent_def)

lemma silent_go [simp]: "silent st (go_task t st)"
  by (simp add: silent_same)

lemmas silence = silent_upd silent_same settings_def

lemma aliasLookup_silent: "silent st (snd (aliasLookup p st))"
proof -
  have "silent st (upd_m p (\<lambda>m. m\<lparr>m_Me := AliasM a b c\<rparr>) (AddParent t q st))" for a b c t q
    by (rule silent_trans [of _ "AddParent t q st"]) (simp_all add: AddParent_def silence)
  then show ?thesis
    by (simp add: aliasLookup_def silence split: moneler.splits option.splits)
qed

lemma me_Children_silent: "silent st (snd (me_Children p st))"
  using aliasLookup_silent [of st p] by (auto simp: me_Children_def split: moneler.splits option.splits prod.splits)

lemma determineAggrStatus_silent: "determineAggrStatus p st = Some st' \<Longrightarrow> silent st st'"
proof -
  assume a: "determineAggrStatus p st = Some st'"
  have "silent (snd (me_Children p st)) (upd_m p f (snd (me_Children p st)))"
    if "\<And>m. settings (f m) = settings m \<and> m_Notifies (f m) = m_Notifies m" for f
    using that by (rule silent_upd)
  then have "silent (snd (me_Children p st)) st'"
    using a by (auto simp: determineAggrStatus_def Let_def settings_def split: prod.splits if_splits bind_splits)
  with me_Children_silent show ?thesis by (rule silent_trans)
qed

lemma depends_loop_silent: "silent st (depends_loop p names st)"
  by (induction p names st rule: depends_loop.induct) (simp_all add: Let_def silence split: option.splits)

lemma determineStatus_silent: "determineStatus p st = Some (b, st') \<Longrightarrow> silent st st'"
proof -
  assume a: "determineStatus p st = Some (b, st')"
  then obtain st1 where 1: "determineAggrStatus p st = Some st1" "st' = checkOverride p (checkDepends p st1)"
    by (auto simp: determineStatus_def Let_def split: bind_splits)
  have "silent (checkDepends p st1) st'" by (simp add: 1(2) checkOverride_def Let_def silence)
  moreover have "silent st1 (checkDepends p st1)" by (simp add: checkDepends_def depends_loop_silent)
  ultimately show ?thesis using determineAggrStatus_silent [OF 1(1)] by (blast intro: silent_trans)
qed

lemma determineSummary_silent: "determineSummary p st = Some st' \<Longrightarrow> silent st st'"
proof -
  assume a: "determineSummary p st = Some st'"
  then obtain s where "st' = upd_m p (\<lambda>m. m\<lparr>p_OvStatusSummary := s\<rparr>) (snd (me_Children p st))"
    by (auto simp: determineSummary_def Let_def split: prod.splits bind_splits)
  then have "silent (snd (me_Children p st)) st'" by (simp add: silence)
  with me_Children_silent show ?thesis by (rule silent_trans)
qed

lemma statsTransition_silent: "statsTransition env p st = Some st' \<Longrightarrow> silent st st'"
  by (auto simp: statsTransition_def split: bind_splits) (auto intro!: silent_upd simp: settings_def)

lemma setAlarm_silent: "silent st (upd_m p (setAlarm env) st)"
  by (rule silent_upd) (simp add: settings_def setAlarm_def Let_def)

lemma updateNotifies_silent: "silent st (updateNotifies p st)"
proof -
  have "ns_next (foldl (\<lambda>ns n. note_Update n s ns) ns ps) = ns_next ns" for s ns ps
    by (induction ps arbitrary: ns) simp_all
  then show ?thesis by (simp add: updateNotifies_def silent_def stable_heap)
qed

lemma andUpwards_silent: "andUpwards p st = Some st' \<Longrightarrow> silent st st'"
  by (auto simp: andUpwards_def)

lemma maybeNotify_stable: "maybeNotify env p prev st = Some st' \<Longrightarrow> stable st st'"
  by (auto simp: maybeNotify_def Let_def split: option.splits if_splits bind_splits prod.splits)
    (auto simp: stable_def settings_def)

lemma maybeNotify_silent:
  "p_AncInOv (ms_heap st p) \<Longrightarrow> maybeNotify env p prev st = Some st' \<Longrightarrow> silent st st'"
  by (auto simp: maybeNotify_def worth_notifying_def Let_def split: option.splits)


section \<open>Updates\<close>

lemma commonUpdate_stable: "commonUpdate env p prev st = Some st' \<Longrightarrow> stable st st'"
  and commonUpdate_silent: "commonUpdate env p prev st = Some st' \<Longrightarrow> p_AncInOv (ms_heap st p) \<Longrightarrow> silent st st'"
proof -
  assume a: "commonUpdate env p prev st = Some st'"
  let ?st1 = "go_task (UpdateIsDown p (p_OvStatus (setAlarm env (ms_heap st p\<lparr>m_WebTime := ev_nano env\<rparr>))))
    (upd_m p (\<lambda>m. setAlarm env (m\<lparr>m_WebTime := ev_nano env\<rparr>)) st)"
  let ?st2 = "upd_m p (\<lambda>m. loggitL (ev_nano env) ''TRANSITION'' (p_Reason m) m) ?st1"
  have 1: "silent st ?st1"
    by (rule silent_trans [OF silent_upd silent_go]) (simp add: settings_def setAlarm_def Let_def)
  have 2: "silent ?st1 ?st2"
    by (rule silent_upd) (simp add: settings_def loggitL_def appendToLog_def Let_def)
  obtain st3 st4 st5 where st3: "statsTransition env p ?st2 = Some st3" and st4: "determineSummary p st3 = Some st4"
    and st5: "maybeNotify env p prev (updateNotifies p st4) = Some st5" and st': "andUpwards p st5 = Some st'"
    using a by (auto simp: commonUpdate_def Let_def split: bind_splits)
  have 4: "silent st (updateNotifies p st4)"
    using 1 2 statsTransition_silent [OF st3] determineSummary_silent [OF st4] updateNotifies_silent
    by (blast intro: silent_trans)
  show "stable st st'"
    using silent_stable [OF 4] maybeNotify_stable [OF st5] silent_stable [OF andUpwards_silent [OF st']]
    by (blast intro: stable_trans)
  assume "p_AncInOv (ms_heap st p)"
  then have "p_AncInOv (ms_heap (updateNotifies p st4) p)"
    using silent_stable [OF 4] by (simp add: stable_def settings_def)
  then show "silent st st'"
    using 4 maybeNotify_silent [OF _ st5] andUpwards_silent [OF st'] by (blast intro: silent_trans)
qed

lemma commonUpdateNoChange_silent: "commonUpdateNoChange env p st = Some st' \<Longrightarrow> silent st st'"
proof -
  assume a: "commonUpdateNoChange env p st = Some st'"
  let ?st1 = "upd_m p (\<lambda>m. m\<lparr>m_WebTime := ev_nano env\<rparr>) st"
  obtain st2 st3 where st2: "statsTransition env p ?st1 = Some st2" and st3: "determineSummary p st2 = Some st3"
    and st': "andUpwards p (go_task (UpdateIsDown p (p_OvStatus (ms_heap (upd_m p (setAlarm env) st3) p))) (upd_m p (setAlarm env) st3)) = Some st'"
    using a by (auto simp: commonUpdateNoChange_def Let_def split: bind_splits)
  have "silent st ?st1" by (simp add: silence)
  then show ?thesis
    using statsTransition_silent [OF st2] determineSummary_silent [OF st3] setAlarm_silent [of st3 p env] silent_go andUpwards_silent [OF st']
    by (blast intro: silent_trans)
qed

lemma updateStatus_silent: "updateStatus p s r reason st = Some (b, st') \<Longrightarrow> silent st st'"
proof -
  have "silent st (upd_m p (\<lambda>m. m\<lparr>p_Result := r\<rparr>) st)"
    "silent (upd_m p (\<lambda>m. m\<lparr>p_Result := r\<rparr>) st)
       (upd_m p (\<lambda>m. m\<lparr>p_Status := s, p_Reason := reason\<rparr>) (upd_m p (\<lambda>m. m\<lparr>p_Result := r\<rparr>) st))"
    by (simp_all add: silence)
  then show "updateStatus p s r reason st = Some (b, st') \<Longrightarrow> ?thesis"
    by (auto simp: updateStatus_def Let_def split: if_splits dest!: determineStatus_silent intro: silent_trans)
qed

lemma monel_Update_silent:
  assumes "monel_Update env p s r reason st = Some st'" "p_AncInOv (ms_heap st p)"
  shows "silent st st'"
proof -
  obtain b st1 where 1: "updateStatus p s r reason st = Some (b, st1)"
    "(if b then commonUpdate env p (p_OvStatus (ms_heap st p)) st1 else Some st1) = Some st'"
    using assms(1) by (auto simp: monel_Update_def Let_def split: bind_splits)
  note s1 = updateStatus_silent [OF 1(1)]
  have "p_AncInOv (ms_heap st1 p)" using s1 assms(2) by (simp add: silent_def stable_def settings_def)
  then have "silent st1 st'" using 1(2) commonUpdate_silent by (auto split: if_splits)
  with s1 show ?thesis by (rule silent_trans)
qed

lemma ReUpdate_stable: "ReUpdate env p reason st = Some st' \<Longrightarrow> stable st st'"
proof -
  assume a: "ReUpdate env p reason st = Some st'"
  let ?re = "\<lambda>st. if reason \<noteq> [] then upd_m p (\<lambda>m. m\<lparr>p_Reason := reason\<rparr>) st else st"
  obtain b st1 where 1: "determineStatus p st = Some (b, st1)"
    "(if \<not> b then commonUpdateNoChange env p st1 else commonUpdate env p (p_OvStatus (ms_heap st p)) (?re st1)) = Some st'"
    using a by (auto simp: ReUpdate_def Let_def split: bind_splits if_splits)
  have "stable st1 (?re st1)" by (simp add: silent_stable silence)
  then have "stable st1 st'"
    using 1(2) commonUpdateNoChange_silent [of env p st1 st'] commonUpdate_stable [of env p _ "?re st1" st']
    by (auto split: if_splits dest: silent_stable intro: stable_trans)
  with silent_stable [OF determineStatus_silent [OF 1(1)]] show ?thesis by (rule stable_trans)
qed

lemma stable_tree:
  assumes "stable st st'"
  shows "is_child (ms_heap st') = is_child (ms_heap st)" "p_AncInOv (ms_heap st' q) = p_AncInOv (ms_heap st q)"
    and "p_Override (ms_heap st' q) = p_Override (ms_heap st q)" "anc_rule (ms_heap st') q = anc_rule (ms_heap st) q"
  using assms by (auto simp: stable_def settings_def is_child_def anc_rule_def fun_eq_iff)

section \<open>Overrides\<close>

lemma overridden_below:
  assumes "(is_child h)\<^sup>+\<^sup>+ p q" "\<And>x. (is_child h)\<^sup>*\<^sup>* p x \<Longrightarrow> anc_rule h x" "p_Override (h p) \<noteq> None"
  shows "p_AncInOv (h q)"
  using assms(1)
proof (induction rule: tranclp_induct)
  case (base c)
  then show ?case using assms(2) [of p] assms(3) by (auto simp: anc_rule_def)
next
  case (step y z)
  then show ?case using assms(2) [of y] by (auto simp: anc_rule_def dest: tranclp_into_rtranclp)
qed

lemma SetOverride_steps:
  assumes "SetOverride env p ov st = Some st'" "tree_ok (ms_heap st) rank" "rank p < ms_next st"
  shows "is_child (ms_heap st') = is_child (ms_heap st) \<and> p_Override (ms_heap st' p) = Some ov
    \<and> (\<forall>q. (is_child (ms_heap st))\<^sup>*\<^sup>* p q \<longrightarrow> anc_rule (ms_heap st') q)"
proof -
  define st1 where "st1 = (let st = (if ov_Text ov \<noteq> [] then monel_Loggit env ''OVERRIDE'' (ov_Text ov) p st else st);
     st = (if ov_User ov \<noteq> [] then monel_Loggit env ''OVERRIDE'' (''enabled by '' @ ov_User ov) p st else st);
     st = upd_m p (\<lambda>m. m\<lparr>p_Override := Some ov, m_WebTime := ev_nano env\<rparr>) st
     in st\<lparr>ms_inoverride := (ms_inoverride st)(Unique st p \<mapsto> p)\<rparr>)"
  have 1: "is_child (ms_heap st1) = is_child (ms_heap st)" "ms_next st1 = ms_next st" "p_Override (ms_heap st1 p) = Some ov"
    "\<And>q. m_Children (ms_heap st1 q) = m_Children (ms_heap st q)"
    by (simp_all add: st1_def Let_def monel_Loggit_def loggitL_def appendToLog_def is_child_def fun_eq_iff)
  then have "tree_ok (ms_heap st1) rank" using assms(2) by (simp add: tree_ok_def)
  then obtain st2 where 2: "ovPropDown p st1 = Some st2" and a: "anc_only {q. (is_child (ms_heap st1))\<^sup>+\<^sup>+ p q} (ms_heap st1) (ms_heap st2)"
    and r: "\<And>q. (is_child (ms_heap st1))\<^sup>*\<^sup>* p q \<Longrightarrow> anc_rule (ms_heap st2) q"
    using propDown_spec [of st1 rank p "ms_next st1"] assms(3) 1(2) by (auto simp: ovPropDown_def)
  obtain st3 where 3: "ReUpdate env p ''override'' st2 = Some st3" "st' = setOverrideExpire p st3"
    using assms(1) 2 by (auto simp: SetOverride_def st1_def Let_def split: bind_splits)
  have "stable st3 st'" by (simp add: 3(2) setOverrideExpire_def Let_def stable_heap)
  then have s: "stable st2 st'" using ReUpdate_stable [OF 3(1)] by (blast intro: stable_trans)
  then show ?thesis
    using stable_tree [OF s] anc_only_frame(1,2) [OF a] 1 r by simp
qed

text \<open>C2: an override silences everything below it. In a tree of objects, once an override is set
  on an object every descendant knows it (at every depth, and not only the direct children), and
  whatever a descendant's status becomes after that, and whatever its settings permit, its update
  creates no notification and attaches none to any object.\<close>

theorem override_silences:
  assumes "SetOverride env p ov st = Some st'" "tree_ok (ms_heap st) rank" "rank p < ms_next st"
    and "(is_child (ms_heap st))\<^sup>+\<^sup>+ p q" "monel_Update env' q s result reason st' = Some st''"
  shows "p_AncInOv (ms_heap st' q) \<and> ns_next (ms_notify st'') = ns_next (ms_notify st')
    \<and> (\<forall>x. m_Notifies (ms_heap st'' x) = m_Notifies (ms_heap st' x))"
proof -
  note t = SetOverride_steps [OF assms(1-3)]
  have "p_AncInOv (ms_heap st' q)" by (rule overridden_below [of _ p]) (use t assms(4) in auto)
  with monel_Update_silent [OF assms(5)] show ?thesis by (simp add: silent_def)
qed

end
