(* ===== verification/MonelSafety.thy ===== *)
theory MonelSafety
  imports MonelSilence
begin

text \<open>
  No run of the monitored objects panics: from a well-formed state, any sequence of status
  reports, overrides, expirations, statistics updates and goroutine steps, in any order,
  goes through and leaves the state well-formed.
\<close>

section \<open>Well-formed objects\<close>

text \<open>The current period exists, at most 14 are kept, and each accounts for all its seconds.\<close>

definition period_ok :: "statdat list \<Rightarrow> bool" where
  "period_ok xs \<longleftrightarrow> xs \<noteq> [] \<and> length xs \<le> MAXSTAT \<and> list_all (\<lambda>x. sx_Elapsed x = sx_TUp x + sx_TDn x) xs"

definition stats_ok :: "stats \<Rightarrow> bool" where
  "stats_ok s \<longleftrightarrow> period_ok (ss_Daily s) \<and> period_ok (ss_Monthly s) \<and> period_ok (ss_Yearly s)"

definition status_ok :: "status \<Rightarrow> bool" where
  "status_ok s \<longleftrightarrow> 0 \<le> s \<and> s \<le> MAXSTATUS"

definition moneler_ok :: "moneler \<Rightarrow> bool" where
  "moneler_ok me = (case me of AliasM _ _ obj \<Rightarrow> obj \<noteq> Some 0 | _ \<Rightarrow> True)"

definition notifycf_ok :: "notify_conf option \<Rightarrow> bool" where
  "notifycf_ok c = (case c of None \<Rightarrow> True | Some ncf \<Rightarrow> length (nc_Notify ncf) = 6 \<and> length (nc_Escalate ncf) = 6)"

definition obj_ok :: "monel \<Rightarrow> bool" where
  "obj_ok m \<longleftrightarrow> status_ok (p_Status m) \<and> status_ok (p_OvStatus m) \<and> stats_ok (p_Stats m) \<and> length (p_Log m) \<le> MAXLOG
     \<and> length (p_OvStatusSummary m) = 8 \<and> 0 \<notin> set (m_Children m) \<and> 0 \<notin> set (m_Parent m)
     \<and> moneler_ok (m_Me m) \<and> notifycf_ok (m_NotifyCf m)"

definition task_ok :: "task \<Rightarrow> bool" where
  "task_ok t = (case t of UpUpdates us _ \<Rightarrow> 0 \<notin> set us | _ \<Rightarrow> True)"

definition wf_state :: "monel_state \<Rightarrow> bool" where
  "wf_state st \<longleftrightarrow> (\<forall>q. q \<noteq> 0 \<longrightarrow> obj_ok (ms_heap st q)) \<and> (\<forall>n. ms_byname st n \<noteq> Some 0)
     \<and> list_all task_ok (ms_go st) \<and> (\<exists>rank. tree_ok (ms_heap st) rank \<and> (\<forall>q. rank q < ms_next st))"

lemma wfD:
  assumes "wf_state st"
  shows "q \<noteq> 0 \<Longrightarrow> obj_ok (ms_heap st q)" "Find st n = Some q \<Longrightarrow> q \<noteq> 0" "list_all task_ok (ms_go st)"
    and "\<exists>rank. tree_ok (ms_heap st) rank \<and> (\<forall>q. rank q < ms_next st)"
  using assms by (auto simp: wf_state_def Find_def) (metis gr0I)

lemma wf_upd:
  assumes "wf_state st" "q \<noteq> 0 \<Longrightarrow> obj_ok (ms_heap st q) \<Longrightarrow> obj_ok (f (ms_heap st q))"
    and "m_Children (f (ms_heap st q)) = m_Children (ms_heap st q)"
  shows "wf_state (upd_m q f st)"
proof -
  have "m_Children (ms_heap (upd_m q f st) x) = m_Children (ms_heap st x)" for x using assms(3) by simp
  then have "tree_ok (ms_heap (upd_m q f st)) rank = tree_ok (ms_heap st) rank" for rank
    by (simp add: tree_ok_def is_child_def)
  then show ?thesis using assms by (auto simp: wf_state_def)
qed

lemma wf_same:
  assumes "wf_state st" "ms_heap st' = ms_heap st" "ms_byname st' = ms_byname st" "ms_next st' = ms_next st"
    "list_all task_ok (ms_go st')"
  shows "wf_state st'"
  using assms by (simp add: wf_state_def)

lemma wf_go: "wf_state st \<Longrightarrow> task_ok t \<Longrightarrow> wf_state (go_task t st)"
  by (auto simp: wf_state_def go_task_def)

section \<open>Status and statistics\<close>

lemma count_children_total:
  "0 \<notin> set cs \<Longrightarrow> \<forall>c \<in> set cs. status_ok (p_Status (ms_heap st c)) \<and> status_ok (p_OvStatus (ms_heap st c))
    \<Longrightarrow> length a = 8 \<Longrightarrow> length b = 8 \<Longrightarrow> \<exists>x y. count_children st cs a b = Some (x, y) \<and> length x = 8 \<and> length y = 8"
proof (induction cs arbitrary: a b)
  case (Cons c cs)
  then show ?case by (auto simp: count_at_def elem_at_def status_ok_def nat_less_iff)
qed simp

lemma vote_scan_in: "vote_scan a half cum sevs = Some r \<Longrightarrow> r \<in> set sevs"
  by (induction sevs arbitrary: cum) (auto simp: Let_def split: if_splits)

lemma find_in: "find P xs = Some r \<Longrightarrow> r \<in> set xs"
  by (metis find_Some_iff nth_mem)

lemma calcAggr_range: "1 \<le> worst \<Longrightarrow> 0 \<le> calcAggrStatus g n worst a \<and> calcAggrStatus g n worst a \<le> worst"
  by (auto simp: calcAggrStatus_def Let_def dest!: vote_scan_in find_in split: option.splits)

lemma aliasLookup_wf:
  assumes "wf_state st" "p \<noteq> 0"
  shows "wf_state (snd (aliasLookup p st)) \<and> fst (aliasLookup p st) \<noteq> Some 0"
proof -
  have "moneler_ok (m_Me (ms_heap st p))" using wfD(1) [OF assms] by (simp add: obj_ok_def)
  moreover have "wf_state (upd_m p (\<lambda>m. m\<lparr>m_Me := AliasM a b (Some t)\<rparr>) (AddParent t p st))" if "Find st b = Some t" for a b t
  proof -
    have "wf_state (AddParent t p st)"
      unfolding AddParent_def by (rule wf_upd [OF assms(1)]) (use assms(2) in \<open>auto simp: obj_ok_def\<close>)
    moreover have "t \<noteq> 0" using wfD(2) [OF assms(1) that] .
    ultimately show ?thesis by (auto intro!: wf_upd simp: obj_ok_def moneler_ok_def)
  qed
  moreover have "wf_state (st\<lparr>ms_conf := c\<rparr>)" for c using assms(1) by (auto intro: wf_same simp: wfD(3))
  ultimately show ?thesis
    using wfD(2) [OF assms(1)] assms(1) by (auto simp: aliasLookup_def moneler_ok_def split: moneler.splits option.splits)
qed

lemma me_Children_wf:
  assumes "wf_state st" "p \<noteq> 0" "me_Children p st = (cs, st')"
  shows "wf_state st'" "0 \<notin> set cs" "\<And>c. c \<in> set cs \<Longrightarrow> obj_ok (ms_heap st' c)"
proof -
  have *: "0 \<notin> set (m_Children (ms_heap s q))" if "wf_state s" "q \<noteq> 0" for s q
    using wfD(1) [OF that] by (simp add: obj_ok_def)
  show w: "wf_state st'"
    using assms aliasLookup_wf [OF assms(1,2)] by (auto simp: me_Children_def split: moneler.splits option.splits prod.splits)
  show z: "0 \<notin> set cs"
    using assms aliasLookup_wf [OF assms(1,2)] *
    by (auto simp: me_Children_def split: moneler.splits option.splits prod.splits if_splits)
  show "obj_ok (ms_heap st' c)" if "c \<in> set cs" for c using wfD(1) [OF w, of c] z that by (cases "c = 0") auto
qed

lemma determineAggrStatus_wf:
  assumes "wf_state st" "p \<noteq> 0"
  shows "\<exists>st'. determineAggrStatus p st = Some st' \<and> wf_state st'"
proof -
  obtain cs st1 where c: "me_Children p st = (cs, st1)" by force
  note w = me_Children_wf [OF assms c]
  have n: "length (replicate 8 (0 :: int)) = 8" by simp
  obtain x y where xy: "count_children st1 cs (replicate 8 0) (replicate 8 0) = Some (x, y)"
    using count_children_total [OF w(2) _ n n, of st1] w(3) by (auto simp: obj_ok_def)
  have r: "0 \<le> calcAggrStatus g n CRITICAL a" "calcAggrStatus g n CRITICAL a \<le> 5"
    "0 \<le> calcAggrStatus g n MAXSTATUS a" "calcAggrStatus g n MAXSTATUS a \<le> 7" for g n a
    using calcAggr_range [of 5] calcAggr_range [of 7] by auto
  have "wf_state (upd_m p f st1)" if "\<And>m. obj_ok m \<Longrightarrow> obj_ok (f m) \<and> m_Children (f m) = m_Children m" for f
    using that wfD(1) [OF w(1) assms(2)] by (auto intro!: wf_upd [OF w(1)])
  moreover have "calcAggrStatus g n CRITICAL a \<le> 7" for g n a using r(2) [of g n a] by simp
  ultimately show ?thesis
    using r by (auto simp: determineAggrStatus_def c xy Let_def obj_ok_def status_ok_def)
qed

lemma determineStatus_wf:
  assumes "wf_state st" "p \<noteq> 0"
  shows "\<exists>b st'. determineStatus p st = Some (b, st') \<and> wf_state st'"
proof -
  obtain st1 where st1: "determineAggrStatus p st = Some st1" "wf_state st1" using determineAggrStatus_wf [OF assms] by blast
  have "wf_state (depends_loop p names s)" if "wf_state s" for names s
    using that
    by (induction p names s rule: depends_loop.induct)
      (auto simp: Let_def obj_ok_def status_ok_def intro!: wf_upd split: option.splits)
  then have "wf_state (checkDepends p st1)" using st1(2) by (simp add: checkDepends_def)
  then have "wf_state (checkOverride p (checkDepends p st1))"
    by (auto simp: checkOverride_def Let_def obj_ok_def status_ok_def intro!: wf_upd)
  then show ?thesis by (simp add: determineStatus_def st1 Let_def)
qed

lemma sum_children_total:
  "0 \<notin> set cs \<Longrightarrow> length a = 8 \<Longrightarrow> \<exists>x. sum_children st cs a = Some x \<and> length x = 8"
  by (induction cs arbitrary: a) auto

lemma determineSummary_wf:
  assumes "wf_state st" "p \<noteq> 0"
  shows "\<exists>st'. determineSummary p st = Some st' \<and> wf_state st'"
proof -
  obtain cs st1 where c: "me_Children p st = (cs, st1)" by force
  note w = me_Children_wf [OF assms c]
  obtain x where x: "sum_children st1 cs (replicate 8 0) = Some x" "length x = 8"
    using sum_children_total [OF w(2), of "replicate 8 0" st1] by auto
  have "elem_at (replicate 8 (0 :: int)) (p_OvStatus (ms_heap st1 p)) \<noteq> None"
    using wfD(1) [OF w(1) assms(2)] by (auto simp: obj_ok_def status_ok_def elem_at_def nat_less_iff)
  then have "\<exists>s. (if cs = [] \<or> mc_Countstop (m_Cf (ms_heap st1 p))
      then map_option (\<lambda>_. (replicate 8 0)[nat (p_OvStatus (ms_heap st1 p)) := 1])
             (elem_at (replicate 8 (0 :: int)) (p_OvStatus (ms_heap st1 p)))
      else if p_Override (ms_heap st1 p) \<noteq> None then Some ((replicate 8 0)[nat OVERRIDE := int (length (m_Children (ms_heap st1 p)))])
      else sum_children st1 cs (replicate 8 0)) = Some s \<and> length s = 8"
    using x by auto
  then obtain s where s: "length s = 8" "determineSummary p st = Some (upd_m p (\<lambda>m. m\<lparr>p_OvStatusSummary := s\<rparr>) st1)"
    by (auto simp: determineSummary_def c Let_def)
  have "wf_state (upd_m p (\<lambda>m. m\<lparr>p_OvStatusSummary := s\<rparr>) st1)"
    by (rule wf_upd [OF w(1)]) (simp_all add: obj_ok_def s(1))
  with s(2) show ?thesis by blast
qed


text \<open>The statistics: adding the time since the last update keeps every second accounted for.\<close>

lemma stat_hd_ok:
  assumes "period_ok xs" "\<And>x. sx_Elapsed x = sx_TUp x + sx_TDn x \<Longrightarrow> sx_Elapsed (f x) = sx_TUp (f x) + sx_TDn (f x)"
  shows "\<exists>ys. stat_hd f xs = Some ys \<and> period_ok ys"
  using assms by (cases xs) (auto simp: stat_hd_def period_ok_def)

lemma on_periods_ok:
  assumes "stats_ok s" "\<And>x. sx_Elapsed x = sx_TUp x + sx_TDn x \<Longrightarrow> sx_Elapsed (f x) = sx_TUp (f x) + sx_TDn (f x)"
  shows "\<exists>s'. on_periods f s = Some s' \<and> stats_ok s'"
proof -
  note h = stat_hd_ok [of _ f, OF _ assms(2)]
  from assms(1) have "period_ok (ss_Daily s)" "period_ok (ss_Monthly s)" "period_ok (ss_Yearly s)" by (simp_all add: stats_ok_def)
  from this [THEN h] show ?thesis by (auto simp: on_periods_def stats_ok_def)
qed

lemma on_periods_comp: "do { s \<leftarrow> on_periods f s; on_periods g s } = on_periods (g \<circ> f) s"
  by (cases "ss_Daily s"; cases "ss_Monthly s"; cases "ss_Yearly s") (simp_all add: on_periods_def stat_hd_def)

lemma on_periods_frame: "on_periods f s = Some s' \<Longrightarrow> ss_Status s' = ss_Status s \<and> ss_Lastt s' = ss_Lastt s"
  by (auto simp: on_periods_def split: bind_splits)

lemma statsUpdate_ok:
  assumes "stats_ok s"
  shows "\<exists>s'. statsUpdate t s = Some s' \<and> stats_ok s' \<and> ss_Status s' = ss_Status s"
proof -
  let ?dt = "t - ss_Lastt s"
  let ?f = "\<lambda>x. x\<lparr>sx_Elapsed := sx_Elapsed x + ?dt\<rparr>"
  let ?g = "\<lambda>st x. if st = CLEAR \<or> st = UNKNOWN then x\<lparr>sx_TUp := sx_TUp x + ?dt\<rparr> else x\<lparr>sx_TDn := sx_TDn x + ?dt\<rparr>"
  have "sx_Elapsed ((?g (ss_Status s) \<circ> ?f) x) = sx_TUp ((?g (ss_Status s) \<circ> ?f) x) + sx_TDn ((?g (ss_Status s) \<circ> ?f) x)"
    if "sx_Elapsed x = sx_TUp x + sx_TDn x" for x using that by simp
  then obtain s' where s': "on_periods (?g (ss_Status s) \<circ> ?f) s = Some s'" "stats_ok s'"
    using on_periods_ok [OF assms] by blast
  then obtain s1 where s1: "on_periods ?f s = Some s1" "on_periods (?g (ss_Status s)) s1 = Some s'"
    by (auto simp: on_periods_comp [symmetric] split: bind_splits)
  note f = on_periods_frame [OF s1(1)] on_periods_frame [OF s1(2)]
  then have "statsUpdate t s = (if ?dt = 0 then Some s else Some (s'\<lparr>ss_Lastt := t\<rparr>))"
    using s1 by (simp add: statsUpdate_def Let_def)
  then show ?thesis using assms s'(2) f by (auto simp: stats_ok_def)
qed

lemma rollOverStat_ok: "list_all (\<lambda>x. sx_Elapsed x = sx_TUp x + sx_TDn x) xs \<Longrightarrow> period_ok (statsRollOverStat xs t)"
  by (auto simp: statsRollOverStat_def Let_def period_ok_def list_all_iff dest: in_set_takeD)

lemma rollOver_ok: "stats_ok s \<Longrightarrow> stats_ok (statsRollOver cd ld t s) \<and> ss_Status (statsRollOver cd ld t s) = ss_Status s"
  using rollOverStat_ok [of "ss_Daily s" t] rollOverStat_ok [of "ss_Monthly s" t] rollOverStat_ok [of "ss_Yearly s" t]
  by (auto simp: statsRollOver_def Let_def stats_ok_def period_ok_def split: prod.splits)

lemma statsUpdateMaybeRoll_ok:
  assumes "stats_ok s"
  shows "\<exists>b s'. statsUpdateMaybeRoll env s = Some (b, s') \<and> stats_ok s' \<and> ss_Status s' = ss_Status s"
proof -
  define m where "m = (let (cdate, (ch, cm, cs)) = ev_cal env (ev_unix env) in ev_unix env - ((ch * 60 + cm) * 60 + cs))"
  obtain s1 where s1: "statsUpdate m s = Some s1" "stats_ok s1" "ss_Status s1 = ss_Status s"
    using statsUpdate_ok [OF assms] by blast
  note r = rollOver_ok [OF s1(2), of "fst (ev_cal env (ev_unix env))" "fst (ev_cal env (ss_Lastt s))" m]
  obtain s2 where s2: "statsUpdate (ev_unix env) (statsRollOver (fst (ev_cal env (ev_unix env))) (fst (ev_cal env (ss_Lastt s))) m s1) = Some s2"
    "stats_ok s2" "ss_Status s2 = ss_Status s"
    using statsUpdate_ok r s1(3) by metis
  obtain s3 where s3: "statsUpdate (ev_unix env) s = Some s3" "stats_ok s3" "ss_Status s3 = ss_Status s"
    using statsUpdate_ok [OF assms] by blast
  show ?thesis
    using s1 s2 s3 by (auto simp: statsUpdateMaybeRoll_def Let_def m_def split: prod.splits if_splits)
qed

lemma count_down_ok: "stats_ok s \<Longrightarrow> \<exists>s'. count_down st s = Some s' \<and> stats_ok s'"
  using on_periods_ok [of s "\<lambda>x. x\<lparr>sx_Ndown := sx_Ndown x + 1\<rparr>"]
  by (auto simp: count_down_def) (auto simp: stats_ok_def)

lemma wf_stats:
  "wf_state st \<Longrightarrow> stats_ok s \<Longrightarrow> wf_state (upd_m p (\<lambda>m. if b then m\<lparr>p_Stats := s, m_WebTime := t\<rparr> else m\<lparr>p_Stats := s\<rparr>) st)"
  by (rule wf_upd) (simp_all add: obj_ok_def)

lemma stats_ops_wf:
  assumes "wf_state st" "p \<noteq> 0"
  shows statsTransition_wf: "\<exists>st'. statsTransition env p st = Some st' \<and> wf_state st'"
    and StatsPeriodic_wf: "\<exists>st'. StatsPeriodic env p st = Some st' \<and> wf_state st'"
proof -
  have "stats_ok (p_Stats (ms_heap st p))" using wfD(1) [OF assms] by (simp add: obj_ok_def)
  then obtain b s where s: "statsUpdateMaybeRoll env (p_Stats (ms_heap st p)) = Some (b, s)" "stats_ok s"
    using statsUpdateMaybeRoll_ok by blast
  then obtain s' where "count_down (p_Status (ms_heap st p)) s = Some s'" "stats_ok s'" using count_down_ok by blast
  with s show "\<exists>st'. statsTransition env p st = Some st' \<and> wf_state st'"
    "\<exists>st'. StatsPeriodic env p st = Some st' \<and> wf_state st'"
    using wf_stats [OF assms(1)] by (simp_all add: statsTransition_def StatsPeriodic_def)
qed


section \<open>Updates never panic\<close>

lemma note_New_total:
  assumes "0 \<le> nw_OvStatus c" "length (nc_Notify (nw_Conf c)) = 6" "length (nc_Escalate (nw_Conf c)) = 6"
  shows "\<exists>r s'. note_New env c mon s = Some (r, s')"
proof (cases "nw_OvStatus c > CRITICAL")
  case False
  obtain a b e f where "elem_at (nc_Notify (nw_Conf c)) (nw_OvStatus c) = Some a" "elem_at (nc_Notify (nw_Conf c)) UNKNOWN = Some b"
    "elem_at (nc_Escalate (nw_Conf c)) (nw_OvStatus c) = Some e" "elem_at (nc_Escalate (nw_Conf c)) UNKNOWN = Some f"
    using assms False by (auto simp: elem_at_def)
  then obtain d where d: "determineSendTo env (nw_Conf c) (nw_OvStatus c) = Some d" by (simp add: determineSendTo_def Let_def)
  have "n_OvStatus (determineMessage env gc c n) = n_OvStatus n" for gc n by (simp add: determineMessage_def Let_def)
  then show ?thesis using False d by (simp add: note_New_def Let_def split: prod.splits)
qed (simp add: note_New_def)

lemma permitNotify_total: "0 \<le> s \<Longrightarrow> \<exists>b. permitNotify w sn s = Some b"
  by (cases sn) (auto simp: permitNotify_def elem_at_def)

lemma maybeNotify_wf:
  assumes "wf_state st" "p \<noteq> 0"
  shows "\<exists>st'. maybeNotify env p prev st = Some st' \<and> wf_state st'"
proof (cases "m_NotifyCf (ms_heap st p)")
  case None
  then show ?thesis using assms(1) by (simp add: maybeNotify_def)
next
  case (Some ncf)
  let ?m = "ms_heap st p"
  let ?c = "\<lparr>nw_Conf = ncf, nw_Unique = mc_Unique (m_Cf ?m), nw_ShortName = mc_Label (m_Cf ?m),
    nw_FriendlyName = mc_Friendlyname (m_Cf ?m), nw_Reason = p_Reason ?m, nw_Result = p_Result ?m,
    nw_OvStatus = p_OvStatus ?m, nw_PrevOv = prev\<rparr>"
  have ok: "obj_ok ?m" by (rule wfD(1) [OF assms])
  then obtain b where b: "permitNotify (ne_wall (ev_note env)) (mc_Sendnotify (m_Cf ?m)) (p_OvStatus ?m) = Some b"
    using permitNotify_total [of "p_OvStatus ?m"] by (auto simp: obj_ok_def status_ok_def)
  obtain r s' where r: "note_New (ev_note env) ?c p (ms_notify st) = Some (r, s')"
    using note_New_total [of ?c "ev_note env" p "ms_notify st"] ok Some by (auto simp: obj_ok_def status_ok_def notifycf_ok_def)
  have w: "wf_state (st\<lparr>ms_notify := s'\<rparr>)" by (rule wf_same [OF assms(1)]) (simp_all add: wfD(3) [OF assms(1)])
  have "wf_state (upd_m p (\<lambda>m. m\<lparr>m_Notifies := m_Notifies m @ [n]\<rparr>) (st\<lparr>ms_notify := s'\<rparr>))" for n
    by (rule wf_upd [OF w]) (simp_all add: obj_ok_def)
  then show ?thesis
    using b r w assms(1) Some by (auto simp: maybeNotify_def Let_def split: option.splits)
qed

lemma up_targets_total:
  assumes "wf_state st"
  shows "0 \<notin> set ps \<Longrightarrow> \<exists>us. up_targets st b ps = Some us \<and> 0 \<notin> set us"
proof (induction ps arbitrary: b)
  case (Cons q ps)
  have "hd (m_Children (ms_heap st q)) \<noteq> 0" if "length (m_Children (ms_heap st q)) = 1"
    using that wfD(1) [OF assms, of q] Cons.prems by (cases "m_Children (ms_heap st q)") (auto simp: obj_ok_def)
  moreover have "0 \<notin> set ps" using Cons.prems by simp
  then obtain us vs where "up_targets st b ps = Some us" "0 \<notin> set us" "up_targets st True ps = Some vs" "0 \<notin> set vs"
    using Cons.IH by meson
  ultimately show ?case using Cons.prems by auto
qed simp

lemma andUpwards_wf:
  assumes "wf_state st" "p \<noteq> 0"
  shows "\<exists>st'. andUpwards p st = Some st' \<and> wf_state st'"
proof -
  have "0 \<notin> set (m_Parent (ms_heap st p))" using wfD(1) [OF assms] by (simp add: obj_ok_def)
  then obtain us where "up_targets st False (m_Parent (ms_heap st p)) = Some us" "0 \<notin> set us"
    using up_targets_total [OF assms(1)] by blast
  then show ?thesis using wf_go [OF assms(1)] by (simp add: andUpwards_def task_ok_def)
qed

lemma webtime_ok [simp]: "obj_ok (m\<lparr>m_WebTime := t\<rparr>) = obj_ok m"
  by (simp add: obj_ok_def)

lemma setAlarm_ok [simp]: "obj_ok (setAlarm env m) = obj_ok m" "m_Children (setAlarm env m) = m_Children m"
  by (simp_all add: setAlarm_def Let_def obj_ok_def)

lemma loggitL_ok [simp]: "obj_ok m \<Longrightarrow> obj_ok (loggitL t tag msg m)" "m_Children (loggitL t tag msg m) = m_Children m"
  by (simp_all add: loggitL_def appendToLog_def Let_def obj_ok_def)

lemma commonUpdate_wf:
  assumes "wf_state st" "p \<noteq> 0"
  shows "\<exists>st'. commonUpdate env p prev st = Some st' \<and> wf_state st'"
proof -
  let ?st1 = "upd_m p (\<lambda>m. setAlarm env (m\<lparr>m_WebTime := ev_nano env\<rparr>)) st"
  let ?st2 = "go_task (UpdateIsDown p (p_OvStatus (ms_heap ?st1 p))) ?st1"
  let ?st3 = "upd_m p (\<lambda>m. loggitL (ev_nano env) ''TRANSITION'' (p_Reason m) m) ?st2"
  have "wf_state ?st1" by (rule wf_upd [OF assms(1)]) simp_all
  then have "wf_state ?st2" by (rule wf_go) (simp add: task_ok_def)
  then have "wf_state ?st3" by (rule wf_upd) simp_all
  then obtain st4 where st4: "statsTransition env p ?st3 = Some st4" "wf_state st4" using statsTransition_wf assms(2) by blast
  then obtain st5 where st5: "determineSummary p st4 = Some st5" "wf_state st5" using determineSummary_wf assms(2) by blast
  have "wf_state (updateNotifies p st5)"
    by (rule wf_same [OF st5(2)]) (simp_all add: updateNotifies_def wfD(3) [OF st5(2)])
  then obtain st6 where st6: "maybeNotify env p prev (updateNotifies p st5) = Some st6" "wf_state st6"
    using maybeNotify_wf assms(2) by blast
  then obtain st7 where "andUpwards p st6 = Some st7" "wf_state st7" using andUpwards_wf assms(2) by blast
  then show ?thesis unfolding commonUpdate_def Let_def using st4(1) st5(1) st6(1) by simp
qed

lemma commonUpdateNoChange_wf:
  assumes "wf_state st" "p \<noteq> 0"
  shows "\<exists>st'. commonUpdateNoChange env p st = Some st' \<and> wf_state st'"
proof -
  let ?st1 = "upd_m p (\<lambda>m. m\<lparr>m_WebTime := ev_nano env\<rparr>) st"
  have "wf_state ?st1" by (rule wf_upd [OF assms(1)]) (simp_all add: obj_ok_def)
  then obtain st2 where st2: "statsTransition env p ?st1 = Some st2" "wf_state st2" using statsTransition_wf assms(2) by blast
  then obtain st3 where st3: "determineSummary p st2 = Some st3" "wf_state st3" using determineSummary_wf assms(2) by blast
  let ?st4 = "upd_m p (setAlarm env) st3"
  have "wf_state ?st4" by (rule wf_upd [OF st3(2)]) simp_all
  then have "wf_state (go_task (UpdateIsDown p (p_OvStatus (ms_heap ?st4 p))) ?st4)" by (rule wf_go) (simp add: task_ok_def)
  from andUpwards_wf [OF this assms(2)] show ?thesis
    unfolding commonUpdateNoChange_def Let_def using st2(1) st3(1) by simp
qed

lemma monel_Update_wf:
  assumes "wf_state st" "p \<noteq> 0" "status_ok s"
  shows "\<exists>st'. monel_Update env p s result reason st = Some st' \<and> wf_state st'"
proof -
  let ?st1 = "upd_m p (\<lambda>m. m\<lparr>p_Result := result\<rparr>) st"
  let ?st2 = "upd_m p (\<lambda>m. m\<lparr>p_Status := s, p_Reason := reason\<rparr>) ?st1"
  have 1: "wf_state ?st1" by (rule wf_upd [OF assms(1)]) (simp_all add: obj_ok_def)
  have "wf_state ?st2" by (rule wf_upd [OF 1]) (use assms(3) in \<open>simp_all add: obj_ok_def\<close>)
  then obtain b st3 where "determineStatus p ?st2 = Some (b, st3)" "wf_state st3" using determineStatus_wf assms(2) by blast
  then obtain b st4 where st4: "updateStatus p s result reason st = Some (b, st4)" "wf_state st4"
    using 1 by (cases "s = p_Status (ms_heap ?st1 p)") (auto simp: updateStatus_def Let_def)
  then show ?thesis using commonUpdate_wf [OF st4(2) assms(2)] by (simp add: monel_Update_def Let_def)
qed

lemma ReUpdate_wf:
  assumes "wf_state st" "p \<noteq> 0"
  shows "\<exists>st'. ReUpdate env p reason st = Some st' \<and> wf_state st'"
proof -
  obtain b st1 where st1: "determineStatus p st = Some (b, st1)" "wf_state st1" using determineStatus_wf assms by blast
  have "wf_state (upd_m p (\<lambda>m. m\<lparr>p_Reason := reason\<rparr>) st1)" by (rule wf_upd [OF st1(2)]) (simp_all add: obj_ok_def)
  then show ?thesis
    using st1 commonUpdate_wf [OF _ assms(2)] commonUpdateNoChange_wf [OF st1(2) assms(2)] by (simp add: ReUpdate_def Let_def)
qed

lemma run_task_wf:
  assumes "wf_state st"
  shows "\<exists>st'. run_task env i st = Some st' \<and> wf_state st'"
proof (cases "i < length (ms_go st)")
  case True
  let ?rest = "take i (ms_go st) @ drop (Suc i) (ms_go st)"
  have ok: "list_all task_ok (ms_go st)" by (rule wfD(3) [OF assms])
  then have r: "list_all task_ok ?rest" by (auto simp: list_all_iff dest: in_set_takeD in_set_dropD)
  have t: "task_ok (ms_go st ! i)" using ok True by (simp add: list_all_length)
  have w: "wf_state (st\<lparr>ms_go := ts\<rparr>)" if "list_all task_ok ts" for ts by (rule wf_same [OF assms]) (simp_all add: that)
  show ?thesis
  proof (cases "ms_go st ! i")
    case (UpdateIsDown p s)
    have "wf_state (updateIsDown p s (st\<lparr>ms_go := ?rest\<rparr>))"
      by (rule wf_same [OF w [OF r]]) (use r in \<open>simp_all add: updateIsDown_def\<close>)
    then show ?thesis using True UpdateIsDown by (simp add: run_task_def Let_def)
  next
    case (UpUpdates us who)
    show ?thesis
    proof (cases us)
      case Nil
      then show ?thesis using True UpUpdates w [OF r] by (simp add: run_task_def Let_def)
    next
      case (Cons u us')
      have "task_ok (UpUpdates us' who)" "u \<noteq> 0" using t UpUpdates Cons by (auto simp: task_ok_def)
      then have "wf_state (st\<lparr>ms_go := (ms_go st)[i := UpUpdates us' who]\<rparr>)"
        using ok by (intro w) (auto simp: list_all_iff dest!: set_update_subset_insert [THEN subsetD])
      then show ?thesis
        using ReUpdate_wf [OF _ \<open>u \<noteq> 0\<close>] True UpUpdates Cons \<open>u \<noteq> 0\<close> by (simp add: run_task_def UpUpdate_def)
    qed
  qed
qed (use assms in \<open>simp add: run_task_def\<close>)


section \<open>Runs\<close>

text \<open>What may happen to the monitored objects, each with its own clock.\<close>

datatype event =
    Report monel_env ptr status string string   \<comment> \<open>a service's or a peer's status\<close>
  | Goroutine monel_env nat                     \<comment> \<open>a step of the \<open>i\<close>-th pending goroutine\<close>
  | Override monel_env ptr override
  | Unoverride monel_env ptr string string
  | Expire monel_env ptr
  | Statistics monel_env ptr

fun event_ok :: "event \<Rightarrow> bool" where
  "event_ok (Report _ p s _ _) \<longleftrightarrow> p \<noteq> 0 \<and> status_ok s"
| "event_ok (Goroutine _ _) \<longleftrightarrow> True"
| "event_ok (Override _ p _) \<longleftrightarrow> p \<noteq> 0"
| "event_ok (Unoverride _ p _ _) \<longleftrightarrow> p \<noteq> 0"
| "event_ok (Expire _ p) \<longleftrightarrow> p \<noteq> 0"
| "event_ok (Statistics _ p) \<longleftrightarrow> p \<noteq> 0"

fun run_event :: "event \<Rightarrow> monel_state \<Rightarrow> monel_state option" where
  "run_event (Report env p s result reason) st = monel_Update env p s result reason st"
| "run_event (Goroutine env i) st = run_task env i st"
| "run_event (Override env p ov) st = SetOverride env p ov st"
| "run_event (Unoverride env p user reason) st = DelOverride env p user reason st"
| "run_event (Expire env p) st = overrideExpire env p st"
| "run_event (Statistics env p) st = StatsPeriodic env p st"

fun run_events :: "event list \<Rightarrow> monel_state \<Rightarrow> monel_state option" where
  "run_events [] st = Some st"
| "run_events (e # es) st = do { st \<leftarrow> run_event e st; run_events es st }"

lemma anc_only_ok:
  assumes "anc_only D h h'"
  shows "obj_ok (h' q) = obj_ok (h q)" "tree_ok h' rank = tree_ok h rank"
proof -
  obtain v where "h' q = (h q)\<lparr>p_AncInOv := v\<rparr>" using assms unfolding anc_only_def by blast
  then show "obj_ok (h' q) = obj_ok (h q)" by (simp add: obj_ok_def)
qed (rule anc_only_frame(3) [OF assms])

lemma ovPropDown_wf:
  assumes "wf_state st"
  shows "\<exists>st'. ovPropDown p st = Some st' \<and> wf_state st'"
proof -
  obtain rank where rank: "tree_ok (ms_heap st) rank" "\<forall>q. rank q < ms_next st" using wfD(4) [OF assms] by blast
  obtain D st' where st': "propDown (ms_next st) p st = Some st'" "anc_only D (ms_heap st) (ms_heap st')" "st' = st\<lparr>ms_heap := ms_heap st'\<rparr>"
    using propDown_spec [OF rank(1), of p "ms_next st"] rank(2) by blast
  have "ms_byname st' = ms_byname st" "ms_go st' = ms_go st" "ms_next st' = ms_next st"
    by (subst st'(3), simp)+
  then have "wf_state st'"
    using assms anc_only_ok [OF st'(2)] unfolding wf_state_def by simp
  then show ?thesis using st'(1) by (simp add: ovPropDown_def)
qed

lemma Loggit_wf: "wf_state st \<Longrightarrow> wf_state (monel_Loggit env tag msg p st)"
  unfolding monel_Loggit_def by (rule wf_upd) simp_all

lemma override_wf:
  assumes "wf_state st" "p \<noteq> 0"
  shows "\<exists>st'. do { st \<leftarrow> ovPropDown p ((upd_m p (\<lambda>m. m\<lparr>p_Override := o', m_WebTime := t\<rparr>) st)\<lparr>ms_inoverride := i\<rparr>);
      ReUpdate env p reason st } = Some st' \<and> wf_state st'"
proof -
  have 1: "wf_state (upd_m p (\<lambda>m. m\<lparr>p_Override := o', m_WebTime := t\<rparr>) st)"
    by (rule wf_upd [OF assms(1)]) (simp_all add: obj_ok_def)
  have "wf_state ((upd_m p (\<lambda>m. m\<lparr>p_Override := o', m_WebTime := t\<rparr>) st)\<lparr>ms_inoverride := i\<rparr>)"
    by (rule wf_same [OF 1]) (simp_all add: wfD(3) [OF 1, simplified])
  then obtain st1 where "ovPropDown p ((upd_m p (\<lambda>m. m\<lparr>p_Override := o', m_WebTime := t\<rparr>) st)\<lparr>ms_inoverride := i\<rparr>) = Some st1" "wf_state st1"
    using ovPropDown_wf by blast
  then show ?thesis using ReUpdate_wf [OF _ assms(2)] by simp
qed

lemma SetOverride_wf:
  assumes "wf_state st" "p \<noteq> 0"
  shows "\<exists>st'. SetOverride env p ov st = Some st' \<and> wf_state st'"
proof -
  let ?st1 = "if ov_Text ov \<noteq> [] then monel_Loggit env ''OVERRIDE'' (ov_Text ov) p st else st"
  let ?st2 = "if ov_User ov \<noteq> [] then monel_Loggit env ''OVERRIDE'' (''enabled by '' @ ov_User ov) p ?st1 else ?st1"
  have "wf_state ?st2" using assms(1) by (simp add: Loggit_wf)
  note o = override_wf [OF this assms(2)]
  have "wf_state (setOverrideExpire p s)" if "wf_state s" for s
    by (rule wf_same [OF that]) (simp_all add: setOverrideExpire_def Let_def wfD(3) [OF that])
  moreover obtain st4 where "do { st \<leftarrow> ovPropDown p ((upd_m p (\<lambda>m. m\<lparr>p_Override := Some ov, m_WebTime := ev_nano env\<rparr>) ?st2)
      \<lparr>ms_inoverride := (ms_inoverride (upd_m p (\<lambda>m. m\<lparr>p_Override := Some ov, m_WebTime := ev_nano env\<rparr>) ?st2))
        (Unique (upd_m p (\<lambda>m. m\<lparr>p_Override := Some ov, m_WebTime := ev_nano env\<rparr>) ?st2) p \<mapsto> p)\<rparr>);
      ReUpdate env p ''override'' st } = Some st4" "wf_state st4"
    using o by blast
  ultimately show ?thesis
    unfolding SetOverride_def Let_def Option.bind_assoc [symmetric] by (intro exI [of _ "setOverrideExpire p st4"]) (simp only: Option.bind.simps)
qed

lemma DelOverride_wf:
  assumes "wf_state st" "p \<noteq> 0"
  shows "\<exists>st'. DelOverride env p user reason st = Some st' \<and> wf_state st'"
proof -
  let ?st1 = "if reason \<noteq> [] then monel_Loggit env ''OVERRIDE'' reason p st else st"
  let ?st2 = "if user \<noteq> [] then monel_Loggit env ''OVERRIDE'' (''removed by '' @ user) p ?st1 else ?st1"
  have "wf_state ?st2" using assms(1) by (simp add: Loggit_wf)
  from override_wf [OF this assms(2)] show ?thesis unfolding DelOverride_def Let_def .
qed

lemma run_event_wf: "wf_state st \<Longrightarrow> event_ok e \<Longrightarrow> \<exists>st'. run_event e st = Some st' \<and> wf_state st'"
  using monel_Update_wf run_task_wf SetOverride_wf DelOverride_wf stats_ops_wf(2)
  by (cases e) (simp_all add: overrideExpire_def Let_def)

text \<open>C3: the monitored objects never panic and stay well-formed. From a well-formed state (no nil
  in any list of children or parents, an acyclic tree, non-empty statistics), every sequence of
  status reports in range, overrides set, removed and expired, statistics updates and goroutine
  steps, in any order and with any clocks, runs to its end. Afterwards statuses are in range, no
  log exceeds 500 entries, no period list 14, and in every period of every object the seconds up
  and down add up to the seconds elapsed.\<close>

theorem monel_safe:
  assumes "wf_state st" "list_all event_ok es"
  shows "\<exists>st'. run_events es st = Some st' \<and> wf_state st'"
  using assms
proof (induction es arbitrary: st)
  case (Cons e es)
  then obtain st1 where "run_event e st = Some st1" "wf_state st1" using run_event_wf [of st e] by auto
  then show ?case using Cons by simp
qed simp


section \<open>A run\<close>

text \<open>A group (1) of two services (2, 3), as \<open>monel_New\<close> and the first statistics make them; the
  first service may notify.\<close>

definition new_object :: "int \<Rightarrow> moneler \<Rightarrow> ptr \<Rightarrow> ptr list \<Rightarrow> status \<Rightarrow> monel" where
  "new_object t me parent cs s =
     (let (p, st) = monel_New (witness_menv t) me parent empty_monel; m = ms_heap st p
      in m\<lparr>m_Children := cs, p_Status := s, p_OvStatus := s, p_Stats := stats_prepare (t * SECSNANO) s (p_Stats m)\<rparr>)"

lemma new_object_ok:
  assumes "0 \<notin> set cs" "status_ok s" "moneler_ok me"
  shows "obj_ok (new_object t me parent cs s)"
proof -
  have "period_ok [\<lparr>sx_Start = t, sx_Elapsed = 0, sx_Ndown = 0, sx_TUp = 0, sx_TDn = 0\<rparr>]" for t by (simp add: period_ok_def)
  then have "stats_ok (stats_prepare t s \<lparr>ss_Lastt = 0, ss_Status = 0, ss_Daily = [], ss_Monthly = [], ss_Yearly = []\<rparr>)" for t s
    by (simp add: stats_ok_def stats_prepare_def Let_def)
  then show ?thesis using assms by (auto simp: new_object_def monel_New_def empty_monel_def obj_ok_def notifycf_ok_def Let_def)
qed

definition witness_live :: monel_state where
  "witness_live = empty_monel\<lparr>ms_next := 4,
     ms_heap := (\<lambda>_. blank_object)(1 := new_object 1000 GroupM 0 [2, 3] UNKNOWN,
       2 := (new_object 1000 ServiceM 1 [] CRITICAL)\<lparr>m_NotifyCf := Some NotifyCfDefaults,
              m_Cf := monel_defaults\<lparr>mc_Sendnotify := replicate 6 (Some [])\<rparr>\<rparr>,
       3 := new_object 1000 ServiceM 1 [] CLEAR)\<rparr>"

definition witness_override :: override where
  "witness_override = \<lparr>ov_User = ''admin'', ov_Auto = True, ov_Quiet = False, ov_Text = ''maintenance'',
     ov_Expires = 2000, ov_Ticket = []\<rparr>"

definition witness_rank :: "ptr \<Rightarrow> nat" where
  "witness_rank p = (if p = 1 then 1 else 0)"

lemma new_object_children: "m_Children (new_object t me parent cs s) = cs"
  by (simp add: new_object_def Let_def split: prod.split)

lemma live_children: "m_Children (ms_heap witness_live q) = (if q = 1 then [2, 3] else [])"
  by (simp add: witness_live_def new_object_children) (simp add: blank_object_def)

lemma live_next: "ms_next witness_live = 4"
  by (simp add: witness_live_def)

lemma live_tree: "tree_ok (ms_heap witness_live) witness_rank"
  by (auto simp: tree_ok_def is_child_def live_children witness_rank_def split: if_splits)

lemma witness_live_wf: "wf_state witness_live"
proof -
  have b: "obj_ok blank_object"
    by (simp add: obj_ok_def blank_object_def witness_stats_def stats_ok_def period_ok_def status_ok_def moneler_ok_def notifycf_ok_def Let_def)
  have n: "notifycf_ok (Some NotifyCfDefaults)"
    by (simp add: notifycf_ok_def NotifyCfDefaults_def)
  have w: "obj_ok (m\<lparr>m_NotifyCf := Some NotifyCfDefaults, m_Cf := c\<rparr>)" if "obj_ok m" for m c
    using that n by (simp add: obj_ok_def)
  have "obj_ok (ms_heap witness_live q)" for q
    using b by (auto simp: witness_live_def status_ok_def moneler_ok_def intro!: w new_object_ok)
  moreover have "ms_byname witness_live = Map.empty" "ms_go witness_live = []"
    by (simp_all add: witness_live_def empty_monel_def)
  ultimately show ?thesis
    using live_tree live_next by (auto simp: wf_state_def witness_rank_def intro!: exI [of _ witness_rank])
qed

theorem monel_safe_witness:
  "\<exists>st'. run_events [Report (witness_menv 1000) 3 CRITICAL ''x'' ''y'', Goroutine (witness_menv 1001) 1,
      Override (witness_menv 1002) 1 witness_override, Goroutine (witness_menv 1003) 0,
      Report (witness_menv 1004) 2 CLEAR ''x'' ''y'', Expire (witness_menv 3000) 1] witness_live = Some st' \<and> wf_state st'"
  by (rule monel_safe [OF witness_live_wf]) (simp add: status_ok_def)

theorem override_silences_witness:
  "\<exists>st' st''. SetOverride (witness_menv 1002) 1 witness_override witness_live = Some st'
    \<and> monel_Update (witness_menv 1004) 2 MAJOR ''x'' ''y'' st' = Some st''
    \<and> p_AncInOv (ms_heap st' 2) \<and> ns_next (ms_notify st'') = ns_next (ms_notify st')"
proof -
  obtain st' where st': "SetOverride (witness_menv 1002) 1 witness_override witness_live = Some st'" "wf_state st'"
    using SetOverride_wf [OF witness_live_wf, of 1] by fastforce
  obtain st'' where st'': "monel_Update (witness_menv 1004) 2 MAJOR ''x'' ''y'' st' = Some st''"
    using monel_Update_wf [OF st'(2), of 2 MAJOR] by (fastforce simp: status_ok_def)
  have "is_child (ms_heap witness_live) 1 2" by (simp add: is_child_def live_children)
  then have "(is_child (ms_heap witness_live))\<^sup>+\<^sup>+ 1 2" by (rule tranclp.r_into_trancl)
  moreover have "witness_rank 1 < ms_next witness_live" by (simp add: live_next witness_rank_def)
  ultimately show ?thesis using override_silences [OF st'(1) live_tree _ _ st''] st' st'' by blast
qed

end
