(* ===== verification/Api.thy ===== *)
theory Api
  imports ArgusBase
begin

text \<open>
  Package \<open>api\<close> (\<open>src/argus/api\<close>): the line protocol between argus processes, its server
  (\<open>server.go\<close>, \<open>api.go\<close>) and its client (\<open>client/client.go\<close>).

  A connection is the bytes still to be read and the bytes written. Lines are read through
  a buffer of 4096 bytes, as \<open>bufio.Reader.ReadLine\<close> does; the code ignores its
  \<open>isPrefix\<close>, so a longer line arrives as several. The handlers are functions on the state
  \<open>'w\<close> of the rest of the program; the object of a darp server, which hears of connections
  and disconnections, is a parameter, and so is the name in a peer's certificate.
\<close>

section \<open>Reading lines\<close>

abbreviation (input) LF :: char where "LF \<equiv> CHR 0x0A"
abbreviation (input) CR :: char where "CR \<equiv> CHR 0x0D"
abbreviation (input) BUFSIZE :: nat where "BUFSIZE \<equiv> 4096"

definition strip_cr :: "string \<Rightarrow> string" where
  "strip_cr l = (if l \<noteq> [] \<and> last l = CR then butlast l else l)"

text \<open>\<^const>\<open>None\<close>: end of file.\<close>

definition read_line :: "string \<Rightarrow> (string \<times> string) option" where
  "read_line s =
     (let buf = take BUFSIZE s; l = takeWhile (\<lambda>c. c \<noteq> LF) buf in
      if s = [] then None
      else if length l < length buf then Some (strip_cr l, drop (Suc (length l)) s)
      else if length buf = BUFSIZE then
        (if last l = CR then Some (butlast l, CR # drop BUFSIZE s) else Some (l, drop BUFSIZE s))
      else Some (l, []))"

lemma read_line_shorter: "read_line s = Some (l, s') \<Longrightarrow> length s' < length s"
  by (auto simp: read_line_def Let_def split: if_splits)

lemma read_line_append:
  assumes "LF \<notin> set l" "length l < BUFSIZE" "l = [] \<or> last l \<noteq> CR"
  shows "read_line (l @ LF # rest) = Some (l, rest)"
proof -
  obtain t where buf: "take BUFSIZE (l @ LF # rest) = l @ LF # t"
    using assms(2) by (cases "BUFSIZE - length l") auto
  have "takeWhile (\<lambda>c. c \<noteq> LF) (l @ LF # xs) = l" for xs
    using assms(1) by (subst takeWhile_append2) auto
  then show ?thesis
    unfolding read_line_def Let_def buf using assms(3) by (auto simp: strip_cr_def)
qed

section \<open>The server\<close>

text \<open>A connection's \<open>Context\<close>; \<open>ax_in\<close> and \<open>ax_out\<close> are its connection.\<close>

record api_ctx =
  ax_Authed :: bool
  ax_User :: string
  ax_Nonce :: string
  ax_Method :: string
  ax_Args :: "string \<rightharpoonup> string"
  ax_in :: string
  ax_out :: string

abbreviation (input) PROTOCOL :: string where "PROTOCOL \<equiv> ''ARGUS/5.0''"

function read_headers :: "(string \<rightharpoonup> string) \<Rightarrow> string \<Rightarrow> bool \<times> (string \<rightharpoonup> string) \<times> string" where
  "read_headers args s =
     (case read_line s of
        None \<Rightarrow> (False, args, s)
      | Some (l, s) \<Rightarrow>
          if l = [] then (True, args, s)
          else read_headers
            (case split2 '': '' l of
               [f, v] \<Rightarrow> args(trim_space f \<mapsto> UrlDecode (trim_space v))
             | fs \<Rightarrow> args(trim_space (hd fs) \<mapsto> [])) s)"
  by pat_completeness auto
termination by (relation "measure (\<lambda>(args, s). length s)") (auto simp: read_line_shorter)

declare read_headers.simps [simp del]

definition readRequest :: "api_ctx \<Rightarrow> bool \<times> api_ctx" where
  "readRequest ctx =
     (case read_line (ax_in ctx) of
        None \<Rightarrow> (False, ctx)
      | Some (reqline, s) \<Rightarrow>
          let ctx = ctx\<lparr>ax_in := s\<rparr> in
          case go_fields reqline of
            [g, f, v] \<Rightarrow>
              if g \<noteq> ''GET'' \<or> v \<noteq> PROTOCOL then (False, ctx)
              else
                let (ok, args, s) = read_headers Map.empty s
                in (ok, ctx\<lparr>ax_Method := UrlDecode f, ax_Args := args, ax_in := s\<rparr>)
          | _ \<Rightarrow> (False, ctx))"

definition api_Send :: "string \<Rightarrow> api_ctx \<Rightarrow> api_ctx" where
  "api_Send txt ctx = ctx\<lparr>ax_out := ax_out ctx @ txt\<rparr>"

definition SendResponse :: "int \<Rightarrow> string \<Rightarrow> api_ctx \<Rightarrow> api_ctx" where
  "SendResponse code msg = api_Send (PROTOCOL @ '' '' @ show_int code @ '' '' @ msg @ [LF])"

definition SendFinal :: "api_ctx \<Rightarrow> api_ctx" where
  "SendFinal = api_Send [LF]"

definition SendResponseFinal :: "int \<Rightarrow> string \<Rightarrow> api_ctx \<Rightarrow> api_ctx" where
  "SendResponseFinal code msg ctx = SendFinal (SendResponse code msg ctx)"

definition SendOK :: "api_ctx \<Rightarrow> api_ctx" where
  "SendOK = SendResponse 200 ''OK''"

definition SendOKFinal :: "api_ctx \<Rightarrow> api_ctx" where
  "SendOKFinal = SendResponseFinal 200 ''OK''"

definition Send404 :: "api_ctx \<Rightarrow> api_ctx" where
  "Send404 = SendResponseFinal 404 ''Not Found''"

definition SendKVP :: "string \<Rightarrow> string \<Rightarrow> api_ctx \<Rightarrow> api_ctx" where
  "SendKVP key val = api_Send (key @ '': '' @ UrlEncode val @ [LF])"

text \<open>A handler acts on the rest of the program and answers: the bytes it writes, and whether it
  closed the connection.\<close>

type_synonym 'w handler = "api_ctx \<Rightarrow> 'w \<Rightarrow> 'w \<times> string \<times> bool"

record 'w route =
  rt_needauth :: bool
  rt_f :: "'w handler"

text \<open>Adding a path twice is fatal.\<close>

definition api_Add :: "bool \<Rightarrow> string \<Rightarrow> 'w handler \<Rightarrow> (string \<rightharpoonup> 'w route) \<Rightarrow> (string \<rightharpoonup> 'w route) option" where
  "api_Add authreq path f router =
     (if router path \<noteq> None then None else Some (router(path \<mapsto> \<lparr>rt_needauth = authreq, rt_f = f\<rparr>)))"

definition apiFuncExit :: "'w handler" where
  "apiFuncExit ctx w = (w, ax_out (SendOKFinal (ctx\<lparr>ax_out := []\<rparr>)), True)"

definition apiFuncPing :: "'w handler" where
  "apiFuncPing ctx w = (w, ax_out (SendOKFinal (ctx\<lparr>ax_out := []\<rparr>)), False)"

text \<open>Answering 404 or 403 keeps the connection, and so does a handler; after \<open>exit\<close> nothing more
  can be read.\<close>

definition api_dispatch :: "(string \<rightharpoonup> 'w route) \<Rightarrow> api_ctx \<Rightarrow> 'w \<Rightarrow> api_ctx \<times> 'w" where
  "api_dispatch router ctx w =
     (case router (ax_Method ctx) of
        None \<Rightarrow> (SendResponseFinal 404 ''Not Found'' ctx, w)
      | Some t \<Rightarrow>
          if rt_needauth t \<and> \<not> ax_Authed ctx then (SendResponseFinal 403 ''Not Authorized'' ctx, w)
          else
            let (w, txt, closed) = rt_f t ctx w; ctx = api_Send txt ctx
            in (if closed then ctx\<lparr>ax_in := []\<rparr> else ctx, w))"

text \<open>What a darp server is told.\<close>

record 'w serverer =
  sv_Connected :: "string \<Rightarrow> 'w \<Rightarrow> 'w"
  sv_Disco :: "string \<Rightarrow> 'w \<Rightarrow> 'w"

datatype domain = Unix | Tls "string option" | Tcp   \<comment> \<open>with the name in the peer's certificate\<close>

definition tlsInfo :: "domain \<Rightarrow> api_ctx \<Rightarrow> api_ctx" where
  "tlsInfo via ctx = (case via of Tls (Some name) \<Rightarrow> ctx\<lparr>ax_User := name, ax_Authed := True\<rparr> | _ \<Rightarrow> ctx)"

lemma read_headers_shorter: "read_headers a s = (ok, b, s') \<Longrightarrow> length s' \<le> length s"
proof (induction a s rule: read_headers.induct)
  case (1 a s)
  show ?case
  proof (cases "read_line s")
    case None
    then show ?thesis using 1(2) by (subst (asm) read_headers.simps) simp
  next
    case (Some ls)
    obtain l t where ls: "ls = (l, t)" by force
    have t: "length t < length s" using read_line_shorter Some ls by simp
    show ?thesis
    proof (cases "l = []")
      case True
      then show ?thesis using 1(2) Some ls t by (subst (asm) read_headers.simps) simp
    next
      case False
      then show ?thesis using 1(2) Some ls t 1(1) [OF Some ls [symmetric] False] by (subst (asm) read_headers.simps) simp
    qed
  qed
qed

lemma readRequest_shorter:
  assumes "readRequest ctx = (True, ctx')"
  shows "length (ax_in ctx') < length (ax_in ctx)"
proof -
  obtain l t where l: "read_line (ax_in ctx) = Some (l, t)" using assms by (auto simp: readRequest_def split: option.splits)
  obtain args s where h: "read_headers Map.empty t = (True, args, s)" "ax_in ctx' = s"
    using assms l by (auto simp: readRequest_def Let_def split: list.splits if_splits prod.splits)
  show ?thesis using read_line_shorter [OF l] read_headers_shorter [OF h(1)] h(2) by simp
qed

lemma dispatch_in: "api_dispatch router ctx w = (ctx', w') \<Longrightarrow> length (ax_in ctx') \<le> length (ax_in ctx)"
  by (auto simp: api_dispatch_def SendResponseFinal_def SendFinal_def SendResponse_def api_Send_def Let_def
      split: option.splits if_splits prod.splits)

text \<open>The loop of \<open>apiRun\<close>: its result is the connection when it is given up, and the world.\<close>

function api_loop :: "(string \<rightharpoonup> 'w route) \<Rightarrow> 'w serverer option \<Rightarrow> domain \<Rightarrow> api_ctx \<Rightarrow> 'w \<Rightarrow> api_ctx \<times> 'w" where
  "api_loop router ob via ctx w =
     (let (ok, ctx') = readRequest ctx;
          ctx' = (if (case via of Tls _ \<Rightarrow> True | _ \<Rightarrow> False) \<and> ax_User ctx' = [] then tlsInfo via ctx' else ctx')
      in if \<not> ok then (ctx', w)
         else
           let w = (case ob of Some sv \<Rightarrow> if ax_User ctx' \<noteq> [] then sv_Connected sv (ax_User ctx') w else w | None \<Rightarrow> w);
               (ctx', w) = api_dispatch router ctx' w
           in api_loop router ob via ctx' w)"
  by pat_completeness auto
termination
proof (relation "measure (\<lambda>(router, ob, via, ctx, w). length (ax_in ctx))")
  fix router :: "string \<rightharpoonup> 'w route" and ob :: "'w serverer option" and via ctx and w :: 'w and x ok ctx1 ctx2 w2 y ctx3 and w3 :: 'w
  assume a: "x = readRequest ctx" "(ok, ctx1) = x"
    "ctx2 = (if (case via of Tls _ \<Rightarrow> True | _ \<Rightarrow> False) \<and> ax_User ctx1 = [] then tlsInfo via ctx1 else ctx1)"
    "\<not> \<not> ok" "y = api_dispatch router ctx2 w2" "(ctx3, w3) = y"
  have "ax_in ctx2 = ax_in ctx1" by (simp add: a(3) tlsInfo_def split: domain.split option.split)
  moreover have "length (ax_in ctx3) \<le> length (ax_in ctx2)" using dispatch_in a(5,6) by metis
  moreover have "length (ax_in ctx1) < length (ax_in ctx)" using readRequest_shorter a(1,2,4) by metis
  ultimately show "((router, ob, via, ctx3, w3), (router, ob, via, ctx, w)) \<in> measure (\<lambda>(router, ob, via, ctx, w). length (ax_in ctx))"
    by simp
qed simp

declare api_loop.simps [simp del]

text \<open>\<open>nonce\<close> is the encoded random string, \<^const>\<open>None\<close> when there is no randomness. At the end a
  darp server is told of the disconnection. Local sockets and TLS count as authenticated
  from the start.\<close>

definition apiRun :: "(string \<rightharpoonup> 'w route) \<Rightarrow> 'w serverer option \<Rightarrow> domain \<Rightarrow> string option \<Rightarrow> string \<Rightarrow> 'w \<Rightarrow> string \<times> 'w" where
  "apiRun router ob via nonce input w =
     (let ctx = \<lparr>ax_Authed = False, ax_User = [], ax_Nonce = [], ax_Method = [], ax_Args = Map.empty, ax_in = input, ax_out = []\<rparr>;
          (ctx, w) =
            (case via of
               Tcp \<Rightarrow> (case nonce of None \<Rightarrow> (ctx, w) | Some n \<Rightarrow> api_loop router ob via (ctx\<lparr>ax_Nonce := n\<rparr>) w)
             | _ \<Rightarrow> api_loop router ob via (ctx\<lparr>ax_Authed := True\<rparr>) w)
      in (ax_out ctx, case ob of None \<Rightarrow> w | Some sv \<Rightarrow> sv_Disco sv (ax_User ctx) w))"

section \<open>The client\<close>

record response =
  rs_Code :: int
  rs_Msg :: string
  rs_Lines :: "string list"

text \<open>What \<open>Get\<close> sends; \<open>args\<close> in the order in which the map is visited.\<close>

definition client_request :: "string \<Rightarrow> (string \<times> string) list \<Rightarrow> string" where
  "client_request method args =
     ''GET '' @ method @ '' '' @ PROTOCOL @ [LF]
     @ concat (map (\<lambda>(k, v). k @ '': '' @ UrlEncode v @ [LF]) args) @ [LF]"

function read_content :: "string \<Rightarrow> string list \<times> string" where
  "read_content s =
     (case read_line s of
        None \<Rightarrow> ([], s)
      | Some (l, s) \<Rightarrow> if l = [] then ([], s) else let (ls, s) = read_content s in (l # ls, s))"
  by pat_completeness auto
termination by (relation "measure length") (auto simp: read_line_shorter)

declare read_content.simps [simp del]

text \<open>\<open>SplitN(s, " ", 3)\<close>\<close>

definition split3 :: "string \<Rightarrow> string list" where
  "split3 s = (case split2 '' '' s of [a, b] \<Rightarrow> a # split2 '' '' b | xs \<Rightarrow> xs)"

text \<open>What \<open>Get\<close> makes of the answer, with what is left to read. \<^const>\<open>None\<close>: an error.\<close>

definition client_response :: "string \<Rightarrow> (response \<times> string) option" where
  "client_response s =
     (case read_line s of
        None \<Rightarrow> None
      | Some (respline, s) \<Rightarrow>
          (case split3 respline of
             [p, c, msg] \<Rightarrow>
               let (ls, s) = read_content s in Some (\<lparr>rs_Code = atoi c, rs_Msg = msg, rs_Lines = ls\<rparr>, s)
           | _ \<Rightarrow> None))"

definition response_Map :: "response \<Rightarrow> (string \<rightharpoonup> string)" where
  "response_Map resp =
     foldl (\<lambda>m l. case split2 '': '' l of
         [k, v] \<Rightarrow> m(k \<mapsto> UrlDecode (trim_space v))
       | ks \<Rightarrow> m(hd ks \<mapsto> [])) Map.empty (rs_Lines resp)"


section \<open>Requests and answers survive the wire\<close>

definition key_ok :: "string \<Rightarrow> bool" where
  "key_ok k \<longleftrightarrow> list_all (\<lambda>c. c \<noteq> CHR '':'' \<and> \<not> is_space c) k"

lemma split2_key: "CHR '':'' \<notin> set k \<Longrightarrow> split2 '': '' (k @ '': '' @ e) = [k, e]"
proof -
  assume "CHR '':'' \<notin> set k"
  then have "index_str '': '' (k @ '': '' @ e) = Some (length k)"
    by (induction k) (auto simp: has_prefix_def)
  then show ?thesis by (simp add: split2_def)
qed

lemma trim_no_space: "list_all (\<lambda>c. \<not> is_space c) s \<Longrightarrow> trim_space s = s"
proof -
  have d: "dropWhile is_space s = s" if "list_all (\<lambda>c. \<not> is_space c) s" for s
    using that by (cases s) auto
  moreover have "list_all (\<lambda>c. \<not> is_space c) (rev s) = list_all (\<lambda>c. \<not> is_space c) s" by (simp add: list_all_iff)
  ultimately show "list_all (\<lambda>c. \<not> is_space c) s \<Longrightarrow> ?thesis"
    by (simp add: trim_space_def trim_right_def trim_left_def)
qed

lemma UrlEncode_no_space: "list_all (\<lambda>c. \<not> is_space c) (UrlEncode v)"
  by (auto simp: list_all_iff UrlEncode_bytes)

definition kvp_line :: "string \<times> string \<Rightarrow> string" where
  "kvp_line kv = (case kv of (k, v) \<Rightarrow> k @ '': '' @ UrlEncode v)"

lemma kvp_line_plain:
  assumes "key_ok (fst kv)"
  shows "kvp_line kv \<noteq> [] \<and> LF \<notin> set (kvp_line kv) \<and> last (kvp_line kv) \<noteq> CR"
proof -
  obtain k v where kv: "kv = (k, v)" by force
  have k: "list_all (\<lambda>c. \<not> is_space c) k" using assms by (auto simp: kv key_ok_def list_all_iff)
  have e: "c \<noteq> LF \<and> c \<noteq> CR" if "\<not> is_space c" for c using that by (auto simp: is_space_def)
  then show ?thesis
    using k UrlEncode_no_space [of v] by (auto simp: kv kvp_line_def list_all_iff last_append)
qed

lemma kvp_line:
  assumes "key_ok k" "length (kvp_line (k, v)) < BUFSIZE"
  shows "read_line (kvp_line (k, v) @ LF # rest) = Some (kvp_line (k, v), rest)"
    and "kvp_line (k, v) \<noteq> []" "split2 '': '' (kvp_line (k, v)) = [k, UrlEncode v]"
    and "trim_space k = k" "UrlDecode (trim_space (UrlEncode v)) = v"
proof -
  have k: "CHR '':'' \<notin> set k" "list_all (\<lambda>c. \<not> is_space c) k"
    using assms(1) by (auto simp: key_ok_def list_all_iff)
  show "read_line (kvp_line (k, v) @ LF # rest) = Some (kvp_line (k, v), rest)"
    using read_line_append kvp_line_plain [of "(k, v)"] assms by simp
  show "kvp_line (k, v) \<noteq> []" by (simp add: kvp_line_def)
  show "split2 '': '' (kvp_line (k, v)) = [k, UrlEncode v]" using split2_key k(1) by (simp add: kvp_line_def)
  show "trim_space k = k" using k(2) by (rule trim_no_space)
  show "UrlDecode (trim_space (UrlEncode v)) = v"
    by (simp add: trim_no_space UrlEncode_no_space) (simp add: UrlDecode_def UrlEncode_def url_code.decode_query)
qed

definition lines_ok :: "(string \<times> string) list \<Rightarrow> bool" where
  "lines_ok kvs \<longleftrightarrow> list_all (\<lambda>kv. key_ok (fst kv) \<and> length (kvp_line kv) < BUFSIZE) kvs"

lemma read_line_empty: "read_line (LF # rest) = Some ([], rest)"
  using read_line_append [of "[]" rest] by simp

lemma read_headers_lines:
  "lines_ok kvs \<Longrightarrow> read_headers m (concat (map (\<lambda>kv. kvp_line kv @ [LF]) kvs) @ LF # rest) = (True, m ++ map_of (rev kvs), rest)"
proof (induction kvs arbitrary: m)
  case Nil
  then show ?case by (subst read_headers.simps) (simp add: read_line_empty)
next
  case (Cons kv kvs)
  obtain k v where kv: "kv = (k, v)" by force
  have "key_ok k" "length (kvp_line (k, v)) < BUFSIZE" "lines_ok kvs" using Cons.prems by (auto simp: lines_ok_def kv)
  note l = kvp_line [OF this(1,2)] and IH = Cons.IH [OF this(3)]
  show ?case
    by (subst read_headers.simps, simp add: kv l IH) (simp add: fun_upd_def)
qed

lemma read_content_lines:
  "list_all (\<lambda>l. l \<noteq> [] \<and> LF \<notin> set l \<and> last l \<noteq> CR \<and> length l < BUFSIZE) ls \<Longrightarrow>
   read_content (concat (map (\<lambda>l. l @ [LF]) ls) @ LF # rest) = (ls, rest)"
proof (induction ls)
  case Nil
  then show ?case by (subst read_content.simps) (simp add: read_line_empty)
next
  case (Cons l ls)
  then show ?case by (subst read_content.simps) (simp add: read_line_append)
qed

lemma response_Map_lines:
  assumes "lines_ok kvs"
  shows "response_Map \<lparr>rs_Code = c, rs_Msg = m, rs_Lines = map kvp_line kvs\<rparr> = map_of (rev kvs)"
proof -
  have "foldl (\<lambda>m l. case split2 '': '' l of [k, v] \<Rightarrow> m(k \<mapsto> UrlDecode (trim_space v)) | ks \<Rightarrow> m(hd ks \<mapsto> [])) m0 (map kvp_line kvs)
    = m0 ++ map_of (rev kvs)" for m0
    using assms
  proof (induction kvs arbitrary: m0)
    case (Cons kv kvs)
    obtain k v where kv: "kv = (k, v)" by force
    have "key_ok k" "length (kvp_line (k, v)) < BUFSIZE" "lines_ok kvs" using Cons.prems by (auto simp: lines_ok_def kv)
    note l = kvp_line [OF this(1,2)] and IH = Cons.IH [OF this(3)]
    show ?case by (simp add: kv l(3,5) IH) (simp add: fun_upd_def)
  qed simp
  from this [of Map.empty] show ?thesis by (simp add: response_Map_def)
qed


lemma go_fields_word: "w \<noteq> [] \<Longrightarrow> list_all (\<lambda>c. \<not> is_space c) w \<Longrightarrow> is_space d \<Longrightarrow> go_fields (w @ d # s) = w # go_fields s"
proof -
  assume w: "w \<noteq> []" "list_all (\<lambda>c. \<not> is_space c) w" and d: "is_space d"
  have "dropWhile is_space (w @ d # s) = w @ d # s" using w by (cases w) auto
  moreover have "takeWhile (\<lambda>c. \<not> is_space c) (w @ d # s) = w"
    using w(2) d by (subst takeWhile_append2) (auto simp: list_all_iff)
  moreover have "dropWhile (\<lambda>c. \<not> is_space c) (w @ d # s) = d # s"
    using w(2) d by (subst dropWhile_append2) (auto simp: list_all_iff)
  moreover have "go_fields (d # s) = go_fields s"
    using d by (subst (1 2) go_fields.simps) simp
  ultimately show ?thesis using w(1) by (subst go_fields.simps) (simp add: Let_def)
qed

lemma go_fields_last: "w \<noteq> [] \<Longrightarrow> list_all (\<lambda>c. \<not> is_space c) w \<Longrightarrow> go_fields w = [w]"
proof -
  assume w: "w \<noteq> []" "list_all (\<lambda>c. \<not> is_space c) w"
  have "dropWhile is_space w = w" using w by (cases w) auto
  moreover have "takeWhile (\<lambda>c. \<not> is_space c) w = w" "dropWhile (\<lambda>c. \<not> is_space c) w = []"
    using w(2) by (auto simp: list_all_iff)
  moreover have "go_fields [] = []" by (subst go_fields.simps) simp
  ultimately show ?thesis using w(1) by (subst go_fields.simps) (simp add: Let_def del: dropWhile_eq_Nil_conv)
qed

lemma UrlDecode_plain: "CHR ''%'' \<notin> set s \<Longrightarrow> CHR ''+'' \<notin> set s \<Longrightarrow> UrlDecode s = s"
proof -
  have "CHR ''%'' \<notin> set s \<Longrightarrow> CHR ''+'' \<notin> set s \<Longrightarrow> unescape (CHR ''%'') True s = Some s"
    by (induction s) auto
  then show "CHR ''%'' \<notin> set s \<Longrightarrow> CHR ''+'' \<notin> set s \<Longrightarrow> ?thesis" by (simp add: UrlDecode_def)
qed

lemma split2_char: "d \<notin> set a \<Longrightarrow> split2 [d] (a @ d # b) = [a, b]"
proof -
  assume "d \<notin> set a"
  then have "index_str [d] (a @ d # b) = Some (length a)"
    by (induction a) (auto simp: has_prefix_def)
  then show ?thesis by (simp add: split2_def)
qed

lemma SendKVPs_out:
  "ax_out (foldl (\<lambda>c kv. SendKVP (fst kv) (snd kv) c) ctx kvs) = ax_out ctx @ concat (map (\<lambda>kv. kvp_line kv @ [LF]) kvs)"
  by (induction kvs arbitrary: ctx) (simp_all add: SendKVP_def api_Send_def kvp_line_def split: prod.split)

lemma code_digits:
  assumes "0 \<le> code" "code < 1000"
  shows "CHR '' '' \<notin> set (show_int code)" "LF \<notin> set (show_int code)" "length (show_int code) \<le> 3" "atoi (show_int code) = code"
proof -
  have s: "show_int code = show_nat (nat code)" using assms(1) by (simp add: show_int_def)
  have "\<not> is_digit (CHR '' '')" "\<not> is_digit LF" by (simp_all add: is_digit_def)
  then show "CHR '' '' \<notin> set (show_int code)" "LF \<notin> set (show_int code)"
    using show_nat_digits [of "nat code"] by (auto simp: s list_all_iff)
  have "length (show_nat n) \<le> 3" if "n < 1000" for n
    using that by (simp add: show_nat.simps [of n] show_nat.simps [of "n div 10"] show_nat.simps [of "n div 100"] flip: div_mult2_eq)
  then show "length (show_int code) \<le> 3" using assms by (simp add: s)
  show "atoi (show_int code) = code" using assms by (simp add: s)
qed

text \<open>The answer's half of the round trip.\<close>

lemma answer_survives:
  assumes "LF \<notin> set msg" "msg \<noteq> []" "last msg \<noteq> CR" "length msg < 4000" "0 \<le> code" "code < 1000" "lines_ok kvs"
  shows "\<exists>resp. client_response (ax_out (SendFinal (foldl (\<lambda>c kv. SendKVP (fst kv) (snd kv) c)
             (SendResponse code msg (ctx\<lparr>ax_out := []\<rparr>)) kvs)) @ rest) = Some (resp, rest)
      \<and> rs_Code resp = code \<and> rs_Msg resp = msg \<and> response_Map resp = map_of (rev kvs)"
proof -
  let ?line = "PROTOCOL @ '' '' @ show_int code @ '' '' @ msg"
  note d = code_digits [OF assms(5,6)]
  have "read_line (?line @ LF # t) = Some (?line, t)" for t
    by (rule read_line_append) (use d assms(1-4) in auto)
  then have l: "read_line (PROTOCOL @ '' '' @ show_int code @ '' '' @ msg @ LF # t) = Some (?line, t)" for t by simp
  have s: "split3 ?line = [PROTOCOL, show_int code, msg]"
    using split2_char [of "CHR '' ''" PROTOCOL "show_int code @ '' '' @ msg"] split2_char [OF d(1), of msg]
    by (simp add: split3_def)
  have "list_all (\<lambda>l. l \<noteq> [] \<and> LF \<notin> set l \<and> last l \<noteq> CR \<and> length l < BUFSIZE) (map kvp_line kvs)"
    using assms(7) kvp_line_plain by (auto simp: list_all_iff lines_ok_def)
  from read_content_lines [OF this, of rest] have c: "read_content (concat (map (\<lambda>kv. kvp_line kv @ [LF]) kvs) @ LF # rest) = (map kvp_line kvs, rest)"
    by (simp add: comp_def)
  show ?thesis
    using l s c d(4) response_Map_lines [OF assms(7)]
    by (simp add: client_response_def SendFinal_def SendResponse_def api_Send_def SendKVPs_out)
qed

text \<open>C22: a call survives the wire in both directions. What the client sends for a method without
  white space and arguments with plain keys and any values, as long as every line fits the
  reader's buffer, the server reads back as that method and those arguments (the last one
  wins for a repeated key), leaving the rest of the connection; and an answer of lines made
  by \<open>SendKVP\<close> reaches the client with its code, its message and, as a map, its values.\<close>

theorem api_roundtrip:
  assumes "method \<noteq> []" "list_all (\<lambda>c. \<not> is_space c) method" "CHR ''%'' \<notin> set method" "CHR ''+'' \<notin> set method"
    and "length method < 4000" "lines_ok args"
    and "LF \<notin> set msg" "msg \<noteq> []" "last msg \<noteq> CR" "length msg < 4000" "0 \<le> code" "code < 1000" "lines_ok kvs"
  shows "(\<exists>ctx'. readRequest (ctx\<lparr>ax_in := client_request method args @ rest\<rparr>) = (True, ctx')
      \<and> ax_Method ctx' = method \<and> ax_Args ctx' = map_of (rev args) \<and> ax_in ctx' = rest \<and> ax_out ctx' = ax_out ctx)
    \<and> (\<exists>resp. client_response (ax_out (SendFinal (foldl (\<lambda>c kv. SendKVP (fst kv) (snd kv) c)
             (SendResponse code msg (ctx\<lparr>ax_out := []\<rparr>)) kvs)) @ rest) = Some (resp, rest)
      \<and> rs_Code resp = code \<and> rs_Msg resp = msg \<and> response_Map resp = map_of (rev kvs))"
proof (intro conjI)
  let ?line = "''GET '' @ method @ '' '' @ PROTOCOL"
  have m: "c \<noteq> LF" if "c \<in> set method" for c using that assms(2) by (auto simp: list_all_iff is_space_def)
  have "read_line (?line @ LF # t) = Some (?line, t)" for t
    by (rule read_line_append) (use m assms(5) in auto)
  then have l: "read_line (''GET '' @ method @ '' '' @ PROTOCOL @ LF # t) = Some (?line, t)" for t by simp
  have f: "go_fields ?line = [''GET'', method, PROTOCOL]"
    using go_fields_word [of "''GET''" "CHR '' ''"] go_fields_word [OF assms(1,2), of "CHR '' ''"] go_fields_last [of PROTOCOL]
    by (simp add: is_space_def)
  have u: "UrlDecode method = method" by (rule UrlDecode_plain [OF assms(3,4)])
  have "(\<lambda>(k, v). k @ '': '' @ UrlEncode v @ [LF]) = (\<lambda>kv. kvp_line kv @ [LF])" by (auto simp: kvp_line_def)
  then have h: "client_request method args = ''GET '' @ method @ '' '' @ PROTOCOL @ LF # concat (map (\<lambda>kv. kvp_line kv @ [LF]) args) @ [LF]"
    unfolding client_request_def by simp
  show "\<exists>ctx'. readRequest (ctx\<lparr>ax_in := client_request method args @ rest\<rparr>) = (True, ctx')
      \<and> ax_Method ctx' = method \<and> ax_Args ctx' = map_of (rev args) \<and> ax_in ctx' = rest \<and> ax_out ctx' = ax_out ctx"
    using l f u read_headers_lines [OF assms(6), of Map.empty rest]
    by (simp add: readRequest_def h Let_def)
next
  show "\<exists>resp. client_response (ax_out (SendFinal (foldl (\<lambda>c kv. SendKVP (fst kv) (snd kv) c)
             (SendResponse code msg (ctx\<lparr>ax_out := []\<rparr>)) kvs)) @ rest) = Some (resp, rest)
      \<and> rs_Code resp = code \<and> rs_Msg resp = msg \<and> response_Map resp = map_of (rev kvs)"
    by (rule answer_survives [OF assms(7-13)])
qed


definition witness_ctx :: api_ctx where
  "witness_ctx = \<lparr>ax_Authed = False, ax_User = [], ax_Nonce = [], ax_Method = [], ax_Args = Map.empty, ax_in = [], ax_out = []\<rparr>"

theorem api_roundtrip_witness:
  "\<exists>ctx' resp. readRequest (witness_ctx\<lparr>ax_in := client_request ''update'' [(''obj'', ''Top:a b''), (''result'', ''50% + 1'')]\<rparr>) = (True, ctx')
    \<and> ax_Method ctx' = ''update'' \<and> ax_Args ctx' ''result'' = Some ''50% + 1''
    \<and> client_response (ax_out (SendFinal (SendKVP ''k'' ''a:b'' (SendResponse 200 ''OK'' (witness_ctx\<lparr>ax_out := []\<rparr>))))) = Some (resp, [])
    \<and> rs_Code resp = 200 \<and> response_Map resp ''k'' = Some ''a:b''"
proof -
  have e: "UrlEncode ''Top:a b'' = ''Top%3Aa%20b''" "UrlEncode ''50% + 1'' = ''50%25%20%2B%201''" "UrlEncode ''a:b'' = ''a%3Ab''"
    by code_simp+
  have "lines_ok [(''obj'', ''Top:a b''), (''result'', ''50% + 1'')]" "lines_ok [(''k'', ''a:b'')]"
    by (simp_all add: lines_ok_def kvp_line_def key_ok_def is_space_def e)
  note ok = this
  let ?args = "[(''obj'', ''Top:a b''), (''result'', ''50% + 1'')]" and ?kvs = "[(''k'', ''a:b'')]"
  have "(\<exists>ctx'. readRequest (witness_ctx\<lparr>ax_in := client_request ''update'' ?args @ []\<rparr>) = (True, ctx')
      \<and> ax_Method ctx' = ''update'' \<and> ax_Args ctx' = map_of (rev ?args) \<and> ax_in ctx' = [] \<and> ax_out ctx' = ax_out witness_ctx)
    \<and> (\<exists>resp. client_response (ax_out (SendFinal (foldl (\<lambda>c kv. SendKVP (fst kv) (snd kv) c)
             (SendResponse 200 ''OK'' (witness_ctx\<lparr>ax_out := []\<rparr>)) ?kvs)) @ []) = Some (resp, [])
      \<and> rs_Code resp = 200 \<and> rs_Msg resp = ''OK'' \<and> response_Map resp = map_of (rev ?kvs))"
    by (rule api_roundtrip) (use ok in \<open>simp_all add: is_space_def\<close>)
  then obtain ctx' resp where r: "readRequest (witness_ctx\<lparr>ax_in := client_request ''update'' ?args\<rparr>) = (True, ctx')"
      "ax_Method ctx' = ''update''" "ax_Args ctx' = map_of (rev ?args)"
    and c: "client_response (ax_out (SendFinal (SendKVP ''k'' ''a:b'' (SendResponse 200 ''OK'' (witness_ctx\<lparr>ax_out := []\<rparr>))))) = Some (resp, [])"
      "rs_Code resp = 200" "response_Map resp = map_of (rev ?kvs)"
    unfolding append_Nil2 foldl_Cons foldl_Nil fst_conv snd_conv by blast
  have "ax_Args ctx' ''result'' = Some ''50% + 1''" "response_Map resp ''k'' = Some ''a:b''" by (simp_all add: r c)
  with r(1,2) c(1,2) show ?thesis by blast
qed

section \<open>Who may call what\<close>

text \<open>Over a connection that is neither local nor TLS there is no user and no authentication.\<close>

lemma readRequest_auth: "readRequest ctx = (ok, ctx') \<Longrightarrow> ax_Authed ctx' = ax_Authed ctx \<and> ax_User ctx' = ax_User ctx"
  by (auto simp: readRequest_def Let_def split: option.splits list.splits if_splits prod.splits)

lemma dispatch_auth: "api_dispatch router ctx w = (ctx', w') \<Longrightarrow> ax_Authed ctx' = ax_Authed ctx \<and> ax_User ctx' = ax_User ctx"
  by (auto simp: api_dispatch_def SendResponseFinal_def SendFinal_def SendResponse_def api_Send_def Let_def
      split: option.splits if_splits prod.splits)

lemma dispatch_open:
  assumes "\<And>path t ctx w. router path = Some t \<Longrightarrow> \<not> rt_needauth t \<Longrightarrow> P w \<Longrightarrow> P (fst (rt_f t ctx w))"
    and "\<not> ax_Authed ctx" "P w"
  shows "P (snd (api_dispatch router ctx w))"
proof (cases "router (ax_Method ctx)")
  case (Some t)
  show ?thesis
  proof (cases "rt_needauth t")
    case False
    then show ?thesis
      using Some assms(1) [OF Some False assms(3), of ctx] by (cases "rt_f t ctx w") (simp add: api_dispatch_def Let_def)
  qed (use Some assms in \<open>simp add: api_dispatch_def\<close>)
qed (use assms in \<open>simp add: api_dispatch_def\<close>)

lemma api_loop_open:
  assumes P: "\<And>path t ctx w. router path = Some t \<Longrightarrow> \<not> rt_needauth t \<Longrightarrow> P w \<Longrightarrow> P (fst (rt_f t ctx w))"
  shows "\<not> ax_Authed ctx \<Longrightarrow> ax_User ctx = [] \<Longrightarrow> P w \<Longrightarrow>
    P (snd (api_loop router ob Tcp ctx w)) \<and> ax_User (fst (api_loop router ob Tcp ctx w)) = []"
proof (induction "length (ax_in ctx)" arbitrary: ctx w rule: less_induct)
  case less
  obtain ok ctx1 where r: "readRequest ctx = (ok, ctx1)" by force
  note a = readRequest_auth [OF r]
  obtain ctx2 w2 where d: "api_dispatch router ctx1 w = (ctx2, w2)" by force
  have "P w2" using dispatch_open [of router P ctx1 w, OF P] a less.prems d by simp
  moreover have "length (ax_in ctx2) < length (ax_in ctx)" if ok
    using dispatch_in [OF d] readRequest_shorter [of ctx ctx1] r that by simp
  ultimately show ?case
    using less.hyps [of ctx2 w2] less.prems a dispatch_auth [OF d] r
    by (subst (1 2) api_loop.simps) (auto simp: Let_def d split: option.splits)
qed

text \<open>C24: without authentication only the open routes act. Whatever bytes arrive over a connection
  that is neither a local socket nor TLS, the program's state keeps every property that the
  handlers open to everybody keep (and the notice that an unnamed user disconnected): no
  handler that needs authentication runs, and no peer is ever reported as connected.\<close>

theorem unauthenticated_safe:
  assumes "\<And>path t ctx w. router path = Some t \<Longrightarrow> \<not> rt_needauth t \<Longrightarrow> P w \<Longrightarrow> P (fst (rt_f t ctx w))"
    and "\<And>sv w. ob = Some sv \<Longrightarrow> P w \<Longrightarrow> P (sv_Disco sv [] w)" and "P w"
  shows "P (snd (apiRun router ob Tcp nonce input w))"
proof -
  have "P (snd (api_loop router ob Tcp ctx w)) \<and> ax_User (fst (api_loop router ob Tcp ctx w)) = []"
    if "\<not> ax_Authed ctx" "ax_User ctx = []" for ctx
    using api_loop_open [of router P ctx w ob] assms(1,3) that by blast
  then have loop: "P (snd (api_loop router ob Tcp ctx w)) \<and> ax_User (fst (api_loop router ob Tcp ctx w)) = []"
    if "\<not> ax_Authed ctx" "ax_User ctx = []" for ctx using that by blast
  define c where "c = \<lparr>ax_Authed = False, ax_User = [], ax_Nonce = [], ax_Method = [], ax_Args = Map.empty, ax_in = input, ax_out = []\<rparr>"
  define r where "r = (case nonce of None \<Rightarrow> (c, w) | Some n \<Rightarrow> api_loop router ob Tcp (c\<lparr>ax_Nonce := n\<rparr>) w)"
  have "P (snd r) \<and> ax_User (fst r) = []"
    using loop [of "c\<lparr>ax_Nonce := the nonce\<rparr>"] assms(3) by (cases nonce) (simp_all add: r_def c_def)
  moreover have "snd (apiRun router ob Tcp nonce input w) = (case ob of None \<Rightarrow> snd r | Some sv \<Rightarrow> sv_Disco sv (ax_User (fst r)) (snd r))"
    by (simp add: apiRun_def r_def c_def Let_def split: prod.split option.split)
  ultimately show ?thesis using assms(2) by (cases ob) simp_all
qed


theorem unauthenticated_safe_witness:
  "snd (apiRun [''ping'' \<mapsto> \<lparr>rt_needauth = False, rt_f = apiFuncPing\<rparr>,
      ''exit'' \<mapsto> \<lparr>rt_needauth = True, rt_f = \<lambda>ctx w. (w + 1, [], True)\<rparr>] None Tcp (Some ''n'') (client_request ''exit'' []) (0 :: nat)) = 0"
  by (rule unauthenticated_safe [where P = "\<lambda>w. w = 0"]) (auto simp: apiFuncPing_def split: if_splits)

end
