(* ===== verification/Darp.thy ===== *)
theory Darp
  imports Aggregate Api
begin

text \<open>
  Package \<open>darp\<close> (\<open>src/argus/darp\<close>): the redundancy protocol. A server knows its peers and
  when it last heard of each, combines the statuses the peers report for an object
  (\<open>status.go\<close>), and sends its own results to its masters (\<open>darp.go\<close>, \<open>client.go\<close>).

  The clock, the values the configuration reader puts in a \<open>DARP\<close> and the outcome of
  resolving its address are arguments. A map ranged over is the list of its entries in the
  order of the visit. A panic is \<^const>\<open>None\<close>.
\<close>

section \<open>State\<close>

record darp =
  d_Name :: string
  d_Type :: string
  d_Fetch_Config :: string
  d_Port :: int

record darp_status =
  ds_IsUp :: bool
  ds_Lastt :: int

record send_msg =
  sm_f :: string
  sm_m :: "(string \<times> string) list"

record darp_state =
  dp_MyId :: string
  dp_MyDarp :: "darp option"
  dp_iHaveSlaves :: bool
  dp_IsEnabled :: bool
  dp_serverRunning :: int
  dp_all :: "string \<rightharpoonup> darp"
  dp_masters :: "string \<rightharpoonup> darp"
  dp_ch :: "string \<rightharpoonup> send_msg list"   \<comment> \<open>the clients' queues, once started\<close>
  dp_status :: "string \<rightharpoonup> darp_status"
  dp_noDarp :: "string \<rightharpoonup> bool"

abbreviation (input) DEFAULTPORT :: int where "DEFAULTPORT \<equiv> 2055"
abbreviation (input) QUEUECAP :: nat where "QUEUECAP \<equiv> 100"

definition darp_start :: darp_state where
  "darp_start = \<lparr>dp_MyId = ''local'', dp_MyDarp = None, dp_iHaveSlaves = False, dp_IsEnabled = False,
     dp_serverRunning = 0, dp_all = Map.empty, dp_masters = Map.empty, dp_ch = Map.empty, dp_status = Map.empty,
     dp_noDarp = Map.empty\<rparr>"

text \<open>\<open>name\<close> is the block's name, \<open>d\<close> what the reader makes of the block, \<open>iperr\<close> the error of
  \<open>resolv.Config\<close>, \<open>cfname\<close> the \<open>darp_name\<close> of the program's settings.\<close>

definition darp_New :: "string \<Rightarrow> darp \<Rightarrow> string option \<Rightarrow> string \<Rightarrow> darp_state \<Rightarrow> string + darp_state" where
  "darp_New name d iperr cfname st =
     (case iperr of
        Some e \<Rightarrow> Inl e
      | None \<Rightarrow>
          let t = to_lower (d_Type d) in
          if name = [] then Inl ''darp name?''
          else if dp_all st name \<noteq> None then Inl ''duplicate darp name''
          else if t \<noteq> ''master'' \<and> t \<noteq> ''slave'' then Inl ''must specify type: master or slave''
          else
            let st = st\<lparr>dp_all := (dp_all st)(name \<mapsto> d), dp_status := (dp_status st)(name \<mapsto> \<lparr>ds_IsUp = False, ds_Lastt = 0\<rparr>),
                        dp_IsEnabled := True\<rparr>;
                st = (if cfname \<noteq> [] then st\<lparr>dp_MyId := cfname\<rparr> else st);
                st = (if name = dp_MyId st then st\<lparr>dp_MyDarp := Some d\<rparr> else st)
            in Inr (if d_Type d = ''master'' \<and> d_Name d \<noteq> dp_MyId st
                    then st\<lparr>dp_masters := (dp_masters st)(d_Name d \<mapsto> d)\<rparr> else st))"

text \<open>The flag tells of the warning that there is no entry for this server.\<close>

definition darp_Init :: "darp_state \<Rightarrow> bool \<times> darp_state" where
  "darp_Init st =
     (if \<not> dp_IsEnabled st then (False, st\<lparr>dp_noDarp := (dp_noDarp st)(dp_MyId st \<mapsto> True)\<rparr>)
      else case dp_MyDarp st of
        None \<Rightarrow> (True, st)
      | Some my \<Rightarrow>
          let st = (if d_Type my = ''master'' \<and> card (dom (dp_all st)) > 1 then st\<lparr>dp_iHaveSlaves := True\<rparr> else st)
          in (False, st\<lparr>dp_serverRunning := d_Port my, dp_ch := (\<lambda>n. map_option (\<lambda>_. []) (dp_masters st n))\<rparr>))"

definition darp_Agent :: "int \<Rightarrow> int \<Rightarrow> darp_state \<Rightarrow> darp_state" where
  "darp_Agent port cfport st =
     (let port = (if port = 0 then cfport else port);
          port = (if port = 0 then DEFAULTPORT else port)
      in if dp_serverRunning st = port then st else st\<lparr>dp_serverRunning := port\<rparr>)"

section \<open>Who is up\<close>

definition darp_Connected :: "int \<Rightarrow> string \<Rightarrow> darp_state \<Rightarrow> darp_state" where
  "darp_Connected now name st =
     (case dp_status st name of
        None \<Rightarrow> st
      | Some _ \<Rightarrow> st\<lparr>dp_status := (dp_status st)(name \<mapsto> \<lparr>ds_IsUp = True, ds_Lastt = now\<rparr>)\<rparr>)"

definition darp_Disco :: "string \<Rightarrow> darp_state \<Rightarrow> darp_state" where
  "darp_Disco name st =
     (case dp_status st name of
        None \<Rightarrow> st
      | Some s \<Rightarrow> st\<lparr>dp_status := (dp_status st)(name \<mapsto> s\<lparr>ds_IsUp := False\<rparr>)\<rparr>)"

definition darp_server :: "int \<Rightarrow> darp_state serverer" where
  "darp_server now = \<lparr>sv_Connected = darp_Connected now, sv_Disco = darp_Disco\<rparr>"

definition GetStatuses :: "int \<Rightarrow> darp_state \<Rightarrow> (string \<rightharpoonup> bool)" where
  "GetStatuses now st =
     (if \<not> dp_IsEnabled st then dp_noDarp st
      else (\<lambda>n. case dp_status st n of
          None \<Rightarrow> None
        | Some s \<Rightarrow> Some (if n = dp_MyId st then True else if ds_IsUp s \<and> ds_Lastt s > now - 120 then True else False)))"

definition darp_IsValid :: "string \<Rightarrow> darp_state \<Rightarrow> bool" where
  "darp_IsValid name st = (if name = dp_MyId st then True else dp_all st name \<noteq> None)"

definition darp_IsUp :: "int \<Rightarrow> string \<Rightarrow> darp_state \<Rightarrow> bool" where
  "darp_IsUp now name st =
     (if \<not> dp_IsEnabled st then False
      else if name = dp_MyId st then True
      else case dp_status st name of
             None \<Rightarrow> False
           | Some s \<Rightarrow> if ds_IsUp s \<and> ds_Lastt s > now - 120 then True else False)"

section \<open>Combining the peers' statuses\<close>

text \<open>\<open>statuses\<close> has the zero value, unknown, for a peer that reported nothing. The result is the table
  and the number counted.\<close>

fun darp_count :: "gravity \<Rightarrow> (string \<rightharpoonup> status) \<Rightarrow> (string \<times> bool) list \<Rightarrow> int list \<Rightarrow> int \<Rightarrow> (int list \<times> int) option" where
  "darp_count g statuses [] cnt n = Some (cnt, n)"
| "darp_count g statuses ((host, up) # darps) cnt n =
     (let s = (case statuses host of None \<Rightarrow> UNKNOWN | Some s \<Rightarrow> s) in
      if up \<or> g \<noteq> GRAV_IETF then
        (case elem_at cnt s of
           None \<Rightarrow> None
         | Some k \<Rightarrow> darp_count g statuses darps (cnt[nat s := k + 1]) (n + 1))
      else darp_count g statuses darps (cnt[nat UNKNOWN := cnt ! nat UNKNOWN + 1]) n)"

definition darp_decide :: "gravity \<Rightarrow> status \<Rightarrow> int list \<Rightarrow> int \<Rightarrow> status" where
  "darp_decide g mystatus cnt n =
     (let cnt = cnt[nat UNKNOWN := cnt ! nat UNKNOWN + (cnt ! nat OVERRIDE + cnt ! nat DEPENDS)];
          present = (\<lambda>s. cnt ! nat s > 0)
      in if g = GRAV_SELF then mystatus
         else if g = GRAV_UP then (case find present [CLEAR..CRITICAL] of Some s \<Rightarrow> s | None \<Rightarrow> CLEAR)
         else if g = GRAV_DN then (case find present (rev [CLEAR..CRITICAL]) of Some s \<Rightarrow> s | None \<Rightarrow> CLEAR)
         else if g = GRAV_VOTE \<or> g = GRAV_IETF then
           (case vote_scan cnt ((n + 1) sdiv 2) 0 [CLEAR..CRITICAL] of Some s \<Rightarrow> s | None \<Rightarrow> CLEAR)
         else UNKNOWN)"

definition darp_CalcAggrStatus :: "gravity \<Rightarrow> status \<Rightarrow> (string \<rightharpoonup> status) \<Rightarrow> (string \<times> bool) list \<Rightarrow> status option" where
  "darp_CalcAggrStatus g mystatus statuses darps =
     (case darp_count g statuses darps (replicate 8 0) 0 of
        None \<Rightarrow> None
      | Some (cnt, n) \<Rightarrow> Some (darp_decide g mystatus cnt n))"

text \<open>\<open>hosts\<close> is the order in which the map \<open>GetStatuses\<close> makes is visited.\<close>

definition AggrStatus :: "int \<Rightarrow> string list \<Rightarrow> gravity \<Rightarrow> status \<Rightarrow> (string \<rightharpoonup> status) \<Rightarrow> darp_state \<Rightarrow> status option" where
  "AggrStatus now hosts g mystatus statuses st =
     (if g = GRAV_SELF \<or> \<not> dp_iHaveSlaves st \<or> \<not> dp_IsEnabled st then Some mystatus
      else darp_CalcAggrStatus g mystatus statuses
             (List.map_filter (\<lambda>h. map_option (\<lambda>up. (h, up)) (GetStatuses now st h)) hosts))"

section \<open>Telling the masters\<close>

definition TellMyMasters :: "string \<Rightarrow> (string \<times> string) list \<Rightarrow> darp_state \<Rightarrow> darp_state" where
  "TellMyMasters f m st =
     st\<lparr>dp_ch := (\<lambda>n. case (dp_masters st n, dp_ch st n) of
         (Some _, Some q) \<Rightarrow> Some (if length q < QUEUECAP then q @ [\<lparr>sm_f = f, sm_m = m\<rparr>] else q)
       | (_, c) \<Rightarrow> c)\<rparr>"

definition darp_SendUpdate :: "string \<Rightarrow> status \<Rightarrow> string \<Rightarrow> string \<Rightarrow> darp_state \<Rightarrow> darp_state" where
  "darp_SendUpdate obj status result reason st =
     (if \<not> dp_IsEnabled st then st
      else TellMyMasters ''update''
        [(''obj'', obj), (''status'', show_int status), (''result'', result), (''reason'', reason)] st)"

text \<open>The client takes the next message of its queue and sends it: the bytes sent, if any, and whether
  it must reconnect. A message whose call fails is not sent again.\<close>

definition client_step :: "string \<Rightarrow> (string \<Rightarrow> bool) \<Rightarrow> darp_state \<Rightarrow> (string \<times> bool) option \<times> darp_state" where
  "client_step n fails st =
     (case dp_ch st n of
        Some (msg # q) \<Rightarrow>
          let req = client_request (sm_f msg) (sm_m msg)
          in (Some (req, fails req), st\<lparr>dp_ch := (dp_ch st)(n \<mapsto> q)\<rparr>)
      | _ \<Rightarrow> (None, st))"

section \<open>Combining: the contract\<close>

text \<open>The statuses that cnt: of all peers, or with \<open>ietf\<close> of those that are up.\<close>

definition seen :: "gravity \<Rightarrow> (string \<rightharpoonup> status) \<Rightarrow> (string \<times> bool) list \<Rightarrow> status list" where
  "seen g statuses darps =
     map (\<lambda>(h, up). case statuses h of None \<Rightarrow> UNKNOWN | Some s \<Rightarrow> s) (filter (\<lambda>(h, up). up \<or> g \<noteq> GRAV_IETF) darps)"

definition severities :: "status list \<Rightarrow> status list" where
  "severities xs = filter (\<lambda>s. CLEAR \<le> s \<and> s \<le> CRITICAL) xs"

lemma hist_snoc: "0 \<le> s \<Longrightarrow> s < 8 \<Longrightarrow> (hist xs)[nat s := hist xs ! nat s + 1] = hist (xs @ [s])"
  by (auto simp: hist_def list_eq_iff_nth_eq nth_list_update nat_less_iff)

text \<open>Up to the entry for unknown, which no gravity looks at, the table counts what was seen.\<close>

definition same_severities :: "int list \<Rightarrow> int list \<Rightarrow> bool" where
  "same_severities a b \<longleftrightarrow> length a = 8 \<and> length b = 8 \<and> (\<forall>s. 1 \<le> s \<longrightarrow> s \<le> MAXSTATUS \<longrightarrow> a ! nat s = b ! nat s)"

lemma darp_count_seen:
  assumes "list_all (\<lambda>s. 0 \<le> s \<and> s \<le> MAXSTATUS) (seen g statuses darps)" "same_severities c (hist xs)"
  shows "\<exists>cnt. darp_count g statuses darps c n = Some (cnt, n + int (length (seen g statuses darps)))
    \<and> same_severities cnt (hist (xs @ seen g statuses darps))"
  using assms
proof (induction darps arbitrary: c n xs)
  case (Cons d darps)
  obtain host up where d: "d = (host, up)" by force
  define s where "s = (case statuses host of None \<Rightarrow> UNKNOWN | Some s \<Rightarrow> s)"
  show ?case
  proof (cases "up \<or> g \<noteq> GRAV_IETF")
    case True
    then have se: "seen g statuses (d # darps) = s # seen g statuses darps" by (auto simp: seen_def d s_def)
    then have s: "0 \<le> s" "s < 8" and r: "list_all (\<lambda>s. 0 \<le> s \<and> s \<le> MAXSTATUS) (seen g statuses darps)"
      using Cons.prems(1) by auto
    have len: "length c = 8" using Cons.prems(2) by (simp add: same_severities_def)
    then have "same_severities (c[nat s := c ! nat s + 1]) (hist (xs @ [s]))"
      using Cons.prems(2) s unfolding hist_snoc [OF s, symmetric] same_severities_def
      by (auto simp: nth_list_update nat_eq_iff2)
    moreover have "darp_count g statuses (d # darps) c n = darp_count g statuses darps (c[nat s := c ! nat s + 1]) (n + 1)"
      using True s len by (simp add: d s_def [symmetric] Let_def elem_at_def)
    ultimately show ?thesis
      using Cons.IH [OF r, of "c[nat s := c ! nat s + 1]" "xs @ [s]" "n + 1"] by (simp add: se algebra_simps)
  next
    case False
    then have se: "seen g statuses (d # darps) = seen g statuses darps" by (auto simp: seen_def d)
    have "same_severities (c[0 := c ! 0 + 1]) (hist xs)"
      using Cons.prems(2) by (auto simp: same_severities_def nth_list_update)
    moreover have "darp_count g statuses (d # darps) c n = darp_count g statuses darps (c[0 := c ! 0 + 1]) n"
      using False by (simp add: d Let_def)
    ultimately show ?thesis
      using Cons.IH [of "c[0 := c ! 0 + 1]" xs n] Cons.prems(1) by (simp add: se)
  qed
qed (simp add: seen_def)


lemma same_severities_decide:
  assumes "same_severities c (hist xs)"
  shows "darp_decide g my c n = darp_decide g my (hist xs) n"
proof -
  have l: "length c = 8" "length (hist xs) = 8" using assms by (simp_all add: same_severities_def)
  have s: "c ! nat s = hist xs ! nat s" if "s \<in> set [1..5]" for s using that assms by (simp add: same_severities_def)
  have u: "a[0 := v] ! nat s = a ! nat s" if "s \<in> set [1..5]" "length a = 8" for s v and a :: "int list"
    using that by (auto simp: nth_list_update)
  have v: "vote_scan (a[0 := v]) h cum [1..5] = vote_scan (hist xs) h cum [1..5]" if "a = c \<or> a = hist xs" for a v h cum
  proof (rule vote_scan_cong)
    show "a[0 := v] ! nat t = hist xs ! nat t" if "t \<in> set [1..5]" for t using that \<open>a = c \<or> a = hist xs\<close> u l s by auto
  qed
  have f: "find (\<lambda>s. a[0 := v] ! nat s > 0) ys = find (\<lambda>s. hist xs ! nat s > 0) ys"
    if "a = c \<or> a = hist xs" "set ys \<subseteq> set [1..5]" for a v ys
    by (rule find_cong [OF refl]) (use that u l s in auto)
  show ?thesis
    using v [of c] v [of "hist xs"] f [of c "[1..5]"] f [of "hist xs" "[1..5]"] f [of c "rev [1..5]"] f [of "hist xs" "rev [1..5]"]
    by (simp add: darp_decide_def Let_def)
qed

text \<open>What the peers agree on.\<close>

definition agreed :: "gravity \<Rightarrow> status list \<Rightarrow> status" where
  "agreed g xs =
     (let sv = severities xs in
      if sv = [] then CLEAR
      else if g = GRAV_UP then Min (set sv)
      else if g = GRAV_DN then Max (set sv)
      else (case find (\<lambda>s. int (length xs) \<le> 2 * at_most sv s) [CLEAR..CRITICAL] of Some s \<Rightarrow> s | None \<Rightarrow> CLEAR))"

lemma count_severities: "1 \<le> s \<Longrightarrow> s \<le> 5 \<Longrightarrow> count_list (severities xs) s = count_list xs s"
  by (induction xs) (auto simp: severities_def)

lemma darp_decide_agreed:
  assumes "g \<in> {GRAV_UP, GRAV_DN, GRAV_VOTE, GRAV_IETF}"
  shows "darp_decide g my (hist xs) (int (length xs)) = agreed g xs"
proof -
  define c where "c = (hist xs)[0 := hist xs ! 0 + (hist xs ! nat OVERRIDE + hist xs ! nat DEPENDS)]"
  have c: "c ! nat s = int (count_list (severities xs) s)" if "1 \<le> s" "s \<le> 5" for s
    using that hist_nth [of s xs] by (simp add: c_def count_severities nth_list_update)
  have sub: "set (severities xs) \<subseteq> {1..5}" by (auto simp: severities_def)
  have pos: "c ! nat s > 0 \<longleftrightarrow> s \<in> set (severities xs)" if "1 \<le> s" "s \<le> 5" for s
    using c [OF that] count_list_0_iff [of "severities xs" s] by auto
  have up_dn: "severities xs \<noteq> [] \<Longrightarrow> find (\<lambda>s. c ! nat s > 0) [1..5] = Some (Min (set (severities xs)))"
    "severities xs \<noteq> [] \<Longrightarrow> find (\<lambda>s. c ! nat s > 0) (rev [1..5]) = Some (Max (set (severities xs)))"
    using find_upto [of 1 5 "\<lambda>s. c ! nat s > 0" "set (severities xs)"] pos sub by simp_all
  have none: "severities xs = [] \<Longrightarrow> find (\<lambda>s. c ! nat s > 0) ys = None" if "set ys \<subseteq> {1..5}" for ys
    using that pos by (auto simp: find_None_iff)
  have "at_most (severities xs) 0 = 0" by (rule at_most_none [OF sub]) simp
  then have scan: "vote_scan c h 0 [1..5] = find (\<lambda>s. h \<le> at_most (severities xs) s) [1..5]" for h
    using vote_scan_find [of 5 c "severities xs" 1 h] c sub by simp
  have half: "(int (length xs) + 1) sdiv 2 \<le> k \<longleftrightarrow> int (length xs) \<le> 2 * k" for k
    by (simp add: sdiv_nonneg) linarith
  have empty: "find (\<lambda>s. int (length xs) \<le> 2 * at_most [] s) [1..5] \<in> {None, Some 1}"
    by (cases "xs = []") (simp_all add: at_most_def upto.simps)
  have half: "vote_scan c ((int (length xs) + 1) sdiv 2) 0 [1..5] = find (\<lambda>s. int (length xs) \<le> 2 * at_most (severities xs) s) [1..5]"
    by (simp only: scan half)
  from assms consider "g = GRAV_UP" | "g = GRAV_DN" | "g = GRAV_VOTE \<or> g = GRAV_IETF" by auto
  then show ?thesis
  proof cases
    case 1
    then show ?thesis
      using up_dn(1) none [of "[1..5]"] by (simp add: darp_decide_def c_def [symmetric, simplified] agreed_def Let_def)
  next
    case 2
    then show ?thesis
      using up_dn(2) none [of "rev [1..5]"] by (simp add: darp_decide_def c_def [symmetric, simplified] agreed_def Let_def)
  next
    case 3
    have "darp_decide g my (hist xs) (int (length xs)) = (case vote_scan c ((int (length xs) + 1) sdiv 2) 0 [1..5] of Some s \<Rightarrow> s | None \<Rightarrow> 1)"
      using 3 by (auto simp: darp_decide_def c_def Let_def)
    then show ?thesis using 3 empty by (auto simp: half agreed_def Let_def)
  qed
qed

lemma calc_agreed:
  assumes "g \<in> {GRAV_UP, GRAV_DN, GRAV_VOTE, GRAV_IETF}" "list_all (\<lambda>s. 0 \<le> s \<and> s \<le> MAXSTATUS) (seen g statuses darps)"
  shows "darp_CalcAggrStatus g my statuses darps = Some (agreed g (seen g statuses darps))"
proof -
  have "same_severities (replicate 8 0) (hist [])" by (auto simp: same_severities_def hist_def)
  from darp_count_seen [OF assms(2) this, of 0] obtain cnt where
    c: "darp_count g statuses darps (replicate 8 0) 0 = Some (cnt, int (length (seen g statuses darps)))"
       "same_severities cnt (hist (seen g statuses darps))" by auto
  then show ?thesis
    using same_severities_decide [OF c(2)] darp_decide_agreed [OF assms(1)] by (simp add: darp_CalcAggrStatus_def)
qed

text \<open>C5: the combined status of an object seen from several servers. When every reported status is in
  range, the table of counts never panics and gives what the peers agree on: with \<open>up\<close> the
  best and with \<open>down\<close> the worst severity that some peer reports; with \<open>vote\<close> the least
  severity that at least half of the peers do not exceed, where a peer that reports
  unknown, override or depends counts as one that exceeds all; with \<open>ietf\<close> the same among
  the peers that are up; and clear when there is none.\<close>

theorem darp_aggregate:
  assumes "g \<in> {GRAV_UP, GRAV_DN, GRAV_VOTE, GRAV_IETF}" "list_all (\<lambda>s. 0 \<le> s \<and> s \<le> MAXSTATUS) (seen g statuses darps)"
  shows "darp_CalcAggrStatus g my statuses darps = Some (agreed g (seen g statuses darps))"
  using assms by (rule calc_agreed)

theorem darp_aggregate_witness:
  "darp_CalcAggrStatus GRAV_VOTE UNKNOWN [''a'' \<mapsto> CRITICAL, ''b'' \<mapsto> WARNING, ''c'' \<mapsto> CRITICAL] [(''a'', True), (''b'', True), (''c'', False)]
     = Some CRITICAL"
proof -
  have s: "seen GRAV_VOTE [''a'' \<mapsto> CRITICAL, ''b'' \<mapsto> WARNING, ''c'' \<mapsto> CRITICAL] [(''a'', True), (''b'', True), (''c'', False)] = [5, 2, 5]"
    by (simp add: seen_def)
  have "agreed GRAV_VOTE [5, 2, 5] = 5" by code_simp
  with darp_aggregate [of GRAV_VOTE "[''a'' \<mapsto> CRITICAL, ''b'' \<mapsto> WARNING, ''c'' \<mapsto> CRITICAL]" "[(''a'', True), (''b'', True), (''c'', False)]" UNKNOWN]
  show ?thesis by (simp add: s)
qed

text \<open>One critical report among three peers, two of which know nothing, is voted clear.\<close>

lemma vote_diluted: "agreed GRAV_VOTE [CRITICAL, UNKNOWN, UNKNOWN] = CLEAR"
  by code_simp


lemma find_least:
  assumes "find P [lo..hi] = Some r"
  shows "lo \<le> r \<and> r \<le> hi \<and> P r \<and> (\<forall>s. lo \<le> s \<longrightarrow> s < r \<longrightarrow> \<not> P s)"
proof -
  obtain i where i: "i < length [lo..hi]" "P ([lo..hi] ! i)" "r = [lo..hi] ! i" "\<forall>j < i. \<not> P ([lo..hi] ! j)"
    using assms by (auto simp: find_Some_iff)
  have n: "[lo..hi] ! j = lo + int j" if "j \<le> i" for j using i(1) that by simp
  have "\<not> P s" if "lo \<le> s" "s < r" for s
    using that i(3) n [of i] n [of "nat (s - lo)"] i(4) [rule_format, of "nat (s - lo)"] by (simp add: nat_less_iff nat_le_iff)
  then show ?thesis using i n [of i] by auto
qed

lemma severities_all: "set xs \<subseteq> {1..5} \<Longrightarrow> severities xs = xs"
  by (auto simp: severities_def filter_id_conv)

lemma agreed_median:
  assumes "xs \<noteq> []" "set xs \<subseteq> {1..5}" "g \<noteq> GRAV_UP" "g \<noteq> GRAV_DN"
  shows "is_median xs (agreed g xs)"
proof -
  have "find (\<lambda>s. int (length xs) \<le> 2 * at_most xs s) [1..5] \<noteq> None"
    using at_most_all [OF assms(2)] by (auto simp: find_None_iff)
  then obtain r where r: "find (\<lambda>s. int (length xs) \<le> 2 * at_most xs s) [1..5] = Some r" by blast
  note l = find_least [OF r]
  have "2 * at_most xs (r - 1) < int (length xs)"
  proof (cases "r = 1")
    case True
    then show ?thesis using at_most_none [OF assms(2), of 0] assms(1) by simp
  next
    case False
    then have "\<not> int (length xs) \<le> 2 * at_most xs (r - 1)" using l by simp
    then show ?thesis by simp
  qed
  then show ?thesis
    using l r assms severities_all [OF assms(2)] by (simp add: agreed_def is_median_def)
qed

interpretation peers: status_aggregate "\<lambda>g xs. darp_decide g UNKNOWN (hist xs) (int (length xs))" CRITICAL
proof
  fix xs :: "status list"
  assume xs: "xs \<noteq> []" "set xs \<subseteq> {1..5}"
  note s = severities_all [OF xs(2)]
  show "darp_decide GRAV_DN UNKNOWN (hist xs) (int (length xs)) = Max (set xs)"
    "darp_decide GRAV_UP UNKNOWN (hist xs) (int (length xs)) = Min (set xs)"
    using xs(1) s by (simp_all add: darp_decide_agreed agreed_def)
  show "is_median xs (darp_decide GRAV_VOTE UNKNOWN (hist xs) (int (length xs)))"
    using agreed_median [OF xs, of GRAV_VOTE] by (simp add: darp_decide_agreed)
qed

text \<open>With \<open>ietf\<close> the peers that are up vote.\<close>

lemma calc_vote:
  assumes "g \<in> {GRAV_UP, GRAV_DN, GRAV_VOTE, GRAV_IETF}" "list_all (\<lambda>s. 0 \<le> s \<and> s \<le> MAXSTATUS) (seen g statuses darps)"
  shows "darp_CalcAggrStatus g my statuses darps =
    Some (darp_decide (if g = GRAV_IETF then GRAV_VOTE else g) UNKNOWN (hist (seen g statuses darps)) (int (length (seen g statuses darps))))"
proof -
  have "agreed GRAV_IETF xs = agreed GRAV_VOTE xs" for xs by (simp add: agreed_def Let_def)
  then show ?thesis using calc_agreed [OF assms] darp_decide_agreed assms(1) by auto
qed

text \<open>C32: the combination is monotone and stays between its extremes. When every peer reports a
  severity and none of them reports a better one the second time, the combined status is not
  better either; and it lies between the best and the worst combination. With \<open>ietf\<close>, where only the
  peers that are up vote, one of them must be up; when none is, the combination is clear whatever
  they report (\<open>ietf_nobody_up\<close>).\<close>

theorem darp_monotone:
  assumes "g \<in> {GRAV_UP, GRAV_DN, GRAV_VOTE, GRAV_IETF}" "darps \<noteq> []" "g = GRAV_IETF \<longrightarrow> list_ex (\<lambda>(h, up). up) darps"
    and "list_all (\<lambda>(h, up). \<exists>s t. a h = Some s \<and> b h = Some t \<and> CLEAR \<le> s \<and> s \<le> t \<and> t \<le> CRITICAL) darps"
  shows "\<exists>r r' lo hi. darp_CalcAggrStatus g my a darps = Some r \<and> darp_CalcAggrStatus g my b darps = Some r' \<and> r \<le> r'
    \<and> darp_CalcAggrStatus GRAV_UP my a darps = Some lo \<and> darp_CalcAggrStatus GRAV_DN my a darps = Some hi \<and> lo \<le> r \<and> r \<le> hi"
proof -
  define k where "k = (if g = GRAV_IETF then GRAV_VOTE else g)"
  have k: "k \<in> {GRAV_UP, GRAV_DN, GRAV_VOTE}" using assms(1) by (auto simp: k_def)
  have range: "set (seen g' a darps) \<subseteq> {1..5}" "set (seen g' b darps) \<subseteq> {1..5}" for g'
    using assms(4) by (fastforce simp: seen_def list_all_iff)+
  then have ok: "list_all (\<lambda>s. 0 \<le> s \<and> s \<le> MAXSTATUS) (seen g' a darps)" "list_all (\<lambda>s. 0 \<le> s \<and> s \<le> MAXSTATUS) (seen g' b darps)" for g'
    by (fastforce simp: list_all_iff)+
  have ne: "seen g a darps \<noteq> []" using assms(2,3) by (auto simp: seen_def filter_empty_conv list_ex_iff neq_Nil_conv split_beta)
  have all: "set (seen g a darps) \<subseteq> set (seen g' a darps)" "seen g' a darps \<noteq> []" if "g' \<noteq> GRAV_IETF" for g'
    using that assms(2) by (auto simp: seen_def)
  have le: "list_all2 (\<le>) (seen g a darps) (seen g b darps)"
    using assms(4) by (fastforce simp: seen_def list_all_iff list.rel_map list_all2_same)
  have calc: "darp_CalcAggrStatus g my a darps = Some (darp_decide k UNKNOWN (hist (seen g a darps)) (int (length (seen g a darps))))"
    "darp_CalcAggrStatus g my b darps = Some (darp_decide k UNKNOWN (hist (seen g b darps)) (int (length (seen g b darps))))"
    unfolding k_def by (rule calc_vote [OF assms(1) ok(1)], rule calc_vote [OF assms(1) ok(2)])
  have mono: "darp_decide k UNKNOWN (hist (seen g a darps)) (int (length (seen g a darps)))
      \<le> darp_decide k UNKNOWN (hist (seen g b darps)) (int (length (seen g b darps)))"
    by (rule peers.monotone [OF ne range k le])
  have mem: "darp_decide k UNKNOWN (hist (seen g a darps)) (int (length (seen g a darps))) \<in> set (seen g a darps)"
    by (rule peers.member [OF ne range(1) k])
  have "darp_CalcAggrStatus GRAV_UP my a darps = Some (Min (set (seen GRAV_UP a darps)))"
    "darp_CalcAggrStatus GRAV_DN my a darps = Some (Max (set (seen GRAV_DN a darps)))"
    using calc_vote [OF _ ok(1), of GRAV_UP my] calc_vote [OF _ ok(1), of GRAV_DN my]
      peers.up [OF all(2) range(1), of GRAV_UP] peers.down [OF all(2) range(1), of GRAV_DN] by simp_all
  moreover have "Min (set (seen GRAV_UP a darps)) \<le> x" "x \<le> Max (set (seen GRAV_DN a darps))" if "x \<in> set (seen g a darps)" for x
    using that all(1) [of GRAV_UP] all(1) [of GRAV_DN] by (auto intro!: Min_le Max_ge)
  ultimately show ?thesis using calc mono mem by auto
qed

theorem darp_monotone_witness:
  "\<exists>r r'. darp_CalcAggrStatus GRAV_IETF UNKNOWN [''a'' \<mapsto> MINOR, ''b'' \<mapsto> CLEAR] [(''a'', True), (''b'', False)] = Some r
    \<and> darp_CalcAggrStatus GRAV_IETF UNKNOWN [''a'' \<mapsto> MAJOR, ''b'' \<mapsto> WARNING] [(''a'', True), (''b'', False)] = Some r' \<and> r \<le> r'"
  using darp_monotone [of GRAV_IETF "[(''a'', True), (''b'', False)]" "[''a'' \<mapsto> MINOR, ''b'' \<mapsto> CLEAR]" "[''a'' \<mapsto> MAJOR, ''b'' \<mapsto> WARNING]" UNKNOWN]
  by auto

lemma ietf_nobody_up:
  assumes "list_all (\<lambda>(h, up). \<not> up) darps"
  shows "darp_CalcAggrStatus GRAV_IETF my statuses darps = Some CLEAR"
proof -
  have "filter (\<lambda>(h, up). up \<or> GRAV_IETF \<noteq> GRAV_IETF) darps = []" using assms by (auto simp: list_all_iff filter_empty_conv)
  then have "seen GRAV_IETF statuses darps = []" by (simp add: seen_def)
  then show ?thesis using calc_agreed [of GRAV_IETF statuses darps my] by (simp add: agreed_def severities_def)
qed


section \<open>Sessions\<close>

text \<open>The contract of an object that hears of connections: it keeps \<open>ok\<close>. Then so does a whole session
  whose handlers keep it.\<close>

locale server_object =
  fixes sv :: "'w serverer" and ok :: "'w \<Rightarrow> bool" and who :: "string \<Rightarrow> bool"
  assumes connected: "ok w \<Longrightarrow> who u \<Longrightarrow> ok (sv_Connected sv u w)"
    and disco: "ok w \<Longrightarrow> who u \<Longrightarrow> ok (sv_Disco sv u w)"
begin

definition keeps :: "(string \<rightharpoonup> 'w route) \<Rightarrow> bool" where
  "keeps router \<longleftrightarrow> (\<forall>path t ctx w. router path = Some t \<longrightarrow> ok w \<longrightarrow> ok (fst (rt_f t ctx w)))"

lemma dispatch_ok: "keeps router \<Longrightarrow> ok w \<Longrightarrow> ok (snd (api_dispatch router ctx w))"
proof (cases "router (ax_Method ctx)")
  case (Some t)
  assume k: "keeps router" "ok w"
  then have "ok (fst (rt_f t ctx w))" using Some by (auto simp: keeps_def)
  then show ?thesis using Some k(2) by (cases "rt_f t ctx w") (simp add: api_dispatch_def Let_def)
qed (simp add: api_dispatch_def)

lemma loop_ok:
  assumes "keeps router" "who u" "u \<noteq> []"
  shows "ok w \<Longrightarrow> ax_User ctx = [] \<or> ax_User ctx = u \<Longrightarrow>
    ok (snd (api_loop router (Some sv) (Tls (Some u)) ctx w)) \<and> ax_User (fst (api_loop router (Some sv) (Tls (Some u)) ctx w)) = u"
proof (induction "length (ax_in ctx)" arbitrary: ctx w rule: less_induct)
  case less
  obtain good ctx0 where r: "readRequest ctx = (good, ctx0)" by force
  define ctx1 where "ctx1 = (if ax_User ctx0 = [] then tlsInfo (Tls (Some u)) ctx0 else ctx0)"
  have u: "ax_User ctx1 = u" "ax_in ctx1 = ax_in ctx0"
    using readRequest_auth [OF r] less.prems(2) by (auto simp: ctx1_def tlsInfo_def)
  obtain ctx2 w2 where d: "api_dispatch router ctx1 (sv_Connected sv u w) = (ctx2, w2)" by force
  have w2: "ok w2" using dispatch_ok [OF assms(1) connected [OF less.prems(1) assms(2)], of ctx1] d by simp
  have len: "length (ax_in ctx2) < length (ax_in ctx)" if good
    using dispatch_in [OF d] readRequest_shorter [of ctx ctx0] r that u(2) by simp
  have loop: "api_loop router (Some sv) (Tls (Some u)) ctx w
      = (if good then api_loop router (Some sv) (Tls (Some u)) ctx2 w2 else (ctx1, w))"
    using u(1) assms(3) by (subst api_loop.simps) (simp add: r Let_def ctx1_def [symmetric] d)
  show ?case
  proof (cases good)
    case True
    then show ?thesis using less.hyps [OF len w2] dispatch_auth [OF d] u(1) by (simp add: loop)
  next
    case False
    then show ?thesis using less.prems(1) u(1) by (simp add: loop)
  qed
qed

lemma run_ok:
  assumes "keeps router" "who u" "u \<noteq> []" "ok w"
  shows "\<exists>w'. ok w' \<and> snd (apiRun router (Some sv) (Tls (Some u)) nonce input w) = sv_Disco sv u w'"
proof -
  define c where "c = \<lparr>ax_Authed = True, ax_User = [], ax_Nonce = [], ax_Method = [], ax_Args = Map.empty, ax_in = input, ax_out = []\<rparr>"
  have "ok (snd (api_loop router (Some sv) (Tls (Some u)) c w)) \<and> ax_User (fst (api_loop router (Some sv) (Tls (Some u)) c w)) = u"
    by (rule loop_ok [OF assms]) (simp add: c_def)
  then show ?thesis by (auto simp: apiRun_def c_def split: prod.split)
qed

end

text \<open>The peers but \<open>u\<close> are as at the start, and no peer appears or vanishes.\<close>

definition others_kept :: "darp_state \<Rightarrow> string \<Rightarrow> darp_state \<Rightarrow> bool" where
  "others_kept st u w \<longleftrightarrow> dom (dp_status w) = dom (dp_status st) \<and> (\<forall>n. n \<noteq> u \<longrightarrow> dp_status w n = dp_status st n)
     \<and> dp_MyId w = dp_MyId st \<and> dp_IsEnabled w = dp_IsEnabled st"

lemma others_kept_ops:
  assumes "others_kept st u w"
  shows "others_kept st u (darp_Connected now u w)" "others_kept st u (darp_Disco u w)"
proof -
  have "dp_status w u = Some s \<Longrightarrow> insert u (dom (dp_status st)) = dom (dp_status st)" for s
    using assms by (auto simp: others_kept_def dom_def)
  then show "others_kept st u (darp_Connected now u w)" "others_kept st u (darp_Disco u w)"
    using assms by (auto simp: others_kept_def darp_Connected_def darp_Disco_def split: option.splits)
qed

interpretation peer: server_object "darp_server now" "others_kept st u" "\<lambda>n. n = u"
  by unfold_locales (simp_all add: darp_server_def others_kept_ops)

text \<open>C23: a peer's session changes nothing but that peer, and ends with it down. Whatever a peer
  authenticated by its certificate sends, as long as the handlers leave the peers alone, no
  peer is added or lost, the others are exactly as before, and after the connection ends the
  peer is not up until it connects again.\<close>

theorem peer_session:
  assumes "u \<noteq> []" "u \<noteq> dp_MyId st"
    and "\<And>path t ctx w. router path = Some t \<Longrightarrow>
      dp_status (fst (rt_f t ctx w)) = dp_status w \<and> dp_MyId (fst (rt_f t ctx w)) = dp_MyId w \<and> dp_IsEnabled (fst (rt_f t ctx w)) = dp_IsEnabled w"
    and "st' = snd (apiRun router (Some (darp_server now)) (Tls (Some u)) nonce input st)"
  shows "dom (dp_status st') = dom (dp_status st) \<and> (\<forall>n. n \<noteq> u \<longrightarrow> dp_status st' n = dp_status st n) \<and> \<not> darp_IsUp later u st'"
proof -
  have k: "peer.keeps st u router" using assms(3) by (simp add: peer.keeps_def others_kept_def)
  have "others_kept st u st" by (simp add: others_kept_def)
  from peer.run_ok [OF k refl assms(1) this, of now nonce input] obtain w' where
    w': "others_kept st u w'" "st' = darp_Disco u w'" by (auto simp: assms(4) darp_server_def)
  have "others_kept st u st'" unfolding w'(2) by (rule others_kept_ops(2) [OF w'(1)])
  moreover have "\<not> darp_IsUp later u st'"
    using w' assms(2) by (auto simp: darp_IsUp_def darp_Disco_def others_kept_def split: option.splits)
  ultimately show ?thesis by (simp add: others_kept_def)
qed

definition witness_peers :: darp_state where
  "witness_peers = darp_start\<lparr>dp_IsEnabled := True, dp_MyId := ''m'',
     dp_status := [''m'' \<mapsto> \<lparr>ds_IsUp = False, ds_Lastt = 0\<rparr>, ''s'' \<mapsto> \<lparr>ds_IsUp = True, ds_Lastt = 900\<rparr>]\<rparr>"

theorem peer_session_witness:
  "darp_IsUp 1000 ''s'' witness_peers
   \<and> \<not> darp_IsUp 1000 ''s'' (snd (apiRun [''ping'' \<mapsto> \<lparr>rt_needauth = True, rt_f = apiFuncPing\<rparr>] (Some (darp_server 950))
         (Tls (Some ''s'')) None (client_request ''ping'' []) witness_peers))"
proof
  show "darp_IsUp 1000 ''s'' witness_peers" by (simp add: darp_IsUp_def witness_peers_def)
  let ?r = "[''ping'' \<mapsto> \<lparr>rt_needauth = True, rt_f = apiFuncPing\<rparr>]"
  have "dp_status (fst (rt_f t ctx w)) = dp_status w \<and> dp_MyId (fst (rt_f t ctx w)) = dp_MyId w \<and> dp_IsEnabled (fst (rt_f t ctx w)) = dp_IsEnabled w"
    if "?r path = Some t" for path t ctx and w :: darp_state
    using that by (auto simp: apiFuncPing_def split: if_splits)
  from peer_session [of "''s''" witness_peers ?r, OF _ _ this refl] show
    "\<not> darp_IsUp 1000 ''s'' (snd (apiRun ?r (Some (darp_server 950)) (Tls (Some ''s'')) None (client_request ''ping'' []) witness_peers))"
    by (simp add: witness_peers_def)
qed

text \<open>\<open>IsUp\<close> and \<open>GetStatuses\<close> agree on every configured peer.\<close>

lemma IsUp_GetStatuses:
  assumes "dp_IsEnabled st" "dp_MyId st \<in> dom (dp_status st)"
  shows "darp_IsUp now n st = (GetStatuses now st n = Some True)"
  using assms by (auto simp: darp_IsUp_def GetStatuses_def split: option.splits)

text \<open>The type is compared without regard to case when it is checked, and exactly when it is used:
  a \<open>Master\<close> is accepted and never becomes a master.\<close>

lemma Master_is_no_master:
  "darp_New ''a'' \<lparr>d_Name = ''a'', d_Type = ''Master'', d_Fetch_Config = [], d_Port = 2055\<rparr> None [] darp_start
   = Inr (darp_start\<lparr>dp_all := [''a'' \<mapsto> \<lparr>d_Name = ''a'', d_Type = ''Master'', d_Fetch_Config = [], d_Port = 2055\<rparr>],
       dp_status := [''a'' \<mapsto> \<lparr>ds_IsUp = False, ds_Lastt = 0\<rparr>], dp_IsEnabled := True\<rparr>)"
proof -
  have "to_lower ''Master'' = ''master''" by code_simp
  then show ?thesis by (simp add: darp_New_def darp_start_def Let_def)
qed

text \<open>A queue holds at most 100 messages, in the order in which they were given.\<close>

lemma TellMyMasters_queue:
  assumes "dp_ch st n = Some q" "length q \<le> QUEUECAP"
  shows "\<exists>q'. dp_ch (TellMyMasters f m st) n = Some q' \<and> length q' \<le> QUEUECAP \<and> take (length q) q' = q"
  using assms by (auto simp: TellMyMasters_def split: option.split)

end
