(* ===== verification/Expr.thy ===== *)
theory Expr
  imports MonelLemmas GoFloat
begin

text \<open>
  Package \<open>expr\<close> (\<open>src/argus/expr/expr.go\<close>): arithmetic over results of objects, for service tests
  and computed services. An expression is cut into tokens, put into postfix order by Dijkstra's
  algorithm, and run by a stack machine whose stack holds strings; intermediate values pass
  through \<open>%f\<close>, that is six decimals.

  The functions of \<open>math\<close> that have no exact description, the clock and the random source are
  the fields of \<open>math_env\<close>. Reading the children of an alias resolves it, so the monitored
  objects are threaded through. \<^const>\<open>None\<close> of a run is a panic or a walk that never ends.
\<close>

section \<open>Operators\<close>

datatype fop = Time | Rand | Ceil | Floor | Abs | Sin | Tan | Cos | Log | Exp | Sqrt | Pow | Mul | Div | Mod | Add | Sub

datatype fagg = Sum | Ave | AMin | AMax | Count | Up | Down | Over

datatype opkind = Fop fop | Fagg fagg

record opdef =
  o_prec :: nat
  o_rry :: bool
  o_kind :: opkind

definition op :: "nat \<Rightarrow> bool \<Rightarrow> opkind \<Rightarrow> opdef" where
  "op prec rry kind = \<lparr>o_prec = prec, o_rry = rry, o_kind = kind\<rparr>"

definition ops_table :: "(string \<times> opdef) list" where
  "ops_table =
     [(''time'', op 50 True (Fop Time)), (''rand'', op 50 True (Fop Rand)),
      (''SUM'', op 20 True (Fagg Sum)), (''AVE'', op 20 True (Fagg Ave)), (''AVG'', op 20 True (Fagg Ave)),
      (''MIN'', op 20 True (Fagg AMin)), (''MAX'', op 20 True (Fagg AMax)), (''COUNT'', op 20 True (Fagg Count)),
      (''NSUM'', op 20 False (Fagg Sum)), (''NAVE'', op 20 False (Fagg Ave)), (''NAVG'', op 20 False (Fagg Ave)),
      (''NMIN'', op 20 False (Fagg AMin)), (''NMAX'', op 20 False (Fagg AMax)), (''NCOUNT'', op 20 False (Fagg Count)),
      (''NUP'', op 20 False (Fagg Up)), (''NDOWN'', op 20 False (Fagg Down)), (''NOVERRIDE'', op 20 False (Fagg Over)),
      (''ceil'', op 20 True (Fop Ceil)), (''floor'', op 20 True (Fop Floor)), (''abs'', op 20 True (Fop Abs)),
      (''sin'', op 20 True (Fop Sin)), (''tan'', op 20 True (Fop Sin)), (''cos'', op 20 True (Fop Cos)),
      (''log'', op 20 True (Fop Log)), (''exp'', op 20 True (Fop Exp)), (''sqrt'', op 20 True (Fop Sqrt)),
      (''^'', op 16 True (Fop Pow)), (''*'', op 15 True (Fop Mul)), (''/'', op 14 True (Fop Div)),
      (''%'', op 13 True (Fop Mod)), (''+'', op 12 True (Fop Add)), (''-'', op 12 True (Fop Sub))]"

definition expr_ops :: "string \<Rightarrow> opdef option" where
  "expr_ops t = map_of ops_table t"

definition op_prec :: "string \<Rightarrow> nat" where
  "op_prec t = (case expr_ops t of None \<Rightarrow> 0 | Some d \<Rightarrow> o_prec d)"

section \<open>Tokens\<close>

definition delimiter :: "char \<Rightarrow> bool" where
  "delimiter c \<longleftrightarrow> c \<in> set ''()+-*/%^ '' \<or> c = CHR 0x09"

lemma trim_length: "length (trim_space s) \<le> length s"
proof -
  have "length (dropWhile is_space (rev (dropWhile is_space s))) \<le> length (rev (dropWhile is_space s))"
    by (rule length_dropWhile_le)
  also have "\<dots> \<le> length s" by (simp add: length_dropWhile_le)
  finally show ?thesis by (simp add: trim_space_def trim_right_def trim_left_def)
qed

text \<open>One turn of the loop, on an expression that has been trimmed and is not empty: the tokens found
  and the rest.\<close>

definition next_token :: "string \<Rightarrow> string + string list \<times> string" where
  "next_token s =
     (let c = hd s; t = tl s in
      if c = CHR ''{'' then
        (case index_of (\<lambda>x. x = CHR ''}'') s of
           None \<Rightarrow> Inl ''syntax error: unbalanced {}''
         | Some e \<Rightarrow> Inr ([trim_space (take (e - 1) t)], drop (e + 1) s))
      else if c = CHR 0x22 \<or> c = CHR 0x27 then
        (case index_of (\<lambda>x. x = c) t of
           None \<Rightarrow> Inl ''syntax error: unbalanced quotes''
         | Some e \<Rightarrow> Inr ([trim_space (take e t)], drop (e + 2) s))
      else
        (case index_of delimiter s of
           None \<Rightarrow> Inr ([trim_space s], [])
         | Some e \<Rightarrow>
             if e = 0 then Inr ([[c]], t)
             else
               let x = s ! e
               in Inr (trim_space (take e s) # (if x \<noteq> CHR '' '' \<and> x \<noteq> CHR 0x09 then [[x]] else []), drop (e + 1) s)))"

lemma next_token_shorter: "s \<noteq> [] \<Longrightarrow> next_token s = Inr (ts, rest) \<Longrightarrow> length rest < length s"
  by (cases s) (auto simp: next_token_def Let_def split: if_splits option.splits)

function tokenize_loop :: "string \<Rightarrow> string + string list" where
  "tokenize_loop s =
     (if s = [] then Inr []
      else case next_token s of
             Inl e \<Rightarrow> Inl e
           | Inr (ts, rest) \<Rightarrow> (case tokenize_loop (trim_space rest) of Inl e \<Rightarrow> Inl e | Inr r \<Rightarrow> Inr (ts @ r)))"
  by pat_completeness auto
termination
  by (relation "measure length") (auto intro: le_less_trans [OF trim_length next_token_shorter])

declare tokenize_loop.simps [simp del]

definition tokenize :: "string \<Rightarrow> string + string list" where
  "tokenize s = tokenize_loop (trim_space s)"

section \<open>Postfix order\<close>

text \<open>Pop the operators down to the left bracket, which is dropped.\<close>

fun pop_bracket :: "string list \<Rightarrow> string list \<Rightarrow> (string list \<times> string list) option" where
  "pop_bracket oq [] = None"
| "pop_bracket oq (nt # stk) = (if nt = ''('' then Some (oq, stk) else pop_bracket (oq @ [nt]) stk)"

fun pop_ops :: "nat \<Rightarrow> string list \<Rightarrow> string list \<Rightarrow> string list \<times> string list" where
  "pop_ops prec oq [] = (oq, [])"
| "pop_ops prec oq (x # stk) = (if op_prec x < prec then (oq, x # stk) else pop_ops prec (oq @ [x]) stk)"

text \<open>The operator stack has its top first.\<close>

fun parse_loop :: "string list \<Rightarrow> string list \<Rightarrow> string set \<Rightarrow> string list \<Rightarrow> string + string list \<times> string set" where
  "parse_loop oq stk objs [] = Inr (oq @ stk, objs)"
| "parse_loop oq stk objs (t # ts) =
     (if t = ''('' then parse_loop oq (t # stk) objs ts
      else if t = '')'' then
        (case pop_bracket oq stk of
           None \<Rightarrow> Inl ''syntax error: mismatched ()''
         | Some (oq, stk) \<Rightarrow> parse_loop oq stk objs ts)
      else
        (case expr_ops t of
           None \<Rightarrow> parse_loop (oq @ [t]) stk (if has_prefix t ''Top'' then insert t objs else objs) ts
         | Some opp \<Rightarrow>
             let (oq, stk) = pop_ops (o_prec opp) oq stk in parse_loop oq (t # stk) objs ts))"

definition expr_parse :: "string list \<Rightarrow> string + string list \<times> string set" where
  "expr_parse ts = parse_loop [] [] {} ts"

definition expr_Parse :: "string \<Rightarrow> string + string list \<times> string set" where
  "expr_Parse s = (case tokenize s of Inl e \<Rightarrow> Inl e | Inr ts \<Rightarrow> expr_parse ts)"

section \<open>Lists of results\<close>

text \<open>The walk over the tree, breadth first.\<close>

partial_function (option) result_walk :: "ptr list \<Rightarrow> monel_state \<Rightarrow> (gofloat list \<times> monel_state) option" where
  "result_walk todo st =
     (case todo of
        [] \<Rightarrow> Some ([], st)
      | x # todo \<Rightarrow>
          if x = 0 then None
          else
            let (children, st) = me_Children x st in
            if children \<noteq> [] then result_walk (todo @ children) st
            else do {
              (res, st') \<leftarrow> result_walk todo st;
              Some (case ParseFloat (p_Result (ms_heap st x)) of Some v \<Rightarrow> v # res | None \<Rightarrow> res, st')
            })"

partial_function (option) status_walk :: "ptr list \<Rightarrow> monel_state \<Rightarrow> (status list \<times> monel_state) option" where
  "status_walk todo st =
     (case todo of
        [] \<Rightarrow> Some ([], st)
      | x # todo \<Rightarrow>
          if x = 0 then None
          else
            let (children, st) = me_Children x st in
            if children \<noteq> [] then status_walk (todo @ children) st
            else do {
              (res, st') \<leftarrow> status_walk todo st;
              Some (p_OvStatus (ms_heap st x) # res, st')
            })"

text \<open>The second component of the code's result, the name of an object that is not ready, is always
  empty.\<close>

definition resultList :: "string \<Rightarrow> monel_state \<Rightarrow> (gofloat list \<times> monel_state) option" where
  "resultList obj st = (case Find st obj of None \<Rightarrow> Some ([], st) | Some m \<Rightarrow> result_walk [m] st)"

definition statusList :: "string \<Rightarrow> monel_state \<Rightarrow> (status list \<times> monel_state) option" where
  "statusList obj st = (case Find st obj of None \<Rightarrow> Some ([], st) | Some m \<Rightarrow> status_walk [m] st)"

definition count_if :: "(status \<Rightarrow> bool) \<Rightarrow> status list \<Rightarrow> gofloat" where
  "count_if P xs = foldl (\<lambda>n v. if P v then fadd round64 n (Num False 1) else n) fzero xs"

text \<open>\<^const>\<open>None\<close> inside: the operation fails.\<close>

definition run_fagg :: "fagg \<Rightarrow> string \<Rightarrow> monel_state \<Rightarrow> (gofloat option \<times> monel_state) option" where
  "run_fagg a obj st =
     (case a of
        Up \<Rightarrow> map_option (\<lambda>(sl, st). (Some (count_if (\<lambda>v. v = CLEAR \<or> v = OVERRIDE) sl), st)) (statusList obj st)
      | Down \<Rightarrow> map_option (\<lambda>(sl, st). (Some (count_if (\<lambda>v. \<not> (v = CLEAR \<or> v = OVERRIDE \<or> v = UNKNOWN)) sl), st)) (statusList obj st)
      | Over \<Rightarrow> map_option (\<lambda>(sl, st). (Some (count_if (\<lambda>v. v = OVERRIDE) sl), st)) (statusList obj st)
      | _ \<Rightarrow> map_option (\<lambda>(rl, st).
          (let sum = foldl (fadd round64) fzero rl in
           case a of
             Count \<Rightarrow> Some (f_of_int round64 (int (length rl)))
           | _ \<Rightarrow>
             (case rl of
                [] \<Rightarrow> None
              | x # _ \<Rightarrow>
                Some (case a of
                   Sum \<Rightarrow> sum
                 | Ave \<Rightarrow> fdiv round64 sum (f_of_int round64 (int (length rl)))
                 | AMin \<Rightarrow> foldl (\<lambda>m v. if flt v m then v else m) x rl
                 | _ \<Rightarrow> foldl (\<lambda>m v. if flt m v then v else m) x rl)), st)) (resultList obj st))"

section \<open>The stack machine\<close>

record math_env =
  me_now :: int
  me_rand :: gofloat
  me_sin :: "gofloat \<Rightarrow> gofloat"
  me_tan :: "gofloat \<Rightarrow> gofloat"
  me_cos :: "gofloat \<Rightarrow> gofloat"
  me_log :: "gofloat \<Rightarrow> gofloat"
  me_exp :: "gofloat \<Rightarrow> gofloat"
  me_sqrt :: "gofloat \<Rightarrow> gofloat"
  me_pow :: "gofloat \<Rightarrow> gofloat \<Rightarrow> gofloat"

text \<open>An empty stack gives the empty string.\<close>

definition es_pop :: "string list \<Rightarrow> string \<times> string list" where
  "es_pop s = (case s of [] \<Rightarrow> ([], []) | x # s \<Rightarrow> (x, s))"

text \<open>A name of an object stands for its result, a variable for its value, anything else for itself.\<close>

definition expr_value :: "(string \<rightharpoonup> string) \<Rightarrow> monel_state \<Rightarrow> string \<Rightarrow> gofloat option" where
  "expr_value vars st x =
     (case (if has_prefix x ''Top'' then map_option (\<lambda>m. p_Result (ms_heap st m)) (Find st x) else Some x) of
        None \<Rightarrow> None
      | Some x \<Rightarrow> ParseFloat (case vars x of Some v \<Rightarrow> v | None \<Rightarrow> x))"

definition es_popf :: "(string \<rightharpoonup> string) \<Rightarrow> monel_state \<Rightarrow> string list \<Rightarrow> gofloat option \<times> string list" where
  "es_popf vars st s = (let (x, s) = es_pop s in (expr_value vars st x, s))"

definition fun1 :: "math_env \<Rightarrow> fop \<Rightarrow> gofloat \<Rightarrow> gofloat option" where
  "fun1 env f a =
     (case f of
        Ceil \<Rightarrow> Some (f_ceil a)
      | Floor \<Rightarrow> Some (f_floor a)
      | Abs \<Rightarrow> Some (fabs a)
      | Sin \<Rightarrow> Some (me_sin env a)
      | Tan \<Rightarrow> Some (me_tan env a)
      | Cos \<Rightarrow> Some (me_cos env a)
      | Log \<Rightarrow> if feq a fzero then None else Some (me_log env a)
      | Exp \<Rightarrow> Some (me_exp env a)
      | _ \<Rightarrow> Some (me_sqrt env a))"

text \<open>\<open>a\<close> is the right operand.\<close>

definition fun2 :: "math_env \<Rightarrow> fop \<Rightarrow> gofloat \<Rightarrow> gofloat \<Rightarrow> gofloat" where
  "fun2 env f b a =
     (case f of
        Add \<Rightarrow> fadd round64 b a
      | Sub \<Rightarrow> fsub round64 b a
      | Pow \<Rightarrow> me_pow env b a
      | Mul \<Rightarrow> fmul round64 b a
      | Div \<Rightarrow> if feq a fzero then fzero else fdiv round64 b a
      | _ \<Rightarrow> (let ia = f_to_int64 a in if ia = 0 then fzero else f_of_int round64 (f_to_int64 b smod ia)))"

definition run_fop :: "math_env \<Rightarrow> (string \<rightharpoonup> string) \<Rightarrow> monel_state \<Rightarrow> fop \<Rightarrow> string list \<Rightarrow> gofloat option \<times> string list" where
  "run_fop env vars st f s =
     (if f = Time then (Some (f_of_int round64 (me_now env)), s)
      else if f = Rand then (Some (me_rand env), s)
      else
        let (a, s) = es_popf vars st s in
        case a of
          None \<Rightarrow> (None, s)
        | Some a \<Rightarrow>
            if f \<in> {Ceil, Floor, Abs, Sin, Tan, Cos, Log, Exp, Sqrt} then (fun1 env f a, s)
            else let (b, s) = es_popf vars st s in (map_option (\<lambda>b. fun2 env f b a) b, s))"

text \<open>The result is empty when an operation fails.\<close>

fun run_prog :: "math_env \<Rightarrow> (string \<rightharpoonup> string) \<Rightarrow> string list \<Rightarrow> string list \<Rightarrow> monel_state \<Rightarrow> (string \<times> monel_state) option" where
  "run_prog env vars [] s st = Some (fst (es_pop s), st)"
| "run_prog env vars (x # prog) s st =
     (case expr_ops x of
        None \<Rightarrow> run_prog env vars prog (x # s) st
      | Some opp \<Rightarrow> do {
          (res, s, st) \<leftarrow>
            (case o_kind opp of
               Fagg a \<Rightarrow> (let (obj, s) = es_pop s in map_option (\<lambda>(r, st). (r, s, st)) (run_fagg a obj st))
             | Fop f \<Rightarrow> (let (r, s) = run_fop env vars st f s in Some (r, s, st)));
          case res of
            None \<Rightarrow> Some ([], st)
          | Some v \<Rightarrow> run_prog env vars prog (fmt_f v # s) st
        })"

definition RunExpr :: "math_env \<Rightarrow> string list \<Rightarrow> (string \<rightharpoonup> string) \<Rightarrow> monel_state \<Rightarrow> (string \<times> monel_state) option" where
  "RunExpr env pt vars st = run_prog env vars pt [] st"

text \<open>\<^const>\<open>None\<close> inside: the error of \<open>ParseFloat\<close>.\<close>

definition RunExprF :: "math_env \<Rightarrow> string list \<Rightarrow> (string \<rightharpoonup> string) \<Rightarrow> monel_state \<Rightarrow> (gofloat option \<times> monel_state) option" where
  "RunExprF env pt vars st = map_option (\<lambda>(res, st). (ParseFloat res, st)) (RunExpr env pt vars st)"

definition expr_Calc :: "math_env \<Rightarrow> string \<Rightarrow> (string \<rightharpoonup> string) \<Rightarrow> monel_state \<Rightarrow> ((string + gofloat option) \<times> monel_state) option" where
  "expr_Calc env s vars st =
     (case expr_Parse s of
        Inl e \<Rightarrow> Some (Inl e, st)
      | Inr (pt, objs) \<Rightarrow> map_option (\<lambda>(r, st). (Inr r, st)) (RunExprF env pt vars st))"


section \<open>The postfix order is that of the precedences\<close>

text \<open>Infix expressions. \<open>Group\<close> is a pair of brackets; \<open>lo\<close> is the lowest precedence outside brackets.\<close>

datatype expr =
    Atom string
  | Nullary string
  | App string expr
  | Bin string expr expr
  | Group expr

fun toks :: "expr \<Rightarrow> string list" where
  "toks (Atom s) = [s]"
| "toks (Nullary f) = [f]"
| "toks (App f e) = f # toks e"
| "toks (Bin x l r) = toks l @ x # toks r"
| "toks (Group e) = ''('' # toks e @ ['')'']"

fun postfix :: "expr \<Rightarrow> string list" where
  "postfix (Atom s) = [s]"
| "postfix (Nullary f) = [f]"
| "postfix (App f e) = postfix e @ [f]"
| "postfix (Bin x l r) = postfix l @ postfix r @ [x]"
| "postfix (Group e) = postfix e"

fun objects :: "expr \<Rightarrow> string set" where
  "objects (Atom s) = (if has_prefix s ''Top'' then {s} else {})"
| "objects (Nullary f) = {}"
| "objects (App f e) = objects e"
| "objects (Bin x l r) = objects l \<union> objects r"
| "objects (Group e) = objects e"

fun lo :: "expr \<Rightarrow> nat" where
  "lo (Atom s) = 100"
| "lo (Nullary f) = 50"
| "lo (App f e) = 20"
| "lo (Bin x l r) = op_prec x"
| "lo (Group e) = 100"

definition binary :: "string \<Rightarrow> bool" where
  "binary x \<longleftrightarrow> x \<in> {''^'', ''*'', ''/'', ''%'', ''+'', ''-''}"

definition unary :: "string \<Rightarrow> bool" where
  "unary f \<longleftrightarrow> expr_ops f \<noteq> None \<and> op_prec f = 20"

text \<open>Brackets stand where they must: the left operand binds at least as strongly as the operator, the
  right operand more strongly, and a function is applied to something closed.\<close>

fun wf_expr :: "expr \<Rightarrow> bool" where
  "wf_expr (Atom s) \<longleftrightarrow> expr_ops s = None \<and> s \<noteq> ''('' \<and> s \<noteq> '')''"
| "wf_expr (Nullary f) \<longleftrightarrow> f = ''time'' \<or> f = ''rand''"
| "wf_expr (App f e) \<longleftrightarrow> unary f \<and> wf_expr e \<and> lo e \<ge> 50"
| "wf_expr (Bin x l r) \<longleftrightarrow> binary x \<and> wf_expr l \<and> wf_expr r \<and> op_prec x \<le> lo l \<and> op_prec x < lo r"
| "wf_expr (Group e) \<longleftrightarrow> wf_expr e"

lemma bracket_no_op [simp]: "expr_ops ''('' = None" "expr_ops '')'' = None"
  by (simp_all add: expr_ops_def ops_table_def)

lemma op_prec_bracket [simp]: "op_prec ''('' = 0"
  by (simp add: op_prec_def)

lemma binary_ops:
  "expr_ops ''^'' = Some (op 16 True (Fop Pow))" "expr_ops ''*'' = Some (op 15 True (Fop Mul))"
  "expr_ops ''/'' = Some (op 14 True (Fop Div))" "expr_ops ''%'' = Some (op 13 True (Fop Mod))"
  "expr_ops ''+'' = Some (op 12 True (Fop Add))" "expr_ops ''-'' = Some (op 12 True (Fop Sub))"
  by code_simp+

lemma nullary_ops:
  "expr_ops ''time'' = Some (op 50 True (Fop Time))" "expr_ops ''rand'' = Some (op 50 True (Fop Rand))"
  by code_simp+

lemma o_op [simp]: "o_prec (op p r k) = p" "o_rry (op p r k) = r" "o_kind (op p r k) = k"
  by (simp_all add: op_def)

lemma binary_op: "binary x \<Longrightarrow> expr_ops x \<noteq> None \<and> 12 \<le> op_prec x \<and> op_prec x \<le> 16"
  unfolding binary_def by (elim insertE) (simp_all add: binary_ops op_prec_def)

lemma nullary_op: "f = ''time'' \<or> f = ''rand'' \<Longrightarrow> expr_ops f \<noteq> None \<and> op_prec f = 50"
  by (auto simp: nullary_ops op_prec_def)

lemma lo_pos: "wf_expr e \<Longrightarrow> 0 < lo e"
  by (cases e) (auto dest: binary_op)

definition below :: "string list \<Rightarrow> nat \<Rightarrow> bool" where
  "below stk k \<longleftrightarrow> (stk = [] \<or> op_prec (hd stk) < k)"

definition pending_ok :: "nat \<Rightarrow> string list \<Rightarrow> bool" where
  "pending_ok k xs \<longleftrightarrow> list_all (\<lambda>x. expr_ops x \<noteq> None \<and> k \<le> op_prec x) xs"

lemma pop_ops_pending: "pending_ok k xs \<Longrightarrow> j \<le> k \<Longrightarrow> below stk j \<Longrightarrow> pop_ops j oq (xs @ stk) = (oq @ xs, stk)"
proof (induction xs arbitrary: oq)
  case Nil
  then show ?case by (cases stk) (auto simp: below_def)
qed (auto simp: pending_ok_def)

lemma pop_bracket_pending: "pending_ok k xs \<Longrightarrow> pop_bracket oq (xs @ ''('' # stk) = Some (oq @ xs, stk)"
  by (induction xs arbitrary: oq) (auto simp: pending_ok_def)

lemma parse_op:
  assumes "expr_ops x \<noteq> None" "pending_ok k xs" "op_prec x \<le> k" "below stk (op_prec x)"
  shows "parse_loop oq (xs @ stk) objs (x # ts) = parse_loop (oq @ xs) (x # stk) objs ts"
proof -
  obtain d where d: "expr_ops x = Some d" using assms(1) by blast
  then have "o_prec d = op_prec x" "x \<noteq> ''(''" "x \<noteq> '')''" by (auto simp: op_prec_def)
  then show ?thesis using d pop_ops_pending [OF assms(2-4)] by simp
qed

lemma parse_exprI:
  "parse_loop oq stk objs (toks e @ ts) = parse_loop oq' (pend @ stk) (objs \<union> objects e) ts \<Longrightarrow>
   oq' @ pend = oq @ postfix e \<Longrightarrow> pending_ok (lo e) pend \<Longrightarrow>
   \<exists>oq' pend. parse_loop oq stk objs (toks e @ ts) = parse_loop oq' (pend @ stk) (objs \<union> objects e) ts
     \<and> oq' @ pend = oq @ postfix e \<and> pending_ok (lo e) pend"
  by (rule exI [of _ oq'], rule exI [of _ pend]) simp

lemma parse_expr:
  "wf_expr e \<Longrightarrow> below stk (lo e) \<Longrightarrow>
   \<exists>oq' pend. parse_loop oq stk objs (toks e @ ts) = parse_loop oq' (pend @ stk) (objs \<union> objects e) ts
     \<and> oq' @ pend = oq @ postfix e \<and> pending_ok (lo e) pend"
proof (induction e arbitrary: oq stk objs ts)
  case (Atom s)
  then have "parse_loop oq stk objs (toks (Atom s) @ ts) = parse_loop (oq @ [s]) ([] @ stk) (objs \<union> objects (Atom s)) ts" by simp
  moreover have "(oq @ [s]) @ [] = oq @ postfix (Atom s)" "pending_ok (lo (Atom s)) []" by (simp_all add: pending_ok_def)
  ultimately show ?case by (rule parse_exprI)
next
  case (Nullary f)
  then have f: "expr_ops f \<noteq> None" "op_prec f = 50" using nullary_op by auto
  have "parse_loop oq ([] @ stk) objs (f # ts) = parse_loop (oq @ []) (f # stk) objs ts"
    by (rule parse_op [where k = 50]) (use f Nullary.prems(2) in \<open>simp_all add: pending_ok_def\<close>)
  moreover have "pending_ok 50 [f]" using f by (simp add: pending_ok_def)
  ultimately have "parse_loop oq stk objs (toks (Nullary f) @ ts) = parse_loop oq ([f] @ stk) (objs \<union> objects (Nullary f)) ts"
      "oq @ [f] = oq @ postfix (Nullary f)" "pending_ok (lo (Nullary f)) [f]"
    by (simp_all del: parse_loop.simps)
  then show ?case by (rule parse_exprI)
next
  case (App f e)
  then have f: "expr_ops f \<noteq> None" "op_prec f = 20" "wf_expr e" "lo e \<ge> 50" by (auto simp: unary_def)
  have 1: "parse_loop oq ([] @ stk) objs (f # toks e @ ts) = parse_loop (oq @ []) (f # stk) objs (toks e @ ts)"
    by (rule parse_op [where k = 20]) (use f App.prems(2) in \<open>simp_all add: pending_ok_def\<close>)
  have "below (f # stk) (lo e)" using f by (simp add: below_def)
  from App.IH [OF f(3) this] obtain oq' pend where
    2: "parse_loop oq (f # stk) objs (toks e @ ts) = parse_loop oq' (pend @ f # stk) (objs \<union> objects e) ts"
       "oq' @ pend = oq @ postfix e" "pending_ok (lo e) pend" by blast
  have "parse_loop oq stk objs (toks (App f e) @ ts) = parse_loop oq' ((pend @ [f]) @ stk) (objs \<union> objects (App f e)) ts"
    using 1 2(1) by (simp del: parse_loop.simps)
  moreover have "oq' @ (pend @ [f]) = oq @ postfix (App f e)" using 2(2) by (simp add: append_assoc [symmetric] del: append_assoc)
  moreover have "pending_ok (lo (App f e)) (pend @ [f])" using 2(3) f by (auto simp: pending_ok_def list_all_iff)
  ultimately show ?case by (rule parse_exprI)
next
  case (Bin x l r)
  then have x: "expr_ops x \<noteq> None" "wf_expr l" "wf_expr r" "op_prec x \<le> lo l" "op_prec x < lo r" using binary_op by auto
  have "below stk (lo l)" using Bin.prems(2) x(4) by (auto simp: below_def)
  from Bin.IH(1) [OF x(2) this] obtain oq1 pend1 where
    1: "parse_loop oq stk objs (toks l @ x # toks r @ ts) = parse_loop oq1 (pend1 @ stk) (objs \<union> objects l) (x # toks r @ ts)"
       "oq1 @ pend1 = oq @ postfix l" "pending_ok (lo l) pend1" by blast
  have 2: "parse_loop oq1 (pend1 @ stk) (objs \<union> objects l) (x # toks r @ ts)
      = parse_loop (oq1 @ pend1) (x # stk) (objs \<union> objects l) (toks r @ ts)"
    by (rule parse_op [OF x(1) 1(3) x(4)]) (use Bin.prems(2) in simp)
  have "below (x # stk) (lo r)" using x(5) by (simp add: below_def)
  from Bin.IH(2) [OF x(3) this] obtain oq2 pend2 where
    3: "parse_loop (oq1 @ pend1) (x # stk) (objs \<union> objects l) (toks r @ ts)
          = parse_loop oq2 (pend2 @ x # stk) (objs \<union> objects l \<union> objects r) ts"
       "oq2 @ pend2 = (oq1 @ pend1) @ postfix r" "pending_ok (lo r) pend2" by blast
  have "oq2 @ pend2 @ [x] = (oq2 @ pend2) @ [x]" by simp
  also have "\<dots> = oq @ postfix (Bin x l r)" using 1(2) 3(2) by simp
  finally have o: "oq2 @ pend2 @ [x] = oq @ postfix (Bin x l r)" .
  have p: "pending_ok (lo (Bin x l r)) (pend2 @ [x])" using 3(3) x by (auto simp: pending_ok_def list_all_iff)
  have "parse_loop oq stk objs (toks (Bin x l r) @ ts) = parse_loop oq2 ((pend2 @ [x]) @ stk) (objs \<union> objects (Bin x l r)) ts"
    using 1(1) 2 3(1) by (simp add: Un_assoc del: parse_loop.simps)
  then show ?case using o p by (rule parse_exprI)
next
  case (Group e)
  have "below (''('' # stk) (lo e)" using lo_pos Group.prems(1) by (simp add: below_def)
  moreover have "wf_expr e" using Group.prems(1) by simp
  ultimately obtain oq' pend where
    1: "parse_loop oq (''('' # stk) objs (toks e @ '')'' # ts) = parse_loop oq' (pend @ ''('' # stk) (objs \<union> objects e) ('')'' # ts)"
       "oq' @ pend = oq @ postfix e" "pending_ok (lo e) pend" using Group.IH by blast
  have "parse_loop oq stk objs (toks (Group e) @ ts) = parse_loop (oq' @ pend) stk (objs \<union> objects e) ts"
    using 1(1) pop_bracket_pending [OF 1(3)] by simp
  then have "parse_loop oq stk objs (toks (Group e) @ ts) = parse_loop (oq' @ pend) ([] @ stk) (objs \<union> objects (Group e)) ts"
      "(oq' @ pend) @ [] = oq @ postfix (Group e)" "pending_ok (lo (Group e)) []"
    using 1(2) by (simp_all add: pending_ok_def)
  then show ?case by (rule parse_exprI)
qed


section \<open>The stack machine computes the value\<close>

text \<open>What an expression denotes: the string that is pushed, or nothing when an operation fails. \<open>agg\<close>
  gives the aggregates.\<close>

fun denot :: "math_env \<Rightarrow> (string \<rightharpoonup> string) \<Rightarrow> monel_state \<Rightarrow> (fagg \<Rightarrow> string \<Rightarrow> gofloat option) \<Rightarrow> expr \<Rightarrow> string option" where
  "denot env vars st agg (Atom s) = Some s"
| "denot env vars st agg (Nullary f) = Some (fmt_f (if f = ''time'' then f_of_int round64 (me_now env) else me_rand env))"
| "denot env vars st agg (App f e) = do {
     x \<leftarrow> denot env vars st agg e;
     v \<leftarrow> (case map_option o_kind (expr_ops f) of
            Some (Fagg a) \<Rightarrow> agg a x
          | Some (Fop g) \<Rightarrow> do { a \<leftarrow> expr_value vars st x; fun1 env g a }
          | None \<Rightarrow> None);
     Some (fmt_f v)
   }"
| "denot env vars st agg (Bin x l r) = do {
     b \<leftarrow> denot env vars st agg l;
     a \<leftarrow> denot env vars st agg r;
     a \<leftarrow> expr_value vars st a;
     b \<leftarrow> expr_value vars st b;
     (case map_option o_kind (expr_ops x) of Some (Fop g) \<Rightarrow> Some (fmt_f (fun2 env g b a)) | _ \<Rightarrow> None)
   }"
| "denot env vars st agg (Group e) = denot env vars st agg e"

lemma unary_cases:
  assumes "unary f"
  obtains (agg) d a where "expr_ops f = Some d" "o_kind d = Fagg a"
  | (fop) d g where "expr_ops f = Some d" "o_kind d = Fop g" "g \<in> {Ceil, Floor, Abs, Sin, Tan, Cos, Log, Exp, Sqrt}"
proof -
  obtain d where d: "expr_ops f = Some d" "o_prec d = 20" using assms by (auto simp: unary_def op_prec_def)
  then have "(f, d) \<in> set ops_table" by (simp add: expr_ops_def map_of_SomeD)
  then have "(\<exists>a. o_kind d = Fagg a) \<or> (\<exists>g. o_kind d = Fop g \<and> g \<in> {Ceil, Floor, Abs, Sin, Tan, Cos, Log, Exp, Sqrt})"
    using d(2) by (auto simp: ops_table_def op_def)
  with that d(1) show thesis by blast
qed

lemma binary_fop:
  assumes "binary x"
  obtains d g where "expr_ops x = Some d" "o_kind d = Fop g" "g \<in> {Pow, Mul, Div, Mod, Add, Sub}"
proof -
  have "\<exists>d g. expr_ops x = Some d \<and> o_kind d = Fop g \<and> g \<in> {Pow, Mul, Div, Mod, Add, Sub}"
    using assms unfolding binary_def by (elim insertE) (simp_all add: binary_ops)
  with that show thesis by blast
qed

text \<open>\<open>agg\<close> is what the walks over the tree give in this state.\<close>

definition agg_ok :: "monel_state \<Rightarrow> (fagg \<Rightarrow> string \<Rightarrow> gofloat option) \<Rightarrow> bool" where
  "agg_ok st agg \<longleftrightarrow> (\<forall>a obj. run_fagg a obj st = Some (agg a obj, st))"

lemma run_fop1:
  assumes "g \<in> {Ceil, Floor, Abs, Sin, Tan, Cos, Log, Exp, Sqrt}"
  shows "run_fop env vars st g (x # s) = (do { a \<leftarrow> expr_value vars st x; fun1 env g a }, s)"
proof -
  have "g \<noteq> Time" "g \<noteq> Rand" using assms by auto
  then show ?thesis using assms by (cases "expr_value vars st x") (simp_all add: run_fop_def es_popf_def es_pop_def)
qed

lemma run_fop2:
  assumes "g \<in> {Pow, Mul, Div, Mod, Add, Sub}"
  shows "run_fop env vars st g (y # x # s) =
    (case expr_value vars st y of None \<Rightarrow> (None, x # s) | Some a \<Rightarrow> (map_option (\<lambda>b. fun2 env g b a) (expr_value vars st x), s))"
proof -
  have "g \<noteq> Time" "g \<noteq> Rand" "g \<notin> {Ceil, Floor, Abs, Sin, Tan, Cos, Log, Exp, Sqrt}" using assms by auto
  then show ?thesis by (cases "expr_value vars st y") (simp_all add: run_fop_def es_popf_def es_pop_def)
qed

lemma run_expr:
  assumes "agg_ok st agg"
  shows "wf_expr e \<Longrightarrow> run_prog env vars (postfix e @ prog) s st =
    (case denot env vars st agg e of None \<Rightarrow> Some ([], st) | Some x \<Rightarrow> run_prog env vars prog (x # s) st)"
proof (induction e arbitrary: prog s)
  case (Nullary f)
  then show ?case by (auto simp: nullary_ops run_fop_def)
next
  case (App f e)
  from App.prems have f: "unary f" "wf_expr e" by simp_all
  note IH = App.IH [OF f(2)]
  from f(1) show ?case
  proof (cases rule: unary_cases)
    case (agg d a)
    then show ?thesis using assms by (simp add: IH es_pop_def agg_ok_def split: option.split)
  next
    case (fop d g)
    show ?thesis
    proof (cases "denot env vars st agg e")
      case (Some y)
      then show ?thesis using fop by (cases "expr_value vars st y") (simp_all add: IH run_fop1 split: option.split)
    qed (simp add: IH)
  qed
next
  case (Bin x l r)
  from Bin.prems have x: "binary x" "wf_expr l" "wf_expr r" by simp_all
  note IH = Bin.IH(1) [OF x(2)] Bin.IH(2) [OF x(3)]
  from x(1) obtain d g where "expr_ops x = Some d" "o_kind d = Fop g" "g \<in> {Pow, Mul, Div, Mod, Add, Sub}" by (rule binary_fop)
  then show ?case by (simp add: IH run_fop2 split: option.split)
qed simp_all

section \<open>The walks see every leaf once\<close>

definition kids :: "monel_state \<Rightarrow> ptr \<Rightarrow> ptr list" where
  "kids st p = fst (me_Children p st)"

text \<open>No alias is left to resolve; the graph has no cycle and no nil child.\<close>

definition settled :: "monel_state \<Rightarrow> bool" where
  "settled st \<longleftrightarrow> (\<forall>p. snd (me_Children p st) = st)"

definition acyclic_objects :: "monel_state \<Rightarrow> (ptr \<Rightarrow> nat) \<Rightarrow> bool" where
  "acyclic_objects st rank \<longleftrightarrow> (\<forall>p c. c \<in> set (kids st p) \<longrightarrow> c \<noteq> 0 \<and> rank c < rank p)"

text \<open>The leaves below an object, depth first.\<close>

fun leaves :: "nat \<Rightarrow> monel_state \<Rightarrow> ptr \<Rightarrow> ptr list" where
  "leaves 0 st p = []"
| "leaves (Suc n) st p = (if kids st p = [] then [p] else concat (map (leaves n st) (kids st p)))"

lemma leaves_enough:
  assumes "acyclic_objects st rank"
  shows "rank p < n \<Longrightarrow> rank p < m \<Longrightarrow> leaves n st p = leaves m st p"
proof (induction n arbitrary: m p)
  case (Suc n)
  then obtain k where k: "m = Suc k" by (cases m) auto
  have "leaves n st c = leaves k st c" if "c \<in> set (kids st p)" for c
  proof -
    have "rank c < rank p" using assms that by (simp add: acyclic_objects_def)
    then show ?thesis using Suc k by (intro Suc.IH) auto
  qed
  then have e: "map (leaves n st) (kids st p) = map (leaves k st) (kids st p)" by simp
  show ?case unfolding k leaves.simps e ..
qed simp

definition leaves_of :: "monel_state \<Rightarrow> (ptr \<Rightarrow> nat) \<Rightarrow> ptr \<Rightarrow> ptr list" where
  "leaves_of st rank p = leaves (Suc (rank p)) st p"

lemma leaves_of_kids:
  assumes "acyclic_objects st rank"
  shows "leaves_of st rank p = (if kids st p = [] then [p] else concat (map (leaves_of st rank) (kids st p)))"
proof -
  have "leaves (rank p) st c = leaves (Suc (rank c)) st c" if "c \<in> set (kids st p)" for c
    using that assms by (intro leaves_enough [OF assms]) (auto simp: acyclic_objects_def)
  then have e: "map (leaves (rank p) st) (kids st p) = map (leaves_of st rank) (kids st p)" by (simp add: leaves_of_def)
  show ?thesis unfolding leaves_of_def [of st rank p] leaves.simps e ..
qed

text \<open>The contract of a walk: what it gives is read off the leaves.\<close>

locale tree_walk =
  fixes walk :: "ptr list \<Rightarrow> monel_state \<Rightarrow> ('a list \<times> monel_state) option" and leaf :: "monel \<Rightarrow> 'a list"
  assumes walk_Nil: "walk [] st = Some ([], st)"
    and walk_inner: "x \<noteq> 0 \<Longrightarrow> me_Children x st = (children, st) \<Longrightarrow> children \<noteq> [] \<Longrightarrow> walk (x # todo) st = walk (todo @ children) st"
    and walk_leaf: "x \<noteq> 0 \<Longrightarrow> me_Children x st = ([], st) \<Longrightarrow>
      walk (x # todo) st = map_option (\<lambda>(res, st'). (leaf (ms_heap st x) @ res, st')) (walk todo st)"
begin

lemma walk_leaves:
  assumes "settled st" "acyclic_objects st rank"
  shows "0 \<notin> set todo \<Longrightarrow> \<exists>ps. walk todo st = Some (concat (map (\<lambda>p. leaf (ms_heap st p)) ps), st)
    \<and> mset ps = mset (concat (map (leaves_of st rank) todo))"
proof (induction "image_mset rank (mset todo)" arbitrary: todo rule: wf_induct_rule [OF wf_mult [OF wf_less]])
  case less: 1
  show ?case
  proof (cases todo)
    case Nil
    then show ?thesis by (intro exI [of _ "[]"]) (simp add: walk_Nil)
  next
    case (Cons x todo')
    have x: "x \<noteq> 0" "0 \<notin> set todo'" using less.prems Cons by auto
    have ch: "me_Children x st = (kids st x, st)"
      using assms(1) by (metis kids_def prod.collapse settled_def)
    show ?thesis
    proof (cases "kids st x = []")
      case True
      have "(image_mset rank (mset todo'), image_mset rank (mset todo)) \<in> mult {(x, y). x < y}"
        using Cons one_step_implies_mult [of "{#rank x#}" "{#}" "{(x, y). x < y}" "image_mset rank (mset todo')"] by simp
      from less.hyps [OF this x(2)] obtain ps where
        ps: "walk todo' st = Some (concat (map (\<lambda>p. leaf (ms_heap st p)) ps), st)" "mset ps = mset (concat (map (leaves_of st rank) todo'))"
        by blast
      then show ?thesis
        using walk_leaf [OF x(1), of st todo'] ch True leaves_of_kids [OF assms(2), of x]
        by (intro exI [of _ "x # ps"]) (simp add: Cons)
    next
      case False
      have k: "0 \<notin> set (kids st x)" "\<forall>c \<in> set (kids st x). rank c < rank x" using assms(2) by (auto simp: acyclic_objects_def)
      have "(image_mset rank (mset (todo' @ kids st x)), image_mset rank (mset todo)) \<in> mult {(x, y). x < y}"
        using Cons k(2) one_step_implies_mult [of "{#rank x#}" "image_mset rank (mset (kids st x))" "{(x, y). x < y}" "image_mset rank (mset todo')"]
        by auto
      from less.hyps [OF this] x(2) k(1) obtain ps where
        ps: "walk (todo' @ kids st x) st = Some (concat (map (\<lambda>p. leaf (ms_heap st p)) ps), st)"
          "mset ps = mset (concat (map (leaves_of st rank) (todo' @ kids st x)))" by auto
      then show ?thesis
        using walk_inner [OF x(1) ch False, of todo'] False leaves_of_kids [OF assms(2), of x]
        by (intro exI [of _ ps]) (simp add: Cons)
    qed
  qed
qed

end

definition result_leaf :: "monel \<Rightarrow> gofloat list" where
  "result_leaf m = (case ParseFloat (p_Result m) of Some v \<Rightarrow> [v] | None \<Rightarrow> [])"

interpretation results: tree_walk result_walk result_leaf
proof
  fix x st children todo
  show "result_walk [] st = Some ([], st)" by (subst result_walk.simps) simp
  show "x \<noteq> 0 \<Longrightarrow> me_Children x st = (children, st) \<Longrightarrow> children \<noteq> [] \<Longrightarrow> result_walk (x # todo) st = result_walk (todo @ children) st"
    by (subst result_walk.simps) simp
  show "x \<noteq> 0 \<Longrightarrow> me_Children x st = ([], st) \<Longrightarrow>
      result_walk (x # todo) st = map_option (\<lambda>(res, st'). (result_leaf (ms_heap st x) @ res, st')) (result_walk todo st)"
    by (subst result_walk.simps, cases "result_walk todo st") (auto simp: result_leaf_def split: option.split)
qed

interpretation statuses: tree_walk status_walk "\<lambda>m. [p_OvStatus m]"
proof
  fix x st children todo
  show "status_walk [] st = Some ([], st)" by (subst status_walk.simps) simp
  show "x \<noteq> 0 \<Longrightarrow> me_Children x st = (children, st) \<Longrightarrow> children \<noteq> [] \<Longrightarrow> status_walk (x # todo) st = status_walk (todo @ children) st"
    by (subst status_walk.simps) simp
  show "x \<noteq> 0 \<Longrightarrow> me_Children x st = ([], st) \<Longrightarrow>
      status_walk (x # todo) st = map_option (\<lambda>(res, st'). ([p_OvStatus (ms_heap st x)] @ res, st')) (status_walk todo st)"
    by (subst status_walk.simps, cases "status_walk todo st") auto
qed


definition named_ok :: "monel_state \<Rightarrow> bool" where
  "named_ok st \<longleftrightarrow> (\<forall>n. Find st n \<noteq> Some 0)"

lemma resultList_total:
  assumes "settled st" "acyclic_objects st rank" "named_ok st"
  shows "\<exists>ps. resultList obj st = Some (concat (map (\<lambda>p. result_leaf (ms_heap st p)) ps), st)
    \<and> mset ps = mset (case Find st obj of None \<Rightarrow> [] | Some m \<Rightarrow> leaves_of st rank m)"
proof (cases "Find st obj")
  case (Some m)
  then have "0 \<notin> set [m]" using assms(3) by (cases "m = 0") (auto simp: named_ok_def)
  from results.walk_leaves [OF assms(1,2) this] show ?thesis using Some by (simp add: resultList_def)
qed (auto simp: resultList_def)

lemma statusList_total:
  assumes "settled st" "acyclic_objects st rank" "named_ok st"
  shows "\<exists>ps. statusList obj st = Some (map (\<lambda>p. p_OvStatus (ms_heap st p)) ps, st)
    \<and> mset ps = mset (case Find st obj of None \<Rightarrow> [] | Some m \<Rightarrow> leaves_of st rank m)"
proof (cases "Find st obj")
  case (Some m)
  then have "0 \<notin> set [m]" using assms(3) by (cases "m = 0") (auto simp: named_ok_def)
  from statuses.walk_leaves [OF assms(1,2) this] show ?thesis using Some by (simp add: statusList_def)
qed (auto simp: statusList_def)

lemma run_fagg_total:
  assumes "settled st" "acyclic_objects st rank" "named_ok st"
  shows "\<exists>agg. agg_ok st agg"
proof -
  have "\<exists>v. run_fagg a obj st = Some (v, st)" for a obj
    using resultList_total [OF assms, of obj] statusList_total [OF assms, of obj]
    by (cases a) (auto simp: run_fagg_def)
  then have "run_fagg a obj st = Some (fst (the (run_fagg a obj st)), st)" for a obj
    by (metis fst_conv option.sel)
  then show ?thesis unfolding agg_ok_def by (intro exI [of _ "\<lambda>a obj. fst (the (run_fagg a obj st))"]) simp
qed

text \<open>C7: an expression is computed as its precedences say. For every infix expression whose
  brackets stand where they must (and may stand elsewhere), over objects without cycles, the
  compiled form is its postfix form and names exactly the objects used; running it always
  ends, changes nothing, and gives what the expression denotes: left operand first, a failed
  operation makes the whole empty, and every intermediate value is printed with six decimals
  and read back.\<close>

theorem expr_correct:
  assumes "wf_expr e" "settled st" "acyclic_objects st rank" "named_ok st"
  shows "\<exists>agg. agg_ok st agg \<and> expr_parse (toks e) = Inr (postfix e, objects e)
    \<and> RunExpr env (postfix e) vars st = Some (case denot env vars st agg e of None \<Rightarrow> [] | Some x \<Rightarrow> x, st)"
proof -
  obtain agg where agg: "agg_ok st agg" using run_fagg_total [OF assms(2-4)] by blast
  have "below [] (lo e)" by (simp add: below_def)
  from parse_expr [OF assms(1) this, of "[]" "{}" "[]"] obtain oq' pend where
    "parse_loop [] [] {} (toks e @ []) = parse_loop oq' (pend @ []) ({} \<union> objects e) []" "oq' @ pend = [] @ postfix e" by blast
  then have p: "expr_parse (toks e) = Inr (postfix e, objects e)" by (simp add: expr_parse_def)
  have "run_prog env vars (postfix e @ []) [] st =
    (case denot env vars st agg e of None \<Rightarrow> Some ([], st) | Some x \<Rightarrow> run_prog env vars [] (x # []) st)"
    by (rule run_expr [OF agg assms(1)])
  then show ?thesis using agg p by (auto simp: RunExpr_def es_pop_def split: option.split)
qed

lemma empty_objects:
  "settled empty_monel" "acyclic_objects empty_monel (\<lambda>_. 0)" "named_ok empty_monel"
  by (simp_all add: settled_def acyclic_objects_def named_ok_def kids_def me_Children_def empty_monel_def blank_object_def Find_def)

theorem expr_correct_witness:
  "expr_parse [''2'', ''*'', ''('', ''x'', ''+'', ''4'', '')'', ''-'', ''abs'', ''y'']
     = Inr ([''2'', ''x'', ''4'', ''+'', ''*'', ''y'', ''abs'', ''-''], {})"
proof -
  let ?e = "Bin ''-'' (Bin ''*'' (Atom ''2'') (Group (Bin ''+'' (Atom ''x'') (Atom ''4'')))) (App ''abs'' (Atom ''y''))"
  have "wf_expr ?e" by code_simp
  from expr_correct [OF this empty_objects, of undefined Map.empty]
  have "expr_parse (toks ?e) = Inr (postfix ?e, objects ?e)" by blast
  then show ?thesis by (simp add: has_prefix_def)
qed

text \<open>C34: the aggregates see every leaf exactly once and always end. Over objects without cycles the
  walks below a named object return, leave the objects alone, and list the override statuses,
  and the results that are numbers, of the leaves below it: the same ones, counted with
  multiplicity, as a depth-first enumeration lists.\<close>

theorem walks_see_leaves:
  assumes "settled st" "acyclic_objects st rank" "named_ok st" "Find st obj = Some m"
  shows "\<exists>rs ss. resultList obj st = Some (rs, st) \<and> statusList obj st = Some (ss, st)
    \<and> mset rs = mset (concat (map (\<lambda>p. result_leaf (ms_heap st p)) (leaves_of st rank m)))
    \<and> mset ss = mset (map (\<lambda>p. p_OvStatus (ms_heap st p)) (leaves_of st rank m))"
proof -
  have m: "mset (concat (map f ps)) = mset (concat (map f qs))" if "mset ps = mset qs" for f :: "ptr \<Rightarrow> 'b list" and ps qs
  proof -
    have "mset (concat (map f xs)) = (\<Sum>x \<in># mset xs. mset (f x))" for xs by (induction xs) simp_all
    then show ?thesis using that by simp
  qed
  obtain ps where ps: "resultList obj st = Some (concat (map (\<lambda>p. result_leaf (ms_heap st p)) ps), st)" "mset ps = mset (leaves_of st rank m)"
    using resultList_total [OF assms(1-3), of obj] assms(4) by auto
  obtain qs where qs: "statusList obj st = Some (map (\<lambda>p. p_OvStatus (ms_heap st p)) qs, st)" "mset qs = mset (leaves_of st rank m)"
    using statusList_total [OF assms(1-3), of obj] assms(4) by auto
  have "mset (map (\<lambda>p. p_OvStatus (ms_heap st p)) qs) = mset (map (\<lambda>p. p_OvStatus (ms_heap st p)) (leaves_of st rank m))"
    using qs(2) by simp
  with m [OF ps(2)] show ?thesis using ps(1) qs(1) by blast
qed


theorem walks_see_leaves_witness:
  "\<exists>rs ss. resultList ''Top'' (empty_monel\<lparr>ms_byname := [''Top'' \<mapsto> 5]\<rparr>) = Some (rs, empty_monel\<lparr>ms_byname := [''Top'' \<mapsto> 5]\<rparr>)
    \<and> statusList ''Top'' (empty_monel\<lparr>ms_byname := [''Top'' \<mapsto> 5]\<rparr>) = Some (ss, empty_monel\<lparr>ms_byname := [''Top'' \<mapsto> 5]\<rparr>) \<and> ss = [UNKNOWN]"
proof -
  let ?st = "empty_monel\<lparr>ms_byname := [''Top'' \<mapsto> 5]\<rparr>"
  have k: "me_Children p ?st = ([], ?st)" for p
    by (simp add: me_Children_def empty_monel_def blank_object_def)
  then have "settled ?st" "acyclic_objects ?st (\<lambda>_. 0)" by (simp_all add: settled_def acyclic_objects_def kids_def)
  moreover have "named_ok ?st" "Find ?st ''Top'' = Some 5" by (simp_all add: named_ok_def Find_def)
  ultimately obtain rs ss where "resultList ''Top'' ?st = Some (rs, ?st)" "statusList ''Top'' ?st = Some (ss, ?st)"
    "mset ss = mset (map (\<lambda>p. p_OvStatus (ms_heap ?st p)) (leaves_of ?st (\<lambda>_. 0) 5))"
    using walks_see_leaves [of ?st "\<lambda>_. 0" "''Top''" 5] by blast
  moreover have "leaves_of ?st (\<lambda>_. 0) 5 = [5]" by (simp add: leaves_of_def kids_def k)
  moreover have "p_OvStatus (ms_heap ?st 5) = 0" by (simp add: empty_monel_def blank_object_def)
  ultimately show ?thesis by auto
qed

section \<open>Tokens\<close>

text \<open>A layout: tokens, each followed by a number of blanks.\<close>

fun render :: "(string \<times> nat) list \<Rightarrow> string" where
  "render [] = []"
| "render ((t, n) # l) = t @ replicate n (CHR '' '') @ render l"

definition op_token :: "string \<Rightarrow> bool" where
  "op_token t \<longleftrightarrow> t \<in> set (map (\<lambda>c. [c]) ''()+-*/%^'')"

definition word_token :: "string \<Rightarrow> bool" where
  "word_token t \<longleftrightarrow> t \<noteq> [] \<and> list_all (\<lambda>c. \<not> is_space c \<and> \<not> delimiter c) t \<and> hd t \<notin> {CHR ''{'', CHR 0x22, CHR 0x27}"

text \<open>Two words are not adjacent without a blank.\<close>

fun layout_ok :: "(string \<times> nat) list \<Rightarrow> bool" where
  "layout_ok [] = True"
| "layout_ok ((t, n) # l) =
     ((op_token t \<or> word_token t) \<and> (word_token t \<and> n = 0 \<longrightarrow> l = [] \<or> op_token (fst (hd l))) \<and> layout_ok l)"

lemma trim_blank [simp]: "trim_space (CHR '' '' # s) = trim_space s"
  by (simp add: trim_space_def trim_left_def is_space_def)

lemma trim_blanks [simp]: "trim_space (replicate n (CHR '' '') @ s) = trim_space s"
  by (induction n) simp_all

lemma trim_right_append: "\<exists>c \<in> set t. \<not> is_space c \<Longrightarrow> trim_right is_space (s @ t) = s @ trim_right is_space t"
  by (auto simp: trim_right_def dropWhile_append1)

lemma trim_right_Cons: "\<not> is_space c \<Longrightarrow> trim_right is_space (c # s) = c # trim_right is_space s"
  by (cases "\<forall>x \<in> set s. is_space x") (auto simp: trim_right_def dropWhile_append)

lemma trim_token: "t \<noteq> [] \<Longrightarrow> list_all (\<lambda>c. \<not> is_space c) t \<Longrightarrow> trim_space (t @ s) = t @ trim_right is_space s"
proof (induction t)
  case (Cons c t)
  have "trim_right is_space (t @ s) = t @ trim_right is_space s"
    using Cons.prems by (induction t) (auto simp: trim_right_Cons)
  then show ?case using Cons.prems by (simp add: trim_space_def trim_left_def trim_right_Cons)
qed simp

lemma trim_right_left: "trim_space (trim_right is_space s) = trim_space s"
proof -
  have "trim_right is_space (trim_right is_space s) = trim_right is_space s" for s
    by (simp add: trim_right_def)
  moreover have "trim_left is_space (trim_right is_space s) = trim_right is_space (trim_left is_space s)" for s
  proof (induction s)
    case (Cons c s)
    then show ?case
      by (cases "is_space c"; cases "\<forall>x \<in> set s. is_space x")
        (auto simp: trim_left_def trim_right_def dropWhile_append dest: set_dropWhileD)
  qed (simp add: trim_left_def trim_right_def)
  ultimately show ?thesis by (simp add: trim_space_def)
qed


lemma index_delimiter:
  "list_all (\<lambda>c. \<not> delimiter c) w \<Longrightarrow> index_of delimiter w = None"
  "list_all (\<lambda>c. \<not> delimiter c) w \<Longrightarrow> delimiter d \<Longrightarrow> index_of delimiter (w @ d # u) = Some (length w)"
  by (induction w) auto

lemma next_word:
  assumes "word_token w"
  shows "next_token w = Inr ([w], [])"
    and "delimiter d \<Longrightarrow> next_token (w @ d # u) = Inr (w # (if d \<noteq> CHR '' '' \<and> d \<noteq> CHR 0x09 then [[d]] else []), u)"
proof -
  have w: "w \<noteq> []" "list_all (\<lambda>c. \<not> delimiter c) w" "list_all (\<lambda>c. \<not> is_space c) w" "hd w \<notin> {CHR ''{'', CHR 0x22, CHR 0x27}"
    using assms by (auto simp: word_token_def list_all_iff)
  have t: "trim_space w = w" using trim_token [OF w(1,3), of "[]"] by (simp add: trim_right_def)
  show "next_token w = Inr ([w], [])" using w t index_delimiter(1) [OF w(2)] by (simp add: next_token_def Let_def)
  assume d: "delimiter d"
  have "hd (w @ d # u) = hd w" using w(1) by simp
  then show "next_token (w @ d # u) = Inr (w # (if d \<noteq> CHR '' '' \<and> d \<noteq> CHR 0x09 then [[d]] else []), u)"
    using w t index_delimiter(2) [OF w(2) d, of u] by (simp add: next_token_def Let_def)
qed

lemma op_chars:
  "list_all (\<lambda>c. delimiter c \<and> \<not> is_space c \<and> c \<noteq> CHR '' '' \<and> c \<noteq> CHR 0x09 \<and> c \<noteq> CHR ''{'' \<and> c \<noteq> CHR 0x22 \<and> c \<noteq> CHR 0x27)
     ''()+-*/%^''"
  by code_simp

lemma op_token_char:
  assumes "op_token t"
  obtains c where "t = [c]" "delimiter c" "\<not> is_space c" "c \<noteq> CHR '' ''" "c \<noteq> CHR 0x09"
    "c \<noteq> CHR ''{''" "c \<noteq> CHR 0x22" "c \<noteq> CHR 0x27"
proof -
  from assms obtain c where c: "t = [c]" "c \<in> set ''()+-*/%^''" by (auto simp: op_token_def)
  show ?thesis using that c op_chars [unfolded list_all_iff] by blast
qed

lemma next_op: "op_token [c] \<Longrightarrow> next_token (c # u) = Inr ([[c]], u)"
  by (erule op_token_char) (simp add: next_token_def Let_def)

lemma trim_right_blank: "trim_right is_space (CHR '' '' # s) = (if trim_right is_space s = [] then [] else CHR '' '' # trim_right is_space s)"
  by (cases "\<forall>x \<in> set s. is_space x") (auto simp: trim_right_def dropWhile_append is_space_def)

lemma trim_nonspace: "\<exists>c \<in> set s. \<not> is_space c \<Longrightarrow> trim_right is_space s \<noteq> []"
  by (auto simp: trim_right_def)

lemma layout_nonspace: "layout_ok l \<Longrightarrow> l \<noteq> [] \<Longrightarrow> \<exists>c \<in> set (render l). \<not> is_space c"
proof (cases l)
  case (Cons a r)
  assume "layout_ok l"
  moreover obtain t n where "a = (t, n)" by force
  ultimately have "op_token t \<or> word_token t" "render l = t @ replicate n (CHR '' '') @ render r" using Cons by simp_all
  then show ?thesis by (cases t) (auto simp: word_token_def elim: op_token_char)
qed simp

lemma tokenize_step:
  assumes "next_token s = Inr (ts, u)" "tokenize_loop (trim_space u) = Inr r" "s \<noteq> []"
  shows "tokenize_loop s = Inr (ts @ r)"
  using assms by (subst tokenize_loop.simps) simp

lemma tokenize_nil: "tokenize_loop (trim_space []) = Inr []"
  by (subst tokenize_loop.simps) (simp add: trim_space_def trim_left_def trim_right_def)

lemma token_shape: "op_token t \<or> word_token t \<Longrightarrow> t \<noteq> [] \<and> list_all (\<lambda>c. \<not> is_space c) t"
  by (auto simp: word_token_def list_all_iff elim: op_token_char)

text \<open>What follows a word: nothing, a blank, or an operator.\<close>

lemma after_word:
  assumes "n = 0 \<longrightarrow> r = [] \<or> op_token (fst (hd r))" "layout_ok r"
  obtains "r = []" "trim_right is_space (replicate n (CHR '' '') @ render r) = []"
  | v where "trim_right is_space (replicate n (CHR '' '') @ render r) = CHR '' '' # v"
  | c m r' where "r = ([c], m) # r'" "op_token [c]" "n = 0"
proof (cases n)
  case 0
  with assms(1) consider "r = []" | t m r' where "r = (t, m) # r'" "op_token t" by (cases r) auto
  then show ?thesis
  proof cases
    case 1
    then show ?thesis using that(1) 0 by (simp add: trim_right_def)
  next
    case (2 t m r')
    then show ?thesis using that(3) 0 by (auto elim: op_token_char)
  qed
next
  case (Suc k)
  show ?thesis
  proof (cases "trim_right is_space (replicate n (CHR '' '') @ render r) = []")
    case True
    then have "r = []"
      using layout_nonspace [OF assms(2)] trim_nonspace [of "replicate n (CHR '' '') @ render r"] by auto
    then show ?thesis using that(1) True by simp
  next
    case False
    then show ?thesis using that(2) Suc by (simp add: trim_right_blank split: if_splits)
  qed
qed

lemma tokenize_render: "layout_ok l \<Longrightarrow> tokenize_loop (trim_space (render l)) = Inr (map fst l)"
proof (induction "length l" arbitrary: l rule: less_induct)
  case less
  show ?case
  proof (cases l)
    case Nil
    then show ?thesis using tokenize_nil by simp
  next
    case (Cons a r)
    obtain t n where a: "a = (t, n)" by force
    have ok: "op_token t \<or> word_token t" "word_token t \<and> n = 0 \<longrightarrow> r = [] \<or> op_token (fst (hd r))" "layout_ok r"
      using less.prems by (simp_all add: Cons a)
    have IH: "tokenize_loop (trim_space (render r)) = Inr (map fst r)" using less.hyps [of r] ok(3) by (simp add: Cons)
    define u where "u = trim_right is_space (replicate n (CHR '' '') @ render r)"
    note t = token_shape [OF ok(1)]
    have trim: "trim_space (render l) = t @ u" using trim_token t by (simp add: Cons a u_def)
    have "trim_space u = trim_space (render r)" by (simp add: u_def trim_right_left)
    with IH have rest: "tokenize_loop (trim_space u) = Inr (map fst r)" by simp
    have fst: "map fst l = [t] @ map fst r" by (simp add: Cons a)
    have ne: "t @ v \<noteq> []" for v using t by simp
    show ?thesis
    proof (cases "op_token t")
      case True
      then have "next_token (t @ u) = Inr ([t], u)" by (rule op_token_char) (use next_op True in simp)
      then show ?thesis unfolding trim fst by (rule tokenize_step [OF _ rest ne])
    next
      case False
      with ok(1) have w: "word_token t" by simp
      with ok(2) have "n = 0 \<longrightarrow> r = [] \<or> op_token (fst (hd r))" by simp
      from this ok(3) show ?thesis
      proof (cases rule: after_word)
        case 1
        then have "u = []" by (simp add: u_def)
        then have "next_token (t @ u) = Inr ([t], u)" using next_word(1) [OF w] by simp
        then show ?thesis unfolding trim fst by (rule tokenize_step [OF _ rest ne])
      next
        case (2 v)
        then have u: "u = CHR '' '' # v" by (simp add: u_def)
        then have "next_token (t @ u) = Inr ([t], v)" using next_word(2) [OF w, of "CHR '' ''" v] by (simp add: delimiter_def)
        moreover have "tokenize_loop (trim_space v) = Inr (map fst r)" using rest u by simp
        ultimately show ?thesis unfolding trim fst by (rule tokenize_step [OF _ _ ne])
      next
        case (3 c m r')
        from 3(2) obtain c: "delimiter c" "\<not> is_space c" "c \<noteq> CHR '' ''" "c \<noteq> CHR 0x09" by (rule op_token_char) simp
        define v where "v = trim_right is_space (replicate m (CHR '' '') @ render r')"
        have u: "u = c # v" using c(2) 3(1,3) by (simp add: u_def v_def trim_right_Cons)
        have "tokenize_loop (trim_space (render r')) = Inr (map fst r')"
          using less.hyps [of r'] ok(3) 3(1) by (simp add: Cons)
        moreover have "trim_space v = trim_space (render r')" by (simp add: v_def trim_right_left)
        ultimately have "tokenize_loop (trim_space v) = Inr (map fst r')" by simp
        moreover have "next_token (t @ u) = Inr (t # [[c]], v)" using next_word(2) [OF w c(1), of v] c(3,4) u by simp
        moreover have "map fst l = (t # [[c]]) @ map fst r'" using 3(1) by (simp add: fst)
        ultimately show ?thesis unfolding trim by (metis tokenize_step ne)
      qed
    qed
  qed
qed

text \<open>Blanks do not matter to the tokens, except between two words. However the tokens of an
  expression are laid out, with any blanks between them and none where an operator or bracket
  separates them, the tokenizer gives back exactly these tokens.\<close>

theorem tokenize_layout:
  assumes "layout_ok l"
  shows "tokenize (replicate k (CHR '' '') @ render l) = Inr (map fst l)"
  using tokenize_render [OF assms] by (simp add: tokenize_def)

theorem tokenize_layout_witness:
  "tokenize ''  foo*( 2 +bar )'' = Inr [''foo'', ''*'', ''('', ''2'', ''+'', ''bar'', '')'']"
proof -
  have "layout_ok [(''foo'', 0), (''*'', 0), (''('', 1), (''2'', 1), (''+'', 0), (''bar'', 1), ('')'', 0)]" by code_simp
  from tokenize_layout [OF this, of 2] show ?thesis by (simp add: numeral_2_eq_2)
qed

text \<open>Two oddities: an unmatched left bracket stays in the program as a value, and \<open>/\<close> binds less
  strongly than \<open>*\<close>.\<close>

lemma unmatched_left_bracket: "expr_Parse ''(1 + 2'' = Inr ([''1'', ''2'', ''+'', ''(''], {})"
  by code_simp

lemma division_below_product: "expr_Parse ''a/b*c'' = Inr ([''a'', ''b'', ''c'', ''*'', ''/''], {})"
  by code_simp

end
