(* ===== verification/Hwab.thy ===== *)
theory Hwab
  imports GoFloat
begin

text \<open>
  Holt-Winters aberrant behaviour detection of package \<open>service\<close> (\<open>src/argus/service/hwab.go\<close>):
  a seasonal prediction of a service's value, kept in one bucket per five minutes of a period.

  Numbers are Go's \<open>float32\<close> and \<open>float64\<close>; \<open>math.Sqrt\<close> and \<open>math.Exp\<close> are the fields of
  \<open>hwab_math\<close>. Every index of the code is a checked one, \<^const>\<open>None\<close> is a panic.
\<close>

section \<open>State\<close>

record hwab_math =
  hm_sqrt :: "gofloat \<Rightarrow> gofloat"
  hm_exp :: "gofloat \<Rightarrow> gofloat"

record hwab_conf =
  hc_Alpha :: gofloat
  hc_Beta :: gofloat
  hc_Gamma :: gofloat
  hc_Period :: int

record hwab =
  h_cf :: hwab_conf
  h_Pbuckets :: int
  h_buckets :: int
  h_Created :: int
  h_Count :: int
  h_Lap :: int
  h_cstart :: int
  h_ctotal :: gofloat
  h_ctota2 :: gofloat
  h_ccount :: int
  h_alpha :: gofloat
  h_beta :: gofloat
  h_gamma :: gofloat
  h_yn :: gofloat
  h_dn :: gofloat
  h_cn :: gofloat
  h_A :: gofloat
  h_B :: gofloat
  h_C :: "gofloat list"
  h_D :: "gofloat list"

definition hwabdefaults :: hwab_conf where
  "hwabdefaults = \<lparr>hc_Alpha = Num False (1 / 2), hc_Beta = Num False (1 / 2), hc_Gamma = Num False (1 / 4),
     hc_Period = 7 * 24 * 3600\<rparr>"

abbreviation (input) TWIN :: int where "TWIN \<equiv> 300"
abbreviation (input) PERIOD_MIN :: int where "PERIOD_MIN \<equiv> 2"
abbreviation (input) PERIOD_MAX :: int where "PERIOD_MAX \<equiv> 30 * 24 * 3600"

abbreviation (input) add32 where "add32 \<equiv> fadd round32"
abbreviation (input) sub32 where "sub32 \<equiv> fsub round32"
abbreviation (input) mul32 where "mul32 \<equiv> fmul round32"
abbreviation (input) div32 where "div32 \<equiv> fdiv round32"
abbreviation (input) num32 :: "int \<Rightarrow> gofloat" where "num32 \<equiv> f_of_int round32"
abbreviation (input) num64 :: "int \<Rightarrow> gofloat" where "num64 \<equiv> f_of_int round64"

definition EPSILOND :: gofloat where
  "EPSILOND = f_of_rat round32 (1 / 10000)"

definition set_at :: "'a list \<Rightarrow> int \<Rightarrow> 'a \<Rightarrow> 'a list option" where
  "set_at xs i v = (if 0 \<le> i \<and> i < int (length xs) then Some (xs[nat i := v]) else None)"

text \<open>The result of reading the configuration is \<open>cf\<close>.\<close>

definition hwab_make :: "hwab \<Rightarrow> hwab" where
  "hwab_make h =
     (let cf = h_cf h;
          cf = (if hc_Period cf < PERIOD_MIN then cf\<lparr>hc_Period := PERIOD_MIN\<rparr> else cf);
          cf = (if hc_Period cf > PERIOD_MAX then cf\<lparr>hc_Period := PERIOD_MAX\<rparr> else cf);
          buckets = hc_Period cf sdiv TWIN
      in h\<lparr>h_cf := cf, h_buckets := buckets, h_alpha := div32 (hc_Alpha cf) (num32 buckets),
           h_beta := div32 (hc_Beta cf) (num32 buckets), h_gamma := hc_Gamma cf,
           h_C := replicate (nat buckets) fzero, h_D := replicate (nat buckets) fzero\<rparr>)"

definition HwabConfig :: "int \<Rightarrow> (hwab_conf \<Rightarrow> hwab_conf) \<Rightarrow> hwab" where
  "HwabConfig now conf =
     (let wnow = (now sdiv TWIN) * TWIN
      in hwab_make
        \<lparr>h_cf = conf hwabdefaults, h_Pbuckets = 0, h_buckets = 0, h_Created = wnow, h_Count = 0, h_Lap = 0,
         h_cstart = wnow, h_ctotal = fzero, h_ctota2 = fzero, h_ccount = 0, h_alpha = fzero, h_beta = fzero,
         h_gamma = fzero, h_yn = fzero, h_dn = fzero, h_cn = fzero, h_A = fzero, h_B = fzero, h_C = [], h_D = []\<rparr>)"

section \<open>Indices\<close>

definition hwab_idx :: "hwab \<Rightarrow> int \<Rightarrow> int option" where
  "hwab_idx h i = (if h_buckets h = 0 then None else Some ((i + h_buckets h) smod h_buckets h))"

definition idxOfT :: "hwab \<Rightarrow> int \<Rightarrow> int option" where
  "idxOfT h now = hwab_idx h ((now - h_Created h) sdiv TWIN)"

definition gap :: "int \<Rightarrow> hwab \<Rightarrow> int option" where
  "gap now h = map_option (\<lambda>i. i - h_Count h) (idxOfT h now)"

text \<open>The loop of \<open>Reset\<close> sets the first \<open>buckets\<close> elements.\<close>

definition zero_first :: "int \<Rightarrow> gofloat list \<Rightarrow> gofloat list option" where
  "zero_first n xs = (if n \<le> int (length xs) then Some (replicate (nat n) fzero @ drop (nat n) xs) else None)"

definition hwab_Reset :: "int \<Rightarrow> hwab \<Rightarrow> hwab option" where
  "hwab_Reset now h = do {
     c \<leftarrow> zero_first (h_buckets h) (h_C h);
     d \<leftarrow> zero_first (h_buckets h) (h_D h);
     Some (h\<lparr>h_Created := (now sdiv TWIN) * TWIN, h_Lap := 0, h_Count := 0, h_C := c, h_D := d\<rparr>)
   }"

definition predict :: "int \<Rightarrow> hwab \<Rightarrow> hwab option" where
  "predict now h = do {
     si \<leftarrow> idxOfT h now;
     c \<leftarrow> elem_at (h_C h) si;
     d \<leftarrow> elem_at (h_D h) si;
     Some (h\<lparr>h_cn := c, h_dn := d, h_yn := add32 (add32 (h_A h) (h_B h)) c\<rparr>)
   }"

definition hwab_Init :: "int \<Rightarrow> hwab \<Rightarrow> hwab option" where
  "hwab_Init now h = do {
     h \<leftarrow> (if h_Pbuckets h \<noteq> 0 \<and> h_Pbuckets h \<noteq> h_buckets h then hwab_Reset now h else Some h);
     h \<leftarrow> (if h_Lap h = 0 then do { g \<leftarrow> gap now h; if g > 5 then hwab_Reset now h else Some h } else Some h);
     let h = h\<lparr>h_Pbuckets := h_buckets h\<rparr>;
     h \<leftarrow> (if h_buckets h < int (length (h_C h)) then do {
              c \<leftarrow> go_slice (h_C h) 0 (h_buckets h);
              d \<leftarrow> go_slice (h_D h) 0 (h_buckets h);
              Some (h\<lparr>h_C := c, h_D := d\<rparr>)
            }
            else Some h);
     predict now h
   }"

section \<open>One bucket\<close>

definition or_sqrt :: "hwab_math \<Rightarrow> gofloat \<Rightarrow> gofloat \<Rightarrow> gofloat" where
  "or_sqrt env dx ave = (if feq dx fzero then f_conv round32 (hm_sqrt env ave) else dx)"

text \<open>The first period.\<close>

definition bootstrap1 :: "hwab_math \<Rightarrow> gofloat \<Rightarrow> gofloat \<Rightarrow> int \<Rightarrow> hwab \<Rightarrow> hwab option" where
  "bootstrap1 env ave sdv si h = do {
     sp \<leftarrow> hwab_idx h (si - 1);
     c \<leftarrow> elem_at (h_C h) sp;
     d \<leftarrow> elem_at (h_D h) sp;
     let (c, d) = (if feq d fzero then (ave, sdv) else (c, d));
     let at' = ave;
     let dx = or_sqrt env (add32 sdv (fabs (sub32 ave c))) ave;
     let dt = div32 (add32 dx (mul32 (num32 3) d)) (num32 4);
     C \<leftarrow> set_at (h_C h) si at';
     D \<leftarrow> set_at (h_D h) si dt;
     Some (h\<lparr>h_A := fzero, h_B := fzero, h_C := C, h_D := D, h_yn := sub32 (mul32 (num32 2) at') c,
             h_cn := at', h_dn := dt\<rparr>)
   }"

text \<open>The second period.\<close>

definition bootstrap2 :: "hwab_math \<Rightarrow> gofloat \<Rightarrow> gofloat \<Rightarrow> int \<Rightarrow> hwab \<Rightarrow> hwab option" where
  "bootstrap2 env ave sdv si h = do {
     sp \<leftarrow> hwab_idx h (si - 1);
     sn \<leftarrow> hwab_idx h (si + 1);
     c \<leftarrow> elem_at (h_C h) si;
     d \<leftarrow> elem_at (h_D h) si;
     dp \<leftarrow> elem_at (h_D h) sp;
     let (c, d) = (if feq d fzero then (sub32 ave (h_A h), if feq dp fzero then sdv else dp) else (c, d));
     let y = add32 (mul32 (h_B h) (num32 (h_buckets h))) c;
     let dx = or_sqrt env (add32 (fabs (sub32 ave y)) sdv) ave;
     let alpha = h_alpha h;
     let beta = div32 (num32 1) (num32 (si + 1));
     let gamma = Num False (1 / 2);
     let at' = add32 (mul32 alpha (sub32 ave c)) (mul32 (sub32 (num32 1) alpha) (add32 (h_A h) (h_B h)));
     let bt = add32 (div32 (mul32 beta (sub32 ave c)) (num32 (h_buckets h))) (mul32 (sub32 (num32 1) beta) (h_B h));
     let ct = sub32 (sub32 ave at') bt;
     let dt = add32 (mul32 gamma dx) (mul32 (sub32 (num32 1) gamma) d);
     C \<leftarrow> set_at (h_C h) si ct;
     D \<leftarrow> set_at (h_D h) si dt;
     dn \<leftarrow> elem_at D sn;
     Some (h\<lparr>h_A := at', h_B := bt, h_C := C, h_D := D, h_cn := ct, h_yn := add32 ave bt, h_dn := dn\<rparr>)
   }"

text \<open>Every later period.\<close>

definition hwab_hw :: "gofloat \<Rightarrow> gofloat \<Rightarrow> int \<Rightarrow> hwab \<Rightarrow> hwab option" where
  "hwab_hw ave sdv si h = do {
     sn \<leftarrow> hwab_idx h (si + 1);
     c \<leftarrow> elem_at (h_C h) si;
     d \<leftarrow> elem_at (h_D h) si;
     let y = add32 (add32 (h_A h) (h_B h)) c;
     let dx = add32 (fabs (sub32 ave y)) sdv;
     let dx = (if feq dx fzero then EPSILOND else dx);
     let at' = add32 (mul32 (h_alpha h) (sub32 ave c)) (mul32 (sub32 (num32 1) (h_alpha h)) (add32 (h_A h) (h_B h)));
     let bt = add32 (mul32 (h_beta h) (sub32 at' (h_A h))) (mul32 (sub32 (num32 1) (h_beta h)) (h_B h));
     let ct = add32 (mul32 (h_gamma h) (sub32 ave at')) (mul32 (sub32 (num32 1) (h_gamma h)) c);
     let dt = add32 (mul32 (h_gamma h) dx) (mul32 (sub32 (num32 1) (h_gamma h)) d);
     C \<leftarrow> set_at (h_C h) si ct;
     D \<leftarrow> set_at (h_D h) si dt;
     cn \<leftarrow> elem_at C sn;
     dn \<leftarrow> elem_at D sn;
     Some (h\<lparr>h_A := at', h_B := bt, h_C := C, h_D := D, h_cn := cn, h_yn := add32 (add32 at' bt) cn, h_dn := dn\<rparr>)
   }"

section \<open>Between periods\<close>

definition checkEnough :: "hwab \<Rightarrow> bool option" where
  "checkEnough h = do {
     x \<leftarrow> elem_at (h_D h) 0;
     y \<leftarrow> elem_at (h_D h) (h_buckets h - 1);
     Some (\<not> (feq x fzero \<or> feq y fzero))
   }"

text \<open>The distance from \<open>si\<close> of the nearest bucket that is not empty, to the left (\<open>dir\<close> is -1) or to
  the right; \<open>n\<close> steps are left.\<close>

fun find_bucket :: "hwab \<Rightarrow> gofloat list \<Rightarrow> int \<Rightarrow> int \<Rightarrow> int \<Rightarrow> nat \<Rightarrow> int option" where
  "find_bucket h D si dir l 0 = Some l"
| "find_bucket h D si dir l (Suc n) = do {
     j \<leftarrow> hwab_idx h (si + dir * l);
     d \<leftarrow> elem_at D j;
     if \<not> feq d fzero then Some l else find_bucket h D si dir (l + 1) n
   }"

definition interp_one :: "hwab \<Rightarrow> int \<Rightarrow> int \<Rightarrow> gofloat list \<Rightarrow> gofloat list \<Rightarrow> (gofloat list \<times> gofloat list) option" where
  "interp_one h li si C D = do {
     l \<leftarrow> find_bucket h D si (-1) 0 (nat (h_buckets h));
     r \<leftarrow> find_bucket h D si 1 0 (nat (h_buckets h));
     jl \<leftarrow> hwab_idx h (si - l);
     jr \<leftarrow> hwab_idx h (si + r);
     ji \<leftarrow> hwab_idx h li;
     cl \<leftarrow> elem_at C jl;
     cr \<leftarrow> elem_at C jr;
     C \<leftarrow> set_at C si (div32 (add32 (mul32 cl (num32 r)) (mul32 cr (num32 l))) (num32 (l + r)));
     di \<leftarrow> elem_at D ji;
     dr \<leftarrow> elem_at D jr;
     D \<leftarrow> set_at D si (add32 di dr);
     Some (C, D)
   }"

fun interp_loop :: "hwab \<Rightarrow> int list \<Rightarrow> int \<Rightarrow> gofloat list \<Rightarrow> gofloat list \<Rightarrow> (gofloat list \<times> gofloat list) option" where
  "interp_loop h [] li C D = Some (C, D)"
| "interp_loop h (si # sis) li C D = do {
     d \<leftarrow> elem_at D si;
     if \<not> feq d fzero then interp_loop h sis si C D
     else do {
       (C, D) \<leftarrow> interp_one h li si C D;
       interp_loop h sis li C D
     }
   }"

definition interpolate :: "hwab \<Rightarrow> hwab option" where
  "interpolate h = map_option (\<lambda>(C, D). h\<lparr>h_C := C, h_D := D\<rparr>)
     (interp_loop h [0..h_buckets h - 1] 0 (h_C h) (h_D h))"

fun smooth_sum :: "hwab_math \<Rightarrow> hwab \<Rightarrow> gofloat \<Rightarrow> int \<Rightarrow> int list \<Rightarrow> gofloat \<times> gofloat \<times> gofloat \<Rightarrow> (gofloat \<times> gofloat \<times> gofloat) option" where
  "smooth_sum env h sdvk si [] tot = Some tot"
| "smooth_sum env h sdvk si (i # is) tot = do {
     let w = hm_exp env (fdiv round64 (num64 (i * i)) sdvk);
     sj \<leftarrow> hwab_idx h (si + i);
     d \<leftarrow> elem_at (h_D h) sj;
     if feq d fzero then smooth_sum env h sdvk si is tot
     else do {
       c \<leftarrow> elem_at (h_C h) sj;
       let (ctot, dtot, wtot) = tot;
       smooth_sum env h sdvk si is
         (fadd round64 ctot (fmul round64 w c), fadd round64 dtot (fmul round64 w d), fadd round64 wtot w)
     }
   }"

fun smooth_loop :: "hwab_math \<Rightarrow> hwab \<Rightarrow> int \<Rightarrow> gofloat \<Rightarrow> int list \<Rightarrow> gofloat list \<Rightarrow> gofloat list \<Rightarrow> (gofloat list \<times> gofloat list) option" where
  "smooth_loop env h wsize sdvk [] c d = Some (c, d)"
| "smooth_loop env h wsize sdvk (si # sis) c d = do {
     (ctot, dtot, wtot) \<leftarrow> smooth_sum env h sdvk si [- wsize..wsize] (fzero, fzero, fzero);
     if feq wtot fzero then smooth_loop env h wsize sdvk sis c d
     else do {
       c \<leftarrow> set_at c si (f_conv round32 (fdiv round64 ctot wtot));
       d \<leftarrow> set_at d si (f_conv round32 (fdiv round64 dtot wtot));
       smooth_loop env h wsize sdvk sis c d
     }
   }"

definition hwab_smooth :: "hwab_math \<Rightarrow> hwab \<Rightarrow> hwab option" where
  "hwab_smooth env h =
     (let c = replicate (nat (h_buckets h)) fzero;
          d = replicate (nat (h_buckets h)) fzero;
          wsize = h_buckets h sdiv 20;
          wsize = (if wsize < 2 then 2 else wsize);
          sdev = fdiv round64 (num64 (h_buckets h)) (num64 100);
          sdvk = fmul round64 (fmul round64 (fneg sdev) sdev) (num64 2)
      in map_option (\<lambda>(c, d). h\<lparr>h_C := c, h_D := d\<rparr>) (smooth_loop env h wsize sdvk [0..h_buckets h - 1] c d))"

definition hwab_normalize :: "hwab \<Rightarrow> hwab option" where
  "hwab_normalize h =
     (let n = nat (h_buckets h) in
      if n > length (h_C h) then None
      else
        let ctot = foldl add32 fzero (take n (h_C h));
            cm = div32 ctot (num32 (h_buckets h))
        in Some (h\<lparr>h_C := map (\<lambda>c. sub32 c cm) (take n (h_C h)) @ drop n (h_C h), h_A := add32 (h_A h) cm\<rparr>))"

section \<open>Adding values\<close>

definition hwab_lap :: "hwab_math \<Rightarrow> int \<Rightarrow> hwab \<Rightarrow> hwab option" where
  "hwab_lap env si h = do {
     let h = (if si = 0 \<and> h_Count h > 0 then h\<lparr>h_Lap := h_Lap h + 1\<rparr> else h);
     h \<leftarrow> (if h_Lap h = 1 \<and> si = 0 then do {
              enough \<leftarrow> checkEnough h;
              if enough then interpolate h else Some (h\<lparr>h_Lap := 0, h_Count := 0\<rparr>)
            }
            else Some h);
     if si = 0 \<and> h_Lap h > 1 then do { h \<leftarrow> hwab_smooth env h; hwab_normalize h } else Some h
   }"

definition hwab_add :: "hwab_math \<Rightarrow> gofloat \<Rightarrow> gofloat \<Rightarrow> int \<Rightarrow> hwab \<Rightarrow> hwab option" where
  "hwab_add env ave sdv now h = do {
     si \<leftarrow> idxOfT h now;
     h \<leftarrow> hwab_lap env si h;
     h \<leftarrow> (if h_Lap h = 0 then bootstrap1 env ave sdv si h
           else if h_Lap h = 1 then bootstrap2 env ave sdv si h
           else hwab_hw ave sdv si h);
     Some (h\<lparr>h_Count := h_Count h + 1\<rparr>)
   }"

text \<open>What the operations on buckets leave alone.\<close>

definition same_frame :: "hwab \<Rightarrow> hwab \<Rightarrow> bool" where
  "same_frame h h' \<longleftrightarrow> h_cstart h' = h_cstart h \<and> h_buckets h' = h_buckets h \<and> h_Created h' = h_Created h \<and>
     h_gamma h' = h_gamma h \<and> h_ctotal h' = h_ctotal h \<and> h_ctota2 h' = h_ctota2 h \<and> h_ccount h' = h_ccount h"

lemma same_frame_refl [simp]: "same_frame h h"
  by (simp add: same_frame_def)

lemma same_frame_trans: "same_frame h h' \<Longrightarrow> same_frame h' h'' \<Longrightarrow> same_frame h h''"
  by (simp add: same_frame_def)

lemma same_frame_counters [simp]:
  "same_frame (h\<lparr>h_Lap := n\<rparr>) h' = same_frame h h'" "same_frame (h\<lparr>h_Count := k\<rparr>) h' = same_frame h h'"
  "same_frame h (h'\<lparr>h_Lap := n\<rparr>) = same_frame h h'" "same_frame h (h'\<lparr>h_Count := k\<rparr>) = same_frame h h'"
  by (simp_all add: same_frame_def)

lemma frame_parts:
  "interpolate h = Some h' \<Longrightarrow> same_frame h h'" "hwab_smooth env h = Some h' \<Longrightarrow> same_frame h h'"
  "hwab_normalize h = Some h' \<Longrightarrow> same_frame h h'"
  by (auto simp: interpolate_def hwab_smooth_def hwab_normalize_def Let_def same_frame_def split: if_splits)

lemma frame_lap: "hwab_lap env si h = Some h' \<Longrightarrow> same_frame h h'"
proof -
  assume r: "hwab_lap env si h = Some h'"
  define h0 where "h0 = (if si = 0 \<and> h_Count h > 0 then h\<lparr>h_Lap := h_Lap h + 1\<rparr> else h)"
  have h0: "same_frame h h0" by (simp add: h0_def)
  from r obtain h1 where h1: "(if h_Lap h0 = 1 \<and> si = 0 then do {
              enough \<leftarrow> checkEnough h0;
              if enough then interpolate h0 else Some (h0\<lparr>h_Lap := 0, h_Count := 0\<rparr>)
            }
            else Some h0) = Some h1"
    and h': "(if si = 0 \<and> h_Lap h1 > 1 then do { h \<leftarrow> hwab_smooth env h1; hwab_normalize h } else Some h1) = Some h'"
    unfolding hwab_lap_def Let_def h0_def [symmetric] Option.bind_eq_Some_conv by blast
  have "same_frame h0 h1" using h1 by (auto split: if_splits bind_splits dest: frame_parts)
  moreover have "same_frame h1 h'" using h' by (auto split: if_splits bind_splits dest!: frame_parts intro: same_frame_trans)
  ultimately show ?thesis using h0 same_frame_trans by blast
qed

lemma frame_update:
  "bootstrap1 env ave sdv si h = Some h' \<Longrightarrow> same_frame h h'"
  "bootstrap2 env ave sdv si h = Some h' \<Longrightarrow> same_frame h h'"
  "hwab_hw ave sdv si h = Some h' \<Longrightarrow> same_frame h h'"
  by (auto simp: bootstrap1_def bootstrap2_def hwab_hw_def Let_def same_frame_def split: bind_splits prod.splits)

lemma frame_add: "hwab_add env ave sdv now h = Some h' \<Longrightarrow> same_frame h h'"
  by (auto simp: hwab_add_def same_frame_def split: bind_splits if_splits
      dest!: frame_lap [unfolded same_frame_def] frame_update [unfolded same_frame_def])

function addat_loop :: "hwab_math \<Rightarrow> gofloat \<Rightarrow> gofloat \<Rightarrow> int \<Rightarrow> hwab \<Rightarrow> hwab option" where
  "addat_loop env ave sdv now h =
     (if h_cstart h + TWIN \<le> now then
        (case hwab_add env ave sdv (h_cstart h) h of
           None \<Rightarrow> None
         | Some h \<Rightarrow> addat_loop env ave sdv now
             (h\<lparr>h_cstart := h_cstart h + TWIN, h_ccount := 0, h_ctotal := fzero, h_ctota2 := fzero\<rparr>))
      else Some h)"
  by pat_completeness auto
termination
  by (relation "measure (\<lambda>(env, ave, sdv, now, h). nat (now - h_cstart h))") (auto dest!: frame_add simp: same_frame_def)

declare addat_loop.simps [simp del]

definition AddAt :: "hwab_math \<Rightarrow> gofloat \<Rightarrow> int \<Rightarrow> hwab \<Rightarrow> hwab option" where
  "AddAt env val now h =
     (let h = h\<lparr>h_ccount := h_ccount h + 1, h_ctotal := fadd round64 (h_ctotal h) val,
                h_ctota2 := fadd round64 (h_ctota2 h) (fmul round64 val val)\<rparr> in
      if h_cstart h + TWIN > now then Some h
      else
        let ave = fdiv round64 (h_ctotal h) (num64 (h_ccount h));
            sdv = hm_sqrt env (fsub round64 (fdiv round64 (h_ctota2 h) (num64 (h_ccount h))) (fmul round64 ave ave))
        in addat_loop env (f_conv round32 ave) (f_conv round32 sdv) now h)"

text \<open>\<^const>\<open>None\<close>: no prediction yet.\<close>

definition Deviation :: "gofloat \<Rightarrow> hwab \<Rightarrow> gofloat option" where
  "Deviation val h =
     (if feq (h_dn h) fzero then None else Some (div32 (sub32 (h_yn h) (f_conv round32 val)) (h_dn h)))"

end
