(* ===== verification/HwabSafety.thy ===== *)
theory HwabSafety
  imports Hwab
begin

text \<open>
  Well-formed predictions: the arrays have one element per bucket and no deviation is negative.
  Every operation keeps them so and never panics, and the gaps of the first period are filled.
\<close>

section \<open>Partial results\<close>

definition yields :: "'a option \<Rightarrow> ('a \<Rightarrow> bool) \<Rightarrow> bool" where
  "yields r P \<longleftrightarrow> (\<exists>x. r = Some x \<and> P x)"

lemma yields_Some [simp]: "yields (Some x) P = P x"
  by (simp add: yields_def)

lemma yields_map [simp]: "yields (map_option f r) P = yields r (\<lambda>x. P (f x))"
  by (auto simp: yields_def)

lemma yields_bind: "yields m P \<Longrightarrow> (\<And>x. P x \<Longrightarrow> yields (f x) Q) \<Longrightarrow> yields (m \<bind> f) Q"
  by (auto simp: yields_def)

lemma yields_mono: "yields r P \<Longrightarrow> (\<And>x. P x \<Longrightarrow> Q x) \<Longrightarrow> yields r Q"
  by (auto simp: yields_def)

lemma yields_elem: "0 \<le> i \<Longrightarrow> i < int (length xs) \<Longrightarrow> list_all P xs \<Longrightarrow> yields (elem_at xs i) P"
  by (simp add: elem_at_def list_all_length nat_less_iff)

lemma yields_elem_any: "0 \<le> i \<Longrightarrow> i < int (length xs) \<Longrightarrow> yields (elem_at xs i) (\<lambda>x. x = xs ! nat i)"
  by (simp add: elem_at_def)

lemma yields_set:
  "0 \<le> i \<Longrightarrow> i < int (length xs) \<Longrightarrow> list_all P xs \<Longrightarrow> P v \<Longrightarrow>
   yields (set_at xs i v) (\<lambda>ys. length ys = length xs \<and> list_all P ys \<and> ys = xs[nat i := v])"
  by (auto simp: set_at_def list_all_length nth_list_update)

lemma yields_set_any: "0 \<le> i \<Longrightarrow> i < int (length xs) \<Longrightarrow> yields (set_at xs i v) (\<lambda>ys. length ys = length xs \<and> ys = xs[nat i := v])"
  by (simp add: set_at_def)

section \<open>Numbers that are not negative\<close>

fun fnn :: "gofloat \<Rightarrow> bool" where
  "fnn NaN = True"
| "fnn (Inf s) = (\<not> s)"
| "fnn (Num s m) = (0 \<le> m \<and> (s \<longrightarrow> m = 0))"

definition unit_interval :: "gofloat \<Rightarrow> bool" where
  "unit_interval g \<longleftrightarrow> (case g of Num s m \<Rightarrow> 0 \<le> m \<and> m \<le> 1 \<and> (s \<longrightarrow> m = 0) | _ \<Rightarrow> False)"

lemma fround_fnn: "fnn (fround p emin emax False m)"
  by (simp add: fround_def Let_def rmag_nonneg)

lemma round32_fnn: "fnn (round32 False m)" and round64_fnn: "fnn (round64 False m)"
  by (simp_all add: round32_def round64_def fround_fnn)

lemma fround_zero: "0 < emax \<Longrightarrow> fnn (fround p emin emax s 0)"
proof -
  assume "0 < emax"
  then have "\<not> pow2 emax \<le> 0" by (simp add: not_le)
  then show ?thesis by (simp add: fround_def rmag_def)
qed

lemma round_zero_fnn: "fnn (round32 s 0)" "fnn (round64 s 0)"
  by (simp_all add: round32_def round64_def fround_zero)

definition go_rounding :: "rounding \<Rightarrow> bool" where
  "go_rounding rnd \<longleftrightarrow> rnd = round32 \<or> rnd = round64"

lemma go_rounding_fnn: "go_rounding rnd \<Longrightarrow> fnn (rnd False m)" "go_rounding rnd \<Longrightarrow> fnn (rnd s 0)"
  using round32_fnn round64_fnn round_zero_fnn by (auto simp: go_rounding_def)

lemma go_roundings [simp]: "go_rounding round32" "go_rounding round64"
  by (simp_all add: go_rounding_def)

lemma num_val_nn: "0 \<le> m \<Longrightarrow> s \<longrightarrow> m = 0 \<Longrightarrow> num_val s m = m"
  by (cases s) (simp_all add: num_val_def)

lemma fnn_add: "go_rounding rnd \<Longrightarrow> fnn x \<Longrightarrow> fnn y \<Longrightarrow> fnn (fadd rnd x y)"
  by (induction rnd x y rule: fadd.induct) (auto simp: num_val_nn round_signed_def go_rounding_fnn Let_def)

lemma fnn_mul: "go_rounding rnd \<Longrightarrow> fnn x \<Longrightarrow> fnn y \<Longrightarrow> fnn (fmul rnd x y)"
  by (induction rnd x y rule: fmul.induct) (auto simp: go_rounding_fnn)

lemma fnn_div: "go_rounding rnd \<Longrightarrow> fnn x \<Longrightarrow> fnn y \<Longrightarrow> \<not> feq y fzero \<Longrightarrow> fnn (fdiv rnd x y)"
  by (induction rnd x y rule: fdiv.induct) (auto simp: go_rounding_fnn fzero_def num_val_def)

lemma fnn_conv: "go_rounding rnd \<Longrightarrow> fnn x \<Longrightarrow> fnn (f_conv rnd x)"
  by (cases x) (auto simp: go_rounding_fnn)

lemma fnn_zero [simp]: "fnn fzero"
  by (simp add: fzero_def)

lemma num32_int:
  assumes "0 \<le> i" "i < 2 ^ 24"
  shows "f_of_int round32 i = Num False (of_int i)"
proof -
  have "rmag 24 (- 149) (of_int i) = of_int i"
    using assms by (intro rmag_int) simp_all
  moreover have "\<not> pow2 128 \<le> (of_int i :: rat)"
  proof -
    have "of_int i < (2 ^ 24 :: rat)" using assms(2) by (rule of_int_less_2power)
    also have "(2 ^ 24 :: rat) = pow2 24" by (simp add: pow2_def)
    also have "\<dots> < pow2 128" by simp
    finally show ?thesis by simp
  qed
  ultimately show ?thesis using assms(1) by (simp add: f_of_int_def round_signed_def round32_def fround_def)
qed

lemma num32_1 [simp]: "f_of_int round32 1 = Num False 1"
  using num32_int [of 1] by simp

lemma fnn_num: "go_rounding rnd \<Longrightarrow> 0 \<le> i \<Longrightarrow> fnn (f_of_int rnd i)"
  by (auto simp: f_of_int_def round_signed_def go_rounding_fnn)

lemma unit_fnn: "unit_interval g \<Longrightarrow> fnn g"
  by (cases g) (auto simp: unit_interval_def)

lemma fnn_sub_unit: "unit_interval g \<Longrightarrow> fnn (fsub round32 (f_of_int round32 1) g)"
  by (cases g) (auto simp: unit_interval_def fsub_def num_val_def round_signed_def go_rounding_fnn Let_def)

lemma fnn_abs_round: "go_rounding rnd \<Longrightarrow> fnn (fabs (rnd s m))"
  by (auto simp: go_rounding_def round32_def round64_def fround_def Let_def rmag_nonneg)

lemma fnn_abs_add: "go_rounding rnd \<Longrightarrow> fnn (fabs (fadd rnd x y))"
  by (induction rnd x y rule: fadd.induct) (auto simp: round_signed_def fnn_abs_round Let_def)

lemma fnn_abs_sub: "go_rounding rnd \<Longrightarrow> fnn (fabs (fsub rnd x y))"
  by (simp add: fsub_def fnn_abs_add)

section \<open>Well-formed predictions\<close>

definition math_ok :: "hwab_math \<Rightarrow> bool" where
  "math_ok env \<longleftrightarrow> (\<forall>x. fnn (hm_sqrt env x)) \<and> (\<forall>x. fnn (hm_exp env x))"

definition shaped :: "hwab \<Rightarrow> bool" where
  "shaped h \<longleftrightarrow> 1 \<le> h_buckets h \<and> int (length (h_C h)) = h_buckets h \<and> int (length (h_D h)) = h_buckets h
     \<and> unit_interval (h_gamma h) \<and> list_all fnn (h_D h) \<and> fnn (h_dn h)"

definition hwab_ok :: "hwab \<Rightarrow> bool" where
  "hwab_ok h \<longleftrightarrow> shaped h \<and> h_Created h \<le> h_cstart h + TWIN * h_buckets h"

lemma shapedD:
  assumes "shaped h"
  shows "1 \<le> h_buckets h" "int (length (h_C h)) = h_buckets h" "int (length (h_D h)) = h_buckets h"
    "unit_interval (h_gamma h)" "list_all fnn (h_D h)" "fnn (h_dn h)"
  using assms by (auto simp: shaped_def)

lemma smod_one: "i smod (1 :: int) = 0"
  by (simp add: signed_modulo_int_def)

lemma idx_bind:
  assumes "1 \<le> h_buckets h" "- h_buckets h \<le> i \<or> h_buckets h = 1"
    "\<And>j. 0 \<le> j \<Longrightarrow> j < h_buckets h \<Longrightarrow> yields (f j) Q"
  shows "yields (hwab_idx h i \<bind> f) Q"
proof -
  have "yields (hwab_idx h i) (\<lambda>j. 0 \<le> j \<and> j < h_buckets h)"
  proof (cases "h_buckets h = 1")
    case True
    then show ?thesis by (simp add: hwab_idx_def smod_one)
  next
    case False
    have "(i + h_buckets h) smod h_buckets h = (i + h_buckets h) mod h_buckets h"
      by (rule smod_nonneg) (use assms False in simp_all)
    then show ?thesis using assms(1) by (simp add: hwab_idx_def)
  qed
  then show ?thesis by (rule yields_bind) (use assms(3) in auto)
qed

lemma elem_bind: "0 \<le> i \<Longrightarrow> i < int (length xs) \<Longrightarrow> yields (f (xs ! nat i)) Q \<Longrightarrow> yields (elem_at xs i \<bind> f) Q"
  by (rule yields_bind [OF yields_elem_any]) simp_all

lemma set_bind: "0 \<le> i \<Longrightarrow> i < int (length xs) \<Longrightarrow> yields (f (xs[nat i := v])) Q \<Longrightarrow> yields (set_at xs i v \<bind> f) Q"
  by (rule yields_bind [OF yields_set_any]) simp_all

lemma list_all_nth: "list_all P xs \<Longrightarrow> 0 \<le> i \<Longrightarrow> i < int (length xs) \<Longrightarrow> P (xs ! nat i)"
  by (simp add: list_all_length nat_less_iff)

lemma list_all_update: "list_all P xs \<Longrightarrow> P v \<Longrightarrow> list_all P (xs[i := v])"
  using set_update_subset_insert [of xs i v] by (auto simp: list_all_iff)

lemma nth_fnn: "list_all fnn xs \<Longrightarrow> 0 \<le> i \<Longrightarrow> i < int (length xs) \<Longrightarrow> fnn (xs ! nat i)"
  by (rule list_all_nth)

lemma fnn_or_sqrt: "math_ok env \<Longrightarrow> fnn dx \<Longrightarrow> fnn (or_sqrt env dx ave)"
  by (simp add: or_sqrt_def math_ok_def fnn_conv)

lemma fnn_EPSILOND: "fnn EPSILOND"
  by (simp add: EPSILOND_def f_of_rat_def round_signed_def go_rounding_fnn)

lemma half_unit: "unit_interval (Num False (1 / 2))"
  by (simp add: unit_interval_def)

lemma num32_4: "f_of_int round32 4 = Num False 4" "f_of_int round32 3 = Num False 3"
  using num32_int [of 4] num32_int [of 3] by simp_all

lemma fnn_blend: "unit_interval g \<Longrightarrow> fnn dx \<Longrightarrow> fnn d \<Longrightarrow>
    fnn (add32 (mul32 g dx) (mul32 (sub32 (Num False 1) g) d))"
  using fnn_sub_unit [of g] by (simp add: fnn_add fnn_mul unit_fnn)

lemma bootstrap1_safe:
  assumes "shaped h" "0 \<le> si" "si < h_buckets h" "fnn sdv" "math_ok env"
  shows "yields (bootstrap1 env ave sdv si h) shaped"
proof -
  note h = shapedD [OF assms(1)]
  have dt: "fnn (div32 (add32 (or_sqrt env (add32 sdv (fabs (sub32 ave c))) ave) (mul32 (num32 3) d)) (num32 4))" if "fnn d" for c d
    using that assms(4,5)
    by (auto simp: num32_4 fzero_def num_val_def intro!: fnn_div fnn_add fnn_mul fnn_or_sqrt fnn_abs_sub)
  show ?thesis
    unfolding bootstrap1_def Let_def
    using h assms(2-4) nth_fnn [OF h(5)]
    by (auto simp: shaped_def dt intro!: idx_bind elem_bind set_bind list_all_update split: prod.split if_splits)
qed

lemma bootstrap2_safe:
  assumes "shaped h" "0 \<le> si" "si < h_buckets h" "fnn sdv" "math_ok env"
  shows "yields (bootstrap2 env ave sdv si h) shaped"
proof -
  note h = shapedD [OF assms(1)]
  have dx: "fnn (or_sqrt env (add32 (fabs (sub32 ave y)) sdv) ave)" for y
    using assms(4,5) by (auto intro!: fnn_add fnn_or_sqrt fnn_abs_sub)
  show ?thesis
    unfolding bootstrap2_def Let_def
    using h assms(2-4) nth_fnn [OF h(5)]
    by (auto simp: shaped_def intro!: idx_bind elem_bind set_bind list_all_update nth_fnn fnn_blend half_unit dx split: prod.split if_splits)
qed

lemma hw_safe:
  assumes "shaped h" "0 \<le> si" "si < h_buckets h" "fnn sdv"
  shows "yields (hwab_hw ave sdv si h) shaped"
proof -
  note h = shapedD [OF assms(1)]
  have dx: "fnn (add32 (fabs (sub32 ave y)) sdv)" for y
    using assms(4) by (auto intro!: fnn_add fnn_abs_sub)
  show ?thesis
    unfolding hwab_hw_def Let_def
    using h assms(2-4) nth_fnn [OF h(5)]
    by (auto simp: shaped_def intro!: idx_bind elem_bind set_bind list_all_update nth_fnn fnn_blend dx fnn_EPSILOND split: prod.split if_splits)
qed

section \<open>Between periods\<close>

lemma find_bucket_safe:
  "1 \<le> h_buckets h \<Longrightarrow> int (length D) = h_buckets h \<Longrightarrow> 0 \<le> si \<Longrightarrow> si < h_buckets h \<Longrightarrow> dir = 1 \<or> dir = -1 \<Longrightarrow>
   0 \<le> l \<Longrightarrow> l + int n = h_buckets h \<Longrightarrow> yields (find_bucket h D si dir l n) (\<lambda>r. 0 \<le> r \<and> r \<le> h_buckets h)"
proof (induction n arbitrary: l)
  case (Suc n)
  have "- h_buckets h \<le> si + dir * l \<or> h_buckets h = 1" using Suc.prems by auto
  moreover have "yields (find_bucket h D si dir (l + 1) n) (\<lambda>r. 0 \<le> r \<and> r \<le> h_buckets h)"
    by (rule Suc.IH) (use Suc.prems in simp_all)
  ultimately show ?case using Suc.prems(1,2,6,7) by (auto intro!: idx_bind elem_bind)
qed simp

lemma interp_one_safe:
  assumes "1 \<le> h_buckets h" "int (length C) = h_buckets h" "int (length D) = h_buckets h" "list_all fnn D"
    "0 \<le> si" "si < h_buckets h" "0 \<le> li" "li < h_buckets h"
  shows "yields (interp_one h li si C D) (\<lambda>(C', D'). length C' = length C \<and> length D' = length D \<and> list_all fnn D')"
  unfolding interp_one_def
  by (intro yields_bind [OF find_bucket_safe [where dir = "-1"]] yields_bind [OF find_bucket_safe [where dir = 1]])
    (use assms in \<open>auto intro!: idx_bind elem_bind set_bind list_all_update fnn_add nth_fnn\<close>)

lemma interp_loop_safe:
  "1 \<le> h_buckets h \<Longrightarrow> int (length C) = h_buckets h \<Longrightarrow> int (length D) = h_buckets h \<Longrightarrow> list_all fnn D \<Longrightarrow>
   list_all (\<lambda>si. 0 \<le> si \<and> si < h_buckets h) sis \<Longrightarrow> 0 \<le> li \<Longrightarrow> li < h_buckets h \<Longrightarrow>
   yields (interp_loop h sis li C D) (\<lambda>(C', D'). length C' = length C \<and> length D' = length D \<and> list_all fnn D')"
proof (induction sis arbitrary: li C D)
  case (Cons si sis)
  have si: "0 \<le> si" "si < h_buckets h" using Cons.prems(5) by simp_all
  have "yields (interp_loop h sis si C D) (\<lambda>(C', D'). length C' = length C \<and> length D' = length D \<and> list_all fnn D')"
    by (rule Cons.IH) (use Cons.prems si in simp_all)
  moreover have "yields (interp_one h li si C D \<bind> (\<lambda>(C, D). interp_loop h sis li C D))
      (\<lambda>(C', D'). length C' = length C \<and> length D' = length D \<and> list_all fnn D')"
  proof (rule yields_bind [OF interp_one_safe])
    fix x :: "gofloat list \<times> gofloat list"
    assume x: "case x of (C', D') \<Rightarrow> length C' = length C \<and> length D' = length D \<and> list_all fnn D'"
    obtain C1 D1 where x1: "x = (C1, D1)" by force
    have "yields (interp_loop h sis li C1 D1) (\<lambda>(C', D'). length C' = length C1 \<and> length D' = length D1 \<and> list_all fnn D')"
      by (rule Cons.IH) (use Cons.prems x x1 in simp_all)
    then show "yields (case x of (C, D) \<Rightarrow> interp_loop h sis li C D)
        (\<lambda>(C', D'). length C' = length C \<and> length D' = length D \<and> list_all fnn D')"
      using x x1 by simp
  qed (use Cons.prems si in simp_all)
  ultimately show ?case using Cons.prems(3) si by (auto intro!: elem_bind)
qed simp

lemma upto_range: "list_all (\<lambda>si. 0 \<le> si \<and> si < b) [0..b - 1]"
  by (auto simp: list_all_iff)

lemma interpolate_safe: "shaped h \<Longrightarrow> yields (interpolate h) shaped"
proof -
  assume s: "shaped h"
  note h = shapedD [OF s]
  have "yields (interp_loop h [0..h_buckets h - 1] 0 (h_C h) (h_D h))
      (\<lambda>(C', D'). length C' = length (h_C h) \<and> length D' = length (h_D h) \<and> list_all fnn D')"
    by (rule interp_loop_safe) (use h upto_range in simp_all)
  then show ?thesis
    unfolding interpolate_def by (auto elim!: yields_mono simp: shaped_def s [unfolded shaped_def])
qed

definition sums_ok :: "gofloat \<times> gofloat \<times> gofloat \<Rightarrow> bool" where
  "sums_ok tot \<longleftrightarrow> (case tot of (ctot, dtot, wtot) \<Rightarrow> fnn dtot \<and> fnn wtot)"

lemma smooth_sum_safe:
  "shaped h \<Longrightarrow> math_ok env \<Longrightarrow> list_all (\<lambda>i. - h_buckets h \<le> si + i \<or> h_buckets h = 1) is \<Longrightarrow> sums_ok tot \<Longrightarrow>
   yields (smooth_sum env h sdvk si is tot) sums_ok"
proof (induction "is" arbitrary: tot)
  case (Cons i "is")
  note h = shapedD [OF Cons.prems(1)]
  obtain ctot dtot wtot where tot: "tot = (ctot, dtot, wtot)" by (cases tot)
  have e: "fnn (hm_exp env x)" for x using Cons.prems(2) by (simp add: math_ok_def)
  have "yields (smooth_sum env h sdvk si is tot) sums_ok" by (rule Cons.IH) (use Cons.prems in simp_all)
  moreover have "yields (smooth_sum env h sdvk si is
      (c, fadd round64 dtot (fmul round64 (hm_exp env x) d), fadd round64 wtot (hm_exp env x))) sums_ok" if "fnn d" for c d x
    by (rule Cons.IH) (use Cons.prems that e tot in \<open>auto simp: sums_ok_def intro!: fnn_add fnn_mul\<close>)
  ultimately show ?case
    using h Cons.prems(3) nth_fnn [OF h(5)] by (auto simp: tot Let_def intro!: idx_bind elem_bind)
qed simp

lemma smooth_loop_safe:
  "shaped h \<Longrightarrow> math_ok env \<Longrightarrow> list_all (\<lambda>si. 0 \<le> si \<and> si < h_buckets h) sis \<Longrightarrow> wsize \<le> h_buckets h \<or> h_buckets h = 1 \<Longrightarrow>
   int (length c) = h_buckets h \<Longrightarrow> int (length d) = h_buckets h \<Longrightarrow> list_all fnn d \<Longrightarrow>
   yields (smooth_loop env h wsize sdvk sis c d)
     (\<lambda>(c', d'). int (length c') = h_buckets h \<and> int (length d') = h_buckets h \<and> list_all fnn d')"
proof (induction sis arbitrary: c d)
  case (Cons si sis)
  have "list_all (\<lambda>i. - h_buckets h \<le> si + i \<or> h_buckets h = 1) [- wsize..wsize]"
    using Cons.prems(3,4) by (auto simp: list_all_iff)
  then have sum: "yields (smooth_sum env h sdvk si [- wsize..wsize] (fzero, fzero, fzero)) sums_ok"
    by (rule smooth_sum_safe [OF Cons.prems(1,2)]) (simp add: sums_ok_def)
  have rest: "yields (smooth_loop env h wsize sdvk sis c' d')
      (\<lambda>(c', d'). int (length c') = h_buckets h \<and> int (length d') = h_buckets h \<and> list_all fnn d')"
    if "int (length c') = h_buckets h" "int (length d') = h_buckets h" "list_all fnn d'" for c' d'
    by (rule Cons.IH) (use Cons.prems that in simp_all)
  show ?case
    unfolding smooth_loop.simps
    by (rule yields_bind [OF sum])
      (use Cons.prems(3,5-7) in \<open>auto simp: sums_ok_def intro!: rest set_bind list_all_update fnn_conv fnn_div\<close>)
qed simp

lemma smooth_safe: "shaped h \<Longrightarrow> math_ok env \<Longrightarrow> yields (hwab_smooth env h) shaped"
proof -
  assume s: "shaped h" and m: "math_ok env"
  note h = shapedD [OF s]
  let ?w = "if h_buckets h sdiv 20 < 2 then 2 else h_buckets h sdiv 20"
  have "h_buckets h sdiv 20 = h_buckets h div 20" using h(1) by (simp add: sdiv_nonneg)
  then have w: "?w \<le> h_buckets h \<or> h_buckets h = 1" using h(1) by (auto simp: not_less)
  have "yields (smooth_loop env h ?w sdvk [0..h_buckets h - 1] (replicate (nat (h_buckets h)) fzero) (replicate (nat (h_buckets h)) fzero))
      (\<lambda>(c', d'). int (length c') = h_buckets h \<and> int (length d') = h_buckets h \<and> list_all fnn d')" for sdvk
    by (rule smooth_loop_safe [OF s m upto_range w]) (use h(1) in \<open>simp_all add: list_all_iff\<close>)
  then show ?thesis
    unfolding hwab_smooth_def Let_def yields_map
    by (rule yields_mono) (use s in \<open>auto simp: shaped_def\<close>)
qed

lemma normalize_safe: "shaped h \<Longrightarrow> yields (hwab_normalize h) shaped"
  by (auto simp: hwab_normalize_def shaped_def Let_def)

lemma lap_safe:
  assumes "shaped h" "math_ok env" "0 \<le> si" "si < h_buckets h"
  shows "yields (hwab_lap env si h) shaped"
proof -
  let ?h = "if si = 0 \<and> h_Count h > 0 then h\<lparr>h_Lap := h_Lap h + 1\<rparr> else h"
  have s: "shaped ?h" using assms(1) by (simp add: shaped_def)
  note h = shapedD [OF s]
  have s0: "shaped (?h\<lparr>h_Lap := 0, h_Count := 0\<rparr>)" using s by (simp add: shaped_def)
  have mid: "yields (if h_Lap ?h = 1 \<and> si = 0 then do {
              enough \<leftarrow> checkEnough ?h;
              if enough then interpolate ?h else Some (?h\<lparr>h_Lap := 0, h_Count := 0\<rparr>)
            }
            else Some ?h) shaped"
    using h s s0 interpolate_safe [OF s] unfolding checkEnough_def
    by (auto simp del: if_split_asm intro!: elem_bind split del: if_split split: if_split)
  show ?thesis
    unfolding hwab_lap_def Let_def
    by (rule yields_bind [OF mid]) (auto intro!: yields_bind [OF smooth_safe [OF _ assms(2)]] normalize_safe)
qed

section \<open>Adding values\<close>

lemma sdiv_ge:
  assumes "0 < (d :: int)" "- (b * d) \<le> a"
  shows "- b \<le> a sdiv d"
proof -
  have "- b - 1 < a sdiv d"
  proof (rule ccontr)
    assume "\<not> - b - 1 < a sdiv d"
    then have "a sdiv d * d \<le> (- b - 1) * d" using assms(1) by (intro mult_right_mono) simp_all
    moreover have "a - d < a sdiv d * d" using sdiv_mult_bounds [OF assms(1)] by simp
    ultimately show False using assms(2) by (simp add: algebra_simps)
  qed
  then show ?thesis by simp
qed

lemma idxOfT_bind:
  assumes "1 \<le> h_buckets h" "h_Created h \<le> now + TWIN * h_buckets h"
    "\<And>j. 0 \<le> j \<Longrightarrow> j < h_buckets h \<Longrightarrow> yields (f j) Q"
  shows "yields (idxOfT h now \<bind> f) Q"
  unfolding idxOfT_def
  by (rule idx_bind) (use assms sdiv_ge [of TWIN "h_buckets h" "now - h_Created h"] in auto)

lemma add_safe:
  assumes "hwab_ok h" "math_ok env" "fnn sdv"
  shows "yields (hwab_add env ave sdv (h_cstart h) h) (\<lambda>h'. shaped h' \<and> same_frame h h')"
proof -
  have s: "shaped h" and c: "h_Created h \<le> h_cstart h + TWIN * h_buckets h" using assms(1) by (simp_all add: hwab_ok_def)
  have count: "shaped (x\<lparr>h_Count := n\<rparr>) = shaped x" for x n by (simp add: shaped_def)
  have "yields (hwab_add env ave sdv (h_cstart h) h) shaped"
    unfolding hwab_add_def
  proof (rule idxOfT_bind [OF shapedD(1) [OF s] c])
    fix si assume si: "0 \<le> si" "si < h_buckets h"
    have lap: "yields (hwab_lap env si h) (\<lambda>h'. shaped h' \<and> h_buckets h' = h_buckets h)"
      using lap_safe [OF s assms(2) si] by (auto simp: yields_def dest: frame_lap [unfolded same_frame_def])
    show "yields (hwab_lap env si h \<bind> (\<lambda>h. (if h_Lap h = 0 then bootstrap1 env ave sdv si h
             else if h_Lap h = 1 then bootstrap2 env ave sdv si h
             else hwab_hw ave sdv si h) \<bind> (\<lambda>h. Some (h\<lparr>h_Count := h_Count h + 1\<rparr>)))) shaped"
      by (rule yields_bind [OF lap], rule yields_bind [where P = shaped])
        (use si assms(2,3) bootstrap1_safe bootstrap2_safe hw_safe count in auto)
  qed
  then show ?thesis by (auto simp: yields_def dest: frame_add)
qed

lemma addat_loop_safe:
  "hwab_ok h \<Longrightarrow> math_ok env \<Longrightarrow> fnn sdv \<Longrightarrow>
   yields (addat_loop env ave sdv now h) (\<lambda>h'. hwab_ok h' \<and> now < h_cstart h' + TWIN \<and> h_cstart h \<le> h_cstart h' \<and> h_buckets h' = h_buckets h)"
proof (induction env ave sdv now h rule: addat_loop.induct)
  case (1 env ave sdv now h)
  show ?case
  proof (cases "h_cstart h + TWIN \<le> now")
    case False
    then show ?thesis using 1 by (subst addat_loop.simps) simp
  next
    case True
    obtain h1 where h1: "hwab_add env ave sdv (h_cstart h) h = Some h1" "shaped h1" "same_frame h h1"
      using add_safe [OF 1(2-4)] by (auto simp: yields_def)
    let ?h = "h1\<lparr>h_cstart := h_cstart h1 + TWIN, h_ccount := 0, h_ctotal := fzero, h_ctota2 := fzero\<rparr>"
    have "hwab_ok ?h" using h1(2,3) 1(2) by (auto simp: hwab_ok_def same_frame_def shaped_def)
    from 1(1) [OF True h1(1) this 1(3,4)] show ?thesis
      using True h1(1,3) by (subst addat_loop.simps) (auto elim!: yields_mono simp: same_frame_def)
  qed
qed

lemma AddAt_safe:
  assumes "hwab_ok h" "math_ok env"
  shows "yields (AddAt env val now h) (\<lambda>h'. hwab_ok h' \<and> now < h_cstart h' + TWIN \<and> h_cstart h \<le> h_cstart h' \<and> h_buckets h' = h_buckets h)"
proof -
  let ?h = "h\<lparr>h_ccount := h_ccount h + 1, h_ctotal := fadd round64 (h_ctotal h) val,
              h_ctota2 := fadd round64 (h_ctota2 h) (fmul round64 val val)\<rparr>"
  have ok: "hwab_ok ?h" using assms(1) by (simp add: hwab_ok_def shaped_def)
  have sdv: "fnn (f_conv round32 (hm_sqrt env x))" for x using assms(2) by (simp add: math_ok_def fnn_conv)
  show ?thesis
  proof (cases "h_cstart h + TWIN > now")
    case True
    then show ?thesis using ok by (simp add: AddAt_def Let_def)
  next
    case False
    then show ?thesis
      using addat_loop_safe [OF ok assms(2) sdv] by (simp add: AddAt_def Let_def)
  qed
qed

lemma Reset_safe:
  assumes "1 \<le> h_buckets h" "h_buckets h \<le> int (length (h_C h))" "length (h_D h) = length (h_C h)" "list_all fnn (h_D h)"
  obtains C D where "hwab_Reset now h = Some (h\<lparr>h_Created := (now sdiv TWIN) * TWIN, h_Lap := 0, h_Count := 0, h_C := C, h_D := D\<rparr>)"
    "length C = length (h_C h)" "length D = length (h_D h)" "list_all fnn D"
proof -
  let ?n = "nat (h_buckets h)"
  have "list_all fnn (drop ?n (h_D h))" using assms(4) set_drop_subset [of ?n "h_D h"] by (auto simp: list_all_iff)
  then have "list_all fnn (replicate ?n fzero @ drop ?n (h_D h))" by (auto simp: list_all_iff)
  from that [OF _ _ _ this, of "replicate ?n fzero @ drop ?n (h_C h)"] show ?thesis
    using assms(1-3) by (simp add: hwab_Reset_def zero_first_def)
qed

lemma Reset_ok:
  assumes "hwab_ok h" "(now sdiv TWIN) * TWIN \<le> h_cstart h + TWIN * h_buckets h"
  shows "yields (hwab_Reset now h) (\<lambda>h'. hwab_ok h' \<and> h_cstart h' = h_cstart h \<and> h_buckets h' = h_buckets h)"
  by (rule Reset_safe [of h now]) (use assms in \<open>auto simp: hwab_ok_def shaped_def\<close>)

text \<open>The state that \<open>Init\<close> finds: configured in the current window, the arrays and the counters as
  they were saved, possibly with another number of buckets.\<close>

definition restored :: "int \<Rightarrow> hwab \<Rightarrow> bool" where
  "restored now h \<longleftrightarrow> 0 \<le> now \<and> now < h_cstart h + TWIN \<and> h_Created h \<le> now
     \<and> 1 \<le> h_buckets h \<and> h_buckets h \<le> int (length (h_C h)) \<and> length (h_D h) = length (h_C h)
     \<and> unit_interval (h_gamma h) \<and> list_all fnn (h_D h)"

lemma reset_restored:
  assumes r: "restored now h"
  shows "yields (hwab_Reset now h) (\<lambda>h'. restored now h' \<and> h_buckets h' = h_buckets h \<and> h_Lap h' = 0)"
proof -
  have t: "(now sdiv TWIN) * TWIN \<le> now" using r by (simp add: restored_def sdiv_nonneg)
  have len: "1 \<le> h_buckets h" "h_buckets h \<le> int (length (h_C h))" "length (h_D h) = length (h_C h)" "list_all fnn (h_D h)"
    using r by (simp_all add: restored_def)
  obtain C D where C: "hwab_Reset now h = Some (h\<lparr>h_Created := (now sdiv TWIN) * TWIN, h_Lap := 0, h_Count := 0, h_C := C, h_D := D\<rparr>)"
    "length C = length (h_C h)" "length D = length (h_D h)" "list_all fnn D"
    by (rule Reset_safe [OF len, of now])
  show ?thesis unfolding C(1) yields_Some using r t C(2-4) by (simp add: restored_def)
qed

lemma restored_idx: "restored now h \<Longrightarrow> (\<And>j. 0 \<le> j \<Longrightarrow> j < h_buckets h \<Longrightarrow> yields (f j) Q) \<Longrightarrow> yields (idxOfT h now \<bind> f) Q"
  by (rule idxOfT_bind) (auto simp: restored_def)

lemma Init_safe:
  assumes "restored now h"
  shows "yields (hwab_Init now h) (\<lambda>h'. hwab_ok h' \<and> now < h_cstart h' + TWIN \<and> h_buckets h' = h_buckets h)"
proof -
  let ?P = "\<lambda>h'. restored now h' \<and> h_buckets h' = h_buckets h"
  have s1: "yields (if h_Pbuckets h \<noteq> 0 \<and> h_Pbuckets h \<noteq> h_buckets h then hwab_Reset now h else Some h) ?P"
    using assms reset_restored [OF assms] by (auto elim: yields_mono)
  have s2: "yields (if h_Lap h1 = 0 then do { g \<leftarrow> gap now h1; if g > 5 then hwab_Reset now h1 else Some h1 } else Some h1) ?P"
    if "?P h1" for h1
  proof -
    have r: "restored now h1" using that by simp
    have "yields (idxOfT h1 now \<bind> (\<lambda>i. if i - h_Count h1 > 5 then hwab_Reset now h1 else Some h1)) ?P"
      by (rule restored_idx [OF r]) (use that reset_restored [OF r] in \<open>auto elim: yields_mono\<close>)
    moreover have "gap now h1 \<bind> (\<lambda>g. if g > 5 then hwab_Reset now h1 else Some h1)
        = idxOfT h1 now \<bind> (\<lambda>i. if i - h_Count h1 > 5 then hwab_Reset now h1 else Some h1)"
      by (cases "idxOfT h1 now") (simp_all add: gap_def)
    ultimately show ?thesis using that by simp
  qed
  have s3: "yields (if h_buckets h2 < int (length (h_C h2)) then do {
              c \<leftarrow> go_slice (h_C h2) 0 (h_buckets h2);
              d \<leftarrow> go_slice (h_D h2) 0 (h_buckets h2);
              Some (h2\<lparr>h_C := c, h_D := d\<rparr>)
            }
            else Some h2)
      (\<lambda>h'. ?P h' \<and> int (length (h_C h')) = h_buckets h')" if "?P h2" for h2
    using that set_take_subset [of "nat (h_buckets h2)" "h_D h2"] by (auto simp: restored_def go_slice_def list_all_iff)
  have s4: "yields (predict now h3) (\<lambda>h'. hwab_ok h' \<and> now < h_cstart h' + TWIN \<and> h_buckets h' = h_buckets h)"
    if "?P h3" "int (length (h_C h3)) = h_buckets h3" for h3
    unfolding predict_def
    by (rule restored_idx) (use that in \<open>auto simp: hwab_ok_def shaped_def restored_def intro!: elem_bind nth_fnn\<close>)
  have P: "?P (h1\<lparr>h_Pbuckets := n\<rparr>)" if "?P h1" for h1 n using that by (simp add: restored_def)
  show ?thesis
    unfolding hwab_Init_def Let_def
    by (rule yields_bind [OF s1], rule yields_bind [OF s2], assumption, rule yields_bind [OF s3 [OF P]], assumption, rule s4) simp_all
qed

lemma configured_restored:
  assumes "0 \<le> now" "TWIN \<le> hc_Period (conf hwabdefaults)" "unit_interval (hc_Gamma (conf hwabdefaults))"
  shows "restored now (HwabConfig now conf)"
proof -
  have "now < (now sdiv TWIN) * TWIN + TWIN" "(now sdiv TWIN) * TWIN \<le> now"
    using assms(1) by (simp_all add: sdiv_nonneg)
  moreover have "1 \<le> hc_Period c sdiv TWIN" if "TWIN \<le> hc_Period c" for c :: hwab_conf
    using that by (simp add: sdiv_nonneg)
  ultimately show ?thesis using assms by (simp add: restored_def HwabConfig_def hwab_make_def Let_def list_all_iff)
qed

section \<open>Every run is safe\<close>

datatype hwab_event = Value gofloat int | Resets int

fun hwab_run :: "hwab_math \<Rightarrow> hwab_event list \<Rightarrow> hwab \<Rightarrow> hwab option" where
  "hwab_run env [] h = Some h"
| "hwab_run env (Value v t # es) h = AddAt env v t h \<bind> hwab_run env es"
| "hwab_run env (Resets t # es) h = hwab_Reset t h \<bind> hwab_run env es"

text \<open>No reset comes later than a period after the last event; \<open>u\<close> is the latest time so far.\<close>

fun timely :: "int \<Rightarrow> int \<Rightarrow> hwab_event list \<Rightarrow> bool" where
  "timely b u [] \<longleftrightarrow> True"
| "timely b u (Value v t # es) \<longleftrightarrow> timely b (max u t) es"
| "timely b u (Resets t # es) \<longleftrightarrow> 0 \<le> t \<and> t \<le> u + (b - 1) * TWIN \<and> timely b u es"

lemma run_safe:
  "hwab_ok h \<Longrightarrow> math_ok env \<Longrightarrow> u < h_cstart h + TWIN \<Longrightarrow> timely (h_buckets h) u es \<Longrightarrow> yields (hwab_run env es h) hwab_ok"
proof (induction es arbitrary: h u)
  case (Cons e es)
  show ?case
  proof (cases e)
    case (Value v t)
    show ?thesis
      unfolding Value hwab_run.simps
      by (rule yields_bind [OF AddAt_safe [OF Cons.prems(1,2)]], rule Cons.IH [where u = "max u t"])
        (use Cons.prems(2-4) Value in auto)
  next
    case (Resets t)
    have "(t sdiv TWIN) * TWIN \<le> t" using Cons.prems(4) Resets by (simp add: sdiv_nonneg)
    then have "(t sdiv TWIN) * TWIN \<le> h_cstart h + TWIN * h_buckets h"
      using Cons.prems(3,4) Resets by (simp add: algebra_simps)
    note r = Reset_ok [OF Cons.prems(1) this]
    show ?thesis
      unfolding Resets hwab_run.simps
      by (rule yields_bind [OF r], rule Cons.IH [where u = u]) (use Cons.prems(2-4) Resets in auto)
  qed
qed simp

text \<open>C14: the prediction of a service never panics, and its data stay well-formed. After a
  configuration with a period of at least five minutes and a gamma between 0 and 1, with any saved
  arrays and counters restored over it, initialising and then any sequence of values (of any size,
  NaN and infinities included, at any times) and of resets that come no later than one period after
  the last value runs to its end: every index is in range, both arrays keep one element per bucket,
  and no deviation, nor the one predicted, is ever negative.\<close>

theorem hwab_safe:
  assumes "math_ok env" "restored now h" "timely (h_buckets h) now es"
  shows "\<exists>h'. hwab_Init now h \<bind> hwab_run env es = Some h' \<and> hwab_ok h'"
proof -
  have "yields (hwab_Init now h \<bind> hwab_run env es) hwab_ok"
    by (rule yields_bind [OF Init_safe [OF assms(2)]], rule run_safe [OF _ assms(1), where u = now]) (use assms(3) in simp_all)
  then show ?thesis by (simp add: yields_def)
qed

definition witness_math :: hwab_math where
  "witness_math = \<lparr>hm_sqrt = (\<lambda>x. if fnn x then x else NaN), hm_exp = (\<lambda>x. Num False 1)\<rparr>"

lemma witness_math_ok: "math_ok witness_math"
  by (simp add: math_ok_def witness_math_def)

definition hourly :: "hwab_conf \<Rightarrow> hwab_conf" where
  "hourly c = c\<lparr>hc_Period := 3600\<rparr>"

definition witness_restored :: hwab where
  "witness_restored = (HwabConfig 90000 hourly)\<lparr>h_Pbuckets := 20, h_Created := 1500, h_Count := 7,
     h_C := replicate 20 (Num False 2), h_D := replicate 20 (Num False 1)\<rparr>"

theorem hwab_safe_witness:
  "\<exists>h'. hwab_Init 90000 witness_restored
      \<bind> hwab_run witness_math [Value (Num False 3) 90010, Value NaN 90700, Resets 90800, Value (Inf True) 200000] = Some h' \<and> hwab_ok h'"
proof (rule hwab_safe [OF witness_math_ok])
  have b: "h_buckets (HwabConfig 90000 hourly) = 12" by code_simp
  have r: "restored 90000 (HwabConfig 90000 hourly)"
    by (rule configured_restored) (simp_all add: hourly_def hwabdefaults_def unit_interval_def)
  then show "restored 90000 witness_restored"
    by (simp add: witness_restored_def restored_def b list_all_iff)
  show "timely (h_buckets witness_restored) 90000
      [Value (Num False 3) 90010, Value NaN 90700, Resets 90800, Value (Inf True) 200000]"
    by (simp add: witness_restored_def b)
qed

section \<open>Filling the gaps\<close>

text \<open>A value of type \<open>float32\<close>.\<close>

definition is_f32 :: "gofloat \<Rightarrow> bool" where
  "is_f32 x \<longleftrightarrow> f_conv round32 x = x"

lemma sum_not_zero:
  assumes "is_f32 x" "fnn x" "fnn y" "\<not> feq x fzero"
  shows "\<not> feq (add32 x y) fzero"
proof (cases "\<exists>s a t b. x = Num s a \<and> y = Num t b")
  case True
  then obtain s a t b where xy: "x = Num s a" "y = Num t b" by blast
  have a: "0 < a" "\<not> s" using assms(2,4) xy(1) by (auto simp: fzero_def num_val_def split: if_splits)
  have b: "0 \<le> b" "num_val t b = b" using assms(3) xy(2) by (auto simp: num_val_nn)
  have ra: "rmag 24 (- 149) a = a" "a < pow2 128"
    using assms(1) xy(1) by (auto simp: is_f32_def round32_def fround_def Let_def split: if_splits)
  have "a \<le> rmag 24 (- 149) (a + b)" using rmag_mono [of a "a + b" 24 "- 149"] ra(1) b(1) by simp
  then show ?thesis
    using a b xy by (auto simp: num_val_def round_signed_def round32_def fround_def Let_def fzero_def)
next
  case False
  then show ?thesis using assms by (cases x; cases y) (auto simp: fzero_def)
qed

lemma idx_inside: "1 \<le> h_buckets h \<Longrightarrow> 0 \<le> i \<Longrightarrow> i < h_buckets h \<Longrightarrow> hwab_idx h i = Some i"
  by (simp add: hwab_idx_def smod_nonneg)

lemma new_value: "fnn y \<Longrightarrow> \<exists>z. fnn z \<and> D[i := add32 x y] = D[i := add32 x z]"
  by blast

lemma interp_one_value:
  assumes "1 \<le> h_buckets h" "int (length C) = h_buckets h" "int (length D) = h_buckets h" "list_all fnn D"
    "0 \<le> si" "si < h_buckets h" "0 \<le> li" "li < h_buckets h"
  shows "yields (interp_one h li si C D) (\<lambda>(C', D'). length C' = length C \<and> (\<exists>y. fnn y \<and> D' = D[nat si := add32 (D ! nat li) y]))"
  unfolding interp_one_def idx_inside [OF assms(1,7,8)]
  by (intro yields_bind [OF find_bucket_safe [where dir = "-1"]] yields_bind [OF find_bucket_safe [where dir = 1]])
    (use assms in \<open>auto intro!: idx_bind elem_bind set_bind new_value nth_fnn\<close>)

lemma interp_fills:
  "1 \<le> h_buckets h \<Longrightarrow> int (length C) = h_buckets h \<Longrightarrow> int (length D) = h_buckets h \<Longrightarrow> list_all fnn D \<Longrightarrow>
   0 \<le> li \<Longrightarrow> li < h_buckets h \<Longrightarrow> \<not> feq (D ! nat li) fzero \<Longrightarrow> is_f32 (D ! nat li) \<Longrightarrow> 0 \<le> si \<Longrightarrow> si \<le> h_buckets h \<Longrightarrow> li < si \<or> si = 0 \<Longrightarrow>
   (\<forall>k < nat si. \<not> feq (D ! k) fzero) \<Longrightarrow> (\<forall>k \<ge> nat si. k < length D \<longrightarrow> is_f32 (D ! k)) \<Longrightarrow> (si = 0 \<longrightarrow> li = 0) \<Longrightarrow>
   yields (interp_loop h [si..h_buckets h - 1] li C D) (\<lambda>(C', D'). list_all (\<lambda>d. \<not> feq d fzero) D')"
proof (induction "nat (h_buckets h - si)" arbitrary: si li C D)
  case 0
  then have "si = h_buckets h" by simp
  then show ?case using 0 by (simp add: list_all_length)
next
  case (Suc n)
  note prems = Suc.prems
  have si: "si < h_buckets h" using Suc.hyps(2) by simp
  then have up: "[si..h_buckets h - 1] = si # [si + 1..h_buckets h - 1]" by (simp add: upto_rec1)
  have n: "n = nat (h_buckets h - (si + 1))" using Suc.hyps(2) by simp
  have split: "k < nat (si + 1) \<longleftrightarrow> k < nat si \<or> k = nat si" for k using prems(9) by auto
  show ?case
  proof (cases "feq (D ! nat si) fzero")
    case False
    have "yields (interp_loop h [si + 1..h_buckets h - 1] si C D) (\<lambda>(C', D'). list_all (\<lambda>d. \<not> feq d fzero) D')"
      by (rule Suc.hyps(1) [OF n]) (use prems si False split in auto)
    then show ?thesis using False prems(3,9) si unfolding up by (auto intro!: elem_bind)
  next
    case True
    have pos: "si \<noteq> 0" "li < si" using True prems(7,11,14) by auto
    note one = interp_one_value [OF prems(1-4,9) si prems(5,6)]
    have rest: "yields (interp_loop h [si + 1..h_buckets h - 1] li C' D') (\<lambda>(C', D'). list_all (\<lambda>d. \<not> feq d fzero) D')"
      if C': "length C' = length C" and y: "fnn y" and D': "D' = D[nat si := add32 (D ! nat li) y]" for C' D' y
    proof -
      have li: "fnn (D ! nat li)" using prems(3-6) by (simp add: nth_fnn)
      have new: "fnn (add32 (D ! nat li) y)" "\<not> feq (add32 (D ! nat li) y) fzero"
        using fnn_add [OF _ li y] sum_not_zero [OF prems(8) li y prems(7)] by simp_all
      have same: "D' ! k = D ! k" if "k \<noteq> nat si" for k using that D' by simp
      have at: "D' ! nat si = add32 (D ! nat li) y" using D' si prems(3,9) by simp
      have "nat li \<noteq> nat si" using pos prems(5) by simp
      then have l: "D' ! nat li = D ! nat li" by (rule same)
      show ?thesis
      proof (rule Suc.hyps(1) [OF n])
        show "list_all fnn D'" using list_all_update [OF prems(4) new(1)] D' by simp
        show "\<forall>k < nat (si + 1). \<not> feq (D' ! k) fzero"
        proof (intro allI impI)
          fix k assume "k < nat (si + 1)"
          then show "\<not> feq (D' ! k) fzero" using split prems(12) new(2) at same by (cases "k = nat si") auto
        qed
        show "\<forall>k \<ge> nat (si + 1). k < length D' \<longrightarrow> is_f32 (D' ! k)"
          using prems(9,13) same D' by auto
      qed (use prems C' D' l pos si in auto)
    qed
    have "yields (interp_one h li si C D \<bind> (\<lambda>(C, D). interp_loop h [si + 1..h_buckets h - 1] li C D)) (\<lambda>(C', D'). list_all (\<lambda>d. \<not> feq d fzero) D')"
      by (rule yields_bind [OF one]) (use rest in auto)
    then show ?thesis using True prems(3,9) si unfolding up by (auto intro!: elem_bind)
  qed
qed

text \<open>After the first period no bucket is empty. When the first and the last bucket have data (what
  \<open>checkEnough\<close> asks for), interpolation gives every bucket that was skipped a deviation that is not
  zero, wherever the gaps are and however many there are.\<close>

theorem interpolate_fills:
  assumes "shaped h" "checkEnough h = Some True" "list_all is_f32 (h_D h)"
  shows "\<exists>h'. interpolate h = Some h' \<and> shaped h' \<and> list_all (\<lambda>d. \<not> feq d fzero) (h_D h')"
proof -
  note h = shapedD [OF assms(1)]
  have d0: "\<not> feq (h_D h ! 0) fzero" using assms(2) h(1,3) by (auto simp: checkEnough_def elem_at_def split: bind_splits if_splits)
  have "yields (interp_loop h [0..h_buckets h - 1] 0 (h_C h) (h_D h)) (\<lambda>(C', D'). list_all (\<lambda>d. \<not> feq d fzero) D')"
    by (rule interp_fills) (use h d0 assms(3) list_all_nth [of is_f32 "h_D h" 0] in \<open>auto simp: list_all_length\<close>)
  then show ?thesis using interpolate_safe [OF assms(1)] by (auto simp: interpolate_def yields_def)
qed

theorem interpolate_fills_witness:
  "\<exists>h'. interpolate (witness_restored\<lparr>h_C := replicate 12 fzero, h_D := (replicate 12 fzero)[0 := Num False 1, 5 := NaN, 11 := Num False 2]\<rparr>) = Some h'
     \<and> shaped h' \<and> list_all (\<lambda>d. \<not> feq d fzero) (h_D h')"
  by (rule interpolate_fills) code_simp+

text \<open>The deviation has a sign: only values below the prediction can be outside of a limit.\<close>

lemma rmag_not_neg [simp]: "\<not> rmag p emin m < 0"
  using rmag_nonneg [of p emin m] by simp

lemma sub_pos: "flt fzero (sub32 x y) \<Longrightarrow> flt y x"
  by (cases x; cases y)
    (auto simp: fsub_def fzero_def num_val_def round_signed_def round32_def fround_def Let_def split: if_splits)

lemma round_not_pos: "\<not> flt fzero (round32 True m)" "\<not> flt fzero (round32 s 0)"
proof -
  show "\<not> flt fzero (round32 True m)" by (simp add: round32_def fround_def Let_def fzero_def num_val_def)
  have "\<not> pow2 128 \<le> 0" by (simp add: not_le)
  then show "\<not> flt fzero (round32 s 0)" by (simp add: round32_def fround_def rmag_def fzero_def num_val_def)
qed

lemma div_pos: "fnn d \<Longrightarrow> \<not> feq d fzero \<Longrightarrow> fnn (fabs x) \<Longrightarrow> flt fzero (div32 x d) \<Longrightarrow> flt fzero x"
proof (rule ccontr)
  assume d: "fnn d" "\<not> feq d fzero" and x: "fnn (fabs x)" "\<not> flt fzero x" and pos: "flt fzero (div32 x d)"
  show False
  proof (cases x)
    case NaN
    then show False using pos by (simp add: fzero_def)
  next
    case (Inf s)
    then show False using pos d x by (cases d) (auto simp: fzero_def num_val_def)
  next
    case (Num s m)
    then have "s \<or> m = 0" "0 \<le> m" using x by (auto simp: fzero_def num_val_def split: if_splits)
    then show False using pos d Num round_not_pos by (cases d) (auto simp: fzero_def num_val_def split: if_splits)
  qed
qed

lemma flt_above: "fnn m \<Longrightarrow> flt m x \<Longrightarrow> flt fzero x"
  by (cases m; cases x) (auto simp: fzero_def num_val_def split: if_splits)

lemma deviation_one_sided:
  assumes "shaped h" "Deviation val h = Some dev" "fnn limit" "flt limit dev"
  shows "flt (f_conv round32 val) (h_yn h)"
proof -
  have dev: "dev = div32 (sub32 (h_yn h) (f_conv round32 val)) (h_dn h)"
    using assms(2) by (simp add: Deviation_def split: if_splits)
  from flt_above [OF assms(3,4)] have "flt fzero (sub32 (h_yn h) (f_conv round32 val))"
    using div_pos [OF shapedD(6) [OF assms(1)] _ fnn_abs_sub] assms(2) unfolding dev by (simp add: Deviation_def split: if_splits)
  then show ?thesis by (rule sub_pos)
qed

end
