(* ===== verification/Service.thy ===== *)
theory Service
  imports MonelSafety Darp Expr HwabSafety "HOL-Library.List_Lexorder" "HOL-Library.Char_ord"
begin

text \<open>
  Package \<open>service\<close> (\<open>src/argus/service/\<close>): a service is tested by a monitor, which hands the
  value it found to \<open>CheckValue\<close> or an outcome to \<open>Pass\<close>, \<open>Fail\<close>, ...; the value is converted
  (\<open>getValue\<close>), compared with the limits (\<open>testAndCompare\<close>), filtered by the retries
  (\<open>SetResult\<close>), combined with what the peers say (\<open>setResultForL\<close>) and passed to the monitored
  object.

  The state has the services, the monitored objects with the scheduler, and the peers. The
  calls of the service's monitor are recorded. Regular expressions, JSON and XML paths are
  fields of the environment, as are the clocks and the random numbers of the run; an operation
  takes one reading of the clock. \<^const>\<open>None\<close> is a panic.
\<close>

section \<open>State\<close>

record service_conf =
  vc_Frequency :: int
  vc_Retries :: int
  vc_Retrydelay :: int
  vc_Timeout :: int
  vc_Showreason :: bool
  vc_Showresult :: bool
  vc_Demo_is_force :: gofloat
  vc_Severity :: status
  vc_DARP_Gravity :: gravity
  vc_DARP_Tags :: string
  vc_Calc :: string
  vc_Alpha :: gofloat
  vc_Scale :: gofloat
  vc_Pluck :: string
  vc_Unpack :: string
  vc_Expr :: string
  vc_JPath :: string
  vc_XPath :: string
  vc_Gr_what :: string
  vc_Testing :: "schedule option"
  vc_Checking :: "schedule option"
  vc_Expect :: "string list"
  vc_Nexpect :: "string list"
  vc_Minvalue :: "gofloat list"
  vc_Maxvalue :: "gofloat list"
  vc_Eqvalue :: "gofloat list"
  vc_Nevalue :: "gofloat list"
  vc_Maxdeviation :: "gofloat list"

definition service_defaults :: service_conf where
  "service_defaults = \<lparr>vc_Frequency = 60, vc_Retries = 2, vc_Retrydelay = 60, vc_Timeout = 15, vc_Showreason = False,
     vc_Showresult = False, vc_Demo_is_force = fzero, vc_Severity = CRITICAL, vc_DARP_Gravity = GRAV_IETF,
     vc_DARP_Tags = [], vc_Calc = [], vc_Alpha = Num False 1, vc_Scale = fzero, vc_Pluck = [], vc_Unpack = [],
     vc_Expr = [], vc_JPath = [], vc_XPath = [], vc_Gr_what = [], vc_Testing = None, vc_Checking = None,
     vc_Expect = replicate 6 [], vc_Nexpect = replicate 6 [], vc_Minvalue = replicate 6 NaN,
     vc_Maxvalue = replicate 6 NaN, vc_Eqvalue = replicate 6 NaN, vc_Nevalue = replicate 6 NaN,
     vc_Maxdeviation = replicate 6 NaN\<rparr>"

record calc =
  va_rawvalue :: string
  va_Lastv :: gofloat
  va_Lastdv :: gofloat
  va_Lastt :: int
  va_Lastta :: int
  va_Ave :: gofloat

record service_p =
  vp_Lastgraph :: int
  vp_Statuses :: "string \<rightharpoonup> status"
  vp_Result :: string
  vp_Results :: "string \<rightharpoonup> string"
  vp_Reason :: string
  vp_Calc :: calc
  vp_Hwab :: "hwab option"

type_synonym sptr = nat

record service =
  v_mon :: ptr
  v_Cf :: service_conf
  v_p :: service_p
  v_running :: bool
  v_ready :: bool
  v_sched :: "dptr option"
  v_Lasttest :: int
  v_Tries :: int
  v_Started :: int
  v_Elapsed :: int
  v_alsoRun :: "sptr list"
  v_calcmask :: "32 word"
  v_expr :: "string list"

datatype check_call = CkStart sptr | CkAbort sptr | CkRecycle sptr | CkDoneConfig sptr

record graph_point =
  gp_file :: string
  gp_when :: int
  gp_status :: status
  gp_val :: gofloat
  gp_yn :: gofloat
  gp_dn :: gofloat

record service_state =
  vs_svc :: "sptr \<Rightarrow> service"
  vs_next :: sptr
  vs_all :: "string \<rightharpoonup> sptr"
  vs_monel :: monel_state
  vs_darp :: darp_state
  vs_check :: "check_call list"
  vs_graph :: "graph_point list"

record service_env =
  ve_monel :: monel_env
  ve_wall :: wall_clock
  ve_rand :: int                            \<comment> \<open>of the scheduler\<close>
  ve_hosts :: "string list"                 \<comment> \<open>the order in which the peers are visited\<close>
  ve_regex :: "string \<Rightarrow> (string \<Rightarrow> string list option) option"  \<comment> \<open>compile, then the submatches\<close>
  ve_jsonpath :: "string \<Rightarrow> string \<Rightarrow> string"
  ve_xpath :: "string \<Rightarrow> string \<Rightarrow> string"
  ve_hwab :: hwab_math
  ve_math :: math_env
  ve_demo :: "(gofloat \<times> gofloat) option"  \<comment> \<open>the demo mode and its two random numbers\<close>

abbreviation (input) nano :: "service_env \<Rightarrow> int" where "nano env \<equiv> ev_nano (ve_monel env)"
abbreviation (input) unix :: "service_env \<Rightarrow> int" where "unix env \<equiv> ev_unix (ve_monel env)"

definition upd_s :: "sptr \<Rightarrow> (service \<Rightarrow> service) \<Rightarrow> service_state \<Rightarrow> service_state" where
  "upd_s i f st = st\<lparr>vs_svc := (vs_svc st)(i := f (vs_svc st i))\<rparr>"

definition upd_p :: "sptr \<Rightarrow> (service_p \<Rightarrow> service_p) \<Rightarrow> service_state \<Rightarrow> service_state" where
  "upd_p i f = upd_s i (\<lambda>s. s\<lparr>v_p := f (v_p s)\<rparr>)"

definition upd_calc :: "sptr \<Rightarrow> (calc \<Rightarrow> calc) \<Rightarrow> service_state \<Rightarrow> service_state" where
  "upd_calc i f = upd_p i (\<lambda>p. p\<lparr>vp_Calc := f (vp_Calc p)\<rparr>)"

definition svc_Find :: "string \<Rightarrow> service_state \<Rightarrow> sptr option" where
  "svc_Find uid st = vs_all st uid"

definition svc_Unique :: "sptr \<Rightarrow> service_state \<Rightarrow> string" where
  "svc_Unique i st = Unique (vs_monel st) (v_mon (vs_svc st i))"

section \<open>Scheduling\<close>

definition upd_sched :: "(sched_state \<Rightarrow> sched_state) \<Rightarrow> service_state \<Rightarrow> service_state" where
  "upd_sched f st = st\<lparr>vs_monel := (vs_monel st)\<lparr>ms_sched := f (ms_sched (vs_monel st))\<rparr>\<rparr>"

definition reschedule :: "service_env \<Rightarrow> sptr \<Rightarrow> int \<Rightarrow> service_state \<Rightarrow> service_state option" where
  "reschedule env i dt st =
     (let s = vs_svc st i; cf = v_Cf s;
          delay = (if v_Tries s \<noteq> 0 \<and> vc_Retrydelay cf \<noteq> 0 then vc_Retrydelay cf else vc_Frequency cf)
      in map_option (\<lambda>d. upd_sched (ReSchedule (unix env) (ve_rand env) d delay (dt sdiv 1000000)) st) (v_sched s))"

definition svc_CheckNow :: "service_env \<Rightarrow> sptr \<Rightarrow> service_state \<Rightarrow> service_state option" where
  "svc_CheckNow env i st =
     map_option (\<lambda>d. upd_sched (sched_ASAP (unix env) (ve_rand env) d) st) (v_sched (vs_svc st i))"

definition tasRunning :: "service_env \<Rightarrow> sptr \<Rightarrow> service_state \<Rightarrow> bool \<times> service_state" where
  "tasRunning env i st =
     (let s = vs_svc st i in
      if v_running s then (False, st)
      else if (case vc_Testing (v_Cf s) of None \<Rightarrow> False | Some sc \<Rightarrow> \<not> PermitNow (ve_wall env) sc ''yes'') then (False, st)
      else (True, upd_s i (\<lambda>s. s\<lparr>v_Started := nano env, v_running := True\<rparr>) st))"

definition JoinMulti :: "service_env \<Rightarrow> sptr \<Rightarrow> service_state \<Rightarrow> (bool \<times> service_state) option" where
  "JoinMulti env i st =
     (let (ok, st) = tasRunning env i st in
      if \<not> ok then Some (False, st) else map_option (Pair True) (reschedule env i 0 st))"

fun check_all :: "service_env \<Rightarrow> sptr list \<Rightarrow> service_state \<Rightarrow> service_state option" where
  "check_all env [] st = Some st"
| "check_all env (c # cs) st = svc_CheckNow env c st \<bind> check_all env cs"

definition svc_Done :: "service_env \<Rightarrow> sptr \<Rightarrow> service_state \<Rightarrow> service_state option" where
  "svc_Done env i st = do {
     st \<leftarrow> reschedule env i (v_Elapsed (vs_svc st i)) st;
     let st = upd_s i (\<lambda>s. s\<lparr>v_running := False, v_Lasttest := nano env\<rparr>) st;
     check_all env (v_alsoRun (vs_svc st i)) st
   }"

definition AddAlsoRun :: "sptr \<Rightarrow> sptr \<Rightarrow> service_state \<Rightarrow> service_state" where
  "AddAlsoRun i c = upd_s i (\<lambda>s. s\<lparr>v_alsoRun := v_alsoRun s @ [c]\<rparr>)"

definition RemoveAlsoRun :: "sptr \<Rightarrow> sptr \<Rightarrow> service_state \<Rightarrow> service_state" where
  "RemoveAlsoRun i c = upd_s i (\<lambda>s. s\<lparr>v_alsoRun := remove1 c (v_alsoRun s)\<rparr>)"

section \<open>Results\<close>

definition setResultForL :: "service_env \<Rightarrow> sptr \<Rightarrow> string \<Rightarrow> status \<Rightarrow> string \<Rightarrow> string \<Rightarrow> service_state \<Rightarrow> (status \<times> service_state) option" where
  "setResultForL env i who status result reason st =
     (let st = upd_p i (\<lambda>p. p\<lparr>vp_Results := (vp_Results p)(who \<mapsto> result),
                 vp_Reason := (if who = dp_MyId (vs_darp st) then reason else vp_Reason p),
                 vp_Statuses := (vp_Statuses p)(who \<mapsto> status)\<rparr>) st;
          s = vs_svc st i
      in map_option (\<lambda>r. (r, st))
           (AggrStatus (unix env) (ve_hosts env) (vc_DARP_Gravity (v_Cf s)) status (vp_Statuses (v_p s)) (vs_darp st)))"

definition SetResultFor :: "service_env \<Rightarrow> sptr \<Rightarrow> string \<Rightarrow> status \<Rightarrow> string \<Rightarrow> string \<Rightarrow> service_state \<Rightarrow> service_state option" where
  "SetResultFor env i who status result reason st = do {
     (status, st) \<leftarrow> setResultForL env i who status result reason st;
     m \<leftarrow> monel_Update (ve_monel env) (v_mon (vs_svc st i)) status result reason (vs_monel st);
     Some (st\<lparr>vs_monel := m\<rparr>)
   }"

text \<open>The retries: whether the result goes on, and the new \<open>Tries\<close> and \<open>ready\<close>.\<close>

definition retry_gate :: "int \<Rightarrow> status \<Rightarrow> string \<Rightarrow> int \<times> bool \<Rightarrow> bool \<times> int \<times> bool" where
  "retry_gate retries status result tr =
     (case tr of (tries, ready) \<Rightarrow>
      if status = CLEAR then (True, 0, True)
      else
        let ready = (if result \<noteq> [] then True else ready) in
        if tries \<le> retries then (False, tries + 1, ready) else (True, tries, ready))"

definition checked_status :: "service_env \<Rightarrow> service_conf \<Rightarrow> status \<Rightarrow> status" where
  "checked_status env cf status =
     (case vc_Checking cf of
        None \<Rightarrow> status
      | Some sc \<Rightarrow> if \<not> PermitNow (ve_wall env) sc ''yes'' then CLEAR else status)"

definition SetResult :: "service_env \<Rightarrow> sptr \<Rightarrow> status \<Rightarrow> string \<Rightarrow> string \<Rightarrow> service_state \<Rightarrow> service_state option" where
  "SetResult env i status result reason st =
     (let s = vs_svc st i;
          status = checked_status env (v_Cf s) status;
          (go, tries, ready) = retry_gate (vc_Retries (v_Cf s)) status result (v_Tries s, v_ready s);
          reason = (if status = CLEAR then [] else reason);
          st = upd_s i (\<lambda>s. s\<lparr>v_Tries := tries, v_ready := ready\<rparr>) st
      in if \<not> go then Some st
         else
           let me = dp_MyId (vs_darp st);
               old = (case vp_Statuses (v_p s) me of None \<Rightarrow> UNKNOWN | Some x \<Rightarrow> x);
               st = (if status \<noteq> old
                     then st\<lparr>vs_darp := darp_SendUpdate (svc_Unique i st) status result reason (vs_darp st)\<rparr>
                     else st);
               st = upd_p i (\<lambda>p. p\<lparr>vp_Result := result\<rparr>) st
           in SetResultFor env i me status result reason st)"

definition svc_Pass :: "service_env \<Rightarrow> sptr \<Rightarrow> service_state \<Rightarrow> service_state option" where
  "svc_Pass env i st = SetResult env i CLEAR [] [] (upd_s i (\<lambda>s. s\<lparr>v_ready := True\<rparr>) st)"

definition FailReady :: "service_env \<Rightarrow> sptr \<Rightarrow> string \<Rightarrow> service_state \<Rightarrow> service_state option" where
  "FailReady env i reason st =
     (let st = upd_s i (\<lambda>s. s\<lparr>v_ready := True\<rparr>) st
      in SetResult env i (vc_Severity (v_Cf (vs_svc st i))) [] reason st)"

definition svc_Fail :: "service_env \<Rightarrow> sptr \<Rightarrow> string \<Rightarrow> service_state \<Rightarrow> service_state option" where
  "svc_Fail env i reason st =
     (let st = upd_s i (\<lambda>s. s\<lparr>v_ready := False\<rparr>) st
      in SetResult env i (vc_Severity (v_Cf (vs_svc st i))) [] reason st)"

definition FailNow :: "service_env \<Rightarrow> sptr \<Rightarrow> string \<Rightarrow> service_state \<Rightarrow> service_state option" where
  "FailNow env i reason st =
     svc_Fail env i reason (upd_s i (\<lambda>s. s\<lparr>v_ready := False, v_Tries := vc_Retries (v_Cf s) + 1\<rparr>) st)"

section \<open>Graphs\<close>

definition recordMyGraphData :: "service_env \<Rightarrow> sptr \<Rightarrow> gofloat \<Rightarrow> service_state \<Rightarrow> service_state" where
  "recordMyGraphData env i val st =
     (let now = unix env in
      if vp_Lastgraph (v_p (vs_svc st i)) + 120 > now then st
      else
        let st = upd_p i (\<lambda>p. p\<lparr>vp_Lastgraph := now\<rparr>) st;
            s = vs_svc st i; m = ms_heap (vs_monel st) (v_mon s);
            (yn, dn) = (case vp_Hwab (v_p s) of None \<Rightarrow> (fzero, fzero) | Some h \<Rightarrow> (h_yn h, h_dn h));
            val = (if vc_Gr_what (v_Cf s) = ''elapsed'' then fdiv round64 (num64 (v_Elapsed s)) (num64 1000000000) else val)
        in if mc_Graph (m_Cf m)
           then st\<lparr>vs_graph := vs_graph st @ [\<lparr>gp_file = Pathname m [] [], gp_when = now, gp_status = p_OvStatus m,
                  gp_val = val, gp_yn = yn, gp_dn = dn\<rparr>]\<rparr>
           else st)"

section \<open>Comparing\<close>

definition testMatch :: "service_env \<Rightarrow> string \<Rightarrow> string \<Rightarrow> bool" where
  "testMatch env regex val = (case ve_regex env regex of None \<Rightarrow> False | Some re \<Rightarrow> re val \<noteq> None)"

definition Pluck :: "service_env \<Rightarrow> string \<Rightarrow> string \<Rightarrow> string" where
  "Pluck env regex val =
     (case ve_regex env regex of
        None \<Rightarrow> []
      | Some re \<Rightarrow>
          (case re val of
             None \<Rightarrow> []
           | Some matches \<Rightarrow> if length matches < 2 then [] else matches ! 1))"

text \<open>The first test of one severity that fails, in the order of the code.\<close>

definition failed_test :: "service_env \<Rightarrow> service_conf \<Rightarrow> hwab option \<Rightarrow> string \<Rightarrow> gofloat \<Rightarrow> status \<Rightarrow> string option" where
  "failed_test env cf hw val fval sev =
     (let k = nat sev in
      if vc_Expect cf ! k \<noteq> [] \<and> \<not> testMatch env (vc_Expect cf ! k) val then Some ''TEST did not match expected regex''
      else if vc_Nexpect cf ! k \<noteq> [] \<and> testMatch env (vc_Nexpect cf ! k) val then Some ''TEST did matched unexpected regex''
      else if \<not> is_nan (vc_Minvalue cf ! k) \<and> flt fval (vc_Minvalue cf ! k) then Some ''TEST less than min''
      else if \<not> is_nan (vc_Maxvalue cf ! k) \<and> flt (vc_Maxvalue cf ! k) fval then Some ''TEST more than max''
      else if \<not> is_nan (vc_Eqvalue cf ! k) \<and> \<not> feq fval (vc_Eqvalue cf ! k) then Some ''TEST not equal''
      else if \<not> is_nan (vc_Nevalue cf ! k) \<and> feq fval (vc_Nevalue cf ! k) then Some ''TEST equal''
      else case hw of
             None \<Rightarrow> None
           | Some h \<Rightarrow>
               if is_nan (vc_Maxdeviation cf ! k) then None
               else (case Deviation fval h of
                       None \<Rightarrow> None
                     | Some dev \<Rightarrow>
                         if flt (vc_Maxdeviation cf ! k) dev then Some ''TEST outside of predicted range'' else None))"

fun compare_sevs :: "service_env \<Rightarrow> service_conf \<Rightarrow> hwab option \<Rightarrow> string \<Rightarrow> gofloat \<Rightarrow> status list \<Rightarrow> status \<times> string" where
  "compare_sevs env cf hw val fval [] = (CLEAR, [])"
| "compare_sevs env cf hw val fval (sev # sevs) =
     (if sev = CLEAR then compare_sevs env cf hw val fval sevs
      else case failed_test env cf hw val fval sev of
             Some r \<Rightarrow> (if sev = UNKNOWN then vc_Severity cf else sev, r)
           | None \<Rightarrow> compare_sevs env cf hw val fval sevs)"

text \<open>A value without a type is a number, and is printed; a string is read as a number, and leaves the
  number alone when it is none.\<close>

definition both_values :: "string \<Rightarrow> gofloat \<Rightarrow> string \<Rightarrow> string \<times> gofloat" where
  "both_values val fval valtype = (if valtype = [] then (fmt_f fval, fval) else (val, Sscan_float val fval))"

definition testAndCompare :: "service_env \<Rightarrow> service_conf \<Rightarrow> hwab option \<Rightarrow> string \<Rightarrow> gofloat \<Rightarrow> string \<Rightarrow> status \<times> string" where
  "testAndCompare env cf hw val fval valtype =
     (let (val, fval) = both_values val fval valtype in compare_sevs env cf hw val fval (rev [UNKNOWN..CRITICAL]))"

section \<open>Converting\<close>

abbreviation (input) CALC_ONE :: "32 word" where "CALC_ONE \<equiv> 1"
abbreviation (input) CALC_ELAPSED :: "32 word" where "CALC_ELAPSED \<equiv> 2"
abbreviation (input) CALC_RATE :: "32 word" where "CALC_RATE \<equiv> 4"
abbreviation (input) CALC_DELTA :: "32 word" where "CALC_DELTA \<equiv> 8"
abbreviation (input) CALC_AVE :: "32 word" where "CALC_AVE \<equiv> 16"
abbreviation (input) CALC_JITTER :: "32 word" where "CALC_JITTER \<equiv> 32"
abbreviation (input) CALC_BITS :: "32 word" where "CALC_BITS \<equiv> 64"

definition has_calc :: "32 word \<Rightarrow> 32 word \<Rightarrow> bool" where
  "has_calc cm m \<longleftrightarrow> and cm m \<noteq> 0"

definition calc_bit :: "string \<Rightarrow> 32 word" where
  "calc_bit c =
     (if c = ''elapsed'' then CALC_ELAPSED
      else if c = ''rate'' then CALC_RATE
      else if c = ''delta'' then CALC_DELTA
      else if c = ''ave'' then CALC_AVE
      else if c = ''JITTER'' then CALC_JITTER
      else if c = ''bits'' then CALC_BITS
      else if c = ''one'' then CALC_ONE
      else 0)"

definition calcMask :: "string \<Rightarrow> 32 word" where
  "calcMask c =
     foldl (\<lambda>cm w. or cm (calc_bit w)) 0
       (go_fields (map (\<lambda>x. if x = CHR ''-'' then CHR '' '' else x) (to_lower c)))"

definition ResetRateCalc :: "sptr \<Rightarrow> service_state \<Rightarrow> service_state" where
  "ResetRateCalc i = upd_calc i (\<lambda>c. c\<lparr>va_Lastt := 0, va_Lastv := fzero\<rparr>)"

text \<open>\<^const>\<open>None\<close>: no value this time.\<close>

definition rateCalc :: "32 word \<Rightarrow> int \<Rightarrow> gofloat \<Rightarrow> calc \<Rightarrow> gofloat option \<times> calc" where
  "rateCalc cm now fval c =
     (let dt = fdiv round64 (num64 (now - va_Lastt c)) (num64 1000000000) in
      if va_Lastt c = 0 then (None, c\<lparr>va_Lastv := fval, va_Lastt := now\<rparr>)
      else if flt dt (num64 1) then (None, c)
      else
        let lastv = va_Lastv c; c = c\<lparr>va_Lastv := fval, va_Lastt := now\<rparr> in
        if flt fval lastv \<and> flt lastv (num64 2147483647) then (None, c)
        else
          let dv = (if flt fval lastv then fadd round64 (fsub round64 (num64 4294967295) lastv) (num64 1)
                    else fsub round64 fval lastv);
              c = c\<lparr>va_Lastdv := dv\<rparr>
          in if \<not> feq (va_Lastdv c) fzero \<and> flt (fmul round64 (num64 100) (va_Lastdv c)) dv then (None, c)
             else (Some (if has_calc cm CALC_RATE then fdiv round64 dv dt else dv), c))"

text \<open>The moving average, and the jitter around it.\<close>

definition aveCalc :: "service_conf \<Rightarrow> 32 word \<Rightarrow> int \<Rightarrow> gofloat \<Rightarrow> calc \<Rightarrow> gofloat \<times> calc" where
  "aveCalc cf cm now fval c =
     (let dt = fdiv round64 (num64 (now - va_Lastta c)) (num64 1000000000);
          c = (if va_Lastta c = 0 \<or> flt (fmul round64 (fmul round64 (num64 (vc_Frequency cf)) (vc_Alpha cf)) (num64 3)) dt
               then c\<lparr>va_Ave := fval\<rparr> else c);
          fval = fdiv round64 (fadd round64 (fmul round64 (vc_Alpha cf) (va_Ave c)) fval) (fadd round64 (vc_Alpha cf) (num64 1));
          pave = va_Ave c;
          c = c\<lparr>va_Ave := fval, va_Lastta := now\<rparr>
      in (if has_calc cm CALC_JITTER then fabs (fsub round64 pave fval) else fval, c))"

text \<open>The part of the answer that is wanted; \<^const>\<open>None\<close> is the panic of \<open>Unpack\<close>.\<close>

definition select_value :: "service_env \<Rightarrow> service_conf \<Rightarrow> string \<Rightarrow> string \<Rightarrow> (string \<times> gofloat \<times> string) option" where
  "select_value env cf val valtype =
     (let (val, valtype) = (if vc_Pluck cf \<noteq> [] then (Pluck env (vc_Pluck cf) val, ''string'') else (val, valtype));
          (val, valtype) = (if vc_JPath cf \<noteq> [] \<and> valtype \<noteq> [] then (ve_jsonpath env (vc_JPath cf) val, ''string'') else (val, valtype));
          (val, valtype) = (if vc_XPath cf \<noteq> [] \<and> valtype \<noteq> [] then (ve_xpath env (vc_XPath cf) val, ''string'') else (val, valtype))
      in if vc_Unpack cf \<noteq> []
         then map_option (\<lambda>(ival, ok). (val, num64 (sint ival), [])) (Unpack (vc_Unpack cf) val)
         else Some (val, fzero, valtype))"

text \<open>\<^const>\<open>None\<close> outside: the run of the expression does not return (it panics only on a nil child, or
  walks a cyclic tree); inside: an error.\<close>

definition doExpr :: "service_env \<Rightarrow> sptr \<Rightarrow> gofloat \<Rightarrow> service_state \<Rightarrow> (gofloat option \<times> service_state) option" where
  "doExpr env i fval st =
     (let s = vs_svc st i; sv = fmt_f fval;
          dat = [''elapsed'' \<mapsto> fmt_f (fdiv round32 (num32 (v_Elapsed s)) (num32 1000000000)),
                 ''lastt'' \<mapsto> show_int (v_Lasttest s sdiv 1000000000),
                 ''freq'' \<mapsto> show_int (vc_Frequency (v_Cf s)),
                 ''value'' \<mapsto> sv, ''x'' \<mapsto> sv, ''$x'' \<mapsto> sv]
      in map_option (\<lambda>(r, m). (r, st\<lparr>vs_monel := m\<rparr>)) (RunExprF (ve_math env) (v_expr s) dat (vs_monel st)))"

text \<open>The arithmetic on the number up to the expression; \<^const>\<open>None\<close> inside means \<open>skip\<close>.\<close>

definition convert_value :: "service_env \<Rightarrow> sptr \<Rightarrow> gofloat \<Rightarrow> service_state \<Rightarrow> gofloat option \<times> service_state" where
  "convert_value env i fval st =
     (let s = vs_svc st i; cf = v_Cf s; cm = v_calcmask s;
          fval = (if \<not> feq (vc_Scale cf) fzero then fdiv round64 fval (vc_Scale cf) else fval);
          fval = (if has_calc cm CALC_ONE then num64 1 else fval);
          fval = (if has_calc cm CALC_ELAPSED then fdiv round64 (num64 (v_Elapsed s)) (num64 1000000000) else fval);
          (r, c) = (if has_calc cm (or CALC_RATE CALC_DELTA) then rateCalc cm (nano env) fval (vp_Calc (v_p s))
                    else (Some fval, vp_Calc (v_p s)))
      in case r of
           None \<Rightarrow> (None, upd_calc i (\<lambda>_. c) st)
         | Some fval \<Rightarrow>
             let (fval, c) = (if has_calc cm (or CALC_AVE CALC_JITTER) then aveCalc cf cm (nano env) fval c else (fval, c))
             in (Some (if has_calc cm CALC_BITS then fmul round64 fval (num64 8) else fval), upd_calc i (\<lambda>_. c) st))"

definition getValue :: "service_env \<Rightarrow> sptr \<Rightarrow> string \<Rightarrow> string \<Rightarrow> service_state \<Rightarrow> ((string \<times> gofloat \<times> string) option \<times> service_state) option" where
  "getValue env i val valtype st =
     (let s = vs_svc st i; cf = v_Cf s in do {
       (val, fval, valtype) \<leftarrow> select_value env cf val valtype;
       let number = \<not> feq (vc_Scale cf) fzero \<or> v_calcmask s \<noteq> 0 \<or> vc_Expr cf \<noteq> [] \<or> vp_Hwab (v_p s) \<noteq> None;
       let (fval, valtype) = (if number \<and> valtype \<noteq> [] then (Sscan_float val fval, []) else (fval, valtype));
       case convert_value env i fval st of
         (None, st) \<Rightarrow> Some (None, st)
       | (Some fval, st) \<Rightarrow> do {
           (fval, st) \<leftarrow>
             (if v_expr s \<noteq> [] then do {
                (r, st) \<leftarrow> doExpr env i fval st;
                case r of
                  None \<Rightarrow> map_option (Pair None) (FailNow env i ''invalid expr'' st)
                | Some v \<Rightarrow> Some (Some v, st)
              }
              else Some (Some fval, st));
           case fval of
             None \<Rightarrow> Some (None, st)
           | Some fval \<Rightarrow>
               (case vp_Hwab (v_p (vs_svc st i)) of
                  None \<Rightarrow> Some (Some (val, fval, valtype), st)
                | Some h \<Rightarrow> do {
                    h \<leftarrow> AddAt (ve_hwab env) fval (unix env) h;
                    Some (Some (val, fval, valtype), upd_p i (\<lambda>p. p\<lparr>vp_Hwab := Some h\<rparr>) st)
                  })
         }
     })"

definition CheckValue :: "service_env \<Rightarrow> sptr \<Rightarrow> string \<Rightarrow> string \<Rightarrow> service_state \<Rightarrow> service_state option" where
  "CheckValue env i val valtype st =
     (let st = upd_calc i (\<lambda>c. c\<lparr>va_rawvalue := val\<rparr>) st;
          st = upd_s i (\<lambda>s. s\<lparr>v_Elapsed := nano env - v_Started s\<rparr>) st
      in do {
        (r, st) \<leftarrow> getValue env i val valtype st;
        case r of
          None \<Rightarrow> Some st
        | Some (val, fval, valtype) \<Rightarrow>
            if valtype = ''skip'' then Some st
            else
              let st = upd_s i (\<lambda>s. s\<lparr>v_ready := True\<rparr>) st;
                  (status, reason) = testAndCompare env (v_Cf (vs_svc st i)) (vp_Hwab (v_p (vs_svc st i))) val fval valtype;
                  (val, fval) = both_values val fval valtype;
                  st = recordMyGraphData env i fval st
              in SetResult env i status val reason st
      })"

section \<open>Running\<close>

definition demoMode :: "service_env \<Rightarrow> sptr \<Rightarrow> gofloat \<Rightarrow> gofloat \<Rightarrow> service_state \<Rightarrow> service_state option" where
  "demoMode env i r1 r2 st =
     (let st = upd_s i (\<lambda>s. s\<lparr>v_ready := True\<rparr>) st;
          v = fsub round64 (fadd round64 (vc_Demo_is_force (v_Cf (vs_svc st i))) r1) r2;
          r = fmt_f v;
          st = recordMyGraphData env i v st
      in do {
        st \<leftarrow> (if flt fzero v then SetResult env i CLEAR r ''OK'' st else SetResult env i CRITICAL r ''OHNOS'' st);
        svc_Done env i st
      })"

definition svc_Start :: "service_env \<Rightarrow> sptr \<Rightarrow> service_state \<Rightarrow> service_state option" where
  "svc_Start env i st =
     (let (ok, st) = tasRunning env i st; s = vs_svc st i in
      if \<not> ok then
        reschedule env i 0
          (if v_running s \<and> nano env - v_Started s > 900 * 1000000000 then st\<lparr>vs_check := vs_check st @ [CkAbort i]\<rparr> else st)
      else case ve_demo env of
             Some (r1, r2) \<Rightarrow>
               if \<not> feq (vc_Demo_is_force (v_Cf s)) fzero then demoMode env i r1 r2 st
               else Some (st\<lparr>vs_check := vs_check st @ [CkStart i]\<rparr>)
           | None \<Rightarrow> Some (st\<lparr>vs_check := vs_check st @ [CkStart i]\<rparr>))"

section \<open>Life cycle\<close>

text \<open>The registered monitors: the longest registered prefix of the name wins.\<close>

definition svc_Register :: "string \<Rightarrow> 'm \<Rightarrow> (string \<times> 'm) list \<Rightarrow> (string \<times> 'm) list" where
  "svc_Register name ctor probes = probes @ [(to_lower name, ctor)]"

definition svc_probe :: "(string \<times> 'm) list \<Rightarrow> string \<Rightarrow> 'm option" where
  "svc_probe probes name =
     snd (foldl (\<lambda>(bestl, bestc) (pname, ctor).
            if has_prefix (to_lower name) pname \<and> length pname > bestl then (length pname, Some ctor) else (bestl, bestc))
          (0, None) probes)"

definition svc_blank :: service where
  "svc_blank = \<lparr>v_mon = 0, v_Cf = service_defaults,
     v_p = \<lparr>vp_Lastgraph = 0, vp_Statuses = Map.empty, vp_Result = [], vp_Results = Map.empty, vp_Reason = [],
            vp_Calc = \<lparr>va_rawvalue = [], va_Lastv = fzero, va_Lastdv = fzero, va_Lastt = 0, va_Lastta = 0, va_Ave = fzero\<rparr>,
            vp_Hwab = None\<rparr>,
     v_running = False, v_ready = False, v_sched = None, v_Lasttest = 0, v_Tries = 0, v_Started = 0, v_Elapsed = 0,
     v_alsoRun = [], v_calcmask = 0, v_expr = []\<rparr>"

text \<open>\<open>New\<close> up to the configuration of the object.\<close>

definition svc_New :: "service_env \<Rightarrow> ptr \<Rightarrow> service_state \<Rightarrow> sptr \<times> service_state" where
  "svc_New env parent st =
     (let i = vs_next st; (p, m) = monel_New (ve_monel env) ServiceM parent (vs_monel st);
          m = upd_m p (\<lambda>x. x\<lparr>m_Cf := (m_Cf x)\<lparr>mc_Sendnotify := (mc_Sendnotify (m_Cf x))[nat UNKNOWN := Some ScheduleAlwaysYes],
                                              mc_Countstop := True\<rparr>\<rparr>) m
      in (i, st\<lparr>vs_svc := (vs_svc st)(i := svc_blank\<lparr>v_mon := p\<rparr>), vs_next := Suc i, vs_monel := m\<rparr>))"

text \<open>\<open>preconf\<close> and \<open>checkconf\<close> are the errors of the monitor's two steps, \<open>initcf\<close> and \<open>hconf\<close> what the
  configuration sets.\<close>

definition svc_Config :: "service_env \<Rightarrow> string option \<Rightarrow> string option \<Rightarrow> (service_conf \<Rightarrow> service_conf) \<Rightarrow> (hwab_conf \<Rightarrow> hwab_conf)
    \<Rightarrow> sptr \<Rightarrow> service_state \<Rightarrow> string + service_state" where
  "svc_Config env preconf checkconf initcf hconf i st =
     (case preconf of
        Some e \<Rightarrow> Inl e
      | None \<Rightarrow>
          let st = upd_s i (\<lambda>s. s\<lparr>v_Cf := initcf (v_Cf s)\<rparr>) st; cf = v_Cf (vs_svc st i) in
          case (if vc_Expr cf = [] then Inr (v_expr (vs_svc st i)) else map_sum (\<lambda>e. ''invalid expr: '' @ e) fst (expr_Parse (vc_Expr cf))) of
            Inl e \<Rightarrow> Inl e
          | Inr pt \<Rightarrow>
              let st = upd_s i (\<lambda>s. s\<lparr>v_expr := pt, v_calcmask := calcMask (vc_Calc cf),
                                     v_Cf := cf\<lparr>vc_DARP_Tags := to_lower (vc_DARP_Tags cf)\<rparr>\<rparr>) st;
                  st = (if list_ex (\<lambda>x. \<not> is_nan x) (vc_Maxdeviation cf)
                        then upd_p i (\<lambda>p. p\<lparr>vp_Hwab := Some (HwabConfig (unix env) hconf)\<rparr>) st else st)
              in case checkconf of
                   Some e \<Rightarrow> Inl e
                 | None \<Rightarrow> Inr (upd_s i (\<lambda>s. if vc_Frequency (v_Cf s) = 0 then s\<lparr>v_Cf := (v_Cf s)\<lparr>vc_Frequency := 60\<rparr>\<rparr> else s) st))"

text \<open>\<open>checkinit\<close> is the error of the monitor's \<open>Init\<close>, \<open>prio\<close> its priority.\<close>

definition svc_Init :: "service_env \<Rightarrow> string option \<Rightarrow> bool \<Rightarrow> int \<Rightarrow> sptr \<Rightarrow> service_state \<Rightarrow> (string + service_state) option" where
  "svc_Init env checkinit prio rp i st = do {
     st \<leftarrow> (case vp_Hwab (v_p (vs_svc st i)) of
             None \<Rightarrow> Some st
           | Some h \<Rightarrow> map_option (\<lambda>h. upd_p i (\<lambda>p. p\<lparr>vp_Hwab := Some h\<rparr>) st) (hwab_Init (unix env) h));
     case checkinit of
       Some e \<Rightarrow> Some (Inl e)
     | None \<Rightarrow>
         let valid = (\<lambda>n. darp_IsValid n (vs_darp st));
             stale = {n. vp_Statuses (v_p (vs_svc st i)) n \<noteq> None \<and> \<not> valid n};
             st = upd_p i (\<lambda>p. p\<lparr>vp_Statuses := vp_Statuses p |` (- stale), vp_Results := vp_Results p |` (- stale)\<rparr>) st;
             st = st\<lparr>vs_all := (vs_all st)(svc_Unique i st \<mapsto> i)\<rparr>
         in do {
           (d, sch) \<leftarrow> sched_New (unix env) (ve_rand env) rp
             \<lparr>sc_Freq = vc_Frequency (v_Cf (vs_svc st i)), sc_Phase = 0, sc_Auto = True, sc_Prio = prio, sc_Text = svc_Unique i st\<rparr>
             i (ms_sched (vs_monel st));
           Some (Inr (upd_sched (\<lambda>_. sch) (upd_s i (\<lambda>s. s\<lparr>v_sched := Some d\<rparr>) st)))
         }
   }"

definition svc_DoneConfig :: "sptr \<Rightarrow> service_state \<Rightarrow> service_state" where
  "svc_DoneConfig i st = st\<lparr>vs_check := vs_check st @ [CkDoneConfig i]\<rparr>"

definition svc_Recycle :: "sptr \<Rightarrow> service_state \<Rightarrow> service_state" where
  "svc_Recycle i st =
     (let st = st\<lparr>vs_all := (vs_all st)(svc_Unique i st := None)\<rparr>;
          st = (case v_sched (vs_svc st i) of None \<Rightarrow> st | Some d \<Rightarrow> upd_sched (sched_Remove d) st)
      in st\<lparr>vs_check := vs_check st @ [CkRecycle i]\<rparr>)"

section \<open>The API of the peers\<close>

text \<open>The names of an object's ancestors, by first parents, up to one that is there already.\<close>

partial_function (option) gatherParents :: "monel_state \<Rightarrow> string set \<Rightarrow> ptr \<Rightarrow> string set option" where
  "gatherParents st all p =
     (case m_Parent (ms_heap st p) of
        [] \<Rightarrow> Some all
      | q # _ \<Rightarrow>
          if q = 0 then None
          else if Unique st q \<in> all then Some all
          else gatherParents st (insert (Unique st q) all) q)"

text \<open>\<open>uids\<close> is the order in which the map of services is visited.\<close>

fun gather_all :: "service_state \<Rightarrow> string \<Rightarrow> string list \<Rightarrow> string set \<Rightarrow> string set option" where
  "gather_all st tag [] all = Some all"
| "gather_all st tag (uid # uids) all =
     (case vs_all st uid of
        None \<Rightarrow> gather_all st tag uids all
      | Some i \<Rightarrow>
          let s = vs_svc st i in
          if IncludesTag (vc_DARP_Tags (v_Cf s)) tag True
          then gatherParents (vs_monel st) (insert uid all) (v_mon s) \<bind> gather_all st tag uids
          else gather_all st tag uids all)"

definition ctx_arg :: "api_ctx \<Rightarrow> string \<Rightarrow> string" where
  "ctx_arg ctx k = (case ax_Args ctx k of None \<Rightarrow> [] | Some v \<Rightarrow> v)"

definition darp_list :: "string list \<Rightarrow> string \<Rightarrow> service_state \<Rightarrow> string list option" where
  "darp_list uids tag st = map_option sorted_list_of_set (gather_all st tag uids {})"

definition apiDarpList :: "string list \<Rightarrow> api_ctx \<Rightarrow> service_state \<Rightarrow> api_ctx option" where
  "apiDarpList uids ctx st =
     map_option (\<lambda>list. SendFinal (foldl (\<lambda>ctx uid. api_Send (uid @ [CHR 0x0A]) ctx) (SendOK ctx) list))
       (darp_list uids (ctx_arg ctx ''tag'') st)"

definition apiSetResultFor :: "service_env \<Rightarrow> api_ctx \<Rightarrow> service_state \<Rightarrow> (api_ctx \<times> service_state) option" where
  "apiSetResultFor env ctx st =
     (let status = atoi (ctx_arg ctx ''status'') in
      case svc_Find (ctx_arg ctx ''obj'') st of
        None \<Rightarrow> Some (Send404 ctx, st)
      | Some i \<Rightarrow>
          map_option (\<lambda>st. (SendOKFinal ctx, st))
            (SetResultFor env i (ax_User ctx) status (ctx_arg ctx ''result'') (ctx_arg ctx ''reason'') st))"

definition apiHwabReset :: "service_env \<Rightarrow> api_ctx \<Rightarrow> service_state \<Rightarrow> (api_ctx \<times> service_state) option" where
  "apiHwabReset env ctx st =
     (case svc_Find (ctx_arg ctx ''obj'') st of
        None \<Rightarrow> Some (Send404 ctx, st)
      | Some i \<Rightarrow>
          (case vp_Hwab (v_p (vs_svc st i)) of
             None \<Rightarrow> Some (SendResponseFinal 404 ''HWAB not enabled'' ctx, st)
           | Some h \<Rightarrow>
               map_option (\<lambda>h. (SendOKFinal ctx, upd_p i (\<lambda>p. p\<lparr>vp_Hwab := Some h\<rparr>) st)) (hwab_Reset (unix env) h)))"

end
