(* ===== verification/ServiceFacts.thy ===== *)
theory ServiceFacts
  imports Service
begin

text \<open>
  What the service component promises: the retries suppress exactly the first failures of a run
  of failures, a service that keeps failing goes down and comes back, the severity reported is
  the highest one violated, rates are never negative for 32-bit counters, errors of an expression
  are reported at once, and the list for a peer is complete and in the order of construction.
\<close>

section \<open>Retries\<close>

fun gate_run :: "int \<Rightarrow> (status \<times> string) list \<Rightarrow> int \<times> bool \<Rightarrow> bool list" where
  "gate_run R [] tr = []"
| "gate_run R ((s, r) # rs) tr = (let (go, tr) = retry_gate R s r tr in go # gate_run R rs tr)"

fun gate_after :: "int \<Rightarrow> (status \<times> string) list \<Rightarrow> int \<times> bool \<Rightarrow> int \<times> bool" where
  "gate_after R [] tr = tr"
| "gate_after R ((s, r) # rs) tr = gate_after R rs (snd (retry_gate R s r tr))"

lemma gate_run_nth: "k < length rs \<Longrightarrow> gate_run R rs tr ! k = fst (retry_gate R (fst (rs ! k)) (snd (rs ! k)) (gate_after R (take k rs) tr))"
proof (induction rs arbitrary: tr k)
  case (Cons x rs)
  then show ?case by (cases k; cases x) (auto split: prod.split)
qed simp

lemma gate_after_append: "gate_after R (xs @ ys) tr = gate_after R ys (gate_after R xs tr)"
  by (induction R xs tr rule: gate_after.induct) auto

definition bad :: "status \<times> string \<Rightarrow> bool" where
  "bad x \<longleftrightarrow> fst x \<noteq> CLEAR"

text \<open>The failures since the last success.\<close>

definition failures :: "(status \<times> string) list \<Rightarrow> nat" where
  "failures rs = length (takeWhile bad (rev rs))"

lemma gate_tries: "0 \<le> R \<Longrightarrow> fst (gate_after R rs (0, ready)) = min (R + 1) (int (failures rs))"
proof (induction rs rule: rev_induct)
  case (snoc x rs)
  obtain s r where x: "x = (s, r)" by force
  then show ?case using snoc
    by (cases "gate_after R rs (0, ready)") (auto simp: gate_after_append failures_def bad_def retry_gate_def)
qed (simp add: failures_def)

lemma takeWhile_all_len: "n \<le> length (takeWhile P xs) \<longleftrightarrow> n \<le> length xs \<and> (\<forall>j < n. P (xs ! j))"
proof (induction xs arbitrary: n)
  case (Cons x xs)
  show ?case
  proof (cases n)
    case (Suc m)
    then show ?thesis using Cons by (auto simp: nth_Cons split: nat.splits)
  qed simp
qed auto

lemma failures_ge: "n \<le> failures rs \<longleftrightarrow> n \<le> length rs \<and> (\<forall>j \<in> {length rs - n..<length rs}. bad (rs ! j))"
proof (cases "n \<le> length rs")
  case True
  have "(\<forall>j < n. bad (rev rs ! j)) \<longleftrightarrow> (\<forall>j \<in> {length rs - n..<length rs}. bad (rs ! j))" (is "?l \<longleftrightarrow> ?r")
  proof
    assume l: ?l
    show ?r
    proof
      fix j assume "j \<in> {length rs - n..<length rs}"
      then have "length rs - Suc j < n" "rev rs ! (length rs - Suc j) = rs ! j" by (auto simp: rev_nth)
      then show "bad (rs ! j)" using l by metis
    qed
  next
    assume r: ?r
    show ?l
    proof (intro allI impI)
      fix j assume "j < n"
      then have "length rs - Suc j \<in> {length rs - n..<length rs}" "rev rs ! j = rs ! (length rs - Suc j)"
        using True by (auto simp: rev_nth)
      then show "bad (rev rs ! j)" using r by metis
    qed
  qed
  then show ?thesis by (simp add: failures_def takeWhile_all_len)
qed (simp add: failures_def takeWhile_all_len)

text \<open>C27: the retries are a window over the results. Whatever sequence of results a service gets,
  exactly those go on that are clear, or that come after \<open>Retries + 1\<close> results in a row that are not:
  one clear result starts the count again, and the result text never matters.\<close>

theorem retries_window:
  assumes "0 \<le> R" "k < length rs"
  shows "gate_run R rs (0, ready) ! k \<longleftrightarrow>
    fst (rs ! k) = CLEAR \<or> (nat (R + 1) \<le> k \<and> (\<forall>j \<in> {k - nat (R + 1)..<k}. fst (rs ! j) \<noteq> CLEAR))"
proof -
  have t: "fst (gate_after R (take k rs) (0, ready)) = min (R + 1) (int (failures (take k rs)))"
    by (rule gate_tries [OF assms(1)])
  have "gate_run R rs (0, ready) ! k \<longleftrightarrow> fst (rs ! k) = CLEAR \<or> \<not> fst (gate_after R (take k rs) (0, ready)) \<le> R"
    unfolding gate_run_nth [OF assms(2)]
    by (cases "gate_after R (take k rs) (0, ready)") (simp add: retry_gate_def Let_def)
  also have "\<dots> \<longleftrightarrow> fst (rs ! k) = CLEAR \<or> nat (R + 1) \<le> failures (take k rs)"
    unfolding t using assms(1) by auto
  also have "\<dots> \<longleftrightarrow> fst (rs ! k) = CLEAR \<or> (nat (R + 1) \<le> k \<and> (\<forall>j \<in> {k - nat (R + 1)..<k}. fst (rs ! j) \<noteq> CLEAR))"
    unfolding failures_ge using assms(2) by (auto simp: bad_def)
  finally show ?thesis .
qed

theorem retries_window_witness:
  "gate_run 2 [(5, ''a''), (5, []), (4, []), (5, []), (1, []), (5, [])] (0, False) ! 3 \<and>
   \<not> gate_run 2 [(5, ''a''), (5, []), (4, []), (5, []), (1, []), (5, [])] (0, False) ! 5"
proof -
  let ?rs = "[(5, ''a''), (5, []), (4, []), (5, []), (1, []), (5, [])] :: (status \<times> string) list"
  have "(\<forall>j \<in> {3 - nat (2 + 1)..<3}. fst (?rs ! j) \<noteq> CLEAR)" by code_simp
  moreover have "\<not> (\<forall>j \<in> {5 - nat (2 + 1)..<5}. fst (?rs ! j) \<noteq> CLEAR)" by code_simp
  ultimately show ?thesis
    using retries_window [of 2 3 ?rs False] retries_window [of 2 5 ?rs False] by simp
qed

section \<open>Reporting to the monitored object\<close>

definition own :: "ptr \<Rightarrow> monel_state \<Rightarrow> monel_state \<Rightarrow> bool" where
  "own p st st' \<longleftrightarrow> p_Status (ms_heap st' p) = p_Status (ms_heap st p) \<and> m_Me (ms_heap st' p) = m_Me (ms_heap st p)"

lemma own_refl [simp]: "own p st st"
  by (simp add: own_def)

lemma own_trans [trans]: "own p a b \<Longrightarrow> own p b c \<Longrightarrow> own p a c"
  by (simp add: own_def)

lemma own_upd: "(\<And>m. p_Status (f m) = p_Status m \<and> m_Me (f m) = m_Me m) \<Longrightarrow> own p st (upd_m q f st)"
  by (simp add: own_def upd_m_def)

lemma own_same: "ms_heap st' = ms_heap st \<Longrightarrow> own p st st'"
  by (simp add: own_def)

lemma own_go [simp]: "own p st (go_task t st)"
  by (simp add: own_def go_task_def)

lemma service_children: "m_Me (ms_heap st p) = ServiceM \<Longrightarrow> me_Children p st = ([], st)"
  by (simp add: me_Children_def)

lemma depends_own: "own p st (depends_loop p names st)"
  by (induction p names st rule: depends_loop.induct) (auto intro!: own_upd simp: Let_def split: option.split)

lemma determineStatus_own:
  assumes "m_Me (ms_heap st p) = ServiceM" "determineStatus p st = Some (b, st')"
  shows "own p st st'"
proof -
  let ?a = "upd_m p (\<lambda>m. m\<lparr>p_OvStatus := p_Status m\<rparr>) st"
  have a: "determineAggrStatus p st = Some ?a" using assms(1) by (simp add: determineAggrStatus_def service_children)
  have "own p st ?a" by (rule own_upd) simp
  also have "own p ?a (checkDepends p ?a)" by (simp add: checkDepends_def depends_own)
  also have "own p (checkDepends p ?a) (checkOverride p (checkDepends p ?a))"
    by (auto simp: checkOverride_def Let_def intro!: own_upd)
  finally show ?thesis using assms(2) a by (simp add: determineStatus_def Let_def)
qed

lemma determineSummary_own: "m_Me (ms_heap st p) = ServiceM \<Longrightarrow> determineSummary p st = Some st' \<Longrightarrow> own p st st'"
  by (auto simp: determineSummary_def service_children Let_def intro!: own_upd split: bind_splits)

lemma statsTransition_own: "statsTransition env p st = Some st' \<Longrightarrow> own q st st'"
  by (auto simp: statsTransition_def Let_def split: bind_splits prod.splits intro!: own_upd)

lemma maybeNotify_own: "maybeNotify env p prev st = Some st' \<Longrightarrow> own q st st'"
  by (auto simp: maybeNotify_def own_def upd_m_def Let_def split: option.splits if_splits bind_splits prod.splits)

lemma updateNotifies_own: "own q st (updateNotifies p st)"
  by (auto simp: updateNotifies_def own_def Let_def)

lemma setAlarm_own: "own q st (upd_m p (setAlarm env) st)" "own q st (upd_m p (\<lambda>m. setAlarm env (m\<lparr>m_WebTime := t\<rparr>)) st)"
  by (rule own_upd, simp add: setAlarm_def Let_def)+

lemma loggit_own: "own q st (upd_m p (\<lambda>m. loggitL t tag (msg m) m) st)"
  by (rule own_upd) (simp add: loggitL_def appendToLog_def Let_def)

lemma andUpwards_own: "andUpwards p st = Some st' \<Longrightarrow> own q st st'"
  by (auto simp: andUpwards_def)

lemma commonUpdate_own:
  assumes "m_Me (ms_heap st p) = ServiceM" "commonUpdate env p prev st = Some st'"
  shows "own p st st'"
proof -
  let ?s1 = "upd_m p (\<lambda>m. setAlarm env (m\<lparr>m_WebTime := ev_nano env\<rparr>)) st"
  let ?s2 = "go_task (UpdateIsDown p (p_OvStatus (ms_heap ?s1 p))) ?s1"
  let ?s3 = "upd_m p (\<lambda>m. loggitL (ev_nano env) ''TRANSITION'' (p_Reason m) m) ?s2"
  obtain s4 s5 s6 where s: "statsTransition env p ?s3 = Some s4" "determineSummary p s4 = Some s5"
      "maybeNotify env p prev (updateNotifies p s5) = Some s6" "andUpwards p s6 = Some st'"
    using assms(2) by (auto simp: commonUpdate_def Let_def split: bind_splits)
  have "own p st ?s1" by (rule setAlarm_own)
  also have "own p ?s1 ?s2" by simp
  also have "own p ?s2 ?s3" by (rule loggit_own)
  also have "own p ?s3 s4" using s(1) by (rule statsTransition_own)
  finally have o4: "own p st s4" .
  then have "m_Me (ms_heap s4 p) = ServiceM" using assms(1) by (simp add: own_def)
  then have "own p s4 s5" using s(2) by (rule determineSummary_own)
  also have "own p s5 (updateNotifies p s5)" by (rule updateNotifies_own)
  also have "own p \<dots> s6" using s(3) by (rule maybeNotify_own)
  also have "own p s6 st'" using s(4) by (rule andUpwards_own)
  finally show ?thesis using o4 own_trans by blast
qed

lemma Update_reports:
  assumes "m_Me (ms_heap st p) = ServiceM" "monel_Update env p s result reason st = Some st'"
  shows "p_Status (ms_heap st' p) = s" "m_Me (ms_heap st' p) = ServiceM"
proof -
  let ?st1 = "upd_m p (\<lambda>m. m\<lparr>p_Result := result\<rparr>) st"
  let ?st2 = "upd_m p (\<lambda>m. m\<lparr>p_Status := s, p_Reason := reason\<rparr>) ?st1"
  obtain b st3 where u: "updateStatus p s result reason st = Some (b, st3)"
      "st' = st3 \<or> commonUpdate env p (p_OvStatus (ms_heap st p)) st3 = Some st'"
    using assms(2) by (auto simp: monel_Update_def Let_def split: bind_splits if_splits)
  have s3: "p_Status (ms_heap st3 p) = s \<and> m_Me (ms_heap st3 p) = ServiceM"
  proof (cases "s = p_Status (ms_heap st p)")
    case True
    then show ?thesis using u(1) assms(1) by (auto simp: updateStatus_def Let_def)
  next
    case False
    then have "determineStatus p ?st2 = Some (b, st3)" using u(1) by (simp add: updateStatus_def Let_def)
    then have "own p ?st2 st3" by (rule determineStatus_own [rotated]) (use assms(1) in simp)
    then show ?thesis using assms(1) by (simp add: own_def)
  qed
  then have "own p st3 st'" using u(2) commonUpdate_own by auto
  then show "p_Status (ms_heap st' p) = s" "m_Me (ms_heap st' p) = ServiceM" using s3 by (simp_all add: own_def)
qed

section \<open>A failing service goes down\<close>

text \<open>The service's own result decides: no peers take part.\<close>

definition local_only :: "service_state \<Rightarrow> sptr \<Rightarrow> bool" where
  "local_only st i \<longleftrightarrow> vc_DARP_Gravity (v_Cf (vs_svc st i)) = GRAV_SELF \<or> \<not> dp_iHaveSlaves (vs_darp st) \<or> \<not> dp_IsEnabled (vs_darp st)"

definition live :: "service_state \<Rightarrow> sptr \<Rightarrow> bool" where
  "live st i \<longleftrightarrow> wf_state (vs_monel st) \<and> v_mon (vs_svc st i) \<noteq> 0 \<and> m_Me (ms_heap (vs_monel st) (v_mon (vs_svc st i))) = ServiceM
     \<and> vc_Checking (v_Cf (vs_svc st i)) = None \<and> local_only st i"

definition reported :: "service_state \<Rightarrow> sptr \<Rightarrow> status" where
  "reported st i = p_Status (ms_heap (vs_monel st) (v_mon (vs_svc st i)))"

lemma SendUpdate_frame [simp]:
  "dp_iHaveSlaves (darp_SendUpdate o' s r x d) = dp_iHaveSlaves d" "dp_IsEnabled (darp_SendUpdate o' s r x d) = dp_IsEnabled d"
  "dp_MyId (darp_SendUpdate o' s r x d) = dp_MyId d"
  by (simp_all add: darp_SendUpdate_def TellMyMasters_def)

lemma SetResultFor_live:
  assumes "live st i" "status_ok s"
  obtains st' where "SetResultFor env i who s result reason st = Some st'" "live st' i" "reported st' i = s"
    "v_Tries (vs_svc st' i) = v_Tries (vs_svc st i)" "v_Cf (vs_svc st' i) = v_Cf (vs_svc st i)" "v_ready (vs_svc st' i) = v_ready (vs_svc st i)"
proof -
  note l = assms(1) [unfolded live_def]
  obtain m where m: "monel_Update (ve_monel env) (v_mon (vs_svc st i)) s result reason (vs_monel st) = Some m" "wf_state m"
    using monel_Update_wf [of "vs_monel st" "v_mon (vs_svc st i)" s] l assms(2) by blast
  have r: "p_Status (ms_heap m (v_mon (vs_svc st i))) = s" "m_Me (ms_heap m (v_mon (vs_svc st i))) = ServiceM"
    using Update_reports [OF _ m(1)] l by simp_all
  obtain st1 where st1: "setResultForL env i who s result reason st = Some (s, st1)"
      "vs_monel st1 = vs_monel st" "vs_darp st1 = vs_darp st" "v_mon (vs_svc st1 i) = v_mon (vs_svc st i)"
      "v_Cf (vs_svc st1 i) = v_Cf (vs_svc st i)" "v_Tries (vs_svc st1 i) = v_Tries (vs_svc st i)" "v_ready (vs_svc st1 i) = v_ready (vs_svc st i)"
    using l by (simp add: setResultForL_def AggrStatus_def local_only_def upd_p_def upd_s_def Let_def)
  show ?thesis
    by (rule that [of "st1\<lparr>vs_monel := m\<rparr>"])
      (use st1 m r l in \<open>simp_all add: SetResultFor_def live_def reported_def local_only_def\<close>)
qed

lemma SetResult_published:
  assumes "live st i" "status_ok s" "s = CLEAR \<or> vc_Retries (v_Cf (vs_svc st i)) < v_Tries (vs_svc st i)"
  obtains st' where "SetResult env i s result reason st = Some st'" "live st' i" "reported st' i = s"
    "v_Tries (vs_svc st' i) = (if s = CLEAR then 0 else v_Tries (vs_svc st i))" "v_Cf (vs_svc st' i) = v_Cf (vs_svc st i)"
    "v_ready (vs_svc st' i) = (s = CLEAR \<or> result \<noteq> [] \<or> v_ready (vs_svc st i))"
proof -
  let ?v = "vs_svc st i"
  let ?tries = "if s = CLEAR then 0 else v_Tries ?v"
  let ?ready = "s = CLEAR \<or> result \<noteq> [] \<or> v_ready ?v"
  let ?st1 = "upd_s i (\<lambda>s. s\<lparr>v_Tries := ?tries, v_ready := ?ready\<rparr>) st"
  let ?me = "dp_MyId (vs_darp st)"
  let ?reason = "if s = CLEAR then [] else reason"
  have chk: "checked_status env (v_Cf ?v) s = s" using assms(1) by (simp add: checked_status_def live_def)
  have gate: "retry_gate (vc_Retries (v_Cf ?v)) s result (v_Tries ?v, v_ready ?v) = (True, ?tries, ?ready)"
    using assms(3) by (auto simp: retry_gate_def)
  define st2 where "st2 = upd_p i (\<lambda>p. p\<lparr>vp_Result := result\<rparr>)
     (if s \<noteq> (case vp_Statuses (v_p ?v) ?me of None \<Rightarrow> UNKNOWN | Some x \<Rightarrow> x)
      then ?st1\<lparr>vs_darp := darp_SendUpdate (svc_Unique i ?st1) s result ?reason (vs_darp ?st1)\<rparr> else ?st1)"
  have eq: "SetResult env i s result reason st = SetResultFor env i ?me s result ?reason st2"
    unfolding SetResult_def Let_def chk gate st2_def by (simp add: upd_s_def)
  have l2: "live st2 i" using assms(1) by (simp add: st2_def live_def local_only_def upd_p_def upd_s_def)
  have f2: "v_Tries (vs_svc st2 i) = ?tries" "v_Cf (vs_svc st2 i) = v_Cf ?v" "v_ready (vs_svc st2 i) = ?ready"
    by (simp_all add: st2_def upd_p_def upd_s_def)
  from l2 assms(2) obtain st' where st': "SetResultFor env i ?me s result ?reason st2 = Some st'" "live st' i" "reported st' i = s"
      "v_Tries (vs_svc st' i) = v_Tries (vs_svc st2 i)" "v_Cf (vs_svc st' i) = v_Cf (vs_svc st2 i)" "v_ready (vs_svc st' i) = v_ready (vs_svc st2 i)"
    by (rule SetResultFor_live)
  show ?thesis by (rule that [of st']) (use st' f2 eq in simp_all)
qed

lemma SetResult_held:
  assumes "live st i" "s \<noteq> CLEAR" "v_Tries (vs_svc st i) \<le> vc_Retries (v_Cf (vs_svc st i))"
  obtains st' where "SetResult env i s result reason st = Some st'" "live st' i" "vs_monel st' = vs_monel st" "vs_darp st' = vs_darp st"
    "v_Tries (vs_svc st' i) = v_Tries (vs_svc st i) + 1" "v_Cf (vs_svc st' i) = v_Cf (vs_svc st i)" "reported st' i = reported st i"
proof -
  let ?v = "vs_svc st i"
  let ?ready = "if result \<noteq> [] then True else v_ready ?v"
  let ?st1 = "upd_s i (\<lambda>s. s\<lparr>v_Tries := v_Tries ?v + 1, v_ready := ?ready\<rparr>) st"
  have chk: "checked_status env (v_Cf ?v) s = s" using assms(1) by (simp add: checked_status_def live_def)
  have gate: "retry_gate (vc_Retries (v_Cf ?v)) s result (v_Tries ?v, v_ready ?v) = (False, v_Tries ?v + 1, ?ready)"
    using assms(2,3) by (simp add: retry_gate_def)
  have eq: "SetResult env i s result reason st = Some ?st1" unfolding SetResult_def Let_def chk gate by simp
  show ?thesis
    by (rule that [OF eq]) (use assms(1) in \<open>simp_all add: live_def local_only_def reported_def upd_s_def\<close>)
qed

type_synonym outcome = "service_env \<times> status \<times> string \<times> string"

fun run_results :: "sptr \<Rightarrow> outcome list \<Rightarrow> service_state \<Rightarrow> service_state option" where
  "run_results i [] st = Some st"
| "run_results i ((env, s, result, reason) # rs) st = SetResult env i s result reason st \<bind> run_results i rs"

definition failing :: "outcome \<Rightarrow> bool" where
  "failing x \<longleftrightarrow> (case x of (env, s, result, reason) \<Rightarrow> status_ok s \<and> s \<noteq> CLEAR)"

lemma run_results_append: "run_results i (xs @ ys) st = run_results i xs st \<bind> run_results i ys"
  by (induction i xs st rule: run_results.induct) (auto split: bind_splits)

lemma run_held:
  "live st i \<Longrightarrow> list_all failing rs \<Longrightarrow> v_Tries (vs_svc st i) + int (length rs) \<le> vc_Retries (v_Cf (vs_svc st i)) + 1 \<Longrightarrow>
   \<exists>st'. run_results i rs st = Some st' \<and> live st' i \<and> vs_monel st' = vs_monel st \<and> vs_darp st' = vs_darp st \<and> v_Cf (vs_svc st' i) = v_Cf (vs_svc st i)
     \<and> v_Tries (vs_svc st' i) = v_Tries (vs_svc st i) + int (length rs)"
proof (induction rs arbitrary: st)
  case (Cons x rs)
  obtain env s result reason where x: "x = (env, s, result, reason)" by (cases x)
  have s: "s \<noteq> CLEAR" "v_Tries (vs_svc st i) \<le> vc_Retries (v_Cf (vs_svc st i))" using Cons.prems(2,3) by (auto simp: x failing_def)
  from Cons.prems(1) s obtain st1 where st1: "SetResult env i s result reason st = Some st1" "live st1 i" "vs_monel st1 = vs_monel st"
      "vs_darp st1 = vs_darp st" "v_Tries (vs_svc st1 i) = v_Tries (vs_svc st i) + 1" "v_Cf (vs_svc st1 i) = v_Cf (vs_svc st i)"
    by (rule SetResult_held)
  have "\<exists>st'. run_results i rs st1 = Some st' \<and> live st' i \<and> vs_monel st' = vs_monel st1 \<and> vs_darp st' = vs_darp st1
      \<and> v_Cf (vs_svc st' i) = v_Cf (vs_svc st1 i) \<and> v_Tries (vs_svc st' i) = v_Tries (vs_svc st1 i) + int (length rs)"
    by (rule Cons.IH) (use Cons.prems st1 in simp_all)
  then show ?case using st1 by (auto simp: x)
qed simp

lemma run_published:
  "live st i \<Longrightarrow> list_all failing rs \<Longrightarrow> vc_Retries (v_Cf (vs_svc st i)) < v_Tries (vs_svc st i) \<Longrightarrow>
   \<exists>st'. run_results i rs st = Some st' \<and> live st' i \<and> v_Cf (vs_svc st' i) = v_Cf (vs_svc st i)
     \<and> reported st' i = (if rs = [] then reported st i else fst (snd (last rs)))"
proof (induction rs arbitrary: st)
  case (Cons x rs)
  obtain env s result reason where x: "x = (env, s, result, reason)" by (cases x)
  have s: "status_ok s" "s = CLEAR \<or> vc_Retries (v_Cf (vs_svc st i)) < v_Tries (vs_svc st i)" "s \<noteq> CLEAR"
    using Cons.prems(2,3) by (auto simp: x failing_def)
  from Cons.prems(1) s(1,2) obtain st1 where st1: "SetResult env i s result reason st = Some st1" "live st1 i" "reported st1 i = s"
      "v_Tries (vs_svc st1 i) = (if s = CLEAR then 0 else v_Tries (vs_svc st i))" "v_Cf (vs_svc st1 i) = v_Cf (vs_svc st i)"
    by (rule SetResult_published)
  have "\<exists>st'. run_results i rs st1 = Some st' \<and> live st' i \<and> v_Cf (vs_svc st' i) = v_Cf (vs_svc st1 i)
     \<and> reported st' i = (if rs = [] then reported st1 i else fst (snd (last rs)))"
    by (rule Cons.IH) (use Cons.prems st1 s(3) in simp_all)
  then show ?case using st1 by (auto simp: x)
qed simp

text \<open>C6: a service that keeps failing goes down, and no sooner. From a working service, failures (of
  any severities, at any times) that are at most \<open>Retries + 1\<close> change nothing outside the service:
  not the monitored objects, nor what the masters are told. One failure more and the monitored
  object has the severity of the last one; and after the first clear result, whenever it comes, the
  object is clear and the count of failures is back at zero. No step panics.\<close>

theorem failing_service_goes_down:
  assumes "live st i" "list_all failing rs" "v_Tries (vs_svc st i) = 0" "0 \<le> vc_Retries (v_Cf (vs_svc st i))"
  shows "\<exists>st'. run_results i rs st = Some st'
    \<and> (if int (length rs) \<le> vc_Retries (v_Cf (vs_svc st i)) + 1 then vs_monel st' = vs_monel st \<and> vs_darp st' = vs_darp st
        else reported st' i = fst (snd (last rs)))
    \<and> (\<forall>env result reason. \<exists>st''. SetResult env i CLEAR result reason st' = Some st''
          \<and> reported st'' i = CLEAR \<and> v_Tries (vs_svc st'' i) = 0)"
proof -
  let ?R = "vc_Retries (v_Cf (vs_svc st i))"
  let ?n = "nat (?R + 1)"
  have recover: "\<exists>st''. SetResult env i CLEAR result reason st' = Some st'' \<and> reported st'' i = CLEAR \<and> v_Tries (vs_svc st'' i) = 0"
    if "live st' i" for st' env result reason
  proof -
    have "status_ok CLEAR" by (simp add: status_ok_def)
    from that this obtain st'' where "SetResult env i CLEAR result reason st' = Some st''" "reported st'' i = CLEAR"
        "v_Tries (vs_svc st'' i) = (if CLEAR = CLEAR then 0 else v_Tries (vs_svc st' i))"
      by (rule SetResult_published) simp
    then show ?thesis by simp
  qed
  show ?thesis
  proof (cases "int (length rs) \<le> ?R + 1")
    case True
    then show ?thesis using run_held [OF assms(1,2)] assms(3) recover by fastforce
  next
    case False
    then have n: "?n < length rs" using assms(4) by simp
    have f: "list_all failing (take ?n rs)" "list_all failing (drop ?n rs)"
      using assms(2) by (auto simp: list_all_iff dest: in_set_takeD in_set_dropD)
    have "v_Tries (vs_svc st i) + int (length (take ?n rs)) \<le> ?R + 1" using n assms(3,4) by simp
    from run_held [OF assms(1) f(1) this] obtain st1 where
      st1: "run_results i (take ?n rs) st = Some st1" "live st1 i" "v_Cf (vs_svc st1 i) = v_Cf (vs_svc st i)"
        "v_Tries (vs_svc st1 i) = v_Tries (vs_svc st i) + int (length (take ?n rs))" by blast
    have "vc_Retries (v_Cf (vs_svc st1 i)) < v_Tries (vs_svc st1 i)" using st1(3,4) n assms(3,4) by simp
    from run_published [OF st1(2) f(2) this] obtain st2 where
      st2: "run_results i (drop ?n rs) st1 = Some st2" "live st2 i"
        "reported st2 i = (if drop ?n rs = [] then reported st1 i else fst (snd (last (drop ?n rs))))" by blast
    have "run_results i rs st = Some st2" using run_results_append [of i "take ?n rs" "drop ?n rs" st] st1(1) st2(1) by simp
    then show ?thesis using False st2(2,3) n recover by (auto simp: last_drop)
  qed
qed

definition witness_senv :: "int \<Rightarrow> service_env" where
  "witness_senv t = \<lparr>ve_monel = witness_menv t, ve_wall = \<lparr>w_dow = 0, w_hrs = 0, w_min = 0\<rparr>, ve_rand = 0, ve_hosts = [],
     ve_regex = (\<lambda>r. Some (\<lambda>v. if r = v then Some [v] else None)), ve_jsonpath = (\<lambda>_ v. v), ve_xpath = (\<lambda>_ v. v), ve_hwab = witness_math,
     ve_math = \<lparr>me_now = t, me_rand = fzero, me_sin = (\<lambda>x. x), me_tan = (\<lambda>x. x), me_cos = (\<lambda>x. x),
                me_log = (\<lambda>x. x), me_exp = (\<lambda>x. x), me_sqrt = (\<lambda>x. x), me_pow = (\<lambda>x y. x)\<rparr>,
     ve_demo = None\<rparr>"

definition witness_service :: service_state where
  "witness_service = \<lparr>vs_svc = (\<lambda>_. svc_blank\<lparr>v_mon := 3\<rparr>), vs_next = 1, vs_all = [''Top:a'' \<mapsto> 0], vs_monel = witness_live,
     vs_darp = darp_start, vs_check = [], vs_graph = []\<rparr>"

lemma witness_service_live: "live witness_service 0"
  by (simp add: live_def witness_service_def witness_live_wf local_only_def darp_start_def svc_blank_def service_defaults_def)
    (simp add: witness_live_def new_object_def monel_New_def empty_monel_def Let_def)

theorem failing_service_goes_down_witness:
  "\<exists>st'. run_results 0 [(witness_senv 2000, 5, [], ''timeout''), (witness_senv 2060, 5, [], ''timeout''),
        (witness_senv 2120, 4, ''12'', ''TEST more than max''), (witness_senv 2180, 5, [], ''timeout'')] witness_service = Some st' \<and> reported st' 0 = 5"
proof -
  have "v_Tries (vs_svc witness_service 0) = 0" "vc_Retries (v_Cf (vs_svc witness_service 0)) = 2"
    by (simp_all add: witness_service_def svc_blank_def service_defaults_def)
  then show ?thesis
    using failing_service_goes_down [OF witness_service_live, of "[(witness_senv 2000, 5, [], ''timeout''), (witness_senv 2060, 5, [], ''timeout''),
        (witness_senv 2120, 4, ''12'', ''TEST more than max''), (witness_senv 2180, 5, [], ''timeout'')]"]
    by (simp add: failing_def status_ok_def del: run_results.simps) blast
qed

section \<open>Comparing with the limits\<close>

text \<open>A limit of severity \<open>sev\<close> is set and the value breaks it.\<close>

definition violates :: "service_env \<Rightarrow> service_conf \<Rightarrow> hwab option \<Rightarrow> string \<Rightarrow> gofloat \<Rightarrow> status \<Rightarrow> bool" where
  "violates env cf hw val fval sev \<longleftrightarrow>
     (let k = nat sev; set = (\<lambda>x. x \<noteq> NaN) in
      vc_Expect cf ! k \<noteq> [] \<and> \<not> testMatch env (vc_Expect cf ! k) val
      \<or> vc_Nexpect cf ! k \<noteq> [] \<and> testMatch env (vc_Nexpect cf ! k) val
      \<or> fval < vc_Minvalue cf ! k
      \<or> vc_Maxvalue cf ! k < fval
      \<or> set (vc_Eqvalue cf ! k) \<and> \<not> feq fval (vc_Eqvalue cf ! k)
      \<or> feq fval (vc_Nevalue cf ! k)
      \<or> (\<exists>h dev. hw = Some h \<and> Deviation fval h = Some dev \<and> vc_Maxdeviation cf ! k < dev))"

lemma nan_compare [simp]: "\<not> flt NaN x" "\<not> flt x NaN" "\<not> feq NaN x" "\<not> feq x NaN"
  by (cases x; simp)+

lemma failed_test_iff: "failed_test env cf hw val fval sev \<noteq> None \<longleftrightarrow> violates env cf hw val fval sev"
  by (auto simp: failed_test_def violates_def Let_def is_nan_def less_gofloat_def split: option.splits)

lemma compare_none: "list_all (\<lambda>sev. sev = CLEAR \<or> failed_test env cf hw val fval sev = None) sevs \<Longrightarrow>
    compare_sevs env cf hw val fval sevs = (CLEAR, [])"
  by (induction sevs) auto

lemma compare_first:
  "list_all (\<lambda>sev. sev = CLEAR \<or> failed_test env cf hw val fval sev = None) xs \<Longrightarrow> sev \<noteq> CLEAR \<Longrightarrow> failed_test env cf hw val fval sev = Some r \<Longrightarrow>
   compare_sevs env cf hw val fval (xs @ sev # ys) = (if sev = UNKNOWN then vc_Severity cf else sev, r)"
  by (induction xs) auto

lemma sevs_split:
  assumes "UNKNOWN \<le> sev" "sev \<le> CRITICAL"
  shows "rev [UNKNOWN..CRITICAL] = rev [sev + 1..CRITICAL] @ sev # rev [UNKNOWN..sev - 1]"
proof -
  have "[UNKNOWN..CRITICAL] = [UNKNOWN..sev - 1] @ [sev..CRITICAL]" using assms by (simp add: upto_split1)
  also have "[sev..CRITICAL] = sev # [sev + 1..CRITICAL]" using assms(2) by (rule upto_rec1)
  finally show ?thesis by simp
qed

definition violated :: "service_env \<Rightarrow> service_conf \<Rightarrow> hwab option \<Rightarrow> string \<Rightarrow> gofloat \<Rightarrow> status set" where
  "violated env cf hw val fval = {sev. UNKNOWN \<le> sev \<and> sev \<le> CRITICAL \<and> sev \<noteq> CLEAR \<and> violates env cf hw val fval sev}"

text \<open>C26: the severity of a value is the highest one it violates. With no limit broken the value is
  clear; otherwise the highest severity with a broken limit is reported (limits without a severity
  count last and report the service's own). NaN breaks only equality and expectation limits, and
  unset limits break nothing.\<close>

theorem testAndCompare_highest:
  "fst (testAndCompare env cf hw val fval valtype) =
     (let (v, x) = both_values val fval valtype; bad = violated env cf hw v x in
      if bad = {} then CLEAR else if Max bad = UNKNOWN then vc_Severity cf else Max bad)"
proof -
  obtain v x where vx: "both_values val fval valtype = (v, x)" by force
  let ?bad = "violated env cf hw v x"
  have none: "failed_test env cf hw v x s = None \<longleftrightarrow> \<not> violates env cf hw v x s" for s
    using failed_test_iff [of env cf hw v x s] by blast
  have "fst (compare_sevs env cf hw v x (rev [UNKNOWN..CRITICAL])) =
      (if ?bad = {} then CLEAR else if Max ?bad = UNKNOWN then vc_Severity cf else Max ?bad)"
  proof (cases "?bad = {}")
    case True
    then have "list_all (\<lambda>s. s = CLEAR \<or> failed_test env cf hw v x s = None) (rev [UNKNOWN..CRITICAL])"
      using none by (auto simp: list_all_iff violated_def)
    then show ?thesis using True by (simp add: compare_none)
  next
    case False
    have fin: "finite ?bad" by (rule finite_subset [of _ "{UNKNOWN..CRITICAL}"]) (auto simp: violated_def)
    define sev where "sev = Max ?bad"
    have sev: "UNKNOWN \<le> sev" "sev \<le> CRITICAL" "sev \<noteq> CLEAR" "violates env cf hw v x sev"
      using Max_in [OF fin False] by (auto simp: violated_def sev_def)
    obtain r where r: "failed_test env cf hw v x sev = Some r" using none sev(4) by blast
    have "\<not> violates env cf hw v x s" if "sev < s" "s \<le> CRITICAL" "s \<noteq> CLEAR" for s
    proof
      assume "violates env cf hw v x s"
      then have "s \<in> ?bad" using that sev(1) by (simp add: violated_def)
      then show False using Max_ge [OF fin] that(1) by (auto simp: sev_def dest: leD)
    qed
    then have "list_all (\<lambda>s. s = CLEAR \<or> failed_test env cf hw v x s = None) (rev [sev + 1..CRITICAL])"
      using none by (auto simp: list_all_iff)
    from compare_first [OF this sev(3) r] show ?thesis
      unfolding sevs_split [OF sev(1,2)] using False by (simp add: sev_def)
  qed
  then show ?thesis by (simp add: testAndCompare_def vx)
qed

section \<open>Rates\<close>

text \<open>The readings of a 32-bit counter are integers below \<open>2 ^ 32\<close>; \<open>int64\<close> nanoseconds.\<close>

lemma f_int [simp]: "\<bar>i\<bar> < 2 ^ 53 \<Longrightarrow> f_of_int round64 i = Num (i < 0) (of_int \<bar>i\<bar>)"
  by (rule f_of_int_exact)

lemma sub_int:
  assumes "0 \<le> a" "a < 2 ^ 53" "0 \<le> b" "b < 2 ^ 53"
  shows "fsub round64 (Num False (of_int a)) (Num False (of_int b)) = Num (a < b) (of_int \<bar>a - b\<bar>)"
proof -
  have v: "(of_int a :: rat) - of_int b = of_int (a - b)" by simp
  show ?thesis
  proof (cases "a = b")
    case False
    have "\<bar>a - b\<bar> < 2 ^ 53" using assms by linarith
    then have r: "round64 s (of_int \<bar>a - b\<bar>) = Num s (of_int \<bar>a - b\<bar>)" for s by (intro round64_int) simp_all
    show ?thesis using False r by (auto simp: fsub_def num_val_def round_signed_def Let_def simp flip: of_int_diff of_int_abs)
  qed (simp add: fsub_def num_val_def)
qed

lemma int_less [simp]: "flt (Num False (of_int a)) (Num False (of_int b)) \<longleftrightarrow> a < b"
  by (simp add: num_val_def)

lemma round64_ge_1: "1 \<le> q \<Longrightarrow> \<not> flt (round64 False q) (Num False 1)"
proof -
  assume "1 \<le> q"
  then have "rmag 53 (- 1074) 1 \<le> rmag 53 (- 1074) q" by (intro rmag_mono) simp_all
  moreover have "rmag 53 (- 1074) (of_int 1) = of_int 1" by (rule rmag_int) simp_all
  ultimately show ?thesis by (simp add: round64_def fround_def Let_def num_val_def)
qed

definition elapsed_dt :: "int \<Rightarrow> gofloat" where
  "elapsed_dt ns = fdiv round64 (f_of_int round64 ns) (f_of_int round64 1000000000)"

lemma elapsed_dt_ge:
  assumes "1000000000 \<le> ns" "ns < 2 ^ 53"
  shows "\<not> flt (elapsed_dt ns) (f_of_int round64 1)" "fnn (elapsed_dt ns)" "\<not> feq (elapsed_dt ns) fzero"
proof -
  have e: "elapsed_dt ns = round64 False (of_int ns / 1000000000)"
    using assms by (simp add: elapsed_dt_def)
  have q: "(1 :: rat) \<le> of_int ns / 1000000000" using assms(1) by simp
  show l: "\<not> flt (elapsed_dt ns) (f_of_int round64 1)" using round64_ge_1 [OF q] by (simp add: e)
  show "fnn (elapsed_dt ns)" by (simp add: e round64_fnn)
  show "\<not> feq (elapsed_dt ns) fzero" using l by (cases "elapsed_dt ns") (auto simp: fzero_def num_val_def)
qed

text \<open>No increase is mistaken for a spike: \<open>Lastdv\<close> has already been set to the increase itself.\<close>

lemma spike_never:
  assumes "0 \<le> d" "d < 2 ^ 40"
  shows "\<not> flt (fmul round64 (f_of_int round64 100) (Num False (of_int d))) (Num False (of_int d))"
proof -
  have v: "(100 :: rat) * of_int d = of_int (100 * d)" by simp
  have "100 * d < 2 ^ 53" using assms by simp
  then have "fmul round64 (f_of_int round64 100) (Num False (of_int d)) = Num False (of_int (100 * d))"
    using assms(1) round64_int [of "100 * d" False] by (simp flip: v)
  then show ?thesis using assms(1) by (simp add: num_val_def)
qed

text \<open>C29: the rate of a 32-bit counter, spikes apart. For two readings \<open>a\<close> and \<open>b\<close> of such a counter, a
  second or more apart: an increase counts exactly; a decrease from below \<open>2 ^ 31 - 1\<close> is taken for a
  restart and gives no value; a decrease from above is taken for a wrap and counts what was missing to
  \<open>2 ^ 32\<close> (the new reading is left out). As a rate the increase is divided by the seconds. The value
  is never negative, and the next reading is compared with this one and its time. The theorem is about
  increases of at most a hundred times the previous increase \<open>e\<close> (any, when that is 0): the code
  means to suppress the others, and does not (\<open>spike_counted\<close>).\<close>

theorem counter_rate:
  assumes "0 \<le> a" "a < 2 ^ 32" "0 \<le> b" "b < 2 ^ 32" "va_Lastv c = Num False (of_int a)" "va_Lastt c \<noteq> 0"
    "1000000000 \<le> now - va_Lastt c" "now - va_Lastt c < 2 ^ 53"
    and "d = (if a \<le> b then b - a else 2 ^ 32 - a)" "va_Lastdv c = Num False (of_int e)" "e = 0 \<or> d \<le> 100 * e"
  shows "fst (rateCalc cm now (Num False (of_int b)) c) =
      (if b < a \<and> a < 2 ^ 31 - 1 then None
       else Some (if has_calc cm CALC_RATE then fdiv round64 (Num False (of_int d)) (elapsed_dt (now - va_Lastt c)) else Num False (of_int d)))
    \<and> (case fst (rateCalc cm now (Num False (of_int b)) c) of None \<Rightarrow> True | Some r \<Rightarrow> fnn r)
    \<and> va_Lastv (snd (rateCalc cm now (Num False (of_int b)) c)) = Num False (of_int b)
    \<and> va_Lastt (snd (rateCalc cm now (Num False (of_int b)) c)) = now"
proof -
  note dt = elapsed_dt_ge [OF assms(7,8)]
  let ?l = "Num False (of_int a :: rat)" and ?f = "Num False (of_int b :: rat)"
  have up: "fsub round64 ?f ?l = Num False (of_int (b - a))" if "a \<le> b"
    using sub_int [of b a] assms(1-4) that by simp
  have "fsub round64 (f_of_int round64 4294967295) ?l = Num False (of_int (4294967295 - a))"
    using sub_int [of 4294967295 a] assms(1,2) by simp
  moreover have "fadd round64 (Num False (of_int (4294967295 - a))) (f_of_int round64 1) = Num False (of_int (2 ^ 32 - a))"
  proof -
    have v: "(of_int (4294967295 - a) :: rat) + 1 = of_int (2 ^ 32 - a)" by simp
    have "round64 False (of_int (2 ^ 32 - a)) = Num False (of_int (2 ^ 32 - a))" using assms(1,2) by (intro round64_int) simp_all
    moreover have "(0 :: rat) < of_int (2 ^ 32 - a)" using assms(2) by simp
    ultimately show ?thesis unfolding f_int [of 1, simplified] fadd.simps num_val_def if_False v
      using v by (simp add: round_signed_def Let_def num_val_def)
  qed
  ultimately have wrap: "fadd round64 (fsub round64 (f_of_int round64 4294967295) ?l) (f_of_int round64 1) = Num False (of_int (2 ^ 32 - a))"
    by simp
  have ne: "feq (Num False (of_int d)) fzero \<longleftrightarrow> d = 0" for d by (simp add: fzero_def num_val_def)
  have spike: "\<not> flt (fmul round64 (f_of_int round64 100) (Num False (of_int d))) (Num False (of_int d))" if "0 \<le> d" "d \<le> 2 ^ 32" for d
    using spike_never [of d] that by simp
  have l31: "flt ?l (f_of_int round64 2147483647) \<longleftrightarrow> a < 2 ^ 31 - 1"
    using int_less [of a 2147483647] by simp
  have fl: "flt ?f ?l \<longleftrightarrow> b < a" by (rule int_less)
  have first: "fst (rateCalc cm now ?f c) =
      (if b < a \<and> a < 2 ^ 31 - 1 then None
       else Some (if has_calc cm CALC_RATE then fdiv round64 (Num False (of_int d)) (elapsed_dt (now - va_Lastt c)) else Num False (of_int d)))"
    unfolding rateCalc_def elapsed_dt_def [symmetric] Let_def assms(5,9)
    using dt(1) assms(1-4,6) up wrap spike [of "b - a"] spike [of "2 ^ 32 - a"] fl l31 by (auto simp del: of_int_diff)
  have after: "va_Lastv (snd (rateCalc cm now ?f c)) = ?f" "va_Lastt (snd (rateCalc cm now ?f c)) = now"
    unfolding rateCalc_def elapsed_dt_def [symmetric] Let_def using dt(1) assms(6) by simp_all
  have "0 \<le> d" using assms(2,9) by simp
  then have "fnn (if has_calc cm CALC_RATE then fdiv round64 (Num False (of_int d)) (elapsed_dt (now - va_Lastt c)) else Num False (of_int d))"
    using dt(2,3) by (auto intro!: fnn_div)
  with first after show ?thesis by simp
qed

text \<open>An increase of any size counts, whatever the previous one was.\<close>

lemma spike_counted:
  assumes "0 \<le> b" "b < 2 ^ 32" "va_Lastv c = Num False 0" "va_Lastt c \<noteq> 0" "1000000000 \<le> now - va_Lastt c" "now - va_Lastt c < 2 ^ 53"
  shows "fst (rateCalc CALC_DELTA now (Num False (of_int b)) c) = Some (Num False (of_int b))"
proof -
  note dt = elapsed_dt_ge [OF assms(5,6)]
  have l: "flt (Num False (of_int b)) (Num False (of_int 0)) \<longleftrightarrow> b < 0" by (rule int_less)
  have "fsub round64 (Num False (of_int b)) (Num False (of_int 0)) = Num False (of_int (b - 0))"
    using sub_int [of b 0] assms(1,2) by simp
  then show ?thesis
    unfolding rateCalc_def elapsed_dt_def [symmetric] Let_def assms(3)
    using dt(1) assms(1,2,4) l spike_never [of b] by (auto simp: has_calc_def)
qed

theorem counter_rate_witness:
  "fst (rateCalc CALC_DELTA 5000000000 (Num False (of_int 7)) \<lparr>va_rawvalue = [], va_Lastv = Num False (of_int 4294967290), va_Lastdv = Num False (of_int 2), va_Lastt = 1000, va_Lastta = 0, va_Ave = fzero\<rparr>)
     = Some (Num False 6)"
  using counter_rate [of 4294967290 7 "\<lparr>va_rawvalue = [], va_Lastv = Num False (of_int 4294967290), va_Lastdv = Num False (of_int 2), va_Lastt = 1000, va_Lastta = 0, va_Ave = fzero\<rparr>" 5000000000 6 2 CALC_DELTA]
  by (simp add: has_calc_def)

text \<open>Jitter is never computed: the name is compared after the text has become lower case.\<close>

lemma lower_no_J: "CHR ''J'' \<notin> set (to_lower s)"
proof -
  have "lower_char x \<noteq> CHR ''J''" for x
  proof
    assume "lower_char x = CHR ''J''"
    then have "of_char (lower_char x) = (74 :: nat)" by simp
    then show False by (auto simp: lower_char_def Let_def split: if_splits)
  qed
  then show ?thesis unfolding to_lower_def set_map image_iff by metis
qed

lemma go_fields_chars: "w \<in> set (go_fields s) \<Longrightarrow> set w \<subseteq> set s"
proof (induction s rule: go_fields.induct)
  case (1 s)
  let ?t = "dropWhile is_space s"
  show ?case
  proof (cases "?t = []")
    case True
    then show ?thesis using 1 by (subst (asm) (2) go_fields.simps) simp
  next
    case False
    then have "w = takeWhile (\<lambda>c. \<not> is_space c) ?t \<or> w \<in> set (go_fields (dropWhile (\<lambda>c. \<not> is_space c) ?t))"
      using 1(2) by (subst (asm) go_fields.simps) (auto simp: Let_def split: if_splits)
    then show ?thesis using 1(1) [OF refl False] by (auto dest!: set_takeWhileD set_dropWhileD)
  qed
qed

lemma calcMask_no_jitter: "\<not> has_calc (calcMask s) CALC_JITTER"
proof -
  let ?ws = "go_fields (map (\<lambda>x. if x = CHR ''-'' then CHR '' '' else x) (to_lower s))"
  have w: "w \<noteq> ''JITTER''" if "w \<in> set ?ws" for w using go_fields_chars [OF that] lower_no_J [of s] by auto
  have bit: "and (calc_bit w) CALC_JITTER = 0" if "w \<noteq> ''JITTER''" for w using that by (simp add: calc_bit_def)
  have "and (foldl (\<lambda>cm w. or cm (calc_bit w)) m ws) CALC_JITTER = and m CALC_JITTER" if "\<forall>w \<in> set ws. w \<noteq> ''JITTER''" for m ws
    using that by (induction ws arbitrary: m) (simp_all add: bit and.left_commute bit.conj_disj_distrib2)
  then show ?thesis using w by (simp add: has_calc_def calcMask_def)
qed

section \<open>Errors\<close>

text \<open>An error in a service's expression is reported at once. When the expression has no value,
  whatever was measured, the service fails with its own severity and the reason \<open>invalid expr\<close>
  immediately: the retries do not delay it, no matter how many tries were left, and the service is
  not ready.\<close>

theorem invalid_expr_reported:
  assumes "select_value env (v_Cf (vs_svc st i)) val valtype = Some (v, x, ty)"
    "v_expr (vs_svc st i) \<noteq> []" "vc_Expr (v_Cf (vs_svc st i)) \<noteq> []"
    "convert_value env i (if ty = [] then x else Sscan_float v x)
        (upd_s i (\<lambda>s. s\<lparr>v_Elapsed := nano env - v_Started s\<rparr>) (upd_calc i (\<lambda>c. c\<lparr>va_rawvalue := val\<rparr>) st)) = (Some y, st1)"
    "doExpr env i y st1 = Some (None, st2)"
    "live st2 i" "status_ok (vc_Severity (v_Cf (vs_svc st2 i)))" "vc_Severity (v_Cf (vs_svc st2 i)) \<noteq> CLEAR"
  shows "\<exists>st'. CheckValue env i val valtype st = Some st' \<and> reported st' i = vc_Severity (v_Cf (vs_svc st2 i))
    \<and> \<not> v_ready (vs_svc st' i)"
proof -
  let ?sev = "vc_Severity (v_Cf (vs_svc st2 i))"
  define st0 where "st0 = upd_s i (\<lambda>s. s\<lparr>v_Elapsed := nano env - v_Started s\<rparr>) (upd_calc i (\<lambda>c. c\<lparr>va_rawvalue := val\<rparr>) st)"
  have cf: "v_Cf (vs_svc st0 i) = v_Cf (vs_svc st i)" "v_expr (vs_svc st0 i) = v_expr (vs_svc st i)"
    by (simp_all add: st0_def upd_s_def upd_calc_def upd_p_def)
  note conv = assms(4) [folded st0_def]
  have get: "getValue env i val valtype st0 = map_option (Pair None) (FailNow env i ''invalid expr'' st2)"
    unfolding getValue_def Let_def cf assms(1) Option.bind.simps prod.case
    using assms(2,3,5) conv by (cases "ty = []"; cases "FailNow env i ''invalid expr'' st2") simp_all
  have check: "CheckValue env i val valtype st = FailNow env i ''invalid expr'' st2"
    unfolding CheckValue_def Let_def st0_def [symmetric] get
    by (cases "FailNow env i ''invalid expr'' st2") simp_all
  define st3 where "st3 = upd_s i (\<lambda>s. s\<lparr>v_ready := False\<rparr>) (upd_s i (\<lambda>s. s\<lparr>v_ready := False, v_Tries := vc_Retries (v_Cf s) + 1\<rparr>) st2)"
  have fail: "FailNow env i ''invalid expr'' st2 = SetResult env i ?sev [] ''invalid expr'' st3"
    by (simp add: FailNow_def svc_Fail_def upd_s_def st3_def)
  have l3: "live st3 i" using assms(6) by (simp add: live_def local_only_def upd_s_def st3_def)
  have t3: "?sev = CLEAR \<or> vc_Retries (v_Cf (vs_svc st3 i)) < v_Tries (vs_svc st3 i)" "\<not> v_ready (vs_svc st3 i)"
    by (simp_all add: upd_s_def st3_def)
  from l3 assms(7) t3(1) obtain st' where st': "SetResult env i ?sev [] ''invalid expr'' st3 = Some st'" "reported st' i = ?sev"
      "v_ready (vs_svc st' i) = (?sev = CLEAR \<or> [] \<noteq> ([] :: string) \<or> v_ready (vs_svc st3 i))"
    by (rule SetResult_published)
  show ?thesis unfolding check fail using st' t3(2) assms(8) by simp
qed

definition witness_expr :: service_state where
  "witness_expr = upd_s 0 (\<lambda>s. s\<lparr>v_expr := [''x'', ''foo'', ''+''], v_Cf := (v_Cf s)\<lparr>vc_Expr := ''x + foo''\<rparr>\<rparr>) witness_service"

definition witness_measured :: service_state where
  "witness_measured = upd_s 0 (\<lambda>s. s\<lparr>v_Elapsed := nano (witness_senv 2000) - v_Started s\<rparr>)
     (upd_calc 0 (\<lambda>c. c\<lparr>va_rawvalue := ''12''\<rparr>) witness_expr)"

lemma witness_measured:
  "vs_monel witness_measured = witness_live" "v_expr (vs_svc witness_measured 0) = [''x'', ''foo'', ''+'']"
  "v_Cf (vs_svc witness_measured 0) = service_defaults\<lparr>vc_Expr := ''x + foo''\<rparr>" "v_calcmask (vs_svc witness_measured 0) = 0"
  "v_Cf (vs_svc witness_expr 0) = service_defaults\<lparr>vc_Expr := ''x + foo''\<rparr>" "v_expr (vs_svc witness_expr 0) = [''x'', ''foo'', ''+'']"
  by (simp_all add: witness_measured_def witness_expr_def upd_calc_def upd_p_def upd_s_def witness_service_def svc_blank_def)

lemma witness_measured_live: "live witness_measured 0"
  using witness_service_live
  by (simp add: witness_measured_def live_def local_only_def upd_s_def upd_calc_def upd_p_def witness_expr_def)

theorem invalid_expr_reported_witness:
  "\<exists>st'. CheckValue (witness_senv 2000) 0 ''12'' ''data'' witness_expr = Some st' \<and> reported st' 0 = CRITICAL \<and> \<not> v_ready (vs_svc st' 0)"
proof -
  let ?env = "witness_senv 2000"
  define st1 where "st1 = upd_calc 0 (\<lambda>_. vp_Calc (v_p (vs_svc witness_measured 0))) witness_measured"
  have st1: "vs_monel st1 = witness_live" "v_expr (vs_svc st1 0) = [''x'', ''foo'', ''+'']" "v_Cf (vs_svc st1 0) = service_defaults\<lparr>vc_Expr := ''x + foo''\<rparr>"
    by (simp_all add: st1_def upd_calc_def upd_p_def upd_s_def witness_measured)
  have l: "live st1 0"
    using witness_measured_live by (simp add: st1_def live_def local_only_def upd_s_def upd_calc_def upd_p_def)
  have conv: "convert_value ?env 0 v witness_measured = (Some v, st1)" for v
    by (simp add: convert_value_def Let_def witness_measured st1_def service_defaults_def has_calc_def fzero_def num_val_def)
  have ops: "expr_ops ''x'' = None" "expr_ops ''foo'' = None" "has_prefix ''foo'' ''Top'' = False" "ParseFloat ''foo'' = None" "ParseFloat [] = None"
    by code_simp+
  have expr: "doExpr ?env 0 v st1 = Some (None, st1)" for v
  proof -
    have "RunExprF (ve_math ?env) [''x'', ''foo'', ''+''] dat witness_live = Some (None, witness_live)" if "dat ''foo'' = None" for dat
      using that by (simp add: RunExprF_def RunExpr_def ops binary_ops run_fop_def es_popf_def es_pop_def expr_value_def)
    then show ?thesis by (simp add: doExpr_def Let_def st1 flip: st1(1))
  qed
  have sel: "select_value ?env (v_Cf (vs_svc witness_expr 0)) ''12'' ''data'' = Some (''12'', fzero, ''data'')"
    by (simp add: witness_measured select_value_def service_defaults_def)
  have cf2: "vc_Severity (v_Cf (vs_svc st1 0)) = CRITICAL" by (simp add: st1(3) service_defaults_def)
  have "\<exists>st'. CheckValue ?env 0 ''12'' ''data'' witness_expr = Some st'
      \<and> reported st' 0 = vc_Severity (v_Cf (vs_svc st1 0)) \<and> \<not> v_ready (vs_svc st' 0)"
    by (rule invalid_expr_reported [OF sel _ _ conv [unfolded witness_measured_def] expr l])
      (simp_all add: witness_measured cf2 status_ok_def)
  then show ?thesis unfolding cf2 .
qed

section \<open>The list for a peer\<close>

definition first_parent :: "monel_state \<Rightarrow> ptr \<Rightarrow> ptr \<Rightarrow> bool" where
  "first_parent m p q \<longleftrightarrow> (\<exists>qs. m_Parent (ms_heap m p) = q # qs)"

text \<open>A set of objects closed under first parents, none nil, with unique names, each below its parent's
  name as \<open>whoami\<close> makes it.\<close>

definition named_tree :: "monel_state \<Rightarrow> ptr set \<Rightarrow> bool" where
  "named_tree m L \<longleftrightarrow> 0 \<notin> L \<and> inj_on (Unique m) L
     \<and> (\<forall>p \<in> L. \<forall>q. first_parent m p q \<longrightarrow> q \<in> L \<and> (\<exists>n. Unique m p = Unique m q @ CHR '':'' # n))"

lemma named_treeD:
  assumes "named_tree m L" "p \<in> L"
  shows "p \<noteq> 0" "first_parent m p q \<Longrightarrow> q \<in> L" "first_parent m p q \<Longrightarrow> length (Unique m q) < length (Unique m p)"
    "q \<in> L \<Longrightarrow> Unique m q = Unique m p \<Longrightarrow> q = p"
proof -
  show "p \<noteq> 0" "first_parent m p q \<Longrightarrow> q \<in> L" using assms unfolding named_tree_def by metis+
  show "q \<in> L \<Longrightarrow> Unique m q = Unique m p \<Longrightarrow> q = p" using assms by (simp add: named_tree_def inj_on_def)
  assume "first_parent m p q"
  then obtain n where "Unique m p = Unique m q @ CHR '':'' # n" using assms unfolding named_tree_def by blast
  then show "length (Unique m q) < length (Unique m p)" by simp
qed

lemma ancestors_in:
  assumes "named_tree m L" "(first_parent m)\<^sup>*\<^sup>* p q" "p \<in> L"
  shows "q \<in> L \<and> length (Unique m q) \<le> length (Unique m p)"
  using assms(2)
proof (induction rule: rtranclp_induct)
  case (step y z)
  then show ?case using named_treeD(2,3) [OF assms(1), of y z] by linarith
qed (simp add: assms(3))

definition closed_but :: "monel_state \<Rightarrow> ptr set \<Rightarrow> string set \<Rightarrow> ptr \<Rightarrow> bool" where
  "closed_but m L all p \<longleftrightarrow> (\<forall>x \<in> L. \<forall>q. x \<noteq> p \<longrightarrow> Unique m x \<in> all \<longrightarrow> first_parent m x q \<longrightarrow> Unique m q \<in> all)"

definition closed_names :: "monel_state \<Rightarrow> ptr set \<Rightarrow> string set \<Rightarrow> bool" where
  "closed_names m L all \<longleftrightarrow> (\<forall>x \<in> L. \<forall>q. Unique m x \<in> all \<longrightarrow> first_parent m x q \<longrightarrow> Unique m q \<in> all)"

definition ancestors :: "monel_state \<Rightarrow> ptr \<Rightarrow> string set" where
  "ancestors m p = Unique m ` {q. (first_parent m)\<^sup>*\<^sup>* p q}"

lemma ancestors_unfold:
  assumes q: "first_parent m p q"
  shows "ancestors m p = insert (Unique m p) (ancestors m q)"
proof -
  have only: "q' = q" if "first_parent m p q'" for q' using that q unfolding first_parent_def by auto
  have "(first_parent m)\<^sup>*\<^sup>* p x \<longleftrightarrow> x = p \<or> (first_parent m)\<^sup>*\<^sup>* q x" for x
  proof
    assume "(first_parent m)\<^sup>*\<^sup>* p x"
    then show "x = p \<or> (first_parent m)\<^sup>*\<^sup>* q x" by (rule converse_rtranclpE) (use only in blast)+
  qed (use converse_rtranclp_into_rtranclp [of "first_parent m", OF q] in blast)
  then have "{x. (first_parent m)\<^sup>*\<^sup>* p x} = insert p {x. (first_parent m)\<^sup>*\<^sup>* q x}" by blast
  then show ?thesis by (simp add: ancestors_def)
qed

lemma ancestors_root:
  assumes "m_Parent (ms_heap m p) = []"
  shows "ancestors m p = {Unique m p}"
proof -
  have no: "\<not> first_parent m p q" for q using assms by (simp add: first_parent_def)
  have "x = p" if "(first_parent m)\<^sup>*\<^sup>* p x" for x
    using that by (rule converse_rtranclpE) (use no in blast)+
  then have "{q. (first_parent m)\<^sup>*\<^sup>* p q} = {p}" by blast
  then show ?thesis by (simp add: ancestors_def)
qed

lemma closed_ancestors:
  assumes "named_tree m L" "closed_but m L all p" "q \<in> L" "Unique m q \<in> all" "length (Unique m q) < length (Unique m p)"
  shows "ancestors m q \<subseteq> all"
proof -
  have "Unique m x \<in> all" if "(first_parent m)\<^sup>*\<^sup>* q x" for x
    using that
  proof (induction rule: rtranclp_induct)
    case (step x y)
    have "x \<in> L" "length (Unique m x) \<le> length (Unique m q)" using ancestors_in [OF assms(1) step(1) assms(3)] by simp_all
    then show ?case using assms(2,5) step by (auto simp: closed_but_def)
  qed (rule assms(4))
  then show ?thesis by (auto simp: ancestors_def)
qed

lemma gatherParents_steps:
  "m_Parent (ms_heap m p) = [] \<Longrightarrow> gatherParents m all p = Some all"
  "m_Parent (ms_heap m p) = q # qs \<Longrightarrow> q \<noteq> 0 \<Longrightarrow> Unique m q \<in> all \<Longrightarrow> gatherParents m all p = Some all"
  "m_Parent (ms_heap m p) = q # qs \<Longrightarrow> q \<noteq> 0 \<Longrightarrow> Unique m q \<notin> all \<Longrightarrow> gatherParents m all p = gatherParents m (insert (Unique m q) all) q"
  by (subst gatherParents.simps, simp)+

lemma closed_stop:
  assumes "closed_but m L all p" "\<And>q. first_parent m p q \<Longrightarrow> Unique m q \<in> all"
  shows "closed_names m L all"
  unfolding closed_names_def
proof (intro ballI allI impI)
  fix x q assume "x \<in> L" "Unique m x \<in> all" "first_parent m x q"
  then show "Unique m q \<in> all" using assms by (cases "x = p") (auto simp: closed_but_def)
qed

lemma closed_go:
  assumes "named_tree m L" "closed_but m L all p" "first_parent m p q" "q \<in> L"
  shows "closed_but m L (insert (Unique m q) all) q"
  unfolding closed_but_def
proof (intro ballI allI impI)
  fix x y assume x: "x \<in> L" "x \<noteq> q" "Unique m x \<in> insert (Unique m q) all" "first_parent m x y"
  then have in_all: "Unique m x \<in> all" using named_treeD(4) [OF assms(1,4) x(1)] by blast
  show "Unique m y \<in> insert (Unique m q) all"
  proof (cases "x = p")
    case True
    then have "y = q" using x(4) assms(3) by (auto simp: first_parent_def)
    then show ?thesis by simp
  next
    case False
    then show ?thesis using x(1,4) in_all assms(2) unfolding closed_but_def by blast
  qed
qed

lemma gatherParents_all:
  "named_tree m L \<Longrightarrow> p \<in> L \<Longrightarrow> closed_but m L all p \<Longrightarrow> Unique m p \<in> all \<Longrightarrow> finite all \<Longrightarrow>
   gatherParents m all p = Some (all \<union> ancestors m p) \<and> closed_names m L (all \<union> ancestors m p) \<and> finite (all \<union> ancestors m p)"
proof (induction "length (Unique m p)" arbitrary: p all rule: less_induct)
  case less
  note tree = less.prems(1) and p = less.prems(2) and cl = less.prems(3)
  show ?case
  proof (cases "m_Parent (ms_heap m p)")
    case Nil
    have "all \<union> ancestors m p = all" using ancestors_root [OF Nil] less.prems(4) by (simp add: insert_absorb)
    moreover have "closed_names m L all" by (rule closed_stop [OF cl]) (simp add: first_parent_def Nil)
    ultimately show ?thesis using gatherParents_steps(1) [OF Nil] less.prems(5) by simp
  next
    case (Cons q qs)
    then have fp: "first_parent m p q" by (simp add: first_parent_def)
    have q: "q \<in> L" "length (Unique m q) < length (Unique m p)"
      by (rule named_treeD(2) [OF tree p fp], rule named_treeD(3) [OF tree p fp])
    have q0: "q \<noteq> 0" by (rule named_treeD(1) [OF tree q(1)])
    show ?thesis
    proof (cases "Unique m q \<in> all")
      case True
      have "ancestors m q \<subseteq> all" by (rule closed_ancestors [OF tree cl q(1) True q(2)])
      then have "all \<union> ancestors m p = all" using ancestors_unfold [OF fp] less.prems(4) by (simp add: insert_absorb Un_absorb2)
      moreover have "closed_names m L all" by (rule closed_stop [OF cl]) (use True Cons in \<open>simp add: first_parent_def\<close>)
      ultimately show ?thesis using gatherParents_steps(2) [OF Cons q0 True] less.prems(5) by simp
    next
      case False
      let ?all = "insert (Unique m q) all"
      have r: "gatherParents m ?all q = Some (?all \<union> ancestors m q) \<and> closed_names m L (?all \<union> ancestors m q) \<and> finite (?all \<union> ancestors m q)"
        by (rule less.hyps [OF q(2) tree q(1) closed_go [OF tree cl fp q(1)]]) (simp_all add: less.prems(5))
      have "Unique m q \<in> ancestors m q" by (auto simp: ancestors_def)
      then have eq: "?all \<union> ancestors m q = all \<union> ancestors m p" using ancestors_unfold [OF fp] less.prems(4) by (simp add: insert_absorb)
      show ?thesis unfolding gatherParents_steps(3) [OF Cons q0 False] by (rule r [unfolded eq])
    qed
  qed
qed

definition wanted :: "service_state \<Rightarrow> string \<Rightarrow> string \<Rightarrow> string set" where
  "wanted st tag uid =
     (case vs_all st uid of
        None \<Rightarrow> {}
      | Some i \<Rightarrow> if IncludesTag (vc_DARP_Tags (v_Cf (vs_svc st i))) tag True then ancestors (vs_monel st) (v_mon (vs_svc st i)) else {})"

definition registered :: "service_state \<Rightarrow> ptr set \<Rightarrow> bool" where
  "registered st L \<longleftrightarrow> (\<forall>uid i. vs_all st uid = Some i \<longrightarrow> v_mon (vs_svc st i) \<in> L \<and> svc_Unique i st = uid)"

lemma gather_all_spec:
  "named_tree (vs_monel st) L \<Longrightarrow> registered st L \<Longrightarrow> closed_names (vs_monel st) L all \<Longrightarrow> finite all \<Longrightarrow>
   gather_all st tag uids all = Some (all \<union> (\<Union>uid \<in> set uids. wanted st tag uid))
     \<and> closed_names (vs_monel st) L (all \<union> (\<Union>uid \<in> set uids. wanted st tag uid)) \<and> finite (all \<union> (\<Union>uid \<in> set uids. wanted st tag uid))"
proof (induction uids arbitrary: all)
  case (Cons uid uids)
  let ?m = "vs_monel st"
  show ?case
  proof (cases "\<exists>i. vs_all st uid = Some i \<and> IncludesTag (vc_DARP_Tags (v_Cf (vs_svc st i))) tag True")
    case True
    then obtain i where i: "vs_all st uid = Some i" "IncludesTag (vc_DARP_Tags (v_Cf (vs_svc st i))) tag True" by blast
    let ?p = "v_mon (vs_svc st i)"
    have p: "?p \<in> L" "Unique ?m ?p = uid" using Cons.prems(2) i(1) by (auto simp: registered_def svc_Unique_def)
    have "closed_but ?m L (insert uid all) ?p"
      using Cons.prems(3) named_treeD(4) [OF Cons.prems(1) p(1)] p(2) by (auto simp: closed_but_def closed_names_def)
    from gatherParents_all [OF Cons.prems(1) p(1) this] Cons.prems(4) p(2)
    have g: "gatherParents ?m (insert uid all) ?p = Some (insert uid all \<union> ancestors ?m ?p)"
        "closed_names ?m L (insert uid all \<union> ancestors ?m ?p)" "finite (insert uid all \<union> ancestors ?m ?p)" by simp_all
    have "uid \<in> ancestors ?m ?p" using p(2) by (auto simp: ancestors_def)
    then have eq: "insert uid all \<union> ancestors ?m ?p = all \<union> wanted st tag uid" using i by (auto simp: wanted_def)
    note g = g [unfolded eq]
    have "gather_all st tag (uid # uids) all = gather_all st tag uids (all \<union> wanted st tag uid)"
      using i g(1) by simp
    then show ?thesis
      using Cons.IH [OF Cons.prems(1,2) g(2,3)] by (simp only: Un_assoc UN_insert list.set)
  next
    case False
    then have "wanted st tag uid = {}" by (auto simp: wanted_def split: option.split)
    moreover have "gather_all st tag (uid # uids) all = gather_all st tag uids all" using False by (auto split: option.split)
    ultimately show ?thesis using Cons.IH [OF Cons.prems] by simp
  qed
qed simp

lemma parent_sorts_first: "(u :: string) < u @ c # n"
  unfolding list_less_def by (rule lexord_append_rightI) simp

text \<open>C30: a peer that asks for its configuration gets what it needs, in an order it can build. Whatever
  the order in which the services are visited, the list holds exactly the services with the peer's
  tag and all of their ancestors, each once and sorted; so the parent of every object of the list
  is in the list, before the object.\<close>

theorem darp_list_complete:
  assumes "named_tree (vs_monel st) L" "registered st L" "set uids = dom (vs_all st)"
  shows "\<exists>xs. darp_list uids tag st = Some xs \<and> sorted_wrt (<) xs
    \<and> set xs = (\<Union>uid. wanted st tag uid)
    \<and> (\<forall>p \<in> L. \<forall>q. Unique (vs_monel st) p \<in> set xs \<longrightarrow> first_parent (vs_monel st) p q \<longrightarrow>
          Unique (vs_monel st) q \<in> set xs \<and> Unique (vs_monel st) q < Unique (vs_monel st) p)"
proof -
  let ?W = "\<Union>uid \<in> set uids. wanted st tag uid"
  have "closed_names (vs_monel st) L {}" by (simp add: closed_names_def)
  from gather_all_spec [OF assms(1,2) this, of tag uids]
  have g: "gather_all st tag uids {} = Some ?W" "closed_names (vs_monel st) L ?W" "finite ?W" by simp_all
  have "wanted st tag uid = {}" if "uid \<notin> set uids" for uid using that assms(3) by (auto simp: wanted_def dom_def split: option.split)
  then have all: "?W = (\<Union>uid. wanted st tag uid)" by blast
  let ?xs = "sorted_list_of_set ?W"
  have xs: "darp_list uids tag st = Some ?xs" "set ?xs = ?W" "sorted_wrt (<) ?xs" using g by (simp_all add: darp_list_def)
  have "Unique (vs_monel st) q < Unique (vs_monel st) p" if "p \<in> L" "first_parent (vs_monel st) p q" for p q
    using that assms(1) parent_sorts_first by (auto simp: named_tree_def) (metis parent_sorts_first)
  then show ?thesis
    using xs g(2) all by (intro exI [of _ ?xs]) (auto simp: closed_names_def)
qed

definition witness_names :: monel_state where
  "witness_names = witness_live\<lparr>ms_heap := (\<lambda>q. (blank_object)\<lparr>m_Parent := (if q = 2 \<or> q = 3 then [1] else []),
     m_Cf := monel_defaults\<lparr>mc_Unique := (if q = 1 then ''Top'' else if q = 2 then ''Top:b'' else ''Top:a'')\<rparr>\<rparr>)\<rparr>"

theorem darp_list_complete_witness:
  "\<exists>xs. darp_list [''Top:b'', ''Top:a''] ''east'' (witness_service\<lparr>vs_monel := witness_names, vs_all := [''Top:a'' \<mapsto> 3, ''Top:b'' \<mapsto> 2],
      vs_svc := (\<lambda>i. svc_blank\<lparr>v_mon := i, v_Cf := service_defaults\<lparr>vc_DARP_Tags := ''east west''\<rparr>\<rparr>)\<rparr>) = Some xs
    \<and> sorted_wrt (<) xs"
proof -
  let ?st = "witness_service\<lparr>vs_monel := witness_names, vs_all := [''Top:a'' \<mapsto> 3, ''Top:b'' \<mapsto> 2],
      vs_svc := (\<lambda>i. svc_blank\<lparr>v_mon := i, v_Cf := service_defaults\<lparr>vc_DARP_Tags := ''east west''\<rparr>\<rparr>)\<rparr>"
  have u: "Unique witness_names q = (if q = 1 then ''Top'' else if q = 2 then ''Top:b'' else ''Top:a'')" for q
    by (simp add: witness_names_def Unique_def)
  have f: "first_parent witness_names p q \<longleftrightarrow> (p = 2 \<or> p = 3) \<and> q = 1" for p q
    by (auto simp: witness_names_def first_parent_def)
  have "named_tree (vs_monel ?st) {1, 2, 3}" by (auto simp: named_tree_def inj_on_def u f)
  moreover have "registered ?st {1, 2, 3}" by (auto simp: registered_def svc_Unique_def u split: if_splits)
  moreover have "set [''Top:b'', ''Top:a''] = dom (vs_all ?st)" by auto
  ultimately show ?thesis using darp_list_complete [of ?st "{1, 2, 3}" "[''Top:b'', ''Top:a'']" "''east''"] by blast
qed

text \<open>A peer can report a status that does not exist: where the peers' statuses are combined, the
  index is out of range.\<close>

lemma bad_status_panics:
  "darp_CalcAggrStatus GRAV_UP CLEAR [''east'' \<mapsto> 99] [(''east'', True)] = None"
  by code_simp

end
