(* ===== verification/Reader.thy ===== *)
theory Reader
  imports Configure Api "HOL-Library.List_Lexorder" "HOL-Library.Char_ord"
begin

text \<open>
  Reading configuration files (\<open>src/argus/construct/reader.go\<close>): the files of a directory or one
  file, nested \<open>include\<close>s, continued lines, comments and escapes.

  Open files are pointers: \<open>include\<close> puts the current file on the stack of open files twice,
  and both entries share one position. The file system is the argument \<open>fsys\<close>; the output of an
  executable file is its contents. Messages about files that cannot be opened are left out.
  \<^const>\<open>None\<close> is a panic, or a chain of includes that never ends.
\<close>

section \<open>State\<close>

record fsys =
  fs_dir :: "string \<Rightarrow> string list option"   \<comment> \<open>the names in a directory\<close>
  fs_read :: "string \<Rightarrow> string option"

type_synonym fptr = nat

record openfile =
  of_in :: string
  of_file :: string
  of_line :: int

record files =
  fi_curr :: "fptr option"
  fi_basedir :: string
  fi_files :: "string list"
  fi_opens :: "fptr list"           \<comment> \<open>the last one opened first\<close>
  fi_allfiles :: "string list"
  fi_ungot :: string
  fi_heap :: "fptr \<Rightarrow> openfile"
  fi_next :: fptr

definition path_of :: "string \<Rightarrow> string \<Rightarrow> string option" where
  "path_of base file =
     (case file of [] \<Rightarrow> None | c # _ \<Rightarrow> Some (if c \<noteq> CHR ''/'' \<and> base \<noteq> [] then base @ ''/'' @ file else file))"

definition openFile :: "fsys \<Rightarrow> string \<Rightarrow> files \<Rightarrow> (bool \<times> files) option" where
  "openFile fs file f =
     map_option (\<lambda>pathname.
       case fs_read fs pathname of
         None \<Rightarrow> (False, f)
       | Some content \<Rightarrow>
           let p = fi_next f in
           (True, f\<lparr>fi_heap := (fi_heap f)(p := \<lparr>of_in = content, of_file = file, of_line = 0\<rparr>), fi_next := Suc p,
                    fi_opens := (case fi_curr f of None \<Rightarrow> fi_opens f | Some c \<Rightarrow> c # fi_opens f),
                    fi_allfiles := fi_allfiles f @ [pathname], fi_curr := Some p\<rparr>))
       (path_of (fi_basedir f) file)"

lemma openFile_False: "openFile fs file f = Some (False, f') \<Longrightarrow> f' = f"
  by (auto simp: openFile_def Let_def split: option.splits)

function nextFile :: "fsys \<Rightarrow> files \<Rightarrow> (bool \<times> files) option" where
  "nextFile fs f =
     (let f = f\<lparr>fi_curr := None\<rparr> in
      case fi_opens f of
        p # ps \<Rightarrow> Some (True, f\<lparr>fi_curr := Some p, fi_opens := ps\<rparr>)
      | [] \<Rightarrow>
          (case fi_files f of
             [] \<Rightarrow> Some (False, f)
           | file # rest \<Rightarrow>
               (case openFile fs file (f\<lparr>fi_files := rest\<rparr>) of
                  None \<Rightarrow> None
                | Some (True, f) \<Rightarrow> Some (True, f)
                | Some (False, f) \<Rightarrow> nextFile fs f)))"
  by pat_completeness auto
termination by (relation "measure (\<lambda>(fs, f). length (fi_files f))") (auto dest!: openFile_False)

declare nextFile.simps [simp del]

section \<open>Lines\<close>

text \<open>Two hexadecimal digits, as \<open>ParseInt(s, 16, 32)\<close> reads them; 0 after an error.\<close>

definition hex_byte :: "char \<Rightarrow> char \<Rightarrow> char" where
  "hex_byte a b =
     (case (unhex a, unhex b) of
        (Some x, Some y) \<Rightarrow> char_of (16 * x + y)
      | (None, Some y) \<Rightarrow>
          if a = CHR ''+'' then char_of y
          else if a = CHR ''-'' then char_of (256 - y) else CHR 0x00
      | _ \<Rightarrow> CHR 0x00)"

definition blank :: "char \<Rightarrow> bool" where
  "blank c \<longleftrightarrow> c = CHR '' '' \<or> c = CHR 0x09"

text \<open>\<open>buf\<close> is what has been kept.\<close>

function clean_loop :: "string \<Rightarrow> string \<Rightarrow> string" where
  "clean_loop buf [] = buf"
| "clean_loop buf (c # l) =
     (if blank c \<and> buf = [] then clean_loop buf l
      else if c = CHR 0x5C \<and> l \<noteq> [] then
        (let d = hd l; l = tl l in
         if d = CHR ''n'' then clean_loop (buf @ [CHR 0x0A]) l
         else if d = CHR ''r'' then clean_loop (buf @ [CHR 0x0D]) l
         else if d = CHR ''t'' then clean_loop (buf @ [CHR 0x09]) l
         else if d = CHR ''#'' then clean_loop (buf @ [CHR ''#'']) l
         else if d = CHR ''&'' then clean_loop buf l
         else if d = CHR ''x'' then
           (if length l > 2 then clean_loop (buf @ [hex_byte (l ! 0) (l ! 1)]) (drop 2 l)
            else clean_loop (buf @ [CHR 0x00]) l)
         else clean_loop (buf @ [c, d]) l)
      else if c = CHR ''#'' then buf
      else clean_loop (buf @ [c]) l)"
  by pat_completeness auto
termination by (relation "measure (\<lambda>(buf, l). length l)") auto

declare clean_loop.simps [simp del]

definition cleanLine :: "string \<Rightarrow> string" where
  "cleanLine l = trim_right (\<lambda>c. c \<in> {CHR '' '', CHR 0x09, CHR 0x0A, CHR 0x0D}) (clean_loop [] l)"

text \<open>Leading blanks of a continuation; of nothing but blanks the last one stays.\<close>

definition join_trim :: "string \<Rightarrow> string" where
  "join_trim b = (if list_all blank b then [last b] else dropWhile blank b)"

definition includeFileName :: "string \<Rightarrow> string option" where
  "includeFileName l =
     (case (index_of (\<lambda>c. c = CHR 0x22) l, last_index_of (\<lambda>c. c = CHR 0x22) l) of
        (Some a, Some b) \<Rightarrow> go_slice l (int a + 1) (int b)
      | _ \<Rightarrow> Some [])"

text \<open>The current file goes onto the stack here and again in \<open>openFile\<close>.\<close>

definition fi_include :: "fsys \<Rightarrow> string \<Rightarrow> files \<Rightarrow> files option" where
  "fi_include fs file f =
     (if file = [] then Some f
      else map_option snd (openFile fs file (f\<lparr>fi_opens := (case fi_curr f of None \<Rightarrow> fi_opens f | Some c \<Rightarrow> c # fi_opens f)\<rparr>)))"

text \<open>\<open>a\<close> is the line so far.\<close>

partial_function (option) next_loop :: "fsys \<Rightarrow> string \<Rightarrow> files \<Rightarrow> (string option \<times> files) option" where
  "next_loop fs a f =
     (case fi_curr f of
        None \<Rightarrow> None
      | Some p \<Rightarrow>
          (case read_line (of_in (fi_heap f p)) of
             None \<Rightarrow>
               (case nextFile fs f of
                  None \<Rightarrow> None
                | Some (ok, f) \<Rightarrow> if ok then next_loop fs a f else Some (None, f))
           | Some (b, rest) \<Rightarrow>
               let f = f\<lparr>fi_heap := (fi_heap f)(p := (fi_heap f p)\<lparr>of_in := rest, of_line := of_line (fi_heap f p) + 1\<rparr>)\<rparr> in
               if b = [] then next_loop fs a f
               else
                 let a = a @ (if a \<noteq> [] then join_trim b else b) in
                 if last a = CHR 0x5C then next_loop fs (butlast a) f
                 else
                   let l = cleanLine a in
                   if l = [] then next_loop fs [] f
                   else if has_prefix l ''include '' then
                     (case includeFileName l of
                        None \<Rightarrow> None
                      | Some file \<Rightarrow> (case fi_include fs file f of None \<Rightarrow> None | Some f \<Rightarrow> next_loop fs [] f))
                   else Some (Some l, f)))"

definition NextLine :: "fsys \<Rightarrow> files \<Rightarrow> (string option \<times> files) option" where
  "NextLine fs f =
     (if fi_ungot f \<noteq> [] then Some (Some (fi_ungot f), f\<lparr>fi_ungot := []\<rparr>)
      else if fi_curr f = None then Some (None, f)
      else next_loop fs [] f)"

definition UnGetLine :: "string \<Rightarrow> files \<Rightarrow> files" where
  "UnGetLine l f = f\<lparr>fi_ungot := l\<rparr>"

section \<open>Files\<close>

definition config_name :: "string \<Rightarrow> bool" where
  "config_name d \<longleftrightarrow> \<not> (d = [] \<or> hd d = CHR ''.'' \<or> hd d = CHR ''#'' \<or> d = ''CVS'' \<or> has_suffix d ''.bkp'')"

definition filesInDir :: "string list \<Rightarrow> string list" where
  "filesInDir all = sort (filter config_name all)"

definition NewReader :: "fsys \<Rightarrow> string \<Rightarrow> files option" where
  "NewReader fs file =
     (let f = \<lparr>fi_curr = None, fi_basedir = [], fi_files = [], fi_opens = [], fi_allfiles = [], fi_ungot = [],
               fi_heap = (\<lambda>_. \<lparr>of_in = [], of_file = [], of_line = 0\<rparr>), fi_next = 0\<rparr>;
          f = (case fs_dir fs file of
                 Some all \<Rightarrow> f\<lparr>fi_basedir := file, fi_files := filesInDir all\<rparr>
               | None \<Rightarrow>
                   f\<lparr>fi_basedir := (case last_index_of (\<lambda>c. c = CHR ''/'') file of None \<Rightarrow> [] | Some sl \<Rightarrow> take sl file),
                     fi_files := [file]\<rparr>)
      in map_option snd (nextFile fs f))"

definition CurrFile :: "files \<Rightarrow> string" where
  "CurrFile f =
     (case fi_curr f of
        Some p \<Rightarrow> of_file (fi_heap f p)
      | None \<Rightarrow> (case fi_files f of file # _ \<Rightarrow> file | [] \<Rightarrow> []))"

definition CurrLine :: "files \<Rightarrow> int" where
  "CurrLine f = (case fi_curr f of None \<Rightarrow> 0 | Some p \<Rightarrow> of_line (fi_heap f p))"

end
