(* ===== verification/ReaderFacts.thy ===== *)
theory ReaderFacts
  imports Reader
begin

text \<open>
  The lines that a reader gives are those of its files with every include replaced by the lines
  of the file it names. The specification \<open>expands\<close> is a big-step semantics of a file; the
  reader's stack of shared open files implements it.
\<close>

section \<open>The lines of a file\<close>

definition joined :: "string \<Rightarrow> string \<Rightarrow> string" where
  "joined a b = a @ (if a \<noteq> [] then join_trim b else b)"

text \<open>\<open>expands fs base a s ls\<close>: the file contents \<open>s\<close>, after the unfinished line \<open>a\<close>, are the lines \<open>ls\<close>. A file
  that ends in an unfinished line, and one that includes itself, have no expansion.\<close>

inductive expands :: "fsys \<Rightarrow> string \<Rightarrow> string \<Rightarrow> string \<Rightarrow> string list \<Rightarrow> bool" for fs base where
  EOF: "read_line s = None \<Longrightarrow> expands fs base [] s []"
| Blank: "read_line s = Some ([], rest) \<Longrightarrow> expands fs base a rest ls \<Longrightarrow> expands fs base a s ls"
| Continued: "read_line s = Some (b, rest) \<Longrightarrow> b \<noteq> [] \<Longrightarrow> last (joined a b) = CHR 0x5C \<Longrightarrow>
    expands fs base (butlast (joined a b)) rest ls \<Longrightarrow> expands fs base a s ls"
| Comment: "read_line s = Some (b, rest) \<Longrightarrow> b \<noteq> [] \<Longrightarrow> last (joined a b) \<noteq> CHR 0x5C \<Longrightarrow> cleanLine (joined a b) = [] \<Longrightarrow>
    expands fs base [] rest ls \<Longrightarrow> expands fs base a s ls"
| Line: "read_line s = Some (b, rest) \<Longrightarrow> b \<noteq> [] \<Longrightarrow> last (joined a b) \<noteq> CHR 0x5C \<Longrightarrow> cleanLine (joined a b) = l \<Longrightarrow> l \<noteq> [] \<Longrightarrow>
    \<not> has_prefix l ''include '' \<Longrightarrow> expands fs base [] rest ls \<Longrightarrow> expands fs base a s (l # ls)"
| NoInclude: "read_line s = Some (b, rest) \<Longrightarrow> b \<noteq> [] \<Longrightarrow> last (joined a b) \<noteq> CHR 0x5C \<Longrightarrow> cleanLine (joined a b) = l \<Longrightarrow>
    has_prefix l ''include '' \<Longrightarrow> includeFileName l = Some [] \<Longrightarrow> expands fs base [] rest ls \<Longrightarrow> expands fs base a s ls"
| Unreadable: "read_line s = Some (b, rest) \<Longrightarrow> b \<noteq> [] \<Longrightarrow> last (joined a b) \<noteq> CHR 0x5C \<Longrightarrow> cleanLine (joined a b) = l \<Longrightarrow>
    has_prefix l ''include '' \<Longrightarrow> includeFileName l = Some file \<Longrightarrow> path_of base file = Some path \<Longrightarrow> fs_read fs path = None \<Longrightarrow>
    expands fs base [] rest ls \<Longrightarrow> expands fs base a s ls"
| Include: "read_line s = Some (b, rest) \<Longrightarrow> b \<noteq> [] \<Longrightarrow> last (joined a b) \<noteq> CHR 0x5C \<Longrightarrow> cleanLine (joined a b) = l \<Longrightarrow>
    has_prefix l ''include '' \<Longrightarrow> includeFileName l = Some file \<Longrightarrow> path_of base file = Some path \<Longrightarrow> fs_read fs path = Some c \<Longrightarrow>
    expands fs base [] c ls1 \<Longrightarrow> expands fs base [] rest ls2 \<Longrightarrow> expands fs base a s (ls1 @ ls2)"

text \<open>A list of files, the unreadable ones skipped.\<close>

inductive expand_files :: "fsys \<Rightarrow> string \<Rightarrow> string list \<Rightarrow> string list \<Rightarrow> bool" for fs base where
  Done: "expand_files fs base [] []"
| Skip: "path_of base file = Some path \<Longrightarrow> fs_read fs path = None \<Longrightarrow> expand_files fs base rest ls \<Longrightarrow>
    expand_files fs base (file # rest) ls"
| File: "path_of base file = Some path \<Longrightarrow> fs_read fs path = Some c \<Longrightarrow> expands fs base [] c ls1 \<Longrightarrow>
    expand_files fs base rest ls2 \<Longrightarrow> expand_files fs base (file # rest) (ls1 @ ls2)"

section \<open>What a reader supplies\<close>

fun supplies :: "fsys \<Rightarrow> files \<Rightarrow> string list \<Rightarrow> bool" where
  "supplies fs f [] \<longleftrightarrow> (\<exists>f'. NextLine fs f = Some (None, f') \<and> fi_curr f' = None \<and> fi_ungot f' = [])"
| "supplies fs f (l # ls) \<longleftrightarrow> (\<exists>f'. NextLine fs f = Some (Some l, f') \<and> fi_ungot f' = [] \<and> supplies fs f' ls)"

fun reads :: "fsys \<Rightarrow> string \<Rightarrow> files \<Rightarrow> string list \<Rightarrow> bool" where
  "reads fs a f [] \<longleftrightarrow> (\<exists>f'. next_loop fs a f = Some (None, f') \<and> fi_curr f' = None \<and> fi_ungot f' = [])"
| "reads fs a f (l # ls) \<longleftrightarrow> (\<exists>f'. next_loop fs a f = Some (Some l, f') \<and> fi_ungot f' = [] \<and> fi_curr f' \<noteq> None \<and> reads fs [] f' ls)"

lemma reads_supplies: "reads fs [] f ls \<Longrightarrow> fi_curr f \<noteq> None \<Longrightarrow> fi_ungot f = [] \<Longrightarrow> supplies fs f ls"
  by (induction ls arbitrary: f) (auto simp: NextLine_def)

lemma reads_same: "next_loop fs a f = next_loop fs a' f' \<Longrightarrow> reads fs a f ls = reads fs a' f' ls"
  by (cases ls) simp_all

text \<open>Putting a line back.\<close>

lemma supplies_unget: "l \<noteq> [] \<Longrightarrow> fi_ungot f = [] \<Longrightarrow> supplies fs f ls \<Longrightarrow> supplies fs (UnGetLine l f) (l # ls)"
proof -
  assume a: "l \<noteq> []" "fi_ungot f = []" "supplies fs f ls"
  then have "f\<lparr>fi_ungot := []\<rparr> = f" by (cases f) simp
  then have "supplies fs (f\<lparr>fi_ungot := []\<rparr>) ls" using a(3) by (rule ssubst)
  with a(1) show ?thesis by (simp add: NextLine_def UnGetLine_def)
qed

section \<open>The stack of open files\<close>

definition advance :: "fptr \<Rightarrow> string \<Rightarrow> files \<Rightarrow> files" where
  "advance p rest f = f\<lparr>fi_heap := (fi_heap f)(p := (fi_heap f p)\<lparr>of_in := rest, of_line := of_line (fi_heap f p) + 1\<rparr>)\<rparr>"

text \<open>The file \<open>p\<close> has been read to its end; everything older is as it was.\<close>

definition finished :: "files \<Rightarrow> files \<Rightarrow> fptr \<Rightarrow> bool" where
  "finished f f' p \<longleftrightarrow> fi_curr f' = Some p \<and> of_in (fi_heap f' p) = [] \<and> fi_opens f' = fi_opens f \<and> fi_files f' = fi_files f
     \<and> fi_basedir f' = fi_basedir f \<and> fi_ungot f' = [] \<and> fi_next f \<le> fi_next f'
     \<and> (\<forall>q < fi_next f. q \<noteq> p \<longrightarrow> of_in (fi_heap f' q) = of_in (fi_heap f q))"

definition reading :: "string \<Rightarrow> string \<Rightarrow> fptr \<Rightarrow> files \<Rightarrow> bool" where
  "reading base s p f \<longleftrightarrow> fi_curr f = Some p \<and> of_in (fi_heap f p) = s \<and> p < fi_next f \<and> fi_basedir f = base \<and> fi_ungot f = []"

lemma read_line_end: "read_line s = None \<longleftrightarrow> s = []"
  by (auto simp: read_line_def Let_def)

lemma read_line_Nil [simp]: "read_line [] = None"
  by (simp add: read_line_end)

lemma loop_step:
  assumes "reading base s p f" "read_line s = Some (b, rest)"
  shows "next_loop fs a f =
     (let f = advance p rest f in
      if b = [] then next_loop fs a f
      else
        let a = joined a b in
        if last a = CHR 0x5C then next_loop fs (butlast a) f
        else
          let l = cleanLine a in
          if l = [] then next_loop fs [] f
          else if has_prefix l ''include '' then
            (case includeFileName l of
               None \<Rightarrow> None
             | Some file \<Rightarrow> (case fi_include fs file f of None \<Rightarrow> None | Some f \<Rightarrow> next_loop fs [] f))
          else Some (Some l, f))"
  using assms by (subst next_loop.simps) (simp add: reading_def advance_def joined_def Let_def)

lemma advance_reading: "reading base s p f \<Longrightarrow> reading base rest p (advance p rest f)"
  by (simp add: reading_def advance_def)

lemma advance_finished: "finished (advance p rest f) f' p \<Longrightarrow> finished f f' p"
  by (simp add: finished_def advance_def)

lemma loop_pop:
  assumes "fi_curr f = Some q" "of_in (fi_heap f q) = []" "fi_opens f = p # ps"
  shows "next_loop fs a f = next_loop fs a (f\<lparr>fi_curr := Some p, fi_opens := ps\<rparr>)"
proof -
  have "read_line (of_in (fi_heap f q)) = None" using assms(2) by (simp add: read_line_end)
  moreover have "nextFile fs f = Some (True, f\<lparr>fi_curr := Some p, fi_opens := ps\<rparr>)"
    using assms(3) by (subst nextFile.simps) simp
  ultimately show ?thesis using assms(1) by (subst next_loop.simps) simp
qed

text \<open>Under a duplicate entry of the same file, the file still ends once.\<close>

lemma finished_twice:
  assumes "finished (f\<lparr>fi_opens := p # fi_opens f\<rparr>) f' p" "\<And>f'. finished f f' p \<Longrightarrow> reads fs [] f' k"
  shows "reads fs [] f' k"
proof -
  let ?f = "f'\<lparr>fi_curr := Some p, fi_opens := fi_opens f\<rparr>"
  have "finished f ?f p" using assms(1) by (simp add: finished_def)
  then have "reads fs [] ?f k" by (rule assms(2))
  moreover have "next_loop fs [] f' = next_loop fs [] ?f"
    by (rule loop_pop [where q = p]) (use assms(1) in \<open>simp_all add: finished_def\<close>)
  ultimately show ?thesis using reads_same by blast
qed

lemma clean_include: "has_prefix l ''include '' \<Longrightarrow> l \<noteq> []"
  by (auto simp: has_prefix_def)

lemma reads_expansion:
  "expands fs base a s ls \<Longrightarrow> reading base s p f \<Longrightarrow> (\<And>f'. finished f f' p \<Longrightarrow> reads fs [] f' k) \<Longrightarrow> reads fs a f (ls @ k)"
proof (induction arbitrary: p f k rule: expands.induct)
  case (EOF s)
  have "finished f f p" using EOF.prems(1) EOF.hyps by (simp add: finished_def reading_def read_line_end)
  then show ?case using EOF.prems(2) by simp
next
  case (Blank s rest a ls)
  have "reads fs a (advance p rest f) (ls @ k)"
    by (rule Blank.IH [OF advance_reading [OF Blank.prems(1)]]) (rule Blank.prems(2) [OF advance_finished])
  then show ?case by (subst reads_same [where f' = "advance p rest f"]) (simp_all add: loop_step [OF Blank.prems(1) Blank.hyps(1)])
next
  case (Continued s b rest a ls)
  have "reads fs (butlast (joined a b)) (advance p rest f) (ls @ k)"
    by (rule Continued.IH [OF advance_reading [OF Continued.prems(1)]]) (rule Continued.prems(2) [OF advance_finished])
  then show ?case using Continued.hyps(2,3)
    by (subst reads_same [where f' = "advance p rest f" and a' = "butlast (joined a b)"])
      (simp_all add: loop_step [OF Continued.prems(1) Continued.hyps(1)])
next
  case (Comment s b rest a ls)
  have "reads fs [] (advance p rest f) (ls @ k)"
    by (rule Comment.IH [OF advance_reading [OF Comment.prems(1)]]) (rule Comment.prems(2) [OF advance_finished])
  then show ?case using Comment.hyps(2-4)
    by (subst reads_same [where f' = "advance p rest f" and a' = "[]"])
      (simp_all add: loop_step [OF Comment.prems(1) Comment.hyps(1)])
next
  case (Line s b rest a l ls)
  have "reads fs [] (advance p rest f) (ls @ k)"
    by (rule Line.IH [OF advance_reading [OF Line.prems(1)]]) (rule Line.prems(2) [OF advance_finished])
  moreover have "next_loop fs a f = Some (Some l, advance p rest f)"
    using Line.hyps by (simp add: loop_step [OF Line.prems(1) Line.hyps(1)])
  moreover have "fi_ungot (advance p rest f) = []" "fi_curr (advance p rest f) \<noteq> None"
    using advance_reading [OF Line.prems(1)] by (simp_all add: reading_def)
  ultimately show ?case by simp
next
  case (NoInclude s b rest a l ls)
  have "reads fs [] (advance p rest f) (ls @ k)"
    by (rule NoInclude.IH [OF advance_reading [OF NoInclude.prems(1)]]) (rule NoInclude.prems(2) [OF advance_finished])
  then show ?case using NoInclude.hyps(2-6) clean_include [OF NoInclude.hyps(5)]
    by (subst reads_same [where f' = "advance p rest f" and a' = "[]"])
      (simp_all add: loop_step [OF NoInclude.prems(1) NoInclude.hyps(1)] fi_include_def)
next
  case (Unreadable s b rest a l fn path ls)
  let ?f1 = "advance p rest f"
  let ?f2 = "?f1\<lparr>fi_opens := p # fi_opens ?f1\<rparr>"
  have r1: "reading base rest p ?f1" by (rule advance_reading [OF Unreadable.prems(1)])
  then have "reading base rest p ?f2" by (simp add: reading_def)
  then have "reads fs [] ?f2 (ls @ k)"
    by (rule Unreadable.IH) (rule finished_twice, assumption, rule Unreadable.prems(2) [OF advance_finished])
  moreover have "next_loop fs a f = next_loop fs [] ?f2"
  proof (cases "fn = []")
    case True
    then show ?thesis using Unreadable.hyps(7) by (simp add: path_of_def)
  next
    case False
    then have "fi_include fs fn ?f1 = Some ?f2"
      using r1 Unreadable.hyps(7,8) by (simp add: fi_include_def reading_def openFile_def)
    then show ?thesis using Unreadable.hyps(2-6) clean_include [OF Unreadable.hyps(5)]
      by (simp add: loop_step [OF Unreadable.prems(1) Unreadable.hyps(1)])
  qed
  ultimately show ?case using reads_same by blast
next
  case (Include s b rest a l fn path c ls1 ls2)
  let ?f1 = "advance p rest f"
  let ?q = "fi_next ?f1"
  let ?f2 = "?f1\<lparr>fi_heap := (fi_heap ?f1)(?q := \<lparr>of_in = c, of_file = fn, of_line = 0\<rparr>), fi_next := Suc ?q,
     fi_opens := p # p # fi_opens ?f1, fi_allfiles := fi_allfiles ?f1 @ [path], fi_curr := Some ?q\<rparr>"
  have r1: "reading base rest p ?f1" by (rule advance_reading [OF Include.prems(1)])
  then have r2: "reading base c ?q ?f2" by (simp add: reading_def)
  have rest: "reads fs [] f3 (ls2 @ k)" if f3: "finished ?f2 f3 ?q" for f3
  proof -
    let ?f4 = "f3\<lparr>fi_curr := Some p, fi_opens := p # fi_opens ?f1\<rparr>"
    let ?g = "?f4\<lparr>fi_opens := fi_opens ?f1\<rparr>"
    have p: "p < fi_next ?f1" using r1 by (simp add: reading_def)
    have "of_in (fi_heap f3 p) = of_in (fi_heap ?f2 p)" using f3 p unfolding finished_def by simp
    then have in3: "of_in (fi_heap f3 p) = rest" using r1 p by (simp add: reading_def)
    have r4: "reading base rest p ?f4" using f3 r1 p in3 by (simp add: reading_def finished_def)
    have "reads fs [] ?f4 (ls2 @ k)"
    proof (rule Include.IH(2) [OF r4])
      fix f5 assume f5: "finished ?f4 f5 p"
      show "reads fs [] f5 k"
      proof (rule finished_twice [where f = ?g])
        show "finished (?g\<lparr>fi_opens := p # fi_opens ?g\<rparr>) f5 p" using f5 by simp
        fix f6 assume f6: "finished ?g f6 p"
        have "finished ?f1 f6 p" using f6 f3 unfolding finished_def by (auto simp: less_Suc_eq)
        then show "reads fs [] f6 k" by (rule Include.prems(2) [OF advance_finished])
      qed
    qed
    moreover have "next_loop fs [] f3 = next_loop fs [] ?f4"
      by (rule loop_pop [where q = ?q]) (use f3 in \<open>simp_all add: finished_def\<close>)
    ultimately show ?thesis using reads_same by blast
  qed
  have "reads fs [] ?f2 (ls1 @ (ls2 @ k))" by (rule Include.IH(1) [OF r2 rest])
  moreover have "next_loop fs a f = next_loop fs [] ?f2"
  proof (cases "fn = []")
    case True
    then show ?thesis using Include.hyps(7) by (simp add: path_of_def)
  next
    case False
    then have "fi_include fs fn ?f1 = Some ?f2"
      using r1 Include.hyps(7,8) by (simp add: fi_include_def reading_def openFile_def Let_def)
    then show ?thesis using Include.hyps(2-6) clean_include [OF Include.hyps(5)]
      by (simp add: loop_step [OF Include.prems(1) Include.hyps(1)])
  qed
  ultimately show ?case using reads_same by (metis append_assoc)
qed

section \<open>The files one after the other\<close>

definition at_end :: "string \<Rightarrow> string list \<Rightarrow> files \<Rightarrow> bool" where
  "at_end base rest f \<longleftrightarrow> fi_opens f = [] \<and> fi_files f = rest \<and> fi_basedir f = base \<and> fi_ungot f = []
     \<and> (case fi_curr f of None \<Rightarrow> True | Some p \<Rightarrow> of_in (fi_heap f p) = [])"

lemma nextFile_skip:
  assumes "at_end base (file # rest) f" "path_of base file = Some path" "fs_read fs path = None"
  shows "\<exists>f'. nextFile fs f = nextFile fs f' \<and> at_end base rest f' \<and> fi_curr f' = None"
proof -
  let ?f = "f\<lparr>fi_curr := None, fi_files := rest\<rparr>"
  have o: "openFile fs file ?f = Some (False, ?f)"
    using assms by (simp add: openFile_def at_end_def)
  have "nextFile fs f = nextFile fs ?f"
    using assms(1) o by (subst nextFile.simps) (simp add: at_end_def)
  moreover have "at_end base rest ?f" using assms(1) by (simp add: at_end_def)
  ultimately show ?thesis by (intro exI [of _ ?f]) simp
qed

lemma loop_next: "fi_curr f = Some p \<Longrightarrow> of_in (fi_heap f p) = [] \<Longrightarrow>
    next_loop fs a f = (case nextFile fs f of None \<Rightarrow> None | Some (ok, f) \<Rightarrow> if ok then next_loop fs a f else Some (None, f))"
  by (subst next_loop.simps) (simp add: read_line_end)

lemma nextFile_reads:
  "expand_files fs base files ls \<Longrightarrow> at_end base files f \<Longrightarrow>
   (\<exists>f'. nextFile fs f = Some (False, f') \<and> fi_curr f' = None \<and> fi_ungot f' = [] \<and> ls = [])
   \<or> (\<exists>f'. nextFile fs f = Some (True, f') \<and> fi_curr f' \<noteq> None \<and> fi_ungot f' = [] \<and> reads fs [] f' ls)"
proof (induction arbitrary: f rule: expand_files.induct)
  case Done
  then show ?case by (subst (1 2) nextFile.simps) (simp add: at_end_def)
next
  case (Skip fn path rest ls)
  then obtain f' where f': "nextFile fs f = nextFile fs f'" "at_end base rest f'" using nextFile_skip by blast
  from Skip.IH [OF f'(2)] show ?case by (simp add: f'(1))
next
  case (File fn path c ls1 rest ls2)
  let ?f = "f\<lparr>fi_curr := None, fi_files := rest\<rparr>"
  let ?q = "fi_next f"
  let ?f1 = "?f\<lparr>fi_heap := (fi_heap f)(?q := \<lparr>of_in = c, of_file = fn, of_line = 0\<rparr>), fi_next := Suc ?q,
     fi_allfiles := fi_allfiles f @ [path], fi_curr := Some ?q\<rparr>"
  have "openFile fs fn ?f = Some (True, ?f1)"
    using File.prems File.hyps(1,2) by (simp add: openFile_def at_end_def Let_def)
  then have n: "nextFile fs f = Some (True, ?f1)"
    using File.prems by (subst nextFile.simps) (simp add: at_end_def)
  have r: "reading base c ?q ?f1" using File.prems by (simp add: reading_def at_end_def)
  have "reads fs [] ?f1 (ls1 @ ls2)"
  proof (rule reads_expansion [OF File.hyps(3) r])
    fix f2 assume f2: "finished ?f1 f2 ?q"
    then have e: "at_end base rest f2" using File.prems by (simp add: at_end_def finished_def)
    have "next_loop fs [] f2 = (case nextFile fs f2 of None \<Rightarrow> None | Some (ok, f) \<Rightarrow> if ok then next_loop fs [] f else Some (None, f))"
      by (rule loop_next [of _ ?q]) (use f2 in \<open>simp_all add: finished_def\<close>)
    then show "reads fs [] f2 ls2"
      using File.IH [OF e] by (auto intro: reads_same [THEN iffD2])
  qed
  then show ?case using n File.prems by (simp add: at_end_def)
qed

text \<open>Where \<open>NewReader\<close> looks for the files.\<close>

definition reader_files :: "fsys \<Rightarrow> string \<Rightarrow> string \<times> string list" where
  "reader_files fs file =
     (case fs_dir fs file of
        Some all \<Rightarrow> (file, filesInDir all)
      | None \<Rightarrow> (case last_index_of (\<lambda>c. c = CHR ''/'') file of None \<Rightarrow> [] | Some sl \<Rightarrow> take sl file, [file]))"

lemma reader_lines:
  assumes "reader_files fs file = (base, names)" "expand_files fs base names ls"
  shows "\<exists>f. NewReader fs file = Some f \<and> supplies fs f ls"
proof -
  let ?f = "\<lparr>fi_curr = None, fi_basedir = base, fi_files = names, fi_opens = [], fi_allfiles = [], fi_ungot = [],
               fi_heap = (\<lambda>_. \<lparr>of_in = [], of_file = [], of_line = 0\<rparr>), fi_next = 0\<rparr>"
  have new: "NewReader fs file = map_option snd (nextFile fs ?f)"
    using assms(1) by (auto simp: NewReader_def reader_files_def Let_def split: option.splits)
  have "at_end base names ?f" by (simp add: at_end_def)
  from nextFile_reads [OF assms(2) this] show ?thesis
  proof
    assume "\<exists>f'. nextFile fs ?f = Some (False, f') \<and> fi_curr f' = None \<and> fi_ungot f' = [] \<and> ls = []"
    then show ?thesis unfolding new by (auto simp: NextLine_def)
  next
    assume "\<exists>f'. nextFile fs ?f = Some (True, f') \<and> fi_curr f' \<noteq> None \<and> fi_ungot f' = [] \<and> reads fs [] f' ls"
    then show ?thesis unfolding new using reads_supplies by auto
  qed
qed

text \<open>C19: a reader gives every line of the configuration once, in order. For a file, or the sorted files
  of a directory, whose includes are nested however deep (but not in a cycle), it gives exactly the
  lines of the expansion: every include replaced by the lines of its file, unreadable files left
  out, continued lines joined, comments removed; then it reports the end. The shared positions on
  the stack of open files lose and repeat nothing.\<close>

theorem reader_expands:
  assumes "reader_files fs file = (base, names)" "expand_files fs base names ls"
  shows "\<exists>f. NewReader fs file = Some f \<and> supplies fs f ls"
  by (rule reader_lines [OF assms])

definition witness_fs :: fsys where
  "witness_fs = \<lparr>fs_dir = (\<lambda>_. None),
     fs_read = (\<lambda>p. if p = ''main'' then Some (''a: 1 # one'' @ [LF] @ ''include '' @ [CHR 0x22] @ ''sub'' @ [CHR 0x22] @ [LF] @ ''b: 2'' @ [LF])
                     else if p = ''sub'' then Some (''c: '' @ [CHR 0x5C, LF] @ ''  3'' @ [LF]) else None)\<rparr>"

theorem reader_expands_witness:
  "\<exists>f. NewReader witness_fs ''main'' = Some f \<and> supplies witness_fs f [''a: 1'', ''c: 3'', ''b: 2'']"
proof -
  let ?inc = "''include '' @ [CHR 0x22] @ ''sub'' @ [CHR 0x22]"
  have r: "read_line (''a: 1 # one'' @ [LF] @ ?inc @ [LF] @ ''b: 2'' @ [LF]) = Some (''a: 1 # one'', ?inc @ [LF] @ ''b: 2'' @ [LF])"
      "read_line (?inc @ [LF] @ ''b: 2'' @ [LF]) = Some (?inc, ''b: 2'' @ [LF])" "read_line (''b: 2'' @ [LF]) = Some (''b: 2'', [])"
      "read_line (''c: '' @ [CHR 0x5C, LF] @ ''  3'' @ [LF]) = Some (''c: '' @ [CHR 0x5C], ''  3'' @ [LF])"
      "read_line (''  3'' @ [LF]) = Some (''  3'', [])" "read_line [] = None"
    by code_simp+
  have c: "joined [] x = x" "joined ''c: '' ''  3'' = ''c: 3''" for x by (simp_all add: joined_def join_trim_def blank_def)
  have k: "cleanLine ''a: 1 # one'' = ''a: 1''" "cleanLine ?inc = ?inc" "cleanLine ''b: 2'' = ''b: 2''" "cleanLine ''c: 3'' = ''c: 3''"
      "includeFileName ?inc = Some ''sub''" by code_simp+
  have end0: "expands witness_fs [] [] [] []" by (rule expands.EOF [OF r(6)])
  have "expands witness_fs [] ''c: '' (''  3'' @ [LF]) [''c: 3'']"
    by (rule expands.Line [OF r(5) _ _ _ _ _ end0]) (simp_all add: c k has_prefix_def)
  then have sub: "expands witness_fs [] [] (''c: '' @ [CHR 0x5C, LF] @ ''  3'' @ [LF]) [''c: 3'']"
    by (intro expands.Continued [OF r(4)]) (simp_all add: c)
  have b: "expands witness_fs [] [] (''b: 2'' @ [LF]) [''b: 2'']"
    by (rule expands.Line [OF r(3) _ _ _ _ _ end0]) (simp_all add: c k has_prefix_def)
  have inc: "expands witness_fs [] [] (?inc @ [LF] @ ''b: 2'' @ [LF]) ([''c: 3''] @ [''b: 2''])"
    by (rule expands.Include [where l = ?inc and path = "''sub''", OF r(2) _ _ _ _ k(5) _ _ sub b])
      (simp_all add: c k(2) [simplified] has_prefix_def path_of_def witness_fs_def)
  have "expands witness_fs [] [] (''a: 1 # one'' @ [LF] @ ?inc @ [LF] @ ''b: 2'' @ [LF]) (''a: 1'' # [''c: 3''] @ [''b: 2''])"
    by (rule expands.Line [OF r(1) _ _ _ _ _ inc]) (simp_all add: c k has_prefix_def)
  from expand_files.File [OF _ _ this expand_files.Done]
  have "expand_files witness_fs [] [''main''] [''a: 1'', ''c: 3'', ''b: 2'']"
    by (simp add: path_of_def witness_fs_def)
  then show ?thesis
    by (intro reader_expands [where base = "[]"]) (simp_all add: reader_files_def witness_fs_def last_index_of_def)
qed

end
