(* ===== verification/Construct.thy ===== *)
theory Construct
  imports Reader Expr
begin

text \<open>
  Building the objects of a configuration (\<open>src/argus/construct/readconfig.go\<close>, \<open>schedule.go\<close>,
  \<open>make.go\<close>): blocks, parameters and schedules are read from the lines of Reader, and every block
  is made into an object by the constructor of its type. The constructors are the argument
  \<open>makers\<close>; the state \<open>'w\<close> is theirs. \<^const>\<open>None\<close> is a panic, a fatal exit, or input that never ends.
\<close>

section \<open>The grammar\<close>

record readconf =
  wr_narg :: nat
  wr_onel :: bool
  wr_level :: nat
  wr_isInfo :: bool
  wr_permit :: "string list"

definition readconf :: "nat \<Rightarrow> bool \<Rightarrow> nat \<Rightarrow> bool \<Rightarrow> string list \<Rightarrow> readconf" where
  "readconf narg onel level isInfo permit =
     \<lparr>wr_narg = narg, wr_onel = onel, wr_level = level, wr_isInfo = isInfo, wr_permit = permit\<rparr>"

definition confconf :: "(string \<times> readconf) list" where
  "confconf =
     [(''top'', readconf 1 False 2 False [''method'', ''snmpoid'', ''group'', ''host'', ''darp'', ''agent'']),
      (''group'', readconf 1 False 2 False [''group'', ''host'', ''service'', ''alias'']),
      (''host'', readconf 1 False 2 False [''group'', ''host'', ''service'', ''alias'']),
      (''alias'', readconf 2 True 2 False []),
      (''service'', readconf 1 True 2 False []),
      (''method'', readconf 1 True 1 True []),
      (''snmpoid'', readconf 0 True 1 True []),
      (''darp'', readconf 1 False 1 True []),
      (''agent'', readconf 2 False 1 True []),
      (''resolv'', readconf 0 False 0 False [])]"

definition wordConf :: "string \<Rightarrow> readconf option" where
  "wordConf word = map_of confconf word"

section \<open>State\<close>

record 'w build =
  b_files :: files
  b_conf :: cf_state
  b_world :: 'w

text \<open>A constructor returns an object or an error.\<close>

type_synonym 'w maker = "cptr \<Rightarrow> ptr \<Rightarrow> cf_state \<times> 'w \<Rightarrow> ((string + ptr) \<times> cf_state \<times> 'w) option"

record 'w makers =
  mk_service :: "'w maker"
  mk_group :: "'w maker"
  mk_alias :: "'w maker"
  mk_method :: "'w maker"
  mk_darp :: "'w maker"
  mk_snmpoid :: "'w maker"
  mk_agent :: "'w maker"

definition upd_conf :: "(cf_state \<Rightarrow> cf_state) \<Rightarrow> 'w build \<Rightarrow> 'w build" where
  "upd_conf g st = st\<lparr>b_conf := g (b_conf st)\<rparr>"

definition next_line :: "fsys \<Rightarrow> 'w build \<Rightarrow> (string option \<times> 'w build) option" where
  "next_line fs st = map_option (\<lambda>(l, f). (l, st\<lparr>b_files := f\<rparr>)) (NextLine fs (b_files st))"

definition unget :: "string \<Rightarrow> 'w build \<Rightarrow> 'w build" where
  "unget l st = st\<lparr>b_files := UnGetLine l (b_files st)\<rparr>"

section \<open>Making\<close>

definition run_maker :: "'w maker \<Rightarrow> bool \<Rightarrow> cptr \<Rightarrow> ptr \<Rightarrow> 'w build \<Rightarrow> (ptr \<times> 'w build) option" where
  "run_maker mk object c parent st =
     map_option (\<lambda>(r, conf, w).
         let st = st\<lparr>b_conf := conf, b_world := w\<rparr> in
         case r of
           Inl e \<Rightarrow> (0, upd_conf (cf_Error c e) st)
         | Inr p \<Rightarrow> (if object then p else 0, st))
       (mk c parent (b_conf st, b_world st))"

definition default_hostname :: "cptr \<Rightarrow> cf_state \<Rightarrow> cf_state" where
  "default_hostname c conf =
     (let cf = cs_cf conf c in
      if cf_Param cf ''hostname'' = None then set_param c ''hostname'' (CStr (cf_Name cf)) (cf_Line cf) conf else conf)"

definition Make :: "'w makers \<Rightarrow> cptr \<Rightarrow> ptr \<Rightarrow> 'w build \<Rightarrow> (ptr \<times> 'w build) option" where
  "Make mk c parent st =
     (let t = cf_Type (cs_cf (b_conf st) c) in
      if t = ''service'' then run_maker (mk_service mk) True c parent st
      else if t = ''host'' then run_maker (mk_group mk) True c parent (upd_conf (default_hostname c) st)
      else if t = ''group'' then run_maker (mk_group mk) True c parent st
      else if t = ''alias'' then run_maker (mk_alias mk) True c parent st
      else if t = ''method'' then run_maker (mk_method mk) False c parent st
      else if t = ''darp'' then run_maker (mk_darp mk) False c parent st
      else if t = ''snmpoid'' then run_maker (mk_snmpoid mk) False c parent st
      else if t = ''agent'' then run_maker (mk_agent mk) False c parent st
      else Some (0, st))"

section \<open>Words and parameters\<close>

definition word_end :: "char \<Rightarrow> bool" where
  "word_end c \<longleftrightarrow> c = CHR '' '' \<or> c = CHR 0x09 \<or> c = CHR '':''"

definition firstWord :: "string \<Rightarrow> string" where
  "firstWord l = (case index_of word_end l of None \<Rightarrow> [] | Some d \<Rightarrow> to_lower (take d l))"

definition setParam :: "cptr \<Rightarrow> string \<Rightarrow> cfvalue \<Rightarrow> 'w build \<Rightarrow> 'w build" where
  "setParam c key val st =
     (let f = b_files st;
          st = (if cf_Param (cs_cf (b_conf st) c) key \<noteq> None
                then upd_conf (\<lambda>conf. conf\<lparr>cs_log := ConfigWarning (CurrFile f) (CurrLine f)
                       (''redefinition of parameter '' @ [CHR 0x27] @ key @ [CHR 0x27]) (cs_log conf)\<rparr>) st
                else st)
      in upd_conf (set_param c key val (CurrLine f)) st)"

definition addParam :: "cptr \<Rightarrow> string \<Rightarrow> 'w build \<Rightarrow> 'w build" where
  "addParam c l st =
     (case index_of (\<lambda>x. x = CHR '':'') l of
        None \<Rightarrow> st
      | Some d \<Rightarrow> setParam c (trim_space (take d l)) (CStr (trim_space (drop (d + 1) l))) st)"

section \<open>Schedules\<close>

definition dayNo :: "string \<Rightarrow> int option" where
  "dayNo d = map_of [(''sun'', 0), (''mon'', 1), (''tue'', 2), (''wed'', 3), (''thu'', 4), (''fri'', 5), (''sat'', 6)] d"

text \<open>\<open>dow [start] [- end] => value\<close>\<close>

definition parseSchedLine :: "cptr \<Rightarrow> schedule \<Rightarrow> string \<Rightarrow> 'w build \<Rightarrow> schedule option \<times> 'w build" where
  "parseSchedLine c sched line st =
     (let fld = go_fields line; n = length fld in
      if n < 3 then (None, st)
      else if fld ! (n - 2) \<noteq> ''=>'' then (None, st)
      else
        let res = fld ! (n - 1); dow = fld ! 0;
            start = (if n > 3 then atoi (fld ! 1) else 0);
            stop = (if n > 5 then atoi (fld ! 3) else 2400)
        in case (if dow = ''*'' \<or> dow = ''all'' then Some (-1) else dayNo dow) of
             None \<Rightarrow> (None, upd_conf (cf_Error c (''invalid day of week '' @ [CHR 0x27] @ dow @ [CHR 0x27] @ '' in schedule'')) st)
           | Some idow \<Rightarrow> (Some (Schedule_Append sched idow start stop res), st))"

text \<open>The schedule, or \<^const>\<open>None\<close> inside after an error; the flag is false at the end of the input.\<close>

partial_function (option) sched_loop :: "fsys \<Rightarrow> cptr \<Rightarrow> schedule \<Rightarrow> 'w build \<Rightarrow> (bool \<times> schedule option \<times> 'w build) option" where
  "sched_loop fs c sched st =
     (case next_line fs st of
        None \<Rightarrow> None
      | Some (None, st) \<Rightarrow> Some (False, None, upd_conf (cf_Error c ''end-of-file while reading schedule'') st)
      | Some (Some l, st) \<Rightarrow>
          if l = ''}'' then Some (True, Some sched, st)
          else
            (case parseSchedLine c sched l st of
               (None, st) \<Rightarrow> Some (True, None, upd_conf (cf_Error c ''cannot parse schedule'') st)
             | (Some sched, st) \<Rightarrow> sched_loop fs c sched st))"

definition readSchedule :: "fsys \<Rightarrow> cptr \<Rightarrow> string \<Rightarrow> 'w build \<Rightarrow> (bool \<times> 'w build) option" where
  "readSchedule fs c spec st =
     (case (index_of blank spec, last_index_of blank spec) of
        (Some d, Some e) \<Rightarrow>
          let e = (if e = d then length spec - 1 else e);
              name = trim_left blank (trim_right blank (drop d (take e spec)))
          in map_option (\<lambda>(ok, sched, st). (ok, case sched of None \<Rightarrow> st | Some s \<Rightarrow> setParam c name (CSched s) st))
               (sched_loop fs c [] st)
      | _ \<Rightarrow> None)"

section \<open>Blocks\<close>

text \<open>Reads the parameters of a block, up to its end or to a line that starts another block, which is
  put back.\<close>

partial_function (option) readKVP :: "fsys \<Rightarrow> cptr \<Rightarrow> 'w build \<Rightarrow> (bool \<times> 'w build) option" where
  "readKVP fs c st =
     (case next_line fs st of
        None \<Rightarrow> None
      | Some (None, st) \<Rightarrow> Some (False, st)
      | Some (Some l, st) \<Rightarrow>
          if l = ''}'' then Some (True, unget l st)
          else
            let word = firstWord l in
            if word = ''schedule'' then
              (case readSchedule fs c l st of None \<Rightarrow> None | Some (ok, st) \<Rightarrow> readKVP fs c st)
            else if wordConf word \<noteq> None then Some (True, unget l st)
            else if CHR '':'' \<in> set l then readKVP fs c (addParam c l st)
            else Some (True, unget l st))"

definition unquote :: "string \<Rightarrow> string option" where
  "unquote s =
     (if s = [] then Some []
      else
        let s = trim_space s in
        if s = [] then None
        else
          let s = (if hd s = CHR 0x22 then tl s else s) in
          if s = [] then None
          else Some (if last s = CHR 0x22 then butlast s else s))"

definition nextArg :: "string \<Rightarrow> (string \<times> string) option" where
  "nextArg spec =
     (case spec of
        [] \<Rightarrow> None
      | c # t \<Rightarrow>
          if c = CHR 0x22 then
            (case index_of (\<lambda>x. x = CHR 0x22) t of
               None \<Rightarrow> Some (t, [])
             | Some e \<Rightarrow> map_option (\<lambda>a. (a, trim_space (drop (e + 2) spec))) (unquote (take (e + 2) spec)))
          else
            (case index_str [CHR '' '', CHR 0x09] spec of
               None \<Rightarrow> Some (trim_space spec, [])
             | Some e \<Rightarrow> Some (trim_space (take e spec), trim_space (drop e spec))))"

partial_function (option) all_args :: "string \<Rightarrow> string list option" where
  "all_args spec =
     (if spec = [] then Some []
      else case nextArg spec of
             None \<Rightarrow> None
           | Some (a, spec) \<Rightarrow> do { r \<leftarrow> all_args spec; Some (a # r) })"

text \<open>A block without a name is an index out of range.\<close>

definition parseSpec :: "cptr \<Rightarrow> readconf \<Rightarrow> string \<Rightarrow> 'w build \<Rightarrow> (cptr \<times> 'w build) option" where
  "parseSpec pcf wrcf spec st =
     (let spec = (if last spec = CHR ''{'' then butlast spec else spec) in
      case index_of word_end spec of
        None \<Rightarrow> None
      | Some d \<Rightarrow>
          let word = to_lower (take d spec); spec = trim_space (drop (d + 1) spec) in do {
            args \<leftarrow> (if spec = [] then Some []
                     else if wr_narg wrcf = 1 then map_option (\<lambda>a. [a]) (unquote spec)
                     else all_args spec);
            case args of
              [] \<Rightarrow> None
            | name # extra \<Rightarrow>
                let (c, conf) = NewCF word name (Some pcf) (b_conf st);
                    x = (cs_cf conf c)\<lparr>cf_File := CurrFile (b_files st), cf_Line := CurrLine (b_files st), cf_Extra := extra\<rparr>
                in Some (c, st\<lparr>b_conf := conf\<lparr>cs_cf := (cs_cf conf)(c := x)\<rparr>\<rparr>)
          })"

definition errorMessage :: "string \<Rightarrow> readconf option \<Rightarrow> string \<Rightarrow> 'w build \<Rightarrow> 'w build" where
  "errorMessage word wrcf line st =
     (let q = [CHR 0x27];
          msg = (case wrcf of
                   None \<Rightarrow> ''I do not understand '' @ q @ word @ q
                 | Some w \<Rightarrow>
                     if wr_level w = 1 then word @ '' block must appear before any Groups or Services''
                     else if CHR '':'' \<in> set line then ''additional data not permitted here''
                     else ''invalid entry in config file '' @ q @ word @ q);
          f = b_files st
      in upd_conf (\<lambda>conf. conf\<lparr>cs_log := ConfigError (CurrFile f) (CurrLine f) msg (cs_log conf)\<rparr>) st)"

partial_function (option) eatBlock :: "fsys \<Rightarrow> 'w build \<Rightarrow> 'w build option" where
  "eatBlock fs st =
     (case next_line fs st of
        None \<Rightarrow> None
      | Some (None, st) \<Rightarrow> Some st
      | Some (Some l, st) \<Rightarrow>
          if l = ''}'' then Some st
          else if last l = CHR ''{'' then do { st \<leftarrow> eatBlock fs st; eatBlock fs st }
          else eatBlock fs st)"

definition eatConf :: "fsys \<Rightarrow> string \<Rightarrow> 'w build \<Rightarrow> 'w build option" where
  "eatConf fs l st = (if last l = CHR ''{'' then eatBlock fs st else Some st)"

definition permitted :: "string \<Rightarrow> string \<Rightarrow> nat \<Rightarrow> bool" where
  "permitted ptype word level \<longleftrightarrow>
     (case (wordConf ptype, wordConf word) of
        (Some opt, Some w) \<Rightarrow> word \<in> set (wr_permit opt) \<and> level \<le> wr_level w
      | _ \<Rightarrow> False)"

text \<open>The blocks inside a block; \<open>readConfig\<close> is unfolded here.\<close>

partial_function (option) readConfigs :: "fsys \<Rightarrow> 'w makers \<Rightarrow> ptr \<Rightarrow> cptr \<Rightarrow> string \<Rightarrow> nat \<Rightarrow> 'w build \<Rightarrow> (bool \<times> 'w build) option" where
  "readConfigs fs mk parent pcf ptype level st =
     (case next_line fs st of
        None \<Rightarrow> None
      | Some (None, st) \<Rightarrow> Some (False, st)
      | Some (Some l, st) \<Rightarrow>
          if l = ''}'' then Some (True, st)
          else
            let word = firstWord l in
            if permitted ptype word level then do {
              (c, st) \<leftarrow> parseSpec pcf (the (wordConf word)) l st;
              (ok, st) \<leftarrow>
                (if last l = CHR ''{'' then do {
                   (ok, st) \<leftarrow> readKVP fs c st;
                   (nob, st) \<leftarrow> Make mk c parent st;
                   readConfigs fs mk nob c (cf_Type (cs_cf (b_conf st) c)) 0 st
                 }
                 else map_option (\<lambda>(p, st). (True, st)) (Make mk c parent st));
              readConfigs fs mk parent pcf ptype (wr_level (the (wordConf word))) st
            }
            else do {
              st \<leftarrow> eatConf fs l (errorMessage word (wordConf word) l st);
              readConfigs fs mk parent pcf ptype level st
            })"

definition readConfig :: "fsys \<Rightarrow> 'w makers \<Rightarrow> ptr \<Rightarrow> cptr \<Rightarrow> string \<Rightarrow> readconf \<Rightarrow> 'w build \<Rightarrow> (bool \<times> 'w build) option" where
  "readConfig fs mk parent pcf spec wrcf st = do {
     (c, st) \<leftarrow> parseSpec pcf wrcf spec st;
     if last spec = CHR ''{'' then do {
       (ok, st) \<leftarrow> readKVP fs c st;
       (nob, st) \<leftarrow> Make mk c parent st;
       readConfigs fs mk nob c (cf_Type (cs_cf (b_conf st) c)) 0 st
     }
     else map_option (\<lambda>(p, st). (True, st)) (Make mk c parent st)
   }"

text \<open>\<open>finish\<close> stands for what follows on the finished tree: \<open>notify.Configure\<close>, \<open>web.Configure\<close>,
  \<open>service.GraphConfig\<close> and \<open>top.DoneConfig\<close>.\<close>

definition ReadConfig :: "fsys \<Rightarrow> 'w makers \<Rightarrow> (cptr \<Rightarrow> ptr \<Rightarrow> 'w build \<Rightarrow> 'w build option) \<Rightarrow> string \<Rightarrow> cf_state \<Rightarrow> 'w
    \<Rightarrow> (string list \<times> 'w build) option" where
  "ReadConfig fs mk finish file conf w = do {
     f \<leftarrow> NewReader fs file;
     let (c, conf) = NewCF ''group'' ''Top'' None conf;
     let x = (cs_cf conf c)\<lparr>cf_File := CurrFile f, cf_Line := 1\<rparr>;
     let st = \<lparr>b_files = f, b_conf = conf\<lparr>cs_cf := (cs_cf conf)(c := x)\<rparr>, b_world = w\<rparr>;
     (ok, st) \<leftarrow> readKVP fs c st;
     (top', st) \<leftarrow> Make mk c 0 st;
     (ok, st) \<leftarrow> readConfigs fs mk top' c ''top'' 0 st;
     st \<leftarrow> finish c top' st;
     Some (fi_allfiles (b_files st), st)
   }"

end
