(* ===== verification/ConstructFacts.thy ===== *)
theory ConstructFacts
  imports ReaderFacts Construct
begin

text \<open>
  What is built from a configuration: a tree of blocks written out as lines and read back makes
  exactly the constructor calls of the tree, in order, each with its parameters, its parent's
  configuration and its parent object.
\<close>

section \<open>Trees of blocks and their text\<close>

datatype block = Block string "string list" bool "(string \<times> string) list" "block list"
  \<comment> \<open>keyword, arguments, with braces, parameters, blocks inside\<close>

definition quoted :: "string \<Rightarrow> string" where
  "quoted a = CHR 0x22 # a @ [CHR 0x22]"

fun args_text :: "string list \<Rightarrow> string" where
  "args_text [] = []"
| "args_text (a # r) = quoted a @ (if r = [] then [] else CHR '' '' # args_text r)"

definition header :: "string \<Rightarrow> string list \<Rightarrow> bool \<Rightarrow> string" where
  "header w args opn = w @ CHR '' '' # args_text args @ (if opn then '' {'' else [])"

definition param_line :: "string \<times> string \<Rightarrow> string" where
  "param_line kv = fst kv @ CHR '':'' # CHR '' '' # snd kv"

fun lines_of :: "block list \<Rightarrow> string list" where
  "lines_of [] = []"
| "lines_of (Block w args opn ps inner # bs) =
     header w args opn # (if opn then map param_line ps @ lines_of inner @ [''}''] else []) @ lines_of bs"

definition param_ok :: "string \<times> string \<Rightarrow> bool" where
  "param_ok kv \<longleftrightarrow> CHR '':'' \<notin> set (fst kv) \<and> trim_space (fst kv) = fst kv \<and> trim_space (snd kv) = snd kv
     \<and> (let word = firstWord (fst kv @ '':'') in word \<noteq> ''schedule'' \<and> wordConf word = None)"

fun blocks_ok :: "string \<Rightarrow> nat \<Rightarrow> block list \<Rightarrow> bool" where
  "blocks_ok ptype level [] \<longleftrightarrow> True"
| "blocks_ok ptype level (Block w args opn ps inner # bs) \<longleftrightarrow>
     permitted ptype w level \<and> args \<noteq> [] \<and> (wr_narg (the (wordConf w)) = 1 \<longrightarrow> length args = 1)
     \<and> list_all (\<lambda>a. CHR 0x22 \<notin> set a) args \<and> list_all param_ok ps \<and> (opn \<or> ps = [] \<and> inner = [])
     \<and> blocks_ok w 0 inner \<and> blocks_ok ptype (wr_level (the (wordConf w))) bs"

section \<open>Constructors that keep a record\<close>

record call =
  cl_maker :: string
  cl_Type :: string
  cl_Name :: string
  cl_Extra :: "string list"
  cl_Param :: "string \<rightharpoonup> cfvalue"
  cl_cf :: cptr
  cl_parent_cf :: "cptr option"
  cl_parent :: ptr

definition param_values :: "cf_state \<Rightarrow> cptr \<Rightarrow> string \<rightharpoonup> cfvalue" where
  "param_values conf c = (\<lambda>k. map_option (\<lambda>v. cv_Value (cs_cfv conf v)) (cf_Param (cs_cf conf c) k))"

text \<open>\<open>res n\<close> is what the call number \<open>n\<close> returns.\<close>

definition recorder :: "(nat \<Rightarrow> string + ptr) \<Rightarrow> string \<Rightarrow> call list maker" where
  "recorder res maker c parent = (\<lambda>(conf, w).
     let x = cs_cf conf c in
     Some (res (length w), conf,
       w @ [\<lparr>cl_maker = maker, cl_Type = cf_Type x, cl_Name = cf_Name x, cl_Extra = cf_Extra x, cl_Param = param_values conf c,
             cl_cf = c, cl_parent_cf = cf_parent x, cl_parent = parent\<rparr>]))"

definition recorders :: "(nat \<Rightarrow> string + ptr) \<Rightarrow> call list makers" where
  "recorders res =
     \<lparr>mk_service = recorder res ''service'', mk_group = recorder res ''group'', mk_alias = recorder res ''alias'',
      mk_method = recorder res ''method'', mk_darp = recorder res ''darp'', mk_snmpoid = recorder res ''snmpoid'',
      mk_agent = recorder res ''agent''\<rparr>"

text \<open>The calls that a list of blocks stands for: \<open>pcf\<close> and \<open>parent\<close> belong to the block around them, the
  configuration \<open>c\<close> and the call \<open>n\<close> are the next ones.\<close>

definition object_word :: "string \<Rightarrow> bool" where
  "object_word w \<longleftrightarrow> w \<in> {''service'', ''host'', ''group'', ''alias''}"

definition made_of :: "(nat \<Rightarrow> string + ptr) \<Rightarrow> nat \<Rightarrow> string \<Rightarrow> ptr" where
  "made_of res n w = (case res n of Inl e \<Rightarrow> 0 | Inr p \<Rightarrow> if object_word w then p else 0)"

text \<open>The last of several values of one parameter counts.\<close>

definition str_params :: "(string \<times> string) list \<Rightarrow> string \<rightharpoonup> cfvalue" where
  "str_params ps = map_of (rev (map (\<lambda>(k, v). (k, CStr v)) ps))"

definition block_params :: "string \<Rightarrow> string \<Rightarrow> (string \<times> string) list \<Rightarrow> string \<rightharpoonup> cfvalue" where
  "block_params w name ps =
     (let m = str_params ps in
      if w = ''host'' \<and> m ''hostname'' = None then m(''hostname'' \<mapsto> CStr name) else m)"

definition call_of :: "string \<Rightarrow> string list \<Rightarrow> (string \<times> string) list \<Rightarrow> cptr \<Rightarrow> cptr option \<Rightarrow> ptr \<Rightarrow> call" where
  "call_of w args ps c pcf parent =
     \<lparr>cl_maker = (if w = ''host'' then ''group'' else w), cl_Type = w, cl_Name = hd args, cl_Extra = tl args,
      cl_Param = block_params w (hd args) ps, cl_cf = c, cl_parent_cf = pcf, cl_parent = parent\<rparr>"

fun calls :: "(nat \<Rightarrow> string + ptr) \<Rightarrow> cptr \<Rightarrow> ptr \<Rightarrow> cptr \<Rightarrow> nat \<Rightarrow> block list \<Rightarrow> call list" where
  "calls res pcf parent c n [] = []"
| "calls res pcf parent c n (Block w args opn ps inner # bs) =
     (let below = calls res c (made_of res n w) (Suc c) (Suc n) inner
      in call_of w args ps c (Some pcf) parent # below
         @ calls res pcf parent (Suc c + length below) (Suc n + length below) bs)"

section \<open>Headers\<close>

lemma words: "wordConf w = Some x \<Longrightarrow>
    w \<in> {''top'', ''group'', ''host'', ''alias'', ''service'', ''method'', ''snmpoid'', ''darp'', ''agent'', ''resolv''}"
  by (auto simp: wordConf_def confconf_def split: if_splits)

lemma word_plain: "wordConf w \<noteq> None \<Longrightarrow> list_all (\<lambda>c. \<not> word_end c \<and> lower_char c = c) w \<and> w \<noteq> [] \<and> w \<noteq> ''schedule''"
  using words [of w] by (auto simp: word_end_def lower_char_def)

lemma to_lower_plain: "list_all (\<lambda>c. \<not> word_end c \<and> lower_char c = c) w \<Longrightarrow> to_lower w = w"
  by (induction w) (auto simp: to_lower_def)

lemma index_plain: "list_all (\<lambda>c. \<not> word_end c \<and> Q c) w \<Longrightarrow> word_end d \<Longrightarrow> index_of word_end (w @ d # s) = Some (length w)"
  by (induction w) auto

lemma firstWord_header: "wordConf w \<noteq> None \<Longrightarrow> firstWord (header w args opn) = w"
  using word_plain [of w] by (auto simp: firstWord_def header_def index_plain word_end_def to_lower_plain)

lemma args_text_snoc: "args \<noteq> [] \<Longrightarrow> \<exists>s. args_text args = CHR 0x22 # s @ [CHR 0x22]"
proof (induction args)
  case (Cons a r)
  then show ?case by (cases "r = []") (auto simp: quoted_def)
qed simp

lemma last_header: "args \<noteq> [] \<Longrightarrow> last (header w args opn) = CHR ''{'' \<longleftrightarrow> opn"
  using args_text_snoc [of args] by (auto simp: header_def)

lemma trim_quotes: "trim_space (CHR 0x22 # s @ [CHR 0x22]) = CHR 0x22 # s @ [CHR 0x22]"
  by (simp add: trim_space_def trim_left_def trim_right_def is_space_def)

lemma trim_blank_front: "trim_space (CHR '' '' # s) = trim_space s"
  by (simp add: trim_space_def trim_left_def is_space_def)

lemma trim_blank_back: "trim_space (CHR 0x22 # s @ [CHR 0x22, CHR '' '']) = CHR 0x22 # s @ [CHR 0x22]"
  by (simp add: trim_space_def trim_left_def trim_right_def is_space_def)

lemma trim_args: "args \<noteq> [] \<Longrightarrow> trim_space (args_text args) = args_text args"
  using args_text_snoc trim_quotes by fastforce

lemma unquote_quoted: "unquote (quoted a) = Some a"
  using trim_quotes [of a] by (simp add: unquote_def quoted_def Let_def)

lemma index_quote: "CHR 0x22 \<notin> set a \<Longrightarrow> index_of (\<lambda>x. x = CHR 0x22) (a @ CHR 0x22 # s) = Some (length a)"
  by (induction a) auto

lemma nextArg_quoted: "CHR 0x22 \<notin> set a \<Longrightarrow> nextArg (quoted a @ s) = Some (a, trim_space s)"
proof -
  assume a: "CHR 0x22 \<notin> set a"
  have "take (length a + 2) (quoted a @ s) = quoted a" "drop (length a + 2) (quoted a @ s) = s"
    by (simp_all add: quoted_def)
  then show ?thesis using index_quote [OF a, of s] unquote_quoted [of a] by (simp add: nextArg_def quoted_def)
qed

lemma all_args_text: "list_all (\<lambda>a. CHR 0x22 \<notin> set a) args \<Longrightarrow> all_args (args_text args) = Some args"
proof (induction args)
  case Nil
  then show ?case by (simp add: all_args.simps)
next
  case (Cons a r)
  have "nextArg (args_text (a # r)) = Some (a, args_text r)"
  proof (cases "r = []")
    case True
    then show ?thesis using Cons.prems nextArg_quoted [of a "[]"] by (simp add: trim_space_def trim_left_def trim_right_def)
  next
    case False
    then show ?thesis using Cons.prems nextArg_quoted [of a "CHR '' '' # args_text r"] by (simp add: trim_blank_front trim_args)
  qed
  moreover have "args_text (a # r) \<noteq> []" by (simp add: quoted_def)
  ultimately show ?case using Cons by (subst all_args.simps) simp
qed

section \<open>One block\<close>

definition block_cf :: "cf_state \<Rightarrow> cptr \<Rightarrow> string \<Rightarrow> string list \<Rightarrow> cptr option \<Rightarrow> (string \<rightharpoonup> cfvalue) \<Rightarrow> bool" where
  "block_cf conf c w args pcf m \<longleftrightarrow>
     (let x = cs_cf conf c in cf_Type x = w \<and> cf_Name x = hd args \<and> cf_Extra x = tl args \<and> cf_parent x = pcf
        \<and> (\<forall>v \<in> ran (cf_Param x). v < cs_ncfv conf) \<and> param_values conf c = m)"

lemma parseSpec_header:
  assumes "wordConf w = Some wc" "args \<noteq> []" "wr_narg wc = 1 \<longrightarrow> length args = 1" "list_all (\<lambda>a. CHR 0x22 \<notin> set a) args"
  shows "\<exists>st'. parseSpec pcf wc (header w args opn) st = Some (cs_ncf (b_conf st), st') \<and> b_files st' = b_files st
    \<and> b_world st' = b_world st \<and> cs_ncf (b_conf st') = Suc (cs_ncf (b_conf st))
    \<and> block_cf (b_conf st') (cs_ncf (b_conf st)) w args (Some pcf) Map.empty"
proof -
  let ?a = "args_text args"
  obtain s where s: "?a = CHR 0x22 # s @ [CHR 0x22]" using args_text_snoc [OF assms(2)] by blast
  have p: "list_all (\<lambda>c. \<not> word_end c \<and> lower_char c = c) w" using word_plain [of w] assms(1) by simp
  define spec where "spec = w @ CHR '' '' # ?a @ (if opn then '' '' else [])"
  have h1: "(if last (header w args opn) = CHR ''{'' then butlast (header w args opn) else header w args opn) = spec"
    using last_header [OF assms(2), of w opn] s by (auto simp: header_def spec_def butlast_append)
  have h2: "index_of word_end spec = Some (length w)"
    unfolding spec_def by (rule index_plain [OF p]) (simp add: word_end_def)
  have h3: "to_lower (take (length w) spec) = w" by (simp add: spec_def to_lower_plain [OF p])
  have h4: "trim_space (drop (length w + 1) spec) = ?a"
    using trim_args [OF assms(2)] by (simp add: spec_def s trim_blank_back)
  have h5: "?a \<noteq> []" using s by simp
  have h6: "(if wr_narg wc = 1 then map_option (\<lambda>a. [a]) (unquote ?a) else all_args ?a) = Some args"
  proof (cases "wr_narg wc = 1")
    case True
    then obtain a where "args = [a]" using assms(3) by (auto simp: length_Suc_conv)
    then show ?thesis using unquote_quoted [of a] True by simp
  next
    case False
    then show ?thesis using all_args_text [OF assms(4)] by simp
  qed
  have n: "(case args of [] \<Rightarrow> None | name # extra \<Rightarrow> P name extra) = P (hd args) (tl args)" for P
    using assms(2) by (cases args) simp_all
  show ?thesis
    unfolding parseSpec_def Let_def h1 option.case h2 h3 h4 using h5 h6
    by (simp add: NewCF_def block_cf_def param_values_def Let_def n)
qed

lemma index_first: "P x \<Longrightarrow> \<exists>i \<le> length k. index_of P (k @ [x]) = Some i \<and> index_of P (k @ x # s) = Some i"
  by (induction k) fastforce+

lemma firstWord_param: "firstWord (param_line kv) = firstWord (fst kv @ '':'')"
proof -
  obtain i where "i \<le> length (fst kv)" "index_of word_end (fst kv @ '':'') = Some i"
      "index_of word_end (fst kv @ CHR '':'' # CHR '' '' # snd kv) = Some i"
    using index_first [of word_end "CHR '':''" "fst kv" "CHR '' '' # snd kv"] by (auto simp: word_end_def)
  then show ?thesis by (simp add: firstWord_def param_line_def)
qed

lemma index_colon: "CHR '':'' \<notin> set k \<Longrightarrow> index_of (\<lambda>x. x = CHR '':'') (k @ CHR '':'' # s) = Some (length k)"
  by (induction k) auto

lemma set_param_block:
  assumes "block_cf conf c w args pcf m"
  shows "block_cf (set_param c k val line conf) c w args pcf (m(k \<mapsto> val))"
proof -
  have "v \<noteq> cs_ncfv conf" if "cf_Param (cs_cf conf c) k' = Some v" for k' v
    using assms that by (fastforce simp: block_cf_def Let_def ran_def)
  then have "param_values (set_param c k val line conf) c = (param_values conf c)(k \<mapsto> val)"
    by (auto simp: set_param_def param_values_def Let_def fun_eq_iff map_option_case split: option.splits)
  moreover have "\<forall>v \<in> ran (cf_Param (cs_cf (set_param c k val line conf) c)). v < cs_ncfv (set_param c k val line conf)"
    using assms by (auto simp: block_cf_def set_param_def Let_def ran_def less_Suc_eq)
  ultimately show ?thesis using assms by (simp add: block_cf_def set_param_def Let_def)
qed

lemma setParam_block:
  assumes "block_cf (b_conf st) c w args pcf m"
  shows "block_cf (b_conf (setParam c k val st)) c w args pcf (m(k \<mapsto> val))"
    and "cs_ncf (b_conf (setParam c k val st)) = cs_ncf (b_conf st)"
    and "b_files (setParam c k val st) = b_files st" "b_world (setParam c k val st) = b_world st"
proof -
  show "block_cf (b_conf (setParam c k val st)) c w args pcf (m(k \<mapsto> val))"
    using assms set_param_block by (auto simp: setParam_def Let_def upd_conf_def block_cf_def param_values_def)
  show "cs_ncf (b_conf (setParam c k val st)) = cs_ncf (b_conf st)"
    "b_files (setParam c k val st) = b_files st" "b_world (setParam c k val st) = b_world st"
    by (simp_all add: setParam_def Let_def upd_conf_def set_param_def)
qed

lemma addParam_line: "param_ok kv \<Longrightarrow> addParam c (param_line kv) st = setParam c (fst kv) (CStr (snd kv)) st"
  by (simp add: addParam_def param_line_def index_colon param_ok_def trim_blank_front)

definition gives :: "fsys \<Rightarrow> 'w build \<Rightarrow> string list \<Rightarrow> bool" where
  "gives fs st ls \<longleftrightarrow> supplies fs (b_files st) ls"

lemma next_line_some: "gives fs st (l # ls) \<Longrightarrow>
    \<exists>f. next_line fs st = Some (Some l, st\<lparr>b_files := f\<rparr>) \<and> gives fs (st\<lparr>b_files := f\<rparr>) ls \<and> fi_ungot f = []"
  by (auto simp: gives_def next_line_def)

lemma next_line_none:
  assumes "gives fs st []"
  shows "\<exists>f. next_line fs st = Some (None, st\<lparr>b_files := f\<rparr>) \<and> gives fs (st\<lparr>b_files := f\<rparr>) []"
proof -
  obtain f where f: "NextLine fs (b_files st) = Some (None, f)" "fi_curr f = None" "fi_ungot f = []"
    using assms by (auto simp: gives_def)
  then have "NextLine fs f = Some (None, f)" by (simp add: NextLine_def)
  with f show ?thesis by (intro exI [of _ f]) (simp add: gives_def next_line_def)
qed

lemma unget_files: "b_files (unget l st) = UnGetLine l (b_files st)"
  by (simp add: unget_def)

lemma gives_unget:
  assumes "l \<noteq> []" "fi_ungot (b_files st) = []" "gives fs st ls"
  shows "gives fs (unget l st) (l # ls)"
  unfolding gives_def unget_files by (rule supplies_unget [OF assms(1,2) assms(3) [unfolded gives_def]])

text \<open>Lines at which the parameters of a block stop.\<close>

definition stops :: "string list \<Rightarrow> bool" where
  "stops ls \<longleftrightarrow> (case ls of [] \<Rightarrow> True | l # _ \<Rightarrow> l = ''}'' \<or> l \<noteq> [] \<and> wordConf (firstWord l) \<noteq> None)"

lemma readKVP_params:
  assumes "list_all param_ok ps" "stops ls" "gives fs st (map param_line ps @ ls)" "block_cf (b_conf st) c w args pcf m"
  shows "\<exists>ok st'. readKVP fs c st = Some (ok, st') \<and> gives fs st' ls \<and> b_world st' = b_world st
    \<and> cs_ncf (b_conf st') = cs_ncf (b_conf st)
    \<and> block_cf (b_conf st') c w args pcf (m ++ str_params ps)"
  using assms
proof (induction ps arbitrary: st m)
  case Nil
  show ?case
  proof (cases ls)
    case Nil': Nil
    then obtain f where "next_line fs st = Some (None, st\<lparr>b_files := f\<rparr>)" "gives fs (st\<lparr>b_files := f\<rparr>) []"
      using next_line_none Nil.prems(3) by fastforce
    then show ?thesis using Nil.prems(4) Nil' by (subst readKVP.simps) (simp add: ex_bool_eq str_params_def)
  next
    case (Cons l ls')
    then obtain f where f: "next_line fs st = Some (Some l, st\<lparr>b_files := f\<rparr>)" "gives fs (st\<lparr>b_files := f\<rparr>) ls'" "fi_ungot f = []"
      using next_line_some Nil.prems(3) by fastforce
    have l: "l = ''}'' \<or> wordConf (firstWord l) \<noteq> None" "l \<noteq> []" using Nil.prems(2) Cons by (auto simp: stops_def)
    have "gives fs (unget l (st\<lparr>b_files := f\<rparr>)) (l # ls')" by (rule gives_unget) (use l f in auto)
    moreover have "readKVP fs c st = Some (True, unget l (st\<lparr>b_files := f\<rparr>))"
      using f(1) l word_plain [of "firstWord l"] by (subst readKVP.simps) (auto simp: Let_def)
    ultimately show ?thesis using Nil.prems(4) Cons by (simp add: unget_def ex_bool_eq str_params_def)
  qed
next
  case (Cons kv ps)
  let ?l = "param_line kv"
  obtain f where f: "next_line fs st = Some (Some ?l, st\<lparr>b_files := f\<rparr>)" "gives fs (st\<lparr>b_files := f\<rparr>) (map param_line ps @ ls)"
    using next_line_some Cons.prems(3) by fastforce
  let ?st = "setParam c (fst kv) (CStr (snd kv)) (st\<lparr>b_files := f\<rparr>)"
  have kv: "param_ok kv" "list_all param_ok ps" using Cons.prems(1) by simp_all
  have "?l \<noteq> ''}''" "CHR '':'' \<in> set ?l" by (auto simp: param_line_def append_eq_Cons_conv)
  moreover have "firstWord ?l \<noteq> ''schedule''" "wordConf (firstWord ?l) = None"
    using kv(1) by (simp_all add: firstWord_param param_ok_def Let_def)
  ultimately have k: "readKVP fs c st = readKVP fs c ?st"
    using f(1) by (subst readKVP.simps) (simp add: Let_def addParam_line [OF kv(1)])
  have b: "block_cf (b_conf (st\<lparr>b_files := f\<rparr>)) c w args pcf m" using Cons.prems(4) by simp
  have g: "gives fs ?st (map param_line ps @ ls)" using f(2) setParam_block(3) [OF b] by (simp add: gives_def)
  have m: "m ++ str_params (kv # ps) = (m(fst kv \<mapsto> CStr (snd kv))) ++ str_params ps"
    by (cases kv) (simp add: fun_eq_iff map_add_def str_params_def split: option.split)
  have e: "b_world ?st = b_world st" "cs_ncf (b_conf ?st) = cs_ncf (b_conf st)"
    using setParam_block(2,4) [OF b] by simp_all
  show ?case using Cons.IH [OF kv(2) Cons.prems(2) g setParam_block(1) [OF b]] unfolding k m e .
qed

section \<open>Constructor calls\<close>

definition made_word :: "string \<Rightarrow> bool" where
  "made_word w \<longleftrightarrow> w \<in> {''service'', ''host'', ''group'', ''alias'', ''method'', ''darp'', ''snmpoid'', ''agent''}"

lemma permitted_word: "permitted ptype w level \<Longrightarrow> wordConf w \<noteq> None \<and> made_word w"
  by (auto simp: permitted_def made_word_def wordConf_def confconf_def readconf_def split: option.splits if_splits)

lemma run_recorder:
  assumes "block_cf (b_conf st) c w args pcf m"
  shows "\<exists>st'. run_maker (recorder res maker) object c parent st
      = Some ((case res (length (b_world st)) of Inl e \<Rightarrow> 0 | Inr p \<Rightarrow> if object then p else 0), st')
    \<and> b_files st' = b_files st \<and> cs_ncf (b_conf st') = cs_ncf (b_conf st) \<and> cf_Type (cs_cf (b_conf st') c) = w
    \<and> b_world st' = b_world st @ [\<lparr>cl_maker = maker, cl_Type = w, cl_Name = hd args, cl_Extra = tl args, cl_Param = m, cl_cf = c,
        cl_parent_cf = pcf, cl_parent = parent\<rparr>]"
  using assms
  by (cases "res (length (b_world st))")
    (simp_all add: run_maker_def recorder_def block_cf_def Let_def upd_conf_def cf_Error_def)

lemma hostname_block:
  assumes "block_cf (b_conf st) c ''host'' args pcf (str_params ps)"
  shows "block_cf (b_conf (upd_conf (default_hostname c) st)) c ''host'' args pcf (block_params ''host'' (hd args) ps)"
proof -
  have "param_values (b_conf st) c ''hostname'' = str_params ps ''hostname''" "cf_Name (cs_cf (b_conf st) c) = hd args"
    using assms by (simp_all add: block_cf_def Let_def)
  then have "cf_Param (cs_cf (b_conf st) c) ''hostname'' = None \<longleftrightarrow> str_params ps ''hostname'' = None"
      "cf_Name (cs_cf (b_conf st) c) = hd args"
    by (auto simp: param_values_def)
  then show ?thesis
    using assms set_param_block [OF assms, of "''hostname''" "CStr (hd args)"]
    by (auto simp: upd_conf_def default_hostname_def Let_def block_params_def str_params_def)
qed

lemma hostname_frame: "b_files (upd_conf (default_hostname c) st) = b_files st" "b_world (upd_conf (default_hostname c) st) = b_world st"
    "cs_ncf (b_conf (upd_conf (default_hostname c) st)) = cs_ncf (b_conf st)"
  by (simp_all add: upd_conf_def default_hostname_def Let_def set_param_def)

lemma Make_recorded:
  assumes "made_word w" "block_cf (b_conf st) c w args pcf (str_params ps)"
  shows "\<exists>st'. Make (recorders res) c parent st = Some (made_of res (length (b_world st)) w, st')
    \<and> b_files st' = b_files st \<and> cs_ncf (b_conf st') = cs_ncf (b_conf st) \<and> cf_Type (cs_cf (b_conf st') c) = w
    \<and> b_world st' = b_world st @ [call_of w args ps c pcf parent]"
proof -
  have t: "cf_Type (cs_cf (b_conf st) c) = w" using assms(2) by (simp add: block_cf_def Let_def)
  show ?thesis
  proof (cases "w = ''host''")
    case True
    show ?thesis
      using run_recorder [OF hostname_block [OF assms(2) [unfolded True]], of res "''group''" True parent] t True
      by (cases "res (length (b_world st))")
        (simp_all add: Make_def recorders_def call_of_def made_of_def object_word_def hostname_frame)
  next
    case False
    then have m: "block_params w (hd args) ps = str_params ps" by (simp add: block_params_def str_params_def)
    show ?thesis
      using run_recorder [OF assms(2), of res w "object_word w" parent] assms(1) t False
      by (auto simp: Make_def recorders_def call_of_def made_of_def object_word_def made_word_def m)
  qed
qed

section \<open>Blocks in blocks\<close>

lemma stops_lines: "blocks_ok ptype level bs \<Longrightarrow> stops ls \<Longrightarrow> stops (lines_of bs @ ls)"
proof (induction bs rule: lines_of.induct)
  case (2 w args opn ps inner bs)
  have "wordConf w \<noteq> None" using 2(3) permitted_word [of ptype w level] by simp
  then show ?case using firstWord_header [of w args opn] by (simp add: stops_def header_def)
qed simp

lemma lines_stop: "stops (lines_of bs @ ''}'' # ls)" if "blocks_ok ptype level bs"
  using that stops_lines [of ptype level bs "''}'' # ls"] by (simp add: stops_def)

text \<open>The tail is the end of the block, with \<open>rest\<close> after it, or the end of the input.\<close>

definition closing :: "string list \<Rightarrow> string list \<Rightarrow> bool" where
  "closing ls rest \<longleftrightarrow> ls = ''}'' # rest \<or> ls = [] \<and> rest = []"

lemma readConfigs_calls:
  "blocks_ok ptype level bs \<Longrightarrow> closing ls rest \<Longrightarrow> gives fs st (lines_of bs @ ls) \<Longrightarrow>
   c = cs_ncf (b_conf st) \<Longrightarrow> n = length (b_world st) \<Longrightarrow>
   \<exists>ok st'. readConfigs fs (recorders res) parent pcf ptype level st = Some (ok, st') \<and> gives fs st' rest
     \<and> b_world st' = b_world st @ calls res pcf parent c n bs
     \<and> cs_ncf (b_conf st') = c + length (calls res pcf parent c n bs)"
proof (induction res pcf parent c n bs arbitrary: ptype level ls rest st rule: calls.induct)
  case (1 res pcf parent c n)
  show ?case
  proof (cases ls)
    case Nil
    then obtain f where "next_line fs st = Some (None, st\<lparr>b_files := f\<rparr>)" "gives fs (st\<lparr>b_files := f\<rparr>) []"
      using next_line_none 1 by fastforce
    moreover have "rest = []" using 1 Nil by (simp add: closing_def)
    ultimately show ?thesis using 1 by (subst readConfigs.simps) (simp add: ex_bool_eq)
  next
    case (Cons l ls')
    then have "l = ''}''" "ls' = rest" using 1 by (auto simp: closing_def)
    moreover obtain f where "next_line fs st = Some (Some l, st\<lparr>b_files := f\<rparr>)" "gives fs (st\<lparr>b_files := f\<rparr>) ls'"
      using next_line_some 1 Cons by fastforce
    ultimately show ?thesis using 1 by (subst readConfigs.simps) (simp add: ex_bool_eq)
  qed
next
  case (2 res pcf parent c n w args opn ps inner bs)
  let ?h = "header w args opn"
  let ?tail = "lines_of bs @ ls"
  have p: "permitted ptype w level" and args: "args \<noteq> []" "wr_narg (the (wordConf w)) = 1 \<longrightarrow> length args = 1"
      "list_all (\<lambda>a. CHR 0x22 \<notin> set a) args" and ps: "list_all param_ok ps" and o: "opn \<or> ps = [] \<and> inner = []"
      and inner: "blocks_ok w 0 inner" and bs: "blocks_ok ptype (wr_level (the (wordConf w))) bs"
    using 2(3) by simp_all
  obtain wc where wc: "wordConf w = Some wc" and mw: "made_word w" using permitted_word [OF p] by auto
  obtain f where f: "next_line fs st = Some (Some ?h, st\<lparr>b_files := f\<rparr>)"
      "gives fs (st\<lparr>b_files := f\<rparr>) ((if opn then map param_line ps @ lines_of inner @ [''}''] else []) @ ?tail)"
    using next_line_some 2(5) by fastforce
  obtain st1 where st1: "parseSpec pcf wc ?h (st\<lparr>b_files := f\<rparr>) = Some (c, st1)" "b_files st1 = f" "b_world st1 = b_world st"
      "cs_ncf (b_conf st1) = Suc c" "block_cf (b_conf st1) c w args (Some pcf) Map.empty"
    using parseSpec_header [OF wc args(1) _ args(3), of pcf opn "st\<lparr>b_files := f\<rparr>"] args(2) wc 2(6) by auto
  have hd_h: "?h \<noteq> ''}''" "firstWord ?h = w" "last ?h = CHR ''{'' \<longleftrightarrow> opn"
    using firstWord_header [of w args opn] last_header [OF args(1)] wc by (auto simp: header_def append_eq_Cons_conv)
  define me where "me = call_of w args ps c (Some pcf) parent"
  define nob where "nob = made_of res n w"
  define below where "below = calls res c nob (Suc c) (Suc n) inner"
  have "\<exists>ok st4. (if opn then do {
                   (ok, st) \<leftarrow> readKVP fs c st1;
                   (nob, st) \<leftarrow> Make (recorders res) c parent st;
                   readConfigs fs (recorders res) nob c (cf_Type (cs_cf (b_conf st) c)) 0 st
                 }
                 else map_option (\<lambda>(p, st). (True, st)) (Make (recorders res) c parent st1)) = Some (ok, st4)
       \<and> gives fs st4 ?tail \<and> b_world st4 = b_world st @ me # below \<and> cs_ncf (b_conf st4) = Suc c + length below"
  proof (cases opn)
    case True
    have "gives fs st1 (map param_line ps @ (lines_of inner @ ''}'' # ?tail))"
      using f(2) True by (simp add: gives_def st1(2))
    from readKVP_params [OF ps lines_stop [OF inner] this st1(5)]
    obtain ok2 st2 where st2: "readKVP fs c st1 = Some (ok2, st2)" "gives fs st2 (lines_of inner @ ''}'' # ?tail)"
        "b_world st2 = b_world st" "cs_ncf (b_conf st2) = Suc c" "block_cf (b_conf st2) c w args (Some pcf) (str_params ps)"
      using st1(3,4) by auto
    obtain st3 where st3: "Make (recorders res) c parent st2 = Some (nob, st3)" "b_files st3 = b_files st2"
        "cs_ncf (b_conf st3) = Suc c" "cf_Type (cs_cf (b_conf st3) c) = w" "b_world st3 = b_world st @ [me]"
      using Make_recorded [OF mw st2(5), of res parent] st2(3,4) 2(7) by (auto simp: me_def nob_def)
    have "gives fs st3 (lines_of inner @ ''}'' # ?tail)" using st2(2) by (simp add: gives_def st3(2))
    from 2(1) [OF inner _ this, of ?tail] obtain ok4 st4 where
      "readConfigs fs (recorders res) nob c w 0 st3 = Some (ok4, st4)" "gives fs st4 ?tail"
      "b_world st4 = b_world st3 @ below" "cs_ncf (b_conf st4) = Suc c + length below"
      using st3(3,5) 2(7) by (auto simp: closing_def below_def nob_def)
    then show ?thesis using True st2(1) st3 by simp
  next
    case False
    then have n: "ps = []" "inner = []" using o by simp_all
    obtain st3 where st3: "Make (recorders res) c parent st1 = Some (nob, st3)" "b_files st3 = f"
        "cs_ncf (b_conf st3) = Suc c" "b_world st3 = b_world st @ [me]"
      using Make_recorded [OF mw, of st1 c args "Some pcf" ps res parent] st1 2(7) n
      by (auto simp: me_def nob_def str_params_def)
    moreover have "gives fs st3 ?tail" using f(2) False by (simp add: gives_def st3(2))
    ultimately show ?thesis using False n by (simp add: below_def ex_bool_eq)
  qed
  then obtain ok4 st4 where st4: "(if opn then do {
                   (ok, st) \<leftarrow> readKVP fs c st1;
                   (nob, st) \<leftarrow> Make (recorders res) c parent st;
                   readConfigs fs (recorders res) nob c (cf_Type (cs_cf (b_conf st) c)) 0 st
                 }
                 else map_option (\<lambda>(p, st). (True, st)) (Make (recorders res) c parent st1)) = Some (ok4, st4)"
       "gives fs st4 ?tail" "b_world st4 = b_world st @ me # below" "cs_ncf (b_conf st4) = Suc c + length below" by blast
  have step: "readConfigs fs (recorders res) parent pcf ptype level st = readConfigs fs (recorders res) parent pcf ptype (wr_level wc) st4"
    using f(1) hd_h p wc st1(1) st4(1) by (subst readConfigs.simps) (simp add: Let_def)
  have rest: "calls res pcf parent c n (Block w args opn ps inner # bs)
      = me # below @ calls res pcf parent (Suc c + length below) (Suc n + length below) bs"
    by (simp add: Let_def me_def below_def nob_def)
  have bs': "blocks_ok ptype (wr_level wc) bs" using bs wc by simp
  have "Suc c + length below = cs_ncf (b_conf st4)" "Suc n + length below = length (b_world st4)"
    using st4(3,4) 2(7) by simp_all
  note 2(2) [OF below_def [unfolded nob_def] bs' 2(4) st4(2) this]
  then show ?case unfolding step rest st4(3) by (simp add: add.assoc)
qed

section \<open>The whole configuration\<close>

text \<open>The calls for the top group and the blocks in it.\<close>

definition config_calls :: "(nat \<Rightarrow> string + ptr) \<Rightarrow> (string \<times> string) list \<Rightarrow> block list \<Rightarrow> call list" where
  "config_calls res ps bs =
     call_of ''group'' [''Top''] ps 0 None 0 # calls res 0 (made_of res 0 ''group'') 1 1 bs"

definition empty_conf :: cf_state where
  "empty_conf = \<lparr>cs_cf = (\<lambda>_. \<lparr>cf_parent = None, cf_Type = [], cf_Name = [], cf_Extra = [], cf_File = [], cf_Line = 0,
       cf_Param = Map.empty, cf_cache = None\<rparr>), cs_ncf = 0, cs_cfv = (\<lambda>_. \<lparr>cv_Value = CStr [], cv_Line = 0, cv_Used = False\<rparr>),
     cs_ncfv = 0, cs_log = \<lparr>haveErrors = False, haveWarns = False, logmsgs = []\<rparr>\<rparr>"

text \<open>C4: a configuration means its tree of blocks. When the files, with their includes expanded, are the
  written form of a tree of groups, hosts, services, aliases, methods and so on (nested to any
  depth, arguments quoted, with or without braces, any parameters), reading it calls the
  constructors exactly once for every block, parents before children and in the order of the text,
  and each call gets the type, name, arguments and parameters of its block (the host name when a
  host does not set one), the configuration of the block around it to inherit from and the object
  made for that block. This holds whatever the constructors return, errors included.\<close>

theorem config_roundtrip:
  assumes "reader_files fs fn = (base, names)" "expand_files fs base names (map param_line ps @ lines_of bs)"
    and "list_all param_ok ps" "blocks_ok ''top'' 0 bs"
  shows "\<exists>all st. ReadConfig fs (recorders res) (\<lambda>c p st. Some st) fn empty_conf [] = Some (all, st)
    \<and> b_world st = config_calls res ps bs"
proof -
  obtain f where f: "NewReader fs fn = Some f" "supplies fs f (map param_line ps @ lines_of bs)"
    using reader_lines [OF assms(1,2)] by blast
  obtain conf where c: "NewCF ''group'' ''Top'' None empty_conf = (0, conf)" by (simp add: NewCF_def empty_conf_def Let_def)
  define st0 where "st0 = \<lparr>b_files = f, b_conf = conf\<lparr>cs_cf := (cs_cf conf)(0 := (cs_cf conf 0)\<lparr>cf_File := CurrFile f, cf_Line := 1\<rparr>)\<rparr>,
    b_world = [] :: call list\<rparr>"
  have c0: "cs_ncf (b_conf st0) = 1" "block_cf (b_conf st0) 0 ''group'' [''Top''] None Map.empty"
    using c by (auto simp: st0_def NewCF_def empty_conf_def Let_def block_cf_def param_values_def)
  have g: "gives fs st0 (map param_line ps @ lines_of bs)" using f(2) by (simp add: gives_def st0_def)
  have "stops (lines_of bs)" using stops_lines [OF assms(4), of "[]"] by (simp add: stops_def)
  from readKVP_params [OF assms(3) this g c0(2)] obtain ok1 st1 where
    st1: "readKVP fs 0 st0 = Some (ok1, st1)" "gives fs st1 (lines_of bs)" "b_world st1 = []" "cs_ncf (b_conf st1) = 1"
      "block_cf (b_conf st1) 0 ''group'' [''Top''] None (str_params ps)"
    using c0 by (auto simp: st0_def)
  have "made_word ''group''" by (simp add: made_word_def)
  from Make_recorded [OF this st1(5), of res 0] obtain st2 where
    st2: "Make (recorders res) 0 0 st1 = Some (made_of res 0 ''group'', st2)" "b_files st2 = b_files st1" "cs_ncf (b_conf st2) = 1"
      "b_world st2 = [call_of ''group'' [''Top''] ps 0 None 0]"
    using st1(3,4) by auto
  have "gives fs st2 (lines_of bs @ [])" using st1(2) by (simp add: gives_def st2(2))
  from readConfigs_calls [OF assms(4) _ this refl refl, of "[]" res "made_of res 0 ''group''" 0] obtain ok3 st3 where
    "readConfigs fs (recorders res) (made_of res 0 ''group'') 0 ''top'' 0 st2 = Some (ok3, st3)"
    "b_world st3 = b_world st2 @ calls res 0 (made_of res 0 ''group'') 1 1 bs"
    using st2(3,4) by (auto simp: closing_def)
  then show ?thesis
    using f(1) c st1(1) st2(1,4) by (simp add: ReadConfig_def Let_def st0_def [symmetric] config_calls_def)
qed

definition witness_blocks :: "block list" where
  "witness_blocks = [Block ''group'' [''Net''] True [(''siren'', ''no'')] [Block ''service'' [''Ping''] False [] []]]"

text \<open>A configuration in one file without includes and comments.\<close>

definition one_file :: "string list \<Rightarrow> fsys" where
  "one_file ls = \<lparr>fs_dir = (\<lambda>_. None), fs_read = (\<lambda>p. if p = ''main'' then Some (concat (map (\<lambda>l. l @ [LF]) ls)) else None)\<rparr>"

definition plain_line :: "string \<Rightarrow> bool" where
  "plain_line l \<longleftrightarrow> LF \<notin> set l \<and> length l < BUFSIZE \<and> last l \<noteq> CR \<and> l \<noteq> [] \<and> last l \<noteq> CHR 0x5C \<and> cleanLine l = l
     \<and> \<not> has_prefix l ''include ''"

lemma one_file_expands:
  assumes "list_all plain_line ls"
  shows "reader_files (one_file ls) ''main'' = ([], [''main''])" "expand_files (one_file ls) [] [''main''] ls"
proof -
  show "reader_files (one_file ls) ''main'' = ([], [''main''])" by (simp add: reader_files_def one_file_def last_index_of_def)
  have "expands fs [] [] (concat (map (\<lambda>l. l @ [LF]) ls)) ls" for fs
    using assms
  proof (induction ls)
    case Nil
    show ?case by (simp add: expands.EOF)
  next
    case (Cons l ls)
    then have p: "plain_line l" by simp
    then have "read_line (l @ LF # concat (map (\<lambda>l. l @ [LF]) ls)) = Some (l, concat (map (\<lambda>l. l @ [LF]) ls))"
      by (intro read_line_append) (simp_all add: plain_line_def)
    then have "expands fs [] [] (l @ LF # concat (map (\<lambda>l. l @ [LF]) ls)) (l # ls)"
      by (rule expands.Line) (use Cons p in \<open>simp_all add: plain_line_def joined_def\<close>)
    then show ?case by simp
  qed
  then have "expand_files (one_file ls) [] [''main''] (ls @ [])"
    by (intro expand_files.File [where path = "''main''"] expand_files.Done) (auto simp: path_of_def one_file_def)
  then show "expand_files (one_file ls) [] [''main''] ls" by simp
qed

theorem config_roundtrip_witness:
  "\<exists>all st. ReadConfig (one_file (map param_line [(''frequency'', ''60'')] @ lines_of witness_blocks))
      (recorders (\<lambda>n. Inr (Suc n))) (\<lambda>c p st. Some st) ''main'' empty_conf [] = Some (all, st)
    \<and> map (\<lambda>c. (cl_maker c, cl_Name c, cl_parent_cf c, cl_parent c)) (b_world st)
      = [(''group'', ''Top'', None, 0), (''group'', ''Net'', Some 0, 1), (''service'', ''Ping'', Some 1, 2)]"
proof -
  have "list_all plain_line (map param_line [(''frequency'', ''60'')] @ lines_of witness_blocks)" by code_simp
  note one = one_file_expands [OF this]
  have ok: "list_all param_ok [(''frequency'', ''60'')]" "blocks_ok ''top'' 0 witness_blocks" by code_simp+
  from config_roundtrip [OF one ok, of "\<lambda>n. Inr (Suc n)"] show ?thesis
    by (fastforce simp: config_calls_def call_of_def witness_blocks_def made_of_def object_word_def)
qed

section \<open>Errors\<close>

inductive balanced :: "string list \<Rightarrow> bool" where
  Nil: "balanced []"
| Line: "l \<noteq> ''}'' \<Longrightarrow> last l \<noteq> CHR ''{'' \<Longrightarrow> balanced ls \<Longrightarrow> balanced (l # ls)"
| Nest: "last l = CHR ''{'' \<Longrightarrow> balanced ls1 \<Longrightarrow> balanced ls2 \<Longrightarrow> balanced (l # ls1 @ ''}'' # ls2)"

lemma eatBlock_balanced:
  "balanced ls \<Longrightarrow> gives fs st (ls @ ''}'' # rest) \<Longrightarrow> \<exists>f. eatBlock fs st = Some (st\<lparr>b_files := f\<rparr>) \<and> gives fs (st\<lparr>b_files := f\<rparr>) rest"
proof (induction arbitrary: st rest rule: balanced.induct)
  case Nil
  then obtain f where "next_line fs st = Some (Some ''}'', st\<lparr>b_files := f\<rparr>)" "gives fs (st\<lparr>b_files := f\<rparr>) rest"
    using next_line_some by fastforce
  then show ?case by (subst eatBlock.simps) auto
next
  case (Line l ls)
  then obtain f where f: "next_line fs st = Some (Some l, st\<lparr>b_files := f\<rparr>)" "gives fs (st\<lparr>b_files := f\<rparr>) (ls @ ''}'' # rest)"
    using next_line_some by fastforce
  from Line.IH [OF f(2)] show ?case using Line.hyps f(1) by (subst eatBlock.simps) auto
next
  case (Nest l ls1 ls2)
  then obtain f where f: "next_line fs st = Some (Some l, st\<lparr>b_files := f\<rparr>)"
      "gives fs (st\<lparr>b_files := f\<rparr>) (ls1 @ ''}'' # ls2 @ ''}'' # rest)"
    using next_line_some by fastforce
  from Nest.IH(1) [OF f(2)] obtain g where g: "eatBlock fs (st\<lparr>b_files := f\<rparr>) = Some (st\<lparr>b_files := g\<rparr>)"
      "gives fs (st\<lparr>b_files := g\<rparr>) (ls2 @ ''}'' # rest)" by auto
  have "l \<noteq> ''}''" using Nest.hyps(1) by auto
  then show ?case using Nest.IH(2) [OF g(2)] Nest.hyps(1) f(1) g(1) by (subst eatBlock.simps) auto
qed

text \<open>C37: an error in the configuration costs only the block it is in. A block that is not allowed where it
  stands (an unknown keyword, or one that belongs elsewhere or earlier) is reported with its file
  and line and skipped up to its own closing brace, whatever blocks are inside it; reading then
  goes on with the next line in the same place, and nothing has been constructed or configured.\<close>

theorem bad_block_skipped:
  assumes "\<not> permitted ptype (firstWord l) level" "last l = CHR ''{''" "balanced body"
    and "supplies fs (b_files st) (l # body @ ''}'' # rest)"
  shows "\<exists>f1 f2. NextLine fs (b_files st) = Some (Some l, f1) \<and> supplies fs f2 rest
    \<and> readConfigs fs mk parent pcf ptype level st
      = readConfigs fs mk parent pcf ptype level
          ((errorMessage (firstWord l) (wordConf (firstWord l)) l (st\<lparr>b_files := f1\<rparr>))\<lparr>b_files := f2\<rparr>)"
proof -
  have "gives fs st (l # body @ ''}'' # rest)" using assms(4) by (simp add: gives_def)
  then obtain f1 where f1: "NextLine fs (b_files st) = Some (Some l, f1)" "gives fs (st\<lparr>b_files := f1\<rparr>) (body @ ''}'' # rest)"
    by (auto simp: gives_def)
  define st1 where "st1 = errorMessage (firstWord l) (wordConf (firstWord l)) l (st\<lparr>b_files := f1\<rparr>)"
  have "b_files st1 = f1" by (simp add: st1_def errorMessage_def Let_def upd_conf_def)
  then have "gives fs st1 (body @ ''}'' # rest)" using f1(2) by (simp add: gives_def)
  from eatBlock_balanced [OF assms(3) this] obtain f2 where
    f2: "eatBlock fs st1 = Some (st1\<lparr>b_files := f2\<rparr>)" "gives fs (st1\<lparr>b_files := f2\<rparr>) rest" by blast
  have "l \<noteq> ''}''" using assms(2) by auto
  then have "readConfigs fs mk parent pcf ptype level st = readConfigs fs mk parent pcf ptype level (st1\<lparr>b_files := f2\<rparr>)"
    using f1(1) f2(1) assms(1,2)
    by (subst readConfigs.simps) (simp add: next_line_def Let_def eatConf_def flip: st1_def)
  then show ?thesis using f1(1) f2(2) by (auto simp: gives_def st1_def)
qed

definition witness_bad :: "string list" where
  "witness_bad = [''servce {'', ''group {'', ''}'', ''}'', ''x: 1'']"

theorem bad_block_skipped_witness:
  "\<exists>f f1 f2. NewReader (one_file witness_bad) ''main'' = Some f \<and> NextLine (one_file witness_bad) f = Some (Some ''servce {'', f1)
    \<and> supplies (one_file witness_bad) f2 [''x: 1'']
    \<and> readConfigs (one_file witness_bad) (recorders Inr) 1 0 ''group'' 0 \<lparr>b_files = f, b_conf = empty_conf, b_world = []\<rparr>
      = readConfigs (one_file witness_bad) (recorders Inr) 1 0 ''group'' 0
          ((errorMessage ''servce'' None ''servce {'' \<lparr>b_files = f1, b_conf = empty_conf, b_world = []\<rparr>)\<lparr>b_files := f2\<rparr>)"
proof -
  have "list_all plain_line witness_bad" by code_simp
  from reader_lines [OF one_file_expands [OF this]] obtain f where
    f: "NewReader (one_file witness_bad) ''main'' = Some f" "supplies (one_file witness_bad) f witness_bad" by blast
  have b: "balanced [''group {'', ''}'']" using balanced.Nest [OF _ balanced.Nil balanced.Nil, of "''group {''"] by simp
  have w: "firstWord ''servce {'' = ''servce''" "wordConf ''servce'' = None" "\<not> permitted ''group'' ''servce'' 0" by code_simp+
  have s: "supplies (one_file witness_bad) f (''servce {'' # [''group {'', ''}''] @ ''}'' # [''x: 1''])"
    using f(2) unfolding witness_bad_def by (simp only: append_Cons append_Nil)
  from bad_block_skipped [of "''group''" "''servce {''" 0, unfolded w, OF w(3) _ b,
      of _ "\<lparr>b_files = f, b_conf = empty_conf, b_world = []\<rparr>" "[''x: 1'']" "recorders Inr" 1 0]
  show ?thesis using f(1) s by (simp only: build.simps) force
qed

end
