(* ===== verification/Resolv.thy ===== *)
theory Resolv
  imports Configure GoFloat
begin

text \<open>
  The asynchronous DNS resolver (\<open>src/argus/resolv\<close>): the cache of results with its requests and
  refreshes (\<open>cache.go\<close>), the workers that send queries, match answers and time out
  (\<open>resolv.go\<close>), the choice of an address for a monitor (\<open>ip.go\<close>) and the name servers
  (\<open>config.go\<close>).

  Cached results and pending queries are pointers: a result is shared by the cache, by the query it
  belongs to and by the monitors; a query for both families is pending under two ids. The
  packing of DNS messages, \<open>net.ParseIP\<close>, \<open>ResolveUDPAddr\<close> and the random numbers are parameters.
  Every operation runs under its lock to the end; the clock is read once. \<^const>\<open>None\<close> is a
  panic or a loop that never ends.
\<close>

section \<open>State\<close>

type_synonym rptr = nat
type_synonym pqptr = nat

record cacheResult =
  cr_fqdn :: string
  cr_expires :: int
  cr_ttl :: int
  cr_addrv4 :: "string list"
  cr_addrv6 :: "string list"

record cacheEntry =
  ce_result :: "rptr option"
  ce_updated :: int
  ce_prefm :: int
  ce_underway :: bool

record pendQ =
  pq_name :: string
  pq_zname :: string
  pq_start :: int
  pq_tries :: int
  pq_prefm :: int
  pq_underway4 :: int
  pq_underway6 :: int
  pq_res :: "rptr option"

datatype qtype = TypeA | TypeAAAA

record packet =
  pk_zone :: string
  pk_type :: qtype
  pk_qid :: int
  pk_dst :: string

record rstate =
  rs_cache :: "string \<rightharpoonup> cacheEntry"
  rs_needWhen :: "string \<rightharpoonup> int"
  rs_todo :: "(string \<times> int) list"
  rs_res :: "rptr \<Rightarrow> cacheResult"
  rs_nres :: rptr
  rs_pq :: "pqptr \<Rightarrow> pendQ"
  rs_npq :: pqptr
  rs_rand :: nat                  \<comment> \<open>random numbers drawn so far\<close>
  rs_sent :: "packet list"
  rs_Query :: int
  rs_Drops :: int
  rs_Touts :: int

record workstate =
  w_nqueries :: int
  w_maxqueries :: gofloat
  w_xdelay :: gofloat
  w_nsn :: nat
  w_qid :: int
  w_white :: int
  w_lastrcv :: int
  w_pending :: "int \<rightharpoonup> pqptr"
  w_until :: int                  \<comment> \<open>\<open>xdelay\<close> of \<open>worker\<close>: no new queries before\<close>

record rs_env =
  re_search :: "string list"
  re_server :: "string list"
  re_rand :: "nat \<Rightarrow> int \<Rightarrow> int"   \<comment> \<open>the number drawn as number \<open>k\<close> below a bound\<close>

abbreviation (input) NANOSECONDS :: int where "NANOSECONDS \<equiv> 1000000000"
abbreviation (input) QUERYTIMEOUT :: int where "QUERYTIMEOUT \<equiv> 4 * NANOSECONDS"
abbreviation (input) SERVERDEAD :: int where "SERVERDEAD \<equiv> 10 * NANOSECONDS"
abbreviation (input) MAXTODO :: nat where "MAXTODO \<equiv> 1000"
abbreviation (input) TTL_MIN :: int where "TTL_MIN \<equiv> 60"
abbreviation (input) TTL_MAX :: int where "TTL_MAX \<equiv> 14 * 24 * 3600"
abbreviation (input) TTL_ERR :: int where "TTL_ERR \<equiv> 120"
abbreviation (input) SOONER :: int where "SOONER \<equiv> 2"
abbreviation (input) TRIES :: int where "TRIES \<equiv> 3"
abbreviation (input) F_IP4 :: int where "F_IP4 \<equiv> 1"
abbreviation (input) F_IP6 :: int where "F_IP6 \<equiv> 2"

text \<open>\<open>rand.Intn\<close> panics on a bound that is not positive.\<close>

definition Intn :: "rs_env \<Rightarrow> int \<Rightarrow> rstate \<Rightarrow> (int \<times> rstate) option" where
  "Intn env n st = (if 0 < n then Some (re_rand env (rs_rand st) n, st\<lparr>rs_rand := Suc (rs_rand st)\<rparr>) else None)"

definition upd_pq :: "pqptr \<Rightarrow> (pendQ \<Rightarrow> pendQ) \<Rightarrow> rstate \<Rightarrow> rstate" where
  "upd_pq p g st = st\<lparr>rs_pq := (rs_pq st)(p := g (rs_pq st p))\<rparr>"

definition upd_res :: "rptr \<Rightarrow> (cacheResult \<Rightarrow> cacheResult) \<Rightarrow> rstate \<Rightarrow> rstate" where
  "upd_res r g st = st\<lparr>rs_res := (rs_res st)(r := g (rs_res st r))\<rparr>"

definition new_res :: "string \<Rightarrow> int \<Rightarrow> rstate \<Rightarrow> rptr \<times> rstate" where
  "new_res fqdn ttl st =
     (let r = rs_nres st in
      (r, st\<lparr>rs_nres := Suc r,
             rs_res := (rs_res st)(r := \<lparr>cr_fqdn = fqdn, cr_expires = 0, cr_ttl = ttl, cr_addrv4 = [], cr_addrv6 = []\<rparr>)\<rparr>))"

section \<open>The cache\<close>

text \<open>A send to the full channel is dropped.\<close>

definition query :: "string \<Rightarrow> int \<Rightarrow> rstate \<Rightarrow> bool \<times> rstate" where
  "query name prefm st =
     (if length (rs_todo st) < MAXTODO then (True, st\<lparr>rs_todo := rs_todo st @ [(name, prefm)]\<rparr>)
      else (False, st\<lparr>rs_Drops := rs_Drops st + 1\<rparr>))"

definition new_entry :: cacheEntry where
  "new_entry = \<lparr>ce_result = None, ce_updated = 0, ce_prefm = 0, ce_underway = False\<rparr>"

definition newCacheE :: "string \<Rightarrow> rstate \<Rightarrow> rstate" where
  "newCacheE name st = st\<lparr>rs_cache := (rs_cache st)(name \<mapsto> new_entry)\<rparr>"

text \<open>The entry of a name, made when there is none.\<close>

definition get_entry :: "string \<Rightarrow> rstate \<Rightarrow> cacheEntry \<times> rstate" where
  "get_entry name st =
     (case rs_cache st name of
        Some ce \<Rightarrow> (ce, st)
      | None \<Rightarrow> (new_entry, newCacheE name st))"

definition put_entry :: "string \<Rightarrow> cacheEntry \<Rightarrow> rstate \<Rightarrow> rstate" where
  "put_entry name ce st = st\<lparr>rs_cache := (rs_cache st)(name \<mapsto> ce)\<rparr>"

definition ce_request :: "string \<Rightarrow> cacheEntry \<Rightarrow> int \<Rightarrow> rstate \<Rightarrow> rstate" where
  "ce_request name ce prefm st =
     (let ce = ce\<lparr>ce_prefm := ce_prefm ce OR prefm, ce_underway := True\<rparr>;
          st = st\<lparr>rs_needWhen := (rs_needWhen st)(name := None)\<rparr>;
          (ok, st) = query name (ce_prefm ce) st
      in put_entry name (if ok then ce else ce\<lparr>ce_prefm := 0, ce_underway := False\<rparr>) st)"

definition prefToMask :: "int list \<Rightarrow> int" where
  "prefToMask pref = foldl (\<lambda>m p. if p = 4 then m OR F_IP4 else if p = 6 then m OR F_IP6 else m) 0 pref"

definition Request :: "string \<Rightarrow> int list \<Rightarrow> rstate \<Rightarrow> rstate" where
  "Request name pref st =
     (let prefm = prefToMask pref;
          (ce, st) = get_entry name st
      in if prefm AND ce_prefm ce \<noteq> prefm then ce_request name ce prefm st else st)"

definition refresh :: "string \<Rightarrow> rstate \<Rightarrow> rstate" where
  "refresh name st = (case rs_cache st name of None \<Rightarrow> st | Some ce \<Rightarrow> ce_request name ce 0 st)"

definition cr_size :: "cacheResult \<Rightarrow> nat" where
  "cr_size r = (if cr_addrv4 r \<noteq> [] then 1 else 0) + (if cr_addrv6 r \<noteq> [] then 1 else 0)"

definition res_size :: "rstate \<Rightarrow> rptr option \<Rightarrow> nat" where
  "res_size st r = (case r of None \<Rightarrow> 0 | Some r \<Rightarrow> cr_size (rs_res st r))"

definition addCache :: "string \<Rightarrow> int \<Rightarrow> rptr option \<Rightarrow> int \<Rightarrow> rstate \<Rightarrow> rstate" where
  "addCache name prefm res now st =
     (let (ce, st) = get_entry name st;
          ce = ce\<lparr>ce_prefm := ce_prefm ce OR prefm, ce_underway := False\<rparr>;
          ce = (case ce_result ce of
                  Some r \<Rightarrow> if cr_expires (rs_res st r) < now then ce\<lparr>ce_result := None\<rparr> else ce
                | None \<Rightarrow> ce);
          ce = (if res_size st (ce_result ce) \<le> res_size st res then ce\<lparr>ce_result := res, ce_updated := now\<rparr> else ce)
      in put_entry name ce st)"

definition Result :: "string \<Rightarrow> int \<Rightarrow> rptr option \<Rightarrow> int \<Rightarrow> rstate \<Rightarrow> rstate" where
  "Result name prefm res now st =
     (let st = addCache name prefm res now st in
      case res of
        None \<Rightarrow> st
      | Some r \<Rightarrow> if cr_fqdn (rs_res st r) \<noteq> name then addCache (cr_fqdn (rs_res st r)) prefm res now st else st)"

definition cache_Get :: "string \<Rightarrow> rstate \<Rightarrow> rptr option" where
  "cache_Get name st = (case rs_cache st name of None \<Rightarrow> None | Some ce \<Rightarrow> ce_result ce)"

definition refreshWhen :: "string \<Rightarrow> int \<Rightarrow> rstate \<Rightarrow> rstate" where
  "refreshWhen name w st =
     (if (case rs_needWhen st name of Some cur \<Rightarrow> cur < w | None \<Rightarrow> False) then st
      else st\<lparr>rs_needWhen := (rs_needWhen st)(name \<mapsto> w)\<rparr>)"

definition res_Refresh :: "rptr \<Rightarrow> int \<Rightarrow> int \<Rightarrow> rstate \<Rightarrow> rstate" where
  "res_Refresh r secs now st =
     (let e = rs_res st r in
      if secs = 0 then refresh (cr_fqdn e) st
      else
        let treq = now + (secs - SOONER) * NANOSECONDS in
        if treq < cr_expires e then st else refreshWhen (cr_fqdn e) treq st)"

text \<open>\<open>names\<close> is the order in which the map is visited.\<close>

definition needMaint :: "string list \<Rightarrow> int \<Rightarrow> rstate \<Rightarrow> string list" where
  "needMaint names now st = filter (\<lambda>n. case rs_needWhen st n of None \<Rightarrow> False | Some w \<Rightarrow> w \<le> now) names"

definition cacheMaint :: "string list \<Rightarrow> int \<Rightarrow> rstate \<Rightarrow> rstate" where
  "cacheMaint names now st = foldl (\<lambda>st n. refresh n st) st (needMaint names now st)"

section \<open>Workers\<close>

definition int32 :: "int \<Rightarrow> gofloat" where "int32 i = f_of_int round32 i"

definition XDK_average :: "gofloat \<Rightarrow> gofloat \<Rightarrow> gofloat" where
  "XDK_average old new = fdiv round32 (fadd round32 (fmul round32 (int32 40) old) new) (int32 41)"

definition addDelay :: "int \<Rightarrow> workstate \<Rightarrow> workstate" where
  "addDelay dt w = w\<lparr>w_xdelay := XDK_average (w_xdelay w) (int32 dt)\<rparr>"

definition addMax :: "gofloat \<Rightarrow> workstate \<Rightarrow> workstate" where
  "addMax n w =
     (let m = XDK_average (w_maxqueries w) n;
          m = (if m < int32 1 then int32 1 else m);
          m = (if m > int32 256 then int32 256 else m)
      in w\<lparr>w_maxqueries := m\<rparr>)"

partial_function (option) nextqid :: "rs_env \<Rightarrow> workstate \<Rightarrow> rstate \<Rightarrow> (int \<times> workstate \<times> rstate) option" where
  "nextqid env w st =
     (let w = w\<lparr>w_qid := Next16 (w_qid w)\<rparr> in
      case (if w_qid w = 1 then map_option (\<lambda>(r, st). (w\<lparr>w_white := r\<rparr>, st)) (Intn env 65535 st) else Some (w, st)) of
        None \<Rightarrow> None
      | Some (w, st) \<Rightarrow>
          let i = w_qid w XOR w_white w in
          if i = 0 then nextqid env w st
          else if w_pending w i = None then Some (i, w, st)
          else nextqid env w st)"

definition sendQuery :: "rs_env \<Rightarrow> pqptr \<Rightarrow> string \<Rightarrow> qtype \<Rightarrow> int \<Rightarrow> nat \<Rightarrow> workstate \<times> rstate \<Rightarrow> (workstate \<times> rstate) option" where
  "sendQuery env p zone t qid nsn = (\<lambda>(w, st). do {
     dst \<leftarrow> elem_at (re_server env) (int nsn);
     Some (w\<lparr>w_pending := (w_pending w)(qid \<mapsto> p), w_nqueries := w_nqueries w + 1\<rparr>,
           st\<lparr>rs_sent := rs_sent st @ [\<lparr>pk_zone = zone, pk_type = t, pk_qid = qid, pk_dst = dst\<rparr>], rs_Query := rs_Query st + 1\<rparr>)
   })"

text \<open>Both families set \<open>underway4\<close>.\<close>

definition sendFamily :: "rs_env \<Rightarrow> pqptr \<Rightarrow> int \<Rightarrow> qtype \<Rightarrow> workstate \<times> rstate \<Rightarrow> (workstate \<times> rstate) option" where
  "sendFamily env p fam t = (\<lambda>(w, st).
     if pq_prefm (rs_pq st p) AND fam \<noteq> 0 then do {
       (q, w, st) \<leftarrow> nextqid env w st;
       sendQuery env p (pq_zname (rs_pq st p)) t q (w_nsn w) (w, upd_pq p (\<lambda>x. x\<lparr>pq_underway4 := q\<rparr>) st)
     }
     else Some (w, st))"

definition sendQueryZone :: "rs_env \<Rightarrow> pqptr \<Rightarrow> workstate \<times> rstate \<Rightarrow> (workstate \<times> rstate) option" where
  "sendQueryZone env p ws = do {
     ws \<leftarrow> sendFamily env p F_IP4 TypeA ws;
     (w, st) \<leftarrow> sendFamily env p F_IP6 TypeAAAA ws;
     Some (w, upd_pq p (\<lambda>x. x\<lparr>pq_tries := pq_tries x - 1\<rparr>) st)
   }"

fun foldM :: "('a \<Rightarrow> 's \<Rightarrow> 's option) \<Rightarrow> 'a list \<Rightarrow> 's \<Rightarrow> 's option" where
  "foldM f [] s = Some s"
| "foldM f (x # xs) s = do { s \<leftarrow> f x s; foldM f xs s }"

definition makeQueries :: "rs_env \<Rightarrow> string \<Rightarrow> int \<Rightarrow> int \<Rightarrow> workstate \<times> rstate \<Rightarrow> (workstate \<times> rstate) option" where
  "makeQueries env name prefm now ws =
     (if name = [] then None
      else
        foldM (\<lambda>s (w, st).
            let p = rs_npq st;
                x = \<lparr>pq_name = name, pq_zname = name @ s, pq_start = now, pq_tries = TRIES, pq_prefm = prefm,
                     pq_underway4 = 0, pq_underway6 = 0, pq_res = None\<rparr>
            in sendQueryZone env p (w, st\<lparr>rs_pq := (rs_pq st)(p := x), rs_npq := Suc p\<rparr>))
          (if last name \<noteq> CHR ''.'' then re_search env else [[]]) ws)"

definition pq_done :: "rs_env \<Rightarrow> pqptr \<Rightarrow> int \<Rightarrow> rstate \<Rightarrow> rstate option" where
  "pq_done env p now st = do {
     st \<leftarrow> (if pq_res (rs_pq st p) = None then do {
              (x, st) \<leftarrow> Intn env (TTL_ERR div 10) st;
              let (r, st) = new_res (pq_name (rs_pq st p)) (TTL_ERR + x) st;
              Some (upd_pq p (\<lambda>x. x\<lparr>pq_res := Some r\<rparr>) st)
            }
            else Some st);
     let r = the (pq_res (rs_pq st p));
     let ttl = max TTL_MIN (cr_ttl (rs_res st r));
     let ttl = min TTL_MAX ttl;
     (x, st) \<leftarrow> Intn env (ttl div 10) st;
     let st = upd_res r (\<lambda>y. y\<lparr>cr_ttl := ttl - x, cr_expires := now + (ttl - x) * NANOSECONDS\<rparr>) st;
     Some (Result (pq_name (rs_pq st p)) (pq_prefm (rs_pq st p)) (Some r) now st)
   }"

text \<open>A message as the DNS library unpacks it.\<close>

datatype rdata = RA string | RAAAA string | ROther

record dnsmsg =
  dm_Id :: int
  dm_Response :: bool
  dm_Question :: "string list"
  dm_Answer :: "(int \<times> rdata) list"   \<comment> \<open>TTL and data\<close>

definition addAnswer :: "pqptr \<Rightarrow> int \<times> rdata \<Rightarrow> rstate \<Rightarrow> rstate" where
  "addAnswer p ans st =
     (let st = (case pq_res (rs_pq st p) of
                  Some r \<Rightarrow> st
                | None \<Rightarrow> (let (r, st) = new_res (pq_zname (rs_pq st p)) (fst ans) st in upd_pq p (\<lambda>x. x\<lparr>pq_res := Some r\<rparr>) st));
          r = the (pq_res (rs_pq st p))
      in case snd ans of
           RA a \<Rightarrow> upd_res r (\<lambda>y. y\<lparr>cr_addrv4 := cr_addrv4 y @ [a]\<rparr>) st
         | RAAAA a \<Rightarrow> upd_res r (\<lambda>y. y\<lparr>cr_addrv6 := cr_addrv6 y @ [a]\<rparr>) st
         | ROther \<Rightarrow> st)"

definition forget :: "int \<Rightarrow> workstate \<Rightarrow> workstate" where
  "forget qid w = w\<lparr>w_pending := (w_pending w)(qid := None), w_nqueries := w_nqueries w - 1\<rparr>"

text \<open>Division by zero is the panic of \<open>dt / int64(w.maxqueries)\<close>.\<close>

definition processResult :: "rs_env \<Rightarrow> dnsmsg \<Rightarrow> int \<Rightarrow> workstate \<times> rstate \<Rightarrow> (workstate \<times> rstate) option" where
  "processResult env msg now = (\<lambda>(w, st).
     let qid = dm_Id msg in
     if \<not> dm_Response msg then Some (w, st)
     else
       case w_pending w qid of
         None \<Rightarrow> Some (w, st)
       | Some p \<Rightarrow>
           if dm_Question msg = [] \<or> hd (dm_Question msg) \<noteq> pq_zname (rs_pq st p) then Some (w, st)
           else
             let dt = now - pq_start (rs_pq st p); m = f_to_int64 (w_maxqueries w) in
             if m = 0 then None
             else
               let w = addDelay (dt sdiv m) w;
                   w = forget qid (w\<lparr>w_lastrcv := now\<rparr>);
                   w = addMax (fadd round32 (w_maxqueries w) (int32 1)) w;
                   st = upd_pq p (\<lambda>x. x\<lparr>pq_underway4 := (if pq_underway4 x = qid then 0 else pq_underway4 x),
                                        pq_underway6 := (if pq_underway6 x = qid then 0 else pq_underway6 x)\<rparr>) st;
                   st = foldl (\<lambda>st ans. addAnswer p ans st) st (dm_Answer msg);
                   x = rs_pq st p
               in if pq_underway4 x = 0 \<and> pq_underway6 x = 0 then map_option (\<lambda>st. (w, st)) (pq_done env p now st)
                  else Some (w, st))"

text \<open>\<open>visits\<close> is the order in which the map is visited; entries that are added meanwhile may be in it.
  The first component counts.\<close>

definition timeout_one :: "rs_env \<Rightarrow> int \<Rightarrow> int \<Rightarrow> nat \<times> workstate \<times> rstate \<Rightarrow> (nat \<times> workstate \<times> rstate) option" where
  "timeout_one env now qid = (\<lambda>(nto, w, st).
     case w_pending w qid of
       None \<Rightarrow> Some (nto, w, st)
     | Some p \<Rightarrow>
         if pq_start (rs_pq st p) + QUERYTIMEOUT < now then
           let w = addDelay QUERYTIMEOUT (forget qid w);
               w = addMax (fdiv round32 (w_maxqueries w) (int32 2)) w;
               st = st\<lparr>rs_Touts := rs_Touts st + 1\<rparr>
           in map_option (\<lambda>(w, st). (Suc nto, w, st))
                (if pq_tries (rs_pq st p) > 0 then sendQueryZone env p (w, st)
                 else map_option (\<lambda>st. (w, st)) (pq_done env p now (upd_pq p (\<lambda>x. x\<lparr>pq_underway4 := 0, pq_underway6 := 0\<rparr>) st)))
         else Some (nto, w, st))"

definition timeouts :: "rs_env \<Rightarrow> int list \<Rightarrow> int \<Rightarrow> workstate \<times> rstate \<Rightarrow> (workstate \<times> rstate) option" where
  "timeouts env visits now = (\<lambda>(w, st). do {
     (nto, w, st) \<leftarrow> foldM (timeout_one env now) visits (0, w, st);
     if 0 < nto \<and> w_lastrcv w + SERVERDEAD < now then
       if re_server env = [] then None
       else Some (w\<lparr>w_nsn := (w_nsn w + 1) mod length (re_server env), w_lastrcv := now\<rparr>, st)
     else Some (w, st)
   })"

text \<open>What the loop of a worker receives.\<close>

datatype wevent = WResult dnsmsg int | WTick "int list" int | WQuery int

definition new_worker :: "int \<Rightarrow> int \<Rightarrow> int \<Rightarrow> workstate" where
  "new_worker qid white now =
     \<lparr>w_nqueries = 0, w_maxqueries = int32 1, w_xdelay = fzero, w_nsn = 0, w_qid = qid, w_white = white, w_lastrcv = now,
      w_pending = Map.empty, w_until = now\<rparr>"

definition worker_step :: "rs_env \<Rightarrow> wevent \<Rightarrow> workstate \<times> rstate \<Rightarrow> (workstate \<times> rstate) option" where
  "worker_step env ev = (\<lambda>(w, st).
     case ev of
       WResult msg now \<Rightarrow> processResult env msg now (w, st)
     | WTick visits now \<Rightarrow> timeouts env visits now (w, st)
     | WQuery now \<Rightarrow>
         if w_nqueries w < f_to_int64 (w_maxqueries w) \<and> w_until w \<le> now then
           (case rs_todo st of
              [] \<Rightarrow> Some (w, st)
            | (name, prefm) # rest \<Rightarrow>
                map_option (\<lambda>(w, st). (w\<lparr>w_until := now + f_to_int64 (w_xdelay w)\<rparr>, st))
                  (makeQueries env name prefm now (w, st\<lparr>rs_todo := rest\<rparr>)))
         else Some (w, st))"

section \<open>Addresses of a monitor\<close>

abbreviation (input) TOOLONG :: int where "TOOLONG \<equiv> 300 * NANOSECONDS"

record ip =
  ip_Fqdn :: string
  ip_name :: string
  ip_cache :: "rptr option"
  ip_ipvpref :: "int list"
  ip_asis :: bool
  ip_ipv :: int
  ip_idx :: int
  ip_created :: int

definition confPref :: "string \<Rightarrow> int list" where
  "confPref IPVersion =
     (if IPVersion = [] then [4, 6]
      else concat (map (\<lambda>v. if v = ''4'' then [4] else if v = ''6'' then [6] else []) (go_fields IPVersion)))"

text \<open>The last position at which \<open>p\<close> occurs.\<close>

definition last_index_str :: "string \<Rightarrow> string \<Rightarrow> nat option" where
  "last_index_str p s = map_option (\<lambda>i. length s - length p - i) (index_str (rev p) (rev s))"

text \<open>\<open>parse_ip\<close> is the length of what \<open>net.ParseIP\<close> returns.\<close>

definition ip_Config :: "(string \<Rightarrow> nat option) \<Rightarrow> string \<Rightarrow> string \<Rightarrow> string \<Rightarrow> int \<Rightarrow> rstate \<Rightarrow> (string + ip) \<times> rstate" where
  "ip_Config parse_ip Hostname Hostname2 IPVersion now st =
     (let hostname = (if Hostname = [] then Hostname2 else Hostname);
          x = \<lparr>ip_Fqdn = [], ip_name = [], ip_cache = None, ip_ipvpref = [], ip_asis = False, ip_ipv = 0, ip_idx = 0, ip_created = now\<rparr>
      in if hostname = [] then (Inl ''hostname not specified'', st)
         else
           let name = (if hostname = ''localhost'' then ''127.0.0.1'' else hostname) in
           case parse_ip name of
             Some len \<Rightarrow> (Inr (x\<lparr>ip_ipv := (if 4 < len then 6 else 4), ip_name := name, ip_asis := True\<rparr>), st)
           | None \<Rightarrow>
               let pref = confPref IPVersion;
                   (name, pref) =
                     (case last_index_str ''._ipv'' name of
                        Some ldot \<Rightarrow>
                          if ldot + 6 \<le> length name
                          then (take ldot name, if last name = CHR ''4'' then [4] else if last name = CHR ''6'' then [6] else pref)
                          else (name, pref)
                      | None \<Rightarrow> (name, pref));
                   name = to_lower name
               in (Inr (x\<lparr>ip_name := name, ip_ipvpref := pref\<rparr>), Request name pref st))"

definition useName :: "ip \<Rightarrow> rstate \<Rightarrow> string" where
  "useName a st =
     (if ip_Fqdn a \<noteq> [] then ip_Fqdn a
      else case ip_cache a of
             Some r \<Rightarrow> if cr_fqdn (rs_res st r) \<noteq> [] then cr_fqdn (rs_res st r) else ip_name a
           | None \<Rightarrow> ip_name a)"

text \<open>The loop over the preferred families; a negative index is a panic.\<close>

fun pick_addr :: "int list \<Rightarrow> bool \<Rightarrow> int \<Rightarrow> cacheResult \<Rightarrow> (string \<times> int \<times> bool) option" where
  "pick_addr [] single i e = Some ([], 0, True)"
| "pick_addr (pref # ps) single i e =
     (if pref = 4 \<or> pref = 6 then
        let addrs = (if pref = 4 then cr_addrv4 e else cr_addrv6 e);
            i = (if single \<and> addrs \<noteq> [] then i smod int (length addrs) else i)
        in if int (length addrs) \<le> i then pick_addr ps single (i - int (length addrs)) e
           else map_option (\<lambda>a. (a, pref, False)) (elem_at addrs i)
      else pick_addr ps single i e)"

definition ip_Addr :: "int \<Rightarrow> ip \<Rightarrow> rstate \<Rightarrow> ((string \<times> int \<times> bool) \<times> ip \<times> rstate) option" where
  "ip_Addr now a st =
     (if ip_asis a then Some ((ip_name a, ip_ipv a, False), a, st)
      else
        let a = (case cache_Get (useName a st) st of None \<Rightarrow> a | Some e \<Rightarrow> a\<lparr>ip_cache := Some e\<rparr>) in
        case ip_cache a of
          None \<Rightarrow> Some (([], 0, ip_created a + TOOLONG < now), a, Request (ip_name a) (ip_ipvpref a) st)
        | Some r \<Rightarrow>
            let st = (if cr_expires (rs_res st r) \<le> now then res_Refresh r 0 now st else st);
                e = rs_res st r;
                a = (if ip_Fqdn a = [] \<and> cr_fqdn e \<noteq> [] then a\<lparr>ip_Fqdn := cr_fqdn e\<rparr> else a);
                aln = int (length (cr_addrv4 e) + length (cr_addrv6 e));
                i = (if 0 < aln then ip_idx a smod aln else ip_idx a)
            in map_option (\<lambda>res. (res, a, st)) (pick_addr (ip_ipvpref a) (length (ip_ipvpref a) = 1) i e))"

definition AddrWB :: "int \<Rightarrow> ip \<Rightarrow> rstate \<Rightarrow> ((string \<times> bool) \<times> ip \<times> rstate) option" where
  "AddrWB now a st =
     map_option (\<lambda>((addr, ipv, ok), a, st).
         ((if addr = [] then addr else if ipv = 6 then ''['' @ addr @ '']'' else addr, ok), a, st))
       (ip_Addr now a st)"

definition WillNeedIn :: "int \<Rightarrow> int \<Rightarrow> ip \<Rightarrow> rstate \<Rightarrow> rstate" where
  "WillNeedIn secs now a st =
     (if ip_asis a then st
      else case ip_cache a of
             Some r \<Rightarrow> res_Refresh r secs now st
           | None \<Rightarrow> Request (useName a st) (ip_ipvpref a) st)"

definition TryAnother :: "ip \<Rightarrow> ip" where
  "TryAnother a = a\<lparr>ip_idx := wrap64 (ip_idx a + 1)\<rparr>"

section \<open>Name servers\<close>

text \<open>\<open>resolve\<close> is \<open>net.ResolveUDPAddr\<close> on port 53; a server it cannot resolve ends the program.\<close>

definition addSearch :: "string \<Rightarrow> string list \<Rightarrow> string list option" where
  "addSearch d srch =
     (if d = [] then None
      else
        let d = (if hd d \<noteq> CHR ''.'' then CHR ''.'' # d else d);
            d = (if last d \<noteq> CHR ''.'' then d @ ''.'' else d)
        in Some (srch @ [d]))"

definition addServer :: "(string \<Rightarrow> string option) \<Rightarrow> string \<Rightarrow> string list \<Rightarrow> string list option" where
  "addServer resolve ns servers = map_option (\<lambda>ua. servers @ [ua]) (resolve ns)"

definition resolv_line :: "(string \<Rightarrow> string option) \<Rightarrow> string \<Rightarrow> string list \<times> string list \<Rightarrow> (string list \<times> string list) option" where
  "resolv_line resolve line = (\<lambda>(srch, servers).
     case go_fields (case index_of (\<lambda>c. c = CHR ''#'') line of None \<Rightarrow> line | Some i \<Rightarrow> take i line) of
       [] \<Rightarrow> Some (srch, servers)
     | w # args \<Rightarrow>
         if w = ''search'' \<or> w = ''domain'' then map_option (\<lambda>s. (s, servers)) (foldM addSearch args srch)
         else if w = ''nameserver'' then map_option (\<lambda>s. (srch, s)) (foldM (addServer resolve) args servers)
         else Some (srch, servers))"

text \<open>\<open>lines\<close> are those of \<open>/etc/resolv.conf\<close>, none when it cannot be opened.\<close>

definition resolvConfigure :: "(string \<Rightarrow> string option) \<Rightarrow> string list \<Rightarrow> string list \<Rightarrow> string list \<Rightarrow> (string list \<times> string list) option" where
  "resolvConfigure resolve DNS_search DNS_server lines = do {
     srch \<leftarrow> foldM addSearch DNS_search [''.''];
     servers \<leftarrow> foldM (addServer resolve) DNS_server [];
     (srch, servers) \<leftarrow> (if servers = [] then foldM (resolv_line resolve) lines (srch, servers) else Some (srch, servers));
     servers \<leftarrow> (if servers = [] then addServer resolve ''127.0.0.1'' servers else Some servers);
     Some (srch, servers)
   }"

end
