(* ===== verification/Lfsr.thy ===== *)
theory Lfsr
  imports ArgusBase
begin

unbundle bit_operations_syntax

text \<open>
  The shift register of \<open>src/argus/lfsr/lfsr.go\<close> is linear over the exclusive or, so its powers are
  tables of sixteen numbers that are doubled; they show that it runs through all nonzero numbers.
\<close>

definition taps :: "int \<Rightarrow> int" where
  "taps x = drop_bit 15 x XOR drop_bit 13 x XOR drop_bit 12 x XOR drop_bit 10 x
     XOR drop_bit 6 x XOR drop_bit 5 x XOR drop_bit 2 x XOR x"

definition lstep :: "int \<Rightarrow> int" where
  "lstep x = take_bit 16 (push_bit 1 x XOR take_bit 1 (taps x))"

lemma taps_xor: "taps (x XOR y) = taps x XOR taps y"
  by (simp add: taps_def ac_simps)

lemma lstep_xor: "lstep (x XOR y) = lstep x XOR lstep y"
  by (simp add: lstep_def taps_xor ac_simps)

lemma lstep_0: "lstep 0 = 0"
  by (simp add: lstep_def taps_def)

lemma Next16_lstep: "x \<noteq> 0 \<Longrightarrow> Next16 x = lstep x"
proof -
  assume x: "x \<noteq> 0"
  have "push_bit 1 x OR (taps x AND 1) = push_bit 1 x XOR take_bit 1 (taps x)"
    by (rule bit_eqI) (auto simp only: bit_or_iff bit_xor_iff bit_push_bit_iff bit_and_iff bit_take_bit_iff bit_1_iff)
  moreover have "y AND 0xFFFF = take_bit 16 y" for y :: int
    by (simp add: take_bit_eq_mask mask_eq_exp_minus_1)
  moreover have "Next16 x = (push_bit 1 x OR (taps x AND 1)) AND 0xFFFF"
    by (simp only: Next16_def taps_def Let_def x if_False)
  ultimately show ?thesis by (simp only: lstep_def)
qed

fun lin :: "int list \<Rightarrow> int \<Rightarrow> int" where
  "lin [] x = 0"
| "lin (t # ts) x = (if odd x then t else 0) XOR lin ts (x div 2)"

definition tab :: "nat \<Rightarrow> int list" where
  "tab k = map (\<lambda>i. (lstep ^^ k) (2 ^ i)) [0..<16]"

lemma lstep_pow_xor: "(lstep ^^ k) (x XOR y) = (lstep ^^ k) x XOR (lstep ^^ k) y"
  by (induction k) (simp_all add: lstep_xor)

lemma lstep_pow_0: "(lstep ^^ k) 0 = 0"
  by (induction k) (simp_all add: lstep_0)

lemma lin_table:
  assumes "\<And>x y. f (x XOR y) = f x XOR f y" "f 0 = 0"
  shows "lin (map (\<lambda>i. f (2 ^ (k + i))) [0..<n]) x = f (push_bit k (take_bit n x))"
proof (induction n arbitrary: k x)
  case 0
  show ?case by (simp add: assms(2))
next
  case (Suc n)
  have "map (\<lambda>i. f (2 ^ (k + i))) [0..<Suc n] = f (2 ^ k) # map (\<lambda>i. f (2 ^ (Suc k + i))) [0..<n]"
    by (simp add: map_upt_Suc del: upt_Suc)
  then have "lin (map (\<lambda>i. f (2 ^ (k + i))) [0..<Suc n]) x
      = (if odd x then f (2 ^ k) else 0) XOR f (push_bit (Suc k) (take_bit n (x div 2)))"
    using Suc.IH [of "Suc k"] by simp
  also have "\<dots> = f ((if odd x then 2 ^ k else 0) XOR push_bit (Suc k) (take_bit n (x div 2)))"
    by (simp add: assms)
  also have "(if odd x then 2 ^ k else 0) XOR push_bit (Suc k) (take_bit n (x div 2)) = push_bit k (take_bit (Suc n) x)"
  proof (rule bit_eqI)
    fix i
    have bits: "bit (if odd x then 2 ^ k else 0 :: int) i \<longleftrightarrow> odd x \<and> i = k" by (simp add: bit_exp_iff)
    show "bit ((if odd x then 2 ^ k else 0) XOR push_bit (Suc k) (take_bit n (x div 2))) i = bit (push_bit k (take_bit (Suc n) x)) i"
    proof (cases i k rule: linorder_cases)
      case equal
      then show ?thesis unfolding bit_xor_iff bits by (simp add: bit_simps bit_0)
    next
      case greater
      then obtain j where "i = Suc (k + j)" using less_iff_Suc_add by auto
      then show ?thesis unfolding bit_xor_iff bits
        by (simp only: bit_push_bit_iff bit_take_bit_iff bit_Suc [symmetric]) (simp add: Suc_diff_le bit_Suc)
    next
      case less
      then show ?thesis unfolding bit_xor_iff bits by (simp only: bit_push_bit_iff) simp
    qed
  qed
  finally show ?case .
qed

lemma lin_tab: "0 \<le> x \<Longrightarrow> x < 65536 \<Longrightarrow> lin (tab k) x = (lstep ^^ k) x"
  using lin_table [of "lstep ^^ k" 0 16 x] by (simp add: tab_def lstep_pow_xor lstep_pow_0 take_bit_eq_mod)

lemma lstep_range: "0 \<le> lstep x" "lstep x < 65536"
proof -
  have "0 \<le> take_bit 16 y \<and> take_bit 16 y < 65536" for y :: int using take_bit_int_less_exp [of 16 y] by simp
  then show "0 \<le> lstep x" "lstep x < 65536" unfolding lstep_def by blast+
qed

lemma lstep_pow_range: "0 \<le> x \<Longrightarrow> x < 65536 \<Longrightarrow> 0 \<le> (lstep ^^ k) x \<and> (lstep ^^ k) x < 65536"
  by (induction k) (simp_all add: lstep_range)

lemma tab_add: "tab (a + b) = map (lin (tab a)) (tab b)"
proof -
  have "(lstep ^^ (a + b)) (2 ^ i) = lin (tab a) ((lstep ^^ b) (2 ^ i))" if "i < 16" for i
  proof -
    have "(2 :: int) ^ i < 2 ^ 16" using that by (intro power_strict_increasing) simp_all
    then have "(2 :: int) ^ i < 65536" by simp
    then show ?thesis using lstep_pow_range [of "2 ^ i" b] by (simp add: lin_tab funpow_add)
  qed
  then show ?thesis by (simp add: tab_def comp_def)
qed

lemma tab_double: "tab k = t \<Longrightarrow> tab (2 * k) = map (lin t) t"
  using tab_add [of k k] by (simp add: mult_2)

lemma tab_0: "tab 1 = [3, 4, 9, 16, 32, 65, 129, 256, 512, 1024, 2049, 4096, 8193, 16385, 32768, 1]"
  by (simp add: tab_def upt_rec numeral_2_eq_2 [symmetric] lstep_def taps_def take_bit_eq_mod drop_bit_eq_div push_bit_eq_mult)

lemma tab_1: "tab 2 = [7, 9, 19, 32, 65, 130, 259, 512, 1024, 2049, 4099, 8193, 16386, 32771, 1, 3]"
  using tab_double [OF tab_0] by simp

lemma tab_2: "tab 4 = [29, 39, 79, 130, 260, 521, 1038, 2049, 4099, 8198, 16396, 32772, 8, 13, 7, 14]"
  using tab_double [OF tab_1] by simp

lemma tab_3: "tab 8 = [468, 636, 1273, 2086, 4172, 8345, 16614, 32793, 50, 101, 202, 65, 130, 208, 117, 234]"
  using tab_double [OF tab_2] by simp

lemma tab_4: "tab 16 = [54392, 31881, 63762, 9821, 19643, 39287, 59030, 6484, 12969, 25938, 51877, 16690, 33381, 53427, 29982, 59964]"
  using tab_double [OF tab_3] by simp

lemma tab_5: "tab 32 = [49893, 18222, 36445, 56926, 48317, 31099, 12306, 41665, 17794, 35589, 5643, 61170, 56805, 31022, 12473, 24946]"
  using tab_double [OF tab_4] by simp

lemma tab_6: "tab 64 = [32222, 34403, 3271, 25680, 51361, 37187, 24408, 50031, 34527, 3519, 7038, 19234, 38469, 20820, 57207, 48879]"
  using tab_double [OF tab_5] by simp

lemma tab_7: "tab 128 = [29831, 40328, 15121, 676, 1352, 2704, 24999, 47049, 28562, 57124, 48713, 2069, 4138, 21715, 56609, 47683]"
  using tab_double [OF tab_6] by simp

lemma tab_8: "tab 256 = [16966, 50890, 36245, 22892, 45784, 26032, 35111, 20488, 40977, 16419, 32838, 17099, 34198, 18795, 53393, 41251]"
  using tab_double [OF tab_7] by simp

lemma tab_9: "tab 512 = [21194, 63326, 61116, 36787, 8038, 16077, 12112, 3179, 6358, 12717, 25435, 38013, 10491, 828, 21682, 43365]"
  using tab_double [OF tab_8] by simp

lemma tab_10: "tab 1024 = [5682, 14935, 29871, 65388, 65241, 64946, 60759, 52380, 39225, 12914, 25828, 57339, 49142, 27103, 50572, 35609]"
  using tab_double [OF tab_9] by simp

lemma tab_11: "tab 2048 = [53340, 28900, 57801, 5070, 10141, 20282, 20008, 19468, 38936, 12336, 24673, 4254, 8508, 37413, 62487, 59438]"
  using tab_double [OF tab_10] by simp

lemma tab_12: "tab 4096 = [42679, 60377, 55218, 2515, 5030, 10061, 59436, 30447, 60895, 56254, 46972, 51278, 37021, 34701, 43437, 21339]"
  using tab_double [OF tab_11] by simp

lemma tab_13: "tab 8192 = [24780, 41301, 17067, 58778, 52021, 38506, 19481, 63742, 61948, 58360, 51184, 61228, 56921, 56447, 55347, 45158]"
  using tab_double [OF tab_12] by simp

lemma tab_14: "tab 16384 = [6042, 14510, 29020, 62754, 59973, 54411, 48780, 27267, 54534, 43532, 21529, 49065, 32594, 59710, 50662, 35789]"
  using tab_double [OF tab_13] by simp

lemma tab_15: "tab 32768 = [6411, 11037, 22075, 46461, 27386, 54773, 45792, 31946, 63892, 62248, 58960, 54699, 43863, 20388, 34370, 3205]"
  using tab_double [OF tab_14] by simp

section \<open>The order of one\<close>

lemma pow_add: "0 \<le> (lstep ^^ b) 1 \<Longrightarrow> (lstep ^^ b) 1 < 65536 \<Longrightarrow> (lstep ^^ (a + b)) 1 = lin (tab a) ((lstep ^^ b) 1)"
  by (simp add: funpow_add lin_tab)

lemma pow_one: "(lstep ^^ a) 1 = lin (tab a) 1"
  by (simp add: lin_tab)

lemma pow_255: "(lstep ^^ 255) 1 = 41251"
proof -
  have "(lstep ^^ 1) 1 = 3" by (simp only: pow_one tab_0) simp
  then have "(lstep ^^ 3) 1 = 14" using pow_add [of 1 2] by (simp add: tab_1)
  then have "(lstep ^^ 7) 1 = 234" using pow_add [of 3 4] by (simp add: tab_2)
  then have "(lstep ^^ 15) 1 = 59964" using pow_add [of 7 8] by (simp add: tab_3)
  then have "(lstep ^^ 31) 1 = 24946" using pow_add [of 15 16] by (simp add: tab_4)
  then have "(lstep ^^ 63) 1 = 48879" using pow_add [of 31 32] by (simp add: tab_5)
  then have "(lstep ^^ 127) 1 = 47683" using pow_add [of 63 64] by (simp add: tab_6)
  then have "(lstep ^^ 255) 1 = 41251" using pow_add [of 127 128] by (simp add: tab_7)
  then show ?thesis .
qed

lemma pow_3855: "(lstep ^^ 3855) 1 = 2050"
proof -
  have "(lstep ^^ 1) 1 = 3" by (simp only: pow_one tab_0) simp
  then have "(lstep ^^ 3) 1 = 14" using pow_add [of 1 2] by (simp add: tab_1)
  then have "(lstep ^^ 7) 1 = 234" using pow_add [of 3 4] by (simp add: tab_2)
  then have "(lstep ^^ 15) 1 = 59964" using pow_add [of 7 8] by (simp add: tab_3)
  then have "(lstep ^^ 271) 1 = 14752" using pow_add [of 15 256] by (simp add: tab_8)
  then have "(lstep ^^ 783) 1 = 38346" using pow_add [of 271 512] by (simp add: tab_9)
  then have "(lstep ^^ 1807) 1 = 11714" using pow_add [of 783 1024] by (simp add: tab_10)
  then have "(lstep ^^ 3855) 1 = 2050" using pow_add [of 1807 2048] by (simp add: tab_11)
  then show ?thesis .
qed

lemma pow_13107: "(lstep ^^ 13107) 1 = 31851"
proof -
  have "(lstep ^^ 1) 1 = 3" by (simp only: pow_one tab_0) simp
  then have "(lstep ^^ 3) 1 = 14" using pow_add [of 1 2] by (simp add: tab_1)
  then have "(lstep ^^ 19) 1 = 41926" using pow_add [of 3 16] by (simp add: tab_4)
  then have "(lstep ^^ 51) 1 = 36219" using pow_add [of 19 32] by (simp add: tab_5)
  then have "(lstep ^^ 307) 1 = 16400" using pow_add [of 51 256] by (simp add: tab_8)
  then have "(lstep ^^ 819) 1 = 19412" using pow_add [of 307 512] by (simp add: tab_9)
  then have "(lstep ^^ 4915) 1 = 3413" using pow_add [of 819 4096] by (simp add: tab_12)
  then have "(lstep ^^ 13107) 1 = 31851" using pow_add [of 4915 8192] by (simp add: tab_13)
  then show ?thesis .
qed

lemma pow_21845: "(lstep ^^ 21845) 1 = 19680"
proof -
  have "(lstep ^^ 1) 1 = 3" by (simp only: pow_one tab_0) simp
  then have "(lstep ^^ 5) 1 = 58" using pow_add [of 1 4] by (simp add: tab_2)
  then have "(lstep ^^ 21) 1 = 36632" using pow_add [of 5 16] by (simp add: tab_4)
  then have "(lstep ^^ 85) 1 = 51490" using pow_add [of 21 64] by (simp add: tab_6)
  then have "(lstep ^^ 341) 1 = 12306" using pow_add [of 85 256] by (simp add: tab_8)
  then have "(lstep ^^ 1365) 1 = 4775" using pow_add [of 341 1024] by (simp add: tab_10)
  then have "(lstep ^^ 5461) 1 = 32861" using pow_add [of 1365 4096] by (simp add: tab_12)
  then have "(lstep ^^ 21845) 1 = 19680" using pow_add [of 5461 16384] by (simp add: tab_14)
  then show ?thesis .
qed

lemma pow_65535: "(lstep ^^ 65535) 1 = 1"
proof -
  have "(lstep ^^ 1) 1 = 3" by (simp only: pow_one tab_0) simp
  then have "(lstep ^^ 3) 1 = 14" using pow_add [of 1 2] by (simp add: tab_1)
  then have "(lstep ^^ 7) 1 = 234" using pow_add [of 3 4] by (simp add: tab_2)
  then have "(lstep ^^ 15) 1 = 59964" using pow_add [of 7 8] by (simp add: tab_3)
  then have "(lstep ^^ 31) 1 = 24946" using pow_add [of 15 16] by (simp add: tab_4)
  then have "(lstep ^^ 63) 1 = 48879" using pow_add [of 31 32] by (simp add: tab_5)
  then have "(lstep ^^ 127) 1 = 47683" using pow_add [of 63 64] by (simp add: tab_6)
  then have "(lstep ^^ 255) 1 = 41251" using pow_add [of 127 128] by (simp add: tab_7)
  then have "(lstep ^^ 511) 1 = 43365" using pow_add [of 255 256] by (simp add: tab_8)
  then have "(lstep ^^ 1023) 1 = 35609" using pow_add [of 511 512] by (simp add: tab_9)
  then have "(lstep ^^ 2047) 1 = 59438" using pow_add [of 1023 1024] by (simp add: tab_10)
  then have "(lstep ^^ 4095) 1 = 21339" using pow_add [of 2047 2048] by (simp add: tab_11)
  then have "(lstep ^^ 8191) 1 = 45158" using pow_add [of 4095 4096] by (simp add: tab_12)
  then have "(lstep ^^ 16383) 1 = 35789" using pow_add [of 8191 8192] by (simp add: tab_13)
  then have "(lstep ^^ 32767) 1 = 3205" using pow_add [of 16383 16384] by (simp add: tab_14)
  then have "(lstep ^^ 65535) 1 = 1" using pow_add [of 32767 32768] by (simp add: tab_15)
  then show ?thesis .
qed

section \<open>The cycle\<close>

definition PERIOD :: nat where "PERIOD = 65535"

lemma PERIOD_pos: "0 < PERIOD" "k mod PERIOD < PERIOD"
  by (simp_all add: PERIOD_def)

definition orbit :: "nat \<Rightarrow> int" where
  "orbit k = (lstep ^^ k) 1"

lemma orbit_range: "0 \<le> orbit k \<and> orbit k < 65536"
  using lstep_pow_range [of 1 k] by (simp add: orbit_def)

lemma orbit_add: "orbit (a + b) = (lstep ^^ a) (orbit b)"
  by (simp add: orbit_def funpow_add)

lemma orbit_period: "orbit PERIOD = 1"
  by (simp add: orbit_def pow_65535 PERIOD_def)

lemma orbit_mult: "orbit d = 1 \<Longrightarrow> orbit (d * m + r) = orbit r"
proof (induction m)
  case (Suc m)
  have "orbit (d * Suc m + r) = (lstep ^^ (d * m + r)) (orbit d)"
    using orbit_add [of "d * m + r" d] by (simp add: ac_simps)
  also have "\<dots> = orbit (d * m + r)" using Suc.prems by (simp add: orbit_def)
  finally show ?case using Suc by simp
qed simp

lemma orbit_mod: "orbit d = 1 \<Longrightarrow> orbit (k mod d) = orbit k"
  using orbit_mult [of d "k div d" "k mod d"] by simp

lemma orbit_gcd: "orbit a = 1 \<Longrightarrow> orbit b = 1 \<Longrightarrow> orbit (gcd a b) = 1"
proof (induction a b rule: gcd_nat_induct)
  case (base m)
  then show ?case by simp
next
  case (step m n)
  then show ?case using orbit_mod [of n m] gcd_red_nat [of m n] by simp
qed

lemma prime_divisors:
  assumes "p \<in> {3, 5, 17, 257 :: nat}" "d dvd p"
  shows "d = 1 \<or> d = p"
proof -
  have "list_all (\<lambda>p. list_all (\<lambda>d. p mod d = 0 \<longrightarrow> d = 1 \<or> d = p) [1..<Suc p]) [3, 5, 17, 257 :: nat]" by code_simp
  moreover have "0 < p" using assms(1) by auto
  moreover from this have "0 < d" "d \<le> p" using assms(2) by (auto intro: dvd_imp_le dvd_pos_nat)
  ultimately show ?thesis using assms by (auto simp: list_all_iff dvd_eq_mod_eq_0)
qed

lemma prime_coprime:
  assumes "p \<in> {3, 5, 17, 257 :: nat}" "\<not> p dvd q"
  shows "coprime p q"
proof -
  have "gcd p q \<noteq> p" using assms(2) by (metis gcd_dvd2)
  then show ?thesis using prime_divisors [OF assms(1) gcd_dvd1] by (auto simp: coprime_iff_gcd_eq_1)
qed

lemma period_factors:
  assumes "g dvd PERIOD" "g \<noteq> PERIOD"
  shows "\<exists>k \<in> {21845, 13107, 3855, 255}. g dvd k"
proof -
  obtain q where q: "PERIOD = g * q" using assms(1) by (rule dvdE)
  have pr: "3 dvd q \<or> 5 dvd q \<or> 17 dvd q \<or> 257 dvd q"
  proof (rule ccontr)
    assume "\<not> ?thesis"
    then have "coprime 3 q" "coprime 5 q" "coprime 17 q" "coprime 257 q" using prime_coprime by auto
    then have "coprime (3 * (5 * (17 * 257))) q" by (simp only: coprime_mult_left_iff)
    moreover have "q dvd PERIOD" unfolding q by simp
    then have "q dvd 3 * (5 * (17 * 257))" by (simp add: PERIOD_def)
    ultimately have "is_unit q" by (metis coprime_common_divisor dvd_refl)
    then show False using q assms(2) by simp
  qed
  have "g dvd m" if pm: "PERIOD = p * m" and pq: "p dvd q" and p: "0 < p" for p m
  proof -
    obtain s where "q = p * s" using pq by (rule dvdE)
    then have "p * m = p * (g * s)" using q pm by (simp add: ac_simps)
    then have "m = g * s" using p by simp
    then show ?thesis by simp
  qed
  from this [of 3 21845] this [of 5 13107] this [of 17 3855] this [of 257 255]
  have "3 dvd q \<longrightarrow> g dvd 21845" "5 dvd q \<longrightarrow> g dvd 13107" "17 dvd q \<longrightarrow> g dvd 3855" "257 dvd q \<longrightarrow> g dvd 255"
    by (simp_all add: PERIOD_def)
  with pr show ?thesis by blast
qed

lemma orbit_first: "0 < d \<Longrightarrow> d < PERIOD \<Longrightarrow> orbit d \<noteq> 1"
proof
  assume d: "0 < d" "d < PERIOD" "orbit d = 1"
  let ?g = "gcd d PERIOD"
  have g: "orbit ?g = 1" by (rule orbit_gcd [OF d(3) orbit_period])
  have "?g \<le> d" using d(1) by (simp add: gcd_le1_nat)
  then obtain k where k: "k \<in> {21845, 13107, 3855, 255}" "?g dvd k" using period_factors [of ?g] d(2) by auto
  then have "orbit k = 1" using orbit_mod [OF g, of k] by (auto simp: orbit_def)
  then show False using k(1) by (auto simp: orbit_def pow_255 pow_3855 pow_13107 pow_21845)
qed

lemma orbit_inj: "inj_on orbit {..<PERIOD}"
proof (rule linorder_inj_onI)
  fix i j assume ij: "i < j" "i \<in> {..<PERIOD}" "j \<in> {..<PERIOD}"
  show "orbit i \<noteq> orbit j"
  proof
    assume e: "orbit i = orbit j"
    have "orbit (PERIOD - i + i) = orbit (PERIOD - i + j)" by (simp only: orbit_add e)
    moreover have "PERIOD - i + i = PERIOD" "PERIOD - i + j = PERIOD * 1 + (j - i)" "0 < j - i" "j - i < PERIOD"
      using ij by (auto simp: lessThan_iff)
    ultimately show False using orbit_mult [OF orbit_period, of 1 "j - i"] orbit_period orbit_first [of "j - i"] by metis
  qed
qed auto

lemma orbit_nonzero: "orbit k \<noteq> 0"
proof
  assume "orbit k = 0"
  then have "orbit (PERIOD - k mod PERIOD + k mod PERIOD) = 0"
    using orbit_add [of "PERIOD - k mod PERIOD" "k mod PERIOD"] orbit_mod [OF orbit_period, of k] by (simp add: lstep_pow_0)
  moreover have "PERIOD - k mod PERIOD + k mod PERIOD = PERIOD" using PERIOD_pos(2) [of k] by simp
  ultimately show False using orbit_period by simp
qed

lemma orbit_all: "orbit ` {..<PERIOD} = {1..65535}"
proof (rule card_subset_eq)
  show "orbit ` {..<PERIOD} \<subseteq> {1..65535}"
  proof
    fix y assume "y \<in> orbit ` {..<PERIOD}"
    then obtain k where "y = orbit k" by blast
    then show "y \<in> {1..65535}" using orbit_range [of k] orbit_nonzero [of k] by auto
  qed
  show "card (orbit ` {..<PERIOD}) = card {1..65535 :: int}" using card_image [OF orbit_inj] by (simp add: PERIOD_def)
qed simp

lemma Next16_orbit: "(Next16 ^^ k) (orbit a) = orbit (k + a)"
proof (induction k)
  case (Suc k)
  have "lstep (orbit (k + a)) = orbit (Suc k + a)" by (simp add: orbit_def)
  then show ?case using Suc orbit_nonzero [of "k + a"] by (simp add: Next16_lstep)
qed simp

lemma in_orbit: "1 \<le> x \<Longrightarrow> x \<le> 65535 \<Longrightarrow> \<exists>a < PERIOD. x = orbit a"
  using orbit_all by (metis atLeastAtMost_iff image_iff lessThan_iff)

text \<open>The shift register has the longest period. From every nonzero 16 bit number it reaches every
  other after exactly one number of steps below 65535: all 65535 of them come before one is
  repeated.\<close>

theorem Next16_cycle:
  assumes "1 \<le> x" "x \<le> 65535" "1 \<le> y" "y \<le> 65535"
  shows "\<exists>!k. k < 65535 \<and> (Next16 ^^ k) x = y"
proof -
  obtain a b where a: "a < PERIOD" "x = orbit a" and b: "b < PERIOD" "y = orbit b"
    using in_orbit assms by meson
  have eq: "(Next16 ^^ k) x = y \<longleftrightarrow> (k + a) mod PERIOD = b" for k
  proof -
    have "(Next16 ^^ k) x = orbit ((k + a) mod PERIOD)" by (simp only: a(2) Next16_orbit orbit_mod [OF orbit_period])
    moreover have "(k + a) mod PERIOD < PERIOD" by (rule PERIOD_pos)
    ultimately show ?thesis using orbit_inj b by (auto dest: inj_onD)
  qed
  define c where "c = (if a \<le> b then b - a else b + PERIOD - a)"
  have c: "c < PERIOD" "(c + a) mod PERIOD = b" unfolding c_def using a(1) b(1) by auto
  have u: "k = c" if "k < PERIOD" "(k + a) mod PERIOD = b" for k
  proof (cases "k + a < PERIOD")
    case True
    then show ?thesis using that by (simp add: c_def)
  next
    case False
    then have "(k + a) mod PERIOD = k + a - PERIOD" using that(1) a(1) by (simp add: mod_if)
    then show ?thesis using that False a(1) by (auto simp: c_def)
  qed
  show ?thesis unfolding eq PERIOD_def [symmetric] using c u by blast
qed

theorem Next16_cycle_witness: "\<exists>!k. k < 65535 \<and> (Next16 ^^ k) 1 = 40000"
  by (rule Next16_cycle) simp_all

end
