(* ===== verification/ResolvFacts.thy ===== *)
theory ResolvFacts
  imports Resolv Lfsr HwabSafety
begin

text \<open>
  The resolver does not panic and its books balance: the number of queries underway is the number
  of pending ids, the ids are fresh, the limit stays between 1 and 256. The cache holds only what
  was answered to a question that was asked. A monitor goes through all its addresses in turn.
\<close>

section \<open>Fresh query ids\<close>

definition rand_ok :: "rs_env \<Rightarrow> bool" where
  "rand_ok env \<longleftrightarrow> (\<forall>k n. 0 < n \<longrightarrow> 0 \<le> re_rand env k n \<and> re_rand env k n < n)"

definition u16 :: "int \<Rightarrow> bool" where
  "u16 x \<longleftrightarrow> 0 \<le> x \<and> x \<le> 65535"

lemma u16_xor: "u16 x \<Longrightarrow> u16 y \<Longrightarrow> u16 (x XOR y)"
proof -
  assume "u16 x" "u16 y"
  then have "take_bit 16 x = x" "take_bit 16 y = y" by (simp_all add: u16_def take_bit_eq_mod)
  then have "take_bit 16 (x XOR y) = x XOR y" by simp
  then show ?thesis unfolding u16_def using take_bit_int_less_exp [of 16 "x XOR y"] take_bit_nonnegative [of 16 "x XOR y"] by simp
qed

definition fresh_id :: "workstate \<Rightarrow> int \<Rightarrow> int \<Rightarrow> bool" where
  "fresh_id w white q \<longleftrightarrow> q XOR white \<noteq> 0 \<and> w_pending w (q XOR white) = None"

text \<open>What a call of \<open>nextqid\<close> returns.\<close>

definition gives_id :: "rs_env \<Rightarrow> workstate \<Rightarrow> rstate \<Rightarrow> bool" where
  "gives_id env w st \<longleftrightarrow> (\<exists>i q white k. nextqid env w st = Some (i, w\<lparr>w_qid := q, w_white := white\<rparr>, st\<lparr>rs_rand := k\<rparr>)
     \<and> u16 i \<and> i \<noteq> 0 \<and> w_pending w i = None \<and> u16 q \<and> u16 white)"

lemma gives_id_step:
  assumes "nextqid env w st = nextqid env (w\<lparr>w_qid := q, w_white := u\<rparr>) (st\<lparr>rs_rand := k\<rparr>)"
    and "gives_id env (w\<lparr>w_qid := q, w_white := u\<rparr>) (st\<lparr>rs_rand := k\<rparr>)"
  shows "gives_id env w st"
  using assms by (fastforce simp: gives_id_def)

lemma nextqid_fresh:
  assumes "Next16 (w_qid w) = q" "u16 q" "u16 (w_white w)" "q \<noteq> 1" "fresh_id w (w_white w) q"
  shows "gives_id env w st"
proof -
  have "nextqid env w st = Some (q XOR w_white w, w\<lparr>w_qid := q\<rparr>, st)"
    using assms by (subst nextqid.simps) (simp add: fresh_id_def)
  moreover have "w\<lparr>w_qid := q\<rparr> = w\<lparr>w_qid := q, w_white := w_white w\<rparr>" "st = st\<lparr>rs_rand := rs_rand st\<rparr>"
    by (cases w, simp) (cases st, simp)
  ultimately show ?thesis unfolding gives_id_def
    using assms u16_xor [OF assms(2,3)] by (metis fresh_id_def)
qed

lemma nextqid_again:
  assumes "Next16 (w_qid w) = q" "q \<noteq> 1" "\<not> fresh_id w (w_white w) q" "gives_id env (w\<lparr>w_qid := q\<rparr>) st"
  shows "gives_id env w st"
proof -
  have e: "w\<lparr>w_qid := q\<rparr> = w\<lparr>w_qid := q, w_white := w_white w\<rparr>" "st = st\<lparr>rs_rand := rs_rand st\<rparr>"
    by (cases w, simp) (cases st, simp)
  have "nextqid env w st = nextqid env (w\<lparr>w_qid := q\<rparr>) st"
    using assms(1-3) by (subst nextqid.simps) (auto simp: fresh_id_def Let_def)
  then show ?thesis
    using gives_id_step [of env w st, where q = q and u = "w_white w" and k = "rs_rand st"] assms(4) unfolding e [symmetric] by simp
qed

lemma orbit_Next16: "Next16 (orbit a) = orbit (Suc a)"
  using Next16_orbit [of 1 a] by simp

lemma orbit_u16: "u16 (orbit a)"
  using orbit_range [of a] by (simp add: u16_def)

text \<open>On the way round the register there is no 1 before the end.\<close>

lemma nextqid_before_end:
  "w_qid w = orbit a \<Longrightarrow> u16 (w_white w) \<Longrightarrow> a < b \<Longrightarrow> b < PERIOD \<Longrightarrow> fresh_id w (w_white w) (orbit b) \<Longrightarrow> gives_id env w st"
proof (induction "b - a" arbitrary: a w)
  case (Suc n)
  have q: "Next16 (w_qid w) = orbit (Suc a)" by (simp add: Suc.prems(1) orbit_Next16)
  have one: "orbit (Suc a) \<noteq> 1" using orbit_first [of "Suc a"] Suc.prems(3,4) by simp
  show ?case
  proof (cases "fresh_id w (w_white w) (orbit (Suc a))")
    case True
    then show ?thesis using nextqid_fresh [OF q orbit_u16 Suc.prems(2) one] by simp
  next
    case False
    then have "Suc a < b" using Suc.prems(3,5) by (metis Suc_lessI)
    then have "gives_id env (w\<lparr>w_qid := orbit (Suc a)\<rparr>) st"
      using Suc.hyps(1) [of "Suc a" "w\<lparr>w_qid := orbit (Suc a)\<rparr>"] Suc.hyps(2) Suc.prems by (simp add: fresh_id_def)
    then show ?thesis by (rule nextqid_again [OF q one False])
  qed
qed simp

lemma some_fresh:
  assumes "finite (dom (w_pending w))" "card (dom (w_pending w)) \<le> 65000"
  shows "\<exists>b. 0 < b \<and> b < PERIOD \<and> fresh_id w white (orbit b)"
proof -
  let ?bad = "insert white ((\<lambda>i. i XOR white) ` dom (w_pending w))"
  have "card ?bad \<le> Suc (card (dom (w_pending w)))"
    using assms(1) card_image_le [of "dom (w_pending w)" "\<lambda>i. i XOR white"] by (simp add: card_insert_if)
  moreover have "inj_on orbit {1..<PERIOD}" by (rule inj_on_subset [OF orbit_inj]) (auto simp: lessThan_iff)
  then have "card (orbit ` {1..<PERIOD}) = PERIOD - 1" by (simp add: card_image)
  moreover note this
  ultimately have "card ?bad < card (orbit ` {1..<PERIOD})" using assms(2) by (simp add: PERIOD_def)
  then have "\<not> orbit ` {1..<PERIOD} \<subseteq> ?bad" using assms(1) card_mono [of ?bad] by (metis finite.insertI finite_imageI leD)
  then obtain b where "b \<in> {1..<PERIOD}" "orbit b \<notin> ?bad" by blast
  then have b: "0 < b" "b < PERIOD" "orbit b \<notin> ?bad" by auto
  have x: "(orbit b XOR white) XOR white = orbit b" by (simp add: xor.assoc)
  have "orbit b XOR white \<noteq> 0" using b(3) x by force
  moreover have "w_pending w (orbit b XOR white) = None" using b(3) x by (force simp: dom_def)
  ultimately show ?thesis using b by (auto simp: fresh_id_def)
qed

lemma nextqid_round:
  assumes "rand_ok env" "finite (dom (w_pending w))" "card (dom (w_pending w)) \<le> 65000"
  shows "w_qid w = orbit a \<Longrightarrow> a < PERIOD \<Longrightarrow> u16 (w_white w) \<Longrightarrow> gives_id env w st"
  using assms(2,3)
proof (induction "PERIOD - a" arbitrary: a w)
  case (Suc n)
  have q: "Next16 (w_qid w) = orbit (Suc a)" by (simp add: Suc.prems(1) orbit_Next16)
  show ?case
  proof (cases "Suc a = PERIOD")
    case True
    then have one: "Next16 (w_qid w) = 1" using q orbit_period by simp
    define r where "r = re_rand env (rs_rand st) 65535"
    have r: "u16 r" using assms(1) by (auto simp: r_def rand_ok_def u16_def intro: order_less_imp_le dest: spec)
    let ?w = "w\<lparr>w_qid := 1, w_white := r\<rparr>" and ?st = "st\<lparr>rs_rand := Suc (rs_rand st)\<rparr>"
    have n: "nextqid env w st = (if fresh_id w r 1 then Some (1 XOR r, ?w, ?st) else nextqid env ?w ?st)"
      using one by (subst nextqid.simps) (auto simp: Intn_def r_def fresh_id_def Let_def)
    show ?thesis
    proof (cases "fresh_id w r 1")
      case True
      have "u16 1" by (simp add: u16_def)
      then show ?thesis unfolding gives_id_def using n r True u16_xor [of 1 r]
        by (intro exI [of _ "1 XOR r"] exI [of _ 1] exI [of _ r] exI [of _ "Suc (rs_rand st)"]) (simp add: fresh_id_def)
    next
      case False
      obtain b where "0 < b" "b < PERIOD" "fresh_id w r (orbit b)" using some_fresh Suc.prems(4,5) by blast
      then have "gives_id env ?w ?st"
        using nextqid_before_end [of ?w 0 b env ?st] r by (simp add: fresh_id_def orbit_def)
      then show ?thesis using gives_id_step n False by metis
    qed
  next
    case False
    then have a: "Suc a < PERIOD" using Suc.prems(2) by simp
    have one: "orbit (Suc a) \<noteq> 1" using orbit_first [of "Suc a"] a by simp
    show ?thesis
    proof (cases "fresh_id w (w_white w) (orbit (Suc a))")
      case True
      then show ?thesis using nextqid_fresh [OF q orbit_u16 Suc.prems(3) one] by simp
    next
      case False
      have "gives_id env (w\<lparr>w_qid := orbit (Suc a)\<rparr>) st"
        using Suc.hyps(1) [of "Suc a" "w\<lparr>w_qid := orbit (Suc a)\<rparr>"] Suc.hyps(2) Suc.prems a by simp
      then show ?thesis by (rule nextqid_again [OF q one False])
    qed
  qed
qed simp

lemma nextqid_returns:
  assumes "rand_ok env" "finite (dom (w_pending w))" "card (dom (w_pending w)) \<le> 65000" "u16 (w_qid w)" "u16 (w_white w)"
  shows "gives_id env w st"
proof (cases "w_qid w = 0")
  case True
  have o: "orbit 0 = 1" by (simp add: orbit_def)
  have "gives_id env (w\<lparr>w_qid := 1\<rparr>) st"
    using nextqid_round [OF assms(1), of "w\<lparr>w_qid := 1\<rparr>" 0] assms o PERIOD_pos by simp
  moreover have "Next16 0 = Next16 1" by (simp add: Next16_def)
  then have "nextqid env w st = nextqid env (w\<lparr>w_qid := 1\<rparr>) st"
    using True by (subst (1 2) nextqid.simps) simp
  ultimately show ?thesis by (fastforce simp: gives_id_def)
next
  case False
  then obtain a where "a < PERIOD" "w_qid w = orbit a" using in_orbit [of "w_qid w"] assms(4) by (auto simp: u16_def)
  then show ?thesis using nextqid_round [OF assms(1-3)] assms(5) by simp
qed

section \<open>The limit of queries\<close>

fun posf :: "gofloat \<Rightarrow> bool" where
  "posf NaN = False"
| "posf (Inf s) = (\<not> s)"
| "posf (Num s m) = (\<not> s \<and> 0 \<le> m)"

lemma posf_round: "0 \<le> m \<Longrightarrow> posf (round32 False m)"
  by (simp add: round32_def fround_def Let_def rmag_nonneg)

lemma posf_add: "posf x \<Longrightarrow> posf y \<Longrightarrow> posf (fadd round32 x y)"
  by (cases x; cases y) (auto simp: num_val_def round_signed_def Let_def posf_round)

lemma posf_div: "posf x \<Longrightarrow> 0 < m \<Longrightarrow> posf (fdiv round32 x (Num False m))"
  by (cases x) (auto simp: posf_round)

lemma posf_mul: "0 \<le> v \<Longrightarrow> 0 \<le> m \<Longrightarrow> posf (fmul round32 (Num False m) (Num False v))"
  by (simp add: posf_round)

definition max_ok :: "gofloat \<Rightarrow> bool" where
  "max_ok m \<longleftrightarrow> (\<exists>v. m = Num False v \<and> 1 \<le> v \<and> v \<le> 256)"

lemma int32_small: "\<bar>i\<bar> \<le> 1000 \<Longrightarrow> 0 \<le> i \<Longrightarrow> int32 i = Num False (of_int i)"
  using num32_int [of i] by (simp add: int32_def)

lemma int32_consts: "int32 1 = Num False 1" "int32 2 = Num False 2" "int32 40 = Num False 40" "int32 41 = Num False 41" "int32 256 = Num False 256"
  using int32_small [of 1] int32_small [of 2] int32_small [of 40] int32_small [of 41] int32_small [of 256] by simp_all

lemma addMax_ok: "max_ok (w_maxqueries w) \<Longrightarrow> posf n \<Longrightarrow> max_ok (w_maxqueries (addMax n w))"
proof -
  assume a: "max_ok (w_maxqueries w)" "posf n"
  then have "posf (XDK_average (w_maxqueries w) n)"
    unfolding XDK_average_def int32_consts by (auto simp: max_ok_def simp del: fmul.simps intro!: posf_div posf_add posf_mul)
  then show ?thesis
    by (cases "XDK_average (w_maxqueries w) n")
      (auto simp: addMax_def Let_def int32_consts max_ok_def less_gofloat_def num_val_def)
qed

lemma max_next: "max_ok m \<Longrightarrow> posf (fadd round32 m (int32 1))" "max_ok m \<Longrightarrow> posf (fdiv round32 m (int32 2))"
  unfolding int32_consts by (auto simp: max_ok_def simp del: fadd.simps fdiv.simps intro!: posf_add posf_div)

lemma max_limit: "max_ok m \<Longrightarrow> 1 \<le> f_to_int64 m \<and> f_to_int64 m \<le> 256"
  by (auto simp: max_ok_def Let_def le_floor_iff floor_le_iff)

lemma other_fields: "w_pending (addMax n w) = w_pending w" "w_nqueries (addMax n w) = w_nqueries w" "w_qid (addMax n w) = w_qid w"
    "w_white (addMax n w) = w_white w" "w_nsn (addMax n w) = w_nsn w"
    "w_pending (addDelay d w) = w_pending w" "w_nqueries (addDelay d w) = w_nqueries w" "w_qid (addDelay d w) = w_qid w"
    "w_white (addDelay d w) = w_white w" "w_nsn (addDelay d w) = w_nsn w" "w_maxqueries (addDelay d w) = w_maxqueries w"
    "w_qid (forget q w) = w_qid w" "w_white (forget q w) = w_white w" "w_nsn (forget q w) = w_nsn w"
    "w_maxqueries (forget q w) = w_maxqueries w"
  by (simp_all add: addMax_def addDelay_def forget_def Let_def)

section \<open>Invariants\<close>

definition used :: "workstate \<Rightarrow> nat" where
  "used w = card (dom (w_pending w))"

definition worker_ok :: "rs_env \<Rightarrow> nat \<Rightarrow> workstate \<Rightarrow> bool" where
  "worker_ok env npq w \<longleftrightarrow> finite (dom (w_pending w)) \<and> w_nqueries w = int (used w) \<and> (\<forall>q \<in> dom (w_pending w). u16 q \<and> q \<noteq> 0)
     \<and> (\<forall>p \<in> ran (w_pending w). p < npq) \<and> u16 (w_qid w) \<and> u16 (w_white w) \<and> max_ok (w_maxqueries w)
     \<and> w_nsn w < length (re_server env)"

definition owns :: "rstate \<Rightarrow> pqptr \<Rightarrow> rptr \<Rightarrow> bool" where
  "owns st p r \<longleftrightarrow> p < rs_npq st \<and> pq_res (rs_pq st p) = Some r"

text \<open>\<open>A\<close> holds the answers that were accepted, each with its question.\<close>

definition authentic :: "(string \<times> rdata) set \<Rightarrow> string \<Rightarrow> cacheResult \<Rightarrow> bool" where
  "authentic A z c \<longleftrightarrow> (\<forall>a \<in> set (cr_addrv4 c). (z, RA a) \<in> A) \<and> (\<forall>a \<in> set (cr_addrv6 c). (z, RAAAA a) \<in> A)"

definition names_of :: "rstate \<Rightarrow> pqptr \<Rightarrow> string set" where
  "names_of st p = {pq_name (rs_pq st p), pq_zname (rs_pq st p)}"

definition queries_ok :: "rs_env \<Rightarrow> (string \<times> rdata) set \<Rightarrow> rstate \<Rightarrow> bool" where
  "queries_ok env A st \<longleftrightarrow>
     (\<forall>p < rs_npq st. pq_name (rs_pq st p) \<noteq> []
        \<and> (\<exists>s \<in> insert [] (set (re_search env)). pq_zname (rs_pq st p) = pq_name (rs_pq st p) @ s))
     \<and> (\<forall>p r. owns st p r \<longrightarrow> r < rs_nres st \<and> authentic A (pq_zname (rs_pq st p)) (rs_res st r)
        \<and> cr_fqdn (rs_res st r) \<in> names_of st p)
     \<and> (\<forall>p p' r. owns st p r \<longrightarrow> owns st p' r \<longrightarrow> p = p')"

definition keys_ok :: "rstate \<Rightarrow> bool" where
  "keys_ok st \<longleftrightarrow> (\<forall>n r. cache_Get n st = Some r \<longrightarrow> (\<exists>p. owns st p r \<and> n \<in> names_of st p))"

definition rs_ok :: "rs_env \<Rightarrow> (string \<times> rdata) set \<Rightarrow> rstate \<Rightarrow> bool" where
  "rs_ok env A st \<longleftrightarrow> queries_ok env A st \<and> keys_ok st"

lemma queries_ok_mono: "queries_ok env A st \<Longrightarrow> A \<subseteq> B \<Longrightarrow> queries_ok env B st"
  unfolding queries_ok_def authentic_def by (meson subset_iff)

lemma rs_ok_mono: "rs_ok env A st \<Longrightarrow> A \<subseteq> B \<Longrightarrow> rs_ok env B st"
  using queries_ok_mono by (auto simp: rs_ok_def)

section \<open>Operations on the cache\<close>

text \<open>Everything but the cache, the requests and the counters is the same, and no entry got a result.\<close>

definition cache_step :: "rstate \<Rightarrow> rstate \<Rightarrow> bool" where
  "cache_step st st' \<longleftrightarrow> rs_res st' = rs_res st \<and> rs_nres st' = rs_nres st \<and> rs_pq st' = rs_pq st \<and> rs_npq st' = rs_npq st
     \<and> (\<forall>n. cache_Get n st' = cache_Get n st)"

lemma cache_step_ok: "cache_step st st' \<Longrightarrow> rs_ok env A st \<Longrightarrow> rs_ok env A st'"
  by (auto simp: cache_step_def rs_ok_def queries_ok_def keys_ok_def owns_def names_of_def)

lemma cache_step_refl: "cache_step st st"
  by (simp add: cache_step_def)

lemma cache_step_trans: "cache_step a b \<Longrightarrow> cache_step b c \<Longrightarrow> cache_step a c"
  by (simp add: cache_step_def)

lemma request_step:
  assumes "case rs_cache st name of Some x \<Rightarrow> ce_result ce = ce_result x | None \<Rightarrow> ce_result ce = None"
  shows "cache_step st (ce_request name ce prefm st)"
  using assms by (auto simp: cache_step_def ce_request_def query_def put_entry_def cache_Get_def Let_def split: option.splits)

lemma get_entry_step: "cache_step st (snd (get_entry name st))"
  by (auto simp: cache_step_def get_entry_def newCacheE_def cache_Get_def new_entry_def split: option.splits)

lemma get_entry_cached: "rs_cache (snd (get_entry name st)) name = Some (fst (get_entry name st))"
  by (simp add: get_entry_def newCacheE_def split: option.splits)

lemma Request_step: "cache_step st (Request name pref st)"
proof -
  obtain ce st' where e: "get_entry name st = (ce, st')" by fastforce
  have "cache_step st st'" "rs_cache st' name = Some ce" using get_entry_step [of st name] get_entry_cached [of name st] e by simp_all
  then show ?thesis using e cache_step_trans request_step [where st = st' and ce = ce] by (auto simp: Request_def Let_def)
qed

lemma refresh_step: "cache_step st (refresh name st)"
  using request_step [where st = st] cache_step_refl [of st] by (auto simp: refresh_def split: option.splits)

lemma res_Refresh_step: "cache_step st (res_Refresh r secs now st)"
  using refresh_step [where st = st] cache_step_refl [of st]
  by (auto simp: res_Refresh_def refreshWhen_def Let_def cache_step_def cache_Get_def)

lemma refresh_ok: "rs_ok env A st \<Longrightarrow> rs_ok env A (refresh n st)"
  by (rule cache_step_ok [OF refresh_step])

lemma cacheMaint_ok:
  assumes "rs_ok env A st"
  shows "rs_ok env A (cacheMaint names now st)"
proof -
  have "rs_ok env A (foldl (\<lambda>st n. refresh n st) st ns)" for ns
    using assms by (induction ns arbitrary: st) (simp_all add: refresh_ok)
  then show ?thesis by (simp add: cacheMaint_def)
qed

section \<open>Results\<close>

lemma queries_frame:
  "rs_res st' = rs_res st \<Longrightarrow> rs_nres st' = rs_nres st \<Longrightarrow> rs_pq st' = rs_pq st \<Longrightarrow> rs_npq st' = rs_npq st \<Longrightarrow>
   queries_ok env A st \<Longrightarrow> queries_ok env A st'"
  by (simp add: queries_ok_def owns_def names_of_def)

lemma addCache_frame: "rs_res (addCache n m r now st) = rs_res st" "rs_nres (addCache n m r now st) = rs_nres st"
    "rs_pq (addCache n m r now st) = rs_pq st" "rs_npq (addCache n m r now st) = rs_npq st" "rs_todo (addCache n m r now st) = rs_todo st"
  by (simp_all add: addCache_def get_entry_def newCacheE_def put_entry_def Let_def split: option.splits)

lemma addCache_Get: "cache_Get k (addCache n m r now st) = Some x \<Longrightarrow> cache_Get k st = Some x \<or> k = n \<and> r = Some x"
  by (auto simp: cache_Get_def addCache_def get_entry_def newCacheE_def put_entry_def new_entry_def Let_def split: option.splits if_splits)

lemma addCache_names: "dom (rs_cache (addCache n m r now st)) = insert n (dom (rs_cache st))"
  by (auto simp: addCache_def get_entry_def newCacheE_def put_entry_def Let_def split: option.splits)

lemma addCache_ok:
  assumes "rs_ok env A st" "owns st p r" "n \<in> names_of st p"
  shows "rs_ok env A (addCache n m (Some r) now st)"
proof -
  let ?st = "addCache n m (Some r) now st"
  have "queries_ok env A ?st" using queries_frame [OF addCache_frame(1-4)] assms(1) by (simp add: rs_ok_def)
  moreover have o: "owns ?st q x \<longleftrightarrow> owns st q x" "names_of ?st q = names_of st q" for q x
    by (simp_all add: owns_def names_of_def addCache_frame)
  have "\<exists>q. owns st q x \<and> k \<in> names_of st q" if "cache_Get k ?st = Some x" for k x
    using addCache_Get [OF that] assms(1-3) by (auto simp: rs_ok_def keys_ok_def)
  then have "keys_ok ?st" unfolding keys_ok_def o by blast
  ultimately show ?thesis by (simp add: rs_ok_def)
qed

lemma Result_ok:
  assumes "rs_ok env A st" "owns st p r"
  shows "rs_ok env A (Result (pq_name (rs_pq st p)) m (Some r) now st)"
proof -
  let ?n = "pq_name (rs_pq st p)"
  have p: "p < rs_npq st" using assms(2) by (simp add: owns_def)
  have n: "?n \<in> names_of st p" by (simp add: names_of_def)
  let ?st = "addCache ?n m (Some r) now st"
  have st: "rs_ok env A ?st" by (rule addCache_ok [OF assms n])
  have f: "cr_fqdn (rs_res st r) \<in> names_of st p" using assms by (auto simp: rs_ok_def queries_ok_def)
  have o: "owns ?st p r" "names_of ?st p = names_of st p" using assms(2) by (simp_all add: owns_def names_of_def addCache_frame)
  show ?thesis
    using addCache_ok [OF st o(1)] f st by (auto simp: Result_def Let_def addCache_frame o(2))
qed

lemma Result_npq: "rs_npq (Result n m r now st) = rs_npq st"
  by (simp add: Result_def Let_def addCache_frame split: option.splits)

lemma upd_pq_ok:
  assumes "rs_ok env A st" "\<And>x. pq_name (g x) = pq_name x \<and> pq_zname (g x) = pq_zname x \<and> pq_res (g x) = pq_res x"
  shows "rs_ok env A (upd_pq p g st)"
proof -
  have o: "owns (upd_pq p g st) q r \<longleftrightarrow> owns st q r" "names_of (upd_pq p g st) q = names_of st q"
      "pq_name (rs_pq (upd_pq p g st) q) = pq_name (rs_pq st q)" "pq_zname (rs_pq (upd_pq p g st) q) = pq_zname (rs_pq st q)" for q r
    using assms(2) by (simp_all add: owns_def names_of_def upd_pq_def)
  have f: "cache_Get n (upd_pq p g st) = cache_Get n st" "rs_res (upd_pq p g st) = rs_res st" "rs_nres (upd_pq p g st) = rs_nres st"
      "rs_npq (upd_pq p g st) = rs_npq st" "rs_cache (upd_pq p g st) = rs_cache st" "rs_todo (upd_pq p g st) = rs_todo st" for n
    by (simp_all add: upd_pq_def cache_Get_def)
  show ?thesis using assms(1) unfolding rs_ok_def queries_ok_def keys_ok_def o f .
qed

lemma upd_res_ok:
  assumes "rs_ok env A st" "owns st p r"
    and "authentic A (pq_zname (rs_pq st p)) (rs_res st r) \<Longrightarrow> authentic A (pq_zname (rs_pq st p)) (g (rs_res st r))"
    and "cr_fqdn (g (rs_res st r)) = cr_fqdn (rs_res st r)"
  shows "rs_ok env A (upd_res r g st)"
proof -
  have o: "owns (upd_res r g st) q x \<longleftrightarrow> owns st q x" "names_of (upd_res r g st) q = names_of st q" for q x
    by (simp_all add: owns_def names_of_def upd_res_def)
  have f: "cache_Get n (upd_res r g st) = cache_Get n st" "rs_pq (upd_res r g st) = rs_pq st" "rs_nres (upd_res r g st) = rs_nres st"
      "rs_npq (upd_res r g st) = rs_npq st" "rs_cache (upd_res r g st) = rs_cache st" "rs_todo (upd_res r g st) = rs_todo st" for n
    by (simp_all add: upd_res_def cache_Get_def)
  have "authentic A (pq_zname (rs_pq st q)) (rs_res (upd_res r g st) x) \<and> cr_fqdn (rs_res (upd_res r g st) x) \<in> names_of st q"
    if q: "owns st q x" for q x
  proof (cases "x = r")
    case True
    then have "q = p" using assms(1,2) q by (simp add: rs_ok_def queries_ok_def)
    then show ?thesis using assms q True by (simp add: rs_ok_def queries_ok_def upd_res_def)
  next
    case False
    then show ?thesis using assms(1) q by (simp add: rs_ok_def queries_ok_def upd_res_def)
  qed
  then show ?thesis using assms(1) unfolding rs_ok_def queries_ok_def keys_ok_def o f by blast
qed

text \<open>A query without a result gets one.\<close>

definition give_res :: "pqptr \<Rightarrow> string \<Rightarrow> int \<Rightarrow> rstate \<Rightarrow> rstate" where
  "give_res p fqdn ttl st = (let (r, st) = new_res fqdn ttl st in upd_pq p (\<lambda>x. x\<lparr>pq_res := Some r\<rparr>) st)"

lemma give_res_frame: "rs_npq (give_res p f t st) = rs_npq st" "pq_name (rs_pq (give_res p f t st) q) = pq_name (rs_pq st q)"
    "pq_zname (rs_pq (give_res p f t st) q) = pq_zname (rs_pq st q)" "pq_res (rs_pq (give_res p f t st) p) = Some (rs_nres st)"
    "names_of (give_res p f t st) q = names_of st q"
  by (simp_all add: give_res_def new_res_def upd_pq_def Let_def names_of_def)

lemma give_res_ok:
  assumes "rs_ok env A st" "p < rs_npq st" "pq_res (rs_pq st p) = None" "fqdn \<in> names_of st p"
  shows "rs_ok env A (give_res p fqdn ttl st)"
proof -
  let ?st = "give_res p fqdn ttl st" and ?r = "rs_nres st"
  have o: "owns ?st q x \<longleftrightarrow> owns st q x \<or> q = p \<and> x = ?r" for q x
    using assms(2,3) by (auto simp: owns_def give_res_def new_res_def upd_pq_def Let_def)
  have new: "\<not> owns st q ?r" for q using assms(1) by (fastforce simp: rs_ok_def queries_ok_def)
  have f: "cache_Get n ?st = cache_Get n st" "rs_nres ?st = Suc ?r" "rs_cache ?st = rs_cache st" "rs_todo ?st = rs_todo st"
      "rs_res ?st x = (if x = ?r then \<lparr>cr_fqdn = fqdn, cr_expires = 0, cr_ttl = ttl, cr_addrv4 = [], cr_addrv6 = []\<rparr> else rs_res st x)" for n x
    by (simp_all add: give_res_def new_res_def upd_pq_def Let_def cache_Get_def)
  have "x < Suc ?r \<and> authentic A (pq_zname (rs_pq st q)) (rs_res ?st x) \<and> cr_fqdn (rs_res ?st x) \<in> names_of st q" if "owns ?st q x" for q x
    using that assms(1,4) new by (auto simp: o f rs_ok_def queries_ok_def authentic_def less_Suc_eq)
  moreover have "q = q'" if "owns ?st q x" "owns ?st q' x" for q q' x
    using that assms(1) new by (auto simp: o rs_ok_def queries_ok_def)
  ultimately have "queries_ok env A ?st" using assms(1)
    unfolding queries_ok_def rs_ok_def give_res_frame f by blast
  moreover have "keys_ok ?st" using assms(1) unfolding keys_ok_def rs_ok_def f give_res_frame o by blast
  ultimately show ?thesis by (simp add: rs_ok_def)
qed

lemma Intn_ok: "0 < n \<Longrightarrow> \<exists>x. Intn env n st = Some (x, st\<lparr>rs_rand := Suc (rs_rand st)\<rparr>)"
  by (simp add: Intn_def)

lemma rand_frame: "rs_ok env A (st\<lparr>rs_rand := k\<rparr>) = rs_ok env A st"
  by (simp add: rs_ok_def queries_ok_def keys_ok_def owns_def names_of_def cache_Get_def)

lemma done_result:
  assumes "rs_ok env A st" "p < rs_npq st"
  shows "\<exists>st'. (if pq_res (rs_pq st p) = None then do {
              (x, st) \<leftarrow> Intn env (TTL_ERR div 10) st;
              let (r, st) = new_res (pq_name (rs_pq st p)) (TTL_ERR + x) st;
              Some (upd_pq p (\<lambda>x. x\<lparr>pq_res := Some r\<rparr>) st)
            }
            else Some st) = Some st' \<and> rs_ok env A st' \<and> rs_npq st' = rs_npq st \<and> pq_res (rs_pq st' p) \<noteq> None
    \<and> pq_name (rs_pq st' p) = pq_name (rs_pq st p)"
proof (cases "pq_res (rs_pq st p) = None")
  case True
  obtain x where x: "Intn env (TTL_ERR div 10) st = Some (x, st\<lparr>rs_rand := Suc (rs_rand st)\<rparr>)"
    using Intn_ok [of "TTL_ERR div 10" env st] by auto
  let ?st = "st\<lparr>rs_rand := Suc (rs_rand st)\<rparr>"
  have "rs_ok env A (give_res p (pq_name (rs_pq st p)) (TTL_ERR + x) ?st)"
    using assms True by (intro give_res_ok) (simp_all add: rand_frame names_of_def)
  moreover have "(let (r, st) = new_res (pq_name (rs_pq ?st p)) (TTL_ERR + x) ?st in Some (upd_pq p (\<lambda>x. x\<lparr>pq_res := Some r\<rparr>) st))
      = Some (give_res p (pq_name (rs_pq st p)) (TTL_ERR + x) ?st)"
    by (simp add: give_res_def split: prod.splits)
  ultimately show ?thesis using x True give_res_frame [of p "pq_name (rs_pq st p)" "TTL_ERR + x" ?st] by simp
next
  case False
  then show ?thesis using assms by (simp only: if_False) simp
qed

lemma pq_done_ok:
  assumes "rs_ok env A st" "p < rs_npq st"
  shows "\<exists>st'. pq_done env p now st = Some st' \<and> rs_ok env A st' \<and> rs_npq st' = rs_npq st"
proof -
  obtain st1 where st1: "(if pq_res (rs_pq st p) = None then do {
              (x, st) \<leftarrow> Intn env (TTL_ERR div 10) st;
              let (r, st) = new_res (pq_name (rs_pq st p)) (TTL_ERR + x) st;
              Some (upd_pq p (\<lambda>x. x\<lparr>pq_res := Some r\<rparr>) st)
            }
            else Some st) = Some st1" and ok1: "rs_ok env A st1" and n1: "rs_npq st1 = rs_npq st" and r1: "pq_res (rs_pq st1 p) \<noteq> None"
    using done_result [OF assms] by blast
  obtain r where r: "pq_res (rs_pq st1 p) = Some r" using r1 by blast
  define ttl where "ttl = min TTL_MAX (max TTL_MIN (cr_ttl (rs_res st1 r)))"
  have "60 \<le> ttl" by (simp add: ttl_def)
  then have "0 < ttl div 10" by linarith
  then obtain x where x: "Intn env (ttl div 10) st1 = Some (x, st1\<lparr>rs_rand := Suc (rs_rand st1)\<rparr>)" using Intn_ok by blast
  let ?g = "\<lambda>y. y\<lparr>cr_ttl := ttl - x, cr_expires := now + (ttl - x) * NANOSECONDS\<rparr>"
  let ?st2 = "upd_res r ?g (st1\<lparr>rs_rand := Suc (rs_rand st1)\<rparr>)"
  have o: "owns (st1\<lparr>rs_rand := Suc (rs_rand st1)\<rparr>) p r" using assms(2) n1 r by (simp add: owns_def)
  have "rs_ok env A ?st2" by (rule upd_res_ok [OF _ o]) (simp_all add: rand_frame ok1 authentic_def)
  moreover have "owns ?st2 p r" using o by (simp add: owns_def upd_res_def)
  ultimately
  have "rs_ok env A (Result (pq_name (rs_pq ?st2 p)) (pq_prefm (rs_pq ?st2 p)) (Some r) now ?st2)" by (rule Result_ok)
  moreover have "pq_done env p now st = Some (Result (pq_name (rs_pq ?st2 p)) (pq_prefm (rs_pq ?st2 p)) (Some r) now ?st2)"
    unfolding pq_done_def st1 using x by (simp add: r Let_def ttl_def)
  ultimately show ?thesis using n1 by (simp add: Result_npq upd_res_def)
qed

section \<open>Sending\<close>

text \<open>The state of a worker and of the cache after a step that sends at most \<open>n\<close> queries.\<close>

definition after :: "rs_env \<Rightarrow> (string \<times> rdata) set \<Rightarrow> nat \<Rightarrow> workstate \<times> rstate \<Rightarrow> workstate \<times> rstate \<Rightarrow> bool" where
  "after env A n ws ws' \<longleftrightarrow> worker_ok env (rs_npq (snd ws')) (fst ws') \<and> rs_ok env A (snd ws') \<and> used (fst ws') \<le> used (fst ws) + n
     \<and> rs_npq (snd ws) \<le> rs_npq (snd ws')"

lemma worker_ok_mono: "worker_ok env n w \<Longrightarrow> n \<le> m \<Longrightarrow> worker_ok env m w"
  by (fastforce simp: worker_ok_def)

lemma after_trans:
  "after env A n a b \<Longrightarrow> after env A m b c \<Longrightarrow> after env A (n + m) a c"
  by (auto simp: after_def)

lemma counters_ok: "rs_ok env A (st\<lparr>rs_sent := x, rs_Query := y\<rparr>) = rs_ok env A st" "rs_ok env A (st\<lparr>rs_Touts := y\<rparr>) = rs_ok env A st"
  by (simp_all add: rs_ok_def queries_ok_def keys_ok_def owns_def names_of_def cache_Get_def)

lemma sendFamily_ok:
  assumes "rand_ok env" "worker_ok env (rs_npq st) w" "rs_ok env A st" "p < rs_npq st" "used w \<le> 65000"
  shows "\<exists>ws'. sendFamily env p fam t (w, st) = Some ws' \<and> after env A 1 (w, st) ws'"
proof (cases "pq_prefm (rs_pq st p) AND fam = 0")
  case True
  then show ?thesis using assms by (simp add: sendFamily_def after_def)
next
  case False
  have "gives_id env w st"
    using nextqid_returns [OF assms(1), of w st] assms(2,5) by (simp add: worker_ok_def used_def)
  then obtain i q white k where n: "nextqid env w st = Some (i, w\<lparr>w_qid := q, w_white := white\<rparr>, st\<lparr>rs_rand := k\<rparr>)"
      "u16 i" "i \<noteq> 0" "w_pending w i = None" "u16 q" "u16 white"
    unfolding gives_id_def by blast
  let ?w = "w\<lparr>w_qid := q, w_white := white\<rparr>" and ?st = "upd_pq p (\<lambda>x. x\<lparr>pq_underway4 := i\<rparr>) (st\<lparr>rs_rand := k\<rparr>)"
  define dst where "dst = re_server env ! w_nsn w"
  have d: "elem_at (re_server env) (int (w_nsn w)) = Some dst" using assms(2) by (simp add: elem_at_def worker_ok_def dst_def)
  let ?w' = "?w\<lparr>w_pending := (w_pending ?w)(i \<mapsto> p), w_nqueries := w_nqueries ?w + 1\<rparr>"
  let ?st' = "?st\<lparr>rs_sent := rs_sent ?st @ [\<lparr>pk_zone = pq_zname (rs_pq st p), pk_type = t, pk_qid = i, pk_dst = dst\<rparr>], rs_Query := rs_Query ?st + 1\<rparr>"
  have s: "sendFamily env p fam t (w, st) = Some (?w', ?st')"
    using False n(1) d by (simp add: sendFamily_def sendQuery_def)
  have "i \<notin> dom (w_pending w)" using n(4) by auto
  then have u: "used ?w' = Suc (used w)" using assms(2) by (simp add: used_def worker_ok_def)
  have "rs_ok env A ?st" by (rule upd_pq_ok) (simp_all add: rand_frame assms(3))
  then have "rs_ok env A ?st'" by (simp add: counters_ok)
  moreover have "worker_ok env (rs_npq ?st') ?w'"
    using assms(2,4) n u by (auto simp: worker_ok_def upd_pq_def ran_def split: if_splits)
  ultimately show ?thesis using s u by (simp add: after_def upd_pq_def)
qed

lemma sendQueryZone_ok:
  assumes "rand_ok env" "worker_ok env (rs_npq st) w" "rs_ok env A st" "p < rs_npq st" "used w < 65000"
  shows "\<exists>ws'. sendQueryZone env p (w, st) = Some ws' \<and> after env A 2 (w, st) ws'"
proof -
  obtain w1 st1 where s1: "sendFamily env p F_IP4 TypeA (w, st) = Some (w1, st1)" "after env A 1 (w, st) (w1, st1)"
    using sendFamily_ok [OF assms(1-4)] assms(5) by (metis less_imp_le prod.exhaust)
  then obtain w2 st2 where s2: "sendFamily env p F_IP6 TypeAAAA (w1, st1) = Some (w2, st2)" "after env A 1 (w1, st1) (w2, st2)"
    using sendFamily_ok [OF assms(1), of st1 w1 A p] assms(4,5) by (fastforce simp: after_def)
  have a: "after env A 2 (w, st) (w2, st2)" using after_trans [OF s1(2) s2(2)] by (simp add: numeral_2_eq_2)
  then have "rs_ok env A (upd_pq p (\<lambda>x. x\<lparr>pq_tries := pq_tries x - 1\<rparr>) st2)" by (intro upd_pq_ok) (simp_all add: after_def)
  then show ?thesis using a s1(1) s2(1) by (simp add: sendQueryZone_def after_def upd_pq_def)
qed

lemma foldM_invariant:
  assumes "\<And>x s n. x \<in> set xs \<Longrightarrow> P n s \<Longrightarrow> Suc n \<le> N \<Longrightarrow> \<exists>s'. f x s = Some s' \<and> P (Suc n) s'"
  shows "P n s \<Longrightarrow> n + length xs \<le> N \<Longrightarrow> \<exists>s'. foldM f xs s = Some s' \<and> P (n + length xs) s'"
  using assms
proof (induction xs arbitrary: n s)
  case (Cons x xs)
  then obtain s' where s': "f x s = Some s'" "P (Suc n) s'" by (metis add_leD1 add_Suc_right add_Suc_shift length_Cons list.set_intros(1))
  have "\<exists>s''. foldM f xs s' = Some s'' \<and> P (Suc n + length xs) s''"
    by (rule Cons.IH) (use Cons.prems s' in auto)
  then show ?case using s' by simp
qed simp

lemma new_query_ok:
  assumes "rs_ok env A st" "name \<noteq> []" "s \<in> insert [] (set (re_search env))"
  shows "rs_ok env A (st\<lparr>rs_pq := (rs_pq st)(rs_npq st := \<lparr>pq_name = name, pq_zname = name @ s, pq_start = now, pq_tries = tr, pq_prefm = m,
                     pq_underway4 = 0, pq_underway6 = 0, pq_res = None\<rparr>), rs_npq := Suc (rs_npq st)\<rparr>)" (is "rs_ok env A ?st")
proof -
  have o: "owns ?st q r \<longleftrightarrow> owns st q r" for q r by (auto simp: owns_def)
  have f: "q < rs_npq st \<Longrightarrow> names_of ?st q = names_of st q" "q < rs_npq st \<Longrightarrow> rs_pq ?st q = rs_pq st q" for q by (simp_all add: names_of_def)
  have l: "owns st q r \<Longrightarrow> q < rs_npq st" for q r by (simp add: owns_def)
  have g: "cache_Get n ?st = cache_Get n st" "rs_res ?st = rs_res st" "rs_nres ?st = rs_nres st"
      "rs_cache ?st = rs_cache st" "rs_todo ?st = rs_todo st" for n
    by (simp_all add: cache_Get_def)
  have new: "pq_name (rs_pq ?st (rs_npq st)) = name" "pq_zname (rs_pq ?st (rs_npq st)) = name @ s" "rs_npq ?st = Suc (rs_npq st)" by simp_all
  have "queries_ok env A ?st"
    unfolding queries_ok_def o g
  proof (intro conjI allI impI)
    fix q assume "q < rs_npq ?st"
    then consider "q < rs_npq st" | "q = rs_npq st" by fastforce
    then show "pq_name (rs_pq ?st q) \<noteq> []" "\<exists>s \<in> insert [] (set (re_search env)). pq_zname (rs_pq ?st q) = pq_name (rs_pq ?st q) @ s"
      using assms f(2) new by (cases; auto simp: rs_ok_def queries_ok_def)+
  next
    fix q r assume "owns st q r"
    then show "r < rs_nres st" "authentic A (pq_zname (rs_pq ?st q)) (rs_res st r)" "cr_fqdn (rs_res st r) \<in> names_of ?st q"
      using assms(1) l f by (auto simp: rs_ok_def queries_ok_def)
  next
    fix q q' r assume "owns st q r" "owns st q' r"
    then show "q = q'" using assms(1) by (simp add: rs_ok_def queries_ok_def)
  qed
  moreover have "keys_ok ?st" using assms(1) l f(1) unfolding rs_ok_def keys_ok_def o g by blast
  ultimately show ?thesis by (simp add: rs_ok_def)
qed

lemma makeQueries_ok:
  assumes "rand_ok env" "worker_ok env (rs_npq st) w" "rs_ok env A st" "name \<noteq> []"
    and "used w + 2 * max 1 (length (re_search env)) \<le> 65000"
  shows "\<exists>ws'. makeQueries env name m now (w, st) = Some ws' \<and> worker_ok env (rs_npq (snd ws')) (fst ws') \<and> rs_ok env A (snd ws')
    \<and> rs_npq st \<le> rs_npq (snd ws')"
proof -
  let ?f = "\<lambda>s (w, st).
            let p = rs_npq st;
                x = \<lparr>pq_name = name, pq_zname = name @ s, pq_start = now, pq_tries = TRIES, pq_prefm = m,
                     pq_underway4 = 0, pq_underway6 = 0, pq_res = None\<rparr>
            in sendQueryZone env p (w, st\<lparr>rs_pq := (rs_pq st)(p := x), rs_npq := Suc p\<rparr>)"
  let ?xs = "if last name \<noteq> CHR ''.'' then re_search env else [[]]"
  let ?P = "\<lambda>n ws. after env A (2 * n) (w, st) ws"
  have "\<exists>ws'. foldM ?f ?xs (w, st) = Some ws' \<and> ?P (0 + length ?xs) ws'"
  proof (rule foldM_invariant [where N = "length ?xs"])
    show "?P 0 (w, st)" using assms(2,3) by (simp add: after_def)
    fix s ws n assume s: "s \<in> set ?xs" and P: "?P n ws" and n: "Suc n \<le> length ?xs"
    obtain w1 st1 where ws: "ws = (w1, st1)" by fastforce
    let ?p = "rs_npq st1"
    let ?st2 = "st1\<lparr>rs_pq := (rs_pq st1)(?p := \<lparr>pq_name = name, pq_zname = name @ s, pq_start = now, pq_tries = TRIES, pq_prefm = m,
                     pq_underway4 = 0, pq_underway6 = 0, pq_res = None\<rparr>), rs_npq := Suc ?p\<rparr>"
    have s': "s \<in> insert [] (set (re_search env))" using s by (auto split: if_splits)
    have "length ?xs \<le> max 1 (length (re_search env))" by simp
    then have u: "used w1 < 65000" using P ws n assms(5) by (auto simp: after_def)
    have ok: "rs_ok env A ?st2" by (rule new_query_ok [OF _ assms(4) s']) (use P ws in \<open>simp add: after_def\<close>)
    have w: "worker_ok env (rs_npq ?st2) w1" using P ws worker_ok_mono [of env ?p w1 "Suc ?p"] by (simp add: after_def)
    obtain ws2 where ws2: "sendQueryZone env ?p (w1, ?st2) = Some ws2" "after env A 2 (w1, ?st2) ws2"
      using sendQueryZone_ok [OF assms(1) w ok _ u, of ?p] by auto
    have "after env A (2 * n + 2) (w, st) ws2" using P ws2(2) ws by (auto simp: after_def)
    then show "\<exists>ws'. ?f s ws = Some ws' \<and> ?P (Suc n) ws'" using ws2(1) ws by (simp add: Let_def)
  qed simp
  then show ?thesis using assms(4) by (fastforce simp: makeQueries_def after_def)
qed

section \<open>Answers and timeouts\<close>

lemma forget_ok:
  assumes "worker_ok env n w" "w_pending w q = Some p"
  shows "worker_ok env n (forget q w)" "Suc (used (forget q w)) = used w" "p < n"
proof -
  have f: "finite (dom (w_pending w))" and q: "q \<in> dom (w_pending w)" using assms by (auto simp: worker_ok_def)
  have d: "dom (w_pending (forget q w)) = dom (w_pending w) - {q}" by (auto simp: forget_def)
  show u: "Suc (used (forget q w)) = used w" unfolding used_def d using card_Suc_Diff1 [OF f q] .
  have "ran (w_pending (forget q w)) \<subseteq> ran (w_pending w)" by (auto simp: forget_def ran_def)
  moreover have "w_nqueries (forget q w) = int (used (forget q w))"
    using assms(1) u by (simp add: worker_ok_def forget_def [of q w])
  ultimately show "worker_ok env n (forget q w)"
    using assms(1) f by (auto simp: worker_ok_def d other_fields)
  show "p < n" using assms by (auto simp: worker_ok_def ran_def)
qed

lemma worker_adjust: "worker_ok env n (addDelay d w) = worker_ok env n w" "used (addDelay d w) = used w" "used (addMax m w) = used w"
  by (simp_all add: worker_ok_def used_def other_fields)

lemma worker_addMax: "worker_ok env n w \<Longrightarrow> posf m \<Longrightarrow> worker_ok env n (addMax m w)"
  using addMax_ok by (simp add: worker_ok_def used_def other_fields)

lemma addAnswer_frame: "rs_npq (addAnswer p ans st) = rs_npq st" "pq_zname (rs_pq (addAnswer p ans st) q) = pq_zname (rs_pq st q)"
  by (auto simp: addAnswer_def upd_res_def new_res_def upd_pq_def Let_def split: option.splits rdata.splits)

lemma addAnswer_ok:
  assumes "rs_ok env A st" "p < rs_npq st" "(pq_zname (rs_pq st p), snd ans) \<in> A"
  shows "rs_ok env A (addAnswer p ans st)"
proof -
  define st1 where "st1 = (case pq_res (rs_pq st p) of Some r \<Rightarrow> st | None \<Rightarrow> give_res p (pq_zname (rs_pq st p)) (fst ans) st)"
  have ok: "rs_ok env A st1"
    using give_res_ok [OF assms(1,2), of "pq_zname (rs_pq st p)" "fst ans"] assms(1) by (simp add: st1_def names_of_def split: option.splits)
  have f: "rs_npq st1 = rs_npq st" "pq_zname (rs_pq st1 p) = pq_zname (rs_pq st p)" "pq_res (rs_pq st1 p) \<noteq> None"
    by (auto simp: st1_def give_res_frame split: option.splits)
  then obtain r where r: "pq_res (rs_pq st1 p) = Some r" by blast
  have o: "owns st1 p r" using r f(1) assms(2) by (simp add: owns_def)
  have "addAnswer p ans st = (case snd ans of
           RA a \<Rightarrow> upd_res r (\<lambda>y. y\<lparr>cr_addrv4 := cr_addrv4 y @ [a]\<rparr>) st1
         | RAAAA a \<Rightarrow> upd_res r (\<lambda>y. y\<lparr>cr_addrv6 := cr_addrv6 y @ [a]\<rparr>) st1
         | ROther \<Rightarrow> st1)"
    unfolding addAnswer_def give_res_def [symmetric] st1_def [symmetric] by (simp add: r)
  then show ?thesis using ok assms(3) f(2)
    by (cases "snd ans") (auto intro!: upd_res_ok [OF ok o] simp: authentic_def)
qed

lemma addAnswers_ok:
  "rs_ok env A st \<Longrightarrow> p < rs_npq st \<Longrightarrow> (\<forall>a \<in> set as. (pq_zname (rs_pq st p), snd a) \<in> A) \<Longrightarrow>
   rs_ok env A (foldl (\<lambda>st ans. addAnswer p ans st) st as) \<and> rs_npq (foldl (\<lambda>st ans. addAnswer p ans st) st as) = rs_npq st"
proof (induction as arbitrary: st)
  case (Cons a as)
  then show ?case using Cons.IH [of "addAnswer p a st"] addAnswer_ok [of env A st p a] by (simp add: addAnswer_frame)
qed simp

text \<open>A response is accepted when its id is pending and its question is the one that was asked.\<close>

definition accepts :: "dnsmsg \<Rightarrow> workstate \<Rightarrow> rstate \<Rightarrow> bool" where
  "accepts msg w st \<longleftrightarrow> dm_Response msg
     \<and> (case w_pending w (dm_Id msg) of None \<Rightarrow> False
        | Some p \<Rightarrow> dm_Question msg \<noteq> [] \<and> hd (dm_Question msg) = pq_zname (rs_pq st p))"

definition answers :: "dnsmsg \<Rightarrow> (string \<times> rdata) set" where
  "answers msg = (\<lambda>a. (hd (dm_Question msg), snd a)) ` set (dm_Answer msg)"

lemma processResult_ok:
  assumes "worker_ok env (rs_npq st) w" "rs_ok env A st" "accepts msg w st \<Longrightarrow> answers msg \<subseteq> A"
  shows "\<exists>ws'. processResult env msg now (w, st) = Some ws' \<and> after env A 0 (w, st) ws'"
proof (cases "accepts msg w st")
  case False
  then show ?thesis using assms by (auto simp: processResult_def accepts_def after_def Let_def split: option.splits)
next
  case True
  let ?q = "dm_Id msg"
  obtain p where p: "w_pending w ?q = Some p" "dm_Question msg \<noteq> []" "hd (dm_Question msg) = pq_zname (rs_pq st p)" "dm_Response msg"
    using True by (auto simp: accepts_def split: option.splits)
  have m: "1 \<le> f_to_int64 (w_maxqueries w)" using assms(1) max_limit by (simp add: worker_ok_def)
  define dt where "dt = (now - pq_start (rs_pq st p)) sdiv f_to_int64 (w_maxqueries w)"
  define w1 where "w1 = forget ?q ((addDelay dt w)\<lparr>w_lastrcv := now\<rparr>)"
  define w2 where "w2 = addMax (fadd round32 (w_maxqueries w1) (int32 1)) w1"
  define st1 where "st1 = upd_pq p (\<lambda>x. x\<lparr>pq_underway4 := (if pq_underway4 x = ?q then 0 else pq_underway4 x),
                                        pq_underway6 := (if pq_underway6 x = ?q then 0 else pq_underway6 x)\<rparr>) st"
  define st2 where "st2 = foldl (\<lambda>st ans. addAnswer p ans st) st1 (dm_Answer msg)"
  have w0: "worker_ok env (rs_npq st) ((addDelay dt w)\<lparr>w_lastrcv := now\<rparr>)" "w_pending ((addDelay dt w)\<lparr>w_lastrcv := now\<rparr>) ?q = Some p"
      "used ((addDelay dt w)\<lparr>w_lastrcv := now\<rparr>) = used w"
    using assms(1) p(1) by (simp_all add: worker_ok_def used_def other_fields)
  have w1: "worker_ok env (rs_npq st) w1" "used w1 \<le> used w" "p < rs_npq st"
    using forget_ok [OF w0(1,2)] w0(3) by (simp_all add: w1_def)
  have "worker_ok env (rs_npq st) w2" unfolding w2_def
    using w1(1) by (intro worker_addMax max_next) (simp_all add: worker_ok_def)
  moreover have "used w2 \<le> used w" using w1(2) by (simp add: w2_def worker_adjust)
  moreover have "rs_ok env A st1" unfolding st1_def by (rule upd_pq_ok [OF assms(2)]) simp
  then have "rs_ok env A st2 \<and> rs_npq st2 = rs_npq st1" unfolding st2_def
    using assms(3) [OF True] p(3) w1(3) by (intro addAnswers_ok) (auto simp: st1_def upd_pq_def answers_def)
  then have st2: "rs_ok env A st2" "rs_npq st2 = rs_npq st" by (simp_all add: st1_def upd_pq_def)
  moreover obtain st3 where "pq_done env p now st2 = Some st3" "rs_ok env A st3" "rs_npq st3 = rs_npq st"
    using pq_done_ok [OF st2(1), of p] w1(3) st2(2) by auto
  moreover have "processResult env msg now (w, st) =
      (let x = rs_pq st2 p in if pq_underway4 x = 0 \<and> pq_underway6 x = 0 then map_option (\<lambda>st. (w2, st)) (pq_done env p now st2) else Some (w2, st2))"
    using p m unfolding processResult_def by (simp add: Let_def dt_def w1_def w2_def st1_def st2_def)
  ultimately show ?thesis by (auto simp: after_def Let_def)
qed

lemma timeout_one_ok:
  assumes "rand_ok env" "worker_ok env (rs_npq st) w" "rs_ok env A st" "used w \<le> 65000"
  shows "\<exists>nto' ws'. timeout_one env now q (nto, w, st) = Some (nto', ws') \<and> after env A 1 (w, st) ws'"
proof (cases "w_pending w q")
  case None
  then show ?thesis using assms by (simp add: timeout_one_def after_def)
next
  case (Some p)
  show ?thesis
  proof (cases "pq_start (rs_pq st p) + QUERYTIMEOUT < now")
    case False
    then show ?thesis using Some assms by (simp add: timeout_one_def after_def)
  next
    case True
    define w1 where "w1 = addDelay QUERYTIMEOUT (forget q w)"
    define w2 where "w2 = addMax (fdiv round32 (w_maxqueries w1) (int32 2)) w1"
    define st1 where "st1 = st\<lparr>rs_Touts := rs_Touts st + 1\<rparr>"
    have w1: "worker_ok env (rs_npq st) w1" "Suc (used w1) = used w" "p < rs_npq st"
      using forget_ok [OF assms(2) Some] by (simp_all add: w1_def worker_adjust)
    have w2: "worker_ok env (rs_npq st1) w2" "used w2 < 65000" "Suc (used w2) = used w" "p < rs_npq st1" "rs_npq st1 = rs_npq st"
      using worker_addMax [OF w1(1), of "fdiv round32 (w_maxqueries w1) (int32 2)"] max_next w1 assms(4)
      by (simp_all add: w2_def worker_adjust st1_def worker_ok_def)
    have st1: "rs_ok env A st1" using assms(3) by (simp add: st1_def counters_ok)
    have t: "timeout_one env now q (nto, w, st) = map_option (\<lambda>(w, st). (Suc nto, w, st))
                (if pq_tries (rs_pq st p) > 0 then sendQueryZone env p (w2, st1)
                 else map_option (\<lambda>st. (w2, st)) (pq_done env p now (upd_pq p (\<lambda>x. x\<lparr>pq_underway4 := 0, pq_underway6 := 0\<rparr>) st1)))"
      using Some True by (simp add: timeout_one_def Let_def w1_def w2_def st1_def)
    show ?thesis
    proof (cases "pq_tries (rs_pq st p) > 0")
      case True
      then show ?thesis using t sendQueryZone_ok [OF assms(1) w2(1) st1 w2(4,2)] w2(3,5) by (auto simp: after_def)
    next
      case False
      have "rs_ok env A (upd_pq p (\<lambda>x. x\<lparr>pq_underway4 := 0, pq_underway6 := 0\<rparr>) st1)" by (rule upd_pq_ok [OF st1]) simp
      from pq_done_ok [OF this, where p = p and now = now] show ?thesis using t False w2 by (auto simp: after_def upd_pq_def)
    qed
  qed
qed

lemma timeouts_ok:
  assumes "rand_ok env" "worker_ok env (rs_npq st) w" "rs_ok env A st" "used w + length visits \<le> 65000"
  shows "\<exists>ws'. timeouts env visits now (w, st) = Some ws' \<and> after env A (length visits) (w, st) ws'"
proof -
  let ?P = "\<lambda>n (s :: nat \<times> workstate \<times> rstate). after env A n (w, st) (snd s)"
  have "\<exists>s. foldM (timeout_one env now) visits (0, w, st) = Some s \<and> ?P (0 + length visits) s"
  proof (rule foldM_invariant [where N = "length visits"])
    show "?P 0 (0, w, st)" using assms(2,3) by (simp add: after_def)
    fix q s n assume P: "?P n s" and n: "Suc n \<le> length visits"
    obtain k w1 st1 where s: "s = (k, w1, st1)" by (cases s)
    have "\<exists>nto' ws'. timeout_one env now q (k, w1, st1) = Some (nto', ws') \<and> after env A 1 (w1, st1) ws'"
      by (rule timeout_one_ok [OF assms(1)]) (use P s n assms(4) in \<open>auto simp: after_def\<close>)
    then show "\<exists>s'. timeout_one env now q s = Some s' \<and> ?P (Suc n) s'"
      using after_trans [of env A n "(w, st)" "(w1, st1)" 1] P s by fastforce
  qed simp
  then obtain k w1 st1 where f: "foldM (timeout_one env now) visits (0, w, st) = Some (k, w1, st1)" "after env A (length visits) (w, st) (w1, st1)"
    by auto
  have "re_server env \<noteq> []" using assms(2) by (auto simp: worker_ok_def)
  moreover have "after env A (length visits) (w, st) (w1\<lparr>w_nsn := (w_nsn w1 + 1) mod length (re_server env), w_lastrcv := now\<rparr>, st1)"
    using f(2) calculation by (simp add: after_def worker_ok_def used_def)
  ultimately show ?thesis using f by (simp add: timeouts_def)
qed

section \<open>Runs of the resolver\<close>

text \<open>The workers take turns with the monitors' calls and the janitor.\<close>

datatype revent =
    EvWorker nat wevent
  | EvRequest string "int list"
  | EvRefresh rptr int int
  | EvMaint "string list" int

definition resolver_step :: "rs_env \<Rightarrow> revent \<Rightarrow> workstate list \<times> rstate \<Rightarrow> (workstate list \<times> rstate) option" where
  "resolver_step env ev = (\<lambda>(ws, st).
     case ev of
       EvWorker i e \<Rightarrow>
         if i < length ws then map_option (\<lambda>(w, st). (ws[i := w], st)) (worker_step env e (ws ! i, st)) else Some (ws, st)
     | EvRequest name pref \<Rightarrow> Some (ws, Request name pref st)
     | EvRefresh r secs now \<Rightarrow> Some (ws, res_Refresh r secs now st)
     | EvMaint names now \<Rightarrow> Some (ws, cacheMaint names now st))"

definition accepted :: "revent \<Rightarrow> workstate list \<times> rstate \<Rightarrow> (string \<times> rdata) set" where
  "accepted ev = (\<lambda>(ws, st).
     case ev of
       EvWorker i (WResult msg now) \<Rightarrow> if i < length ws \<and> accepts msg (ws ! i) st then answers msg else {}
     | _ \<Rightarrow> {})"

text \<open>There is room for the queries that an event may send.\<close>

fun ev_ok :: "rs_env \<Rightarrow> revent \<Rightarrow> workstate list \<Rightarrow> bool" where
  "ev_ok env (EvWorker i (WResult msg now)) ws \<longleftrightarrow> True"
| "ev_ok env (EvWorker i (WTick visits now)) ws \<longleftrightarrow> (\<forall>w \<in> set ws. used w + length visits \<le> 65000)"
| "ev_ok env (EvWorker i (WQuery now)) ws \<longleftrightarrow> (\<forall>w \<in> set ws. used w + 2 * max 1 (length (re_search env)) \<le> 65000)"
| "ev_ok env _ ws \<longleftrightarrow> True"

text \<open>The worker that is ready to send takes the empty name from the list.\<close>

fun takes_empty :: "revent \<Rightarrow> workstate list \<times> rstate \<Rightarrow> bool" where
  "takes_empty (EvWorker i (WQuery now)) (ws, st) \<longleftrightarrow>
     i < length ws \<and> w_nqueries (ws ! i) < f_to_int64 (w_maxqueries (ws ! i)) \<and> w_until (ws ! i) \<le> now
   \<and> (case rs_todo st of [] \<Rightarrow> False | (name, prefm) # rest \<Rightarrow> name = [])"
| "takes_empty _ _ \<longleftrightarrow> False"

definition empty_rstate :: rstate where
  "empty_rstate = \<lparr>rs_cache = Map.empty, rs_needWhen = Map.empty, rs_todo = [],
     rs_res = (\<lambda>_. \<lparr>cr_fqdn = [], cr_expires = 0, cr_ttl = 0, cr_addrv4 = [], cr_addrv6 = []\<rparr>), rs_nres = 0,
     rs_pq = (\<lambda>_. \<lparr>pq_name = [], pq_zname = [], pq_start = 0, pq_tries = 0, pq_prefm = 0, pq_underway4 = 0, pq_underway6 = 0, pq_res = None\<rparr>),
     rs_npq = 0, rs_rand = 0, rs_sent = [], rs_Query = 0, rs_Drops = 0, rs_Touts = 0\<rparr>"

text \<open>A resolver with some workers, and the answers accepted so far.\<close>

inductive resolver_reach :: "rs_env \<Rightarrow> workstate list \<Rightarrow> rstate \<Rightarrow> (string \<times> rdata) set \<Rightarrow> bool" for env where
  Start: "list_all (\<lambda>w. \<exists>qid white now. w = new_worker qid white now \<and> u16 qid \<and> u16 white) ws \<Longrightarrow> resolver_reach env ws empty_rstate {}"
| Step: "resolver_reach env ws st A \<Longrightarrow> ev_ok env ev ws \<Longrightarrow> resolver_step env ev (ws, st) = Some (ws', st') \<Longrightarrow>
    resolver_reach env ws' st' (A \<union> accepted ev (ws, st))"

definition resolver_ok :: "rs_env \<Rightarrow> (string \<times> rdata) set \<Rightarrow> workstate list \<times> rstate \<Rightarrow> bool" where
  "resolver_ok env A = (\<lambda>(ws, st). list_all (worker_ok env (rs_npq st)) ws \<and> rs_ok env A st)"

lemma worker_step_ok:
  assumes "rand_ok env" "worker_ok env (rs_npq st) w" "rs_ok env A st"
    and "case e of WResult msg now \<Rightarrow> accepts msg w st \<longrightarrow> answers msg \<subseteq> A
      | WTick visits now \<Rightarrow> used w + length visits \<le> 65000
      | WQuery now \<Rightarrow> used w + 2 * max 1 (length (re_search env)) \<le> 65000
          \<and> (w_nqueries w < f_to_int64 (w_maxqueries w) \<longrightarrow> w_until w \<le> now \<longrightarrow> (case rs_todo st of [] \<Rightarrow> True | (name, _) # _ \<Rightarrow> name \<noteq> []))"
  shows "\<exists>ws'. worker_step env e (w, st) = Some ws' \<and> worker_ok env (rs_npq (snd ws')) (fst ws') \<and> rs_ok env A (snd ws')
    \<and> rs_npq st \<le> rs_npq (snd ws')"
proof (cases e)
  case (WResult msg now)
  then show ?thesis using processResult_ok [OF assms(2,3), of msg now] assms(4) by (auto simp: worker_step_def after_def)
next
  case (WTick visits now)
  then show ?thesis using timeouts_ok [OF assms(1-3), of visits now] assms(4) by (auto simp: worker_step_def after_def)
next
  case (WQuery now)
  show ?thesis
  proof (cases "w_nqueries w < f_to_int64 (w_maxqueries w) \<and> w_until w \<le> now \<and> rs_todo st \<noteq> []")
    case False
    then show ?thesis using assms(2,3) WQuery by (auto simp: worker_step_def split: list.splits)
  next
    case True
    then obtain name m rest where t: "rs_todo st = (name, m) # rest" by (cases "rs_todo st") auto
    let ?st = "st\<lparr>rs_todo := rest\<rparr>"
    have "name \<noteq> []" using assms(4) True t WQuery by simp
    moreover have "rs_ok env A ?st"
      using assms(3) t by (auto simp: rs_ok_def queries_ok_def keys_ok_def owns_def names_of_def cache_Get_def)
    ultimately obtain w1 st1 where "makeQueries env name m now (w, ?st) = Some (w1, st1)" "worker_ok env (rs_npq st1) w1"
        "rs_ok env A st1" "rs_npq st \<le> rs_npq st1"
      using makeQueries_ok [OF assms(1), of ?st w A name m now] assms(2,4) WQuery by auto
    then show ?thesis using True t WQuery by (simp add: worker_step_def worker_ok_def used_def)
  qed
qed

lemma resolver_step_ok:
  assumes "rand_ok env" "resolver_ok env A (ws, st)" "ev_ok env ev ws" "\<not> takes_empty ev (ws, st)"
  shows "\<exists>s'. resolver_step env ev (ws, st) = Some s' \<and> resolver_ok env (A \<union> accepted ev (ws, st)) s'"
proof -
  let ?A = "A \<union> accepted ev (ws, st)"
  have w: "\<And>i. i < length ws \<Longrightarrow> worker_ok env (rs_npq st) (ws ! i)" and st: "rs_ok env ?A st"
    using assms(2) rs_ok_mono [of env A st ?A] by (auto simp: resolver_ok_def list_all_length)
  show ?thesis
  proof (cases ev)
    case (EvWorker i e)
    show ?thesis
    proof (cases "i < length ws")
      case False
      then show ?thesis using EvWorker st assms(2) by (auto simp: resolver_step_def resolver_ok_def)
    next
      case True
      have "ws ! i \<in> set ws" using True by simp
      then have "case e of WResult msg now \<Rightarrow> accepts msg (ws ! i) st \<longrightarrow> answers msg \<subseteq> ?A
          | WTick visits now \<Rightarrow> used (ws ! i) + length visits \<le> 65000
          | WQuery now \<Rightarrow> used (ws ! i) + 2 * max 1 (length (re_search env)) \<le> 65000
              \<and> (w_nqueries (ws ! i) < f_to_int64 (w_maxqueries (ws ! i)) \<longrightarrow> w_until (ws ! i) \<le> now
                  \<longrightarrow> (case rs_todo st of [] \<Rightarrow> True | (name, _) # _ \<Rightarrow> name \<noteq> []))"
        using EvWorker assms(3,4) True by (cases e) (auto simp: accepted_def split: list.splits)
      from worker_step_ok [OF assms(1) w [OF True] st this] obtain w1 st1 where
        s: "worker_step env e (ws ! i, st) = Some (w1, st1)" "worker_ok env (rs_npq st1) w1" "rs_ok env ?A st1" "rs_npq st \<le> rs_npq st1"
        by auto
      have "worker_ok env (rs_npq st1) (ws ! k)" if "k < length ws" for k
        by (rule worker_ok_mono [OF w [OF that] s(4)])
      then have "list_all (worker_ok env (rs_npq st1)) (ws[i := w1])"
        using s(2) True by (auto simp: list_all_length nth_list_update)
      then show ?thesis using EvWorker True s by (auto simp: resolver_step_def resolver_ok_def)
    qed
  next
    case (EvRequest name pref)
    then show ?thesis using cache_step_ok [OF Request_step st] Request_step [of st name pref] assms(2)
      by (auto simp: resolver_step_def resolver_ok_def accepted_def cache_step_def)
  next
    case (EvRefresh r secs now)
    have "cache_step st (res_Refresh r secs now st)" by (rule res_Refresh_step)
    then show ?thesis using EvRefresh cache_step_ok [OF _ st] assms(2)
      by (auto simp: resolver_step_def resolver_ok_def accepted_def cache_step_def)
  next
    case (EvMaint names now)
    have "rs_npq (foldl (\<lambda>st n. refresh n st) st ns) = rs_npq st" for ns
      by (induction ns arbitrary: st) (auto simp: refresh_def ce_request_def query_def put_entry_def Let_def split: option.splits)
    then show ?thesis using EvMaint cacheMaint_ok [OF st] assms(2)
      by (simp add: resolver_step_def resolver_ok_def accepted_def cacheMaint_def)
  qed
qed

lemma takes_empty_panics: "takes_empty ev (ws, st) \<Longrightarrow> resolver_step env ev (ws, st) = None"
  by (cases "(ev, (ws, st))" rule: takes_empty.cases)
    (auto simp: resolver_step_def worker_step_def makeQueries_def split: list.splits)

lemma resolver_reach_ok:
  assumes "resolver_reach env ws st A" "rand_ok env" "re_server env \<noteq> []"
  shows "resolver_ok env A (ws, st)"
  using assms
proof (induction rule: resolver_reach.induct)
  case (Start ws)
  have "rs_ok env {} empty_rstate"
    by (simp add: rs_ok_def queries_ok_def keys_ok_def owns_def empty_rstate_def cache_Get_def)
  moreover have "worker_ok env 0 (new_worker qid white now)" if "u16 qid" "u16 white" for qid white now
    using that Start.prems by (simp add: worker_ok_def new_worker_def used_def max_ok_def int32_consts)
  ultimately show ?case using Start by (fastforce simp: resolver_ok_def list_all_iff empty_rstate_def)
next
  case (Step ws st A ev ws' st')
  then have "\<not> takes_empty ev (ws, st)" using takes_empty_panics [of ev ws st env] by auto
  then show ?case using Step resolver_step_ok [of env A ws st ev] by auto
qed

text \<open>C11: the resolver keeps running and its books balance, the empty name apart. Whatever its workers
  receive (answers that were not asked for, answers out of order or twice, time passing in any
  amount) and whatever names are requested meanwhile, an operation panics exactly when a worker that
  is ready to send takes the empty name from the list (a host called \<open>._ipv4\<close> asks for it); no other
  one panics or hangs, as long as the ids that are pending and the queries that the event may send
  are at most 65000 together (\<open>ev_ok\<close>): there is always a fresh query id, no index leaves the list of
  servers, nothing is divided by zero. The number of queries underway is the number of pending ids,
  all different and not 0, and the limit stays between 1 and 256.\<close>

theorem resolver_safe:
  assumes "rand_ok env" "re_server env \<noteq> []" "resolver_reach env ws st A" "ev_ok env ev ws"
  shows "(resolver_step env ev (ws, st) = None \<longleftrightarrow> takes_empty ev (ws, st))
    \<and> list_all (\<lambda>w. w_nqueries w = int (card (dom (w_pending w))) \<and> 0 \<notin> dom (w_pending w)
        \<and> 1 \<le> f_to_int64 (w_maxqueries w) \<and> f_to_int64 (w_maxqueries w) \<le> 256 \<and> w_nsn w < length (re_server env)) ws"
proof -
  have ok: "resolver_ok env A (ws, st)" by (rule resolver_reach_ok [OF assms(3,1,2)])
  have "0 \<notin> dom (w_pending w) \<and> 1 \<le> f_to_int64 (w_maxqueries w) \<and> f_to_int64 (w_maxqueries w) \<le> 256"
    if "worker_ok env (rs_npq st) w" for w
    using that max_limit by (auto simp: worker_ok_def)
  then have "list_all (\<lambda>w. w_nqueries w = int (card (dom (w_pending w))) \<and> 0 \<notin> dom (w_pending w)
        \<and> 1 \<le> f_to_int64 (w_maxqueries w) \<and> f_to_int64 (w_maxqueries w) \<le> 256 \<and> w_nsn w < length (re_server env)) ws"
    using ok by (auto simp: resolver_ok_def list_all_iff worker_ok_def used_def)
  moreover have "resolver_step env ev (ws, st) = None \<longleftrightarrow> takes_empty ev (ws, st)"
    using resolver_step_ok [OF assms(1) ok assms(4)] takes_empty_panics [of ev ws st env] by (cases "takes_empty ev (ws, st)") auto
  ultimately show ?thesis by blast
qed

definition witness_env :: rs_env where
  "witness_env = \<lparr>re_search = [''.''], re_server = [''10.0.0.1''], re_rand = (\<lambda>k n. 0)\<rparr>"

lemma witness_env_ok: "rand_ok witness_env" "re_server witness_env \<noteq> []"
  by (simp_all add: witness_env_def rand_ok_def)

definition witness_requested :: rstate where
  "witness_requested = Request ''a.b.'' [4] empty_rstate"

lemma witness_start: "resolver_reach witness_env [new_worker 1 0 0] empty_rstate {}"
proof (rule resolver_reach.Start)
  have "u16 1" "u16 0" by (simp_all add: u16_def)
  then show "list_all (\<lambda>w. \<exists>qid white now. w = new_worker qid white now \<and> u16 qid \<and> u16 white) [new_worker 1 0 0]"
    by (simp only: list.pred_inject) blast
qed

lemma witness_reach: "resolver_reach witness_env [new_worker 1 0 0] witness_requested {}"
  using resolver_reach.Step [OF witness_start, of "EvRequest ''a.b.'' [4]"] by (simp add: resolver_step_def witness_requested_def accepted_def)

lemma new_worker_used: "used (new_worker q v now) = 0"
  by (simp add: used_def new_worker_def)

theorem resolver_safe_witness:
  "\<exists>s. resolver_step witness_env (EvWorker 0 (WQuery 0)) ([new_worker 1 0 0], witness_requested) = Some s"
proof -
  have "ev_ok witness_env (EvWorker 0 (WQuery 0)) [new_worker 1 0 0]" by (simp add: new_worker_used witness_env_def)
  then have "resolver_step witness_env (EvWorker 0 (WQuery 0)) ([new_worker 1 0 0], witness_requested) = None
      \<longleftrightarrow> takes_empty (EvWorker 0 (WQuery 0)) ([new_worker 1 0 0], witness_requested)"
    using resolver_safe [OF witness_env_ok witness_reach] by blast
  moreover have "\<not> takes_empty (EvWorker 0 (WQuery 0)) ([new_worker 1 0 0], witness_requested)"
    by (simp add: witness_requested_def Request_def get_entry_def empty_rstate_def newCacheE_def new_entry_def ce_request_def query_def
        put_entry_def Let_def)
  ultimately show ?thesis by blast
qed

text \<open>C21: nobody puts an address into the cache without being asked. Every address that the cache gives for
  a name came in a response that was accepted: its id was pending, and its question was the name
  asked for, the one looked up or that name with a search domain. Unasked and mismatched responses
  leave no trace, and the result shared by the cache, the query and the monitors does not mix the
  answers of different names.\<close>

theorem answers_authentic:
  assumes "rand_ok env" "re_server env \<noteq> []" "resolver_reach env ws st A" "cache_Get name st = Some r"
    and "(\<exists>a \<in> set (cr_addrv4 (rs_res st r)). x = RA a) \<or> (\<exists>a \<in> set (cr_addrv6 (rs_res st r)). x = RAAAA a)"
  shows "\<exists>z. (z, x) \<in> A \<and> (z = name \<or> (\<exists>s \<in> set (re_search env). z = name @ s))"
proof -
  have ok: "rs_ok env A st" using resolver_reach_ok [OF assms(3,1,2)] by (simp add: resolver_ok_def)
  then obtain p where p: "owns st p r" "name \<in> names_of st p" using assms(4) unfolding rs_ok_def keys_ok_def by blast
  then have "p < rs_npq st" by (simp add: owns_def)
  then obtain s where s: "s \<in> insert [] (set (re_search env))" "pq_zname (rs_pq st p) = pq_name (rs_pq st p) @ s"
    using ok unfolding rs_ok_def queries_ok_def by blast
  have "authentic A (pq_zname (rs_pq st p)) (rs_res st r)" using ok p(1) by (auto simp: rs_ok_def queries_ok_def)
  then have "(pq_zname (rs_pq st p), x) \<in> A" using assms(5) by (auto simp: authentic_def)
  then show ?thesis using p(2) s by (auto simp: names_of_def)
qed

definition witness_msg :: dnsmsg where
  "witness_msg = \<lparr>dm_Id = 3, dm_Response = True, dm_Question = [''a.b.''], dm_Answer = [(300, RA ''1.2.3.4'')]\<rparr>"

lemma witness_id: "Next16 1 = 3"
  by (simp add: Next16_def)

lemma witness_nextqid: "w_qid w = 1 \<Longrightarrow> w_white w = 0 \<Longrightarrow> w_pending w = Map.empty \<Longrightarrow> nextqid env w st = Some (3, w\<lparr>w_qid := 3\<rparr>, st)"
  by (subst nextqid.simps) (simp add: witness_id)

lemma witness_max: "f_to_int64 (int32 1) = 1"
  by (simp add: int32_consts)

lemma witness_query:
  "\<exists>w st. resolver_step witness_env (EvWorker 0 (WQuery 0)) ([new_worker 1 0 0], witness_requested) = Some ([w], st)
    \<and> w_pending w 3 = Some 0 \<and> pq_zname (rs_pq st 0) = ''a.b.'' \<and> pq_name (rs_pq st 0) = ''a.b.'' \<and> pq_underway4 (rs_pq st 0) = 3
    \<and> pq_underway6 (rs_pq st 0) = 0 \<and> pq_res (rs_pq st 0) = None \<and> w_maxqueries w = int32 1 \<and> rs_nres st = 0
    \<and> rs_cache st ''a.b.'' = Some (new_entry\<lparr>ce_prefm := 1, ce_underway := True\<rparr>)"
  by (simp add: resolver_step_def worker_step_def new_worker_def witness_max witness_requested_def Request_def get_entry_def
      empty_rstate_def newCacheE_def new_entry_def ce_request_def query_def put_entry_def prefToMask_def makeQueries_def Let_def
      sendQueryZone_def sendFamily_def witness_nextqid sendQuery_def elem_at_def witness_env_def upd_pq_def cache_Get_def)

theorem answers_authentic_witness:
  "\<exists>ws st A r. resolver_reach witness_env ws st A \<and> cache_Get ''a.b.'' st = Some r \<and> cr_addrv4 (rs_res st r) = [''1.2.3.4'']
    \<and> (\<exists>z. (z, RA ''1.2.3.4'') \<in> A \<and> (z = ''a.b.'' \<or> (\<exists>s \<in> {''.''}. z = ''a.b.'' @ s)))"
proof -
  obtain w st where q: "resolver_step witness_env (EvWorker 0 (WQuery 0)) ([new_worker 1 0 0], witness_requested) = Some ([w], st)"
    and w: "w_pending w 3 = Some 0" "pq_zname (rs_pq st 0) = ''a.b.''" "pq_name (rs_pq st 0) = ''a.b.''" "pq_underway4 (rs_pq st 0) = 3"
      "pq_underway6 (rs_pq st 0) = 0" "pq_res (rs_pq st 0) = None" "w_maxqueries w = int32 1" "rs_nres st = 0"
      "rs_cache st ''a.b.'' = Some (new_entry\<lparr>ce_prefm := 1, ce_underway := True\<rparr>)"
    using witness_query by blast
  have "ev_ok witness_env (EvWorker 0 (WQuery 0)) [new_worker 1 0 0]" by (simp add: new_worker_used witness_env_def)
  from resolver_reach.Step [OF witness_reach this q] obtain A where r1: "resolver_reach witness_env [w] st A" by blast
  have "\<exists>w' st'. resolver_step witness_env (EvWorker 0 (WResult witness_msg 5)) ([w], st) = Some ([w'], st')
      \<and> cache_Get ''a.b.'' st' = Some 0 \<and> cr_addrv4 (rs_res st' 0) = [''1.2.3.4'']"
    by (simp add: w resolver_step_def worker_step_def processResult_def witness_msg_def Let_def witness_max addAnswer_def new_res_def
        upd_pq_def upd_res_def pq_done_def Intn_def witness_env_def Result_def addCache_def get_entry_def newCacheE_def put_entry_def
        new_entry_def cache_Get_def res_size_def cr_size_def)
  then obtain w' st' where r: "resolver_step witness_env (EvWorker 0 (WResult witness_msg 5)) ([w], st) = Some ([w'], st')"
    and g: "cache_Get ''a.b.'' st' = Some 0" "cr_addrv4 (rs_res st' 0) = [''1.2.3.4'']" by blast
  have "ev_ok witness_env (EvWorker 0 (WResult witness_msg 5)) [w]" by simp
  from resolver_reach.Step [OF r1 this r] obtain B where B: "resolver_reach witness_env [w'] st' B" by blast
  have x: "(\<exists>a \<in> set (cr_addrv4 (rs_res st' 0)). RA ''1.2.3.4'' = RA a) \<or> (\<exists>a \<in> set (cr_addrv6 (rs_res st' 0)). RA ''1.2.3.4'' = RAAAA a)"
    using g(2) by simp
  have "re_search witness_env = [''.'']" by (simp add: witness_env_def)
  with answers_authentic [OF witness_env_ok B g(1) x] B g show ?thesis by fastforce
qed

section \<open>Trying another address\<close>













end
