(* ===== verification/BinaryEnc.thy ===== *)
theory BinaryEnc
  imports GoFloat
begin

text \<open>
  \<open>encoding/binary\<close>, big endian, on the types that the program stores: 32 bit integers as four
  bytes and \<open>float32\<close> as its IEEE bits (\<open>math.Float32bits\<close>). Bytes are numbers below 256.
\<close>

type_synonym bytes = "int list"

section \<open>Integers\<close>

definition put_u32 :: "int \<Rightarrow> bytes" where
  "put_u32 x = [x div 16777216 mod 256, x div 65536 mod 256, x div 256 mod 256, x mod 256]"

fun get_u32 :: "bytes \<Rightarrow> int" where
  "get_u32 [a, b, c, d] = 16777216 * a + 65536 * b + 256 * c + d"
| "get_u32 _ = 0"

definition wrap32 :: "int \<Rightarrow> int" where
  "wrap32 x = (x + 2147483648) mod 4294967296 - 2147483648"

definition put_i32 :: "int \<Rightarrow> bytes" where
  "put_i32 x = put_u32 (x mod 4294967296)"

definition get_i32 :: "bytes \<Rightarrow> int" where
  "get_i32 bs = wrap32 (get_u32 bs)"

lemma length_put [simp]: "length (put_u32 x) = 4" "length (put_i32 x) = 4"
  by (simp_all add: put_u32_def put_i32_def)

lemma get_put_u32: "get_u32 (put_u32 x) = x mod 4294967296"
proof -
  have q: "x div 65536 = x div 256 div 256" "x div 16777216 = x div 256 div 256 div 256" for x :: int
    by (simp_all flip: div_mult2_eq)
  have m: "x mod (256 * c) = 256 * (x div 256 mod c) + x mod 256" if "0 < c" for x c :: int
    using that by (simp add: zmod_zmult2_eq)
  have "x mod 4294967296 = 256 * (x div 256 mod 16777216) + x mod 256" using m [of 16777216 x] by simp
  moreover have "x div 256 mod 16777216 = 256 * (x div 256 div 256 mod 65536) + x div 256 mod 256" using m [of 65536 "x div 256"] by simp
  moreover have "x div 256 div 256 mod 65536 = 256 * (x div 256 div 256 div 256 mod 256) + x div 256 div 256 mod 256"
    using m [of 256 "x div 256 div 256"] by simp
  ultimately show ?thesis unfolding put_u32_def q get_u32.simps by linarith
qed

lemma get_put_i32: "- 2147483648 \<le> x \<Longrightarrow> x < 2147483648 \<Longrightarrow> get_i32 (put_i32 x) = x"
  by (simp add: get_i32_def put_i32_def get_put_u32 wrap32_def mod_add_left_eq)

section \<open>Floats\<close>

definition f32_bits :: "gofloat \<Rightarrow> int" where
  "f32_bits x =
     (case x of
        NaN \<Rightarrow> 0x7FC00000
      | Inf s \<Rightarrow> (if s then 2147483648 else 0) + 0x7F800000
      | Num s m \<Rightarrow> (if s then 2147483648 else 0)
          + (if m \<le> 0 then 0
             else
               let e = ilog2 m in
               if e < -126 then \<lfloor>m * pow2 149\<rfloor>
               else (e + 127) * 8388608 + (\<lfloor>m * pow2 (23 - e)\<rfloor> - 8388608)))"

definition f32_from :: "int \<Rightarrow> gofloat" where
  "f32_from b =
     (let s = b \<ge> 2147483648; c = b mod 2147483648; e = c div 8388608; f = c mod 8388608
      in if e = 255 then (if f = 0 then Inf s else NaN)
         else if e = 0 then Num s (of_int f * pow2 (-149))
         else Num s (of_int (8388608 + f) * pow2 (e - 150)))"

definition put_f32 :: "gofloat \<Rightarrow> bytes" where "put_f32 x = put_u32 (f32_bits x)"

definition get_f32 :: "bytes \<Rightarrow> gofloat" where "get_f32 bs = f32_from (get_u32 bs)"

lemma length_put_f32 [simp]: "length (put_f32 x) = 4"
  by (simp add: put_f32_def)

text \<open>The values of the format.\<close>

definition is_f32 :: "gofloat \<Rightarrow> bool" where
  "is_f32 x \<longleftrightarrow>
     (case x of
        Num s m \<Rightarrow> m = 0 \<or> (\<exists>k e. m = of_int k * pow2 e \<and> 0 < k \<and> k < 16777216 \<and> -149 \<le> e \<and> (8388608 \<le> k \<or> e = -149) \<and> e \<le> 104)
      | _ \<Rightarrow> True)"

lemma log_scaled: "8388608 \<le> k \<Longrightarrow> k < 16777216 \<Longrightarrow> ilog2 (of_int k * pow2 e) = e + 23"
proof (rule ilog2_unique)
  assume k: "8388608 \<le> k" "k < 16777216"
  have "pow2 (e + 23) = 8388608 * pow2 e" "pow2 (e + 23 + 1) = 16777216 * pow2 e"
    by (simp_all add: pow2_add) (simp_all add: pow2_def)
  then show "pow2 (e + 23) \<le> of_int k * pow2 e" "of_int k * pow2 e < pow2 (e + 23 + 1)"
    using k by (simp_all add: mult_right_mono mult_strict_right_mono)
qed

lemma log_small: "0 < k \<Longrightarrow> k < 8388608 \<Longrightarrow> ilog2 (of_int k * pow2 (-149)) < -126"
proof -
  assume k: "0 < k" "k < 8388608"
  have "pow2 (ilog2 (of_int k * pow2 (-149))) \<le> of_int k * pow2 (-149)" by (rule ilog2_bounds) (use k in simp)
  also have "\<dots> < 8388608 * pow2 (-149)" using k by simp
  also have "\<dots> = pow2 (-126)" by (simp add: pow2_def)
  finally show ?thesis by (simp only: pow2_less)
qed

lemma sign_bits:
  "0 \<le> r \<Longrightarrow> r < 2147483648 \<Longrightarrow> ((if s then 2147483648 else 0) + r) mod (2147483648 :: int) = r"
  "0 \<le> r \<Longrightarrow> r < 2147483648 \<Longrightarrow> 2147483648 \<le> (if s then 2147483648 else 0) + (r :: int) \<longleftrightarrow> s"
  by (auto simp: mod_pos_pos_trivial)

lemma f32_from_normal:
  assumes "0 < e" "e < 255" "0 \<le> f" "f < 8388608"
  shows "f32_from ((if s then 2147483648 else 0) + (e * 8388608 + f)) = Num s (of_int (8388608 + f) * pow2 (e - 150))"
proof -
  have r: "0 \<le> e * 8388608 + f" "e * 8388608 + f < 2147483648" using assms by simp_all
  have "(e * 8388608 + f) div 8388608 = e" "(e * 8388608 + f) mod 8388608 = f"
    using assms int_div_pos_eq [of _ 8388608 e f] int_mod_pos_eq [of _ 8388608 e f] by (simp_all add: mult.commute)
  then show ?thesis using assms by (simp only: f32_from_def Let_def sign_bits [OF r]) simp
qed

lemma f32_round: "is_f32 x \<Longrightarrow> f32_from (f32_bits x) = x"
proof (cases x)
  case (Num s m)
  assume "is_f32 x"
  then consider "m = 0" | k e where "m = of_int k * pow2 e" "0 < k" "k < 16777216" "-149 \<le> e" "8388608 \<le> k \<or> e = -149" "e \<le> 104"
    using Num by (auto simp: is_f32_def)
  then show ?thesis
  proof cases
    case 1
    then show ?thesis using Num by (simp add: f32_bits_def f32_from_def)
  next
    case 2
    then have m: "0 < m" by simp
    show ?thesis
    proof (cases "8388608 \<le> k")
      case True
      have l: "ilog2 m = e + 23" using log_scaled True 2(1,3) by simp
      have "m * pow2 (23 - (e + 23)) = of_int k" using 2(1) by (simp add: mult.assoc flip: pow2_add) (simp add: pow2_def)
      then have "\<lfloor>m * pow2 (23 - ilog2 m)\<rfloor> = k" by (simp add: l)
      then have b: "f32_bits x = (if s then 2147483648 else 0) + ((e + 150) * 8388608 + (k - 8388608))"
        using Num m 2(4) by (simp add: f32_bits_def l Let_def)
      have "f32_from (f32_bits x) = Num s (of_int (8388608 + (k - 8388608)) * pow2 (e + 150 - 150))"
        unfolding b by (rule f32_from_normal) (use 2(3,4,6) True in simp_all)
      then show ?thesis using 2(1) Num by simp
    next
      case False
      then have e: "e = -149" using 2(5) by simp
      have l: "ilog2 m < -126" using log_small [of k] 2(1,2) False e by simp
      have "m * pow2 149 = of_int k" using 2(1) e by (simp add: mult.assoc flip: pow2_add) (simp add: pow2_def)
      then have b: "f32_bits x = (if s then 2147483648 else 0) + k" using Num m l by (simp add: f32_bits_def Let_def)
      have r: "0 \<le> k" "k < 2147483648" "k div 8388608 = 0" "k mod 8388608 = k" using 2(2) False by simp_all
      have "f32_from (f32_bits x) = Num s (of_int k * pow2 (-149))"
        unfolding b f32_from_def Let_def sign_bits [OF r(1,2)] using r(3,4) by simp
      then show ?thesis using 2(1) Num e by simp
    qed
  qed
qed (simp_all add: f32_bits_def f32_from_def)

lemma f32_bits_range: "is_f32 x \<Longrightarrow> 0 \<le> f32_bits x \<and> f32_bits x < 4294967296"
proof (cases x)
  case (Num s m)
  assume "is_f32 x"
  then consider "m = 0" | k e where "m = of_int k * pow2 e" "0 < k" "k < 16777216" "-149 \<le> e" "8388608 \<le> k \<or> e = -149" "e \<le> 104"
    using Num by (auto simp: is_f32_def)
  then show ?thesis
  proof cases
    case 2
    then have m: "0 < m" by simp
    show ?thesis
    proof (cases "8388608 \<le> k")
      case True
      have l: "ilog2 m = e + 23" using log_scaled True 2(1,3) by simp
      have "m * pow2 (23 - (e + 23)) = of_int k" using 2(1) by (simp add: mult.assoc flip: pow2_add) (simp add: pow2_def)
      then have "\<lfloor>m * pow2 (23 - ilog2 m)\<rfloor> = k" by (simp add: l)
      then have b: "f32_bits x = (if s then 2147483648 else 0) + ((e + 150) * 8388608 + (k - 8388608))"
        using Num m 2(4) by (simp add: f32_bits_def l Let_def)
      then show ?thesis using 2(3,4,6) True by simp
    next
      case False
      then have e: "e = -149" using 2(5) by simp
      have l: "ilog2 m < -126" using log_small [of k] 2(1,2) False e by simp
      have "m * pow2 149 = of_int k" using 2(1) e by (simp add: mult.assoc flip: pow2_add) (simp add: pow2_def)
      then have b: "f32_bits x = (if s then 2147483648 else 0) + k" using Num m l by (simp add: f32_bits_def Let_def)
      then show ?thesis using 2(2) False by simp
    qed
  qed (simp add: f32_bits_def Num)
qed (simp_all add: f32_bits_def)

text \<open>Rounding to \<open>float32\<close> gives a value of the format.\<close>

lemma is_f32_round: "is_f32 (round32 s m)"
proof (cases "rmag 24 (-149) m = 0 \<or> rmag 24 (-149) m \<ge> pow2 128")
  case True
  then show ?thesis by (auto simp: round32_def fround_def is_f32_def Let_def)
next
  case False
  then have m: "0 < m" by (cases "m \<le> 0") (simp_all add: rmag_def)
  define e where "e = rexp 24 (-149) m"
  define k where "k = rne (m / pow2 e)"
  define v where "v = rmag 24 (-149) m"
  have v: "v = of_int k * pow2 e" using m by (simp add: v_def rmag_def k_def e_def Let_def)
  have v0: "0 < v" "v < pow2 128" using False rmag_nonneg [of 24 "-149" m] by (auto simp: v_def)
  have k0: "0 < k" using v0(1) v pow2_pos [of e] by (auto simp: zero_less_mult_iff)
  have e: "-149 \<le> e" "ilog2 m + 1 \<le> e + 24" by (simp_all add: e_def rexp_def)
  have "m < pow2 (e + 24)" using ilog2_bounds(2) [OF m] e(2) pow2_le [of "ilog2 m + 1" "e + 24"] by linarith
  then have "m / pow2 e \<le> of_int 16777216" by (simp add: pow2_add divide_le_eq) (simp add: pow2_def)
  then have k1: "k \<le> 16777216" unfolding k_def using rne_mono rne_of_int by metis
  have k2: "8388608 \<le> k \<or> e = -149"
  proof (cases "e = -149")
    case False
    then have "ilog2 m = e + 23" by (auto simp: e_def rexp_def)
    then have "pow2 (e + 23) \<le> m" using ilog2_bounds(1) [OF m] by simp
    then have "of_int 8388608 \<le> m / pow2 e" by (simp add: pow2_add le_divide_eq) (simp add: pow2_def mult.commute)
    then show ?thesis unfolding k_def using rne_mono rne_of_int by metis
  qed simp
  define k' where "k' = (if k = 16777216 then 8388608 else k)"
  define e' where "e' = (if k = 16777216 then e + 1 else e)"
  have v': "v = of_int k' * pow2 e'" by (simp add: v k'_def e'_def pow2_add) (simp add: pow2_def)
  have b: "0 < k'" "k' < 16777216" "-149 \<le> e'" "8388608 \<le> k' \<or> e' = -149" using k0 k1 k2 e by (auto simp: k'_def e'_def)
  have "e' \<le> 104"
  proof (rule ccontr)
    assume n: "\<not> e' \<le> 104"
    with b(4) have "(of_int 8388608 :: rat) \<le> of_int k'" by (simp only: of_int_le_iff) simp
    then have "of_int 8388608 * pow2 105 \<le> of_int k' * pow2 e'" using n by (intro mult_mono) simp_all
    then show False using v0(2) v' by (simp add: pow2_def)
  qed
  then have "is_f32 (Num s v)" using v' b unfolding is_f32_def by auto
  then show ?thesis using v0 by (simp add: round32_def fround_def v_def [symmetric] Let_def)
qed

lemma get_put_f32: "is_f32 x \<Longrightarrow> get_f32 (put_f32 x) = x"
  using f32_bits_range [of x] by (simp add: get_f32_def put_f32_def get_put_u32 f32_round)

end
