(* ===== verification/Graphd.thy ===== *)
theory Graphd
  imports ArgusBase BinaryEnc "HOL-Library.Monad_Syntax"
begin

text \<open>
  \<open>argus/graph/graphd\<close>: the round-robin files behind the graphs. A file has a header of three
  sections and, from byte 1024, three rings of records: the samples, the hourly and the daily
  summaries. \<open>Add\<close> appends a sample and rolls the summaries, \<open>Get\<close> reads the records of one ring
  through the circular reader of \<open>cbufio.go\<close>. The files are a map from path names to bytes, and an
  open file is its bytes with a position. The calendar (day and hour of a local time) and the
  clock are arguments. A result \<^const>\<open>None\<close> is a run-time panic or a loop that does not end.
\<close>

section \<open>Open files\<close>

record ofile =
  of_data :: bytes
  of_pos :: int

text \<open>\<open>f.Seek(pos, 0)\<close>: a negative offset is an error, which the callers ignore.\<close>

definition f_seek :: "int \<Rightarrow> ofile \<Rightarrow> ofile" where
  "f_seek p f = (if p < 0 then f else f\<lparr>of_pos := p\<rparr>)"

definition splice :: "nat \<Rightarrow> bytes \<Rightarrow> bytes \<Rightarrow> bytes" where
  "splice p bs d = (let d = d @ replicate (p - length d) 0 in take p d @ bs @ drop (p + length bs) d)"

definition f_write :: "bytes \<Rightarrow> ofile \<Rightarrow> ofile" where
  "f_write bs f = f\<lparr>of_data := splice (nat (of_pos f)) bs (of_data f), of_pos := of_pos f + int (length bs)\<rparr>"

definition slice :: "nat \<Rightarrow> nat \<Rightarrow> bytes \<Rightarrow> bytes" where
  "slice p n d = take n (drop p d)"

text \<open>\<open>f.Read(buf)\<close> with a buffer of \<open>n\<close> bytes: \<^const>\<open>None\<close> is the error at the end of the file.\<close>

definition f_read :: "nat \<Rightarrow> ofile \<Rightarrow> bytes option \<times> ofile" where
  "f_read n f =
     (let bs = slice (nat (of_pos f)) n (of_data f)
      in if bs = [] \<and> n \<noteq> 0 then (None, f) else (Some bs, f\<lparr>of_pos := of_pos f + int (length bs)\<rparr>))"

section \<open>The records of a file\<close>

record HeaderSect =
  hs_Idx :: int
  hs_NMax :: int
  hs_Count :: int
  hs_NSamp :: int
  hs_Min :: gofloat
  hs_Max :: gofloat
  hs_Sigm :: gofloat
  hs_Sigm2 :: gofloat
  hs_Exp :: gofloat
  hs_Delt :: gofloat
  hs_Status :: int
  hs_Pad :: bytes

record Header =
  h_Magic :: bytes
  h_Lastt :: int
  h_Pad :: bytes
  h_Samp :: HeaderSect
  h_Hour :: HeaderSect
  h_Day :: HeaderSect

record SampleData =
  sd_When :: int
  sd_Status :: int
  sd_Value :: gofloat
  sd_Exp :: gofloat
  sd_Delt :: gofloat

record SummyData =
  sy_When :: int
  sy_Status :: int
  sy_Min :: gofloat
  sy_Max :: gofloat
  sy_Ave :: gofloat
  sy_Stdev :: gofloat
  sy_Exp :: gofloat
  sy_Delt :: gofloat

record Export =
  ex_Time :: int
  ex_Status :: status
  ex_Value :: gofloat
  ex_Min :: gofloat
  ex_Max :: gofloat
  ex_Stdev :: gofloat
  ex_Exp :: gofloat
  ex_Delt :: gofloat

definition zero_sect :: "int \<Rightarrow> HeaderSect" where
  "zero_sect nmax = \<lparr>hs_Idx = 0, hs_NMax = nmax, hs_Count = 0, hs_NSamp = 0, hs_Min = fzero, hs_Max = fzero,
     hs_Sigm = fzero, hs_Sigm2 = fzero, hs_Exp = fzero, hs_Delt = fzero, hs_Status = 0, hs_Pad = replicate 84 0\<rparr>"

definition MAGIC :: bytes where "MAGIC = [65, 71, 68, 53]"

definition HdrSize :: nat where "HdrSize = 1024"
definition SampSize :: nat where "SampSize = 20"
definition SummySize :: nat where "SummySize = 32"

text \<open>\<open>binary.Write\<close> and \<open>binary.Read\<close> of the records. A read that does not get all the bytes
  leaves the record as it was, with every field zero.\<close>

definition word_at :: "nat \<Rightarrow> bytes \<Rightarrow> bytes" where
  "word_at k bs = slice (4 * k) 4 bs"

definition put_sect :: "HeaderSect \<Rightarrow> bytes" where
  "put_sect h = put_i32 (hs_Idx h) @ put_i32 (hs_NMax h) @ put_i32 (hs_Count h) @ put_i32 (hs_NSamp h)
     @ put_f32 (hs_Min h) @ put_f32 (hs_Max h) @ put_f32 (hs_Sigm h) @ put_f32 (hs_Sigm2 h)
     @ put_f32 (hs_Exp h) @ put_f32 (hs_Delt h) @ put_i32 (hs_Status h) @ hs_Pad h"

definition get_sect :: "bytes \<Rightarrow> HeaderSect" where
  "get_sect bs = \<lparr>hs_Idx = get_i32 (word_at 0 bs), hs_NMax = get_i32 (word_at 1 bs), hs_Count = get_i32 (word_at 2 bs),
     hs_NSamp = get_i32 (word_at 3 bs), hs_Min = get_f32 (word_at 4 bs), hs_Max = get_f32 (word_at 5 bs),
     hs_Sigm = get_f32 (word_at 6 bs), hs_Sigm2 = get_f32 (word_at 7 bs), hs_Exp = get_f32 (word_at 8 bs),
     hs_Delt = get_f32 (word_at 9 bs), hs_Status = get_i32 (word_at 10 bs), hs_Pad = slice 44 84 bs\<rparr>"

definition put_header :: "Header \<Rightarrow> bytes" where
  "put_header h = h_Magic h @ put_u32 (h_Lastt h) @ h_Pad h @ put_sect (h_Samp h) @ put_sect (h_Hour h) @ put_sect (h_Day h)"

definition get_header :: "bytes \<Rightarrow> Header" where
  "get_header bs = \<lparr>h_Magic = slice 0 4 bs, h_Lastt = get_u32 (slice 4 4 bs), h_Pad = slice 8 120 bs,
     h_Samp = get_sect (slice 128 128 bs), h_Hour = get_sect (slice 256 128 bs), h_Day = get_sect (slice 384 128 bs)\<rparr>"

definition put_sample :: "SampleData \<Rightarrow> bytes" where
  "put_sample s = put_u32 (sd_When s) @ put_i32 (sd_Status s) @ put_f32 (sd_Value s) @ put_f32 (sd_Exp s) @ put_f32 (sd_Delt s)"

definition get_sample :: "bytes \<Rightarrow> SampleData" where
  "get_sample bs = \<lparr>sd_When = get_u32 (word_at 0 bs), sd_Status = get_i32 (word_at 1 bs), sd_Value = get_f32 (word_at 2 bs),
     sd_Exp = get_f32 (word_at 3 bs), sd_Delt = get_f32 (word_at 4 bs)\<rparr>"

definition put_summy :: "SummyData \<Rightarrow> bytes" where
  "put_summy s = put_u32 (sy_When s) @ put_i32 (sy_Status s) @ put_f32 (sy_Min s) @ put_f32 (sy_Max s)
     @ put_f32 (sy_Ave s) @ put_f32 (sy_Stdev s) @ put_f32 (sy_Exp s) @ put_f32 (sy_Delt s)"

definition get_summy :: "bytes \<Rightarrow> SummyData" where
  "get_summy bs = \<lparr>sy_When = get_u32 (word_at 0 bs), sy_Status = get_i32 (word_at 1 bs), sy_Min = get_f32 (word_at 2 bs),
     sy_Max = get_f32 (word_at 3 bs), sy_Ave = get_f32 (word_at 4 bs), sy_Stdev = get_f32 (word_at 5 bs),
     sy_Exp = get_f32 (word_at 6 bs), sy_Delt = get_f32 (word_at 7 bs)\<rparr>"

definition zero_header :: Header where
  "zero_header = \<lparr>h_Magic = [0, 0, 0, 0], h_Lastt = 0, h_Pad = replicate 120 0,
     h_Samp = zero_sect 0, h_Hour = zero_sect 0, h_Day = zero_sect 0\<rparr>"

definition zero_sample :: SampleData where
  "zero_sample = \<lparr>sd_When = 0, sd_Status = 0, sd_Value = fzero, sd_Exp = fzero, sd_Delt = fzero\<rparr>"

definition zero_summy :: SummyData where
  "zero_summy = \<lparr>sy_When = 0, sy_Status = 0, sy_Min = fzero, sy_Max = fzero, sy_Ave = fzero, sy_Stdev = fzero,
     sy_Exp = fzero, sy_Delt = fzero\<rparr>"

section \<open>The sections of the header\<close>

definition toSeconds :: "int \<Rightarrow> int" where "toSeconds t = 4 * t"
definition fromSeconds :: "int \<Rightarrow> int" where "fromSeconds t = (t div 4) mod 4294967296"
definition lockno :: "string \<Rightarrow> int" where "lockno f = HashDjb2 f smod 251"

text \<open>\<open>math.Sqrt\<close>, correctly rounded: the integer square root of the argument scaled to more than
  55 bits, with a half added when it is not exact.\<close>

fun isqrt :: "nat \<Rightarrow> nat" where
  "isqrt n = (if n = 0 then 0 else let r = 2 * isqrt (n div 4) in if (r + 1) * (r + 1) \<le> n then r + 1 else r)"

declare isqrt.simps [simp del]

fun f_sqrt :: "gofloat \<Rightarrow> gofloat" where
  "f_sqrt NaN = NaN"
| "f_sqrt (Inf s) = (if s then NaN else Inf False)"
| "f_sqrt (Num s m) =
     (if m = 0 then Num s m
      else if s then NaN
      else let t = 60 - ilog2 m div 2; v = m * pow2 (2 * t); n = nat \<lfloor>v\<rfloor>; r = isqrt n
           in round64 False ((of_nat r + (if of_nat r * of_nat r = v then 0 else 1 / 2)) * pow2 (- t)))"

definition hs_add :: "status \<Rightarrow> gofloat \<Rightarrow> gofloat \<Rightarrow> gofloat \<Rightarrow> HeaderSect \<Rightarrow> HeaderSect" where
  "hs_add status val ex delt hs =
     hs\<lparr>hs_NSamp := wrap32 (hs_NSamp hs + 1),
        hs_Min := (if val < hs_Min hs then val else hs_Min hs),
        hs_Max := (if hs_Max hs < val then val else hs_Max hs),
        hs_Sigm := fadd round32 (hs_Sigm hs) val,
        hs_Sigm2 := fadd round32 (hs_Sigm2 hs) (fmul round32 val val),
        hs_Exp := fadd round32 (hs_Exp hs) ex,
        hs_Delt := fadd round32 (hs_Delt hs) delt,
        hs_Status := (if wrap32 status > hs_Status hs then wrap32 status else hs_Status hs)\<rparr>"

definition hs_summarize :: "int \<Rightarrow> HeaderSect \<Rightarrow> SummyData" where
  "hs_summarize lastt hs =
     (let n = f_of_int round32 (hs_NSamp hs);
          ave = fdiv round32 (hs_Sigm hs) n;
          std = fsub round32 (fdiv round32 (hs_Sigm2 hs) n) (fmul round32 ave ave);
          std = (if fzero < std then f_conv round32 (f_sqrt std) else fzero)
      in \<lparr>sy_When = lastt, sy_Status = hs_Status hs, sy_Min = hs_Min hs, sy_Max = hs_Max hs, sy_Ave = ave,
          sy_Stdev = std, sy_Exp = fdiv round32 (hs_Exp hs) n, sy_Delt = fdiv round32 (hs_Delt hs) n\<rparr>)"

definition hs_reset :: "gofloat \<Rightarrow> HeaderSect \<Rightarrow> HeaderSect" where
  "hs_reset val hs =
     hs\<lparr>hs_NSamp := 0, hs_Min := val, hs_Max := val, hs_Sigm := fzero, hs_Sigm2 := fzero, hs_Exp := fzero,
        hs_Delt := fzero, hs_Status := 0\<rparr>"

text \<open>\<open>Idx = (Idx + 1) % NMax; Count++\<close>, at most \<open>NMax\<close>: a panic where \<open>NMax\<close> is 0.\<close>

definition hs_advance :: "HeaderSect \<Rightarrow> HeaderSect option" where
  "hs_advance hs =
     (if hs_NMax hs = 0 then None
      else let c = wrap32 (hs_Count hs + 1)
           in Some (hs\<lparr>hs_Idx := wrap32 (hs_Idx hs + 1) smod hs_NMax hs,
                       hs_Count := (if c > hs_NMax hs then hs_NMax hs else c)\<rparr>))"

section \<open>Adding a sample\<close>

record graphData =
  g_f :: ofile
  g_h :: Header
  g_sampStart :: int
  g_hourStart :: int
  g_dayStart :: int

record calendar =
  cal_day :: "int \<Rightarrow> int"
  cal_hour :: "int \<Rightarrow> int"

definition g_seek :: "int \<Rightarrow> graphData \<Rightarrow> graphData" where
  "g_seek p g = g\<lparr>g_f := f_seek p (g_f g)\<rparr>"

definition g_write :: "bytes \<Rightarrow> graphData \<Rightarrow> graphData" where
  "g_write bs g = g\<lparr>g_f := f_write bs (g_f g)\<rparr>"

definition g_roll :: "HeaderSect \<Rightarrow> int \<Rightarrow> gofloat \<Rightarrow> graphData \<Rightarrow> (HeaderSect \<times> graphData) option" where
  "g_roll hs start val g =
     (if hs_NSamp hs = 0 then Some (hs, g)
      else do {
        let g = g_write (put_summy (hs_summarize (h_Lastt (g_h g)) hs)) (g_seek (start + int SummySize * hs_Idx hs) g);
        hs \<leftarrow> hs_advance hs;
        Some (hs_reset val hs, g) })"

definition rollHour :: "gofloat \<Rightarrow> graphData \<Rightarrow> graphData option" where
  "rollHour val g = do {
     (hs, g) \<leftarrow> g_roll (h_Hour (g_h g)) (g_hourStart g) val g;
     Some (g\<lparr>g_h := (g_h g)\<lparr>h_Hour := hs\<rparr>\<rparr>) }"

definition rollDay :: "gofloat \<Rightarrow> graphData \<Rightarrow> graphData option" where
  "rollDay val g = do {
     (hs, g) \<leftarrow> g_roll (h_Day (g_h g)) (g_dayStart g) val g;
     Some (g\<lparr>g_h := (g_h g)\<lparr>h_Day := hs\<rparr>\<rparr>) }"

definition sample_of :: "int \<Rightarrow> status \<Rightarrow> gofloat \<Rightarrow> gofloat \<Rightarrow> gofloat \<Rightarrow> SampleData" where
  "sample_of when status val yn dn =
     \<lparr>sd_When = fromSeconds when, sd_Status = wrap32 status, sd_Value = f_conv round32 val,
      sd_Exp = f_conv round32 yn, sd_Delt = f_conv round32 dn\<rparr>"

definition g_add :: "calendar \<Rightarrow> int \<Rightarrow> status \<Rightarrow> gofloat \<Rightarrow> gofloat \<Rightarrow> gofloat \<Rightarrow> graphData \<Rightarrow> graphData option" where
  "g_add cal when status val yn dn g = do {
     let g = g_write (put_sample (sample_of when status val yn dn))
               (g_seek (g_sampStart g + int SampSize * hs_Idx (h_Samp (g_h g))) g);
     samp \<leftarrow> hs_advance (h_Samp (g_h g));
     let g = g\<lparr>g_h := (g_h g)\<lparr>h_Samp := samp\<rparr>\<rparr>;
     let v = f_conv round32 val;
     let y = f_conv round32 yn;
     let d = f_conv round32 dn;
     let lt = toSeconds (h_Lastt (g_h g));
     g \<leftarrow> (if cal_day cal lt \<noteq> cal_day cal when then rollDay v g else Some g);
     g \<leftarrow> (if cal_hour cal lt \<noteq> cal_hour cal when then rollHour v g else Some g);
     Some (g\<lparr>g_h := (g_h g)\<lparr>h_Hour := hs_add status v y d (h_Hour (g_h g)),
                            h_Day := hs_add status v y d (h_Day (g_h g)),
                            h_Lastt := fromSeconds when\<rparr>\<rparr>) }"

section \<open>Opening, creating and saving\<close>

record gd_world =
  gd_files :: "string \<Rightarrow> bytes option"
  gd_openable :: "string \<Rightarrow> bool"
  gd_creatable :: "string \<Rightarrow> bool"
  gd_datadir :: string

definition gd_filename :: "gd_world \<Rightarrow> string \<Rightarrow> string" where
  "gd_filename w f = gd_datadir w @ ''/gdata/'' @ f"

definition initHeader :: "graphData \<Rightarrow> graphData" where
  "initHeader g =
     (let hour = int HdrSize + int SampSize * hs_NMax (h_Samp (g_h g))
      in g\<lparr>g_sampStart := int HdrSize, g_hourStart := hour,
           g_dayStart := hour + int SummySize * hs_NMax (h_Hour (g_h g))\<rparr>)"

definition graph_on :: "bytes \<Rightarrow> graphData" where
  "graph_on d = \<lparr>g_f = \<lparr>of_data = d, of_pos = 0\<rparr>, g_h = zero_header, g_sampStart = 0, g_hourStart = 0, g_dayStart = 0\<rparr>"

definition readHeader :: "graphData \<Rightarrow> graphData option" where
  "readHeader g =
     (let f = f_seek 0 (g_f g);
          (bs, f) = f_read 512 f;
          h = (case bs of Some bs \<Rightarrow> if length bs = 512 then get_header bs else zero_header | None \<Rightarrow> zero_header)
      in if h_Magic h \<noteq> MAGIC then None else Some (initHeader (g\<lparr>g_f := f, g_h := h\<rparr>)))"

definition newHeader :: "graphData \<Rightarrow> graphData" where
  "newHeader g =
     initHeader (g\<lparr>g_h := \<lparr>h_Magic = MAGIC, h_Lastt = 0, h_Pad = replicate 120 0,
       h_Samp = zero_sect 1024, h_Hour = zero_sect 1024, h_Day = zero_sect 1024\<rparr>\<rparr>)"

definition g_open :: "gd_world \<Rightarrow> string \<Rightarrow> graphData option" where
  "g_open w path =
     (case gd_files w path of
        None \<Rightarrow> None
      | Some d \<Rightarrow> if gd_openable w path then readHeader (graph_on d) else None)"

definition g_create :: "gd_world \<Rightarrow> string \<Rightarrow> graphData option" where
  "g_create w path = (if gd_creatable w path then Some (newHeader (graph_on [])) else None)"

definition g_save :: "graphData \<Rightarrow> graphData" where
  "g_save g = g_write (put_header (g_h g)) (g_seek 0 g)"

definition gd_Add :: "calendar \<Rightarrow> string \<Rightarrow> int \<Rightarrow> status \<Rightarrow> gofloat \<Rightarrow> gofloat \<Rightarrow> gofloat \<Rightarrow> gd_world \<Rightarrow> gd_world option" where
  "gd_Add cal name when status val yn dn w =
     (if gd_datadir w = [] then Some w
      else
        let status = (if status = DEPENDS \<or> status = UNKNOWN then CLEAR else status);
            path = gd_filename w name
        in case (case g_open w path of Some g \<Rightarrow> Some g | None \<Rightarrow> g_create w path) of
             None \<Rightarrow> Some w
           | Some g \<Rightarrow> do {
               g \<leftarrow> g_add cal when status val yn dn g;
               Some (w\<lparr>gd_files := (gd_files w)(path \<mapsto> of_data (g_f (g_save g)))\<rparr>) })"

section \<open>The circular reader\<close>

text \<open>The buffer holds the bytes of the last read, \<open>buf[0:bend]\<close>.\<close>

record CbufReader =
  cb_f :: ofile
  cb_buf :: bytes
  cb_bpos :: nat
  cb_sectoff :: int
  cb_sectsize :: int
  cb_sectpos :: int

definition NewCbufReader :: "ofile \<Rightarrow> int \<Rightarrow> int \<Rightarrow> CbufReader" where
  "NewCbufReader f start sz =
     \<lparr>cb_f = f, cb_buf = [], cb_bpos = 0, cb_sectoff = start, cb_sectsize = sz, cb_sectpos = 0\<rparr>"

definition cbuf_Seek :: "int \<Rightarrow> CbufReader \<Rightarrow> CbufReader" where
  "cbuf_Seek pos rr = rr\<lparr>cb_sectpos := pos, cb_f := f_seek (pos + cb_sectoff rr) (cb_f rr)\<rparr>"

definition BUFSIZE :: int where "BUFSIZE = 4096"

definition read_len :: "CbufReader \<Rightarrow> int" where
  "read_len rr =
     (let rlen = min (cb_sectsize rr - cb_sectpos rr) BUFSIZE;
          e = cb_sectpos rr + rlen
      in if cb_sectpos rr div BUFSIZE \<noteq> e div BUFSIZE then rlen - e mod BUFSIZE else rlen)"

datatype filled = FillPanic | FillError CbufReader | Filled CbufReader

definition cbuf_fill :: "CbufReader \<Rightarrow> filled" where
  "cbuf_fill rr =
     (let rlen = read_len rr in
      if rlen < 0 then FillPanic
      else case f_read (nat rlen) (cb_f rr) of
             (None, f) \<Rightarrow> FillError (rr\<lparr>cb_f := f\<rparr>)
           | (Some bs, f) \<Rightarrow>
               let rr = rr\<lparr>cb_f := f, cb_buf := bs, cb_sectpos := cb_sectpos rr + int (length bs)\<rparr>
               in Filled (if cb_sectpos rr \<ge> cb_sectsize rr then cbuf_Seek 0 rr else rr))"

text \<open>The bytes read, whether the error of the file was met, and the reader.\<close>

partial_function (option) cbuf_Read :: "nat \<Rightarrow> CbufReader \<Rightarrow> (bytes \<times> bool \<times> CbufReader) option" where
  "cbuf_Read n rr =
     (let av = drop (cb_bpos rr) (cb_buf rr) in
      if n \<le> length av then Some (take n av, False, rr\<lparr>cb_bpos := cb_bpos rr + n\<rparr>)
      else case cbuf_fill (rr\<lparr>cb_bpos := 0, cb_buf := []\<rparr>) of
             FillPanic \<Rightarrow> None
           | FillError rr \<Rightarrow> Some (av, True, rr)
           | Filled rr \<Rightarrow> do {
               (bs, err, rr) \<leftarrow> cbuf_Read (n - length av) rr;
               Some (av @ bs, err, rr) })"

section \<open>Reading the records\<close>

definition read_record :: "nat \<Rightarrow> (bytes \<Rightarrow> 'a) \<Rightarrow> 'a \<Rightarrow> CbufReader \<Rightarrow> ('a \<times> CbufReader) option" where
  "read_record sz dec zero rr = do {
     (bs, err, rr) \<leftarrow> cbuf_Read sz rr;
     Some (if err then zero else dec bs, rr) }"

definition export_sample :: "SampleData \<Rightarrow> Export" where
  "export_sample s = \<lparr>ex_Time = toSeconds (sd_When s), ex_Status = sd_Status s, ex_Value = sd_Value s, ex_Min = fzero,
     ex_Max = fzero, ex_Stdev = fzero, ex_Exp = sd_Exp s, ex_Delt = sd_Delt s\<rparr>"

definition export_summy :: "SummyData \<Rightarrow> Export" where
  "export_summy s = \<lparr>ex_Time = toSeconds (sy_When s), ex_Status = sy_Status s, ex_Value = sy_Ave s, ex_Min = sy_Min s,
     ex_Max = sy_Max s, ex_Stdev = sy_Stdev s, ex_Exp = sy_Exp s, ex_Delt = sy_Delt s\<rparr>"

text \<open>The loop of \<open>getSamples\<close> and \<open>getSummy\<close>: the records not later than \<open>since\<close> are skipped, and
  of the others those whose index is a multiple of \<open>subSamp\<close> are exported (\<open>i % 0\<close> panics).\<close>

fun read_loop :: "(CbufReader \<Rightarrow> ('a \<times> CbufReader) option) \<Rightarrow> ('a \<Rightarrow> int) \<Rightarrow> ('a \<Rightarrow> Export) \<Rightarrow> int \<Rightarrow> int
    \<Rightarrow> int \<Rightarrow> nat \<Rightarrow> CbufReader \<Rightarrow> Export list option" where
  "read_loop rd tm ex since subSamp i 0 rr = Some []"
| "read_loop rd tm ex since subSamp i (Suc n) rr = do {
     (s, rr) \<leftarrow> rd rr;
     if since > 0 \<and> toSeconds (tm s) \<le> since then read_loop rd tm ex since subSamp (i + 1) n rr
     else if subSamp = 0 then None
     else do {
       es \<leftarrow> read_loop rd tm ex since subSamp (i + 1) n rr;
       Some (if i smod subSamp \<noteq> 0 then es else ex s # es) } }"

definition sub_samp :: "int \<Rightarrow> int \<Rightarrow> int" where
  "sub_samp numRec width =
     (let width = (if width < 1 then numRec else width)
      in f_to_int64 (f_ceil (fdiv round64 (f_of_int round64 numRec) (f_of_int round64 width))))"

text \<open>The first record and the number of records; \<^const>\<open>None\<close> where the remainder by 0 panics.\<close>

definition sample_start :: "int \<Rightarrow> HeaderSect \<Rightarrow> int \<Rightarrow> (int \<times> int) option" where
  "sample_start now hs since =
     (if since > 0 then
        let minago = wrap64 (now - since + 59) sdiv 60;
            s = hs_Idx hs - minago
        in if s \<ge> 0 then Some (s, minago)
           else if hs_Count hs < hs_NMax hs then Some (0, minago)
           else if hs_NMax hs = 0 then None
           else Some ((s + hs_NMax hs) smod hs_NMax hs, minago)
      else Some (if hs_Count hs < hs_NMax hs then 0 else hs_Idx hs, hs_Count hs))"

definition getSamples :: "int \<Rightarrow> int \<Rightarrow> int \<Rightarrow> graphData \<Rightarrow> Export list option" where
  "getSamples now since width g = do {
     let hs = h_Samp (g_h g);
     (startRec, numRec) \<leftarrow> sample_start now hs since;
     let rr = NewCbufReader (g_f g) (g_sampStart g) (wrap32 (hs_NMax hs * int SampSize));
     read_loop (read_record SampSize get_sample zero_sample) sd_When export_sample since
       (sub_samp (hs_Count hs) width) 0 (nat numRec) (cbuf_Seek (wrap64 (startRec * int SampSize)) rr) }"

definition summy_start :: "int \<Rightarrow> HeaderSect \<Rightarrow> int \<Rightarrow> int \<Rightarrow> int \<Rightarrow> (int \<times> int) option" where
  "summy_start now hs sampNMax since spu =
     (let s = (if hs_Count hs < hs_NMax hs then 0 else hs_Idx hs)
      in if since > 0 then
           let uago = wrap64 (wrap64 (now - since) + spu - 1) sdiv spu
           in if sampNMax = 0 then None else Some ((s + hs_NMax hs - uago) smod sampNMax, uago)
         else Some (s, hs_Count hs))"

definition getSummy :: "int \<Rightarrow> HeaderSect \<Rightarrow> int \<Rightarrow> int \<Rightarrow> int \<Rightarrow> int \<Rightarrow> graphData \<Rightarrow> Export list option" where
  "getSummy now hs start since width spu g = do {
     (startRec, numRec) \<leftarrow> summy_start now hs (hs_NMax (h_Samp (g_h g))) since spu;
     let rr = NewCbufReader (g_f g) start (wrap32 (hs_NMax hs * int SummySize));
     read_loop (read_record SummySize get_summy zero_summy) sy_When export_summy since
       (sub_samp (hs_Count hs) width) 0 (nat numRec) (cbuf_Seek (wrap64 (startRec * int SummySize)) rr) }"

definition getHourSummy :: "int \<Rightarrow> int \<Rightarrow> int \<Rightarrow> graphData \<Rightarrow> Export list option" where
  "getHourSummy now since width g = getSummy now (h_Hour (g_h g)) (g_hourStart g) since width 3600 g"

definition getDaySummy :: "int \<Rightarrow> int \<Rightarrow> int \<Rightarrow> graphData \<Rightarrow> Export list option" where
  "getDaySummy now since width g = getSummy now (h_Day (g_h g)) (g_dayStart g) since width (24 * 3600) g"

definition gd_Get :: "int \<Rightarrow> string \<Rightarrow> string \<Rightarrow> int \<Rightarrow> int \<Rightarrow> gd_world \<Rightarrow> Export list option" where
  "gd_Get now name which since width w =
     (if gd_datadir w = [] then Some []
      else case g_open w (gd_filename w name) of
             None \<Rightarrow> Some []
           | Some g \<Rightarrow>
               if which = ''samples'' then getSamples now since width g
               else if which = ''hours'' then getHourSummy now since width g
               else if which = ''days'' then getDaySummy now since width g
               else Some [])"

end
