(* ===== verification/GraphdRing.thy ===== *)
theory GraphdRing
  imports Graphd
begin

text \<open>
  The layout of a round-robin file: writing and reading at an offset, rings of records that keep
  the latest records written, and the circular reader, which returns the bytes of its section
  modulo the section's size.
\<close>

section \<open>Writing and reading at an offset\<close>

named_theorems at_offset

lemma length_splice [at_offset]: "length (splice p bs d) = max (length d) (p + length bs)"
  by (auto simp: splice_def Let_def)

lemma length_slice [at_offset]: "length (slice p n d) = min n (length d - p)"
  by (simp add: slice_def)

lemma slice_append_left: "a + n \<le> length x \<Longrightarrow> slice a n (x @ y) = slice a n x"
  by (simp add: slice_def)

lemma slice_take: "a + n \<le> p \<Longrightarrow> slice a n (take p d) = slice a n d"
  by (simp add: slice_def drop_take min_def)

lemma slice_splice_before [at_offset]: "a + n \<le> p \<Longrightarrow> a + n \<le> length d \<Longrightarrow> slice a n (splice p bs d) = slice a n d"
  unfolding splice_def Let_def by (simp add: slice_append_left slice_take del: take_append)

lemma slice_splice_after [at_offset]: "p + length bs \<le> a \<Longrightarrow> slice a n (splice p bs d) = slice a n d"
  by (cases "length d \<le> p") (simp_all add: splice_def slice_def Let_def min_def)

lemma slice_splice_at [at_offset]: "length bs = n \<Longrightarrow> slice p n (splice p bs d) = bs"
  by (auto simp: splice_def slice_def Let_def min_def)

lemma slice_nth: "i < n \<Longrightarrow> p + n \<le> length d \<Longrightarrow> slice p n d ! i = d ! (p + i)"
  by (simp add: slice_def)

lemma slice_skip [simp]: "length a \<le> p \<Longrightarrow> slice p n (a @ b) = slice (p - length a) n b"
  by (simp add: slice_def)

lemma slice_first [simp]: "length a = n \<Longrightarrow> slice 0 n (a @ b) = a" "length a = n \<Longrightarrow> slice 0 n a = a"
  by (simp_all add: slice_def)

section \<open>Rings of records\<close>

text \<open>The file holds the latest \<open>n\<close> records of a history, each in the slot of its number modulo \<open>n\<close>.\<close>

definition ring :: "nat \<Rightarrow> nat \<Rightarrow> nat \<Rightarrow> bytes list \<Rightarrow> bytes \<Rightarrow> bool" where
  "ring start sz n recs d \<longleftrightarrow>
     (\<forall>j < length recs. length recs \<le> j + n \<longrightarrow>
        start + sz * (j mod n) + sz \<le> length d \<and> slice (start + sz * (j mod n)) sz d = recs ! j)"

lemma ring_empty [simp]: "ring start sz n [] d"
  by (simp add: ring_def)

lemma slot_end: "0 < n \<Longrightarrow> sz * (j mod n) + sz \<le> sz * (n :: nat)"
proof -
  assume "0 < n"
  then have "sz * Suc (j mod n) \<le> sz * n" by (intro mult_le_mono2 Suc_leI) simp
  then show ?thesis by simp
qed

lemma ring_frame:
  assumes "p + length bs \<le> start \<or> start + sz * n \<le> p" "0 < n" "ring start sz n recs d"
  shows "ring start sz n recs (splice p bs d)"
  unfolding ring_def
proof (intro allI impI)
  fix j assume j: "j < length recs" "length recs \<le> j + n"
  have r: "start + sz * (j mod n) + sz \<le> length d" "slice (start + sz * (j mod n)) sz d = recs ! j"
    using assms(3) j by (auto simp: ring_def)
  have "slice (start + sz * (j mod n)) sz (splice p bs d) = slice (start + sz * (j mod n)) sz d"
    using assms(1)
  proof
    assume "p + length bs \<le> start"
    then show ?thesis by (intro slice_splice_after) simp
  next
    assume "start + sz * n \<le> p"
    then show ?thesis using slot_end [OF assms(2), of sz j] r(1) by (intro slice_splice_before) simp_all
  qed
  then show "start + sz * (j mod n) + sz \<le> length (splice p bs d) \<and> slice (start + sz * (j mod n)) sz (splice p bs d) = recs ! j"
    using r by (simp add: length_splice)
qed

lemma slots_differ:
  assumes "j < m" "m < j + n" shows "j mod n \<noteq> m mod (n :: nat)"
proof
  assume "j mod n = m mod n"
  then have "n dvd m - j" using assms(1) by (metis less_imp_le mod_eq_dvd_iff_nat)
  then have "n \<le> m - j" using assms(1) by (intro dvd_imp_le) simp_all
  then show False using assms by simp
qed

lemma slots_apart: "a \<noteq> b \<Longrightarrow> sz * a + sz \<le> sz * b \<or> sz * b + sz \<le> sz * (a :: nat)"
  by (metis add.commute mult_Suc_right mult_le_mono2 nat_neq_iff Suc_leI)

lemma ring_push:
  assumes "ring start sz n recs d" "length r = sz" "0 < n"
  shows "ring start sz n (recs @ [r]) (splice (start + sz * (length recs mod n)) r d)"
  unfolding ring_def
proof (intro allI impI)
  let ?m = "length recs"
  let ?d = "splice (start + sz * (?m mod n)) r d"
  fix j assume j: "j < length (recs @ [r])" "length (recs @ [r]) \<le> j + n"
  show "start + sz * (j mod n) + sz \<le> length ?d \<and> slice (start + sz * (j mod n)) sz ?d = (recs @ [r]) ! j"
  proof (cases "j = ?m")
    case True
    then show ?thesis using assms(2) by (simp add: length_splice slice_splice_at)
  next
    case False
    then have j': "j < ?m" "?m < j + n" using j by simp_all
    then have r: "start + sz * (j mod n) + sz \<le> length d" "slice (start + sz * (j mod n)) sz d = recs ! j"
      using assms(1) by (auto simp: ring_def)
    have "slice (start + sz * (j mod n)) sz ?d = slice (start + sz * (j mod n)) sz d"
      using slots_apart [OF slots_differ [OF j'], of sz]
    proof
      assume "sz * (j mod n) + sz \<le> sz * (?m mod n)"
      then show ?thesis using r(1) by (intro slice_splice_before) simp_all
    next
      assume "sz * (?m mod n) + sz \<le> sz * (j mod n)"
      then show ?thesis using assms(2) by (intro slice_splice_after) simp
    qed
    then show ?thesis using r j' by (simp add: length_splice nth_append)
  qed
qed

section \<open>The circular reader\<close>

text \<open>The reader on the section of \<open>sz\<close> bytes at \<open>start\<close>, its next byte the one with number \<open>p\<close>.\<close>

definition sect_byte :: "bytes \<Rightarrow> nat \<Rightarrow> nat \<Rightarrow> nat \<Rightarrow> nat" where
  "sect_byte d start sz i = start + i mod sz"

definition buffered :: "CbufReader \<Rightarrow> bytes" where
  "buffered rr = drop (cb_bpos rr) (cb_buf rr)"

definition cb_at :: "bytes \<Rightarrow> nat \<Rightarrow> nat \<Rightarrow> nat \<Rightarrow> CbufReader \<Rightarrow> bool" where
  "cb_at d start sz p rr \<longleftrightarrow>
     of_data (cb_f rr) = d \<and> cb_sectoff rr = int start \<and> cb_sectsize rr = int sz
   \<and> 0 \<le> cb_sectpos rr \<and> cb_sectpos rr < int sz \<and> of_pos (cb_f rr) = int start + cb_sectpos rr
   \<and> (p + length (buffered rr)) mod sz = nat (cb_sectpos rr)
   \<and> (\<forall>i < length (buffered rr). buffered rr ! i = d ! (start + (p + i) mod sz))"

lemma read_len_bounds:
  assumes "0 \<le> cb_sectpos rr" "cb_sectpos rr < cb_sectsize rr"
  shows "0 < read_len rr" "read_len rr \<le> cb_sectsize rr - cb_sectpos rr"
proof -
  define s where "s = cb_sectpos rr"
  define m where "m = min (cb_sectsize rr - s) BUFSIZE"
  have m: "0 < m" "m \<le> cb_sectsize rr - s" using assms by (auto simp: m_def s_def BUFSIZE_def)
  have e: "0 \<le> (s + m) mod BUFSIZE" by (simp add: BUFSIZE_def)
  have l: "read_len rr = (if s div BUFSIZE \<noteq> (s + m) div BUFSIZE then m - (s + m) mod BUFSIZE else m)"
    by (simp add: read_len_def s_def m_def Let_def)
  have "0 < m - (s + m) mod BUFSIZE" if "s div BUFSIZE \<noteq> (s + m) div BUFSIZE"
  proof -
    have "s div BUFSIZE < (s + m) div BUFSIZE" using that m(1) zdiv_mono1 [of s "s + m" BUFSIZE] by (simp add: BUFSIZE_def)
    moreover have "s = BUFSIZE * (s div BUFSIZE) + s mod BUFSIZE" "s + m = BUFSIZE * ((s + m) div BUFSIZE) + (s + m) mod BUFSIZE"
      by simp_all
    moreover have "s mod BUFSIZE < BUFSIZE" by (simp add: BUFSIZE_def)
    ultimately show ?thesis unfolding BUFSIZE_def by linarith
  qed
  with l m e show "0 < read_len rr" "read_len rr \<le> cb_sectsize rr - cb_sectpos rr" by (auto simp: s_def)
qed

lemma cbuf_fill_ok:
  assumes at: "cb_at d start sz p rr" and b: "buffered rr = []" and d: "start + p mod sz < length d"
  obtains rr' where "cbuf_fill (rr\<lparr>cb_bpos := 0, cb_buf := []\<rparr>) = Filled rr'" "cb_at d start sz p rr'" "buffered rr' \<noteq> []"
proof -
  define s where "s = nat (cb_sectpos rr)"
  have s: "cb_sectpos rr = int s" "s = p mod sz" "s < sz" "of_pos (cb_f rr) = int (start + s)" "of_data (cb_f rr) = d"
      "cb_sectoff rr = int start" "cb_sectsize rr = int sz"
    using at b by (auto simp: cb_at_def s_def)
  define rr0 where "rr0 = rr\<lparr>cb_bpos := 0, cb_buf := []\<rparr>"
  define l where "l = nat (read_len rr0)"
  have l: "0 < l" "s + l \<le> sz" "\<not> read_len rr0 < 0"
    using read_len_bounds [of rr0] s by (simp_all add: l_def rr0_def)
  define bs where "bs = slice (start + s) l d"
  have n: "bs \<noteq> []" "length bs \<le> l" using l d s(2) by (auto simp: bs_def slice_def)
  have nth: "bs ! i = d ! (start + (p + i) mod sz)" if "i < length bs" for i
  proof -
    have "(p + i) mod sz = s + i" using that n l s mod_add_left_eq [of p sz i] by simp
    then show ?thesis using that d s(2) by (simp add: bs_def slice_def add.assoc)
  qed
  have pm: "(p + length bs) mod sz = (s + length bs) mod sz" by (simp add: s(2) mod_add_left_eq)
  have rd: "f_read l (cb_f rr0) = (Some bs, (cb_f rr)\<lparr>of_pos := int (start + s + length bs)\<rparr>)"
    using n s by (simp add: f_read_def rr0_def bs_def Let_def nat_int_add)
  define rr1 where "rr1 = rr0\<lparr>cb_f := (cb_f rr)\<lparr>of_pos := int (start + s + length bs)\<rparr>, cb_buf := bs,
      cb_sectpos := int (s + length bs)\<rparr>"
  define rr' where "rr' = (if s + length bs \<ge> sz then cbuf_Seek 0 rr1 else rr1)"
  have fill: "cbuf_fill rr0 = Filled rr'"
    using l(3) rd s(1,7) unfolding cbuf_fill_def Let_def l_def [symmetric] rr'_def
    by (simp add: rr1_def rr0_def)
  have buf: "buffered rr' = bs" by (simp add: rr'_def buffered_def rr1_def rr0_def cbuf_Seek_def)
  have "cb_at d start sz p rr'"
  proof (cases "s + length bs \<ge> sz")
    case True
    then have "s + length bs = sz" using n l by simp
    then show ?thesis using True s pm nth buf unfolding cb_at_def buf
      by (simp add: rr'_def cbuf_Seek_def f_seek_def rr1_def rr0_def)
  next
    case False
    then show ?thesis using s pm nth buf unfolding cb_at_def buf
      by (simp add: rr'_def rr1_def rr0_def)
  qed
  then show thesis using that fill buf n by (simp add: rr0_def)
qed

lemma cbuf_Read_ok:
  assumes "cb_at d start sz p rr" "\<forall>i < n. start + (p + i) mod sz < length d"
  shows "\<exists>rr'. cbuf_Read n rr = Some (map (\<lambda>i. d ! (start + (p + i) mod sz)) [0..<n], False, rr') \<and> cb_at d start sz (p + n) rr'"
  using assms
proof (induction "2 * n + (if buffered rr = [] then 1 else 0 :: nat)" arbitrary: n p rr rule: less_induct)
  case less
  let ?b = "\<lambda>p i. d ! (start + (p + i) mod sz)"
  let ?av = "buffered rr"
  have av: "?av ! i = ?b p i" if "i < length ?av" for i using less(2) that by (simp add: cb_at_def)
  have step: "cbuf_Read n rr =
     (if n \<le> length ?av then Some (take n ?av, False, rr\<lparr>cb_bpos := cb_bpos rr + n\<rparr>)
      else case cbuf_fill (rr\<lparr>cb_bpos := 0, cb_buf := []\<rparr>) of FillPanic \<Rightarrow> None | FillError rr \<Rightarrow> Some (?av, True, rr)
        | Filled rr \<Rightarrow> (case cbuf_Read (n - length ?av) rr of None \<Rightarrow> None | Some (bs, err, rr) \<Rightarrow> Some (?av @ bs, err, rr)))"
    by (subst cbuf_Read.simps) (simp add: buffered_def Let_def bind_eq_None_conv split: option.split filled.split)
  show ?case
  proof (cases "n \<le> length ?av")
    case True
    have "take n ?av = map (?b p) [0..<n]" using True av by (intro nth_equalityI) simp_all
    moreover have "cb_at d start sz (p + n) (rr\<lparr>cb_bpos := cb_bpos rr + n\<rparr>)"
    proof -
      have "buffered (rr\<lparr>cb_bpos := cb_bpos rr + n\<rparr>) = drop n ?av" by (simp add: buffered_def add.commute)
      moreover have "drop n ?av ! i = ?b (p + n) i" if "i < length ?av - n" for i
        using that True av [of "n + i"] by (simp add: ac_simps)
      ultimately show ?thesis using less(2) True by (simp add: cb_at_def)
    qed
    ultimately show ?thesis using True step by simp
  next
    case False
    let ?l = "length ?av"
    define rr0 where "rr0 = rr\<lparr>cb_bpos := 0, cb_buf := []\<rparr>"
    have b0: "buffered rr0 = []" by (simp add: buffered_def rr0_def)
    have at0: "cb_at d start sz (p + ?l) rr0" using less(2) b0 by (simp add: cb_at_def rr0_def)
    have "start + (p + ?l) mod sz < length d" using less(3) False by simp
    then obtain rr1 where f: "cbuf_fill (rr0\<lparr>cb_bpos := 0, cb_buf := []\<rparr>) = Filled rr1" "cb_at d start sz (p + ?l) rr1" "buffered rr1 \<noteq> []"
      using cbuf_fill_ok [OF at0 b0] by metis
    have e: "map (?b p) [0..<n] = ?av @ map (?b (p + ?l)) [0..<n - ?l]"
      using False av by (intro nth_equalityI) (auto simp: nth_append ac_simps)
    have rest: "\<exists>rr'. cbuf_Read (n - ?l) rr1 = Some (map (?b (p + ?l)) [0..<n - ?l], False, rr') \<and> cb_at d start sz (p + ?l + (n - ?l)) rr'"
    proof (rule less(1) [OF _ f(2)])
      show "2 * (n - ?l) + (if buffered rr1 = [] then 1 else 0) < 2 * n + (if buffered rr = [] then 1 else 0)"
        using False f(3) by (cases "buffered rr = []") simp_all
      show "\<forall>i < n - ?l. start + (p + ?l + i) mod sz < length d"
      proof (intro allI impI)
        fix i assume "i < n - ?l"
        then show "start + (p + ?l + i) mod sz < length d" using less(3) [rule_format, of "?l + i"] False by (simp add: add.assoc)
      qed
    qed
    then obtain rr' where "cbuf_Read (n - ?l) rr1 = Some (map (?b (p + ?l)) [0..<n - ?l], False, rr')" "cb_at d start sz (p + n) rr'"
      using False by auto
    then show ?thesis using False step f(1) e by (simp add: rr0_def)
  qed
qed

end
