(* ===== verification/GraphdFacts.thy ===== *)
theory GraphdFacts
  imports GraphdRing
begin

text \<open>
  The round-robin files are histories: what \<open>Get\<close> returns after a sequence of \<open>Add\<close>s is the end
  of the history that the added samples define, for the samples and for the two summaries.
\<close>

section \<open>The encodings of the records\<close>

definition is_i32 :: "int \<Rightarrow> bool" where "is_i32 x \<longleftrightarrow> - 2147483648 \<le> x \<and> x < 2147483648"
definition is_u32 :: "int \<Rightarrow> bool" where "is_u32 x \<longleftrightarrow> 0 \<le> x \<and> x < 4294967296"

definition sample_ok :: "SampleData \<Rightarrow> bool" where
  "sample_ok s \<longleftrightarrow> is_u32 (sd_When s) \<and> is_i32 (sd_Status s) \<and> is_f32 (sd_Value s) \<and> is_f32 (sd_Exp s) \<and> is_f32 (sd_Delt s)"

definition summy_ok :: "SummyData \<Rightarrow> bool" where
  "summy_ok s \<longleftrightarrow> is_u32 (sy_When s) \<and> is_i32 (sy_Status s) \<and> is_f32 (sy_Min s) \<and> is_f32 (sy_Max s) \<and> is_f32 (sy_Ave s)
     \<and> is_f32 (sy_Stdev s) \<and> is_f32 (sy_Exp s) \<and> is_f32 (sy_Delt s)"

definition stats_ok :: "HeaderSect \<Rightarrow> bool" where
  "stats_ok h \<longleftrightarrow> is_i32 (hs_NSamp h) \<and> is_f32 (hs_Min h) \<and> is_f32 (hs_Max h) \<and> is_f32 (hs_Sigm h) \<and> is_f32 (hs_Sigm2 h)
     \<and> is_f32 (hs_Exp h) \<and> is_f32 (hs_Delt h) \<and> is_i32 (hs_Status h) \<and> length (hs_Pad h) = 84"

definition sect_ok :: "HeaderSect \<Rightarrow> bool" where
  "sect_ok h \<longleftrightarrow> is_i32 (hs_Idx h) \<and> is_i32 (hs_NMax h) \<and> is_i32 (hs_Count h) \<and> stats_ok h"

definition header_ok :: "Header \<Rightarrow> bool" where
  "header_ok h \<longleftrightarrow> length (h_Magic h) = 4 \<and> is_u32 (h_Lastt h) \<and> length (h_Pad h) = 120
     \<and> sect_ok (h_Samp h) \<and> sect_ok (h_Hour h) \<and> sect_ok (h_Day h)"

lemma get_put_ok [simp]: "is_i32 x \<Longrightarrow> get_i32 (put_i32 x) = x" "is_u32 x \<Longrightarrow> get_u32 (put_u32 x) = x"
  by (simp_all add: is_i32_def is_u32_def get_put_i32 get_put_u32)

lemmas codec = word_at_def get_put_f32

lemma length_put_sect [simp]: "length (hs_Pad h) = 84 \<Longrightarrow> length (put_sect h) = 128"
  by (simp add: put_sect_def)

lemma get_put_sect: "sect_ok h \<Longrightarrow> get_sect (put_sect h) = h"
  by (simp add: sect_ok_def stats_ok_def get_sect_def put_sect_def codec)

lemma sect_ok_Pad: "sect_ok h \<Longrightarrow> length (hs_Pad h) = 84"
  by (simp add: sect_ok_def stats_ok_def)

lemma length_put_header: "header_ok h \<Longrightarrow> length (put_header h) = 512"
  by (simp add: header_ok_def put_header_def sect_ok_Pad)

lemma get_put_header: "header_ok h \<Longrightarrow> get_header (put_header h) = h"
  by (simp add: header_ok_def get_header_def put_header_def sect_ok_Pad get_put_sect)

lemma length_put_sample [simp]: "length (put_sample s) = SampSize"
  by (simp add: put_sample_def SampSize_def)

lemma length_put_summy [simp]: "length (put_summy s) = SummySize"
  by (simp add: put_summy_def SummySize_def)

lemma get_put_sample: "sample_ok s \<Longrightarrow> get_sample (put_sample s) = s"
  by (simp add: sample_ok_def get_sample_def put_sample_def codec)

lemma get_put_summy: "summy_ok s \<Longrightarrow> get_summy (put_summy s) = s"
  by (simp add: summy_ok_def get_summy_def put_summy_def codec)

section \<open>Values stay in the formats\<close>

lemma is_i32_wrap [simp]: "is_i32 (wrap32 x)"
  by (simp add: is_i32_def wrap32_def)

lemma is_u32_from [simp]: "is_u32 (fromSeconds t)"
  by (simp add: is_u32_def fromSeconds_def)

lemma is_f32_fzero [simp]: "is_f32 fzero"
  by (simp add: is_f32_def fzero_def)

lemma is_f32_special [simp]: "is_f32 NaN" "is_f32 (Inf s)" "is_f32 (Num s 0)"
  by (simp_all add: is_f32_def)

lemma is_f32_conv [simp]: "is_f32 (f_conv round32 x)"
  by (cases x) (simp_all add: is_f32_round)

lemma is_f32_add [simp]: "is_f32 (fadd round32 x y)"
  by (cases x; cases y) (simp_all add: is_f32_round round_signed_def Let_def)

lemma is_f32_sub [simp]: "is_f32 (fsub round32 x y)"
  by (simp add: fsub_def)

lemma is_f32_mul [simp]: "is_f32 (fmul round32 x y)"
  by (cases x; cases y) (simp_all add: is_f32_round)

lemma is_f32_div [simp]: "is_f32 (fdiv round32 x y)"
  by (cases x; cases y) (simp_all add: is_f32_round)

lemma sample_of_ok [simp]: "sample_ok (sample_of t st v y d)"
  by (simp add: sample_ok_def sample_of_def)

lemma stats_ok_zero [simp]: "stats_ok (zero_sect n)"
  by (simp add: stats_ok_def zero_sect_def is_i32_def)

lemma stats_ok_add [simp]: "stats_ok h \<Longrightarrow> is_f32 v \<Longrightarrow> stats_ok (hs_add st v y d h)"
  by (simp add: stats_ok_def hs_add_def)

lemma stats_ok_reset [simp]: "stats_ok h \<Longrightarrow> is_f32 v \<Longrightarrow> stats_ok (hs_reset v h)"
  by (simp add: stats_ok_def hs_reset_def is_i32_def)

lemma summarize_ok [simp]: "stats_ok h \<Longrightarrow> is_u32 t \<Longrightarrow> summy_ok (hs_summarize t h)"
  by (simp add: stats_ok_def summy_ok_def hs_summarize_def Let_def)

section \<open>Reading a ring\<close>

text \<open>What the loop of \<open>getSamples\<close> and \<open>getSummy\<close> needs of the records: a length and an encoding
  that is read back.\<close>

locale record_format =
  fixes put :: "'a \<Rightarrow> bytes" and dec :: "bytes \<Rightarrow> 'a" and zero :: 'a and sz :: nat and ok :: "'a \<Rightarrow> bool"
  assumes length_put: "length (put x) = sz"
    and dec_put: "ok x \<Longrightarrow> dec (put x) = x"
    and size_pos: "0 < sz"
begin

lemma record_at:
  assumes r: "ring start sz n (map put xs) d" and n: "0 < n" and ok: "list_all ok xs"
    and at: "cb_at d start (sz * n) p rr" "p mod (sz * n) = sz * (j mod n)"
    and j: "j < length xs" "length xs \<le> j + n"
  shows "\<exists>rr'. read_record sz dec zero rr = Some (xs ! j, rr') \<and> cb_at d start (sz * n) (p + sz) rr'"
proof -
  have e: "start + sz * (j mod n) + sz \<le> length d" "slice (start + sz * (j mod n)) sz d = put (xs ! j)"
    using r j unfolding ring_def by auto
  have pi: "(p + i) mod (sz * n) = sz * (j mod n) + i" if "i < sz" for i
  proof -
    have "sz * (j mod n) + i < sz * n" using slot_end [OF n, of sz j] that by linarith
    then show ?thesis using at(2) mod_add_left_eq [of p "sz * n" i] by simp
  qed
  have b: "map (\<lambda>i. d ! (start + (p + i) mod (sz * n))) [0..<sz] = put (xs ! j)"
    using e pi by (intro nth_equalityI) (simp_all add: length_slice slice_nth add.assoc flip: e(2))
  have "\<forall>i < sz. start + (p + i) mod (sz * n) < length d" using e(1) pi by simp
  from cbuf_Read_ok [OF at(1) this] obtain rr' where "cbuf_Read sz rr = Some (put (xs ! j), False, rr')" "cb_at d start (sz * n) (p + sz) rr'"
    unfolding b by blast
  moreover have "ok (xs ! j)" using ok j(1) by (simp add: list_all_length)
  ultimately show ?thesis by (simp add: read_record_def dec_put)
qed

lemma loop_reads:
  assumes "ring start sz n (map put xs) d" "0 < n" "list_all ok xs"
    and "cb_at d start (sz * n) p rr" "p mod (sz * n) = sz * (j mod n)" "length xs \<le> j + n" "j + k = length xs"
  shows "read_loop (read_record sz dec zero) tm ex 0 1 i k rr = Some (map ex (drop j xs))"
  using assms(4-)
proof (induction k arbitrary: i j p rr)
  case (Suc k)
  obtain rr' where r: "read_record sz dec zero rr = Some (xs ! j, rr')" "cb_at d start (sz * n) (p + sz) rr'"
    using record_at [OF assms(1-3) Suc.prems(1,2) _ Suc.prems(3)] Suc.prems(4) by auto
  have "(p + sz) mod (sz * n) = (sz * j + sz) mod (sz * n)"
    using Suc.prems(2) by (metis mod_add_left_eq mod_mult_mult1)
  then have "(p + sz) mod (sz * n) = sz * (Suc j mod n)" using mod_mult_mult1 [of sz "Suc j" n] by (simp add: add.commute)
  then have "read_loop (read_record sz dec zero) tm ex 0 1 (i + 1) k rr' = Some (map ex (drop (Suc j) xs))"
    using Suc.prems by (intro Suc.IH [OF r(2)]) simp_all
  moreover have "drop j xs = xs ! j # drop (Suc j) xs" using Suc.prems(4) by (simp add: Cons_nth_drop_Suc)
  ultimately show ?case by (simp add: r(1) signed_modulo_int_def)
qed simp

text \<open>From the oldest record on, the loop returns the latest \<open>n\<close> records.\<close>

lemma ring_read:
  assumes "ring start sz n (map put xs) d" "0 < n" "list_all ok xs"
    and f: "of_data f = d"
    and s: "s = (if length xs < n then 0 else length xs mod n)"
  shows "read_loop (read_record sz dec zero) tm ex 0 1 0 (min (length xs) n)
           (cbuf_Seek (int (sz * s)) (NewCbufReader f (int start) (int (sz * n))))
         = Some (map ex (drop (length xs - n) xs))"
proof (rule loop_reads [OF assms(1-3)])
  have s0: "s < n" using s assms(2) by simp
  then have sn: "sz * s < sz * n" using size_pos by simp
  show "cb_at d start (sz * n) (sz * s) (cbuf_Seek (int (sz * s)) (NewCbufReader f (int start) (int (sz * n))))"
    using sn f by (simp add: cb_at_def buffered_def cbuf_Seek_def NewCbufReader_def f_seek_def del: of_nat_mult)
  have "(length xs - n) mod n = s" using s by (auto simp: le_mod_geq)
  then show "sz * s mod (sz * n) = sz * ((length xs - n) mod n)" using sn by simp
qed auto

end

interpretation sample_format: record_format put_sample get_sample zero_sample SampSize sample_ok
  by unfold_locales (simp_all add: get_put_sample SampSize_def)

interpretation summy_format: record_format put_summy get_summy zero_summy SummySize summy_ok
  by unfold_locales (simp_all add: get_put_summy SummySize_def)

section \<open>The history of a graph\<close>

record gsample =
  gs_when :: int
  gs_status :: status
  gs_val :: gofloat
  gs_yn :: gofloat
  gs_dn :: gofloat

definition known_status :: "status \<Rightarrow> status" where
  "known_status s = (if s = DEPENDS \<or> s = UNKNOWN then CLEAR else s)"

definition stored_sample :: "gsample \<Rightarrow> SampleData" where
  "stored_sample x = sample_of (gs_when x) (known_status (gs_status x)) (gs_val x) (gs_yn x) (gs_dn x)"

definition add_sample :: "gsample \<Rightarrow> HeaderSect \<Rightarrow> HeaderSect" where
  "add_sample x = hs_add (known_status (gs_status x)) (f_conv round32 (gs_val x)) (f_conv round32 (gs_yn x)) (f_conv round32 (gs_dn x))"

text \<open>The summaries of a period of the calendar (the hour or the day): one for every run of samples
  in the same period, in order, with the statistics of the run. The last run is still open.\<close>

fun summaries :: "(int \<Rightarrow> int) \<Rightarrow> int \<Rightarrow> HeaderSect \<Rightarrow> gsample list \<Rightarrow> SummyData list" where
  "summaries per lastt hs [] = []"
| "summaries per lastt hs (x # xs) =
     (if per (toSeconds lastt) \<noteq> per (gs_when x) \<and> hs_NSamp hs \<noteq> 0
      then hs_summarize lastt hs
             # summaries per (fromSeconds (gs_when x)) (add_sample x (hs_reset (f_conv round32 (gs_val x)) hs)) xs
      else summaries per (fromSeconds (gs_when x)) (add_sample x hs) xs)"

definition latest :: "nat \<Rightarrow> 'a list \<Rightarrow> 'a list" where
  "latest n xs = drop (length xs - n) xs"

definition add_all :: "calendar \<Rightarrow> string \<Rightarrow> gsample list \<Rightarrow> gd_world \<Rightarrow> gd_world option" where
  "add_all cal name xs w =
     fold (\<lambda>x w. Option.bind w (gd_Add cal name (gs_when x) (gs_status x) (gs_val x) (gs_yn x) (gs_dn x))) xs (Some w)"

section \<open>The file of a history\<close>

text \<open>One section of the header and its ring, for a history of records.\<close>

definition placed :: "nat \<Rightarrow> HeaderSect \<Rightarrow> HeaderSect" where
  "placed m hs = hs\<lparr>hs_Idx := int (m mod 1024), hs_Count := int (min m 1024)\<rparr>"

definition in_file :: "bytes \<Rightarrow> SampleData list \<Rightarrow> SummyData list \<Rightarrow> SummyData list \<Rightarrow> bool" where
  "in_file d ss hh dd \<longleftrightarrow>
     ring 1024 SampSize 1024 (map put_sample ss) d \<and> ring 21504 SummySize 1024 (map put_summy hh) d
   \<and> ring 54272 SummySize 1024 (map put_summy dd) d \<and> list_all sample_ok ss \<and> list_all summy_ok hh \<and> list_all summy_ok dd"

definition period_ok :: "HeaderSect \<Rightarrow> bool" where
  "period_ok hs \<longleftrightarrow> stats_ok hs \<and> hs_NMax hs = 1024"

definition holds :: "graphData \<Rightarrow> SampleData list \<Rightarrow> SummyData list \<times> HeaderSect \<Rightarrow> SummyData list \<times> HeaderSect \<Rightarrow> bool" where
  "holds g ss H D \<longleftrightarrow>
     g_sampStart g = 1024 \<and> g_hourStart g = 21504 \<and> g_dayStart g = 54272
   \<and> h_Magic (g_h g) = MAGIC \<and> is_u32 (h_Lastt (g_h g)) \<and> length (h_Pad (g_h g)) = 120
   \<and> h_Samp (g_h g) = placed (length ss) (zero_sect 1024)
   \<and> h_Hour (g_h g) = placed (length (fst H)) (snd H) \<and> h_Day (g_h g) = placed (length (fst D)) (snd D)
   \<and> period_ok (snd H) \<and> period_ok (snd D) \<and> in_file (of_data (g_f g)) ss (fst H) (fst D)"

lemma placed_simps [simp]:
  "hs_NSamp (placed m h) = hs_NSamp h" "hs_Idx (placed m h) = int (m mod 1024)" "hs_Count (placed m h) = int (min m 1024)"
  "hs_NMax (placed m h) = hs_NMax h" "hs_summarize t (placed m h) = hs_summarize t h"
  "hs_add st v y d (placed m h) = placed m (hs_add st v y d h)" "hs_reset v (placed m h) = placed m (hs_reset v h)"
  "stats_ok (placed m h) = stats_ok h"
  by (simp_all add: placed_def hs_summarize_def hs_add_def hs_reset_def stats_ok_def)

lemma period_ok_steps [simp]:
  "period_ok h \<Longrightarrow> is_f32 v \<Longrightarrow> period_ok (hs_add st v y d h)" "period_ok h \<Longrightarrow> is_f32 v \<Longrightarrow> period_ok (hs_reset v h)"
  "period_ok (zero_sect 1024)"
  by (simp_all add: period_ok_def) (simp_all add: hs_add_def hs_reset_def zero_sect_def)

lemma hs_advance_placed:
  assumes "hs_NMax h = 1024"
  shows "hs_advance (placed m h) = Some (placed (Suc m) h)"
proof -
  have "int (m mod 1024) < 1024" by simp
  then have w: "wrap32 (int (m mod 1024) + 1) = int (Suc (m mod 1024))" "wrap32 (int (min m 1024) + 1) = int (Suc (min m 1024))"
    by (auto simp: wrap32_def)
  have "int (Suc (m mod 1024)) smod 1024 = int (Suc m mod 1024)"
    by (simp add: smod_nonneg zmod_int mod_simps)
  then show ?thesis using assms unfolding hs_advance_def placed_simps w Let_def by (auto simp: placed_def min_def)
qed

text \<open>\<open>Idx\<close> is the slot of the next record, and writing it there appends to the history.\<close>

lemma sizes: "SampSize = 20" "SummySize = 32" "HdrSize = 1024"
  by (simp_all add: SampSize_def SummySize_def HdrSize_def)

definition wrote :: "nat \<Rightarrow> nat \<Rightarrow> nat \<Rightarrow> bytes \<Rightarrow> bytes \<Rightarrow> bytes" where
  "wrote start sz m bs d = splice (start + sz * (m mod 1024)) bs d"

lemma g_write_slot:
  "of_data (g_f (g_write bs (g_seek (int start + int sz * int (m mod 1024)) g))) = wrote start sz m bs (of_data (g_f g))"
proof -
  have "int start + int sz * int (m mod 1024) = int (start + sz * (m mod 1024))" by simp
  then show ?thesis
    by (simp add: g_write_def g_seek_def f_write_def f_seek_def wrote_def del: of_nat_add of_nat_mult)
qed

lemma g_write_keeps [simp]:
  "g_h (g_write bs g) = g_h g" "g_sampStart (g_write bs g) = g_sampStart g" "g_hourStart (g_write bs g) = g_hourStart g"
  "g_dayStart (g_write bs g) = g_dayStart g" "g_h (g_seek p g) = g_h g" "g_sampStart (g_seek p g) = g_sampStart g"
  "g_hourStart (g_seek p g) = g_hourStart g" "g_dayStart (g_seek p g) = g_dayStart g"
  by (simp_all add: g_write_def g_seek_def)

lemma in_file_sample:
  "in_file d ss hh dd \<Longrightarrow> sample_ok s \<Longrightarrow> in_file (wrote 1024 SampSize (length ss) (put_sample s) d) (ss @ [s]) hh dd"
proof -
  assume i: "in_file d ss hh dd" and s: "sample_ok s"
  have e: "1024 + SampSize * (length ss mod 1024) + length (put_sample s) \<le> 21504"
    using slot_end [of 1024 20 "length ss"] by (simp add: sizes)
  show ?thesis using i s e ring_push [of 1024 SampSize 1024 "map put_sample ss" d "put_sample s"]
    by (simp add: in_file_def wrote_def ring_frame)
qed

lemma in_file_hour:
  "in_file d ss hh dd \<Longrightarrow> summy_ok s \<Longrightarrow> in_file (wrote 21504 SummySize (length hh) (put_summy s) d) ss (hh @ [s]) dd"
proof -
  assume i: "in_file d ss hh dd" and s: "summy_ok s"
  have e: "21504 + SummySize * (length hh mod 1024) + length (put_summy s) \<le> 54272" "1024 + SampSize * 1024 \<le> 21504"
    using slot_end [of 1024 32 "length hh"] by (simp_all add: sizes)
  show ?thesis using i s e ring_push [of 21504 SummySize 1024 "map put_summy hh" d "put_summy s"]
    by (simp add: in_file_def wrote_def ring_frame)
qed

lemma in_file_day:
  "in_file d ss hh dd \<Longrightarrow> summy_ok s \<Longrightarrow> in_file (wrote 54272 SummySize (length dd) (put_summy s) d) ss hh (dd @ [s])"
proof -
  assume i: "in_file d ss hh dd" and s: "summy_ok s"
  have e: "21504 + SummySize * 1024 \<le> 54272" "1024 + SampSize * 1024 \<le> 54272"
    by (simp_all add: sizes)
  show ?thesis using i s e ring_push [of 54272 SummySize 1024 "map put_summy dd" d "put_summy s"]
    by (simp add: in_file_def wrote_def ring_frame)
qed

lemma in_file_header:
  "in_file d ss hh dd \<Longrightarrow> length bs \<le> 1024 \<Longrightarrow> in_file (splice 0 bs d) ss hh dd"
  by (simp add: in_file_def ring_frame)

text \<open>One period of the calendar rolls as the history says.\<close>

definition rolled :: "bool \<Rightarrow> int \<Rightarrow> gofloat \<Rightarrow> SummyData list \<times> HeaderSect \<Rightarrow> SummyData list \<times> HeaderSect" where
  "rolled new lastt v H =
     (if new \<and> hs_NSamp (snd H) \<noteq> 0 then (fst H @ [hs_summarize lastt (snd H)], hs_reset v (snd H)) else H)"

lemma g_roll_placed:
  assumes "period_ok hs"
  shows "g_roll (placed m hs) (int start) v g =
     (if hs_NSamp hs = 0 then Some (placed m hs, g)
      else Some (placed (Suc m) (hs_reset v hs),
                 g_write (put_summy (hs_summarize (h_Lastt (g_h g)) hs)) (g_seek (int start + int SummySize * int (m mod 1024)) g)))"
  using assms by (simp add: g_roll_def hs_advance_placed period_ok_def Let_def)

lemma rollDay_holds:
  assumes "holds g ss H D" "is_f32 v"
  shows "\<exists>g'. rollDay v g = Some g' \<and> holds g' ss H (rolled True (h_Lastt (g_h g)) v D) \<and> h_Lastt (g_h g') = h_Lastt (g_h g)"
proof (cases "hs_NSamp (snd D) = 0")
  case True
  then show ?thesis using assms g_roll_placed [where hs = "snd D" and start = 54272 and g = g]
    by (simp add: rollDay_def rolled_def holds_def)
next
  case False
  have i: "in_file (wrote 54272 SummySize (length (fst D)) (put_summy (hs_summarize (h_Lastt (g_h g)) (snd D))) (of_data (g_f g)))
      ss (fst H) (fst D @ [hs_summarize (h_Lastt (g_h g)) (snd D)])"
    using assms by (intro in_file_day) (simp_all add: holds_def period_ok_def)
  show ?thesis using assms False i g_roll_placed [where hs = "snd D" and start = 54272 and g = g and m = "length (fst D)"]
      g_write_slot [where start = 54272 and sz = SummySize and m = "length (fst D)" and g = g]
    by (simp add: rollDay_def rolled_def holds_def)
qed

lemma rollHour_holds:
  assumes "holds g ss H D" "is_f32 v"
  shows "\<exists>g'. rollHour v g = Some g' \<and> holds g' ss (rolled True (h_Lastt (g_h g)) v H) D \<and> h_Lastt (g_h g') = h_Lastt (g_h g)"
proof (cases "hs_NSamp (snd H) = 0")
  case True
  then show ?thesis using assms g_roll_placed [where hs = "snd H" and start = 21504 and g = g]
    by (simp add: rollHour_def rolled_def holds_def)
next
  case False
  have i: "in_file (wrote 21504 SummySize (length (fst H)) (put_summy (hs_summarize (h_Lastt (g_h g)) (snd H))) (of_data (g_f g)))
      ss (fst H @ [hs_summarize (h_Lastt (g_h g)) (snd H)]) (fst D)"
    using assms by (intro in_file_hour) (simp_all add: holds_def period_ok_def)
  show ?thesis using assms False i g_roll_placed [where hs = "snd H" and start = 21504 and g = g and m = "length (fst H)"]
      g_write_slot [where start = 21504 and sz = SummySize and m = "length (fst H)" and g = g]
    by (simp add: rollHour_def rolled_def holds_def)
qed

text \<open>A sample added to the file is a sample added to the history.\<close>

definition stepped :: "(int \<Rightarrow> int) \<Rightarrow> int \<Rightarrow> gsample \<Rightarrow> SummyData list \<times> HeaderSect \<Rightarrow> SummyData list \<times> HeaderSect" where
  "stepped per lastt x H =
     (let H = rolled (per (toSeconds lastt) \<noteq> per (gs_when x)) lastt (f_conv round32 (gs_val x)) H
      in (fst H, add_sample x (snd H)))"

lemma g_add_holds:
  assumes "holds g ss H D"
  shows "\<exists>g'. g_add cal (gs_when x) (known_status (gs_status x)) (gs_val x) (gs_yn x) (gs_dn x) g = Some g'
     \<and> holds g' (ss @ [stored_sample x]) (stepped (cal_hour cal) (h_Lastt (g_h g)) x H) (stepped (cal_day cal) (h_Lastt (g_h g)) x D)
     \<and> h_Lastt (g_h g') = fromSeconds (gs_when x)"
proof -
  let ?v = "f_conv round32 (gs_val x)" and ?t = "h_Lastt (g_h g)"
  define g1 where "g1 = (let g = g_write (put_sample (stored_sample x)) (g_seek (g_sampStart g + int SampSize * hs_Idx (h_Samp (g_h g))) g)
     in g\<lparr>g_h := (g_h g)\<lparr>h_Samp := placed (Suc (length ss)) (zero_sect 1024)\<rparr>\<rparr>)"
  have a: "hs_advance (h_Samp (g_h g)) = Some (placed (Suc (length ss)) (zero_sect 1024))"
    using assms hs_advance_placed [of "zero_sect 1024" "length ss"] by (simp add: holds_def zero_sect_def)
  have "in_file (wrote 1024 SampSize (length ss) (put_sample (stored_sample x)) (of_data (g_f g))) (ss @ [stored_sample x]) (fst H) (fst D)"
    using assms by (intro in_file_sample) (simp_all add: holds_def stored_sample_def)
  then have h1: "holds g1 (ss @ [stored_sample x]) H D" "h_Lastt (g_h g1) = ?t"
    using assms g_write_slot [where start = 1024 and sz = SampSize and m = "length ss" and g = g]
    by (simp_all add: g1_def holds_def Let_def)
  obtain g2 where g2: "(if cal_day cal (toSeconds ?t) \<noteq> cal_day cal (gs_when x) then rollDay ?v g1 else Some g1) = Some g2"
      "holds g2 (ss @ [stored_sample x]) H (rolled (cal_day cal (toSeconds ?t) \<noteq> cal_day cal (gs_when x)) ?t ?v D)" "h_Lastt (g_h g2) = ?t"
    using rollDay_holds [OF h1(1), of ?v] h1 by (cases "cal_day cal (toSeconds ?t) = cal_day cal (gs_when x)") (auto simp: rolled_def)
  obtain g3 where g3: "(if cal_hour cal (toSeconds ?t) \<noteq> cal_hour cal (gs_when x) then rollHour ?v g2 else Some g2) = Some g3"
      "holds g3 (ss @ [stored_sample x]) (rolled (cal_hour cal (toSeconds ?t) \<noteq> cal_hour cal (gs_when x)) ?t ?v H)
         (rolled (cal_day cal (toSeconds ?t) \<noteq> cal_day cal (gs_when x)) ?t ?v D)" "h_Lastt (g_h g3) = ?t"
    using rollHour_holds [OF g2(2), of ?v] g2 by (cases "cal_hour cal (toSeconds ?t) = cal_hour cal (gs_when x)") (auto simp: rolled_def)
  have "g_add cal (gs_when x) (known_status (gs_status x)) (gs_val x) (gs_yn x) (gs_dn x) g =
     Some (g3\<lparr>g_h := (g_h g3)\<lparr>h_Hour := add_sample x (h_Hour (g_h g3)), h_Day := add_sample x (h_Day (g_h g3)),
        h_Lastt := fromSeconds (gs_when x)\<rparr>\<rparr>)"
    using a g2(1) g3(1) h1(2) by (simp add: g_add_def g1_def stored_sample_def add_sample_def Let_def cong: if_cong)
  then show ?thesis using g3(2) by (simp add: holds_def stepped_def add_sample_def Let_def)
qed

section \<open>Saving, opening and a sequence of additions\<close>

definition stored :: "gd_world \<Rightarrow> string \<Rightarrow> SampleData list \<Rightarrow> int \<Rightarrow> SummyData list \<times> HeaderSect \<Rightarrow> SummyData list \<times> HeaderSect \<Rightarrow> bool" where
  "stored w path ss lastt H D \<longleftrightarrow>
     (\<exists>g. gd_files w path = Some (of_data (g_f (g_save g))) \<and> holds g ss H D \<and> h_Lastt (g_h g) = lastt)"

lemma sect_ok_placed: "period_ok h \<Longrightarrow> sect_ok (placed m h)"
proof -
  assume "period_ok h"
  moreover have "int (m mod 1024) < 2147483648" using mod_less_divisor [of 1024 m] by linarith
  ultimately show ?thesis by (simp add: sect_ok_def period_ok_def is_i32_def)
qed

lemma holds_header_ok: "holds g ss H D \<Longrightarrow> header_ok (g_h g)"
  by (simp add: holds_def header_ok_def sect_ok_placed MAGIC_def)

lemma open_stored:
  assumes "stored w path ss lastt H D" "gd_openable w path"
  shows "\<exists>g. g_open w path = Some g \<and> holds g ss H D \<and> h_Lastt (g_h g) = lastt"
proof -
  from assms obtain g0 where g0: "gd_files w path = Some (of_data (g_f (g_save g0)))" "holds g0 ss H D" "h_Lastt (g_h g0) = lastt"
    by (auto simp: stored_def)
  let ?h = "g_h g0"
  have ok: "header_ok ?h" "length (put_header ?h) = 512" using g0(2) by (simp_all add: holds_header_ok length_put_header)
  define d where "d = splice 0 (put_header ?h) (of_data (g_f g0))"
  have d: "gd_files w path = Some d" using g0(1) by (simp add: d_def g_save_def g_write_def g_seek_def f_write_def f_seek_def)
  have s: "slice 0 512 d = put_header ?h" using ok(2) by (simp add: d_def slice_splice_at)
  then have r: "f_read 512 (f_seek 0 \<lparr>of_data = d, of_pos = 0\<rparr>) = (Some (put_header ?h), \<lparr>of_data = d, of_pos = 512\<rparr>)"
    using ok(2) by (auto simp: f_read_def f_seek_def Let_def)
  have i: "in_file d ss (fst H) (fst D)"
    using g0(2) ok(2) in_file_header [of "of_data (g_f g0)" ss "fst H" "fst D" "put_header ?h"] by (simp add: d_def holds_def)
  have "g_open w path = Some (initHeader ((graph_on d)\<lparr>g_f := \<lparr>of_data = d, of_pos = 512\<rparr>, g_h := ?h\<rparr>))"
    using d assms(2) r ok get_put_header [OF ok(1)] g0(2) by (simp add: g_open_def readHeader_def graph_on_def Let_def holds_def)
  moreover have "holds (initHeader ((graph_on d)\<lparr>g_f := \<lparr>of_data = d, of_pos = 512\<rparr>, g_h := ?h\<rparr>)) ss H D"
    using g0(2) i by (simp add: holds_def initHeader_def sizes period_ok_def zero_sect_def)
  ultimately show ?thesis using g0(3) by (simp add: initHeader_def Let_def)
qed

lemma created_holds:
  "holds (newHeader (graph_on [])) [] ([], zero_sect 1024) ([], zero_sect 1024)" "h_Lastt (g_h (newHeader (graph_on []))) = 0"
proof -
  have "placed 0 (zero_sect 1024) = zero_sect 1024" by (simp add: placed_def zero_sect_def)
  then show "holds (newHeader (graph_on [])) [] ([], zero_sect 1024) ([], zero_sect 1024)"
    by (simp add: holds_def newHeader_def initHeader_def in_file_def sizes is_u32_def) (simp add: zero_sect_def)
qed (simp add: newHeader_def initHeader_def Let_def)

definition same_disk :: "gd_world \<Rightarrow> gd_world \<Rightarrow> bool" where
  "same_disk w w' \<longleftrightarrow> gd_datadir w' = gd_datadir w \<and> gd_openable w' = gd_openable w \<and> gd_creatable w' = gd_creatable w"

definition run :: "(int \<Rightarrow> int) \<Rightarrow> gsample list \<Rightarrow> int \<times> SummyData list \<times> HeaderSect \<Rightarrow> int \<times> SummyData list \<times> HeaderSect" where
  "run per = fold (\<lambda>x (lt, H). (fromSeconds (gs_when x), stepped per lt x H))"

lemma run_simps [simp]:
  "run per [] s = s" "run per (xs @ [x]) s = (fromSeconds (gs_when x), stepped per (fst (run per xs s)) x (snd (run per xs s)))"
  by (simp_all add: run_def split_beta)

lemma run_summaries: "fst (snd (run per xs (lt, H))) = fst H @ summaries per lt (snd H) xs"
  by (induction xs arbitrary: lt H) (simp_all add: run_def stepped_def rolled_def Let_def)

lemma run_time: "fst (run per xs s) = (if xs = [] then fst s else fromSeconds (gs_when (last xs)))"
  by (cases xs rule: rev_cases) simp_all

definition gstart :: "int \<times> SummyData list \<times> HeaderSect" where "gstart = (0, [], zero_sect 1024)"

lemma Add_stored:
  assumes "gd_datadir w \<noteq> []" and path: "path = gd_filename w name"
    and o: "(case g_open w path of Some g \<Rightarrow> Some g | None \<Rightarrow> g_create w path) = Some g" "holds g ss H D"
  shows "\<exists>w'. gd_Add cal name (gs_when x) (gs_status x) (gs_val x) (gs_yn x) (gs_dn x) w = Some w' \<and> same_disk w w'
     \<and> stored w' path (ss @ [stored_sample x]) (fromSeconds (gs_when x))
         (stepped (cal_hour cal) (h_Lastt (g_h g)) x H) (stepped (cal_day cal) (h_Lastt (g_h g)) x D)"
proof -
  obtain g' where "g_add cal (gs_when x) (known_status (gs_status x)) (gs_val x) (gs_yn x) (gs_dn x) g = Some g'"
      "holds g' (ss @ [stored_sample x]) (stepped (cal_hour cal) (h_Lastt (g_h g)) x H) (stepped (cal_day cal) (h_Lastt (g_h g)) x D)"
      "h_Lastt (g_h g') = fromSeconds (gs_when x)"
    using g_add_holds [OF o(2)] by blast
  then show ?thesis using assms(1) o(1)
    by (auto simp: gd_Add_def stored_def same_disk_def Let_def path [symmetric] known_status_def [symmetric] cong: option.case_cong)
qed

lemma add_all_stored:
  assumes "gd_datadir w \<noteq> []" and path: "path = gd_filename w name"
    and new: "gd_files w path = None" and perm: "gd_openable w path" "gd_creatable w path"
  shows "xs \<noteq> [] \<Longrightarrow> \<exists>w'. add_all cal name xs w = Some w' \<and> same_disk w w'
     \<and> stored w' path (map stored_sample xs) (fromSeconds (gs_when (last xs)))
         (snd (run (cal_hour cal) xs gstart)) (snd (run (cal_day cal) xs gstart))"
proof (induction xs rule: rev_induct)
  case (snoc x xs)
  have step: "add_all cal name (xs @ [x]) w = Option.bind (add_all cal name xs w) (gd_Add cal name (gs_when x) (gs_status x) (gs_val x) (gs_yn x) (gs_dn x))"
    by (simp add: add_all_def)
  show ?case
  proof (cases "xs = []")
    case True
    have "(case g_open w path of Some g \<Rightarrow> Some g | None \<Rightarrow> g_create w path) = Some (newHeader (graph_on []))"
      using new perm by (simp add: g_open_def g_create_def)
    from Add_stored [OF assms(1) path this created_holds(1), of cal x] show ?thesis
      using step True by (simp add: created_holds(2) gstart_def add_all_def run_def)
  next
    case False
    then obtain w1 where w1: "add_all cal name xs w = Some w1" "same_disk w w1"
        "stored w1 path (map stored_sample xs) (fromSeconds (gs_when (last xs))) (snd (run (cal_hour cal) xs gstart)) (snd (run (cal_day cal) xs gstart))"
      using snoc.IH by blast
    obtain g where g: "g_open w1 path = Some g" "holds g (map stored_sample xs) (snd (run (cal_hour cal) xs gstart)) (snd (run (cal_day cal) xs gstart))"
        "h_Lastt (g_h g) = fromSeconds (gs_when (last xs))"
      using open_stored [OF w1(3)] perm w1(2) by (auto simp: same_disk_def)
    have p1: "gd_datadir w1 \<noteq> []" "path = gd_filename w1 name" using assms(1) path w1(2) by (simp_all add: same_disk_def gd_filename_def)
    have o: "(case g_open w1 path of Some g \<Rightarrow> Some g | None \<Rightarrow> g_create w1 path) = Some g" using g(1) by simp
    from Add_stored [OF p1 o g(2), of cal x] show ?thesis
      using step w1(1,2) False g(3) by (auto simp: run_time same_disk_def)
  qed
qed simp

section \<open>What Get returns\<close>

lemma sub_samp_all:
  assumes "0 < c" "c < 2 ^ 53" shows "sub_samp c 0 = 1"
proof -
  have "round64 False 1 = Num False 1" using round64_int [of 1 False] by simp
  then show ?thesis using assms by (simp add: sub_samp_def num_val_def Let_def)
qed

lemma read_loop_sub:
  assumes "int k < 2 ^ 53"
  shows "read_loop rd tm ex since (sub_samp (int k) 0) i k rr = read_loop rd tm ex since 1 i k rr"
proof (cases "0 < int k")
  case True
  then show ?thesis using assms by (simp only: sub_samp_all)
qed simp

lemma wrap64_small: "0 \<le> x \<Longrightarrow> x < 65536 \<Longrightarrow> wrap64 x = x"
  by (simp add: wrap64_def)

lemma getSamples_holds:
  assumes "holds g ss H D"
  shows "getSamples now 0 0 g = Some (map export_sample (latest 1024 ss))"
proof -
  let ?s = "if length ss < 1024 then 0 else length ss mod 1024"
  have m: "length ss mod 1024 < 1024" by simp
  have start: "sample_start now (h_Samp (g_h g)) 0 = Some (int ?s, int (min (length ss) 1024))"
    using assms by (simp add: sample_start_def holds_def zero_sect_def)
  have w: "wrap64 (int ?s * int SampSize) = int (SampSize * ?s)" "wrap32 (1024 * int SampSize) = int (SampSize * 1024)"
    using m by (simp_all add: wrap64_small sizes wrap32_def)
  have n: "hs_NMax (h_Samp (g_h g)) = 1024" "hs_Count (h_Samp (g_h g)) = int (min (length ss) 1024)" "g_sampStart g = int 1024"
      "ring 1024 SampSize 1024 (map put_sample ss) (of_data (g_f g))" "list_all sample_ok ss"
    using assms by (simp_all add: holds_def in_file_def zero_sect_def)
  have c: "int (min (length ss) 1024) < 2 ^ 53" by simp
  show ?thesis
    unfolding getSamples_def Let_def start Option.bind.bind_lunit prod.case n(1,2,3) w read_loop_sub [OF c] nat_int
    using sample_format.ring_read [OF n(4) _ n(5) refl refl, of sd_When export_sample] by (simp only: latest_def)
qed

lemma getSummy_holds:
  assumes h: "hs = placed (length rs) hs0" "hs_NMax hs0 = 1024" and st: "st = int k"
    and r: "ring k SummySize 1024 (map put_summy rs) (of_data (g_f g))" "list_all summy_ok rs"
  shows "getSummy now hs st 0 0 spu g = Some (map export_summy (latest 1024 rs))"
proof -
  let ?s = "if length rs < 1024 then 0 else length rs mod 1024"
  have m: "length rs mod 1024 < 1024" by simp
  have start: "summy_start now hs (hs_NMax (h_Samp (g_h g))) 0 spu = Some (int ?s, int (min (length rs) 1024))"
    using h by (simp add: summy_start_def)
  have w: "wrap64 (int ?s * int SummySize) = int (SummySize * ?s)" "wrap32 (1024 * int SummySize) = int (SummySize * 1024)"
    using m by (simp_all add: wrap64_small sizes wrap32_def)
  have n: "hs_NMax hs = 1024" "hs_Count hs = int (min (length rs) 1024)" using h by simp_all
  have c: "int (min (length rs) 1024) < 2 ^ 53" by simp
  show ?thesis
    unfolding getSummy_def Let_def start Option.bind.bind_lunit prod.case n st w read_loop_sub [OF c] nat_int
    using summy_format.ring_read [OF r(1) _ r(2) refl refl, of sy_When export_summy] by (simp only: latest_def)
qed

text \<open>What a sample becomes on its way through the file.\<close>

definition stored_time :: "gsample \<Rightarrow> int" where
  "stored_time x = 4 * (gs_when x div 4 mod 2 ^ 32)"

definition shown_sample :: "gsample \<Rightarrow> Export" where
  "shown_sample x = \<lparr>ex_Time = stored_time x, ex_Status = wrap32 (if gs_status x \<in> {DEPENDS, UNKNOWN} then CLEAR else gs_status x),
     ex_Value = f_conv round32 (gs_val x), ex_Min = fzero, ex_Max = fzero, ex_Stdev = fzero,
     ex_Exp = f_conv round32 (gs_yn x), ex_Delt = f_conv round32 (gs_dn x)\<rparr>"

lemma export_stored: "export_sample \<circ> stored_sample = shown_sample"
  by (auto simp: fun_eq_iff export_sample_def stored_sample_def sample_of_def shown_sample_def stored_time_def toSeconds_def fromSeconds_def
      known_status_def)

lemma latest_map: "map f (latest n xs) = latest n (map f xs)"
  by (simp add: latest_def drop_map)

text \<open>C8: The samples of a graph are a history. After any sequence of samples added to a graph that
  did not exist, reading the whole graph through the header, the ring and the circular reader
  returns the latest 1024 of the samples that were added (all of them when there are fewer),
  oldest first: the time cut to units of four seconds, the values rounded to \<open>float32\<close>, the
  statuses \<open>unknown\<close> and \<open>depends\<close> as \<open>clear\<close> (\<open>shown_sample\<close>).\<close>

theorem graph_samples_kept:
  assumes "gd_datadir w \<noteq> []" "gd_files w (gd_filename w name) = None"
    and "gd_openable w (gd_filename w name)" "gd_creatable w (gd_filename w name)"
  shows "Option.bind (add_all cal name xs w) (gd_Get now name ''samples'' 0 0)
         = Some (map shown_sample (latest 1024 xs))"
proof (cases "xs = []")
  case True
  then show ?thesis using assms by (simp add: add_all_def gd_Get_def g_open_def latest_def)
next
  case False
  from add_all_stored [OF assms(1) refl assms(2-4) this, of cal] obtain w' where
    w': "add_all cal name xs w = Some w'" "same_disk w w'"
      "stored w' (gd_filename w name) (map stored_sample xs) (fromSeconds (gs_when (last xs)))
         (snd (run (cal_hour cal) xs gstart)) (snd (run (cal_day cal) xs gstart))" by blast
  then have n: "gd_filename w' name = gd_filename w name" "gd_datadir w' \<noteq> []" "gd_openable w' (gd_filename w name)"
    using assms by (simp_all add: same_disk_def gd_filename_def)
  from open_stored [OF w'(3) n(3)] obtain g where "g_open w' (gd_filename w name) = Some g"
      "holds g (map stored_sample xs) (snd (run (cal_hour cal) xs gstart)) (snd (run (cal_day cal) xs gstart))" by blast
  then show ?thesis using n w'(1) by (simp add: gd_Get_def getSamples_holds latest_def drop_map flip: export_stored)
qed

definition wit_world :: gd_world where
  "wit_world = \<lparr>gd_files = (\<lambda>_. None), gd_openable = (\<lambda>_. True), gd_creatable = (\<lambda>_. True), gd_datadir = ''/var''\<rparr>"

definition wit_cal :: calendar where
  "wit_cal = \<lparr>cal_day = (\<lambda>t. t div 86400), cal_hour = (\<lambda>t. t div 3600 mod 24)\<rparr>"

definition wit_sample :: "int \<Rightarrow> gsample" where
  "wit_sample t = \<lparr>gs_when = t, gs_status = 0, gs_val = Num False 1, gs_yn = fzero, gs_dn = fzero\<rparr>"

lemma wit_world_ok:
  "gd_datadir wit_world \<noteq> []" "gd_files wit_world (gd_filename wit_world n) = None"
  "gd_openable wit_world (gd_filename wit_world n)" "gd_creatable wit_world (gd_filename wit_world n)"
  by (simp_all add: wit_world_def)

theorem graph_samples_kept_witness:
  "Option.bind (add_all wit_cal ''g'' (map wit_sample [1000, 1060]) wit_world) (gd_Get 2000 ''g'' ''samples'' 0 0)
   = Some (map (shown_sample \<circ> wit_sample) [1000, 1060])"
  by (subst graph_samples_kept [OF wit_world_ok]) (simp add: latest_def)

section \<open>What a summary is made of\<close>

text \<open>A reference for the summaries that looks at the samples only. Two consecutive samples lie in the
  same run when the calendar shows the same hour (or day) for both; the first of them counts with
  its stored time, in units of four seconds.\<close>

fun runs_from :: "(int \<Rightarrow> int) \<Rightarrow> gsample list \<Rightarrow> gsample list \<Rightarrow> gsample list list" where
  "runs_from per r [] = [r]"
| "runs_from per r (x # xs) =
     (if per (stored_time (last r)) = per (gs_when x) then runs_from per (r @ [x]) xs else r # runs_from per [x] xs)"

fun runs :: "(int \<Rightarrow> int) \<Rightarrow> gsample list \<Rightarrow> gsample list list" where
  "runs per [] = []"
| "runs per (x # xs) = runs_from per [x] xs"

lemma runs_from_all: "concat (runs_from per r xs) = r @ xs"
  by (induction xs arbitrary: r) simp_all

lemma runs_all: "concat (runs per xs) = xs"
  by (cases xs) (simp_all add: runs_from_all)

lemma runs_from_nonempty [simp]: "runs_from per r xs \<noteq> []"
  by (induction xs arbitrary: r) simp_all

text \<open>The statistics of a list of values, in the arithmetic of \<open>float32\<close>.\<close>

definition total :: "gofloat list \<Rightarrow> gofloat" where
  "total vs = foldl (fadd round32) fzero vs"

definition mean :: "gofloat list \<Rightarrow> gofloat" where
  "mean vs = fdiv round32 (total vs) (f_of_int round32 (int (length vs)))"

definition least :: "gofloat list \<Rightarrow> gofloat" where
  "least vs = foldl (\<lambda>m v. if flt v m then v else m) (hd vs) (tl vs)"

definition greatest :: "gofloat list \<Rightarrow> gofloat" where
  "greatest vs = foldl (\<lambda>m v. if flt m v then v else m) (hd vs) (tl vs)"

definition deviation :: "gofloat list \<Rightarrow> gofloat" where
  "deviation vs =
     (let d = fsub round32 (mean (map (\<lambda>v. fmul round32 v v) vs)) (fmul round32 (mean vs) (mean vs))
      in if flt fzero d then f_conv round32 (f_sqrt d) else fzero)"

definition vals :: "(gsample \<Rightarrow> gofloat) \<Rightarrow> gsample list \<Rightarrow> gofloat list" where
  "vals f r = map (\<lambda>x. f_conv round32 (f x)) r"

definition worst :: "gsample list \<Rightarrow> status" where
  "worst r = Max (insert 0 (set (map (\<lambda>x. wrap32 (known_status (gs_status x))) r)))"

text \<open>The summary of a run; \<open>zs\<close> are values that only count for the least and the greatest.\<close>

definition run_summary :: "gofloat list \<Rightarrow> gsample list \<Rightarrow> Export" where
  "run_summary zs r = \<lparr>ex_Time = stored_time (last r), ex_Status = worst r, ex_Value = mean (vals gs_val r),
     ex_Min = least (zs @ vals gs_val r), ex_Max = greatest (zs @ vals gs_val r), ex_Stdev = deviation (vals gs_val r),
     ex_Exp = mean (vals gs_yn r), ex_Delt = mean (vals gs_dn r)\<rparr>"

text \<open>The summaries of some runs. A new file starts with zero as its least and greatest value, so that
  the first run counts a zero that was never measured.\<close>

definition described :: "gofloat list \<Rightarrow> gsample list list \<Rightarrow> Export list" where
  "described zs rs = (case rs of [] \<Rightarrow> [] | q # qs \<Rightarrow> run_summary zs q # map (run_summary []) qs)"

lemma described_nil: "described [] rs = map (run_summary []) rs"
  by (simp add: described_def split: list.split)

text \<open>The header of a section holds the statistics of the run that is open.\<close>

definition tallies :: "gofloat list \<Rightarrow> gsample list \<Rightarrow> HeaderSect \<Rightarrow> bool" where
  "tallies zs r h \<longleftrightarrow> hs_NSamp h = int (length r) \<and> hs_Status h = worst r
     \<and> hs_Min h = least (zs @ vals gs_val r) \<and> hs_Max h = greatest (zs @ vals gs_val r)
     \<and> hs_Sigm h = total (vals gs_val r) \<and> hs_Sigm2 h = total (map (\<lambda>v. fmul round32 v v) (vals gs_val r))
     \<and> hs_Exp h = total (vals gs_yn r) \<and> hs_Delt h = total (vals gs_dn r)"

lemma flt_irrefl [simp]: "\<not> flt x x"
  by (cases x) simp_all

lemma stats_snoc [simp]:
  "total (vs @ [v]) = fadd round32 (total vs) v" "vals f (r @ [x]) = vals f r @ [f_conv round32 (f x)]" "length (vals f r) = length r"
  "worst (r @ [x]) = max (wrap32 (known_status (gs_status x))) (worst r)"
  by (simp_all add: total_def vals_def worst_def insert_commute [of 0])

lemma least_snoc:
  "vs \<noteq> [] \<Longrightarrow> least (vs @ [v]) = (if flt v (least vs) then v else least vs)"
  "vs \<noteq> [] \<Longrightarrow> greatest (vs @ [v]) = (if flt (greatest vs) v then v else greatest vs)"
  by (simp_all add: least_def greatest_def)

lemma vals_nil [simp]: "vals f r = [] \<longleftrightarrow> r = []"
  by (simp add: vals_def)

lemma tallies_add:
  assumes "tallies zs r h" "r \<noteq> []" "Suc (length r) < 2 ^ 31"
  shows "tallies zs (r @ [x]) (add_sample x h)"
proof -
  have w: "wrap32 (int (length r) + 1) = int (length r) + 1" using assms(3) by (simp add: wrap32_def)
  have n: "zs @ vals gs_val r \<noteq> []" using assms(2) by simp
  show ?thesis
    using assms(1) w least_snoc [OF n]
    by (simp add: tallies_def add_sample_def hs_add_def less_gofloat_def max_def)
qed

lemma tallies_first: "tallies [fzero] [x] (add_sample x (zero_sect n))"
  by (simp add: tallies_def add_sample_def hs_add_def zero_sect_def wrap32_def less_gofloat_def total_def vals_def worst_def
      least_def greatest_def max_def)

lemma tallies_reset: "tallies [] [x] (add_sample x (hs_reset (f_conv round32 (gs_val x)) h))"
  by (simp add: tallies_def add_sample_def hs_add_def hs_reset_def wrap32_def less_gofloat_def total_def vals_def worst_def
      least_def greatest_def max_def)

lemma tallies_summary:
  assumes "tallies zs r h"
  shows "export_summy (hs_summarize (fromSeconds (gs_when (last r))) h) = run_summary zs r"
  using assms
  by (simp add: tallies_def export_summy_def hs_summarize_def run_summary_def stored_time_def toSeconds_def fromSeconds_def
      mean_def deviation_def less_gofloat_def Let_def)

lemma summaries_runs:
  assumes "tallies zs r h" "r \<noteq> []" "length r + length xs < 2 ^ 31"
  shows "map export_summy (summaries per (fromSeconds (gs_when (last r))) h xs) = described zs (butlast (runs_from per r xs))"
  using assms
proof (induction xs arbitrary: zs r h)
  case Nil
  then show ?case by (simp add: described_def)
next
  case (Cons x xs)
  have t: "toSeconds (fromSeconds (gs_when (last r))) = stored_time (last r)"
    by (simp add: toSeconds_def fromSeconds_def stored_time_def)
  have n: "hs_NSamp h \<noteq> 0" using Cons.prems by (simp add: tallies_def)
  show ?case
  proof (cases "per (stored_time (last r)) = per (gs_when x)")
    case True
    have "tallies zs (r @ [x]) (add_sample x h)" using Cons.prems by (intro tallies_add) simp_all
    from Cons.IH [OF this] show ?thesis using True Cons.prems t by simp
  next
    case False
    have "length [x] + length xs < 2 ^ 31" using Cons.prems by (cases r) simp_all
    from Cons.IH [OF tallies_reset _ this, of h] show ?thesis
      using False n t tallies_summary [OF Cons.prems(1)] by (simp add: described_nil) (simp add: described_def)
  qed
qed

lemma summaries_described:
  assumes "length xs < 2 ^ 31"
  shows "map export_summy (summaries per 0 (zero_sect 1024) xs) = described [fzero] (butlast (runs per xs))"
proof (cases xs)
  case Nil
  then show ?thesis by (simp add: described_def)
next
  case (Cons x ys)
  have "hs_NSamp (zero_sect 1024) = 0" by (simp add: zero_sect_def)
  then show ?thesis using summaries_runs [OF tallies_first [of x 1024], of ys per] Cons assms by simp
qed

text \<open>C20: The hourly and daily summaries of a graph are the summaries of the history. After any
  sequence of fewer than \<open>2 ^ 31\<close> samples added to a graph that did not exist, reading the summaries
  returns the latest 1024 of those of the completed runs of samples for which the calendar shows the
  same hour (day), whatever was written to the other rings of the file meanwhile. The summary of a
  run has the time of its last sample, its worst status, the mean, the least and the greatest of its
  values, their standard deviation and the means of the expected values and of the deviations, over
  exactly the samples of the run and in \<open>float32\<close>; only the first run also counts a zero among the
  values of which it gives the least and the greatest (\<open>run_summary\<close>).\<close>

theorem graph_summaries_kept:
  assumes "gd_datadir w \<noteq> []" "gd_files w (gd_filename w name) = None"
    and "gd_openable w (gd_filename w name)" "gd_creatable w (gd_filename w name)"
    and "length xs < 2 ^ 31"
    and which: "(which, per) \<in> {(''hours'', cal_hour cal), (''days'', cal_day cal)}"
  shows "Option.bind (add_all cal name xs w) (gd_Get now name which 0 0)
         = Some (latest 1024 (described [fzero] (butlast (runs per xs))))"
proof (cases "xs = []")
  case True
  then show ?thesis using assms by (simp add: add_all_def gd_Get_def g_open_def latest_def described_def)
next
  case False
  from add_all_stored [OF assms(1) refl assms(2-4) this, of cal] obtain w' where
    w': "add_all cal name xs w = Some w'" "same_disk w w'"
      "stored w' (gd_filename w name) (map stored_sample xs) (fromSeconds (gs_when (last xs)))
         (snd (run (cal_hour cal) xs gstart)) (snd (run (cal_day cal) xs gstart))" by blast
  then have n: "gd_filename w' name = gd_filename w name" "gd_datadir w' \<noteq> []" "gd_openable w' (gd_filename w name)"
    using assms by (simp_all add: same_disk_def gd_filename_def)
  from open_stored [OF w'(3) n(3)] obtain g where g: "g_open w' (gd_filename w name) = Some g"
      "holds g (map stored_sample xs) (snd (run (cal_hour cal) xs gstart)) (snd (run (cal_day cal) xs gstart))" by blast
  have s: "fst (snd (run per xs gstart)) = summaries per 0 (zero_sect 1024) xs" for per
    by (simp add: gstart_def run_summaries)
  have "getHourSummy now 0 0 g = Some (map export_summy (latest 1024 (summaries (cal_hour cal) 0 (zero_sect 1024) xs)))"
    unfolding getHourSummy_def s [symmetric]
    by (rule getSummy_holds [where k = 21504 and ?hs0.0 = "snd (snd (run (cal_hour cal) xs gstart))"])
      (use g(2) in \<open>simp_all add: holds_def period_ok_def in_file_def\<close>)
  moreover have "getDaySummy now 0 0 g = Some (map export_summy (latest 1024 (summaries (cal_day cal) 0 (zero_sect 1024) xs)))"
    unfolding getDaySummy_def s [symmetric]
    by (rule getSummy_holds [where k = 54272 and ?hs0.0 = "snd (snd (run (cal_day cal) xs gstart))"])
      (use g(2) in \<open>simp_all add: holds_def period_ok_def in_file_def\<close>)
  moreover have "map export_summy (latest 1024 (summaries per 0 (zero_sect 1024) xs)) = latest 1024 (described [fzero] (butlast (runs per xs)))"
    for per by (simp only: latest_map summaries_described [OF assms(5)])
  ultimately show ?thesis using n w'(1) g(1) which by (auto simp: gd_Get_def)
qed

theorem graph_summaries_kept_witness:
  "\<exists>e. Option.bind (add_all wit_cal ''g'' (map wit_sample [1000, 1060, 4000]) wit_world) (gd_Get 5000 ''g'' ''hours'' 0 0) = Some [e]
    \<and> ex_Time e = 1060 \<and> ex_Status e = CLEAR \<and> ex_Value e = mean (vals gs_val (map wit_sample [1000, 1060]))"
proof -
  let ?e = "run_summary [fzero] (map wit_sample [1000, 1060])"
  have r: "runs (cal_hour wit_cal) (map wit_sample [1000, 1060, 4000]) = [map wit_sample [1000, 1060], map wit_sample [4000]]"
    by (simp add: stored_time_def wit_sample_def wit_cal_def)
  have e: "ex_Time ?e = 1060" "ex_Status ?e = CLEAR" "ex_Value ?e = mean (vals gs_val (map wit_sample [1000, 1060]))"
    by (simp_all add: run_summary_def stored_time_def worst_def wit_sample_def known_status_def wrap32_def)
  have "Option.bind (add_all wit_cal ''g'' (map wit_sample [1000, 1060, 4000]) wit_world) (gd_Get 5000 ''g'' ''hours'' 0 0) = Some [?e]"
    by (subst graph_summaries_kept [OF wit_world_ok, where per = "cal_hour wit_cal"]) (simp_all only: r, simp_all add: described_def latest_def)
  then show ?thesis using e by blast
qed

text \<open>C38: The circular reader never runs out of its section. From any state in which its next byte is
  number \<open>p\<close> of the section, and as long as the bytes wanted are in the file, a read returns
  without an error exactly the \<open>n\<close> bytes from there, modulo the size of the section: the aligned
  chunks, the part left in the buffer and the wrap to the start do not show.\<close>

theorem circular_read:
  assumes "cb_at d start sz p rr" "\<forall>i < n. start + (p + i) mod sz < length d"
  shows "map_option (\<lambda>(bs, err, _). (bs, err)) (cbuf_Read n rr) = Some (map (\<lambda>i. d ! (start + (p + i) mod sz)) [0..<n], False)"
  using cbuf_Read_ok [OF assms] by auto

definition wit_reader :: CbufReader where
  "wit_reader = cbuf_Seek 3 (NewCbufReader \<lparr>of_data = [9, 9, 10, 11, 12, 13], of_pos = 0\<rparr> 2 4)"

theorem circular_read_witness:
  "map_option (\<lambda>(bs, err, _). (bs, err)) (cbuf_Read 6 wit_reader) = Some ([13, 10, 11, 12, 13, 10], False)"
proof -
  have "cb_at [9, 9, 10, 11, 12, 13] 2 4 3 wit_reader"
    by (simp add: wit_reader_def cb_at_def buffered_def cbuf_Seek_def NewCbufReader_def f_seek_def)
  moreover have "\<forall>i < 6. 2 + (3 + i) mod 4 < length [9, 9, 10, 11, 12, 13 :: int]"
  proof (intro allI impI)
    fix i :: nat have "(3 + i) mod 4 < 4" by simp
    then show "2 + (3 + i) mod 4 < length [9, 9, 10, 11, 12, 13 :: int]" by simp
  qed
  ultimately have "map_option (\<lambda>(bs, err, _). (bs, err)) (cbuf_Read 6 wit_reader)
      = Some (map (\<lambda>i. [9, 9, 10, 11, 12, 13] ! (2 + (3 + i) mod 4)) [0..<6], False)"
    by (rule circular_read)
  then show ?thesis by (simp add: upt_rec)
qed

end
