(* ===== verification/Probe.thy ===== *)
theory Probe
  imports Service
begin

text \<open>
  The monitors that talk to a server: \<open>monitor/tcp\<close>, \<open>udp\<close>, \<open>sip\<close>, \<open>url\<close>, \<open>asterisk\<close> and
  \<open>freeswitch\<close>. A run of a monitor is the list of its reports to its service, in order; the
  network it meets (the answer of the resolver, dialling, writing, the chunks that are read) is an
  argument. \<open>InitFromConfig\<close> and \<open>resolv.Config\<close> enter as their results.
\<close>

section \<open>Reports\<close>

datatype report =
    RPass | RFail string | RFailNow string | RFailReady string | RCheck string string
  | RSet status string string   \<comment> \<open>\<open>SetResult\<close>\<close>
  | RDone
  | RNeed int                   \<comment> \<open>\<open>Ip.WillNeedIn\<close>\<close>
  | RAnother                    \<comment> \<open>\<open>Ip.TryAnother\<close>\<close>
  | RLog string | RResetRate

fun is_verdict :: "report \<Rightarrow> bool" where
  "is_verdict RPass = True" | "is_verdict (RFail _) = True" | "is_verdict (RFailNow _) = True"
| "is_verdict (RFailReady _) = True" | "is_verdict (RCheck _ _) = True" | "is_verdict (RSet _ _ _) = True"
| "is_verdict _ = False"

text \<open>What a report does to the service, in the model of \<open>service\<close>.\<close>

fun svc_report :: "service_env \<Rightarrow> sptr \<Rightarrow> report \<Rightarrow> service_state \<Rightarrow> service_state option" where
  "svc_report env i RPass st = svc_Pass env i st"
| "svc_report env i (RFail r) st = svc_Fail env i r st"
| "svc_report env i (RFailNow r) st = FailNow env i r st"
| "svc_report env i (RFailReady r) st = FailReady env i r st"
| "svc_report env i (RCheck v k) st = CheckValue env i v k st"
| "svc_report env i (RSet s v r) st = SetResult env i s v r st"
| "svc_report env i RDone st = svc_Done env i st"
| "svc_report env i RResetRate st = Some (ResetRateCalc i st)"
| "svc_report env i (RNeed _) st = Some st"
| "svc_report env i RAnother st = Some st"
| "svc_report env i (RLog _) st = Some st"

fun svc_reports :: "service_env \<Rightarrow> sptr \<Rightarrow> report list \<Rightarrow> service_state \<Rightarrow> service_state option" where
  "svc_reports env i [] st = Some st"
| "svc_reports env i (r # rs) st = Option.bind (svc_report env i r st) (svc_reports env i rs)"

section \<open>The network\<close>

text \<open>\<open>ne_addr\<close> is the result of \<open>Ip.AddrWB\<close> (the address and whether resolving failed);
  \<open>ne_reads\<close> are the reads of the connection, each with its bytes and whether it came with an
  error. The connections have a deadline: the reads after the last one are errors without bytes.\<close>

record net_env =
  ne_addr :: "string \<times> bool"
  ne_dial :: "string \<Rightarrow> bool"
  ne_write :: "string \<Rightarrow> bool"
  ne_reads :: "(string \<times> bool) list"
  ne_from :: "string \<times> int"        \<comment> \<open>the sender of a datagram\<close>
  ne_network :: string
  ne_local :: string
  ne_remote :: string
  ne_rand :: int

definition crlf :: string where "crlf = [CHR 0x0D, CHR 0x0A]"

definition addrport :: "string \<Rightarrow> int \<Rightarrow> string" where
  "addrport a p = a @ '':'' @ show_int p"

text \<open>\<open>hex.DecodeString\<close> without the spaces: the bytes before the first error.\<close>

definition hex_val :: "char \<Rightarrow> nat option" where
  "hex_val c =
     (let n = of_char c :: nat in
      if 48 \<le> n \<and> n \<le> 57 then Some (n - 48)
      else if 97 \<le> n \<and> n \<le> 102 then Some (n - 87)
      else if 65 \<le> n \<and> n \<le> 70 then Some (n - 55) else None)"

fun hex_decode :: "string \<Rightarrow> string" where
  "hex_decode (a # b # s) =
     (case (hex_val a, hex_val b) of (Some x, Some y) \<Rightarrow> char_of (16 * x + y) # hex_decode s | _ \<Rightarrow> [])"
| "hex_decode _ = []"

definition hxd :: "string \<Rightarrow> string" where
  "hxd s = hex_decode (filter (\<lambda>c. c \<noteq> CHR '' '') s)"

section \<open>tcp\<close>

type_synonym packeter = "net_env \<Rightarrow> string option"

record tcp =
  t_Port :: int
  t_Send :: string
  t_ReadHow :: string
  t_SSL :: bool
  t_SSL_ServerName :: string
  t_FSend :: "packeter option"

record tcp_proto =
  tp_Port :: int
  tp_Send :: string
  tp_Expect :: string
  tp_ReadHow :: string
  tp_SSL :: bool

definition tproto :: "int \<Rightarrow> string \<Rightarrow> string \<Rightarrow> string \<Rightarrow> bool \<Rightarrow> tcp_proto" where
  "tproto p s e h ssl = \<lparr>tp_Port = p, tp_Send = s, tp_Expect = e, tp_ReadHow = h, tp_SSL = ssl\<rparr>"

definition tcpProtoTab :: "(string \<times> tcp_proto) list" where
  "tcpProtoTab = [
    (''SMTP'', tproto 25 (''MAIL'' @ crlf) ''^220'' ''banner'' False),
    (''FTP'', tproto 21 [] ''^220'' ''banner'' False),
    (''POP'', tproto 110 [] (''^'' @ CHR 0x5C # ''+OK'') ''banner'' False),
    (''NNTP'', tproto 119 [] ''^220'' ''banner'' False),
    (''Telnet'', tproto 23 [] [] [] False),
    (''Gopher'', tproto 70 crlf (CHR 0x5C # ''.'' @ crlf) [] False),
    (''HTTP'', tproto 80 [] ''HTTP'' ''toeof'' False),
    (''HTTPS'', tproto 443 [] ''HTTP'' ''toeof'' True),
    (''SSH'', tproto 22 (''SSH-1.99-argus'' @ crlf) ''^SSH'' ''banner'' False),
    (''IMAP'', tproto 143 [] (''^'' @ CHR 0x5C # ''* OK'') ''banner'' False),
    (''Whois'', tproto 43 crlf [] [] False),
    (''Rwhois'', tproto 4321 [] ''^%rwhois'' ''banner'' False),
    (''LPD'', tproto 515 (CHR 0x03 # ''lp'' @ [CHR 0x0A]) [] ''toeof'' False),
    (''POPS'', tproto 995 [] (''^'' @ CHR 0x5C # ''+OK'') ''banner'' True),
    (''IMAPS'', tproto 993 [] (''^'' @ CHR 0x5C # ''* OK'') ''banner'' True),
    (''SMTPS'', tproto 465 (''MAIL'' @ crlf) ''^220'' ''banner'' False),
    (''NNTPS'', tproto 563 [] ''^220'' ''banner'' False),
    (''Argus'', tproto 0 [] ''running'' ''banner'' False),
    (''SlimServer'', tproto 9090 (''version ?'' @ crlf) ''version'' ''banner'' False),
    (''Asterisk'', tproto 9038 [] [] ''toeof'' False),
    (''Freeswitch'', tproto 8021 [] [] ''toeof'' False),
    (''NFS'', tproto 2049 (hxd ''800000280000304E0000000000000002000186A3000000020000000000000000000000000000000000000000'') [] ''once'' False),
    (''NFSv3'', tproto 2049 (hxd ''800000280000304E0000000000000003000186A3000000020000000000000000000000000000000000000000'') [] ''once'' False)]"

definition tcp_protoName :: "string \<Rightarrow> string" where
  "tcp_protoName name = (if has_prefix name ''TCP/'' then drop 4 name else [])"

text \<open>The monitor with the defaults of the protocol, and the \<open>expect\<close> that it gives its service.\<close>

definition tcp_InitNew :: "string \<Rightarrow> tcp \<Rightarrow> tcp \<times> string option" where
  "tcp_InitNew name t =
     (case map_of tcpProtoTab (tcp_protoName name) of
        None \<Rightarrow> (t, None)
      | Some p \<Rightarrow> (t\<lparr>t_Port := tp_Port p, t_Send := tp_Send p, t_ReadHow := tp_ReadHow p, t_SSL := tp_SSL p\<rparr>, Some (tp_Expect p)))"

definition tcp_blank :: tcp where
  "tcp_blank = \<lparr>t_Port = 0, t_Send = [], t_ReadHow = [], t_SSL = False, t_SSL_ServerName = [], t_FSend = None\<rparr>"

definition tcp_New :: "string \<Rightarrow> tcp \<times> string option" where
  "tcp_New name = tcp_InitNew name tcp_blank"

definition tcp_httpSend :: "string \<Rightarrow> string" where
  "tcp_httpSend host = ''GET / HTTP/1.1'' @ crlf @ ''Host: '' @ host @ crlf @ ''Connection: Close'' @ crlf
     @ ''User-Agent: Argus'' @ crlf @ crlf"

record names =
  nm_uname :: string
  nm_label :: string
  nm_friendly :: string

definition tcp_names :: "string \<Rightarrow> int \<Rightarrow> string \<Rightarrow> names" where
  "tcp_names name port host =
     (if name \<noteq> [] then
        let uname = name @ ''_'' @ host
        in \<lparr>nm_uname = (if has_prefix name ''NFS'' then ''TCP_'' @ uname else uname), nm_label = name,
            nm_friendly = name @ '' on '' @ host\<rparr>
      else \<lparr>nm_uname = ''TCP_'' @ show_int port @ ''_'' @ host, nm_label = ''TCP'',
            nm_friendly = ''TCP/'' @ show_int port @ '' on '' @ host\<rparr>)"

text \<open>\<open>t\<close> after \<open>InitFromConfig\<close>, and the host name or the error of \<open>resolv.Config\<close>.\<close>

definition tcp_Config :: "string \<Rightarrow> (tcp \<Rightarrow> tcp) \<Rightarrow> string + string \<Rightarrow> tcp \<Rightarrow> string + tcp \<times> names" where
  "tcp_Config name initcf ipcf t =
     (let t = initcf t in
      case ipcf of
        Inl err \<Rightarrow> Inl err
      | Inr host \<Rightarrow>
          if t_Port t = 0 then Inl ''port not specified''
          else
            let t = (if name = ''TCP/HTTP'' \<or> name = ''TCP/HTTPS'' then t\<lparr>t_Send := tcp_httpSend host\<rparr> else t);
                t = (if t_SSL_ServerName t = [] then t\<lparr>t_SSL_ServerName := host\<rparr> else t)
            in Inr (t, tcp_names (tcp_protoName name) (t_Port t) host))"

text \<open>Connecting: the reports made, and whether there is a connection.\<close>

definition reach :: "net_env \<Rightarrow> int \<Rightarrow> report list + string" where
  "reach ne freq =
     (let (addr, fail) = ne_addr ne in
      if fail then Inl [RFailNow ''cannot resolve hostname'']
      else if addr = [] then Inl []
      else Inr addr)"

definition tcp_Connect :: "net_env \<Rightarrow> int \<Rightarrow> tcp \<Rightarrow> report list \<times> bool" where
  "tcp_Connect ne freq t =
     (case reach ne freq of
        Inl rs \<Rightarrow> (rs, False)
      | Inr addr \<Rightarrow>
          if ne_dial ne (addrport addr (t_Port t)) then ([RNeed freq], True)
          else ([RNeed freq, RFail ''connect failed'', RAnother], False))"

definition tcp_Send :: "net_env \<Rightarrow> string \<Rightarrow> tcp \<Rightarrow> report list \<times> bool" where
  "tcp_Send ne toSend t =
     (case (case t_FSend t of None \<Rightarrow> Some toSend | Some f \<Rightarrow> f ne) of
        None \<Rightarrow> ([RFail ''send failed''], False)
      | Some p \<Rightarrow> if p = [] \<or> ne_write ne p then ([], True) else ([RFail ''write failed''], False))"

text \<open>The reading loop; \<open>res\<close> is what has been read.\<close>

definition dns_framed :: "string \<Rightarrow> bool" where
  "dns_framed res \<longleftrightarrow> 2 < length res \<and> int (length res) \<ge> 256 * of_char (res ! 0) + of_char (res ! 1) + 2"

fun tcp_Read :: "string \<Rightarrow> string \<Rightarrow> (string \<times> bool) list \<Rightarrow> string \<times> bool" where
  "tcp_Read how res [] = (res, how \<noteq> ''toeof'' \<and> \<not> (res \<noteq> [] \<and> how = ''once''))"
| "tcp_Read how res ((d, err) # rest) =
     (let res = res @ d in
      if res \<noteq> [] \<and> how = ''once'' then (res, False)
      else if err then (res, how \<noteq> ''toeof'')
      else if how = ''banner'' \<and> CHR 0x0A \<in> set res then (res, False)
      else if how = ''toblank'' \<and> index_str (crlf @ crlf) res \<noteq> None then (res, False)
      else if how = ''dns'' \<and> dns_framed res then (drop 2 res, False)
      else tcp_Read how res rest)"

definition tcp_MakeRequest :: "net_env \<Rightarrow> int \<Rightarrow> string \<Rightarrow> tcp \<Rightarrow> report list \<times> string option" where
  "tcp_MakeRequest ne freq toSend t =
     (case tcp_Connect ne freq t of
        (rs, False) \<Rightarrow> (rs, None)
      | (rs, True) \<Rightarrow>
          (case tcp_Send ne toSend t of
             (ss, False) \<Rightarrow> (rs @ ss, None)
           | (ss, True) \<Rightarrow>
               (case tcp_Read (t_ReadHow t) [] (ne_reads ne) of
                  (_, True) \<Rightarrow> (rs @ ss @ [RFail ''read failed''], None)
                | (res, False) \<Rightarrow> (rs @ ss, Some res))))"

definition tcp_Start :: "net_env \<Rightarrow> int \<Rightarrow> tcp \<Rightarrow> report list" where
  "tcp_Start ne freq t =
     (case tcp_MakeRequest ne freq (t_Send t) t of
        (rs, None) \<Rightarrow> rs @ [RDone]
      | (rs, Some res) \<Rightarrow> rs @ [RCheck res ''text'', RDone])"

section \<open>udp\<close>

record udp =
  u_Port :: int
  u_Send :: string
  u_SendHex :: string
  u_Verify_IP :: bool
  u_Verify_Port :: bool
  u_FSend :: "packeter option"

record udp_proto =
  up_Port :: int
  up_Send :: string
  up_Unpack :: string
  up_Scale :: int

definition uproto :: "int \<Rightarrow> string \<Rightarrow> string \<Rightarrow> int \<Rightarrow> udp_proto" where
  "uproto p s u k = \<lparr>up_Port = p, up_Send = s, up_Unpack = u, up_Scale = k\<rparr>"

definition ntp_packet :: string where
  "ntp_packet = hxd ''23000000 00000000 00000000 00000000 00000000 00000000 00000000 00000000 00000000 00000000 00000000 00000000''"

definition udpProtoTab :: "(string \<times> udp_proto) list" where
  "udpProtoTab = [
    (''RADIUS'', uproto 1645 (hxd ''0C850014 00000000 00000000 00000000 00000000'') [] 0),
    (''NTP'', uproto 123 ntp_packet [] 0),
    (''NTP/Stratum'', uproto 123 ntp_packet ''xC'' 0),
    (''NTP/Dispersion'', uproto 123 ntp_packet ''x8N'' 65536),
    (''NFS'', uproto 2049 (hxd ''000073D1 00000000 00000002 000186A3 00000002 00000000 00000000 00000000 00000000 00000000'') [] 0),
    (''NFSv3'', uproto 2049 (hxd ''000073D1 00000000 00000002 000186A3 00000003 00000000 00000000 00000000 00000000 00000000'') [] 0),
    (''Portmap'', uproto 111 (hxd ''00005EFD 00000000 00000002 000186A0 00000000 00000000 00000000 00000000 00000000 00000000'') [] 0),
    (''Portmap2'', uproto 111 (hxd ''00005EFD 00000000 00000002 000186A0 00000002 00000000 00000000 00000000 00000000 00000000'') [] 0),
    (''Portmap3'', uproto 111 (hxd ''00005EFD 00000000 00000002 000186A0 00000003 00000000 00000000 00000000 00000000 00000000'') [] 0),
    (''Portmap4'', uproto 111 (hxd ''00005EFD 00000000 00000002 000186A0 00000004 00000000 00000000 00000000 00000000 00000000'') [] 0),
    (''IAX2'', uproto 4569 (hxd ''80000000 00000000 00000602'') [] 0)]"

definition udp_protoName :: "string \<Rightarrow> string" where
  "udp_protoName name = (if has_prefix name ''UDP/'' then drop 4 name else [])"

definition udp_blank :: udp where
  "udp_blank = \<lparr>u_Port = 0, u_Send = [], u_SendHex = [], u_Verify_IP = False, u_Verify_Port = False, u_FSend = None\<rparr>"

text \<open>The monitor, and the \<open>unpack\<close> and \<open>scale\<close> that it gives its service.\<close>

definition udp_InitNew :: "string \<Rightarrow> udp \<Rightarrow> udp \<times> (string \<times> int) option" where
  "udp_InitNew name t =
     (case map_of udpProtoTab (udp_protoName name) of
        None \<Rightarrow> (t, None)
      | Some p \<Rightarrow> (t\<lparr>u_Port := up_Port p, u_Send := up_Send p, u_Verify_IP := True, u_Verify_Port := True\<rparr>,
                   Some (up_Unpack p, up_Scale p)))"

definition udp_New :: "string \<Rightarrow> udp \<times> (string \<times> int) option" where
  "udp_New name = udp_InitNew name udp_blank"

definition udp_names :: "string \<Rightarrow> int \<Rightarrow> string \<Rightarrow> names" where
  "udp_names name port host =
     (if name \<noteq> [] then \<lparr>nm_uname = name @ ''_'' @ host, nm_label = name, nm_friendly = name @ '' on '' @ host\<rparr>
      else \<lparr>nm_uname = ''UDP_'' @ show_int port @ ''_'' @ host, nm_label = ''UDP'',
            nm_friendly = ''UDP/'' @ show_int port @ '' on '' @ host\<rparr>)"

definition udp_Config :: "string \<Rightarrow> (udp \<Rightarrow> udp) \<Rightarrow> string + string \<Rightarrow> udp \<Rightarrow> string + udp \<times> names" where
  "udp_Config name initcf ipcf t =
     (let t = initcf t in
      case ipcf of
        Inl err \<Rightarrow> Inl err
      | Inr host \<Rightarrow>
          if u_Port t = 0 then Inl ''port not specified''
          else
            let t = (if u_SendHex t \<noteq> [] then t\<lparr>u_Send := hxd (u_SendHex t)\<rparr> else t)
            in if u_Send t = [] \<and> u_FSend t = None then Inl ''send not specified''
               else Inr (t, udp_names (udp_protoName name) (u_Port t) host))"

text \<open>\<open>resolve_udp\<close> is \<open>net.ResolveUDPAddr\<close>: the address that answers must come from.\<close>

definition udp_Connect :: "(string \<Rightarrow> (string \<times> int) option) \<Rightarrow> net_env \<Rightarrow> int \<Rightarrow> udp \<Rightarrow> report list \<times> (string \<times> int) option" where
  "udp_Connect resolve_udp ne freq t =
     (case reach ne freq of
        Inl rs \<Rightarrow> (rs, None)
      | Inr addr \<Rightarrow>
          (let ap = addrport addr (u_Port t) in
           case resolve_udp ap of
             None \<Rightarrow> ([RNeed freq, RFail ''error''], None)
           | Some dst \<Rightarrow> if ne_dial ne ap then ([RNeed freq], Some dst) else ([RNeed freq, RFail ''connect failed''], None)))"

definition udp_Send :: "net_env \<Rightarrow> string \<Rightarrow> udp \<Rightarrow> report list \<times> bool" where
  "udp_Send ne toSend t =
     (case (case u_FSend t of None \<Rightarrow> Some toSend | Some f \<Rightarrow> f ne) of
        None \<Rightarrow> ([RFail ''send failed''], False)
      | Some p \<Rightarrow> if ne_write ne p then ([], True) else ([RFail ''write failed''], False))"

definition checkResponse :: "string \<times> int \<Rightarrow> string \<times> int \<Rightarrow> udp \<Rightarrow> bool" where
  "checkResponse dst from t \<longleftrightarrow>
     (u_Verify_IP t \<longrightarrow> fst from = fst dst) \<and> (u_Verify_Port t \<longrightarrow> snd from = snd dst)"

definition udp_Read :: "net_env \<Rightarrow> string \<times> int \<Rightarrow> udp \<Rightarrow> report list \<times> string option" where
  "udp_Read ne dst t =
     (case ne_reads ne of
        (d, False) # _ \<Rightarrow> if checkResponse dst (ne_from ne) t then ([], Some (take 8192 d)) else ([RFail ''recv check failed''], None)
      | _ \<Rightarrow> ([RFail ''read failed''], None))"

definition udp_MakeRequest :: "(string \<Rightarrow> (string \<times> int) option) \<Rightarrow> net_env \<Rightarrow> int \<Rightarrow> string \<Rightarrow> udp \<Rightarrow> report list \<times> string option" where
  "udp_MakeRequest resolve_udp ne freq toSend t =
     (case udp_Connect resolve_udp ne freq t of
        (rs, None) \<Rightarrow> (rs, None)
      | (rs, Some dst) \<Rightarrow>
          (case udp_Send ne toSend t of
             (ss, False) \<Rightarrow> (rs @ ss, None)
           | (ss, True) \<Rightarrow> (case udp_Read ne dst t of (us, res) \<Rightarrow> (rs @ ss @ us, res))))"

definition udp_Start :: "(string \<Rightarrow> (string \<times> int) option) \<Rightarrow> net_env \<Rightarrow> int \<Rightarrow> udp \<Rightarrow> report list" where
  "udp_Start resolve_udp ne freq t =
     (case udp_MakeRequest resolve_udp ne freq (u_Send t) t of
        (rs, None) \<Rightarrow> rs @ [RAnother, RDone]
      | (rs, Some res) \<Rightarrow> rs @ [RCheck res ''data'', RDone])"

section \<open>sip, asterisk and freeswitch\<close>

definition upper_char :: "char \<Rightarrow> char" where
  "upper_char c = (let n = of_char c :: nat in if 97 \<le> n \<and> n \<le> 122 then char_of (n - 32) else c)"

fun show_hex :: "nat \<Rightarrow> string" where
  "show_hex n =
     (let d = (\<lambda>k. if k < 10 then char_of (48 + k) else char_of (87 + k) :: char)
      in if n < 16 then [d n] else show_hex (n div 16) @ [d (n mod 16)])"

declare show_hex.simps [simp del]

record sip_conf =
  sc_To :: string
  sc_From :: string
  sc_UserAgent :: string

text \<open>The host part of a local address: in brackets, or before the first colon.\<close>

definition sip_host :: "string \<Rightarrow> string option" where
  "sip_host addr =
     (case addr of
        [] \<Rightarrow> None
      | c # r \<Rightarrow>
          if c = CHR ''['' then map_option (\<lambda>i. take i r) (index_of (\<lambda>c. c = CHR '']'') r)
          else map_option (\<lambda>i. take i addr) (index_of (\<lambda>c. c = CHR '':'') addr))"

definition sip_Packet :: "sip_conf \<Rightarrow> packeter" where
  "sip_Packet cf ne =
     (let proto = map upper_char (ne_network ne);
          addr = ne_local ne;
          to = (if sc_To cf = [] then ''sip:'' @ ne_remote ne else sc_To cf);
          from = (if sc_From cf = [] then ''sip:argus@'' @ addr else sc_From cf);
          unique = show_hex (nat (ne_rand ne))
      in map_option (\<lambda>host.
           ''OPTIONS '' @ to @ '' SIP/2.0'' @ crlf
         @ ''Via: SIP/2.0/'' @ proto @ '' '' @ addr @ '';branch='' @ ''z9hG4bK'' @ unique @ crlf
         @ ''Max-Forwards: 70'' @ crlf
         @ ''From: <'' @ from @ ''>;tag='' @ unique @ crlf
         @ ''To: <'' @ to @ ''>'' @ crlf
         @ ''Call-ID: '' @ unique @ ''@'' @ host @ crlf
         @ ''Cseq: 1 OPTIONS'' @ crlf
         @ ''User-Agent: '' @ sc_UserAgent cf @ crlf
         @ ''Content-Length: 0'' @ crlf
         @ ''Accept: */*'' @ crlf @ crlf) (sip_host addr))"

definition sip_NewTCP :: "string \<Rightarrow> string \<Rightarrow> tcp \<times> sip_conf" where
  "sip_NewTCP version name =
     (let cf = \<lparr>sc_To = [], sc_From = [], sc_UserAgent = ''Argus/'' @ version\<rparr>;
          t = fst (tcp_InitNew name (tcp_blank\<lparr>t_Port := 5060\<rparr>))
      in (t\<lparr>t_ReadHow := ''toblank'', t_FSend := Some (sip_Packet cf)\<rparr>, cf))"

definition sip_NewUDP :: "string \<Rightarrow> string \<Rightarrow> udp \<times> sip_conf" where
  "sip_NewUDP version name =
     (let cf = \<lparr>sc_To = [], sc_From = [], sc_UserAgent = ''Argus/'' @ version\<rparr>;
          t = fst (udp_InitNew name (udp_blank\<lparr>u_Port := 5060\<rparr>))
      in (t\<lparr>u_FSend := Some (sip_Packet cf)\<rparr>, cf))"

text \<open>\<open>Config\<close> sets \<open>d.SCf\<close>, to which \<open>FSend\<close> points, and then the embedded monitor.\<close>

definition sip_ConfigTCP :: "string \<Rightarrow> (sip_conf \<Rightarrow> sip_conf) \<Rightarrow> (tcp \<Rightarrow> tcp) \<Rightarrow> string + string \<Rightarrow> tcp \<times> sip_conf \<Rightarrow> string + tcp \<times> names" where
  "sip_ConfigTCP name initscf initcf ipcf d =
     tcp_Config name initcf ipcf ((fst d)\<lparr>t_FSend := Some (sip_Packet (initscf (snd d)))\<rparr>)"

definition sip_ConfigUDP :: "string \<Rightarrow> (sip_conf \<Rightarrow> sip_conf) \<Rightarrow> (udp \<Rightarrow> udp) \<Rightarrow> string + string \<Rightarrow> udp \<times> sip_conf \<Rightarrow> string + udp \<times> names" where
  "sip_ConfigUDP name initscf initcf ipcf d =
     udp_Config name initcf ipcf ((fst d)\<lparr>u_FSend := Some (sip_Packet (initscf (snd d)))\<rparr>)"

text \<open>The two that log in: the error of \<open>TCP.Config\<close> is dropped, and where it is that of
  \<open>resolv.Config\<close> the host name is read through a nil pointer (\<^const>\<open>None\<close>).\<close>

definition login_config :: "string \<Rightarrow> string \<Rightarrow> string \<Rightarrow> string \<Rightarrow> (tcp \<Rightarrow> tcp) \<Rightarrow> string + string \<Rightarrow> tcp \<Rightarrow> (tcp \<times> names) option" where
  "login_config kind send cmd name initcf ipcf t =
     (let t = t\<lparr>t_Send := send\<rparr> in
      case ipcf of
        Inl _ \<Rightarrow> None
      | Inr host \<Rightarrow>
          Some (case tcp_Config name initcf ipcf t of Inl _ \<Rightarrow> initcf t | Inr (t, _) \<Rightarrow> t,
                \<lparr>nm_uname = kind @ ''_'' @ host @ (if cmd = [] then [] else ''_'' @ cmd), nm_label = kind,
                 nm_friendly = kind @ '' on '' @ host\<rparr>))"

definition asterisk_Config :: "string \<Rightarrow> string \<Rightarrow> string \<Rightarrow> string \<Rightarrow> (tcp \<Rightarrow> tcp) \<Rightarrow> string + string \<Rightarrow> tcp \<Rightarrow> (tcp \<times> names) option" where
  "asterisk_Config user pass cmd name initcf ipcf t =
     login_config ''Asterisk''
       (''Action: Login'' @ crlf @ ''Username: '' @ user @ crlf @ ''Secret: '' @ pass @ crlf @ crlf
        @ (if cmd = [] then [] else ''Action: Command'' @ crlf @ ''Command: '' @ cmd @ crlf @ crlf)
        @ ''Action: Logoff'' @ crlf @ crlf) cmd name initcf ipcf t"

definition freeswitch_Config :: "string \<Rightarrow> string \<Rightarrow> string \<Rightarrow> (tcp \<Rightarrow> tcp) \<Rightarrow> string + string \<Rightarrow> tcp \<Rightarrow> (tcp \<times> names) option" where
  "freeswitch_Config pass cmd name initcf ipcf t =
     login_config ''Freeswitch''
       (''auth '' @ pass @ crlf @ crlf @ (if cmd = [] then [] else ''api '' @ cmd @ crlf @ crlf) @ ''exit'' @ crlf @ crlf)
       cmd name initcf ipcf t"

section \<open>url\<close>

record url_entry =
  ue_content :: string
  ue_ctype :: string
  ue_creator :: nat
  ue_created :: int

record url_cache =
  uc_web :: "string \<rightharpoonup> url_entry"
  uc_count :: "string \<Rightarrow> int"

record url =
  um_id :: nat
  um_tcp :: tcp
  um_URL :: string
  um_Browser :: string
  um_Referer :: string
  um_Accept :: string
  um_Cache :: int
  um_File :: string
  um_Host :: string

text \<open>The result of \<open>url.Parse\<close>, with \<open>RequestURI\<close>.\<close>

record purl =
  pu_Scheme :: string
  pu_Hostname :: string
  pu_Port :: string
  pu_URI :: string

definition url_New :: "nat \<Rightarrow> string \<Rightarrow> url" where
  "url_New uid name =
     \<lparr>um_id = uid, um_tcp = (fst (tcp_InitNew name tcp_blank))\<lparr>t_Port := 80, t_ReadHow := ''toeof''\<rparr>,
      um_URL = [], um_Browser = ''Argus'', um_Referer = [], um_Accept = [], um_Cache = 60, um_File = [], um_Host = []\<rparr>"

definition url_Config :: "(string \<Rightarrow> purl option) \<Rightarrow> string \<Rightarrow> (url \<Rightarrow> url) \<Rightarrow> (tcp \<Rightarrow> tcp) \<Rightarrow> (string \<Rightarrow> string + string) \<Rightarrow> url \<Rightarrow> url_cache
    \<Rightarrow> (string + url \<times> names) \<times> url_cache" where
  "url_Config parse name initucf initcf ipcf d uc =
     (let d = initucf d in
      if um_URL d = [] then (Inl ''URL not specified'', uc)
      else case parse (um_URL d) of
        None \<Rightarrow> (Inl ''cannot parse url'', uc)
      | Some pu \<Rightarrow>
          let https = (pu_Scheme pu = ''https'');
              file = (if pu_URI pu = [] then ''/'' else pu_URI pu);
              port = (if pu_Port pu = [] then (if https then 443 else 80) else atoi (pu_Port pu));
              t = um_tcp d;
              t = t\<lparr>t_SSL := (https \<or> t_SSL t), t_Port := port,
                    t_SSL_ServerName := (if t_SSL_ServerName t = [] then pu_Hostname pu else t_SSL_ServerName t)\<rparr>
          in case tcp_Config name initcf (ipcf (pu_Hostname pu)) t of
               Inl err \<Rightarrow> (Inl err, uc)
             | Inr (t, _) \<Rightarrow>
                 (Inr (d\<lparr>um_tcp := t, um_File := file, um_Host := pu_Hostname pu\<rparr>,
                       \<lparr>nm_uname = ''URL_'' @ pu_Hostname pu @ '':'' @ show_int (t_Port t) @ file, nm_label = ''URL'',
                        nm_friendly = ''URL '' @ um_URL d\<rparr>),
                  uc\<lparr>uc_count := (uc_count uc)(um_URL d := uc_count uc (um_URL d) + 1)\<rparr>))"

definition url_httpSend :: "url \<Rightarrow> string \<Rightarrow> string" where
  "url_httpSend d f =
     ''GET '' @ um_File d @ '' HTTP/1.1'' @ crlf @ ''Host: '' @ um_Host d @ crlf @ ''Connection: Close'' @ crlf
     @ (if um_Browser d = [] then [] else ''User-Agent: '' @ um_Browser d @ crlf)
     @ (if um_Referer d = [] then [] else ''Referer: '' @ um_Referer d @ crlf)
     @ (if um_Accept d = [] then [] else ''Accept: '' @ um_Accept d @ crlf)
     @ crlf"

definition makeRequest :: "net_env \<Rightarrow> int \<Rightarrow> url \<Rightarrow> string \<Rightarrow> report list \<times> string option" where
  "makeRequest ne freq d f = tcp_MakeRequest ne freq (url_httpSend d f) (um_tcp d)"

fun split_str :: "nat \<Rightarrow> string \<Rightarrow> string \<Rightarrow> string list" where
  "split_str 0 sep s = [s]"
| "split_str (Suc n) sep s =
     (case index_str sep s of None \<Rightarrow> [s] | Some i \<Rightarrow> take i s # split_str n sep (drop (i + length sep) s))"

definition url_headers :: "string \<Rightarrow> string list" where
  "url_headers resp =
     (let h = (case index_str (crlf @ crlf) resp of None \<Rightarrow> resp | Some i \<Rightarrow> take i resp)
      in split_str (length h) crlf h)"

text \<open>\<open>line[len(h)+1:]\<close> panics on a line that is just \<open>h\<close>.\<close>

fun getHeader :: "string \<Rightarrow> string list \<Rightarrow> string option" where
  "getHeader h [] = Some []"
| "getHeader h (line # hs) =
     (if has_prefix line h then
        map_option (\<lambda>v. trim_right (\<lambda>c. c \<in> {CHR '' '', CHR 0x09}) (trim_left (\<lambda>c. c \<in> {CHR '' '', CHR 0x09}) v))
          (go_slice line (int (length h) + 1) (int (length line)))
      else getHeader h hs)"

definition url_redirect :: "(string \<Rightarrow> purl option) \<Rightarrow> string list \<Rightarrow> string option" where
  "url_redirect parse hs =
     map_option (\<lambda>loc. if loc = [] then [] else case parse loc of Some pu \<Rightarrow> pu_URI pu | None \<Rightarrow> []) (getHeader ''Location'' hs)"

definition url_contentType :: "string \<Rightarrow> string" where
  "url_contentType ct =
     (if index_str ''json'' ct \<noteq> None \<or> index_str ''javascript'' ct \<noteq> None then ''json'' else ct)"

definition url_checkCached :: "int \<Rightarrow> int \<Rightarrow> url \<Rightarrow> url_cache \<Rightarrow> (string \<times> string) option" where
  "url_checkCached now freq d uc =
     (if um_Cache d \<le> 0 then None
      else case uc_web uc (um_URL d) of
        None \<Rightarrow> None
      | Some ce \<Rightarrow>
          if ue_creator ce = um_id d \<or> ue_created ce + um_Cache d \<le> now \<or> ue_created ce + freq \<le> now then None
          else Some (ue_content ce, ue_ctype ce))"

definition url_addCached :: "int \<Rightarrow> string \<Rightarrow> string \<Rightarrow> url \<Rightarrow> url_cache \<Rightarrow> url_cache" where
  "url_addCached now content ctype d uc =
     (if um_Cache d \<le> 0 \<or> uc_count uc (um_URL d) < 2 then uc
      else uc\<lparr>uc_web := (uc_web uc)(um_URL d \<mapsto>
        \<lparr>ue_content = content, ue_ctype = ctype, ue_creator = um_id d, ue_created = now\<rparr>)\<rparr>)"

text \<open>The loop over requests and redirections; \<open>serve k\<close> is the network for request \<open>k\<close>. The outer
  \<^const>\<open>None\<close> is a panic.\<close>

definition MAXREDIRECT :: nat where "MAXREDIRECT = 16"

function url_fetch :: "(string \<Rightarrow> purl option) \<Rightarrow> (nat \<Rightarrow> net_env) \<Rightarrow> int \<Rightarrow> url \<Rightarrow> nat \<Rightarrow> string \<Rightarrow> (report list \<times> string option) option" where
  "url_fetch parse serve freq d k f =
     (case makeRequest (serve k) freq d f of
        (rs, None) \<Rightarrow> Some (rs, None)
      | (rs, Some resp) \<Rightarrow>
          (case url_redirect parse (url_headers resp) of
             None \<Rightarrow> None
           | Some f' \<Rightarrow>
               if f' = [] then Some (rs, Some resp)
               else if MAXREDIRECT \<le> Suc k then Some (rs @ [RFail ''redirect loop''], None)
               else map_option (\<lambda>(rs', r). (rs @ rs', r)) (url_fetch parse serve freq d (Suc k) f')))"
  by pat_completeness auto
termination by (relation "measure (\<lambda>(_, _, _, _, k, _). MAXREDIRECT - k)") (auto simp: MAXREDIRECT_def)

declare url_fetch.simps [simp del]

definition url_Start :: "(string \<Rightarrow> purl option) \<Rightarrow> (nat \<Rightarrow> net_env) \<Rightarrow> int \<Rightarrow> int \<Rightarrow> url \<Rightarrow> url_cache \<Rightarrow> (report list \<times> url_cache) option" where
  "url_Start parse serve now freq d uc =
     (case url_checkCached now freq d uc of
        Some (content, ctype) \<Rightarrow> Some ([RCheck content ctype, RDone], uc)
      | None \<Rightarrow>
          (case url_fetch parse serve freq d 0 (um_File d) of
             None \<Rightarrow> None
           | Some (rs, None) \<Rightarrow> Some (rs @ [RDone], uc)
           | Some (rs, Some res) \<Rightarrow>
               (case split2 (crlf @ crlf) res of
                  [head, body] \<Rightarrow>
                    map_option (\<lambda>ct.
                      let ctype = url_contentType ct
                      in (rs @ [RCheck body ctype, RDone], url_addCached now body ctype d uc))
                      (getHeader ''Content-Type'' (url_headers head))
                | _ \<Rightarrow> map_option (\<lambda>_. (rs @ [RCheck [] [], RDone], uc)) (getHeader ''Content-Type'' (url_headers res)))))"

end
