(* ===== verification/Monitors.thy ===== *)
theory Monitors
  imports Probe Lfsr
begin

text \<open>
  The monitors that speak a protocol of a library: \<open>monitor/dns\<close> and \<open>monitor/snmp\<close>. Messages
  enter as the library decodes them: a DNS response with its code and records, an SNMP response as
  a list of variables. A result \<^const>\<open>None\<close> is a run-time panic.
\<close>

section \<open>dns: the configuration\<close>

record dns_conf =
  dc_Port :: int
  dc_Zone :: string
  dc_Query :: string
  dc_Class :: string
  dc_Recurse :: bool
  dc_Test :: string
  dc_Proto :: string

definition dns_blank :: dns_conf where
  "dns_blank = \<lparr>dc_Port = 0, dc_Zone = [], dc_Query = [], dc_Class = [], dc_Recurse = False, dc_Test = [], dc_Proto = []\<rparr>"

definition dns_New :: dns_conf where "dns_New = dns_blank\<lparr>dc_Class := ''IN''\<rparr>"

definition dns_defaults :: "(string \<times> dns_conf) list" where
  "dns_defaults = [
    (''Domain'', dns_New\<lparr>dc_Query := ''SOA'', dc_Test := ''authok''\<rparr>),
    (''DNS'', dns_New\<lparr>dc_Query := ''STAT''\<rparr>),
    (''DNSQ'', dns_New\<lparr>dc_Query := ''NS'', dc_Test := ''noerror'', dc_Recurse := True, dc_Zone := ''.''\<rparr>),
    (''Serial'', dns_New\<lparr>dc_Query := ''SOA'', dc_Test := ''serial'', dc_Recurse := True\<rparr>),
    (''BIND'', dns_blank\<lparr>dc_Query := ''TXT'', dc_Class := ''CH'', dc_Test := ''answer'', dc_Zone := ''version.bind''\<rparr>)]"

text \<open>\<open>strings.SplitN(s, "/", 3)\<close>.\<close>

definition splitn3 :: "string \<Rightarrow> string list" where
  "splitn3 s = split_str 2 ''/'' s"

definition configDNS :: "string \<Rightarrow> (dns_conf \<Rightarrow> dns_conf) \<Rightarrow> dns_conf \<Rightarrow> dns_conf option" where
  "configDNS name initcf d = do {
     let proto = (if has_prefix name ''TCP'' then ''tcp'' else ''udp'');
     let ns = splitn3 (trim_prefix (trim_prefix name ''TCP/'') ''UDP/'');
     let n = ns ! 0;
     let t = (if length ns > 1 then ns ! 1 else []);
     z \<leftarrow> (if length ns > 2 then elem_at ns 3 else Some []);
     let (t, z) = (if map_of dns_defaults t = None \<and> z = [] then ([], t) else (t, z));
     let t = (if t = [] then n else t);
     let d = (case map_of dns_defaults t of
                Some x \<Rightarrow> x
              | None \<Rightarrow> if t \<noteq> [] then d\<lparr>dc_Query := t, dc_Test := ''answer'', dc_Recurse := True\<rparr> else d);
     let d = (if z \<noteq> [] then d\<lparr>dc_Zone := z\<rparr> else d);
     let d = initcf (d\<lparr>dc_Proto := proto\<rparr>);
     let zone = (if dc_Zone d = [] then ''.'' else dc_Zone d);
     Some (d\<lparr>dc_Zone := (if last zone \<noteq> CHR ''.'' then zone @ ''.'' else zone)\<rparr>) }"

definition has_zone :: "dns_conf \<Rightarrow> bool" where
  "has_zone d \<longleftrightarrow> dc_Zone d \<noteq> [] \<and> dc_Zone d \<noteq> ''.''"

definition determineNames :: "string \<Rightarrow> string \<Rightarrow> dns_conf \<Rightarrow> names" where
  "determineNames name host d =
     \<lparr>nm_uname = (if dc_Proto d = ''tcp'' then ''TCPDNS_'' else ''DNS_'')
         @ (if has_zone d then dc_Zone d @ ''_'' else []) @ dc_Query d @ ''_''
         @ (if dc_Test d \<noteq> [] \<and> dc_Test d \<noteq> ''none'' then dc_Test d @ ''_'' else []) @ host,
      nm_label = (if has_zone d then dc_Zone d else trim_prefix (trim_prefix name ''TCP/'') ''UDP/''),
      nm_friendly = ''DNS for '' @ dc_Zone d @ '' on '' @ host\<rparr>"

record dns_query =
  dq_Id :: int
  dq_Name :: string
  dq_Type :: int
  dq_Class :: int
  dq_Recurse :: bool
  dq_Status :: bool    \<comment> \<open>the opcode\<close>

text \<open>The maps of the library from names to numbers give 0 for a name they do not have.\<close>

definition buildPacket :: "(string \<Rightarrow> int) \<Rightarrow> (string \<Rightarrow> int) \<Rightarrow> int \<Rightarrow> dns_conf \<Rightarrow> dns_query" where
  "buildPacket types classes rnd d =
     \<lparr>dq_Id = rnd mod 65536, dq_Name = dc_Zone d, dq_Type = types (dc_Query d), dq_Class = classes (dc_Class d),
      dq_Recurse = dc_Recurse d, dq_Status = (dc_Query d = ''STAT'')\<rparr>"

definition nextQid :: "dns_query \<Rightarrow> dns_query" where
  "nextQid q = q\<lparr>dq_Id := Next16 (dq_Id q) mod 65536\<rparr>"

definition dns_Config :: "(string \<Rightarrow> int) \<Rightarrow> (string \<Rightarrow> int) \<Rightarrow> int \<Rightarrow> string \<Rightarrow> (dns_conf \<Rightarrow> dns_conf) \<Rightarrow> string + string
    \<Rightarrow> (string + dns_conf \<times> dns_query \<times> names) option" where
  "dns_Config types classes rnd name initcf ipcf =
     map_option (\<lambda>d. case ipcf of
        Inl err \<Rightarrow> Inl err
      | Inr host \<Rightarrow>
          let d = (if dc_Port d = 0 then d\<lparr>dc_Port := 53\<rparr> else d)
          in Inr (d, buildPacket types classes rnd d, determineNames name host d))
      (configDNS name initcf dns_New)"

section \<open>dns: a run\<close>

text \<open>A record of a response: its type, the serial number where it is an SOA, its text.\<close>

record dns_rr =
  rr_is_SOA :: bool         \<comment> \<open>by its header\<close>
  rr_serial :: "int option" \<comment> \<open>of the record itself\<close>
  rr_text :: string

record dns_resp =
  dr_Rcode :: int
  dr_Authoritative :: bool
  dr_Answer :: "dns_rr list"
  dr_Ns :: "dns_rr list"
  dr_Extra :: "dns_rr list"

definition rr_lines :: "dns_rr list \<Rightarrow> string" where
  "rr_lines rs = concat (map (\<lambda>r. rr_text r @ [CHR 0x0A]) rs)"

definition dns_testResponse :: "dns_conf \<Rightarrow> dns_resp \<Rightarrow> report" where
  "dns_testResponse d resp =
     (let test = dc_Test d; val = (\<lambda>n. RCheck (show_int n) ''dns'') in
      if test = [] \<or> test = ''none'' then RPass
      else if dr_Rcode resp \<noteq> 0 then RFailReady ''DNS Error''
      else if test = ''noerror'' then RPass
      else if test = ''authok'' then
        (if dr_Authoritative resp then RPass else RFailReady ''DNS Error - Non-Authoratative Response'')
      else if test = ''nanswers'' then val (int (length (dr_Answer resp)))
      else if test = ''nauthority'' then val (int (length (dr_Ns resp)))
      else if test = ''nadditional'' then val (int (length (dr_Extra resp)))
      else if test = ''serial'' then
        (case filter rr_is_SOA (dr_Answer resp) of
           [] \<Rightarrow> RFailReady ''No SOA''
         | r # _ \<Rightarrow> (case rr_serial r of Some n \<Rightarrow> val n | None \<Rightarrow> RFailReady ''Invalid SOA''))
      else RCheck
        ((if test = ''answer'' \<or> test = ''aaa'' then rr_lines (dr_Answer resp) else [])
         @ (if test = ''authority'' \<or> test = ''aaa'' then rr_lines (dr_Ns resp) else [])
         @ (if test = ''additional'' \<or> test = ''aaa'' then rr_lines (dr_Extra resp) else [])) ''dns'')"

text \<open>\<open>exchange\<close> is \<open>client.Exchange\<close>: the response, if there is one.\<close>

definition dns_Start :: "net_env \<Rightarrow> int \<Rightarrow> (dns_query \<Rightarrow> string \<Rightarrow> dns_resp option) \<Rightarrow> dns_conf \<Rightarrow> dns_query \<Rightarrow> report list \<times> dns_query" where
  "dns_Start ne freq exchange d q =
     (case reach ne freq of
        Inl rs \<Rightarrow> (rs @ [RDone], q)
      | Inr addr \<Rightarrow>
          let q = nextQid q
          in case exchange q (addrport addr (dc_Port d)) of
               None \<Rightarrow> ([RNeed freq, RFail ''dns query failed'', RAnother, RDone], q)
             | Some resp \<Rightarrow> ([RNeed freq, dns_testResponse d resp, RDone], q))"

section \<open>snmp: object identifiers\<close>

record oid_conf =
  oc_Oid :: string
  oc_Idx :: string
  oc_UpValue :: int
  oc_Calc :: string
  oc_Watch :: string

definition oidc :: "string \<Rightarrow> string \<Rightarrow> int \<Rightarrow> string \<Rightarrow> oid_conf" where
  "oidc o' i u c = \<lparr>oc_Oid = o', oc_Idx = i, oc_UpValue = u, oc_Calc = c, oc_Watch = []\<rparr>"

definition IFIDX :: string where "IFIDX = ''ifDescr ifName''"

definition init_oids :: "(string \<times> oid_conf) list" where
  "init_oids = [
    (''sysUptime'', oidc ''.1.3.6.1.2.1.1.3'' [] 0 []),
    (''ifNumber'', oidc ''.1.3.6.1.2.1.2.1'' [] 0 []),
    (''ifDescr'', oidc ''.1.3.6.1.2.1.2.2.1.2'' [] 0 []),
    (''ifName'', oidc ''.1.3.6.1.2.1.31.1.1.1.1'' [] 0 []),
    (''ifAlias'', oidc ''.1.3.6.1.2.1.31.1.1.1.18'' [] 0 []),
    (''dskpath'', oidc ''.1.3.6.1.4.1.2021.9.1.2'' [] 0 []),
    (''dskDevs'', oidc ''.1.3.6.1.4.1.2021.9.1.3'' [] 0 []),
    (''ifAdminStatus'', oidc ''.1.3.6.1.2.1.2.2.1.7'' IFIDX 1 []),
    (''ifOperStatus'', oidc ''.1.3.6.1.2.1.2.2.1.8'' IFIDX 1 []),
    (''ifInErrors'', oidc ''.1.3.6.1.2.1.2.2.1.14'' IFIDX 0 []),
    (''ifOutErrors'', oidc ''.1.3.6.1.2.1.2.2.1.20'' IFIDX 0 []),
    (''ifInOctets'', oidc ''.1.3.6.1.2.1.2.2.1.10'' IFIDX 0 ''ave rate bits''),
    (''ifOutOctets'', oidc ''.1.3.6.1.2.1.2.2.1.16'' IFIDX 0 ''ave rate bits''),
    (''BGPPeerState'', oidc ''.1.3.6.1.2.1.15.3.1.2'' [] 6 []),
    (''dskPercent'', oidc ''.1.3.6.1.4.1.2021.9.1.9'' ''dskPath dskDevs'' 0 []),
    (''isdnLapdOperStatus'', oidc ''.1.3.6.1.2.1.10.20.1.3.4.1.2'' IFIDX 3 [])]"

text \<open>\<open>NewOID\<close>: the name \<open>f[0]\<close> of an empty heading panics.\<close>

definition NewOID :: "string \<Rightarrow> (oid_conf \<Rightarrow> oid_conf) \<Rightarrow> (string \<rightharpoonup> oid_conf) \<Rightarrow> (string \<rightharpoonup> oid_conf) option" where
  "NewOID name initcf oids =
     (case go_fields name of
        [] \<Rightarrow> None
      | n # f \<Rightarrow>
          let c = oidc (case f of [] \<Rightarrow> [] | x # _ \<Rightarrow> x) [] 0 []
          in Some (oids(n \<mapsto> initcf c)))"

definition is_letter :: "char \<Rightarrow> bool" where
  "is_letter c = (let n = of_char c :: nat in 97 \<le> n \<and> n \<le> 122 \<or> 65 \<le> n \<and> n \<le> 90)"

definition parseOid :: "(string \<rightharpoonup> oid_conf) \<Rightarrow> string \<Rightarrow> (oid_conf option \<times> string \<times> string) option" where
  "parseOid oids spec =
     (if spec = [] then Some (None, [], [])
      else do {
        (spec, desc) \<leftarrow>
          (case index_of (\<lambda>c. c = CHR ''['') spec of
             None \<Rightarrow> Some (spec, [])
           | Some bk \<Rightarrow>
               map_option (Pair (take bk spec)) (go_slice spec (int bk + 1) (int (length spec) - 1)));
        c \<leftarrow> elem_at spec 0;
        if is_letter c then
          let (word, numb) = (case index_of (\<lambda>c. c = CHR ''.'') spec of
                                None \<Rightarrow> (spec, []) | Some dot \<Rightarrow> (take dot spec, drop dot spec))
          in Some (case oids word of
                     None \<Rightarrow> (None, [], [])
                   | Some ocf \<Rightarrow> (Some ocf, oc_Oid ocf @ numb, desc))
        else Some (None, spec, desc) })"

fun idx_loop :: "(string \<rightharpoonup> oid_conf) \<Rightarrow> string list \<Rightarrow> string list option" where
  "idx_loop oids [] = Some []"
| "idx_loop oids (x # xs) = do {
     (_, oid, _) \<leftarrow> parseOid oids x;
     r \<leftarrow> idx_loop oids xs;
     Some (if oid = [] then r else oid # r) }"

definition idxOids :: "(string \<rightharpoonup> oid_conf) \<Rightarrow> oid_conf \<Rightarrow> string list option" where
  "idxOids oids cf = idx_loop oids (go_fields (oc_Idx cf))"

section \<open>snmp: configuration\<close>

record snmp =
  sn_Port :: int
  sn_Oid :: string
  sn_Version :: string
  sn_User :: string
  sn_Pass :: string
  sn_PrivPass :: string
  sn_Auth :: string
  sn_Priv :: string
  sn_oid :: string
  sn_baseOid :: string
  sn_idxDesc :: string
  sn_idxOids :: "string list"
  sn_descOid :: string
  sn_uptime :: int

definition snmp_New :: snmp where
  "snmp_New = \<lparr>sn_Port = 161, sn_Oid = [], sn_Version = ''2c'', sn_User = [], sn_Pass = [], sn_PrivPass = [], sn_Auth = [],
     sn_Priv = [], sn_oid = [], sn_baseOid = [], sn_idxDesc = [], sn_idxOids = [], sn_descOid = [], sn_uptime = 0\<rparr>"

definition contains :: "string \<Rightarrow> string \<Rightarrow> bool" where
  "contains s p \<longleftrightarrow> index_str p s \<noteq> None"

definition snmp_name :: "string \<Rightarrow> snmp \<Rightarrow> snmp" where
  "snmp_name name t =
     (let t = (if contains name ''SNMPv2c'' \<or> contains name ''SNMP2c'' then t\<lparr>sn_Version := ''2c''\<rparr> else t);
          t = (if contains name ''SNMPv3'' \<or> contains name ''SNMP3'' then t\<lparr>sn_Version := ''3''\<rparr> else t);
          name = trim_prefix name ''UDP/''
      in case index_of (\<lambda>c. c = CHR ''/'') name of
           None \<Rightarrow> t | Some i \<Rightarrow> t\<lparr>sn_Oid := drop (Suc i) name\<rparr>)"

text \<open>The monitor with the defaults it gives its service: \<open>eqvalue\<close> where it is not 0, and \<open>calc\<close>.\<close>

definition snmp_PreConfig :: "(string \<rightharpoonup> oid_conf) \<Rightarrow> string \<Rightarrow> (snmp \<Rightarrow> snmp) \<Rightarrow> string option \<Rightarrow> snmp
    \<Rightarrow> (string + snmp \<times> (int option \<times> string) option) option" where
  "snmp_PreConfig oids name initcf iperr t =
     (let t = initcf (snmp_name name t) in
      case iperr of
        Some err \<Rightarrow> Some (Inl err)
      | None \<Rightarrow> do {
          (ocf, baseoid, descr) \<leftarrow> parseOid oids (sn_Oid t);
          if baseoid = [] then Some (Inl ''unrecognized or invalid OID'')
          else do {
            let t = (if descr \<noteq> [] then t\<lparr>sn_baseOid := baseoid, sn_idxDesc := descr\<rparr> else t\<lparr>sn_oid := baseoid\<rparr>);
            idx \<leftarrow> (case ocf of Some c \<Rightarrow> if descr \<noteq> [] then idxOids oids c else Some (sn_idxOids t) | None \<Rightarrow> Some (sn_idxOids t));
            let t = t\<lparr>sn_idxOids := idx\<rparr>;
            if descr \<noteq> [] \<and> idx = [] then Some (Inl (''I don'' @ CHR 0x27 # ''t know how to autodiscover oids in this table''))
            else Some (Inr (t, map_option (\<lambda>c. (if oc_UpValue c \<noteq> 0 then Some (oc_UpValue c) else None, oc_Calc c)) ocf)) } })"

datatype snmp_auth = NoAuth | MD5 | SHA
datatype snmp_priv = NoPriv | DES | AES
datatype snmp_flags = NoAuthNoPriv | AuthNoPriv | AuthPriv

definition snmpV3Security :: "snmp \<Rightarrow> snmp_auth \<times> snmp_priv" where
  "snmpV3Security t =
     (if sn_Auth t = ''md5'' then MD5 else if sn_Auth t = ''sha1'' then SHA else NoAuth,
      if sn_Priv t = ''des'' then DES else if sn_Priv t = ''aes'' \<or> sn_Priv t = ''aes128'' then AES else NoPriv)"

definition snmp_Config :: "string \<Rightarrow> snmp \<Rightarrow> string + snmp \<times> names" where
  "snmp_Config host t =
     (if sn_Port t = 0 then Inl ''port not specified''
      else if sn_Oid t = [] then Inl ''oid not specified''
      else
        let t = t\<lparr>sn_Auth := to_lower (sn_Auth t), sn_Priv := to_lower (sn_Priv t)\<rparr>
        in Inr (t, \<lparr>nm_uname = ''SNMP_'' @ (if sn_idxDesc t = [] then sn_oid t else sn_baseOid t @ ''_'' @ sn_idxDesc t) @ ''_'' @ host,
                    nm_label = sn_Oid t, nm_friendly = sn_Oid t @ '' on '' @ host\<rparr>))"

datatype snmp_version = V1 | V2c | V3

definition snmpVersion :: "snmp \<Rightarrow> snmp_version" where
  "snmpVersion t = (if sn_Version t = ''1'' then V1 else if sn_Version t = ''3'' then V3 else V2c)"

definition snmp_flags_of :: "snmp \<Rightarrow> snmp_flags option" where
  "snmp_flags_of t =
     (if sn_Version t \<noteq> ''3'' then None
      else Some (if sn_Pass t \<noteq> [] \<and> sn_PrivPass t \<noteq> [] then AuthPriv else if sn_Pass t \<noteq> [] then AuthNoPriv else NoAuthNoPriv))"

section \<open>snmp: a run\<close>

text \<open>A variable of a response: its name and \<open>pduToString\<close> of its value.\<close>

type_synonym pdu = "string \<times> string"

record snmp_client =
  cl_connect :: bool
  cl_Get :: "string list \<Rightarrow> pdu list option"
  cl_bulk :: "string \<Rightarrow> pdu list \<times> bool"    \<comment> \<open>\<open>BulkWalkAll\<close>, and whether it had an error\<close>
  cl_walk :: "string \<Rightarrow> pdu list"            \<comment> \<open>\<open>WalkAll\<close>\<close>

definition getall :: "snmp_client \<Rightarrow> string \<Rightarrow> pdu list" where
  "getall cl oid = (let (resp, err) = cl_bulk cl oid in if err \<and> resp \<noteq> [] then resp else cl_walk cl oid)"

fun searchDescr :: "pdu list \<Rightarrow> snmp \<Rightarrow> bool \<times> snmp" where
  "searchDescr [] t = (False, t)"
| "searchDescr ((name, val) # ps) t =
     (if val = sn_idxDesc t then
        let t = t\<lparr>sn_descOid := name\<rparr> in
        case last_index_of (\<lambda>c. c = CHR ''.'') name of
          None \<Rightarrow> (False, t)
        | Some dot \<Rightarrow> (True, t\<lparr>sn_oid := sn_baseOid t @ drop dot name\<rparr>)
      else searchDescr ps t)"

fun auto_loop :: "snmp_client \<Rightarrow> string list \<Rightarrow> snmp \<Rightarrow> bool \<times> snmp" where
  "auto_loop cl [] t = (False, t)"
| "auto_loop cl (oid # oids) t =
     (case searchDescr (getall cl oid) t of (True, t) \<Rightarrow> (True, t) | (False, t) \<Rightarrow> auto_loop cl oids t)"

definition autoDiscover :: "snmp_client \<Rightarrow> snmp \<Rightarrow> bool \<times> snmp" where
  "autoDiscover cl t = auto_loop cl (sn_idxOids t) t"

definition sysUptime0 :: string where "sysUptime0 = ''.1.3.6.1.2.1.1.3.0''"

definition getResults :: "pdu list \<Rightarrow> string \<rightharpoonup> string" where
  "getResults vs = map_of (rev vs)"

definition verifyResults :: "(string \<rightharpoonup> string) \<Rightarrow> snmp \<Rightarrow> report list \<times> bool \<times> snmp" where
  "verifyResults rm t =
     (case rm sysUptime0 of
        None \<Rightarrow> ([RFail ''invalid response - no sysUptime''], False, t)
      | Some up \<Rightarrow>
          let uptime = atoi up;
              logged = uptime < sn_uptime t;
              rs = (if logged then [RLog ''device rebooted'', RResetRate] else []);
              t = t\<lparr>sn_uptime := uptime\<rparr>
          in if sn_descOid t = [] then (rs, True, t)
             else case rm (sn_descOid t) of
                    None \<Rightarrow> (rs @ [RFail ''invalid response - no check oid''], False, t)
                  | Some v \<Rightarrow>
                      if v = sn_idxDesc t then (rs, True, t)
                      else (rs @ (if logged then [] else [RLog ''device reconfigured'', RResetRate]), False, t\<lparr>sn_oid := []\<rparr>))"

definition snmp_Start :: "net_env \<Rightarrow> int \<Rightarrow> snmp_client \<Rightarrow> snmp \<Rightarrow> report list \<times> snmp" where
  "snmp_Start ne freq cl t =
     (case reach ne freq of
        Inl rs \<Rightarrow> (rs @ [RDone], t)
      | Inr addr \<Rightarrow>
          if \<not> cl_connect cl then ([RNeed freq, RFail ''connect failed'', RDone], t)
          else
            let (found, t) = (if sn_oid t = [] then autoDiscover cl t else (True, t)) in
            if \<not> found then ([RNeed freq, RFail ''cannot discover oid'', RDone], t)
            else case cl_Get cl ([sn_oid t, sysUptime0] @ (if sn_descOid t = [] then [] else [sn_descOid t])) of
              None \<Rightarrow> ([RNeed freq, RFail ''snmp get failed'', RAnother, RDone], t)
            | Some vs \<Rightarrow>
                let rm = getResults vs; oid = sn_oid t; (rs, ok, t) = verifyResults rm t in
                if \<not> ok then (RNeed freq # rs @ [RDone], t)
                else (RNeed freq # rs @ [case rm oid of None \<Rightarrow> RFail ''invalid response - no result'' | Some v \<Rightarrow> RCheck v ''snmp'', RDone], t))"

end
