(* ===== verification/Checkers.thy ===== *)
theory Checkers
  imports Probe
begin

text \<open>
  The monitors of the server itself and of programs: \<open>monitor/agent\<close> with the agent's own side in
  \<open>argus/agent\<close>, \<open>monitor/ping\<close>, \<open>prog\<close>, \<open>database\<close>, \<open>self\<close>, \<open>isforced\<close>, \<open>darpwatch\<close> and
  \<open>compute\<close>. A run is a list of reports as in Probe.
\<close>

section \<open>Small monitors\<close>

text \<open>\<open>prog\<close>: \<open>out\<close> is the output of the command and whether it failed.\<close>

definition prog_Config :: "string \<Rightarrow> string + names" where
  "prog_Config command =
     (if command = [] then Inl ''command not specified''
      else Inr \<lparr>nm_uname = ''Prog_'' @ command, nm_label = ''Prog'', nm_friendly = command\<rparr>)"

definition RunProg :: "bool \<Rightarrow> string \<times> bool \<Rightarrow> report list \<times> string option" where
  "RunProg ignoreExit out =
     (if snd out \<and> \<not> ignoreExit then ([RFail ''command failed''], None) else ([], Some (fst out)))"

definition prog_Start :: "bool \<Rightarrow> string \<times> bool \<Rightarrow> report list" where
  "prog_Start ignoreExit out =
     (case RunProg ignoreExit out of
        (rs, None) \<Rightarrow> rs @ [RDone]
      | (rs, Some res) \<Rightarrow> rs @ [RCheck res ''data'', RDone])"

record db_conf =
  db_type :: string
  db_Dsn :: string
  db_User :: string
  db_Pass :: string
  db_Hostname :: string
  db_name :: string
  db_param :: string
  db_Sql :: string

definition db_tail :: "db_conf \<Rightarrow> string" where
  "db_tail c = ''/'' @ db_name c @ ''?'' @ db_param c"

text \<open>The data source name with the password \<open>pass\<close>; it is displayed with stars for it.\<close>

definition db_dsn :: "string \<Rightarrow> db_conf \<Rightarrow> string" where
  "db_dsn pass c =
     (if db_Dsn c \<noteq> [] then db_Dsn c
      else if db_type c = ''postgres'' then ''postgres://'' @ db_User c @ '':'' @ pass @ ''@'' @ db_Hostname c @ db_tail c
      else if db_type c = ''mysql'' then db_User c @ '':'' @ pass @ ''@tcp('' @ db_Hostname c @ '')'' @ db_tail c
      else if db_type c = ''sqlserver'' then ''sqlserver://'' @ db_User c @ '':'' @ pass @ ''@'' @ db_Hostname c @ db_tail c
      else if db_type c = ''hdb'' then ''hdb://'' @ db_User c @ '':'' @ pass @ ''@'' @ db_Hostname c @ db_tail c
      else [])"

definition db_Config :: "db_conf \<Rightarrow> string + (string \<times> string) \<times> names" where
  "db_Config c =
     (if db_type c = [] then Inl ''db type not specified''
      else if db_dsn (db_Pass c) c = [] then Inl ''cannot determine dsn''
      else if db_Sql c = [] then Inl ''sql not specified''
      else Inr ((db_dsn (db_Pass c) c, db_dsn ''****'' c),
        \<lparr>nm_uname = (if db_Dsn c \<noteq> [] then ''DB_'' @ db_Dsn c else ''DB_'' @ db_type c @ ''_'' @ db_name c @ ''@'' @ db_Hostname c),
         nm_label = ''DB'', nm_friendly = db_Dsn c\<rparr>))"

text \<open>\<open>row\<close> is the result of opening and selecting: an error of either, or the value.\<close>

definition db_Start :: "bool \<Rightarrow> string + string \<Rightarrow> report list" where
  "db_Start opened row =
     (if \<not> opened then [RFail ''open failed'', RDone]
      else case row of
             Inl err \<Rightarrow> [RFail (''select failed: '' @ err), RDone]
           | Inr res \<Rightarrow> [RCheck res ''data'', RDone])"

definition self_Config :: "(string \<rightharpoonup> string) \<Rightarrow> string \<Rightarrow> (string \<Rightarrow> string) \<Rightarrow> string + string \<times> names" where
  "self_Config vars name initcf =
     (let param = initcf (trim_prefix name ''Self/'') in
      if param = [] then Inl ''param not specified''
      else if vars param = None then Inl ''invalid param''
      else Inr (param, \<lparr>nm_uname = ''SELF_'' @ param, nm_label = param, nm_friendly = ''test of argus internal '' @ param\<rparr>))"

definition self_Start :: "string \<Rightarrow> report list" where
  "self_Start val = [RCheck val ''data'', RDone]"

record force =
  fo_Value :: bool
  fo_Osc :: int
  fo_count :: int

definition force_New :: force where "force_New = \<lparr>fo_Value = True, fo_Osc = 0, fo_count = 0\<rparr>"

definition force_Start :: "force \<Rightarrow> report list \<times> force" where
  "force_Start d =
     (let up = RSet CLEAR ''1'' ''OK''; dn = RSet CRITICAL ''0'' ''OHNOS'' in
      if fo_Osc d > 0 then
        let c = (fo_count d + 1) smod fo_Osc d
        in ([if c > fo_Osc d sdiv 2 then dn else up, RDone], d\<lparr>fo_count := c\<rparr>)
      else if fo_Value d then ([up, RDone], d)
      else ([dn, RDone], d))"

record watch =
  wt_Watch :: string
  wt_Mode :: string

definition watch_Config :: "darp_state \<Rightarrow> string \<Rightarrow> (watch \<Rightarrow> watch) \<Rightarrow> string + watch \<times> names" where
  "watch_Config dst name initcf =
     (let w = initcf \<lparr>wt_Watch = drop 1 (trim_prefix name ''DARP/Watch''), wt_Mode = ''slave''\<rparr> in
      if \<not> darp_IsValid (wt_Watch w) dst then Inl ''invalid darp name''
      else Inr (w, \<lparr>nm_uname = ''DARP_WATCH_'' @ wt_Mode w @ ''_'' @ wt_Watch w, nm_label = wt_Watch w,
                    nm_friendly = ''DARP '' @ wt_Watch w\<rparr>))"

definition watch_Start :: "int \<Rightarrow> darp_state \<Rightarrow> watch \<Rightarrow> report list" where
  "watch_Start now dst w = [if darp_IsUp now (wt_Watch w) dst then RPass else RFail ''connection is down'', RDone]"

section \<open>compute\<close>

record compute =
  cp_S :: sptr
  cp_Expr :: string
  cp_objs :: "string list"
  cp_srvc :: "sptr list"
  cp_valid :: bool

text \<open>\<open>parsed\<close> is the result of \<open>expr.Parse\<close>: the objects of the expression.\<close>

definition compute_Config :: "string \<Rightarrow> string + string list \<Rightarrow> compute \<Rightarrow> string + compute \<times> names" where
  "compute_Config ex parsed c =
     (if ex = [] then Inl ''expr not specified''
      else case parsed of
             Inl err \<Rightarrow> Inl (''invalid compute expr: '' @ err)
           | Inr objs \<Rightarrow> Inr (c\<lparr>cp_Expr := ex, cp_objs := objs\<rparr>,
               \<lparr>nm_uname = ''COMPUTE_'' @ ex, nm_label = ''Compute'', nm_friendly = ''Compute''\<rparr>))"

definition compute_Start :: "service_state \<Rightarrow> compute \<Rightarrow> report list" where
  "compute_Start st c =
     (if \<not> cp_valid c then [RDone]
      else if \<not> list_all (\<lambda>i. v_ready (vs_svc st i)) (cp_srvc c) then [RDone]
      else [RCheck ''0'' ''data'', RDone])"

text \<open>The services below the objects \<open>todo\<close>, depth first; each will run the computation after it.\<close>

partial_function (option) addDepends :: "ptr list \<Rightarrow> compute \<Rightarrow> service_state \<Rightarrow> (compute \<times> service_state) option" where
  "addDepends todo c st =
     (case todo of
        [] \<Rightarrow> Some (c, st)
      | m # todo \<Rightarrow>
          if m = 0 then None
          else
            let (children, mst) = me_Children m (vs_monel st); st = st\<lparr>vs_monel := mst\<rparr>
            in case svc_Find (Unique mst m) st of
                 Some s \<Rightarrow> addDepends todo (c\<lparr>cp_srvc := cp_srvc c @ [s]\<rparr>) (AddAlsoRun s (cp_S c) st)
               | None \<Rightarrow> addDepends (children @ todo) c st)"

text \<open>\<open>objs\<close> in the order in which the map is visited; the objects that are not found are returned.\<close>

fun compute_resolve :: "string list \<Rightarrow> compute \<Rightarrow> service_state \<Rightarrow> (string list \<times> compute \<times> service_state) option" where
  "compute_resolve [] c st = Some ([], c, st)"
| "compute_resolve (o' # objs) c st =
     (case Find (vs_monel st) o' of
        None \<Rightarrow> map_option (\<lambda>(es, x). (o' # es, x)) (compute_resolve objs (c\<lparr>cp_valid := False\<rparr>) st)
      | Some m \<Rightarrow> (case addDepends [m] c st of None \<Rightarrow> None | Some (c, st) \<Rightarrow> compute_resolve objs c st))"

definition compute_DoneConfig :: "compute \<Rightarrow> service_state \<Rightarrow> (string list \<times> compute \<times> service_state) option" where
  "compute_DoneConfig c st = compute_resolve (cp_objs c) (c\<lparr>cp_valid := True\<rparr>) st"

definition compute_Recycle :: "compute \<Rightarrow> service_state \<Rightarrow> service_state" where
  "compute_Recycle c st = foldl (\<lambda>st s. RemoveAlsoRun s (cp_S c) st) st (cp_srvc c)"

section \<open>The agent's side\<close>

text \<open>\<open>os\<close> is \<open>runtime.GOOS\<close>, \<open>var\<close> the exported variables, \<open>sh\<close> the shell with a timeout: the output
  and whether the command failed. A result \<^const>\<open>None\<close> is a panic: a negative column.\<close>

definition apiOS :: "string \<Rightarrow> api_ctx \<Rightarrow> api_ctx" where
  "apiOS os ctx = SendFinal (SendKVP ''os'' os (SendOK ctx))"

definition agentSelf :: "string \<Rightarrow> (string \<rightharpoonup> string) \<Rightarrow> string \<Rightarrow> api_ctx \<Rightarrow> api_ctx" where
  "agentSelf os var name ctx =
     (case var name of
        None \<Rightarrow> Send404 ctx
      | Some v \<Rightarrow> SendFinal (SendKVP ''os'' os (SendKVP ''result'' v (SendOK ctx))))"

definition agent_runProg :: "(string \<Rightarrow> int \<Rightarrow> string \<times> bool) \<Rightarrow> string \<Rightarrow> int \<Rightarrow> string \<times> bool" where
  "agent_runProg sh command timeout =
     (let (out, fail) = sh command (if timeout < 1 then 1 else timeout) in if fail then ([], True) else (out, False))"

definition pick_column :: "string \<Rightarrow> string \<Rightarrow> string option" where
  "pick_column column res =
     (if column = [] then Some res
      else let c = atoi column; f = go_fields res
           in if int (length f) > c then elem_at f c else Some [])"

definition agentCommand :: "service_env \<Rightarrow> string \<Rightarrow> (string \<Rightarrow> int \<Rightarrow> string \<times> bool) \<Rightarrow> string \<Rightarrow> api_ctx \<Rightarrow> api_ctx option" where
  "agentCommand env os sh command ctx =
     (let (res, fail) = agent_runProg sh command (atoi (ctx_arg ctx ''timeout'')) in
      map_option (\<lambda>res.
        let res = (if ctx_arg ctx ''pluck'' \<noteq> [] then Pluck env (ctx_arg ctx ''pluck'') res else res);
            res = (if ctx_arg ctx ''jpath'' \<noteq> [] then ve_jsonpath env (ctx_arg ctx ''jpath'') res else res);
            ctx = SendKVP ''os'' os (SendKVP ''result'' res (SendOK ctx))
        in SendFinal (if fail then SendKVP ''fail'' ''1'' ctx else ctx))
      (pick_column (ctx_arg ctx ''column'') res))"

definition apiAgent :: "service_env \<Rightarrow> string \<Rightarrow> (string \<rightharpoonup> string) \<Rightarrow> (string \<Rightarrow> int \<Rightarrow> string \<times> bool) \<Rightarrow> api_ctx \<Rightarrow> api_ctx option" where
  "apiAgent env os var sh ctx =
     (let self = ctx_arg ctx ''self''; command = ctx_arg ctx ''command''; want = ctx_arg ctx ''os'' in
      if want \<noteq> [] \<and> want \<noteq> os then Some (apiOS os ctx)
      else if self \<noteq> [] then Some (agentSelf os var self ctx)
      else if command \<noteq> [] then agentCommand env os sh command ctx
      else Some (Send404 ctx))"

section \<open>The monitor of an agent\<close>

text \<open>\<open>os.Expand\<close>: the name after a dollar sign and how many bytes it takes; a dollar sign without
  a name stays, bad syntax is dropped.\<close>

definition is_special :: "char \<Rightarrow> bool" where
  "is_special c \<longleftrightarrow> c \<in> set ''*#$@!?-'' \<or> is_digit c"

definition is_alnum :: "char \<Rightarrow> bool" where
  "is_alnum c \<longleftrightarrow> c = CHR ''_'' \<or> is_digit c \<or> (let n = of_char c :: nat in 97 \<le> n \<and> n \<le> 122 \<or> 65 \<le> n \<and> n \<le> 90)"

definition getShellName :: "string \<Rightarrow> string \<times> nat" where
  "getShellName s =
     (if hd s = CHR ''{'' then
        (if length s > 2 \<and> is_special (s ! 1) \<and> s ! 2 = CHR ''}'' then ([s ! 1], 3)
         else case index_of (\<lambda>c. c = CHR ''}'') (tl s) of
                None \<Rightarrow> ([], 1)
              | Some i \<Rightarrow> if i = 0 then ([], 2) else (take i (tl s), i + 2))
      else if is_special (hd s) then ([hd s], 1)
      else let n = takeWhile is_alnum s in (n, length n))"

function os_Expand :: "(string \<Rightarrow> string) \<Rightarrow> string \<Rightarrow> string" where
  "os_Expand f s =
     (case s of
        [] \<Rightarrow> []
      | c # r \<Rightarrow>
          if c = CHR ''$'' \<and> r \<noteq> [] then
            let (name, w) = getShellName r
            in (if name = [] then (if w > 0 then [] else [c]) else f name) @ os_Expand f (drop w r)
          else c # os_Expand f r)"
  by pat_completeness auto
termination by (relation "measure (length \<circ> snd)") auto

declare os_Expand.simps [simp del]

record tconf =
  tf_Command :: string
  tf_Pluck :: string
  tf_JPath :: string
  tf_Column :: string
  tf_Timeout :: int

text \<open>The commands by name, and each by operating system. A monitor keeps the name of its command,
  whose entry is never replaced.\<close>

type_synonym commands = "string \<rightharpoonup> (string \<rightharpoonup> tconf)"

record agent =
  ag_Param :: string
  ag_Arg :: string
  ag_Port :: int
  ag_cmd :: "string option"
  ag_os :: string

definition agent_blank :: agent where
  "agent_blank = \<lparr>ag_Param = [], ag_Arg = [], ag_Port = 0, ag_cmd = None, ag_os = []\<rparr>"

definition agent_Config :: "commands \<Rightarrow> string \<Rightarrow> (agent \<Rightarrow> agent) \<Rightarrow> string + string \<Rightarrow> string + agent \<times> names" where
  "agent_Config cmds name initcf ipcf =
     (let f = split_on (CHR ''/'') name;
          a = agent_blank\<lparr>ag_Param := (if length f > 1 then to_lower (f ! 1) else []), ag_Arg := (if length f > 2 then f ! 2 else [])\<rparr>;
          a = initcf a
      in case ipcf of
           Inl err \<Rightarrow> Inl err
         | Inr host \<Rightarrow>
             if ag_Port a = 0 then Inl ''agent_port not specified''
             else if ag_Param a = [] then Inl ''param not specified''
             else if ag_Param a \<noteq> ''self'' \<and> cmds (ag_Param a) = None then Inl (''unknown Agent command '' @ ag_Param a)
             else Inr (a\<lparr>ag_cmd := (if ag_Param a = ''self'' then None else Some (ag_Param a))\<rparr>,
               \<lparr>nm_uname = ''AGENT_'' @ ag_Param a @ (if ag_Arg a = [] then [] else ''_'' @ ag_Arg a),
                nm_label = (if ag_Param a = ''self'' then ag_Arg a else ag_Param a),
                nm_friendly = ''Agent '' @ ag_Param a @ '' on '' @ host\<rparr>))"

definition agent_arg :: "string \<Rightarrow> string \<Rightarrow> string" where
  "agent_arg arg x =
     (let args = go_fields arg in
      if x = ''*'' \<or> x = ''ARGS'' then arg
      else if length x = 1 \<and> is_digit (hd x) \<and> hd x \<noteq> CHR ''0'' \<and> digit_val (hd x) \<le> int (length args)
      then args ! nat (digit_val (hd x) - 1)
      else [])"

definition buildCommand :: "commands \<Rightarrow> agent \<Rightarrow> string + (string \<times> string) list" where
  "buildCommand cmds a =
     (if ag_Param a = ''self'' then Inr [(''self'', ag_Arg a)]
      else case ag_cmd a of
        None \<Rightarrow> Inl ''agent not properly configured''
      | Some n \<Rightarrow>
          (let mcf = (case cmds n of None \<Rightarrow> Map.empty | Some m \<Rightarrow> m) in
           case (case mcf (ag_os a) of Some m \<Rightarrow> Some m | None \<Rightarrow> mcf []) of
             None \<Rightarrow> Inl (''agent not configured for OS '' @ ag_os a)
           | Some m \<Rightarrow>
               Inr [(''command'', os_Expand (agent_arg (ag_Arg a)) (tf_Command m)), (''pluck'', tf_Pluck m), (''jpath'', tf_JPath m),
                    (''column'', tf_Column m), (''timeout'', show_int (tf_Timeout m)), (''os'', ag_os a)]))"

text \<open>\<open>ask\<close> is \<open>conn.GetMap\<close>: the map of the answer, or an error.\<close>

definition agent_Connect :: "net_env \<Rightarrow> int \<Rightarrow> agent \<Rightarrow> report list \<times> bool" where
  "agent_Connect ne freq a =
     (case reach ne freq of
        Inl rs \<Rightarrow> (rs, False)
      | Inr addr \<Rightarrow>
          if ne_dial ne (addrport addr (ag_Port a)) then ([RNeed freq], True)
          else ([RNeed freq, RFail ''connect failed'', RAnother], False))"

definition map_get :: "(string \<rightharpoonup> string) \<Rightarrow> string \<Rightarrow> string" where
  "map_get m k = (case m k of None \<Rightarrow> [] | Some v \<Rightarrow> v)"

definition agent_query :: "(string \<Rightarrow> (string \<times> string) list \<Rightarrow> (string \<rightharpoonup> string) option) \<Rightarrow> commands \<Rightarrow> agent \<Rightarrow> report list \<times> agent" where
  "agent_query ask cmds a =
     (case buildCommand cmds a of
        Inl err \<Rightarrow> ([RFail err], a)
      | Inr args \<Rightarrow>
          (case ask ''agent'' args of
             None \<Rightarrow> ([RFail ''command failed''], a)
           | Some res \<Rightarrow>
               let os = map_get res ''os'' in
               if os = [] then ([RFail ''protocol botched''], a)
               else if os \<noteq> ag_os a then ([], a\<lparr>ag_os := os\<rparr>)
               else if map_get res ''fail'' \<noteq> [] then ([RFail ''failed''], a)
               else ([RCheck (map_get res ''result'') ''data''], a)))"

definition agent_Start :: "net_env \<Rightarrow> int \<Rightarrow> (string \<Rightarrow> (string \<times> string) list \<Rightarrow> (string \<rightharpoonup> string) option) \<Rightarrow> commands \<Rightarrow> agent \<Rightarrow> report list \<times> agent" where
  "agent_Start ne freq ask cmds a =
     (case agent_Connect ne freq a of
        (rs, False) \<Rightarrow> (rs @ [RDone], a)
      | (rs, True) \<Rightarrow>
          (case (if ag_os a = [] then map_option (\<lambda>res. a\<lparr>ag_os := map_get res ''os''\<rparr>) (ask ''getos'' []) else Some a) of
             None \<Rightarrow> (rs @ [RFail ''command failed'', RDone], a)
           | Some a \<Rightarrow> (case agent_query ask cmds a of (qs, a) \<Rightarrow> (rs @ qs @ [RDone], a))))"

text \<open>\<open>NewAgent\<close>: the command for each operating system, up to the first that has one already.\<close>

fun add_os :: "string \<Rightarrow> tconf \<Rightarrow> string list \<Rightarrow> commands \<Rightarrow> bool \<times> commands" where
  "add_os name cf [] cmds = (True, cmds)"
| "add_os name cf (os # oss) cmds =
     (let m = (case cmds name of None \<Rightarrow> Map.empty | Some m \<Rightarrow> m) in
      if m os \<noteq> None then (False, cmds) else add_os name cf oss (cmds(name \<mapsto> m(os \<mapsto> cf))))"

definition NewAgent :: "string \<Rightarrow> string list \<Rightarrow> tconf \<Rightarrow> commands \<Rightarrow> bool \<times> commands" where
  "NewAgent name extra cf cmds =
     (let name = to_lower name;
          cmds = (if cmds name = None then cmds(name \<mapsto> Map.empty) else cmds)
      in add_os name cf (if extra = [] then [[]] else extra) cmds)"

section \<open>ping\<close>

record pingWork =
  pw_ipaddr :: string
  pw_s :: sptr

text \<open>The pings underway: the services by address, in the order in which the addresses came.\<close>

type_synonym underway = "(string \<times> sptr list) list"

definition addPing :: "pingWork \<Rightarrow> string list \<times> underway \<Rightarrow> string list \<times> underway" where
  "addPing pw st =
     (let (stdin, uw) = st in
      case map_of uw (pw_ipaddr pw) of
        None \<Rightarrow> (stdin @ [pw_ipaddr pw], uw @ [(pw_ipaddr pw, [pw_s pw])])
      | Some ss \<Rightarrow> (stdin, map (\<lambda>(a, ss). (a, if a = pw_ipaddr pw then ss @ [pw_s pw] else ss)) uw))"

definition MAXPING :: nat where "MAXPING = 250"

text \<open>\<open>addMore\<close> takes what comes before a second without work, at most \<open>MAXPING\<close>.\<close>

definition addMore :: "pingWork list \<Rightarrow> string list \<times> underway \<Rightarrow> string list \<times> underway" where
  "addMore pws st = foldl (\<lambda>st pw. addPing pw st) st (take MAXPING pws)"

definition Sscan_f32 :: "string \<Rightarrow> gofloat" where
  "Sscan_f32 s =
     (let tok = float_token (dropWhile is_space s) in
      case ParseFloat tok of
        None \<Rightarrow> fzero
      | Some (Num sg m) \<Rightarrow>
          (case parse_decimal (case tok of c # r \<Rightarrow> if c = CHR ''-'' \<or> c = CHR ''+'' then r else tok | [] \<Rightarrow> []) of
             None \<Rightarrow> fzero
           | Some m \<Rightarrow> (case round32 sg m of Inf _ \<Rightarrow> fzero | x \<Rightarrow> x))
      | Some x \<Rightarrow> x)"

definition ping_processResult :: "string \<Rightarrow> underway \<Rightarrow> (sptr \<times> report) list \<times> underway" where
  "ping_processResult line uw =
     (case (index_of (\<lambda>c. c = CHR '' '' \<or> c = CHR 0x09) line, index_of (\<lambda>c. c = CHR ''('') line) of
        (Some space, Some paren) \<Rightarrow>
          (let addr = take space line;
               res = fmt_f (Sscan_f32 (drop (Suc paren) line));
               ss = (case map_of uw addr of None \<Rightarrow> [] | Some ss \<Rightarrow> ss)
           in (concat (map (\<lambda>s. [(s, RCheck res ''string''), (s, RDone)]) ss), filter (\<lambda>(a, _). a \<noteq> addr) uw))
      | _ \<Rightarrow> ([], uw))"

fun ping_lines :: "string list \<Rightarrow> underway \<Rightarrow> (sptr \<times> report) list \<times> underway" where
  "ping_lines [] uw = ([], uw)"
| "ping_lines (l # ls) uw =
     (let (rs, uw) = ping_processResult l uw; (rs', uw) = ping_lines ls uw in (rs @ rs', uw))"

definition no_response :: "underway \<Rightarrow> (sptr \<times> report) list" where
  "no_response uw = concat (map (\<lambda>(_, ss). concat (map (\<lambda>s. [(s, RFail ''no response''), (s, RDone)]) ss)) uw)"

text \<open>One run of \<open>fping\<close> for the first work and what \<open>addMore\<close> finds: the addresses written to it,
  the reports, and whether the lock \<open>justOne\<close> is still held. \<open>started\<close> says whether the program
  could be started; \<open>output\<close> is what it prints for the addresses.\<close>

definition ping :: "bool \<Rightarrow> (string list \<Rightarrow> string list) \<Rightarrow> pingWork \<Rightarrow> pingWork list \<Rightarrow> (sptr \<times> report) list \<times> bool" where
  "ping started output pw works =
     (if \<not> started then ([], True)
      else
        let (stdin, uw) = addMore works (addPing pw ([], []));
            (rs, uw) = ping_lines (output stdin) uw
        in (rs @ no_response uw, False))"

definition ping_Config :: "string + string \<Rightarrow> string + names" where
  "ping_Config ipcf =
     (case ipcf of Inl err \<Rightarrow> Inl err
      | Inr host \<Rightarrow> Inr \<lparr>nm_uname = ''PING_'' @ host, nm_label = ''Ping'', nm_friendly = ''Ping''\<rparr>)"

text \<open>\<open>Start\<close> reports, or queues the work.\<close>

definition ping_Start :: "net_env \<Rightarrow> int \<Rightarrow> sptr \<Rightarrow> report list \<times> pingWork list" where
  "ping_Start ne freq s =
     (case reach ne freq of
        Inl rs \<Rightarrow> (rs @ [RDone], [])
      | Inr addr \<Rightarrow> ([RNeed freq], [\<lparr>pw_ipaddr = addr, pw_s = s\<rparr>]))"

text \<open>\<open>Abort\<close> ends the test while its work is still underway: the round will end it again.\<close>

definition ping_Abort :: "report list" where "ping_Abort = [RDone]"

end
