(* ===== verification/ProbeFacts.thy ===== *)
theory ProbeFacts
  imports Probe Monitors Checkers "HOL-Library.Multiset"
begin

text \<open>
  What the monitors report: every run ends the test of its service once and with at most one
  verdict, a TCP answer is read up to the first point where it is complete, an HTTP redirect is
  requested again and not followed, and a round of pings answers every service that asked.
\<close>

section \<open>One verdict, one end\<close>

text \<open>The runs of the monitors that test one service at a time: all but \<open>ping\<close>, which answers for many
  (\<open>ping_answers_all\<close>) and, when \<open>fping\<close> cannot be started, for none (\<open>ping_not_started\<close>).\<close>

inductive monitor_run :: "report list \<Rightarrow> bool" where
  tcp: "monitor_run (tcp_Start ne freq t)"
| udp: "monitor_run (udp_Start resolve_udp ne freq u)"
| url: "url_Start parse serve now freq d uc = Some (rs, uc') \<Longrightarrow> monitor_run rs"
| dns: "monitor_run (fst (dns_Start ne freq exchange dc q))"
| snmp: "monitor_run (fst (snmp_Start ne freq cl t))"
| agent: "monitor_run (fst (agent_Start ne freq ask cmds a))"
| prog: "monitor_run (prog_Start ignoreExit out)"
| database: "monitor_run (db_Start opened row)"
| self: "monitor_run (self_Start val)"
| force: "monitor_run (fst (force_Start fo))"
| watch: "monitor_run (watch_Start now dst w)"
| compute: "monitor_run (compute_Start st c)"

inductive_cases monitor_runE: "monitor_run rs"

definition verdicts :: "report list \<Rightarrow> nat" where
  "verdicts rs = length (filter is_verdict rs)"

text \<open>Reports before the end, with at most \<open>n\<close> verdicts.\<close>

definition pending :: "nat \<Rightarrow> report list \<Rightarrow> bool" where
  "pending n rs \<longleftrightarrow> RDone \<notin> set rs \<and> verdicts rs \<le> n"



lemma pending_simps [simp]:
  "pending n []" "pending n (rs @ [r]) \<longleftrightarrow> pending (if is_verdict r then n - 1 else n) rs \<and> r \<noteq> RDone \<and> (is_verdict r \<longrightarrow> 0 < n)"
  "pending n (r # rs) \<longleftrightarrow> pending (if is_verdict r then n - 1 else n) rs \<and> r \<noteq> RDone \<and> (is_verdict r \<longrightarrow> 0 < n)"
  by (auto simp: pending_def verdicts_def)


lemma pending_mono: "pending m rs \<Longrightarrow> m \<le> n \<Longrightarrow> pending n rs"
  by (auto simp: pending_def)

lemma pending_append_0 [simp]: "pending 0 (rs @ ss) \<longleftrightarrow> pending 0 rs \<and> pending 0 ss"
  by (auto simp: pending_def verdicts_def)

lemma verdicts_Cons: "verdicts (r # rs) = (if is_verdict r then Suc (verdicts rs) else verdicts rs)"
  by (simp add: verdicts_def)

lemma pending_after_0 [simp]: "pending 0 rs \<Longrightarrow> pending n (rs @ ss) \<longleftrightarrow> pending n ss"
  by (auto simp: pending_def verdicts_def)











lemma dns_testResponse_report [simp]: "dns_testResponse d r \<noteq> RDone"
  by (auto simp: dns_testResponse_def Let_def split: list.split option.split)














section \<open>Reading an answer\<close>

text \<open>A DNS message over TCP starts with the length of the rest, in two bytes.\<close>

fun whole_message :: "string \<Rightarrow> bool" where
  "whole_message (a # b # body) \<longleftrightarrow> body \<noteq> [] \<and> 256 * of_char a + of_char b \<le> int (length body)"
| "whole_message _ \<longleftrightarrow> False"

lemma dns_framed_whole: "dns_framed s \<longleftrightarrow> whole_message s"
  by (cases s rule: whole_message.cases) (auto simp: dns_framed_def)

definition complete :: "string \<Rightarrow> string \<Rightarrow> bool" where
  "complete how s \<longleftrightarrow>
     how = ''once'' \<and> s \<noteq> [] \<or> how = ''banner'' \<and> CHR 0x0A \<in> set s
   \<or> how = ''toblank'' \<and> index_str (crlf @ crlf) s \<noteq> None \<or> how = ''dns'' \<and> whole_message s"

definition payload :: "string \<Rightarrow> string \<Rightarrow> string" where
  "payload how s = (if how = ''dns'' then drop 2 s else s)"

definition received :: "nat \<Rightarrow> string list \<Rightarrow> string" where
  "received k ds = concat (take k ds)"

lemma tcp_Read_step:
  "tcp_Read how res ((d, False) # cs) = (if complete how (res @ d) then (payload how (res @ d), False) else tcp_Read how (res @ d) cs)"
  by (auto simp: complete_def payload_def dns_framed_whole Let_def)

lemma find_shift: "find P (map f xs) = map_option f (find (P \<circ> f) xs)"
  by (induction xs) auto

lemma upt_Suc_map: "[1..<Suc (Suc n)] = 1 # map Suc [1..<Suc n]"
  by (simp add: map_Suc_upt upt_conv_Cons del: upt_Suc)

lemma tcp_Read_find:
  assumes "how \<noteq> ''toeof''" "\<not> complete how res"
  shows "tcp_Read how res (map (\<lambda>d. (d, False)) ds) =
     (case find (\<lambda>k. complete how (res @ received k ds)) [1..<Suc (length ds)] of
        Some k \<Rightarrow> (payload how (res @ received k ds), False)
      | None \<Rightarrow> (res @ received (length ds) ds, True))"
  using assms(2)
proof (induction ds arbitrary: res)
  case Nil
  then show ?case using assms(1) by (auto simp: received_def complete_def)
next
  case (Cons d ds)
  have r: "received (Suc k) (d # ds) = d @ received k ds" for k by (simp add: received_def)
  have f: "find (\<lambda>k. complete how (res @ received k (d # ds))) [1..<Suc (length (d # ds))] =
     (if complete how (res @ d) then Some 1 else map_option Suc (find (\<lambda>k. complete how ((res @ d) @ received k ds)) [1..<Suc (length ds)]))"
    unfolding list.size(4) add_Suc_right add_0_right upt_Suc_map find_shift find.simps
    using r [of 0] by (simp add: r find_shift comp_def received_def del: upt_Suc)
  show ?case
  proof (cases "complete how (res @ d)")
    case True
    then show ?thesis using r [of 0] unfolding f list.map tcp_Read_step by (simp add: received_def)
  next
    case False
    then show ?thesis unfolding f list.map tcp_Read_step using Cons.IH [OF False]
      by (simp add: r option.case_eq_if option.map_sel del: upt_Suc)
  qed
qed

text \<open>C36: A TCP answer is read exactly as far as it is complete: the result is what has been received
  after the first read at which the way of reading of the protocol is satisfied (some bytes, a
  line, a blank line, the length that a DNS message announces; a DNS answer without its length),
  and when no read satisfies it the reading fails.\<close>

theorem tcp_Read_complete:
  assumes "how \<noteq> ''toeof''"
  shows "tcp_Read how [] (map (\<lambda>d. (d, False)) ds) =
     (case find (\<lambda>k. complete how (received k ds)) [1..<Suc (length ds)] of
        Some k \<Rightarrow> (payload how (received k ds), False)
      | None \<Rightarrow> (received (length ds) ds, True))"
proof -
  have "\<not> complete how []" by (simp add: complete_def crlf_def)
  from tcp_Read_find [OF assms this] show ?thesis unfolding append_Nil .
qed

theorem tcp_Read_complete_witness:
  "tcp_Read ''banner'' [] (map (\<lambda>d. (d, False)) [''220 '', ''ok'' @ [CHR 0x0A], ''more'']) = (''220 ok'' @ [CHR 0x0A], False)"
proof -
  have u: "[1..<Suc (length [''220 '', ''ok'' @ [CHR 0x0A], ''more''])] = [1, 2, 3]" by (simp add: upt_rec)
  show ?thesis
    by (subst tcp_Read_complete, simp, unfold u) (simp add: complete_def received_def payload_def)
qed

text \<open>A protocol of the table without a way of reading (Telnet, Gopher, Whois) always fails.\<close>

lemma unset_readhow_fails: "snd (tcp_Read [] res cs)"
  by (induction cs arbitrary: res) (auto simp: Let_def)

section \<open>Redirects\<close>

text \<open>The request does not depend on where the redirect leads.\<close>

lemma url_fetch_location: "url_fetch parse serve freq d k f = url_fetch parse serve freq d k f'"
  by (simp add: url_fetch.simps [of parse serve freq d k] makeRequest_def url_httpSend_def)

definition redirected :: "(string \<Rightarrow> purl option) \<Rightarrow> net_env \<Rightarrow> int \<Rightarrow> url \<Rightarrow> report list \<Rightarrow> bool" where
  "redirected parse ne freq d rs \<longleftrightarrow>
     (\<exists>resp f. makeRequest ne freq d (um_File d) = (rs, Some resp) \<and> url_redirect parse (url_headers resp) = Some f \<and> f \<noteq> [])"

lemma url_fetch_redirected:
  assumes "redirected parse ne freq d rs"
  shows "k < MAXREDIRECT \<Longrightarrow>
     url_fetch parse (\<lambda>_. ne) freq d k f = Some (concat (replicate (MAXREDIRECT - k) rs) @ [RFail ''redirect loop''], None)"
proof (induction "MAXREDIRECT - k" arbitrary: k f)
  case (Suc n)
  from assms obtain resp f' where r: "makeRequest ne freq d f = (rs, Some resp)" "url_redirect parse (url_headers resp) = Some f'" "f' \<noteq> []"
    by (auto simp: redirected_def makeRequest_def url_httpSend_def)
  show ?case
  proof (cases "MAXREDIRECT \<le> Suc k")
    case True
    then have "MAXREDIRECT - k = Suc 0" using Suc.prems by simp
    then show ?thesis using r True by (simp add: url_fetch.simps [of parse _ freq d k])
  next
    case False
    then have "MAXREDIRECT - k = Suc (MAXREDIRECT - Suc k)" by simp
    moreover have "url_fetch parse (\<lambda>_. ne) freq d (Suc k) f' = Some (concat (replicate (MAXREDIRECT - Suc k) rs) @ [RFail ''redirect loop''], None)"
      using Suc(2) False by (intro Suc(1)) simp_all
    ultimately show ?thesis using r False by (simp add: url_fetch.simps [of parse _ freq d k])
  qed
qed simp

text \<open>A redirect is never followed. The request that is sent does not depend on the location of
  the redirect, so a server that answers equal requests equally is asked the same sixteen times
  and the test fails with a redirect loop, however short the way to the page is; the run ends
  there and leaves the cache alone.\<close>

theorem url_redirect_fails:
  assumes "redirected parse ne freq d rs" "url_checkCached now freq d uc = None"
  shows "url_Start parse (\<lambda>_. ne) now freq d uc = Some (concat (replicate 16 rs) @ [RFail ''redirect loop'', RDone], uc)"
  using url_fetch_redirected [OF assms(1), of 0 "um_File d"] assms(2) by (simp add: url_Start_def MAXREDIRECT_def)

definition wit_page :: string where
  "wit_page = ''HTTP/1.1 302 Found'' @ crlf @ ''Location: /new'' @ crlf @ crlf"

definition wit_net :: net_env where
  "wit_net = \<lparr>ne_addr = (''192.0.2.1'', False), ne_dial = (\<lambda>_. True), ne_write = (\<lambda>_. True), ne_reads = [(wit_page, False), ([], True)],
     ne_from = ([], 0), ne_network = [], ne_local = [], ne_remote = [], ne_rand = 0\<rparr>"

definition wit_url :: url where
  "wit_url = (url_New 0 ''TCP/URL'')\<lparr>um_URL := ''http://www.example.com/'', um_File := ''/'', um_Host := ''www.example.com''\<rparr>"

definition wit_parse :: "string \<Rightarrow> purl option" where
  "wit_parse s = Some \<lparr>pu_Scheme = [], pu_Hostname = [], pu_Port = [], pu_URI = s\<rparr>"

lemma wit_headers: "url_headers wit_page = [''HTTP/1.1 302 Found'', ''Location: /new'']"
  by code_simp

theorem url_redirect_fails_witness:
  "url_Start wit_parse (\<lambda>_. wit_net) 0 60 wit_url \<lparr>uc_web = Map.empty, uc_count = (\<lambda>_. 0)\<rparr>
   = Some (concat (replicate 16 [RNeed 60]) @ [RFail ''redirect loop'', RDone], \<lparr>uc_web = Map.empty, uc_count = (\<lambda>_. 0)\<rparr>)"
proof (rule url_redirect_fails)
  have m: "makeRequest wit_net 60 wit_url (um_File wit_url) = ([RNeed 60], Some wit_page)"
    by (simp add: makeRequest_def tcp_MakeRequest_def tcp_Connect_def tcp_Send_def reach_def wit_net_def wit_url_def url_New_def
        tcp_InitNew_def tcp_blank_def tcpProtoTab_def tproto_def tcp_protoName_def has_prefix_def split: option.split)
  have "url_redirect wit_parse (url_headers wit_page) = Some ''/new''"
    unfolding wit_headers by code_simp
  then show "redirected wit_parse wit_net 60 wit_url [RNeed 60]" using m by (auto simp: redirected_def)
  show "url_checkCached 0 60 wit_url \<lparr>uc_web = Map.empty, uc_count = (\<lambda>_. 0)\<rparr> = None"
    by (simp add: url_checkCached_def)
qed

section \<open>A round of pings\<close>

definition ended :: "(sptr \<times> report) list \<Rightarrow> sptr multiset" where
  "ended rs = mset (map fst (filter (\<lambda>(_, r). r = RDone) rs))"

definition judged :: "(sptr \<times> report) list \<Rightarrow> sptr multiset" where
  "judged rs = mset (map fst (filter (\<lambda>(_, r). is_verdict r) rs))"

definition waiting :: "underway \<Rightarrow> sptr multiset" where
  "waiting uw = mset (concat (map snd uw))"

definition reports_of :: "report \<Rightarrow> sptr list \<Rightarrow> (sptr \<times> report) list" where
  "reports_of v ss = concat (map (\<lambda>s. [(s, v), (s, RDone)]) ss)"

lemma ended_append [simp]: "ended (rs @ ss) = ended rs + ended ss" "judged (rs @ ss) = judged rs + judged ss"
  by (simp_all add: ended_def judged_def)

lemma ended_reports_of [simp]:
  "is_verdict v \<Longrightarrow> ended (reports_of v ss) = mset ss" "is_verdict v \<Longrightarrow> judged (reports_of v ss) = mset ss"
  by (induction ss) (auto simp: reports_of_def ended_def judged_def)

lemma ended_Nil [simp]: "ended [] = {#}" "judged [] = {#}" "waiting [] = {#}"
  by (simp_all add: ended_def judged_def waiting_def)

lemma waiting_append [simp]: "waiting (uw @ vw) = waiting uw + waiting vw" "waiting (x # uw) = mset (snd x) + waiting uw"
  by (simp_all add: waiting_def)

lemma waiting_join:
  "distinct (map fst uw) \<Longrightarrow> map_of uw a = Some ss \<Longrightarrow>
   waiting (map (\<lambda>(b, ss). (b, if b = a then ss @ [s] else ss)) uw) = add_mset s (waiting uw)"
proof (induction uw)
  case (Cons x uw)
  show ?case
  proof (cases "fst x = a")
    case True
    then have "map (\<lambda>(b, ss). (b, if b = a then ss @ [s] else ss)) uw = uw"
      using Cons.prems(1) by (intro map_idI) (auto simp: image_iff)
    then show ?thesis using True Cons.prems(2) by (cases x) simp
  next
    case False
    then show ?thesis using Cons by (cases x) simp
  qed
qed simp

lemma addPing_waiting:
  assumes "addPing pw (stdin, uw) = (stdin', uw')" "distinct (map fst uw)"
  shows "waiting uw' = add_mset (pw_s pw) (waiting uw)" "distinct (map fst uw')"
  using assms waiting_join [of uw "pw_ipaddr pw" _ "pw_s pw"]
  by (auto simp: addPing_def map_of_eq_None_iff comp_def split_beta split: option.splits)

lemma addMore_waiting:
  assumes "foldl (\<lambda>st pw. addPing pw st) (stdin, uw) pws = (stdin', uw')" "distinct (map fst uw)"
  shows "waiting uw' = waiting uw + mset (map pw_s pws) \<and> distinct (map fst uw')"
  using assms
proof (induction pws arbitrary: stdin uw)
  case (Cons pw pws)
  obtain si ui where a: "addPing pw (stdin, uw) = (si, ui)" by (cases "addPing pw (stdin, uw)")
  then show ?case using Cons.IH [of si ui] Cons.prems addPing_waiting [OF a] by simp
qed simp

lemma waiting_remove:
  "distinct (map fst uw) \<Longrightarrow>
   waiting uw = mset (case map_of uw a of None \<Rightarrow> [] | Some ss \<Rightarrow> ss) + waiting (filter (\<lambda>(b, _). b \<noteq> a) uw)"
proof (induction uw)
  case (Cons x uw)
  then show ?case
  proof (cases "fst x = a")
    case True
    then have "filter (\<lambda>(b, _). b \<noteq> a) uw = uw" using Cons.prems by (intro filter_True) (auto simp: image_iff)
    then show ?thesis using True by (cases x) simp
  next
    case False
    then show ?thesis using Cons by (cases x) (simp add: ac_simps)
  qed
qed simp

lemma processResult_waiting:
  assumes "ping_processResult line uw = (rs, uw')" "distinct (map fst uw)"
  shows "ended rs + waiting uw' = waiting uw" "judged rs + waiting uw' = waiting uw" "distinct (map fst uw')"
proof -
  have r: "ended rs + waiting uw' = waiting uw \<and> judged rs + waiting uw' = waiting uw"
  proof (cases "index_of (\<lambda>c. c = CHR '' '' \<or> c = CHR 0x09) line = None \<or> index_of (\<lambda>c. c = CHR ''('') line = None")
    case True
    then show ?thesis using assms(1) by (auto simp: ping_processResult_def split: option.splits)
  next
    case False
    then obtain i j where ij: "index_of (\<lambda>c. c = CHR '' '' \<or> c = CHR 0x09) line = Some i" "index_of (\<lambda>c. c = CHR ''('') line = Some j" by auto
    let ?ss = "case map_of uw (take i line) of None \<Rightarrow> [] | Some ss \<Rightarrow> ss"
    have "rs = reports_of (RCheck (fmt_f (Sscan_f32 (drop (Suc j) line))) ''string'') ?ss" "uw' = filter (\<lambda>(a, _). a \<noteq> take i line) uw"
      using assms(1) by (simp_all add: ping_processResult_def ij Let_def reports_of_def)
    then show ?thesis using waiting_remove [OF assms(2), of "take i line"] by simp
  qed
  then show "ended rs + waiting uw' = waiting uw" "judged rs + waiting uw' = waiting uw" by simp_all
  show "distinct (map fst uw')"
    using assms distinct_map_filter [of fst uw] by (auto simp: ping_processResult_def Let_def split: option.splits)
qed

lemma ping_lines_waiting:
  assumes "ping_lines ls uw = (rs, uw')" "distinct (map fst uw)"
  shows "ended rs + waiting uw' = waiting uw \<and> judged rs + waiting uw' = waiting uw"
  using assms
proof (induction ls arbitrary: uw rs uw')
  case (Cons l ls)
  obtain r1 u1 where p: "ping_processResult l uw = (r1, u1)" by (cases "ping_processResult l uw")
  obtain r2 u2 where q: "ping_lines ls u1 = (r2, u2)" by (cases "ping_lines ls u1")
  show ?case using processResult_waiting [OF p Cons.prems(2)] Cons.IH [OF q] Cons.prems(1) p q
    by (auto simp: add.assoc)
qed simp

lemma no_response_all: "ended (no_response uw) = waiting uw" "judged (no_response uw) = waiting uw"
proof -
  have n: "no_response uw = concat (map (\<lambda>x. reports_of (RFail ''no response'') (snd x)) uw)"
    unfolding no_response_def by (induction uw) (auto simp: reports_of_def)
  show "ended (no_response uw) = waiting uw" "judged (no_response uw) = waiting uw"
    unfolding n by (induction uw) simp_all
qed

text \<open>C25: A round of pings answers everybody. When \<open>fping\<close> runs, whatever it prints (nothing, lines
  that cannot be read, addresses nobody asked for, an address twice), every service whose work was
  taken gets one verdict and one end for each time it asked, nobody else gets any, and the lock is
  released for the next worker.\<close>

theorem ping_answers_all:
  assumes "ping True output pw works = (rs, locked)"
  shows "ended rs = mset (map pw_s (pw # take 250 works)) \<and> judged rs = mset (map pw_s (pw # take 250 works)) \<and> \<not> locked"
proof -
  obtain si ui where a: "addPing pw ([], []) = (si, ui)" by (cases "addPing pw ([], [])")
  obtain s2 u2 where b: "addMore works (si, ui) = (s2, u2)" by (cases "addMore works (si, ui)")
  obtain r3 u3 where c: "ping_lines (output s2) u2 = (r3, u3)" by (cases "ping_lines (output s2) u2")
  have w1: "waiting ui = {#pw_s pw#}" "distinct (map fst ui)" using addPing_waiting [OF a] by simp_all
  have w2: "waiting u2 = {#pw_s pw#} + mset (map pw_s (take 250 works))" "distinct (map fst u2)"
    using addMore_waiting [of si ui "take MAXPING works" s2 u2] b w1 by (simp_all add: addMore_def MAXPING_def)
  have "rs = r3 @ no_response u3" "\<not> locked" using assms a b c by (simp_all add: ping_def)
  then show ?thesis using ping_lines_waiting [OF c w2(2)] w2(1) by (simp add: no_response_all)
qed

theorem ping_answers_all_witness:
  "ended (fst (ping True (\<lambda>_. [''192.0.2.1 (0.5 ms)'']) \<lparr>pw_ipaddr = ''192.0.2.1'', pw_s = 1\<rparr> [\<lparr>pw_ipaddr = ''192.0.2.2'', pw_s = 2\<rparr>]))
   = {#1, 2#}"
  using ping_answers_all [of "\<lambda>_. [''192.0.2.1 (0.5 ms)'']" "\<lparr>pw_ipaddr = ''192.0.2.1'', pw_s = 1\<rparr>" "[\<lparr>pw_ipaddr = ''192.0.2.2'', pw_s = 2\<rparr>]"]
  by (simp add: prod_eq_iff)

text \<open>When \<open>fping\<close> cannot be started, the service gets no end and the lock stays taken.\<close>

lemma ping_not_started: "ping False output pw works = ([], True)"
  by (simp add: ping_def)

section \<open>Configurations that panic\<close>

text \<open>The documented form of a DNS service with a query and a zone, and an object identifier with an
  open bracket.\<close>

lemma dns_three_parts_panic: "configDNS ''DNS/NS/example.com'' initcf d = None"
proof -
  have "splitn3 (trim_prefix (trim_prefix ''DNS/NS/example.com'' ''TCP/'') ''UDP/'') = [''DNS'', ''NS'', ''example.com'']"
    by code_simp
  then show ?thesis unfolding configDNS_def by (simp add: elem_at_def Let_def)
qed

lemma oid_open_bracket_panics: "parseOid oids ''ifInOctets['' = None"
proof -
  have "index_of (\<lambda>c. c = CHR ''['') ''ifInOctets['' = Some 10" by code_simp
  then show ?thesis by (simp add: parseOid_def go_slice_def)
qed

end
