(* ===== verification/Web.thy ===== *)
theory Web
  imports Api Service "HOL-Library.AList"
begin

text \<open>
  Users, sessions and the dispatch of web requests: \<open>users/users.go\<close>, \<open>web/session.go\<close>,
  \<open>web/login.go\<close> and \<open>web/web.go\<close>. The two maps are association lists; what the files on disk
  would give when loaded is part of the state (a file that was saved loads as what was saved,
  \<open>Load_Save\<close>). Password hashing, the clock and the random cookie and token (already encoded)
  are in the environment. A result \<^const>\<open>None\<close> is a panic, of loading a file.
\<close>

section \<open>State\<close>

record user =
  us_Name :: string
  us_EPasswd :: string
  us_Home :: string
  us_Groups :: string

record session =
  ss_Name :: string
  ss_XSRFToken :: string
  ss_Expires :: int
  ss_Hush :: int

record web_state =
  ws_users :: "(string \<times> user) list"
  ws_sessions :: "(string \<times> session) list"
  ws_userfile :: "(string \<times> user) list loaded"
  ws_sessfile :: "(string \<times> session) list loaded"
  ws_datadir :: string

record web_env =
  we_now :: int
  we_nano :: int
  we_ck :: string
  we_tok :: string
  we_compare :: "string \<Rightarrow> string \<Rightarrow> bool"  \<comment> \<open>\<open>bcrypt.CompareHashAndPassword\<close>\<close>
  we_gen :: "string \<Rightarrow> string"               \<comment> \<open>\<open>bcrypt.GenerateFromPassword\<close>\<close>
  we_saves :: bool                            \<comment> \<open>the files can be written\<close>

text \<open>Loading into a map keeps the entries that it has.\<close>

definition load_into :: "(string \<times> 'a) list loaded \<Rightarrow> (string \<times> 'a) list \<Rightarrow> (string \<times> 'a) list option" where
  "load_into f al =
     (case f of LoadPanic \<Rightarrow> None | LoadError \<Rightarrow> Some al | Loaded v \<Rightarrow> Some (AList.updates (map fst v) (map snd v) al))"

section \<open>Users\<close>

definition users_load :: "web_state \<Rightarrow> web_state option" where
  "users_load st =
     (if ws_datadir st = [] then Some st
      else map_option (\<lambda>us. st\<lparr>ws_users := us\<rparr>) (load_into (ws_userfile st) (ws_users st)))"

definition users_save :: "web_env \<Rightarrow> web_state \<Rightarrow> web_state" where
  "users_save env st =
     (if ws_datadir st = [] \<or> \<not> we_saves env then st else st\<lparr>ws_userfile := Loaded (ws_users st)\<rparr>)"

definition users_loaded :: "web_state \<Rightarrow> web_state option" where
  "users_loaded st = (if ws_users st = [] then users_load st else Some st)"

definition users_Get :: "string \<Rightarrow> web_state \<Rightarrow> (user option \<times> web_state) option" where
  "users_Get name st = map_option (\<lambda>st. (map_of (ws_users st) name, st)) (users_loaded st)"

definition users_Update :: "web_env \<Rightarrow> user \<Rightarrow> web_state \<Rightarrow> web_state" where
  "users_Update env u st = users_save env (st\<lparr>ws_users := AList.update (us_Name u) u (ws_users st)\<rparr>)"

definition users_remove :: "web_env \<Rightarrow> user \<Rightarrow> web_state \<Rightarrow> web_state" where
  "users_remove env u st = users_save env (st\<lparr>ws_users := AList.delete (us_Name u) (ws_users st)\<rparr>)"

definition users_List :: "web_state \<Rightarrow> (string list \<times> web_state) option" where
  "users_List st = map_option (\<lambda>st. (map fst (ws_users st), st)) (users_loaded st)"

definition CheckPasswd :: "web_env \<Rightarrow> user \<Rightarrow> string \<Rightarrow> bool" where
  "CheckPasswd env u pass = we_compare env (us_EPasswd u) pass"

definition CheckUserPasswd :: "web_env \<Rightarrow> string \<Rightarrow> string \<Rightarrow> web_state \<Rightarrow> (user option \<times> web_state) option" where
  "CheckUserPasswd env name pass st =
     map_option (\<lambda>(u, st). case u of
        None \<Rightarrow> (None, st)
      | Some u \<Rightarrow> (if CheckPasswd env u pass then Some u else None, st)) (users_Get name st)"

definition apiSetUser :: "web_env \<Rightarrow> api_ctx \<Rightarrow> web_state \<Rightarrow> (api_ctx \<times> web_state) option" where
  "apiSetUser env ctx st =
     (let name = ctx_arg ctx ''user'' in
      if name = [] then Some (SendResponseFinal 500 ''must specify user'' ctx, st)
      else map_option (\<lambda>(u, st).
        let u = (case u of Some u \<Rightarrow> u | None \<Rightarrow> \<lparr>us_Name = name, us_EPasswd = [], us_Home = ''Top'', us_Groups = ''user''\<rparr>);
            p = ctx_arg ctx ''pass''; h = ctx_arg ctx ''home''; g = ctx_arg ctx ''groups'';
            u = (if p = [] then u else u\<lparr>us_EPasswd := we_gen env p\<rparr>);
            u = (if h = [] then u else u\<lparr>us_Home := h\<rparr>);
            u = (if g = [] then u else u\<lparr>us_Groups := g\<rparr>)
        in (SendOKFinal ctx, users_Update env u st)) (users_Get name st))"

text \<open>\<open>dump\<close> is \<open>argus.Dump\<close>, the lines of the fields.\<close>

definition apiGetUser :: "(user \<Rightarrow> string) \<Rightarrow> api_ctx \<Rightarrow> web_state \<Rightarrow> (api_ctx \<times> web_state) option" where
  "apiGetUser dump ctx st =
     (let name = ctx_arg ctx ''user'' in
      if name = [] then Some (SendResponseFinal 500 ''must specify user'' ctx, st)
      else map_option (\<lambda>(u, st). case u of
          None \<Rightarrow> (Send404 ctx, st)
        | Some u \<Rightarrow> (SendFinal (api_Send (dump u) (SendOK ctx)), st)) (users_Get name st))"

definition apiDelUser :: "web_env \<Rightarrow> api_ctx \<Rightarrow> web_state \<Rightarrow> (api_ctx \<times> web_state) option" where
  "apiDelUser env ctx st =
     (let name = ctx_arg ctx ''user'' in
      if name = [] then Some (SendResponseFinal 500 ''must specify user'' ctx, st)
      else map_option (\<lambda>(u, st).
        (SendOKFinal ctx, case u of None \<Rightarrow> st | Some u \<Rightarrow> users_remove env u st)) (users_Get name st))"

definition apiListUsers :: "api_ctx \<Rightarrow> web_state \<Rightarrow> (api_ctx \<times> web_state) option" where
  "apiListUsers ctx st =
     map_option (\<lambda>(us, st). (SendFinal (foldl (\<lambda>ctx u. api_Send [CHR 0x0A] (api_Send u ctx)) (SendOK ctx) us), st)) (users_List st)"

section \<open>Sessions\<close>

datatype web_out = WStatus int | WRedirect string | WCookie string

record web_ctx =
  wx_User :: "user option"
  wx_XSRFToken :: string
  wx_Hush :: int
  wx_cookie :: "string option"
  wx_form :: "string \<Rightarrow> string"
  wx_out :: "web_out list"

definition EXPIRES :: int where "EXPIRES = 30 * 24 * 3600"

definition sess_cleanup :: "web_env \<Rightarrow> web_state \<Rightarrow> web_state" where
  "sess_cleanup env st = st\<lparr>ws_sessions := filter (\<lambda>(_, s). \<not> ss_Expires s < we_now env) (ws_sessions st)\<rparr>"

definition sess_load :: "web_env \<Rightarrow> web_state \<Rightarrow> web_state option" where
  "sess_load env st =
     (if ws_datadir st = [] then Some st
      else map_option (\<lambda>ss. sess_cleanup env (st\<lparr>ws_sessions := ss\<rparr>)) (load_into (ws_sessfile st) (ws_sessions st)))"

definition sess_save :: "web_env \<Rightarrow> web_state \<Rightarrow> web_state" where
  "sess_save env st =
     (if ws_datadir st = [] then st
      else let st = sess_cleanup env st
           in if we_saves env then st\<lparr>ws_sessfile := Loaded (ws_sessions st)\<rparr> else st)"

definition web_write :: "web_out \<Rightarrow> web_ctx \<Rightarrow> web_ctx" where
  "web_write x ctx = ctx\<lparr>wx_out := wx_out ctx @ [x]\<rparr>"

definition NewSession :: "web_env \<Rightarrow> string \<Rightarrow> web_ctx \<Rightarrow> web_state \<Rightarrow> (web_ctx \<times> web_state) option" where
  "NewSession env name ctx st =
     (let sess = \<lparr>ss_Name = name, ss_XSRFToken = we_tok env, ss_Expires = we_now env + EXPIRES, ss_Hush = 0\<rparr>;
          ctx = web_write (WCookie (we_ck env)) ctx
      in map_option (\<lambda>st. (ctx, sess_save env (st\<lparr>ws_sessions := AList.update (we_ck env) sess (ws_sessions st)\<rparr>)))
           (if ws_sessions st = [] then sess_load env st else Some st))"

definition GetSession :: "web_env \<Rightarrow> web_ctx \<Rightarrow> web_state \<Rightarrow> (web_ctx \<times> web_state) option" where
  "GetSession env ctx st =
     (case wx_cookie ctx of
        None \<Rightarrow> Some (ctx, st)
      | Some ck \<Rightarrow>
          (case map_of (ws_sessions st) ck of
             None \<Rightarrow> Some (ctx, st)
           | Some s \<Rightarrow>
               if ss_Expires s < we_now env then Some (ctx, st)
               else map_option (\<lambda>(u, st). case u of
                  None \<Rightarrow> (ctx, st)
                | Some u \<Rightarrow> (ctx\<lparr>wx_User := Some u, wx_XSRFToken := ss_XSRFToken s, wx_Hush := ss_Hush s\<rparr>, st))
                 (users_Get (ss_Name s) st)))"

definition DelSession :: "web_env \<Rightarrow> web_ctx \<Rightarrow> web_state \<Rightarrow> web_state" where
  "DelSession env ctx st =
     (case wx_cookie ctx of
        None \<Rightarrow> st
      | Some ck \<Rightarrow> sess_save env (st\<lparr>ws_sessions := AList.delete ck (ws_sessions st)\<rparr>))"

definition web_Hush :: "web_env \<Rightarrow> web_ctx \<Rightarrow> web_state \<Rightarrow> web_state" where
  "web_Hush env ctx st =
     (case wx_cookie ctx of
        None \<Rightarrow> st
      | Some ck \<Rightarrow>
          (case map_of (ws_sessions st) ck of
             None \<Rightarrow> st
           | Some s \<Rightarrow> sess_save env (st\<lparr>ws_sessions := AList.update ck (s\<lparr>ss_Hush := we_nano env\<rparr>) (ws_sessions st)\<rparr>)))"

section \<open>Dispatch\<close>

datatype authreq = PUBLIC | PRIVATE | WRITE

type_synonym web_handler = "web_ctx \<Rightarrow> web_state \<Rightarrow> (web_ctx \<times> web_state) option"

definition web_fresh :: "web_ctx \<Rightarrow> web_ctx" where
  "web_fresh ctx = ctx\<lparr>wx_User := None, wx_XSRFToken := [], wx_Hush := 0, wx_out := []\<rparr>"

text \<open>The context with its session, and whether the handler is called.\<close>

definition admit :: "web_env \<Rightarrow> authreq \<Rightarrow> web_ctx \<Rightarrow> web_state \<Rightarrow> (web_ctx \<times> bool \<times> web_state) option" where
  "admit env authreq ctx st =
     map_option (\<lambda>(ctx, st).
       (ctx, \<not> (authreq \<noteq> PUBLIC \<and> wx_User ctx = None) \<and> \<not> (authreq = WRITE \<and> wx_form ctx ''xtok'' \<noteq> wx_XSRFToken ctx), st))
     (GetSession env (web_fresh ctx) st)"

text \<open>A request: a panic of the handler is recovered, the state is then as before it.\<close>

definition httpAdapt :: "web_env \<Rightarrow> authreq \<Rightarrow> web_handler \<Rightarrow> web_ctx \<Rightarrow> web_state \<Rightarrow> (web_ctx \<times> web_state) option" where
  "httpAdapt env authreq f ctx st =
     map_option (\<lambda>(ctx, ok, st).
       if \<not> ok then (web_write (WStatus 403) ctx, st)
       else case f ctx st of None \<Rightarrow> (ctx, st) | Some r \<Rightarrow> r) (admit env authreq ctx st)"

section \<open>Login\<close>

definition home_page :: "user \<Rightarrow> string" where
  "home_page u = ''/view/home?obj='' @ (if us_Home u = [] then ''Top'' else us_Home u)"

definition webHome :: web_handler where
  "webHome ctx st =
     Some (case wx_User ctx of
        Some u \<Rightarrow> web_write (WRedirect (home_page u)) ctx
      | None \<Rightarrow> web_write (WRedirect ''/view/login'') ctx, st)"

definition webLogin1 :: "web_env \<Rightarrow> web_handler" where
  "webLogin1 env ctx st =
     (let name = wx_form ctx ''name''; pass = wx_form ctx ''pass''; next = wx_form ctx ''next'' in
      case CheckUserPasswd env name pass st of
        None \<Rightarrow> None
      | Some (None, st) \<Rightarrow> Some (web_write (WRedirect ''/view/login?fail=1'') ctx, st)
      | Some (Some u, st) \<Rightarrow>
          map_option (\<lambda>(ctx, st).
            (web_write (WRedirect (if next = [] then home_page u else next)) (ctx\<lparr>wx_User := Some u\<rparr>), st))
          (NewSession env name ctx st))"

definition webLogout :: "web_env \<Rightarrow> web_handler" where
  "webLogout env ctx st = Some (web_write (WRedirect ''/view/login'') ctx, DelSession env ctx st)"

definition webHush :: "web_env \<Rightarrow> web_handler" where
  "webHush env ctx st = Some (ctx, web_Hush env ctx st)"

definition web_Init :: "web_env \<Rightarrow> web_state \<Rightarrow> web_state option" where
  "web_Init env st = sess_load env st"

text \<open>The routes of this package.\<close>

definition web_routes :: "web_env \<Rightarrow> (string \<times> authreq \<times> web_handler) list" where
  "web_routes env = [
    (''/'', PUBLIC, webHome), (''/login-1'', PUBLIC, webLogin1 env), (''/logout'', PRIVATE, webLogout env), (''/hush'', PRIVATE, webHush env)]"

text \<open>The handler of a path; the root takes every path that no other pattern matches. The pages of
  other packages are not among them: they leave the users and sessions alone.\<close>

definition web_route :: "web_env \<Rightarrow> string \<Rightarrow> authreq \<times> web_handler" where
  "web_route env path = (case map_of (web_routes env) path of None \<Rightarrow> (PUBLIC, webHome) | Some r \<Rightarrow> r)"

definition web_serve :: "web_env \<Rightarrow> string \<Rightarrow> web_ctx \<Rightarrow> web_state \<Rightarrow> (web_ctx \<times> web_state) option" where
  "web_serve env path ctx st = (case web_route env path of (a, f) \<Rightarrow> httpAdapt env a f ctx st)"

end
