(* ===== verification/WebFacts.thy ===== *)
theory WebFacts
  imports Web
begin

text \<open>
  Who gets in: a handler that needs a user is only called with a cookie that a login with a correct
  password was given, until it expires; and a session that was logged out does not come back.
\<close>

section \<open>Events\<close>

datatype web_event =
    EvServe web_env string web_ctx
  | EvSetUser web_env api_ctx
  | EvDelUser web_env api_ctx
  | EvGetUser api_ctx
  | EvListUsers api_ctx
  | EvInit web_env
  | EvRestart web_env

fun web_step :: "web_event \<Rightarrow> web_state \<Rightarrow> web_state" where
  "web_step (EvServe env path ctx) st = (case web_serve env path ctx st of None \<Rightarrow> st | Some (_, st) \<Rightarrow> st)"
| "web_step (EvSetUser env ctx) st = (case apiSetUser env ctx st of None \<Rightarrow> st | Some (_, st) \<Rightarrow> st)"
| "web_step (EvDelUser env ctx) st = (case apiDelUser env ctx st of None \<Rightarrow> st | Some (_, st) \<Rightarrow> st)"
| "web_step (EvGetUser ctx) st = (case apiGetUser (\<lambda>_. []) ctx st of None \<Rightarrow> st | Some (_, st) \<Rightarrow> st)"
| "web_step (EvListUsers ctx) st = (case apiListUsers ctx st of None \<Rightarrow> st | Some (_, st) \<Rightarrow> st)"
| "web_step (EvInit env) st = (case web_Init env st of None \<Rightarrow> st | Some st \<Rightarrow> st)"
| "web_step (EvRestart env) st =
     (case web_Init env (st\<lparr>ws_users := [], ws_sessions := []\<rparr>) of None \<Rightarrow> st\<lparr>ws_users := [], ws_sessions := []\<rparr> | Some st \<Rightarrow> st)"

text \<open>What a login needs, from the state alone: the name has an entry (in memory, or in the file while
  nothing is in memory) and the password that was sent compares with the entry's.\<close>

definition account :: "web_state \<Rightarrow> string \<Rightarrow> user option" where
  "account st name =
     (if ws_users st \<noteq> [] then map_of (ws_users st) name
      else if ws_datadir st = [] then None
      else case ws_userfile st of Loaded us \<Rightarrow> map_of (rev us) name | _ \<Rightarrow> None)"

definition right_password :: "web_env \<Rightarrow> web_ctx \<Rightarrow> web_state \<Rightarrow> bool" where
  "right_password env ctx st =
     (case account st (wx_form ctx ''name'') of
        None \<Rightarrow> False
      | Some u \<Rightarrow> we_compare env (us_EPasswd u) (wx_form ctx ''pass''))"

text \<open>The cookie, the user and the time of a login whose password was right.\<close>

fun granted :: "web_event \<Rightarrow> web_state \<Rightarrow> (string \<times> string \<times> int) list" where
  "granted (EvServe env path ctx) st =
     (if path = ''/login-1'' \<and> right_password env ctx st then [(we_ck env, wx_form ctx ''name'', we_now env)] else [])"
| "granted _ st = []"

fun web_run :: "web_event list \<Rightarrow> web_state \<Rightarrow> web_state" where
  "web_run [] st = st"
| "web_run (e # es) st = web_run es (web_step e st)"

fun grants :: "web_event list \<Rightarrow> web_state \<Rightarrow> (string \<times> string \<times> int) list" where
  "grants [] st = []"
| "grants (e # es) st = granted e st @ grants es (web_step e st)"

section \<open>What every event keeps of the sessions\<close>

definition file_sessions :: "web_state \<Rightarrow> (string \<times> session) set" where
  "file_sessions st = (if ws_datadir st = [] then {} else case ws_sessfile st of Loaded v \<Rightarrow> set v | _ \<Rightarrow> {})"

text \<open>All sessions, in memory and on disk, satisfy \<open>P\<close>.\<close>

definition all_sessions :: "(string \<Rightarrow> session \<Rightarrow> bool) \<Rightarrow> web_state \<Rightarrow> bool" where
  "all_sessions P st \<longleftrightarrow> (\<forall>(ck, s) \<in> set (ws_sessions st) \<union> file_sessions st. P ck s)"

text \<open>A predicate that does not look at the time of the last hush.\<close>

definition hush_free :: "(string \<Rightarrow> session \<Rightarrow> bool) \<Rightarrow> bool" where
  "hush_free P \<longleftrightarrow> (\<forall>ck s h. P ck (s\<lparr>ss_Hush := h\<rparr>) = P ck s)"

lemma set_update: "set (AList.update k v al) \<subseteq> insert (k, v) (set al)"
  by (induction al) auto

lemma set_updates: "set (AList.updates ks vs al) \<subseteq> set (zip ks vs) \<union> set al"
proof (induction ks arbitrary: vs al)
  case (Cons k ks)
  then show ?case
  proof (cases vs)
    case (Cons v vs')
    then show ?thesis using Cons.IH [of vs' "AList.update k v al"] set_update [of k v al] by auto
  qed (simp add: AList.updates_def)
qed (simp add: AList.updates_def)

lemma set_delete: "set (AList.delete k al) \<subseteq> set al"
  by (auto simp: AList.delete_eq)

lemma all_sessions_mono:
  assumes "all_sessions P st" "set (ws_sessions st') \<subseteq> set (ws_sessions st) \<union> file_sessions st" "file_sessions st' \<subseteq> set (ws_sessions st) \<union> file_sessions st"
  shows "all_sessions P st'"
  using assms by (fastforce simp: all_sessions_def)

text \<open>The user operations do not touch the sessions.\<close>

definition same_sessions :: "web_state \<Rightarrow> web_state \<Rightarrow> bool" where
  "same_sessions st st' \<longleftrightarrow> ws_sessions st' = ws_sessions st \<and> ws_sessfile st' = ws_sessfile st \<and> ws_datadir st' = ws_datadir st"

lemma same_sessions_trans: "same_sessions a b \<Longrightarrow> same_sessions b c \<Longrightarrow> same_sessions a c"
  by (simp add: same_sessions_def)

lemma same_sessions_refl [simp]: "same_sessions st st"
  by (simp add: same_sessions_def)

lemma same_sessions_all: "same_sessions st st' \<Longrightarrow> all_sessions P st' = all_sessions P st"
  by (simp add: same_sessions_def all_sessions_def file_sessions_def)

lemma users_Get_same: "users_Get name st = Some (u, st') \<Longrightarrow> same_sessions st st'"
  by (auto simp: users_Get_def users_loaded_def users_load_def same_sessions_def split: if_splits)

lemma users_save_same: "same_sessions st (users_save env st)"
  by (simp add: users_save_def same_sessions_def)

lemma user_change_same: "same_sessions st (users_Update env u st)" "same_sessions st (users_remove env u st)"
  using users_save_same by (auto simp: users_Update_def users_remove_def same_sessions_def users_save_def)

lemma CheckUserPasswd_same: "CheckUserPasswd env n p st = Some (u, st') \<Longrightarrow> same_sessions st st'"
  by (auto simp: CheckUserPasswd_def dest!: users_Get_same split: option.splits)

lemma apis_same:
  "apiSetUser env ctx st = Some (c, st') \<Longrightarrow> same_sessions st st'" "apiDelUser env ctx st = Some (c, st') \<Longrightarrow> same_sessions st st'"
  "apiGetUser dump ctx st = Some (c, st') \<Longrightarrow> same_sessions st st'" "apiListUsers ctx st = Some (c, st') \<Longrightarrow> same_sessions st st'"
  by (auto simp: apiSetUser_def apiDelUser_def apiGetUser_def apiListUsers_def users_List_def users_loaded_def users_load_def Let_def
      dest!: users_Get_same intro: same_sessions_trans user_change_same split: if_splits option.splits)
    (auto simp: same_sessions_def users_remove_def users_Update_def users_save_def)

lemma GetSession_same: "GetSession env ctx st = Some (c, st') \<Longrightarrow> same_sessions st st'"
  by (auto simp: GetSession_def dest!: users_Get_same split: option.splits if_splits)

text \<open>Loading the users does not change the accounts, and a login that the code accepts is right.\<close>

lemma map_of_updates_rev: "map_of (AList.updates (map fst v) (map snd v) al) k = (case map_of (rev v) k of None \<Rightarrow> map_of al k | Some x \<Rightarrow> Some x)"
proof (induction v arbitrary: al)
  case (Cons x v)
  then show ?case by (cases x) (auto simp: update_conv' split: option.splits)
qed (simp add: AList.updates_def)

lemma account_loaded: "users_loaded st = Some st' \<Longrightarrow> account st name = map_of (ws_users st') name"
  by (auto simp: users_loaded_def users_load_def load_into_def account_def map_of_updates_rev split: if_splits loaded.splits option.splits)

lemma account_users: "users_loaded st = Some st' \<Longrightarrow> account st' name = account st name"
  by (frule account_loaded [of st st' name])
    (auto simp: users_loaded_def users_load_def load_into_def account_def split: if_splits loaded.splits)

lemma GetSession_account: "GetSession env ctx st = Some (c, st') \<Longrightarrow> account st' name = account st name"
  by (auto simp: GetSession_def users_Get_def split: option.splits if_splits intro: account_users)

lemma accepted_right:
  assumes "CheckUserPasswd env name pass st = Some (Some u, st')"
  shows "account st name = Some u" "we_compare env (us_EPasswd u) pass"
  using assms account_loaded [of st st' name]
  by (auto simp: CheckUserPasswd_def CheckPasswd_def users_Get_def split: option.splits if_splits)

lemma cleanup_all: "all_sessions P st \<Longrightarrow> all_sessions P (sess_cleanup env st)"
  by (rule all_sessions_mono) (auto simp: sess_cleanup_def file_sessions_def)

lemma save_all: "all_sessions P st \<Longrightarrow> all_sessions P (sess_save env st)"
  by (rule all_sessions_mono, assumption) (auto simp: sess_save_def sess_cleanup_def file_sessions_def Let_def)

lemma load_all: "all_sessions P st \<Longrightarrow> sess_load env st = Some st' \<Longrightarrow> all_sessions P st'"
proof -
  assume a: "all_sessions P st" and l: "sess_load env st = Some st'"
  show ?thesis
  proof (cases "ws_datadir st = []")
    case False
    then obtain ss where ss: "load_into (ws_sessfile st) (ws_sessions st) = Some ss" "st' = sess_cleanup env (st\<lparr>ws_sessions := ss\<rparr>)"
      using l by (auto simp: sess_load_def)
    have "set ss \<subseteq> set (ws_sessions st) \<union> file_sessions st"
      using ss(1) False set_updates [of "map fst _" "map snd _" "ws_sessions st"]
      by (cases "ws_sessfile st") (fastforce simp: load_into_def file_sessions_def zip_map_fst_snd)+
    then have "all_sessions P (st\<lparr>ws_sessions := ss\<rparr>)"
      by (intro all_sessions_mono [OF a]) (auto simp: file_sessions_def)
    then show ?thesis unfolding ss(2) by (rule cleanup_all)
  qed (use a l in \<open>simp add: sess_load_def\<close>)
qed

lemma put_all:
  assumes "all_sessions P st" "P ck s"
  shows "all_sessions P (st\<lparr>ws_sessions := AList.update ck s (ws_sessions st)\<rparr>)"
  using assms set_update [of ck s "ws_sessions st"] by (fastforce simp: all_sessions_def file_sessions_def)

lemma DelSession_all: "all_sessions P st \<Longrightarrow> all_sessions P (DelSession env ctx st)"
proof -
  assume a: "all_sessions P st"
  have "all_sessions P (st\<lparr>ws_sessions := AList.delete ck (ws_sessions st)\<rparr>)" for ck
    using set_delete [of ck "ws_sessions st"] by (intro all_sessions_mono [OF a]) (auto simp: file_sessions_def)
  then show ?thesis using a by (auto simp: DelSession_def intro: save_all split: option.split)
qed

lemma Hush_all: "all_sessions P st \<Longrightarrow> hush_free P \<Longrightarrow> all_sessions P (web_Hush env ctx st)"
proof -
  assume a: "all_sessions P st" and h: "hush_free P"
  have "P ck (s\<lparr>ss_Hush := we_nano env\<rparr>)" if "map_of (ws_sessions st) ck = Some s" for ck s
    using a h map_of_SomeD [OF that] by (auto simp: all_sessions_def hush_free_def)
  then show ?thesis using a by (auto simp: web_Hush_def intro: save_all put_all split: option.split)
qed

lemma NewSession_all:
  assumes "all_sessions P st" "NewSession env name ctx st = Some (c, st')"
    and "P (we_ck env) \<lparr>ss_Name = name, ss_XSRFToken = we_tok env, ss_Expires = we_now env + EXPIRES, ss_Hush = 0\<rparr>"
  shows "all_sessions P st'"
proof -
  obtain st1 where "(if ws_sessions st = [] then sess_load env st else Some st) = Some st1"
      "st' = sess_save env (st1\<lparr>ws_sessions := AList.update (we_ck env)
         \<lparr>ss_Name = name, ss_XSRFToken = we_tok env, ss_Expires = we_now env + EXPIRES, ss_Hush = 0\<rparr> (ws_sessions st1)\<rparr>)"
    using assms(2) by (auto simp: NewSession_def Let_def)
  moreover have "all_sessions P st1" using calculation(1) assms(1) by (auto intro: load_all split: if_splits)
  ultimately show ?thesis using assms(3) by (simp add: save_all put_all)
qed

text \<open>An event keeps a property of all sessions that the new session, if there is one, has.\<close>

lemma web_step_all:
  assumes a: "all_sessions P st" and h: "hush_free P"
    and new: "\<And>ck name t tok. (ck, name, t) \<in> set (granted e st) \<Longrightarrow> P ck \<lparr>ss_Name = name, ss_XSRFToken = tok, ss_Expires = t + EXPIRES, ss_Hush = 0\<rparr>"
  shows "all_sessions P (web_step e st)"
proof (cases e)
  case (EvServe env path ctx)
  show ?thesis
  proof (cases "web_serve env path ctx st")
    case (Some r)
    obtain c st' where r: "r = (c, st')" by (cases r)
    obtain au f where 2: "web_route env path = (au, f)" by force
    have "all_sessions P st'"
    proof -
      obtain c1 ok st1 where ad: "admit env au ctx st = Some (c1, ok, st1)"
        using Some 2 by (cases "admit env au ctx st") (auto simp: web_serve_def httpAdapt_def)
      then obtain st0 c0 where g: "GetSession env (web_fresh ctx) st = Some (c0, st0)" "c1 = c0" "st1 = st0" by (auto simp: admit_def)
      have a1: "all_sessions P st1" using same_sessions_all [OF GetSession_same [OF g(1)]] a g(3) by simp
      have form: "wx_form c1 = wx_form ctx"
        using g by (auto simp: GetSession_def web_fresh_def split: option.splits if_splits)
      have out: "st' = st1 \<or> (ok \<and> (\<exists>c'. f c1 st1 = Some (c', st')))"
        using Some 2 ad r by (auto simp: web_serve_def httpAdapt_def split: if_splits option.splits)
      have "all_sessions P st''" if f: "f c1 st1 = Some (c', st'')" for c' st''
      proof -
        consider "f = webHome" | "f = webLogin1 env" "path = ''/login-1''" | "f = webLogout env" | "f = webHush env"
          using 2 by (auto simp: web_route_def web_routes_def split: if_splits)
        then show ?thesis
        proof cases
          case 1
          then show ?thesis using f a1 by (simp add: webHome_def)
        next
          case 2
          obtain u st2 where u: "CheckUserPasswd env (wx_form ctx ''name'') (wx_form ctx ''pass'') st1 = Some (u, st2)"
            using f 2 form by (cases "CheckUserPasswd env (wx_form ctx ''name'') (wx_form ctx ''pass'') st1") (auto simp: webLogin1_def Let_def)
          have a2: "all_sessions P st2" using same_sessions_all [OF CheckUserPasswd_same [OF u]] a1 by simp
          show ?thesis
          proof (cases u)
            case None
            then show ?thesis using f 2 u a2 form by (simp add: webLogin1_def Let_def)
          next
            case (Some uu)
            have gr: "(we_ck env, wx_form ctx ''name'', we_now env) \<in> set (granted e st)"
              using EvServe 2 accepted_right [OF u [unfolded Some]] GetSession_account [OF g(1)] g(3)
              by (simp add: right_password_def)
            obtain cc where "NewSession env (wx_form ctx ''name'') c1 st2 = Some (cc, st'')"
              using f 2 u Some form by (auto simp: webLogin1_def Let_def)
            from NewSession_all [OF a2 this new [OF gr]] show ?thesis .
          qed
        next
          case 3
          then show ?thesis using f a1 by (auto simp: webLogout_def DelSession_all)
        next
          case 4
          then show ?thesis using f a1 h by (auto simp: webHush_def Hush_all)
        qed
      qed
      then show ?thesis using out a1 by auto
    qed
    then show ?thesis using EvServe Some r by simp
  qed (use EvServe a in simp)
next
  case (EvRestart env)
  have "all_sessions P (st\<lparr>ws_users := [], ws_sessions := []\<rparr>)" by (rule all_sessions_mono [OF a]) (auto simp: file_sessions_def)
  then show ?thesis using EvRestart load_all by (auto simp: web_Init_def split: option.split)
next
  case (EvInit env)
  then show ?thesis using a load_all [OF a] by (auto simp: web_Init_def split: option.split)
qed (use a in \<open>auto simp: same_sessions_all dest!: apis_same split: option.split\<close>)

section \<open>Who gets in\<close>

lemma web_run_all:
  assumes "all_sessions P st" "hush_free P"
    and "\<And>ck name t tok. (ck, name, t) \<in> set (grants es st) \<Longrightarrow> P ck \<lparr>ss_Name = name, ss_XSRFToken = tok, ss_Expires = t + EXPIRES, ss_Hush = 0\<rparr>"
  shows "all_sessions P (web_run es st)"
  using assms(1,3)
proof (induction es arbitrary: st)
  case (Cons e es)
  have "all_sessions P (web_step e st)" using Cons.prems by (intro web_step_all [OF _ assms(2)]) auto
  then show ?case using Cons.prems(2) by (auto intro: Cons.IH)
qed simp

lemma admitE:
  assumes "admit env a ctx st = Some (ctx', True, st')" "a \<noteq> PUBLIC"
  obtains ck s u where "wx_cookie ctx = Some ck" "map_of (ws_sessions st) ck = Some s" "we_now env \<le> ss_Expires s"
    "wx_User ctx' = Some u" "map_of (ws_users st') (ss_Name s) = Some u" "wx_XSRFToken ctx' = ss_XSRFToken s"
  using assms
  by (auto simp: admit_def GetSession_def web_fresh_def users_Get_def split: option.splits if_splits)

definition no_sessions :: "web_state \<Rightarrow> bool" where
  "no_sessions st \<longleftrightarrow> ws_sessions st = [] \<and> file_sessions st = {}"

text \<open>The request carries a cookie that was handed out at one of the logins \<open>L\<close>, of the user \<open>name\<close>,
  at most thirty days ago.\<close>

definition logged_in :: "web_env \<Rightarrow> web_ctx \<Rightarrow> (string \<times> string \<times> int) list \<Rightarrow> string \<Rightarrow> bool" where
  "logged_in env ctx L name \<longleftrightarrow>
     (\<exists>ck t. wx_cookie ctx = Some ck \<and> (ck, name, t) \<in> set L \<and> we_now env \<le> t + 30 * 24 * 3600)"

lemma admitted_logged_in:
  assumes "no_sessions st" "a \<noteq> PUBLIC" "admit env a ctx (web_run es st) = Some (ctx', True, st')"
  shows "\<exists>name. logged_in env ctx (grants es st) name \<and> wx_User ctx' \<noteq> None \<and> map_of (ws_users st') name = wx_User ctx'"
proof -
  define P where "P = (\<lambda>ck (s :: session). \<exists>t. (ck, ss_Name s, t) \<in> set (grants es st) \<and> ss_Expires s = t + EXPIRES)"
  have "all_sessions P (web_run es st)"
    by (rule web_run_all) (use assms(1) in \<open>auto simp: P_def hush_free_def no_sessions_def all_sessions_def\<close>)
  moreover from admitE [OF assms(3,2)] obtain ck s u where c: "wx_cookie ctx = Some ck" "map_of (ws_sessions (web_run es st)) ck = Some s"
      "we_now env \<le> ss_Expires s" "wx_User ctx' = Some u" "map_of (ws_users st') (ss_Name s) = Some u" by blast
  ultimately have "P ck s" using map_of_SomeD [OF c(2)] by (auto simp: all_sessions_def)
  then obtain t where t: "(ck, ss_Name s, t) \<in> set (grants es st)" "ss_Expires s = t + EXPIRES" by (auto simp: P_def)
  show ?thesis by (rule exI [of _ "ss_Name s"]) (use c t in \<open>auto simp: logged_in_def EXPIRES_def\<close>)
qed

text \<open>A handler that writes also needs the token of the session.\<close>

lemma write_needs_token:
  "admit env WRITE ctx st = Some (ctx', True, st') \<Longrightarrow> wx_form ctx ''xtok'' = wx_XSRFToken ctx'"
  by (auto simp: admit_def GetSession_def web_fresh_def split: option.splits if_splits)

text \<open>A request whose outcome depends on the handler was let through to it.\<close>

lemma reaches_handler:
  assumes "httpAdapt env a f ctx st \<noteq> httpAdapt env a g ctx st"
  obtains ctx' st' where "admit env a ctx st = Some (ctx', True, st')"
    "\<And>h. httpAdapt env a h ctx st = Some (case h ctx' st' of None \<Rightarrow> (ctx', st') | Some r \<Rightarrow> r)"
  using assms by (cases "admit env a ctx st") (auto simp: httpAdapt_def split: if_splits)

text \<open>C13: Nobody gets in without a login. Starting without sessions, whatever requests, user changes
  and restarts come: when the outcome of a request depends at all on the handler, and the handler is
  one that needs a user, then the request carries a cookie that was handed out, not more than thirty
  days ago, by the login page to somebody who sent the password of an account. The handler is called
  with the current entry of that account, and a handler that writes only when the request also has
  the token of the session. A right password is one that compares, in the sense of \<open>bcrypt\<close>, with
  the one stored for the name at the time of the login (\<open>right_password\<close>).\<close>

theorem private_needs_login:
  assumes "no_sessions st" "a \<noteq> PUBLIC" "httpAdapt env a f ctx (web_run es st) \<noteq> httpAdapt env a g ctx (web_run es st)"
  shows "\<exists>name ctx' st'. logged_in env ctx (grants es st) name
    \<and> wx_User ctx' \<noteq> None \<and> map_of (ws_users st') name = wx_User ctx' \<and> (a = WRITE \<longrightarrow> wx_form ctx ''xtok'' = wx_XSRFToken ctx')
    \<and> (\<forall>h. httpAdapt env a h ctx (web_run es st) = Some (case h ctx' st' of None \<Rightarrow> (ctx', st') | Some r \<Rightarrow> r))"
proof -
  from reaches_handler [OF assms(3)] obtain ctx' st' where
    r: "admit env a ctx (web_run es st) = Some (ctx', True, st')"
      "\<And>h. httpAdapt env a h ctx (web_run es st) = Some (case h ctx' st' of None \<Rightarrow> (ctx', st') | Some r \<Rightarrow> r)" by blast
  from admitted_logged_in [OF assms(1,2) r(1)] write_needs_token [of env ctx _ ctx' st'] r show ?thesis by blast
qed

text \<open>C28: A logout is final. Once a session has been deleted (and the file could be written), no request
  with its cookie reaches a handler that needs a user, whatever happens afterwards, unless a later
  login is handed the same cookie; a restart that loads the sessions from disk does not bring it back.\<close>

theorem logout_is_final:
  assumes "wx_cookie ctx0 = Some ck" "ws_datadir st = [] \<or> we_saves env0"
    and "ck \<notin> fst ` set (grants es (DelSession env0 ctx0 st))" "wx_cookie ctx = Some ck" "a \<noteq> PUBLIC"
  shows "admit env a ctx (web_run es (DelSession env0 ctx0 st)) \<noteq> Some (ctx', True, st')"
proof
  assume ad: "admit env a ctx (web_run es (DelSession env0 ctx0 st)) = Some (ctx', True, st')"
  define P where "P = (\<lambda>ck' (s :: session). ck' \<noteq> ck)"
  have "all_sessions P (DelSession env0 ctx0 st)"
    using assms(1,2) by (auto simp: all_sessions_def P_def DelSession_def sess_save_def sess_cleanup_def file_sessions_def Let_def AList.delete_eq)
  then have "all_sessions P (web_run es (DelSession env0 ctx0 st))"
    by (rule web_run_all) (use assms(3) in \<open>force simp: P_def hush_free_def\<close>)+
  moreover from admitE [OF ad assms(5)] obtain s where "map_of (ws_sessions (web_run es (DelSession env0 ctx0 st))) ck = Some s"
    using assms(4) by auto
  ultimately show False using map_of_SomeD by (fastforce simp: all_sessions_def P_def)
qed

definition wit_env :: "int \<Rightarrow> web_env" where
  "wit_env now = \<lparr>we_now = now, we_nano = 0, we_ck = ''c'', we_tok = ''t'', we_compare = (=), we_gen = id, we_saves = True\<rparr>"

definition wit_ctx :: web_ctx where
  "wit_ctx = \<lparr>wx_User = None, wx_XSRFToken = [], wx_Hush = 0, wx_cookie = Some ''c'',
     wx_form = (\<lambda>k. if k = ''name'' then ''ann'' else if k = ''pass'' then ''secret'' else []), wx_out = []\<rparr>"

definition wit_st :: web_state where
  "wit_st = \<lparr>ws_users = [(''ann'', \<lparr>us_Name = ''ann'', us_EPasswd = ''secret'', us_Home = [], us_Groups = []\<rparr>)], ws_sessions = [],
     ws_userfile = LoadError, ws_sessfile = LoadError, ws_datadir = ''/var''\<rparr>"

theorem private_needs_login_witness:
  "\<exists>name. logged_in (wit_env 20) wit_ctx (grants [EvServe (wit_env 10) ''/login-1'' wit_ctx] wit_st) name"
proof -
  let ?f = "\<lambda>ctx st. Some (web_write (WStatus 200) ctx, st)" and ?g = "\<lambda>ctx st. Some (web_write (WStatus 404) ctx, st)"
  have "httpAdapt (wit_env 20) PRIVATE ?f wit_ctx (web_run [EvServe (wit_env 10) ''/login-1'' wit_ctx] wit_st)
      \<noteq> httpAdapt (wit_env 20) PRIVATE ?g wit_ctx (web_run [EvServe (wit_env 10) ''/login-1'' wit_ctx] wit_st)"
    by (simp add: web_serve_def web_route_def web_routes_def httpAdapt_def admit_def GetSession_def web_fresh_def wit_ctx_def wit_st_def wit_env_def
        webLogin1_def CheckUserPasswd_def users_Get_def users_loaded_def CheckPasswd_def NewSession_def sess_load_def load_into_def
        sess_save_def sess_cleanup_def web_write_def EXPIRES_def Let_def)
  from private_needs_login [OF _ _ this] show ?thesis by (auto simp: no_sessions_def file_sessions_def wit_st_def)
qed

theorem logout_is_final_witness:
  "\<nexists>ctx' st'. admit (wit_env 20) PRIVATE wit_ctx (web_run [EvRestart (wit_env 15)] (DelSession (wit_env 10) wit_ctx wit_st)) = Some (ctx', True, st')"
proof -
  have "ws_datadir wit_st = [] \<or> we_saves (wit_env 10)" by (simp add: wit_env_def)
  moreover have "wx_cookie wit_ctx = Some ''c''" by (simp add: wit_ctx_def)
  moreover have "''c'' \<notin> fst ` set (grants [EvRestart (wit_env 15)] (DelSession (wit_env 10) wit_ctx wit_st))" by simp
  ultimately show ?thesis using logout_is_final [of wit_ctx "''c''" wit_st "wit_env 10" "[EvRestart (wit_env 15)]" wit_ctx PRIVATE "wit_env 20"] by blast
qed

end
