(* ===== verification/Pages.thy ===== *)
theory Pages
  imports Service Graphd
begin

text \<open>
  What the web pages are given: \<open>monel/web.go\<close> (an object, its children, its graphs, the list of
  what is down), the statistics of \<open>monel/stats.go\<close> as they are shown, \<open>service/web.go\<close> and
  \<open>notify/web.go\<close>. The JSON that is sent is a record of its fields. Texts of the configuration
  that are only passed on, and what a monitor says about itself, come with the view.
\<close>

section \<open>Parts of an answer\<close>

record object_descr =
  od_Unique :: string
  od_Name :: string
  od_Label :: string

text \<open>The counts are up, down, overridden, total and the worst severity.\<close>

record child_summary =
  cs_Desc :: object_descr
  cs_Counts :: "int \<times> int \<times> int \<times> int \<times> status"
  cs_Status :: status
  cs_HasChild :: bool
  cs_Up :: "object_descr list"
  cs_Dn :: "object_descr list"
  cs_Ov :: "object_descr list"
  cs_Sev :: status

record stats_export =
  se_Label :: string
  se_HiLite :: bool
  se_From :: int
  se_Time :: string
  se_NDown :: int
  se_PctUp :: string
  se_PctDn :: string

record note_export =
  nx_IdNo :: int
  nx_Created :: int
  nx_IsActive :: bool
  nx_OvStatus :: status

text \<open>Settings that are only shown.\<close>

record monel_texts =
  mt_Note :: string
  mt_Info :: string
  mt_Details :: string
  mt_Comment :: string
  mt_Title :: string
  mt_YLabel :: string
  mt_GraphLabel :: string

record web_view =
  vw_texts :: "ptr \<Rightarrow> monel_texts"
  vw_service :: "ptr \<Rightarrow> sptr"          \<comment> \<open>the service of an object\<close>
  vw_hostname :: "sptr \<Rightarrow> string"
  vw_testinfo :: "sptr \<Rightarrow> (string \<times> string) list"
  vw_log :: log_state

section \<open>Statistics\<close>

text \<open>\<open>%.nf\<close>\<close>

fun fmt_prec :: "nat \<Rightarrow> gofloat \<Rightarrow> string" where
  "fmt_prec d NaN = ''NaN''"
| "fmt_prec d (Inf s) = (if s then ''-Inf'' else ''+Inf'')"
| "fmt_prec d (Num s m) =
     (let n = nat (rne (m * 10 ^ d))
      in (if s then ''-'' else []) @ show_nat (n div 10 ^ d) @ ''.'' @ show_pad d (int (n mod 10 ^ d)))"

definition percent :: "gofloat \<Rightarrow> string" where
  "percent f =
     (if flt f fzero \<or> feq f fzero then ''0.00''
      else if flt (f_of_int round32 100) f \<or> feq f (f_of_int round32 100) then ''100.0''
      else if flt (f_of_rat round32 (9999 / 100)) f then fmt_prec 4 f
      else fmt_prec 2 f)"

definition ratio :: "int \<Rightarrow> int \<Rightarrow> gofloat" where
  "ratio a b = fmul round32 (fdiv round32 (f_of_int round32 a) (f_of_int round32 b)) (f_of_int round32 100)"

definition appendExportStats :: "stats_export list \<Rightarrow> string \<Rightarrow> statdat list \<Rightarrow> nat \<Rightarrow> stats_export list" where
  "appendExportStats r label stats i =
     (if i \<ge> length stats then r
      else let s = stats ! i in
        if sx_Elapsed s = 0 then r
        else r @ [\<lparr>se_Label = label, se_HiLite = (i = 0), se_From = sx_Start s, se_Time = Elapsed (sx_Elapsed s), se_NDown = sx_Ndown s,
                   se_PctUp = percent (ratio (sx_TUp s) (sx_Elapsed s)), se_PctDn = percent (ratio (sx_TDn s) (sx_Elapsed s))\<rparr>])"

definition ExportStats :: "stats \<Rightarrow> stats_export list" where
  "ExportStats s =
     foldl (\<lambda>r (label, xs, i). appendExportStats r label xs i) []
       [(''Today'', ss_Daily s, 0), (''Yesterday'', ss_Daily s, 1), (''2 Days Ago'', ss_Daily s, 2),
        (''This Month'', ss_Monthly s, 0), (''Last Month'', ss_Monthly s, 1), (''2 Months Ago'', ss_Monthly s, 2),
        (''This Year'', ss_Yearly s, 0), (''Last Year'', ss_Yearly s, 1), (''2 Years Ago'', ss_Yearly s, 2)]"

section \<open>Notifications\<close>

definition WebExport :: "notif \<Rightarrow> note_export" where
  "WebExport n = \<lparr>nx_IdNo = n_IdNo n, nx_Created = wrap64 (n_Created n * SECSNANO), nx_IsActive = n_IsActive n, nx_OvStatus = n_OvStatus n\<rparr>"

text \<open>The persistent part, and whether the user may acknowledge.\<close>

definition note_webJson :: "(string \<times> string) option \<Rightarrow> string \<Rightarrow> notify_state \<Rightarrow> int + notif_p \<times> bool" where
  "note_webJson user idno st =
     (case webGetNotifyCreds st user idno of
        Inl code \<Rightarrow> Inl code
      | Inr (p, creds) \<Rightarrow> Inr (notif_p.truncate (ns_heap st p), ACLPermitsUser (gc_ACL_NotifyAck (ns_conf st)) creds))"

record note_row =
  nr_IdNo :: int
  nr_Created :: int
  nr_IsActive :: bool
  nr_CanAck :: bool
  nr_OvStatus :: status
  nr_Message :: string
  nr_Unique :: string

definition note_rank :: "notif \<Rightarrow> int" where
  "note_rank n = (if n_IsActive n then wrap64 (n_Created n * 2) else n_Created n)"

definition export_row :: "bool \<Rightarrow> notif \<Rightarrow> note_row" where
  "export_row can n = \<lparr>nr_IdNo = n_IdNo n, nr_Created = wrap64 (n_Created n * SECSNANO), nr_IsActive = n_IsActive n, nr_CanAck = can,
     nr_OvStatus = n_OvStatus n, nr_Message = n_Message n, nr_Unique = n_Unique n\<rparr>"

text \<open>\<open>ids\<close> is the order in which the registry is visited.\<close>

definition note_webList :: "(string \<times> string) option \<Rightarrow> int list \<Rightarrow> notify_state \<Rightarrow> int + note_row list" where
  "note_webList user ids st =
     (case user of
        None \<Rightarrow> Inl 403
      | Some (_, groups) \<Rightarrow>
          let creds = go_fields groups; cf = ns_conf st in
          if \<not> ACLPermitsUser (gc_ACL_NotifyList cf) creds \<or> \<not> ACLPermitsUser (gc_ACL_NotifyDetail cf) creds then Inl 403
          else
            let can = ACLPermitsUser (gc_ACL_NotifyAck cf) creds;
                all = map (ns_heap st) (List.map_filter (ns_byid st) ids)
            in Inr (map (export_row can) (sort_key (\<lambda>n. - note_rank n) all)))"

section \<open>What is on every answer\<close>

record web_meta =
  wm_alarm :: bool
  wm_sirentime :: int
  wm_sirenhush :: bool
  wm_unacked :: nat
  wm_hasErrors :: bool
  wm_hasWarns :: bool
  wm_service :: "(int \<times> string) option"   \<comment> \<open>the last test and the result, shortened\<close>

definition me_WebMeta :: "web_view \<Rightarrow> ptr \<Rightarrow> service_state \<Rightarrow> (int \<times> string) option" where
  "me_WebMeta vw p st =
     (case m_Me (ms_heap (vs_monel st) p) of
        ServiceM \<Rightarrow> Some (v_Lasttest (vs_svc st (vw_service vw p)),
                         let r = p_Result (ms_heap (vs_monel st) p) in if length r \<le> 32 then r else take 32 r @ ''...'')
      | _ \<Rightarrow> None)"

definition webMeta :: "web_view \<Rightarrow> int \<Rightarrow> ptr \<Rightarrow> service_state \<Rightarrow> web_meta" where
  "webMeta vw hush p st =
     (let m = ms_heap (vs_monel st) p in
      \<lparr>wm_alarm = p_Alarm m, wm_sirentime = p_SirenTime m, wm_sirenhush = hush > p_SirenTime m,
       wm_unacked = NumActive (ms_notify (vs_monel st)), wm_hasErrors = haveErrors (vw_log vw), wm_hasWarns = haveWarns (vw_log vw),
       wm_service = me_WebMeta vw p st\<rparr>)"

section \<open>An object\<close>

definition link_descr :: "monel_state \<Rightarrow> ptr \<Rightarrow> ptr \<Rightarrow> object_descr" where
  "link_descr st t c =
     \<lparr>od_Unique = Unique st t, od_Name = mc_Uname (m_Cf (ms_heap st c)), od_Label = mc_Label (m_Cf (ms_heap st c))\<rparr>"

definition hidden_from :: "string list \<Rightarrow> monel_state \<Rightarrow> ptr \<Rightarrow> bool" where
  "hidden_from creds st p \<longleftrightarrow>
     mc_Hidden (m_Cf (ms_heap st p)) \<or> \<not> ACLPermitsUser (mc_ACL_Page (m_Cf (ms_heap st p))) creds"

fun summary_kids :: "string list \<Rightarrow> monel_state \<Rightarrow> ptr list \<Rightarrow> child_summary \<Rightarrow> child_summary option" where
  "summary_kids creds st [] cs = Some cs"
| "summary_kids creds st (cx # xs) cs =
     (if cx = 0 then None
      else let cc = Self cx st in
        if hidden_from creds st cc then summary_kids creds st xs cs
        else let s = p_OvStatus (ms_heap st cc); d = link_descr st cc cx;
                 cs = (if s = OVERRIDE then cs\<lparr>cs_Ov := cs_Ov cs @ [d]\<rparr>
                       else if s = CLEAR \<or> s = UNKNOWN \<or> s = DEPENDS then cs\<lparr>cs_Up := cs_Up cs @ [d]\<rparr>
                       else cs\<lparr>cs_Dn := cs_Dn cs @ [d], cs_Sev := (if s > cs_Sev cs then s else cs_Sev cs)\<rparr>)
             in summary_kids creds st xs (cs\<lparr>cs_HasChild := True\<rparr>))"

definition childSummary :: "string list \<Rightarrow> ptr \<Rightarrow> monel_state \<Rightarrow> (child_summary \<times> monel_state) option" where
  "childSummary creds mm st =
     (let p = Self mm st; m = ms_heap st p;
          cs = \<lparr>cs_Desc = link_descr st p mm, cs_Counts = child_counts m, cs_Status = p_OvStatus m, cs_HasChild = False,
                cs_Up = [], cs_Dn = [], cs_Ov = [], cs_Sev = 0\<rparr>;
          (children, st) = me_Children p st
      in map_option (\<lambda>cs. (cs, st)) (summary_kids creds st children cs))"

fun childSummaries :: "string list \<Rightarrow> ptr list \<Rightarrow> monel_state \<Rightarrow> (child_summary list \<times> monel_state) option" where
  "childSummaries creds [] st = Some ([], st)"
| "childSummaries creds (c # xs) st =
     (if c = 0 then None
      else if hidden_from creds st c then childSummaries creds xs st
      else do {
        (s, st) \<leftarrow> childSummary creds c st;
        (ss, st) \<leftarrow> childSummaries creds xs st;
        Some (s # ss, st)
      })"

abbreviation (input) WEBMAXLOG :: nat where "WEBMAXLOG \<equiv> 100"
abbreviation (input) WEBMAXNOTIFY :: nat where "WEBMAXNOTIFY \<equiv> 100"

text \<open>The loop from the end, until \<open>n\<close> are collected.\<close>

fun collect :: "nat \<Rightarrow> ('a \<Rightarrow> 'b) \<Rightarrow> 'b list \<Rightarrow> 'a list \<Rightarrow> 'b list" where
  "collect n f acc [] = acc"
| "collect n f acc (x # xs) = (let acc = acc @ [f x] in if length acc \<ge> n then acc else collect n f acc xs)"

record mon_json =
  mj_status :: status
  mj_ovstatus :: status
  mj_transtime :: int
  mj_override :: "override option"
  mj_annotation :: string
  mj_reason :: string
  mj_stats :: "stats_export list"
  mj_notify :: "note_export list"
  mj_log :: "mlog list"
  mj_childsum :: "child_summary list"

definition monel_webJson :: "string list \<Rightarrow> ptr \<Rightarrow> monel_state \<Rightarrow> (mon_json \<times> monel_state) option" where
  "monel_webJson creds p st =
     (let m = ms_heap st p;
          notes = collect WEBMAXNOTIFY (\<lambda>n. WebExport (ns_heap (ms_notify st) n)) [] (rev (m_Notifies m));
          lg = collect WEBMAXLOG id [] (rev (p_Log m));
          (children, st) = me_Children p st
      in map_option (\<lambda>(cs, st). (\<lparr>mj_status = p_Status m, mj_ovstatus = p_OvStatus m, mj_transtime = p_TransTime m,
           mj_override = p_Override m, mj_annotation = p_Annotation m, mj_reason = p_Reason m, mj_stats = ExportStats (p_Stats m),
           mj_notify = notes, mj_log = lg, mj_childsum = cs\<rparr>, st)) (childSummaries creds children st))"

datatype me_json =
    NoInfo
  | CannotFind string
  | ServiceInfo int "string \<rightharpoonup> status \<times> string" string "(string \<times> string) list"

definition svc_WebJson :: "web_view \<Rightarrow> sptr \<Rightarrow> service_state \<Rightarrow> me_json" where
  "svc_WebJson vw i st =
     (let s = vs_svc st i in
      ServiceInfo (v_Lasttest s)
        (\<lambda>k. map_option (\<lambda>x. (x, case vp_Results (v_p s) k of None \<Rightarrow> [] | Some r \<Rightarrow> r)) (vp_Statuses (v_p s) k))
        (vw_hostname vw i) (vw_testinfo vw i))"

definition me_WebJson :: "web_view \<Rightarrow> ptr \<Rightarrow> service_state \<Rightarrow> me_json" where
  "me_WebJson vw p st =
     (case m_Me (ms_heap (vs_monel st) p) of
        ServiceM \<Rightarrow> svc_WebJson vw (vw_service vw p) st
      | AliasM _ target None \<Rightarrow> CannotFind target
      | _ \<Rightarrow> NoInfo)"

record web_decor =
  wd_name :: string
  wd_uname :: string
  wd_unique :: string
  wd_label :: string
  wd_friendly :: string
  wd_texts :: monel_texts
  wd_graph :: bool
  wd_canOverride :: bool
  wd_canAnnotate :: bool
  wd_canCheckNow :: bool
  wd_canSeeAbout :: bool
  wd_parent :: "object_descr list"

definition webDecor :: "web_view \<Rightarrow> string list \<Rightarrow> ptr \<Rightarrow> monel_state \<Rightarrow> web_decor" where
  "webDecor vw creds p st =
     (let m = ms_heap st p; cf = m_Cf m in
      \<lparr>wd_name = m_Name m, wd_uname = mc_Uname cf, wd_unique = mc_Unique cf, wd_label = mc_Label cf, wd_friendly = mc_Friendlyname cf,
       wd_texts = vw_texts vw p, wd_graph = mc_Graph cf,
       wd_canOverride = (mc_Overridable cf \<and> ACLPermitsUser (mc_ACL_Override cf) creds),
       wd_canAnnotate = ACLPermitsUser (mc_ACL_Annotate cf) creds,
       wd_canCheckNow = ACLPermitsUser (mc_ACL_CheckNow cf) creds,
       wd_canSeeAbout = ACLPermitsUser (mc_ACL_About cf) creds,
       wd_parent = map (\<lambda>q. link_descr st q q) (m_Parent m)\<rparr>)"

record page_json =
  pj_meta :: web_meta
  pj_webtime :: string
  pj_page :: "(web_decor \<times> mon_json \<times> me_json) option"   \<comment> \<open>\<^const>\<open>None\<close>: unchanged\<close>

definition upd_monel :: "monel_state \<Rightarrow> service_state \<Rightarrow> service_state" where
  "upd_monel ms st = st\<lparr>vs_monel := ms\<rparr>"

definition webJson :: "web_view \<Rightarrow> (string \<times> string) option \<Rightarrow> int \<Rightarrow> string \<Rightarrow> string \<Rightarrow> service_state
    \<Rightarrow> ((int + page_json) \<times> service_state) option" where
  "webJson vw user hush since obj st =
     (let since = atoi since in
      case webObjUserCheck user obj (vs_monel st) of
        Inl code \<Rightarrow> Some (Inl code, st)
      | Inr (p, creds) \<Rightarrow>
          let d = webMeta vw hush p st; (changed, wt) = webChangedSince since (ms_heap (vs_monel st) p) in
          if \<not> changed then Some (Inr \<lparr>pj_meta = d, pj_webtime = show_int wt, pj_page = None\<rparr>, st)
          else map_option (\<lambda>(mon, ms). let st' = upd_monel ms st in
                 (Inr \<lparr>pj_meta = d, pj_webtime = show_int wt,
                       pj_page = Some (webDecor vw creds p (vs_monel st), mon, me_WebJson vw p st')\<rparr>, st'))
               (monel_webJson creds p (vs_monel st)))"

section \<open>Graphs\<close>

record graph_info =
  gi_Obj :: string
  gi_Label :: string
  gi_Hwab :: bool
  gi_Tags :: "string set"

definition svc_GraphList :: "sptr \<Rightarrow> string \<Rightarrow> graph_info list \<Rightarrow> service_state \<Rightarrow> graph_info list" where
  "svc_GraphList i label gl st =
     gl @ [\<lparr>gi_Obj = Unique (vs_monel st) (v_mon (vs_svc st i)), gi_Label = label, gi_Hwab = (vp_Hwab (v_p (vs_svc st i)) \<noteq> None),
            gi_Tags = dom (vp_Statuses (v_p (vs_svc st i)))\<rparr>]"

definition me_GraphList :: "web_view \<Rightarrow> ptr \<Rightarrow> string \<Rightarrow> graph_info list \<Rightarrow> service_state \<Rightarrow> graph_info list" where
  "me_GraphList vw p label gl st =
     (case m_Me (ms_heap (vs_monel st) p) of ServiceM \<Rightarrow> svc_GraphList (vw_service vw p) label gl st | _ \<Rightarrow> gl)"

definition graph_label :: "web_view \<Rightarrow> monel_state \<Rightarrow> string \<Rightarrow> ptr \<Rightarrow> string" where
  "graph_label vw st label c =
     (let l = (if mt_GraphLabel (vw_texts vw c) = [] then mc_Label (m_Cf (ms_heap st c)) else mt_GraphLabel (vw_texts vw c))
      in if label \<noteq> [] then label @ '':'' @ l else l)"

fun graphList :: "nat \<Rightarrow> web_view \<Rightarrow> ptr \<Rightarrow> string \<Rightarrow> graph_info list \<Rightarrow> service_state \<Rightarrow> (graph_info list \<times> service_state) option"
  and graphList_kids :: "nat \<Rightarrow> web_view \<Rightarrow> ptr list \<Rightarrow> string \<Rightarrow> graph_info list \<Rightarrow> service_state \<Rightarrow> (graph_info list \<times> service_state) option" where
  "graphList 0 vw p label gl st = None"
| "graphList (Suc n) vw p label gl st =
     (let (children, ms) = me_Children p (vs_monel st); st = upd_monel ms st
      in graphList_kids n vw children label (me_GraphList vw p label gl st) st)"
| "graphList_kids n vw [] label gl st = Some (gl, st)"
| "graphList_kids n vw (c # cs) label gl st =
     (if c = 0 then None
      else if mc_Hidden (m_Cf (ms_heap (vs_monel st) c)) then graphList_kids n vw cs label gl st
      else do {
        (gl, st) \<leftarrow> graphList n vw c (graph_label vw (vs_monel st) label c) gl st;
        graphList_kids n vw cs label gl st
      })"

text \<open>Title, label of the axis, the name of this server and the graphs below the object.\<close>

definition webGraphInfo :: "nat \<Rightarrow> web_view \<Rightarrow> string \<Rightarrow> (string \<times> string) option \<Rightarrow> int \<Rightarrow> string \<Rightarrow> service_state
    \<Rightarrow> ((int + web_meta \<times> string \<times> string \<times> string \<times> graph_info list) \<times> service_state) option" where
  "webGraphInfo fuel vw myid user hush obj st =
     (case webObjUserCheck user obj (vs_monel st) of
        Inl code \<Rightarrow> Some (Inl code, st)
      | Inr (p, creds) \<Rightarrow>
          let d = webMeta vw hush p st in
          if \<not> mc_Graph (m_Cf (ms_heap (vs_monel st) p)) then Some (Inl 404, st)
          else map_option (\<lambda>(gl, st). (Inr (d, mt_Title (vw_texts vw p), mt_YLabel (vw_texts vw p), myid, gl), st))
                 (graphList fuel vw p [] [] st))"

definition graph_tag :: "string \<Rightarrow> string \<Rightarrow> string" where
  "graph_tag myid tag = (if tag = ''local'' \<or> tag = myid then [] else tag)"

definition webGraphDJson :: "web_view \<Rightarrow> int \<Rightarrow> string \<Rightarrow> gd_world \<Rightarrow> (string \<times> string) option \<Rightarrow> int \<Rightarrow> string \<Rightarrow> string
    \<Rightarrow> string \<Rightarrow> string \<Rightarrow> string \<Rightarrow> service_state \<Rightarrow> (int + web_meta \<times> Export list) option" where
  "webGraphDJson vw now myid w user hush obj since tag which width st =
     (case webObjUserCheck user obj (vs_monel st) of
        Inl code \<Rightarrow> Some (Inl code)
      | Inr (p, creds) \<Rightarrow>
          if \<not> mc_Graph (m_Cf (ms_heap (vs_monel st) p)) then Some (Inl 404)
          else map_option (\<lambda>es. Inr (webMeta vw hush p st, es))
                 (gd_Get now (Pathname (ms_heap (vs_monel st) p) (graph_tag myid tag) []) which (atoi since) (atoi width) w))"

section \<open>Lists and dumps\<close>

definition webDownList :: "(string \<times> string) option \<Rightarrow> string list \<Rightarrow> monel_state \<Rightarrow> int + (string \<times> status) list" where
  "webDownList user order st = webList user (List.map_filter (ms_isdown st) order) True st"

definition webOverrideList :: "(string \<times> string) option \<Rightarrow> string list \<Rightarrow> monel_state \<Rightarrow> int + (string \<times> status) list" where
  "webOverrideList user order st = webList user (List.map_filter (ms_inoverride st) order) False st"

text \<open>The dump of an object; \<open>dumped\<close> are the lines that \<open>argus.Dump\<close> makes of its structs.\<close>

definition monel_dump :: "(monel \<Rightarrow> (string \<times> string) list) \<Rightarrow> ptr \<Rightarrow> monel_state \<Rightarrow> (string \<times> string) list" where
  "monel_dump dumped p st =
     (let m = ms_heap st p; names = (\<lambda>ps. ''['' @ join '' '' (map (Unique st) ps) @ '']'') in
      [(''monel/Filename'', m_Filename m), (''monel/DirName'', m_DirName m), (''monel/Label'', m_Label m),
       (''monel/Friendlyname'', m_Friendlyname m), (''monel/Interesting'', if m_Interesting m then ''true'' else ''false''),
       (''monel/Parent'', names (m_Parent m)), (''monel/Children'', names (m_Children m))] @ dumped m)"

definition webDump :: "(monel \<Rightarrow> (string \<times> string) list) \<Rightarrow> (string \<times> string) option \<Rightarrow> string \<Rightarrow> monel_state \<Rightarrow> int + (string \<times> string) list" where
  "webDump dumped user obj st =
     (case webObjUserCheck user obj st of
        Inl code \<Rightarrow> Inl code
      | Inr (p, creds) \<Rightarrow>
          if \<not> ACLPermitsUser (mc_ACL_About (m_Cf (ms_heap st p))) creds then Inl 403
          else Inr (monel_dump dumped p st))"

definition apiDump :: "(monel \<Rightarrow> (string \<times> string) list) \<Rightarrow> api_ctx \<Rightarrow> monel_state \<Rightarrow> api_ctx" where
  "apiDump dumped ctx st =
     (case Find st (ctx_arg ctx ''obj'') of
        None \<Rightarrow> Send404 ctx
      | Some p \<Rightarrow> SendFinal (foldl (\<lambda>ctx (k, v). SendKVP k v ctx) (SendOK ctx) (monel_dump dumped p st)))"

end
