(* ===== verification/PagesFacts.thy ===== *)
theory PagesFacts
  imports Pages ServiceFacts
begin

text \<open>
  The pages and the requests agree: a button is shown exactly when the request behind it is allowed;
  the summary of a child names exactly the objects that the user may see; the list of notifications
  has all of them, the active ones first.
\<close>

section \<open>Buttons\<close>

lemma webJson_page:
  assumes "webJson vw user hush since obj st = Some (Inr pj, st')" "pj_page pj = Some (deco, mon, me)"
  obtains p creds where "webObjUserCheck user obj (vs_monel st) = Inr (p, creds)" "deco = webDecor vw creds p (vs_monel st)"
  using assms by (auto simp: webJson_def Let_def split: sum.splits if_splits prod.splits)

lemma annotate_code:
  assumes "webObjUserCheck (Some (name, groups)) obj ms = Inr (p, creds)"
  shows "(\<exists>ms'. webAnnotate env (Some (name, groups)) obj txt ms = Some (200, ms')) \<longleftrightarrow>
     ACLPermitsUser (mc_ACL_Annotate (m_Cf (ms_heap ms p))) creds"
  using assms by (simp add: webAnnotate_def)

lemma override_code:
  assumes "webObjUserCheck (Some (name, groups)) obj ms = Inr (p, creds)"
  shows "(\<exists>ms'. webOverride env (Some (name, groups)) obj txt mode expires rm ms = Some (403, ms')) \<longleftrightarrow>
     \<not> (mc_Overridable (m_Cf (ms_heap ms p)) \<and> ACLPermitsUser (mc_ACL_Override (m_Cf (ms_heap ms p))) creds)"
  using assms by (auto simp: webOverride_def Let_def)

lemma checknow_code:
  assumes "webObjUserCheck (Some (name, groups)) obj ms = Inr (p, creds)"
  shows "(\<exists>ms'. webCheckNow (Some (name, groups)) obj ms = Some (403, ms')) \<longleftrightarrow>
     \<not> ACLPermitsUser (mc_ACL_CheckNow (m_Cf (ms_heap ms p))) creds"
  using assms by (auto simp: webCheckNow_def)

lemma about_code:
  assumes "webObjUserCheck (Some (name, groups)) obj ms = Inr (p, creds)"
  shows "webDump dumped (Some (name, groups)) obj ms = Inl 403 \<longleftrightarrow> \<not> ACLPermitsUser (mc_ACL_About (m_Cf (ms_heap ms p))) creds"
  using assms by (auto simp: webDump_def)

text \<open>C33: The page shows a button exactly when the request behind it is not refused: for a user who
  is logged in, annotating succeeds, and overriding, checking now and the dump are not answered with
  403, if and only if the page of the object says so.\<close>

theorem buttons_agree:
  assumes "webJson vw (Some (name, groups)) hush since obj st = Some (Inr pj, st')" "pj_page pj = Some (deco, mon, me)"
  shows "(wd_canAnnotate deco \<longleftrightarrow> (\<exists>ms. webAnnotate env (Some (name, groups)) obj txt (vs_monel st) = Some (200, ms)))
    \<and> (wd_canOverride deco \<longleftrightarrow> (\<nexists>ms. webOverride env (Some (name, groups)) obj txt mode expires rm (vs_monel st) = Some (403, ms)))
    \<and> (wd_canCheckNow deco \<longleftrightarrow> (\<nexists>ms. webCheckNow (Some (name, groups)) obj (vs_monel st) = Some (403, ms)))
    \<and> (wd_canSeeAbout deco \<longleftrightarrow> webDump dumped (Some (name, groups)) obj (vs_monel st) \<noteq> Inl 403)"
proof -
  from webJson_page [OF assms] obtain p creds where
    c: "webObjUserCheck (Some (name, groups)) obj (vs_monel st) = Inr (p, creds)" "deco = webDecor vw creds p (vs_monel st)" .
  show ?thesis
    by (simp only: annotate_code [OF c(1)] override_code [OF c(1)] checknow_code [OF c(1)] about_code [OF c(1)])
      (simp add: c(2) webDecor_def Let_def)
qed

definition wit_view :: web_view where
  "wit_view = \<lparr>vw_texts = (\<lambda>_. \<lparr>mt_Note = [], mt_Info = [], mt_Details = [], mt_Comment = [], mt_Title = [], mt_YLabel = [], mt_GraphLabel = []\<rparr>),
     vw_service = (\<lambda>_. 0), vw_hostname = (\<lambda>_. ''web''), vw_testinfo = (\<lambda>_. []),
     vw_log = \<lparr>haveErrors = False, haveWarns = False, logmsgs = []\<rparr>\<rparr>"

definition wit_shown :: service_state where
  "wit_shown = witness_service\<lparr>vs_monel := witness_tree\<lparr>ms_byname := [''a'' \<mapsto> 2]\<rparr>\<rparr>"

lemma wit_shown_check:
  "webObjUserCheck (Some (''ann'', ''staff'')) ''a'' (vs_monel wit_shown) = Inr (2, [''staff''])"
proof -
  have "go_fields ''staff'' = [''staff'']" "ACLPermitsUser (mc_ACL_Page monel_defaults) [''staff'']" by code_simp+
  then show ?thesis
    by (simp add: webObjUserCheck_def wit_shown_def Find_def witness_tree_def empty_monel_def monel_New_def AddChild_def Let_def)
qed

theorem buttons_agree_witness:
  "\<exists>ms. webAnnotate (witness_menv 5) (Some (''ann'', ''staff'')) ''a'' ''hello'' (vs_monel wit_shown) = Some (200, ms)"
proof -
  have k: "m_Me (ms_heap (vs_monel wit_shown) 2) = ServiceM" "m_WebTime (ms_heap (vs_monel wit_shown) 2) > atoi ''0''"
    "m_Cf (ms_heap (vs_monel wit_shown) 2) = monel_defaults"
  proof -
    have "atoi ''0'' = 0" by code_simp
    then show "m_Me (ms_heap (vs_monel wit_shown) 2) = ServiceM" "m_WebTime (ms_heap (vs_monel wit_shown) 2) > atoi ''0''"
        "m_Cf (ms_heap (vs_monel wit_shown) 2) = monel_defaults"
      by (simp_all add: wit_shown_def witness_tree_def empty_monel_def monel_New_def AddChild_def witness_menv_def Let_def)
  qed
  obtain mon where "monel_webJson [''staff''] 2 (vs_monel wit_shown) = Some (mon, vs_monel wit_shown)"
    using k(1) by (simp add: monel_webJson_def me_Children_def Let_def)
  then obtain pj st' where r: "webJson wit_view (Some (''ann'', ''staff'')) 0 ''0'' ''a'' wit_shown = Some (Inr pj, st')"
      "pj_page pj = Some (webDecor wit_view [''staff''] 2 (vs_monel wit_shown), mon, me_WebJson wit_view 2 st')"
    using k(2) by (simp add: webJson_def wit_shown_check webChangedSince_def Let_def)
  have "ACLPermitsUser (mc_ACL_Annotate monel_defaults) [''staff'']" by code_simp
  then have "wd_canAnnotate (webDecor wit_view [''staff''] 2 (vs_monel wit_shown))"
    by (simp add: webDecor_def k(3) Let_def)
  with buttons_agree [OF r, of "witness_menv 5" "''hello''"] show ?thesis by blast
qed

section \<open>Children\<close>

text \<open>What the user may see, from the objects alone: an alias stands for its target; the target must
  not be hidden, and one of the words of its page access list must be one of the user's groups. The
  entry for a child names the target's address with the name and label of the child itself.\<close>

definition target :: "monel_state \<Rightarrow> ptr \<Rightarrow> ptr" where
  "target st c = (case m_Me (ms_heap st c) of AliasM _ _ (Some t) \<Rightarrow> t | _ \<Rightarrow> c)"

definition may_see :: "string list \<Rightarrow> monel_state \<Rightarrow> ptr \<Rightarrow> bool" where
  "may_see creds st c \<longleftrightarrow>
     (let cf = m_Cf (ms_heap st (target st c))
      in \<not> mc_Hidden cf \<and> list_ex (\<lambda>g. g \<in> set (tag_words [] (mc_ACL_Page cf))) creds)"

definition kid_descr :: "monel_state \<Rightarrow> ptr \<Rightarrow> object_descr" where
  "kid_descr st c = \<lparr>od_Unique = mc_Unique (m_Cf (ms_heap st (target st c))),
     od_Name = mc_Uname (m_Cf (ms_heap st c)), od_Label = mc_Label (m_Cf (ms_heap st c))\<rparr>"

definition kid_status :: "monel_state \<Rightarrow> ptr \<Rightarrow> status" where
  "kid_status st c = p_OvStatus (ms_heap st (target st c))"

definition visible :: "string list \<Rightarrow> monel_state \<Rightarrow> ptr list \<Rightarrow> ptr list" where
  "visible creds st = filter (may_see creds st)"

lemma Self_target: "Self c st = target st c"
  by (simp add: Self_def target_def)

lemma hidden_may_see: "hidden_from creds st (target st c) \<longleftrightarrow> \<not> may_see creds st c"
  by (simp add: hidden_from_def may_see_def ACLPermitsUser_def IncludesTag_words Let_def)

lemma link_kid_descr: "link_descr st (target st c) c = kid_descr st c"
  by (simp add: link_descr_def kid_descr_def Unique_def)

definition counts_up :: "status \<Rightarrow> bool" where
  "counts_up s \<longleftrightarrow> s = CLEAR \<or> s = UNKNOWN \<or> s = DEPENDS"

definition counts_down :: "status \<Rightarrow> bool" where
  "counts_down s \<longleftrightarrow> s \<noteq> OVERRIDE \<and> \<not> counts_up s"

definition shown :: "string list \<Rightarrow> monel_state \<Rightarrow> ptr list \<Rightarrow> (status \<Rightarrow> bool) \<Rightarrow> object_descr list" where
  "shown creds st children P = map (kid_descr st) (filter (\<lambda>c. P (kid_status st c)) (visible creds st children))"

definition shown_down :: "string list \<Rightarrow> monel_state \<Rightarrow> ptr list \<Rightarrow> status list" where
  "shown_down creds st children = filter counts_down (map (kid_status st) (visible creds st children))"

lemma shown_simps [simp]:
  "shown creds st [] P = []" "shown_down creds st [] = []" "visible creds st [] = []"
  "\<not> may_see creds st c \<Longrightarrow> shown creds st (c # cs) P = shown creds st cs P"
  "\<not> may_see creds st c \<Longrightarrow> shown_down creds st (c # cs) = shown_down creds st cs"
  "\<not> may_see creds st c \<Longrightarrow> visible creds st (c # cs) = visible creds st cs"
  "may_see creds st c \<Longrightarrow> shown creds st (c # cs) P = (if P (kid_status st c) then [kid_descr st c] else []) @ shown creds st cs P"
  "may_see creds st c \<Longrightarrow>
     shown_down creds st (c # cs) = (if counts_down (kid_status st c) then [kid_status st c] else []) @ shown_down creds st cs"
  "may_see creds st c \<Longrightarrow> visible creds st (c # cs) = c # visible creds st cs"
  by (simp_all add: shown_def shown_down_def visible_def)

lemma summary_kids_Cons:
  "c \<noteq> 0 \<Longrightarrow> \<not> may_see creds st c \<Longrightarrow> summary_kids creds st (c # xs) cs = summary_kids creds st xs cs"
  "c \<noteq> 0 \<Longrightarrow> may_see creds st c \<Longrightarrow> summary_kids creds st (c # xs) cs = summary_kids creds st xs
     (cs\<lparr>cs_HasChild := True,
        cs_Up := cs_Up cs @ (if counts_up (kid_status st c) then [kid_descr st c] else []),
        cs_Dn := cs_Dn cs @ (if counts_down (kid_status st c) then [kid_descr st c] else []),
        cs_Ov := cs_Ov cs @ (if kid_status st c = OVERRIDE then [kid_descr st c] else []),
        cs_Sev := foldl max (cs_Sev cs) (if counts_down (kid_status st c) then [kid_status st c] else [])\<rparr>)"
  by (auto simp: Let_def Self_target hidden_may_see link_kid_descr kid_status_def counts_up_def counts_down_def max_def
      intro!: arg_cong [where f = "summary_kids creds st xs"])

lemma summary_kids_exact:
  "0 \<notin> set children \<Longrightarrow> summary_kids creds st children cs =
     Some (cs\<lparr>cs_HasChild := (cs_HasChild cs \<or> visible creds st children \<noteq> []),
          cs_Up := cs_Up cs @ shown creds st children counts_up, cs_Dn := cs_Dn cs @ shown creds st children counts_down,
          cs_Ov := cs_Ov cs @ shown creds st children (\<lambda>s. s = OVERRIDE),
          cs_Sev := foldl max (cs_Sev cs) (shown_down creds st children)\<rparr>)"
proof (induction children arbitrary: cs)
  case (Cons c children)
  then show ?case
    by (cases "may_see creds st c") (simp_all add: summary_kids_Cons del: summary_kids.simps)
qed simp

lemma summary_kids_nil: "0 \<in> set children \<Longrightarrow> summary_kids creds st children cs = None"
  by (induction children arbitrary: cs) (auto simp: Let_def)

lemma childSummary_exists:
  "me_Children (Self mm st) st = (children, st1) \<Longrightarrow> 0 \<notin> set children \<Longrightarrow> \<exists>cs. childSummary creds mm st = Some (cs, st1)"
  by (simp add: childSummary_def summary_kids_exact Let_def)

lemma foldl_max_Max: "foldl max x xs = Max (insert x (set xs))" for x :: status
  using Max.set_eq_fold [of x xs] by (simp add: foldl_conv_fold max.commute)

text \<open>C35: The summary of a child names exactly what the user may see: each of its children whose
  object (the target, for an alias) is not hidden and has one of the user's groups on its page access
  list, once and in order, under its own name and label, among the overridden, the up or the down ones
  by the status of the object, and the worst status of the down ones; nothing about the others.\<close>

theorem child_summary_exact:
  assumes "childSummary creds mm st = Some (cs, st')" "me_Children (target st mm) st = (children, st1)"
  shows "st' = st1 \<and> 0 \<notin> set children
    \<and> cs_Desc cs = kid_descr st mm \<and> cs_Status cs = kid_status st mm
    \<and> cs_Up cs = shown creds st' children counts_up
    \<and> cs_Dn cs = shown creds st' children counts_down
    \<and> cs_Ov cs = shown creds st' children (\<lambda>s. s = OVERRIDE)
    \<and> cs_HasChild cs = (visible creds st' children \<noteq> [])
    \<and> cs_Sev cs = Max (insert 0 (set (shown_down creds st' children)))
    \<and> length (cs_Up cs) + length (cs_Dn cs) + length (cs_Ov cs) = length (visible creds st' children)"
proof -
  have len: "length (shown creds st1 xs counts_up) + length (shown creds st1 xs counts_down) + length (shown creds st1 xs (\<lambda>s. s = OVERRIDE))
      = length (visible creds st1 xs)" for xs
  proof (induction xs)
    case (Cons c xs)
    then show ?case by (cases "may_see creds st1 c") (simp_all, auto simp: counts_up_def counts_down_def)
  qed simp
  have nz: "0 \<notin> set children" using assms by (auto simp: childSummary_def Let_def Self_target summary_kids_nil)
  show ?thesis using assms len [of children] unfolding foldl_max_Max [symmetric]
    by (simp add: childSummary_def Let_def nz summary_kids_exact Self_target link_kid_descr kid_status_def) auto
qed

theorem child_summary_exact_witness:
  "\<exists>cs st'. childSummary [''user''] 1 witness_tree = Some (cs, st') \<and> cs_Up cs = [kid_descr st' 3] \<and> cs_Dn cs = [kid_descr st' 2]"
proof -
  have s: "target witness_tree c = c" if "c \<in> {1, 2, 3}" for c
    using that by (auto simp: target_def witness_tree_def monel_New_def AddChild_def empty_monel_def blank_object_def Let_def)
  have k: "me_Children (target witness_tree 1) witness_tree = ([2, 3], witness_tree)"
    by (simp only: s insert_iff simp_thms) (simp only: me_Children_def witness_tree_eval moneler.case)
  have acl: "''user'' \<in> set (tag_words [] (mc_ACL_Page monel_defaults))" by code_simp
  have cf: "m_Cf (ms_heap witness_tree c) = monel_defaults" if "c \<in> {2, 3}" for c
    using that by (auto simp: witness_tree_def empty_monel_def monel_New_def AddChild_def Let_def)
  have "\<not> mc_Hidden monel_defaults" by (simp add: monel_defaults_def)
  then have h: "may_see [''user''] witness_tree c" if "c \<in> {2, 3}" for c
    using acl cf [OF that] s [of c] that by (auto simp: may_see_def)
  obtain cs where cs: "childSummary [''user''] 1 witness_tree = Some (cs, witness_tree)"
    using childSummary_exists [of 1 witness_tree "[2, 3]"] k by (auto simp: Self_target)
  have v: "kid_status witness_tree 2 = CRITICAL" "kid_status witness_tree 3 = CLEAR"
    by (simp_all add: kid_status_def s witness_tree_eval)
  from child_summary_exact [OF cs k]
  have "cs_Up cs = shown [''user''] witness_tree [2, 3] counts_up" "cs_Dn cs = shown [''user''] witness_tree [2, 3] counts_down" by simp_all
  then have "cs_Up cs = [kid_descr witness_tree 3] \<and> cs_Dn cs = [kid_descr witness_tree 2]"
    using h v by (simp add: counts_up_def counts_down_def)
  with cs show ?thesis by blast
qed

text \<open>The loops from the end show the newest hundred, newest first.\<close>

lemma collect_take: "length acc < n \<Longrightarrow> collect n f acc xs = acc @ map f (take (n - length acc) xs)"
proof (induction xs arbitrary: acc)
  case (Cons x xs)
  show ?case
  proof (cases "n \<le> Suc (length acc)")
    case True
    then have "n - length acc = Suc 0" using Cons.prems by simp
    then show ?thesis using True by (simp add: Let_def)
  next
    case False
    then have "n - length acc = Suc (n - Suc (length acc))" by simp
    then show ?thesis using False Cons.IH [of "acc @ [f x]"] by (simp add: Let_def)
  qed
qed simp

lemma page_newest:
  assumes "monel_webJson creds p st = Some (j, st')"
  shows "mj_log j = take 100 (rev (p_Log (ms_heap st p)))"
    "mj_notify j = map (\<lambda>n. WebExport (ns_heap (ms_notify st) n)) (take 100 (rev (m_Notifies (ms_heap st p))))"
  using assms by (auto simp: monel_webJson_def Let_def collect_take split: prod.splits)

section \<open>Notifications\<close>

lemma sort_key_later:
  assumes "i < j" "j < length xs"
  shows "f (sort_key f xs ! i) \<le> f (sort_key f xs ! j)"
  using assms sorted_nth_mono [of "map f (sort_key f xs)" i j] by simp

text \<open>The list of notifications has every one of them once; and an inactive one stands before an
  active one only if it was created at twice its time or later, so that the active ones come first.\<close>

theorem note_list_complete:
  assumes "note_webList user ids st = Inr rows"
    and "\<forall>p \<in> set (List.map_filter (ns_byid st) ids). 0 \<le> n_Created (ns_heap st p) \<and> n_Created (ns_heap st p) < 2 ^ 33"
  shows "mset rows = image_mset (\<lambda>p. export_row (ACLPermitsUser (gc_ACL_NotifyAck (ns_conf st)) (go_fields (snd (the user)))) (ns_heap st p))
       (mset (List.map_filter (ns_byid st) ids))
    \<and> (\<forall>i j. i < j \<and> j < length rows \<and> nr_IsActive (rows ! j) \<and> \<not> nr_IsActive (rows ! i) \<longrightarrow>
         2 * nr_Created (rows ! j) \<le> nr_Created (rows ! i))"
proof -
  obtain name groups where u: "user = Some (name, groups)" using assms by (cases user) (auto simp: note_webList_def)
  define all where "all = map (ns_heap st) (List.map_filter (ns_byid st) ids)"
  define can where "can = ACLPermitsUser (gc_ACL_NotifyAck (ns_conf st)) (go_fields groups)"
  have rows: "rows = map (export_row can) (sort_key (\<lambda>n. - note_rank n) all)"
    using assms u by (auto simp: note_webList_def Let_def all_def can_def split: if_splits)
  have t: "0 \<le> n_Created n \<and> n_Created n < 2 ^ 33" if "n \<in> set all" for n using assms(2) that by (auto simp: all_def)
  have later: "2 * nr_Created (rows ! j) \<le> nr_Created (rows ! i)"
    if "i < j" "j < length rows" "nr_IsActive (rows ! j)" "\<not> nr_IsActive (rows ! i)" for i j
  proof -
    have "note_rank (sort_key (\<lambda>n. - note_rank n) all ! j) \<le> note_rank (sort_key (\<lambda>n. - note_rank n) all ! i)"
      using sort_key_later [of i j all "\<lambda>n. - note_rank n"] that by (simp add: rows)
    moreover have "sort_key (\<lambda>n. - note_rank n) all ! k \<in> set all" if "k < length all" for k
      using nth_mem [of k "sort_key (\<lambda>n. - note_rank n) all"] that by simp
    ultimately show ?thesis using that t [of "sort_key (\<lambda>n. - note_rank n) all ! i"] t [of "sort_key (\<lambda>n. - note_rank n) all ! j"]
      by (simp add: rows export_row_def note_rank_def)
  qed
  have "mset rows = image_mset (export_row can) (mset all)" by (simp add: rows)
  then show ?thesis using later by (auto simp: all_def can_def u image_mset.compositionality comp_def)
qed

theorem note_list_complete_witness:
  "\<exists>rows. note_webList (Some (''joe'', ''staff'')) [1001] witness_queued = Inr rows \<and> length rows = 1"
proof -
  have created: "n_Created (ns_heap witness_queued 0) = 1000" by code_simp
  have "List.map_filter (ns_byid witness_queued) [1001] = [0]" by code_simp
  moreover have "ACLPermitsUser (gc_ACL_NotifyList (ns_conf witness_queued)) (go_fields ''staff'')
      \<and> ACLPermitsUser (gc_ACL_NotifyDetail (ns_conf witness_queued)) (go_fields ''staff'')" by code_simp
  moreover from this obtain rows where r: "note_webList (Some (''joe'', ''staff'')) [1001] witness_queued = Inr rows"
    by (simp add: note_webList_def Let_def)
  ultimately have "size (mset rows) = 1" using note_list_complete [OF r] created by simp
  with r show ?thesis by auto
qed

text \<open>A tag is put into the name of a graph file as it is, also with slashes.\<close>

lemma graph_tag_unchecked:
  "tag \<noteq> ''local'' \<Longrightarrow> tag \<noteq> myid \<Longrightarrow> Pathname m (graph_tag myid tag) [] = m_DirName m @ ''/'' @ tag @ m_Filename m"
  by (simp add: Pathname_def graph_tag_def)

text \<open>An alias is shown with the status of its target by the access list of the alias alone.\<close>

lemma alias_shows_target:
  assumes "m_Me (ms_heap st c) = AliasM a t (Some p)" "c \<noteq> 0" "\<not> hidden_from creds st c" "childSummary creds c st = Some (cs, st')"
  shows "cs_Status cs = p_OvStatus (ms_heap st p) \<and> childSummaries creds [c] st = Some ([cs], st')"
proof -
  have k: "cs_Status cs' = cs_Status cs0" if "summary_kids creds s xs cs0 = Some cs'" for s xs cs0 cs'
    using that by (cases "0 \<in> set xs") (auto simp: summary_kids_nil summary_kids_exact)
  show ?thesis using assms by (auto simp: childSummary_def Self_def Let_def split: prod.splits dest!: k)
qed

end
