(* ===== verification/Replica.thy ===== *)
theory Replica
  imports Service Construct
begin

text \<open>
  How a slave gets its configuration: the master answers \<open>getconfig\<close> with the parameters of an
  object that were used (\<open>monel/api.go\<close>), the slave asks for every object of its list
  (\<open>darp/fetchconfig.go\<close>) and makes it (\<open>cmd/argusd/maker.go\<close>, \<open>construct.Make\<close>). A schedule goes
  as JSON: its encoder and decoder are arguments.
\<close>

section \<open>The master\<close>

definition config_kvp :: "(schedule \<Rightarrow> string) \<Rightarrow> string \<Rightarrow> cfvalue \<Rightarrow> string \<times> string" where
  "config_kvp enc k v = (case v of CStr s \<Rightarrow> (''_'' @ k, s) | CSched s \<Rightarrow> (''*'' @ ''_'' @ k, enc s))"

text \<open>\<open>keys\<close> is the order in which the parameters are visited.\<close>

definition config_params :: "(schedule \<Rightarrow> string) \<Rightarrow> string list \<Rightarrow> cptr \<Rightarrow> cf_state \<Rightarrow> (string \<times> string) list" where
  "config_params enc keys c conf =
     List.map_filter (\<lambda>k. case cf_Param (cs_cf conf c) k of
         None \<Rightarrow> None
       | Some v \<Rightarrow> if \<not> cv_Used (cs_cfv conf v) then None else Some (config_kvp enc k (cv_Value (cs_cfv conf v)))) keys"

definition config_head :: "ptr \<Rightarrow> monel_state \<Rightarrow> (string \<times> string) list" where
  "config_head p st =
     (let m = ms_heap st p; cf = cs_cf (ms_conf st) (m_ConfCF m) in
      [(''Name'', cf_Name cf), (''Type'', cf_Type cf), (''Unique'', mc_Unique (m_Cf m))]
      @ (case m_Parent m of [] \<Rightarrow> [] | q # _ \<Rightarrow> [(''Parent'', Unique st q)]))"

definition apiGetConfig :: "(schedule \<Rightarrow> string) \<Rightarrow> string list \<Rightarrow> api_ctx \<Rightarrow> monel_state \<Rightarrow> api_ctx" where
  "apiGetConfig enc keys ctx st =
     (case Find st (ctx_arg ctx ''obj'') of
        None \<Rightarrow> Send404 ctx
      | Some p \<Rightarrow> SendFinal (foldl (\<lambda>ctx kv. SendKVP (fst kv) (snd kv) ctx) (SendOK ctx)
           (config_head p st @ config_params enc keys (m_ConfCF (ms_heap st p)) (ms_conf st))))"

section \<open>The slave\<close>

text \<open>One entry of the answer; a key that is a star alone is an index out of range.\<close>

definition maker_param :: "(string \<Rightarrow> schedule) \<Rightarrow> cptr \<Rightarrow> string \<times> string \<Rightarrow> cf_state \<Rightarrow> cf_state option" where
  "maker_param dec c kv conf =
     (case kv of (k, v) \<Rightarrow>
        if k = [] then Some conf
        else
          let (k, x) = (if hd k = CHR ''*'' then (tl k, CSched (dec v)) else (k, CStr v)) in
          if k = [] then None
          else if hd k \<noteq> CHR ''_'' then Some conf
          else Some (set_param c (tl k) x 0 conf))"

fun maker_params :: "(string \<Rightarrow> schedule) \<Rightarrow> cptr \<Rightarrow> (string \<times> string) list \<Rightarrow> cf_state \<Rightarrow> cf_state option" where
  "maker_params dec c [] conf = Some conf"
| "maker_params dec c (kv # kvs) conf = maker_param dec c kv conf \<bind> maker_params dec c kvs"

definition map_get :: "(string \<rightharpoonup> string) \<Rightarrow> string \<Rightarrow> string" where
  "map_get m k = (case m k of None \<Rightarrow> [] | Some v \<Rightarrow> v)"

text \<open>The new block, with its parameters; \<open>order\<close> is the order in which the map is visited.\<close>

definition maker_block :: "(string \<Rightarrow> schedule) \<Rightarrow> (string \<times> string) list \<Rightarrow> (string \<rightharpoonup> string) \<Rightarrow> cptr option \<Rightarrow> cf_state \<Rightarrow> (cptr \<times> cf_state) option" where
  "maker_block dec order m pcf conf =
     (let (c, conf) = NewCF (map_get m ''Type'') (map_get m ''Name'') pcf conf
      in map_option (Pair c) (maker_params dec c order conf))"

definition MakeIt_Make :: "monel_env \<Rightarrow> (string \<Rightarrow> schedule) \<Rightarrow> monel_state makers \<Rightarrow> files \<Rightarrow> (string \<times> string) list \<Rightarrow> (string \<rightharpoonup> string)
    \<Rightarrow> monel_state \<Rightarrow> monel_state option" where
  "MakeIt_Make env dec mk files order m st =
     (let p = map_get m ''Parent''; parent = (if p = [] then None else Find st p);
          pcf = map_option (\<lambda>p. m_ConfCF (ms_heap st p)) parent in do {
        st \<leftarrow> (case Find st (map_get m ''Unique'') of None \<Rightarrow> Some st | Some cm \<Rightarrow> Recycle (Suc (ms_next st)) env True cm st);
        (c, conf) \<leftarrow> maker_block dec order m pcf (ms_conf st);
        (_, b) \<leftarrow> Make mk c (case parent of None \<Rightarrow> 0 | Some p \<Rightarrow> p) \<lparr>b_files = files, b_conf = conf, b_world = st\<rparr>;
        Some ((b_world b)\<lparr>ms_conf := b_conf b\<rparr>)
      })"

text \<open>The objects of the list are fetched and made in order, until a call fails. \<open>get\<close> is the call
  over the connection, \<open>mk\<close> the maker of objects.\<close>

fun fetch_objects :: "(string \<Rightarrow> (string \<times> string) list \<Rightarrow> response option) \<Rightarrow> ((string \<rightharpoonup> string) \<Rightarrow> 'w \<Rightarrow> 'w option)
    \<Rightarrow> string list \<Rightarrow> 'w \<Rightarrow> (bool \<times> 'w) option" where
  "fetch_objects get mk [] w = Some (True, w)"
| "fetch_objects get mk (obj # objs) w =
     (case get ''getconfig'' [(''obj'', obj)] of
        None \<Rightarrow> Some (False, w)
      | Some rcf \<Rightarrow> mk (response_Map rcf) w \<bind> fetch_objects get mk objs)"

definition tryFetchConfig :: "string \<Rightarrow> (string \<Rightarrow> (string \<times> string) list \<Rightarrow> response option) \<Rightarrow> ((string \<rightharpoonup> string) \<Rightarrow> 'w \<Rightarrow> 'w option)
    \<Rightarrow> 'w \<Rightarrow> (bool \<times> 'w) option" where
  "tryFetchConfig myid get mk w =
     (case get ''darp_list'' [(''tag'', myid)] of
        None \<Rightarrow> Some (False, w)
      | Some resp \<Rightarrow> fetch_objects get mk (rs_Lines resp) w)"

text \<open>One connection after the other; \<^const>\<open>None\<close> with connections left is a panic of the maker,
  and a \<open>False\<close> at the end means that it goes on trying.\<close>

fun fetchConfig :: "string \<Rightarrow> (string \<Rightarrow> (string \<times> string) list \<Rightarrow> response option) list \<Rightarrow> ((string \<rightharpoonup> string) \<Rightarrow> 'w \<Rightarrow> 'w option)
    \<Rightarrow> 'w \<Rightarrow> (bool \<times> 'w) option" where
  "fetchConfig myid [] mk w = Some (False, w)"
| "fetchConfig myid (get # gets) mk w =
     (case tryFetchConfig myid get mk w of
        None \<Rightarrow> None
      | Some (ok, w) \<Rightarrow> if ok then Some (True, w) else fetchConfig myid gets mk w)"

section \<open>The slave has what the master used\<close>

definition param_value :: "cf_state \<Rightarrow> cptr \<Rightarrow> string \<Rightarrow> cfvalue option" where
  "param_value conf c k = map_option (\<lambda>v. cv_Value (cs_cfv conf v)) (cf_Param (cs_cf conf c) k)"

definition used_value :: "cf_state \<Rightarrow> cptr \<Rightarrow> string \<Rightarrow> cfvalue option" where
  "used_value conf c k =
     (case cf_Param (cs_cf conf c) k of
        None \<Rightarrow> None
      | Some v \<Rightarrow> if cv_Used (cs_cfv conf v) then Some (cv_Value (cs_cfv conf v)) else None)"

text \<open>The values of a block are older than those that are still to come.\<close>

definition block_ok :: "cf_state \<Rightarrow> cptr \<Rightarrow> bool" where
  "block_ok conf c \<longleftrightarrow> (\<forall>k v. cf_Param (cs_cf conf c) k = Some v \<longrightarrow> v < cs_ncfv conf)"

lemma set_param_value:
  "block_ok conf c \<Longrightarrow> param_value (set_param c k x l conf) c = (param_value conf c)(k \<mapsto> x)"
  "block_ok conf c \<Longrightarrow> block_ok (set_param c k x l conf) c"
  by (auto simp: fun_eq_iff param_value_def block_ok_def set_param_def Let_def less_Suc_eq map_option_case split: option.splits)

lemma set_param_keeps [simp]:
  "cf_Type (cs_cf (set_param c k x l conf) c) = cf_Type (cs_cf conf c)" "cf_Name (cs_cf (set_param c k x l conf) c) = cf_Name (cs_cf conf c)"
  "cf_parent (cs_cf (set_param c k x l conf) c) = cf_parent (cs_cf conf c)"
  by (simp_all add: set_param_def Let_def)

text \<open>What an entry says about a parameter.\<close>

definition kv_param :: "(string \<Rightarrow> schedule) \<Rightarrow> string \<times> string \<Rightarrow> (string \<times> cfvalue) option" where
  "kv_param dec kv =
     (case kv of (k, v) \<Rightarrow>
        if k = [] then None
        else let (k, x) = (if hd k = CHR ''*'' then (tl k, CSched (dec v)) else (k, CStr v))
             in if k = [] \<or> hd k \<noteq> CHR ''_'' then None else Some (tl k, x))"

lemma maker_params_value:
  assumes "''*'' \<notin> fst ` set kvs" "block_ok conf c"
  shows "\<exists>conf'. maker_params dec c kvs conf = Some conf' \<and> block_ok conf' c
    \<and> param_value conf' c = param_value conf c ++ map_of (rev (List.map_filter (kv_param dec) kvs))
    \<and> cf_Type (cs_cf conf' c) = cf_Type (cs_cf conf c) \<and> cf_Name (cs_cf conf' c) = cf_Name (cs_cf conf c)
    \<and> cf_parent (cs_cf conf' c) = cf_parent (cs_cf conf c)"
  using assms
proof (induction kvs arbitrary: conf)
  case (Cons kv kvs)
  obtain k v where kv: "kv = (k, v)" by force
  have one: "maker_param dec c kv conf = Some (case kv_param dec kv of None \<Rightarrow> conf | Some (k, x) \<Rightarrow> set_param c k x 0 conf)"
  proof -
    have "tl k = [] \<Longrightarrow> k \<noteq> [] \<Longrightarrow> hd k = CHR ''*'' \<Longrightarrow> False" using Cons.prems(1) by (cases k) (auto simp: kv)
    then show ?thesis by (auto simp: maker_param_def kv_param_def kv)
  qed
  show ?case
  proof (cases "kv_param dec kv")
    case None
    then show ?thesis using Cons one by simp
  next
    case (Some r)
    obtain k' x where r: "r = (k', x)" by force
    have "''*'' \<notin> fst ` set kvs" using Cons.prems(1) by auto
    from Cons.IH [OF this set_param_value(2) [OF Cons.prems(2), of k' x 0]] obtain conf' where
      c: "maker_params dec c kvs (set_param c k' x 0 conf) = Some conf'" "block_ok conf' c"
        "param_value conf' c = (param_value conf c)(k' \<mapsto> x) ++ map_of (rev (List.map_filter (kv_param dec) kvs))"
        "cf_Type (cs_cf conf' c) = cf_Type (cs_cf conf c) \<and> cf_Name (cs_cf conf' c) = cf_Name (cs_cf conf c) \<and> cf_parent (cs_cf conf' c) = cf_parent (cs_cf conf c)"
      by (auto simp: set_param_value(1) [OF Cons.prems(2)] fun_upd_def)
    then show ?thesis using one Some r by simp
  qed
qed simp

lemma kv_param_config: "(\<And>s. v = CSched s \<Longrightarrow> dec (enc s) = s) \<Longrightarrow> kv_param dec (config_kvp enc k v) = Some (k, v)"
  by (simp add: kv_param_def config_kvp_def split: cfvalue.split)

lemma graph_map_of: "set xs = {(k, v). f k = Some v} \<Longrightarrow> map_of xs = f"
proof
  fix k
  assume g: "set xs = {(k, v). f k = Some v}"
  show "map_of xs k = f k"
  proof (cases "map_of xs k")
    case None
    then have "k \<notin> fst ` set xs" by (simp add: map_of_eq_None_iff)
    then show ?thesis using None g by (cases "f k") force+
  next
    case (Some v)
    then show ?thesis using map_of_SomeD [OF Some] g by simp
  qed
qed

lemma config_kvp_key: "fst (config_kvp enc k v) = fst (config_kvp enc k' v') \<Longrightarrow> k = k'"
  by (auto simp: config_kvp_def split: cfvalue.splits)

lemma config_kvp_star: "fst (config_kvp enc k v) \<noteq> ''*''"
  by (simp add: config_kvp_def split: cfvalue.split)

lemma config_params_set:
  assumes "dom (cf_Param (cs_cf conf c)) \<subseteq> set keys"
  shows "set (config_params enc keys c conf) = {config_kvp enc k x | k x. used_value conf c k = Some x}"
proof -
  have f: "config_params enc keys c conf = List.map_filter (\<lambda>k. map_option (config_kvp enc k) (used_value conf c k)) keys"
    unfolding config_params_def used_value_def by (rule arg_cong [where f = "\<lambda>g. List.map_filter g keys"]) (auto split: option.split)
  have "k \<in> set keys" if "used_value conf c k = Some x" for k x
    using that assms by (auto simp: used_value_def split: option.splits if_splits)
  then have "kv \<in> set (config_params enc keys c conf) \<longleftrightarrow> (\<exists>k x. kv = config_kvp enc k x \<and> used_value conf c k = Some x)" for kv
    unfolding f by (force simp: map_filter_def)
  then show ?thesis by blast
qed

lemma config_head_other:
  "kv \<in> set (config_head p st) \<Longrightarrow> kv_param dec kv = None \<and> fst kv \<noteq> ''*'' \<and> fst kv \<noteq> fst (config_kvp enc k x)"
  by (auto simp: config_head_def kv_param_def config_kvp_def Let_def split: list.splits cfvalue.splits)

text \<open>The parameters that the entries of an answer give, in whatever order they are visited.\<close>

lemma answer_params:
  assumes dec: "\<And>k s. used_value conf c k = Some (CSched s) \<Longrightarrow> dec (enc s) = s" and keys: "dom (cf_Param (cs_cf conf c)) \<subseteq> set keys"
    and L: "L = config_head p st @ config_params enc keys c conf"
    and order: "set order = {(k, v). map_of (rev L) k = Some v}"
  shows "map_of (rev (List.map_filter (kv_param dec) order)) = used_value conf c" and "''*'' \<notin> fst ` set order"
proof -
  note P = config_params_set [OF keys, of enc]
  have sub: "kv \<in> set L" if "kv \<in> set order" for kv using that order map_of_SomeD by fastforce
  have star: "fst kv \<noteq> ''*''" if "kv \<in> set L" for kv
    using that config_head_other [of kv p st dec enc] P config_kvp_star [of enc] by (auto simp: L)
  show "''*'' \<notin> fst ` set order" using sub star by force
  have up: "config_kvp enc k x \<in> set order" if u: "used_value conf c k = Some x" for k x
  proof -
    have "config_kvp enc k x \<in> set L" using u P by (auto simp: L)
    then obtain w where w: "map_of (rev L) (fst (config_kvp enc k x)) = Some w"
      by (metis image_eqI map_of_eq_None_iff option.exhaust set_map set_rev)
    have "(fst (config_kvp enc k x), w) \<in> set L" using map_of_SomeD [OF w] by simp
    moreover have "(fst (config_kvp enc k x), w) \<notin> set (config_head p st)"
      using config_head_other [of "(fst (config_kvp enc k x), w)" p st dec enc k x] by auto
    ultimately obtain k' x' where k': "(fst (config_kvp enc k x), w) = config_kvp enc k' x'" "used_value conf c k' = Some x'"
      using P by (auto simp: L)
    then have "k' = k" using config_kvp_key [of enc k x k' x'] by (metis fst_conv)
    then have "w = snd (config_kvp enc k x)" using k' u by (metis option.inject snd_conv)
    then show ?thesis using w order by (simp add: case_prod_beta')
  qed
  have "(k, x) \<in> set (List.map_filter (kv_param dec) order) \<longleftrightarrow> used_value conf c k = Some x" for k x
  proof
    assume "(k, x) \<in> set (List.map_filter (kv_param dec) order)"
    then obtain kv where "kv \<in> set order" and k: "kv_param dec kv = Some (k, x)" by (auto simp: map_filter_def)
    then have kv: "kv \<in> set L" "kv_param dec kv = Some (k, x)" using sub by blast+
    then have "kv \<in> set (config_params enc keys c conf)" using config_head_other [of kv p st dec enc] by (auto simp: L)
    then obtain k' x' where k': "kv = config_kvp enc k' x'" "used_value conf c k' = Some x'" using P by auto
    then show "used_value conf c k = Some x" using kv(2) dec kv_param_config [of x' dec enc k'] by auto
  next
    assume u: "used_value conf c k = Some x"
    then have "kv_param dec (config_kvp enc k x) = Some (k, x)" using dec by (intro kv_param_config) auto
    with up [OF u] show "(k, x) \<in> set (List.map_filter (kv_param dec) order)"
      by (force simp: map_filter_def)
  qed
  then show "map_of (rev (List.map_filter (kv_param dec) order)) = used_value conf c"
    by (intro graph_map_of) auto
qed

text \<open>C16: A slave gets the configuration that the master uses. The answer to \<open>getconfig\<close> crosses the
  wire and is made, in whatever order its entries are visited, into a block of the same type and name
  whose parameters are exactly those that were used at the master, with their values, schedules
  included.\<close>

theorem replica_config:
  assumes "Find st (ctx_arg ctx ''obj'') = Some p" "c = m_ConfCF (ms_heap st p)"
    and "\<And>k s. used_value (ms_conf st) c k = Some (CSched s) \<Longrightarrow> dec (enc s) = s" "dom (cf_Param (cs_cf (ms_conf st) c)) \<subseteq> set keys"
    and "lines_ok (config_head p st @ config_params enc keys c (ms_conf st))" "ax_out ctx = []"
    and "client_response (ax_out (apiGetConfig enc keys ctx st) @ rest) = Some (resp, rest')"
    and "set order = {(k, v). response_Map resp k = Some v}"
  shows "\<exists>c' conf'. maker_block dec order (response_Map resp) pcf conf = Some (c', conf')
    \<and> cf_Type (cs_cf conf' c') = cf_Type (cs_cf (ms_conf st) c) \<and> cf_Name (cs_cf conf' c') = cf_Name (cs_cf (ms_conf st) c)
    \<and> cf_parent (cs_cf conf' c') = pcf \<and> param_value conf' c' = used_value (ms_conf st) c"
proof -
  define L where "L = config_head p st @ config_params enc keys c (ms_conf st)"
  have "ax_out (apiGetConfig enc keys ctx st) = ax_out (SendFinal (foldl (\<lambda>ctx kv. SendKVP (fst kv) (snd kv) ctx) (SendResponse 200 ''OK'' (ctx\<lparr>ax_out := []\<rparr>)) L))"
  proof -
    have "ctx\<lparr>ax_out := []\<rparr> = ctx" using assms(6) by simp
    then show ?thesis using assms(1,2) by (simp add: apiGetConfig_def L_def SendOK_def)
  qed
  then have m: "response_Map resp = map_of (rev L)"
    using answer_survives [of "''OK''" 200 L ctx rest] assms(5,7) by (auto simp: L_def)
  have order: "set order = {(k, v). map_of (rev L) k = Some v}" using assms(8) m by simp
  have a: "map_of (rev (List.map_filter (kv_param dec) order)) = used_value (ms_conf st) c" "''*'' \<notin> fst ` set order"
    by (rule answer_params [of "ms_conf st" c dec enc keys L p st order]; use assms(3,4) L_def order in blast)+
  obtain c' conf0 where n: "NewCF (map_get (response_Map resp) ''Type'') (map_get (response_Map resp) ''Name'') pcf conf = (c', conf0)" by force
  have z: "block_ok conf0 c'" "param_value conf0 c' = Map.empty" "cf_Type (cs_cf conf0 c') = map_get (response_Map resp) ''Type''"
      "cf_Name (cs_cf conf0 c') = map_get (response_Map resp) ''Name''" "cf_parent (cs_cf conf0 c') = pcf"
    using n by (auto simp: NewCF_def block_ok_def param_value_def fun_eq_iff Let_def)
  have np: "(''Type'', v) \<notin> set (config_params enc keys c (ms_conf st))" "(''Name'', v) \<notin> set (config_params enc keys c (ms_conf st))" for v
    using config_params_set [OF assms(4), of enc] by (auto simp: config_kvp_def split: cfvalue.splits)
  have t: "map_get (response_Map resp) ''Type'' = cf_Type (cs_cf (ms_conf st) c)" "map_get (response_Map resp) ''Name'' = cf_Name (cs_cf (ms_conf st) c)"
  proof -
    have "map_of (rev (config_params enc keys c (ms_conf st))) ''Type'' = None" "map_of (rev (config_params enc keys c (ms_conf st))) ''Name'' = None"
      using np by (force simp: map_of_eq_None_iff)+
    then show "map_get (response_Map resp) ''Type'' = cf_Type (cs_cf (ms_conf st) c)" "map_get (response_Map resp) ''Name'' = cf_Name (cs_cf (ms_conf st) c)"
      by (simp_all add: m L_def map_get_def map_add_def config_head_def assms(2) Let_def split: list.split)
  qed
  from maker_params_value [OF a(2) z(1), of dec] obtain conf' where "maker_params dec c' order conf0 = Some conf'"
      "param_value conf' c' = used_value (ms_conf st) c" "cf_Type (cs_cf conf' c') = cf_Type (cs_cf (ms_conf st) c)"
      "cf_Name (cs_cf conf' c') = cf_Name (cs_cf (ms_conf st) c)" "cf_parent (cs_cf conf' c') = pcf"
    using z t a(1) by auto
  then show ?thesis using n by (auto simp: maker_block_def)
qed

text \<open>A witness: the first block of an object with one parameter that was used and one that was not.\<close>

definition wit_conf :: cf_state where
  "wit_conf =
     (let st = \<lparr>cs_cf = (\<lambda>_. \<lparr>cf_parent = None, cf_Type = ''group'', cf_Name = ''Web'', cf_Extra = [], cf_File = [], cf_Line = 0,
                         cf_Param = Map.empty, cf_cache = None\<rparr>), cs_ncf = 1, cs_cfv = (\<lambda>_. \<lparr>cv_Value = CStr [], cv_Line = 0, cv_Used = False\<rparr>),
               cs_ncfv = 0, cs_log = \<lparr>haveErrors = False, haveWarns = False, logmsgs = []\<rparr>\<rparr>
      in mark_used 0 (mark_used 1 (set_param 0 ''label'' (CStr ''a b'') 8 (set_param 0 ''testing'' (CSched ScheduleAlwaysYes) 7 (set_param 0 ''frequency'' (CStr ''60'') 6 st)))))"

definition wit_master :: monel_state where
  "wit_master = empty_monel\<lparr>ms_conf := wit_conf, ms_byname := [''Top:Web'' \<mapsto> 1]\<rparr>"

definition wit_enc :: "schedule \<Rightarrow> string" where
  "wit_enc s = (if s = ScheduleAlwaysYes then ''always'' else ''never'')"

definition wit_dec :: "string \<Rightarrow> schedule" where
  "wit_dec t = (if t = ''always'' then ScheduleAlwaysYes else [])"

theorem replica_config_witness:
  "\<exists>m c' conf'. maker_block wit_dec (config_head 1 wit_master @ config_params wit_enc [''label'', ''testing'', ''frequency''] 0 wit_conf) m None wit_conf = Some (c', conf')
     \<and> param_value conf' c' ''frequency'' = Some (CStr ''60'') \<and> param_value conf' c' ''testing'' = Some (CSched ScheduleAlwaysYes)
     \<and> param_value conf' c' ''label'' = None"
proof -
  let ?keys = "[''label'', ''testing'', ''frequency'']"
  define L where "L = config_head 1 wit_master @ config_params wit_enc ?keys 0 wit_conf"
  define ctx where "ctx = witness_ctx\<lparr>ax_Args := [''obj'' \<mapsto> ''Top:Web'']\<rparr>"
  have c: "m_ConfCF (ms_heap wit_master 1) = 0" "ms_conf wit_master = wit_conf"
    by (simp_all add: wit_master_def empty_monel_def blank_object_def)
  have u: "used_value wit_conf 0 ''frequency'' = Some (CStr ''60'')" "used_value wit_conf 0 ''testing'' = Some (CSched ScheduleAlwaysYes)"
      "used_value wit_conf 0 ''label'' = None"
    by (simp_all add: wit_conf_def used_value_def mark_used_def set_param_def Let_def)
  have d: "dom (cf_Param (cs_cf wit_conf 0)) \<subseteq> set ?keys"
    by (auto simp: wit_conf_def mark_used_def set_param_def Let_def split: if_splits)
  have ok: "lines_ok L" "distinct (map fst L)" unfolding L_def by code_simp+
  have g: "set L = {(k, v). map_of (rev L) k = Some v}"
  proof -
    have "distinct (map fst (rev L))" using ok(2) by (simp flip: rev_map)
    then show ?thesis by (auto simp: map_of_eq_Some_iff)
  qed
  obtain resp where r: "client_response (ax_out (SendFinal (foldl (\<lambda>c kv. SendKVP (fst kv) (snd kv) c) (SendResponse 200 ''OK'' (ctx\<lparr>ax_out := []\<rparr>)) L)) @ []) = Some (resp, [])"
      "response_Map resp = map_of (rev L)"
    using answer_survives [of "''OK''" 200 L ctx "[]"] ok(1) by auto
  have f: "Find wit_master (ctx_arg ctx ''obj'') = Some 1" by (simp add: Find_def wit_master_def ctx_def ctx_arg_def)
  have o: "ctx\<lparr>ax_out := []\<rparr> = ctx" by (simp add: ctx_def witness_ctx_def)
  have a: "apiGetConfig wit_enc ?keys ctx wit_master = SendFinal (foldl (\<lambda>c kv. SendKVP (fst kv) (snd kv) c) (SendOK ctx) L)"
    using f c by (simp only: apiGetConfig_def L_def option.case)
  have dec: "wit_dec (wit_enc s) = s" if "used_value (ms_conf wit_master) 0 k = Some (CSched s)" for k s
  proof -
    have "k = ''frequency'' \<or> k = ''testing'' \<or> k = ''label''" using that d by (force simp: c used_value_def split: option.splits)
    then show ?thesis using that u by (auto simp: c wit_enc_def wit_dec_def)
  qed
  have "\<exists>c' conf'. maker_block wit_dec L (response_Map resp) None wit_conf = Some (c', conf')
    \<and> cf_Type (cs_cf conf' c') = cf_Type (cs_cf (ms_conf wit_master) 0) \<and> cf_Name (cs_cf conf' c') = cf_Name (cs_cf (ms_conf wit_master) 0)
    \<and> cf_parent (cs_cf conf' c') = None \<and> param_value conf' c' = used_value (ms_conf wit_master) 0"
    by (rule replica_config [where keys = ?keys and enc = wit_enc and rest = "[]" and ctx = ctx and p = 1])
      (use f c d ok g r a o dec in \<open>simp_all add: L_def SendOK_def ctx_def witness_ctx_def\<close>)
  then obtain c' conf' where "maker_block wit_dec L (response_Map resp) None wit_conf = Some (c', conf')" "param_value conf' c' = used_value wit_conf 0"
    unfolding c by blast
  then have "maker_block wit_dec L (response_Map resp) None wit_conf = Some (c', conf') \<and> param_value conf' c' ''frequency'' = Some (CStr ''60'')
     \<and> param_value conf' c' ''testing'' = Some (CSched ScheduleAlwaysYes) \<and> param_value conf' c' ''label'' = None"
    using u by simp
  then show ?thesis unfolding L_def by (intro exI)
qed

end
