(* ===== verification/Daemon.thy ===== *)
theory Daemon
  imports Web Pages
begin

text \<open>
  The programs around the parts: \<open>cmd/argusd\<close> (signals, the directories of the data and their
  cleaning, the change of user, the status, the running averages), \<open>sec/sec.go\<close> (when a certificate
  is warned about), \<open>web/template.go\<close> (which pages are served) and \<open>cmd/argusctl\<close>. What the operating
  system and the libraries do comes as an argument.
\<close>

section \<open>Files\<close>

datatype node = NDir int | NFile int   \<comment> \<open>with the time of modification\<close>

type_synonym ftree = "(string \<times> node) list"

fun node_time :: "node \<Rightarrow> int" where
  "node_time (NDir t) = t"
| "node_time (NFile t) = t"

definition is_dir :: "ftree \<Rightarrow> string \<Rightarrow> bool" where
  "is_dir t p \<longleftrightarrow> (case map_of t p of Some (NDir _) \<Rightarrow> True | _ \<Rightarrow> False)"

text \<open>The directory of a path and its last name.\<close>

definition parent_dir :: "string \<Rightarrow> string" where
  "parent_dir p = rev (drop 1 (dropWhile (\<lambda>c. c \<noteq> CHR ''/'') (rev p)))"

definition base_name :: "string \<Rightarrow> string" where
  "base_name p = rev (takeWhile (\<lambda>c. c \<noteq> CHR ''/'') (rev p))"

text \<open>\<open>can\<close> says where the process may write.\<close>

definition os_Mkdir :: "int \<Rightarrow> (string \<Rightarrow> bool) \<Rightarrow> string \<Rightarrow> ftree \<Rightarrow> ftree option" where
  "os_Mkdir now can d t =
     (if map_of t d \<noteq> None \<or> \<not> is_dir t (parent_dir d) \<or> \<not> can d then None else Some ((d, NDir now) # t))"

definition readdir :: "string \<Rightarrow> ftree \<Rightarrow> string list" where
  "readdir d t = map base_name (filter (\<lambda>p. CHR ''/'' \<in> set p \<and> parent_dir p = d) (map fst t))"

definition os_Remove :: "string \<Rightarrow> ftree \<Rightarrow> ftree" where
  "os_Remove p t =
     (case map_of t p of
        None \<Rightarrow> t
      | Some (NFile _) \<Rightarrow> AList.delete p t
      | Some (NDir _) \<Rightarrow> if readdir p t = [] then AList.delete p t else t)"

definition main_mkdir :: "int \<Rightarrow> (string \<Rightarrow> bool) \<Rightarrow> string \<Rightarrow> ftree \<Rightarrow> ftree option" where
  "main_mkdir now can d t = (if is_dir t d then Some t else os_Mkdir now can d t)"

fun mkdirs :: "int \<Rightarrow> (string \<Rightarrow> bool) \<Rightarrow> string list \<Rightarrow> ftree \<Rightarrow> ftree option" where
  "mkdirs now can [] t = Some t"
| "mkdirs now can (d # ds) t = main_mkdir now can d t \<bind> mkdirs now can ds"

definition letters :: string where "letters = map char_of [65 ..< (91 :: nat)]"

definition dir_a :: "string \<Rightarrow> char \<Rightarrow> string" where "dir_a fdir a = fdir @ ''/'' @ [a]"

definition dir_ab :: "string \<Rightarrow> char \<Rightarrow> char \<Rightarrow> string" where "dir_ab fdir a b = fdir @ ''/'' @ [a] @ ''/'' @ [b]"

text \<open>\<^const>\<open>None\<close>: fatal.\<close>

definition createDirs :: "int \<Rightarrow> (string \<Rightarrow> bool) \<Rightarrow> string \<Rightarrow> string \<Rightarrow> ftree \<Rightarrow> ftree option" where
  "createDirs now can datadir dir t =
     (if datadir = [] then Some t
      else let fdir = datadir @ ''/'' @ dir;
               t = (case os_Mkdir now can fdir t of None \<Rightarrow> t | Some t \<Rightarrow> t)
           in mkdirs now can (concat (map (\<lambda>a. dir_a fdir a # map (dir_ab fdir a) letters) letters)) t)"

definition createStatsDirs :: "int \<Rightarrow> (string \<Rightarrow> bool) \<Rightarrow> string \<Rightarrow> ftree \<Rightarrow> ftree option" where
  "createStatsDirs now can datadir = createDirs now can datadir ''stats''"

definition createGdataDirs :: "int \<Rightarrow> (string \<Rightarrow> bool) \<Rightarrow> string \<Rightarrow> ftree \<Rightarrow> ftree option" where
  "createGdataDirs now can datadir = createDirs now can datadir ''gdata''"

definition createNotifyDirs :: "int \<Rightarrow> (string \<Rightarrow> bool) \<Rightarrow> string \<Rightarrow> ftree \<Rightarrow> ftree option" where
  "createNotifyDirs now can datadir t =
     (if datadir = [] then Some t else main_mkdir now can (datadir @ ''/notify'') t)"

definition clean_file :: "int \<Rightarrow> string \<Rightarrow> string \<Rightarrow> ftree \<Rightarrow> ftree" where
  "clean_file limit d f t =
     (case map_of t (d @ ''/'' @ f) of
        None \<Rightarrow> t
      | Some n \<Rightarrow> if node_time n < limit then os_Remove (d @ ''/'' @ f) t else t)"

definition clean_dir :: "int \<Rightarrow> string \<Rightarrow> ftree \<Rightarrow> ftree" where
  "clean_dir limit d t = (if is_dir t d then foldl (\<lambda>t f. clean_file limit d f t) t (readdir d t) else t)"

definition letter_dirs :: "string \<Rightarrow> string list" where
  "letter_dirs fdir = concat (map (\<lambda>a. map (dir_ab fdir a) letters) letters)"

definition cleanDirs :: "int \<Rightarrow> int \<Rightarrow> string \<Rightarrow> string \<Rightarrow> ftree \<Rightarrow> ftree" where
  "cleanDirs now age datadir dir t =
     (if datadir = [] then t
      else foldl (\<lambda>t d. clean_dir (now - age) d t) t (letter_dirs (datadir @ ''/'' @ dir)))"

text \<open>The job of \<open>initCleanDirs\<close>, every six hours; times in nanoseconds.\<close>

abbreviation (input) WEEK :: int where "WEEK \<equiv> 7 * 24 * 3600 * 1000000000"

definition file_cleanup :: "int \<Rightarrow> string \<Rightarrow> ftree \<Rightarrow> ftree" where
  "file_cleanup now datadir t = cleanDirs now (2 * WEEK) datadir ''gdata'' (cleanDirs now (2 * WEEK) datadir ''stats'' t)"

section \<open>Signals, requests and the end\<close>

datatype signal = SIGINT | SIGTERM | SIGQUIT | SIGHUP | SIGUSR2 | OtherSignal

record daemon =
  dm_sigchan :: "signal list"
  dm_exit :: int
  dm_stopped :: bool
  dm_status :: string

text \<open>The exit values of the library \<open>go-daemon\<close>.\<close>

record exits =
  ex_Finished :: int
  ex_Restart :: int

definition dm_Stop :: "daemon \<Rightarrow> daemon" where
  "dm_Stop d = d\<lparr>dm_stopped := True\<rparr>"

definition sigHandle :: "exits \<Rightarrow> daemon \<Rightarrow> daemon" where
  "sigHandle ex d =
     (case dm_sigchan d of
        [] \<Rightarrow> d
      | n # ns \<Rightarrow>
          let d = d\<lparr>dm_sigchan := ns\<rparr> in
          if n = SIGUSR2 then d
          else dm_Stop (d\<lparr>dm_exit := (if n = SIGINT \<or> n = SIGTERM \<or> n = SIGQUIT then ex_Finished ex else ex_Restart ex)\<rparr>))"

text \<open>One look at the files of the configuration; \<open>mtime\<close> is \<^const>\<open>None\<close> for a file that cannot be read.\<close>

fun watchFiles :: "(string \<Rightarrow> int option) \<Rightarrow> int \<Rightarrow> string list \<Rightarrow> daemon \<Rightarrow> bool \<times> daemon" where
  "watchFiles mtime start [] d = (False, d)"
| "watchFiles mtime start (f # fs) d =
     (case mtime f of
        None \<Rightarrow> watchFiles mtime start fs d
      | Some t \<Rightarrow> if t > start then (True, d\<lparr>dm_sigchan := dm_sigchan d @ [SIGHUP]\<rparr>) else watchFiles mtime start fs d)"

definition apiHup :: "api_ctx \<Rightarrow> daemon \<Rightarrow> api_ctx \<times> daemon" where
  "apiHup ctx d = (SendOKFinal ctx, d\<lparr>dm_sigchan := dm_sigchan d @ [SIGHUP]\<rparr>)"

definition apiStop :: "api_ctx \<Rightarrow> daemon \<Rightarrow> api_ctx \<times> daemon" where
  "apiStop ctx d = (SendOKFinal ctx, dm_Stop (d\<lparr>dm_exit := 0\<rparr>))"

definition apiTrace :: "api_ctx \<Rightarrow> api_ctx" where
  "apiTrace ctx = SendOKFinal ctx"

record rates =
  rt_mon :: "gofloat list"
  rt_idle :: "gofloat list"
  rt_cpu :: "gofloat list"

record status_info =
  si_version :: string
  si_system :: string
  si_darp :: "(string \<times> string) option"
  si_objects :: int
  si_services :: int
  si_alerts :: int

definition three :: "(gofloat \<Rightarrow> string) \<Rightarrow> gofloat list \<Rightarrow> string" where
  "three f xs = join '' '' (map (\<lambda>i. f (xs ! i)) [0, 1, 2])"

definition apiStatus :: "status_info \<Rightarrow> rates \<Rightarrow> int \<Rightarrow> api_ctx \<Rightarrow> daemon \<Rightarrow> api_ctx" where
  "apiStatus si r up ctx d =
     SendFinal (foldl (\<lambda>ctx (k, v). SendKVP k v ctx) (SendOK ctx)
       ([(''status'', dm_status d), (''version'', si_version si), (''system'', si_system si)]
        @ (case si_darp si of None \<Rightarrow> [] | Some (n, t) \<Rightarrow> [(''darp'', n @ '' '' @ t)])
        @ [(''objects'', show_int (si_objects si)), (''services'', show_int (si_services si)), (''alerts'', show_int (si_alerts si)),
           (''uptime'', Elapsed up), (''monrate'', three (fmt_prec 2) (rt_mon r) @ '' per second''),
           (''idle'', three (\<lambda>x. fmt_prec 2 (fmul round64 (f_of_int round64 100) x) @ ''%'') (rt_idle r))]))"

text \<open>\<open>vars\<close> are the exported variables in order.\<close>

definition apiExpvar :: "(string \<times> string) list \<Rightarrow> api_ctx \<Rightarrow> api_ctx" where
  "apiExpvar vars ctx =
     SendFinal (foldl (\<lambda>ctx (k, v). if k = ''memstats'' \<or> k = ''cmdline'' then ctx else SendKVP k v ctx) (SendOK ctx) vars)"

text \<open>What is saved when the scheduler has stopped: the notifications, then the objects; a stopper that
  is still at work when the program exits is not waited for.\<close>

fun persist_all :: "monel_env \<Rightarrow> ptr list \<Rightarrow> monel_state \<Rightarrow> monel_state option" where
  "persist_all env [] st = Some st"
| "persist_all env (p # ps) st = monel_persist env p st \<bind> persist_all env ps"

definition monel_Stop :: "monel_env \<Rightarrow> string list \<Rightarrow> monel_state \<Rightarrow> monel_state option" where
  "monel_Stop env names st = persist_all env (List.map_filter (ms_byname st) names) st"

definition main_finish :: "monel_env \<Rightarrow> int list \<Rightarrow> string list \<Rightarrow> monel_state \<Rightarrow> monel_state option" where
  "main_finish env ids names st = monel_Stop env names (st\<lparr>ms_notify := note_Stop (ev_note env) ids (ms_notify st)\<rparr>)"

section \<open>Starting\<close>

text \<open>User and group: what looking them up and changing to them gives. \<open>Inl\<close> is fatal.\<close>

record 'p os_users =
  ou_user :: "string \<Rightarrow> int option"
  ou_group :: "string \<Rightarrow> int option"
  ou_setreuid :: "int \<Rightarrow> 'p \<Rightarrow> 'p option"
  ou_setregid :: "int \<Rightarrow> 'p \<Rightarrow> 'p option"

definition changeUser :: "'p os_users \<Rightarrow> string \<Rightarrow> string \<Rightarrow> 'p \<Rightarrow> string + 'p" where
  "changeUser os usr grp p =
     (case (if usr = [] then Inr p
            else case ou_user os usr of
                   None \<Rightarrow> Inl ''invalid user''
                 | Some uid \<Rightarrow> (case ou_setreuid os uid p of None \<Rightarrow> Inl ''cannot change user'' | Some p \<Rightarrow> Inr p)) of
        Inl e \<Rightarrow> Inl e
      | Inr p \<Rightarrow>
          if grp = [] then Inr p
          else case ou_group os grp of
                 None \<Rightarrow> Inl ''invalid group''
               | Some gid \<Rightarrow> (case ou_setregid os gid p of None \<Rightarrow> Inl ''cannot change group'' | Some p \<Rightarrow> Inr p))"

text \<open>The new bound for running tests, from the number of files that may be open.\<close>

definition raiseFileLimit :: "int \<Rightarrow> int \<Rightarrow> int" where
  "raiseFileLimit cur maxrun =
     (let warn = (if maxrun + 10 > 100 then maxrun + 10 else 100) in if cur < warn then cur - 10 else maxrun)"

section \<open>Running averages\<close>

definition DELAY :: int where "DELAY = 10"

definition LAMBDA :: "int list" where "LAMBDA = [6, 30, 90]"

definition average :: "int \<Rightarrow> gofloat \<Rightarrow> gofloat \<Rightarrow> gofloat" where
  "average l old x =
     fdiv round64 (fadd round64 (fmul round64 (f_of_int round64 l) old) x) (fadd round64 (f_of_int round64 l) (f_of_int round64 1))"

text \<open>One round: the runs and the processor time (in nanoseconds) since the last one. The factors are
  whole numbers.\<close>

definition clamp01 :: "gofloat \<Rightarrow> gofloat" where
  "clamp01 x =
     (let x = (if flt x fzero then fzero else x) in if flt (f_of_int round64 1) x then f_of_int round64 1 else x)"

definition statsCollector :: "int \<Rightarrow> int \<Rightarrow> int list \<times> rates \<Rightarrow> int list \<times> rates" where
  "statsCollector drun dcpu s =
     (case s of (lam, r) \<Rightarrow>
        let cmr = fdiv round64 (f_of_int round64 drun) (f_of_int round64 DELAY);
            ccpu = clamp01 (fdiv round64 (f_of_int round64 dcpu) (f_of_int round64 (DELAY * 1000000000)));
            cidle = fsub round64 (f_of_int round64 1) ccpu
        in (map2 (\<lambda>l m. if l < m then l + 1 else l) lam LAMBDA,
            r\<lparr>rt_mon := map2 (\<lambda>l x. average l x cmr) lam (rt_mon r), rt_idle := map2 (\<lambda>l x. average l x cidle) lam (rt_idle r),
              rt_cpu := map2 (\<lambda>l x. average l x ccpu) lam (rt_cpu r)\<rparr>))"

section \<open>Certificates\<close>

datatype cert_act = CertMismatch | CertExpired | CertSoon | SoonAt int | ExpiredAt int

text \<open>\<open>x\<close> is the parsed certificate: its common name and its end in nanoseconds; \<open>SoonAt\<close> and
  \<open>ExpiredAt\<close> are jobs of the scheduler, in seconds.\<close>

definition CertExpiresWarn :: "int \<Rightarrow> (string \<times> int) option \<Rightarrow> string \<Rightarrow> cert_act list" where
  "CertExpiresWarn now x chkname =
     (case x of
        None \<Rightarrow> []
      | Some (name, expire) \<Rightarrow>
          if chkname \<noteq> [] \<and> name \<noteq> chkname then [CertMismatch]
          else (if expire < now then [CertExpired] else [])
            @ (if expire + 1 * WEEK < now then [CertSoon]
               else [SoonAt ((expire - WEEK) div SECSNANO), ExpiredAt (expire div SECSNANO)]))"

definition CertFileExpiresWarn :: "int \<Rightarrow> (string \<times> int) option option \<Rightarrow> cert_act list" where
  "CertFileExpiresWarn now pair = (case pair of None \<Rightarrow> [] | Some x \<Rightarrow> CertExpiresWarn now x [])"

datatype 'c sec_cert = Loaded_cert 'c | Generated

text \<open>\<open>sec.Init\<close>: the root pool and the key pair; \<open>Inl\<close> is fatal.\<close>

definition sec_Init :: "(string \<Rightarrow> 'r option) \<Rightarrow> (string \<Rightarrow> string \<Rightarrow> 'c option) \<Rightarrow> ('c \<Rightarrow> cert_act list) \<Rightarrow> string \<Rightarrow> string \<Rightarrow> string \<Rightarrow> string
    \<Rightarrow> string + 'r option \<times> 'c sec_cert" where
  "sec_Init loadRoot loadPair warn rootcert darp_root key cert =
     (let file = (if rootcert = [] then darp_root else rootcert) in
      case (if file = [] then Some None else map_option Some (loadRoot file)) of
        None \<Rightarrow> Inl ''root cert''
      | Some r \<Rightarrow>
          if key \<noteq> [] \<and> cert \<noteq> [] then
            (case loadPair cert key of
               None \<Rightarrow> Inl ''cannot load cert/key''
             | Some c \<Rightarrow> if CertMismatch \<in> set (warn c) then Inl ''cert name mismatch'' else Inr (r, Loaded_cert c))
          else Inr (r, Generated))"

section \<open>Pages\<close>

text \<open>The files of the two directories: partials, then pages. A name is never empty.\<close>

definition is_page :: "string \<Rightarrow> bool" where
  "is_page f \<longleftrightarrow> hd (base_name f) \<notin> {CHR ''.'', CHR ''#'', CHR ''_''}"

definition partials :: "string list \<Rightarrow> string list" where
  "partials files = filter (\<lambda>f. hd (base_name f) = CHR ''_'') files"

text \<open>A template is the list of files it was parsed from.\<close>

definition loadTemplates :: "string \<Rightarrow> string list \<Rightarrow> (string \<times> string list) list" where
  "loadTemplates htdir files =
     (if htdir = [] then []
      else foldl (\<lambda>tm f. AList.update (base_name f) (partials files @ [f]) tm) [] (filter is_page files))"

record web_conf =
  wc_Header :: string
  wc_Header_Branding :: string
  wc_Footer :: string
  wc_Login_Notice :: string

record page_data =
  pg_User :: string
  pg_Home :: string
  pg_Conf :: web_conf
  pg_Host :: string
  pg_Token :: string
  pg_ObjTitle :: string
  pg_Q :: "string \<rightharpoonup> string"
  pg_DevMode :: bool

datatype page_out = PageNotFound | PageOf "string list" page_data

definition HTPATH :: string where "HTPATH = ''/view/''"

definition trim_prefix :: "string \<Rightarrow> string \<Rightarrow> string" where
  "trim_prefix pre s = (if take (length pre) s = pre then drop (length pre) s else s)"

definition serveTemplate :: "web_conf \<Rightarrow> string \<Rightarrow> (string \<times> string list) list \<Rightarrow> bool \<Rightarrow> string \<Rightarrow> (string \<rightharpoonup> string list) \<Rightarrow> web_ctx \<Rightarrow> page_out" where
  "serveTemplate wc host tm devmode path form ctx =
     (let name = trim_prefix HTPATH path in
      if name \<noteq> [] \<and> hd name = CHR ''_'' then PageNotFound
      else case map_of tm name of
             None \<Rightarrow> PageNotFound
           | Some t \<Rightarrow>
               let query = (\<lambda>k. case form k of Some (v # _) \<Rightarrow> Some v | _ \<Rightarrow> None);
                   (usr, home) = (case wx_User ctx of None \<Rightarrow> ([], []) | Some u \<Rightarrow> (us_Name u, us_Home u))
               in PageOf t \<lparr>pg_User = usr, pg_Home = home, pg_Conf = wc, pg_Host = host, pg_Token = wx_XSRFToken ctx,
                     pg_ObjTitle = (case query ''obj'' of None \<Rightarrow> name | Some obj \<Rightarrow> obj), pg_Q = query, pg_DevMode = devmode\<rparr>)"

section \<open>The control program\<close>

definition ctl_arg :: "(string \<rightharpoonup> string) \<Rightarrow> string \<Rightarrow> (string \<rightharpoonup> string)" where
  "ctl_arg m a = (case split2 ''='' a of [k, v] \<Rightarrow> m(k \<mapsto> v) | ks \<Rightarrow> m(hd ks \<mapsto> []))"

definition ctl_args :: "string list \<Rightarrow> (string \<rightharpoonup> string)" where
  "ctl_args as = foldl ctl_arg Map.empty as"

definition ctl_kvp :: "string \<Rightarrow> string \<times> string" where
  "ctl_kvp l = (case split2 '': '' l of [k, v] \<Rightarrow> (k, UrlDecode (trim_space v)) | ks \<Rightarrow> (hd ks, []))"

definition pad_right :: "nat \<Rightarrow> string \<Rightarrow> string" where
  "pad_right n s = s @ replicate (n - length s) (CHR '' '')"

text \<open>What is printed for an answer, or for the error of the connection or the call.\<close>

definition ctl_output :: "bool \<Rightarrow> string + response \<Rightarrow> string" where
  "ctl_output raw resp =
     (case resp of
        Inl e \<Rightarrow> e
      | Inr r \<Rightarrow>
          show_int (rs_Code r) @ '' '' @ rs_Msg r @ [CHR 0x0A]
          @ (if raw then concat (map (\<lambda>l. l @ [CHR 0x0A]) (rs_Lines r))
             else let kvs = map ctl_kvp (rs_Lines r); maxlen = foldl max 0 (map (length \<circ> fst) kvs)
                  in concat (map (\<lambda>(k, v). pad_right (maxlen + 1) (k @ '':'') @ ''  '' @ v @ [CHR 0x0A]) kvs)))"

end
