(* ===== verification/DaemonFacts.thy ===== *)
theory DaemonFacts
  imports Daemon
begin

text \<open>
  Every object has a directory for its files, and the cleaning removes exactly the old files; a page
  is served only from a file that is one; a certificate is always watched.
\<close>

section \<open>Paths\<close>

lemma parent_child: "CHR ''/'' \<notin> set f \<Longrightarrow> parent_dir (d @ ''/'' @ f) = d \<and> base_name (d @ ''/'' @ f) = f"
proof -
  assume f: "CHR ''/'' \<notin> set f"
  have "dropWhile (\<lambda>c. c \<noteq> CHR ''/'') (rev f @ CHR ''/'' # rev d) = CHR ''/'' # rev d"
    using f by (subst dropWhile_append2) auto
  moreover have "takeWhile (\<lambda>c. c \<noteq> CHR ''/'') (rev f @ CHR ''/'' # rev d) = rev f"
    using f by (subst takeWhile_append2) auto
  ultimately show ?thesis by (simp add: parent_dir_def base_name_def)
qed

lemma path_split: "CHR ''/'' \<in> set p \<Longrightarrow> p = parent_dir p @ ''/'' @ base_name p \<and> CHR ''/'' \<notin> set (base_name p)"
proof -
  assume "CHR ''/'' \<in> set p"
  then obtain d f where "p = d @ CHR ''/'' # f" "CHR ''/'' \<notin> set f" by (meson split_list_last)
  then show ?thesis using parent_child [of f d] by simp
qed

section \<open>Making the directories\<close>

lemma mkdirs_mono: "mkdirs now can ds t = Some t' \<Longrightarrow> is_dir t p \<Longrightarrow> is_dir t' p"
proof (induction ds arbitrary: t)
  case (Cons d ds)
  then obtain t1 where t1: "main_mkdir now can d t = Some t1" "mkdirs now can ds t1 = Some t'" by (auto simp: bind_eq_Some_conv)
  have "is_dir t1 p" using t1(1) Cons.prems(2) by (auto simp: main_mkdir_def os_Mkdir_def is_dir_def split: if_splits)
  then show ?case using Cons.IH t1(2) by blast
qed simp

lemma mkdirs_dirs: "mkdirs now can ds t = Some t' \<Longrightarrow> d \<in> set ds \<Longrightarrow> is_dir t' d"
proof (induction ds arbitrary: t)
  case (Cons x ds)
  then obtain t1 where t1: "main_mkdir now can x t = Some t1" "mkdirs now can ds t1 = Some t'" by (auto simp: bind_eq_Some_conv)
  have "is_dir t1 x" using t1(1) by (auto simp: main_mkdir_def os_Mkdir_def is_dir_def split: if_splits)
  then show ?case using Cons t1(2) mkdirs_mono by auto
qed simp

lemma letters_iff: "c \<in> set letters \<longleftrightarrow> byte_in (CHR ''A'') (CHR ''Z'') c"
proof -
  have "c \<in> set letters \<longleftrightarrow> (of_char c :: nat) \<in> {65 ..< 91}"
  proof
    assume "c \<in> set letters"
    then obtain n :: nat where "n \<in> {65 ..< 91}" "c = char_of n" by (auto simp: letters_def)
    then show "(of_char c :: nat) \<in> {65 ..< 91}" by simp
  next
    assume "(of_char c :: nat) \<in> {65 ..< 91}"
    then have "char_of (of_char c :: nat) \<in> char_of ` {65 ..< (91 :: nat)}" by (rule imageI)
    then show "c \<in> set letters" by (simp only: letters_def set_map set_upt char_of_char)
  qed
  then show ?thesis by (auto simp: byte_in_def)
qed

lemma hashed_dir: "\<exists>a b. a \<in> set letters \<and> b \<in> set letters \<and> fdir @ ''/'' @ HashedDirectory s = dir_ab fdir a b"
  using HashDjb2_poly [of s] by (auto simp: letters_iff dir_ab_def)

text \<open>C40: Every object has a place for its files. When the start did not end with an error, the
  directory that the hash of any name chooses exists below \<open>stats\<close> and below \<open>gdata\<close>, and the file of
  an object lies directly in it.\<close>

theorem dirs_cover:
  assumes "datadir \<noteq> []" "createStatsDirs now can datadir t = Some t1" "createGdataDirs now can datadir t1 = Some t2"
    and "m_DirName m = HashedDirectory name" "m_Filename m = FileEncode name" "dir \<in> {''stats'', ''gdata''}"
  shows "is_dir t2 (datadir @ ''/'' @ dir @ ''/'' @ HashedDirectory name)
    \<and> parent_dir (datadir @ ''/'' @ dir @ ''/'' @ Pathname m [] []) = datadir @ ''/'' @ dir @ ''/'' @ HashedDirectory name"
proof -
  have c: "is_dir t' (datadir @ ''/'' @ dir' @ ''/'' @ HashedDirectory name)" if "createDirs now can datadir dir' t = Some t'" for dir' t t'
  proof -
    obtain a b where ab: "a \<in> set letters" "b \<in> set letters" "(datadir @ ''/'' @ dir') @ ''/'' @ HashedDirectory name = dir_ab (datadir @ ''/'' @ dir') a b"
      using hashed_dir by blast
    define ds where "ds = concat (map (\<lambda>a. dir_a (datadir @ ''/'' @ dir') a # map (dir_ab (datadir @ ''/'' @ dir') a) letters) letters)"
    have "\<exists>t0. mkdirs now can ds t0 = Some t'" using that assms(1) by (auto simp: createDirs_def Let_def ds_def)
    moreover have "dir_ab (datadir @ ''/'' @ dir') a b \<in> set ds" using ab(1,2) by (auto simp: ds_def)
    ultimately have "is_dir t' (dir_ab (datadir @ ''/'' @ dir') a b)" using mkdirs_dirs by blast
    then show ?thesis using ab(3) by simp
  qed
  have keep: "is_dir t2 p" if "is_dir t1 p" for p
  proof -
    obtain t0 where "mkdirs now can (concat (map (\<lambda>a. dir_a (datadir @ ''/gdata'') a # map (dir_ab (datadir @ ''/gdata'') a) letters) letters)) t0 = Some t2"
        "t0 = t1 \<or> os_Mkdir now can (datadir @ ''/gdata'') t1 = Some t0"
      using assms(1,3) by (auto simp: createGdataDirs_def createDirs_def Let_def split: option.splits)
    moreover from this(2) have "is_dir t0 p" using that by (auto simp: os_Mkdir_def is_dir_def split: if_splits)
    ultimately show ?thesis using mkdirs_mono by blast
  qed
  have "is_dir t2 (datadir @ ''/'' @ dir @ ''/'' @ HashedDirectory name)"
    using assms(2,3,6) c keep by (auto simp: createStatsDirs_def createGdataDirs_def)
  moreover have "parent_dir ((datadir @ ''/'' @ dir @ ''/'' @ HashedDirectory name) @ ''/'' @ FileEncode name) = datadir @ ''/'' @ dir @ ''/'' @ HashedDirectory name"
    using parent_child [OF FileEncode_no_slash] by blast
  ultimately show ?thesis by (simp add: Pathname_def assms(4,5))
qed

lemma mkdirs_there: "\<forall>d \<in> set ds. is_dir t d \<Longrightarrow> mkdirs now can ds t = Some t"
  by (induction ds) (auto simp: main_mkdir_def)

definition wit_paths :: "string \<Rightarrow> string list" where
  "wit_paths dir = concat (map (\<lambda>a. dir_a (''/d/'' @ dir) a # map (dir_ab (''/d/'' @ dir) a) letters) letters)"

definition wit_tree :: ftree where
  "wit_tree = map (\<lambda>p. (p, NDir 0)) ([''/d/stats'', ''/d/gdata''] @ wit_paths ''stats'' @ wit_paths ''gdata'')"

theorem dirs_cover_witness:
  "is_dir wit_tree (''/d/gdata/'' @ HashedDirectory ''Top:Web'')"
proof -
  have "is_dir (map (\<lambda>p. (p, NDir 0)) ps) p" if "p \<in> set ps" for p ps
    using that by (induction ps) (auto simp: is_dir_def)
  then have there: "is_dir wit_tree p" if "p \<in> set ([''/d/stats'', ''/d/gdata''] @ wit_paths ''stats'' @ wit_paths ''gdata'')" for p
    using that unfolding wit_tree_def by blast
  have "createStatsDirs 0 (\<lambda>_. True) ''/d'' wit_tree = Some wit_tree" "createGdataDirs 0 (\<lambda>_. True) ''/d'' wit_tree = Some wit_tree"
  proof -
    have ex: "os_Mkdir 0 (\<lambda>_. True) p wit_tree = None" if "is_dir wit_tree p" for p
      using that by (auto simp: os_Mkdir_def is_dir_def split: option.splits)
    have "mkdirs 0 (\<lambda>_. True) (wit_paths dir) wit_tree = Some wit_tree" if "dir \<in> {''stats'', ''gdata''}" for dir
      by (rule mkdirs_there) (use that there in auto)
    then show "createStatsDirs 0 (\<lambda>_. True) ''/d'' wit_tree = Some wit_tree" "createGdataDirs 0 (\<lambda>_. True) ''/d'' wit_tree = Some wit_tree"
      using ex there by (simp_all add: createStatsDirs_def createGdataDirs_def createDirs_def wit_paths_def Let_def)
  qed
  then show ?thesis
    using dirs_cover [of "''/d''" 0 "\<lambda>_. True" wit_tree wit_tree wit_tree "blank_object\<lparr>m_DirName := HashedDirectory ''Top:Web'', m_Filename := FileEncode ''Top:Web''\<rparr>"
        "''Top:Web''" "''gdata''"] by simp
qed

section \<open>Cleaning\<close>

lemma remove_lookup: "map_of (os_Remove q t) p = (if p = q \<and> map_of (os_Remove q t) p \<noteq> map_of t p then None else map_of t p)"
  by (auto simp: os_Remove_def AList.delete_conv split: option.split node.split)

lemma remove_file: "map_of t p = Some (NFile m) \<Longrightarrow> map_of (os_Remove p t) p = None"
  by (simp add: os_Remove_def AList.delete_conv)

lemma clean_file_other: "p \<noteq> d @ ''/'' @ f \<Longrightarrow> map_of (clean_file limit d f t) p = map_of t p"
  using remove_lookup [of "d @ ''/'' @ f" t p] by (auto simp: clean_file_def split: option.split)

lemma clean_file_keeps: "map_of (clean_file limit d f t) p = Some n \<Longrightarrow> map_of t p = Some n"
  using remove_lookup [of "d @ ''/'' @ f" t p] by (auto simp: clean_file_def split: option.splits if_splits)

lemma clean_files_other:
  "\<forall>f \<in> set fs. p \<noteq> d @ ''/'' @ f \<Longrightarrow> map_of (foldl (\<lambda>t f. clean_file limit d f t) t fs) p = map_of t p"
  by (induction fs arbitrary: t) (auto simp: clean_file_other)

lemma clean_files_young:
  "map_of t p = Some n \<Longrightarrow> \<not> node_time n < limit \<Longrightarrow> map_of (foldl (\<lambda>t f. clean_file limit d f t) t fs) p = Some n"
proof (induction fs arbitrary: t)
  case (Cons f fs)
  have "map_of (clean_file limit d f t) p = Some n"
    using Cons.prems clean_file_other [of p d f] by (cases "p = d @ ''/'' @ f") (auto simp: clean_file_def)
  then show ?case using Cons by simp
qed simp

lemma clean_files_old:
  assumes "map_of t p = Some (NFile m)" "m < limit" "p = d @ ''/'' @ f" "f \<in> set fs"
  shows "map_of (foldl (\<lambda>t f. clean_file limit d f t) t fs) p = None"
  using assms(1,4)
proof (induction fs arbitrary: t)
  case (Cons g fs)
  have gone: "map_of (foldl (\<lambda>t f. clean_file limit d f t) t fs) p = None" if "map_of t p = None" for t fs
    using that
  proof (induction fs arbitrary: t)
    case (Cons g fs)
    have "map_of (clean_file limit d g t) p = None" using clean_file_keeps [of limit d g t p] Cons.prems by (cases "map_of (clean_file limit d g t) p") auto
    then show ?case using Cons.IH by simp
  qed simp
  show ?case
  proof (cases "g = f")
    case True
    then have "map_of (clean_file limit d g t) p = None"
      using Cons.prems(1) assms(2,3) by (simp add: clean_file_def remove_file)
    then show ?thesis using gone by simp
  next
    case False
    then have "map_of (clean_file limit d g t) p = Some (NFile m)" using Cons.prems(1) clean_file_other [of p d g limit t] assms(3) by simp
    then show ?thesis using Cons False by auto
  qed
qed simp

lemma clean_dir_file:
  assumes "map_of t p = Some (NFile m)" "CHR ''/'' \<in> set p"
  shows "map_of (clean_dir limit d t) p = (if is_dir t d \<and> parent_dir p = d \<and> m < limit then None else Some (NFile m))"
proof (cases "is_dir t d")
  case True
  note ps = path_split [OF assms(2)]
  show ?thesis
  proof (cases "parent_dir p = d")
    case inside: True
    have "p \<in> fst ` set t" using assms(1) by (metis map_of_SomeD fst_conv image_eqI)
    then have "base_name p \<in> set (readdir d t)" using assms(2) inside by (auto simp: readdir_def)
    then show ?thesis
      using True inside ps assms(1) clean_files_old [OF assms(1), of limit d "base_name p" "readdir d t"]
        clean_files_young [OF assms(1), of limit d "readdir d t"] by (auto simp: clean_dir_def)
  next
    case False
    have "p \<noteq> d @ ''/'' @ f" if "f \<in> set (readdir d t)" for f
    proof -
      have "CHR ''/'' \<notin> set f" using that path_split by (auto simp: readdir_def)
      then show ?thesis using parent_child [of f d] False by auto
    qed
    then show ?thesis using True False assms(1) clean_files_other [of "readdir d t" p d limit t] by (simp add: clean_dir_def)
  qed
qed (use assms in \<open>simp add: clean_dir_def\<close>)

text \<open>The directories themselves stay.\<close>

lemma clean_dir_dirs:
  assumes "is_dir t q" "parent_dir q \<noteq> d"
  shows "is_dir (clean_dir limit d t) q"
proof -
  have "q \<noteq> d @ ''/'' @ f" if "f \<in> set (readdir d t)" for f
  proof -
    have "CHR ''/'' \<notin> set f" using that path_split by (auto simp: readdir_def)
    then show ?thesis using parent_child [of f d] assms(2) by auto
  qed
  then show ?thesis using assms(1) clean_files_other [of "readdir d t" q d limit t] by (simp add: clean_dir_def is_dir_def)
qed

lemma dir_ab_parent: "a \<noteq> CHR ''/'' \<Longrightarrow> b \<noteq> CHR ''/'' \<Longrightarrow> parent_dir (dir_ab fdir a b) = dir_a fdir a"
  using parent_child [of "[b]" "dir_a fdir a"] by (simp add: dir_ab_def dir_a_def)

lemma clean_files_keep: "map_of (foldl (\<lambda>t f. clean_file limit d f t) t fs) q = Some n \<Longrightarrow> map_of t q = Some n"
  by (induction fs arbitrary: t) (auto dest: clean_file_keeps)

lemma clean_dir_keeps: "map_of (clean_dir limit d t) q = Some n \<Longrightarrow> map_of t q = Some n"
  by (auto simp: clean_dir_def dest: clean_files_keep split: if_splits)

lemma clean_dirs_keep: "map_of (foldl (\<lambda>t d. clean_dir limit d t) t ds) q = Some n \<Longrightarrow> map_of t q = Some n"
  by (induction ds arbitrary: t) (auto dest: clean_dir_keeps)

lemma is_dir_iff: "is_dir t q \<longleftrightarrow> (\<exists>m. map_of t q = Some (NDir m))"
  by (auto simp: is_dir_def split: option.split node.split)

lemma clean_dirs_file:
  assumes "map_of t p = Some (NFile m)" "CHR ''/'' \<in> set p" "\<forall>d \<in> set ds. \<forall>e \<in> set ds. parent_dir d \<noteq> e"
  shows "map_of (foldl (\<lambda>t d. clean_dir limit d t) t ds) p =
    (if parent_dir p \<in> set ds \<and> is_dir t (parent_dir p) \<and> m < limit then None else Some (NFile m))"
  using assms(1,3)
proof (induction ds arbitrary: t)
  case (Cons d ds)
  show ?case
  proof (cases "is_dir t d \<and> parent_dir p = d \<and> m < limit")
    case True
    then have "map_of (clean_dir limit d t) p = None" using clean_dir_file [OF Cons.prems(1) assms(2)] by simp
    then have "map_of (foldl (\<lambda>t d. clean_dir limit d t) (clean_dir limit d t) ds) p = None"
      using clean_dirs_keep [of limit "clean_dir limit d t" ds p] by (cases "map_of (foldl (\<lambda>t d. clean_dir limit d t) (clean_dir limit d t) ds) p") auto
    then show ?thesis using True by simp
  next
    case False
    then have k: "map_of (clean_dir limit d t) p = Some (NFile m)" using clean_dir_file [OF Cons.prems(1) assms(2)] by auto
    have same: "is_dir (clean_dir limit d t) (parent_dir p) = is_dir t (parent_dir p)" if "parent_dir p \<in> set ds"
      using clean_dir_dirs [of t "parent_dir p" d limit] that Cons.prems(2) clean_dir_keeps [of limit d t "parent_dir p"]
      by (auto simp: is_dir_iff)
    have "map_of (foldl (\<lambda>t d. clean_dir limit d t) (clean_dir limit d t) ds) p =
        (if parent_dir p \<in> set ds \<and> is_dir (clean_dir limit d t) (parent_dir p) \<and> m < limit then None else Some (NFile m))"
      using Cons.IH [OF k] Cons.prems(2) by simp
    then show ?thesis using False same by auto
  qed
qed simp

lemma letter_dirs_iff: "d \<in> set (letter_dirs f) \<longleftrightarrow> (\<exists>a \<in> set letters. \<exists>b \<in> set letters. d = dir_ab f a b)"
  by (auto simp: letter_dirs_def)

text \<open>The cleaning removes exactly the old files: of the files in the tree, those that lie in one of
  the two-letter directories and were last written before the limit are gone, all others are still
  there.\<close>

theorem old_files_go:
  assumes "map_of t p = Some (NFile m)" "CHR ''/'' \<in> set p" "datadir \<noteq> []" "is_dir t (parent_dir p)"
  shows "map_of (cleanDirs now age datadir dir t) p =
    (if parent_dir p \<in> set (letter_dirs (datadir @ ''/'' @ dir)) \<and> m < now - age then None else Some (NFile m))"
proof -
  have l: "c \<noteq> CHR ''/''" if "c \<in> set letters" for c using that by (auto simp: letters_iff byte_in_def)
  have "parent_dir d \<noteq> e" if ds: "d \<in> set (letter_dirs f)" and es: "e \<in> set (letter_dirs f)" for d e f
  proof -
    obtain a b where d: "a \<in> set letters" "b \<in> set letters" "d = dir_ab f a b" using ds unfolding letter_dirs_iff by blast
    obtain a' b' where e: "e = dir_ab f a' b'" using es unfolding letter_dirs_iff by blast
    have "length (parent_dir d) \<noteq> length e" using dir_ab_parent [of a b f] l d e by (simp add: dir_ab_def dir_a_def)
    then show ?thesis by auto
  qed
  then show ?thesis
    using clean_dirs_file [OF assms(1,2), of "letter_dirs (datadir @ ''/'' @ dir)" "now - age"] assms(3,4)
    by (simp add: cleanDirs_def)
qed

theorem old_files_go_witness:
  "map_of (cleanDirs 100 50 ''/d'' ''stats'' [(''/d/stats/A/B/x'', NFile 5), (''/d/stats/A/B'', NDir 0)]) ''/d/stats/A/B/x'' = None"
proof -
  let ?t = "[(''/d/stats/A/B/x'', NFile 5), (''/d/stats/A/B'', NDir 0)]"
  have p: "parent_dir ''/d/stats/A/B/x'' = ''/d/stats/A/B''" by code_simp
  have "''/d/stats/A/B'' \<in> set (letter_dirs (''/d'' @ ''/'' @ ''stats''))"
    unfolding letter_dirs_iff by (rule bexI [of _ "CHR ''A''"], rule bexI [of _ "CHR ''B''"]) (simp_all add: dir_ab_def letters_iff byte_in_def)
  moreover have "is_dir ?t (parent_dir ''/d/stats/A/B/x'')" by (simp add: p is_dir_def)
  ultimately show ?thesis using old_files_go [of ?t "''/d/stats/A/B/x''" 5 "''/d''" 100 50 "''stats''"] p by simp
qed

section \<open>Certificates, users, pages\<close>

text \<open>A certificate with the right name is always watched: there is a warning now, or a job a week
  before its end and one at its end.\<close>

lemma cert_watched:
  assumes "chkname = [] \<or> name = chkname"
  shows "CertSoon \<in> set (CertExpiresWarn now (Some (name, expire)) chkname)
    \<or> {SoonAt ((expire - WEEK) div SECSNANO), ExpiredAt (expire div SECSNANO)} \<subseteq> set (CertExpiresWarn now (Some (name, expire)) chkname)"
  using assms by (auto simp: CertExpiresWarn_def)

text \<open>A certificate that ended more than a week ago is said to end soon, and no error is reported.\<close>

lemma long_expired:
  "expire + WEEK < now \<Longrightarrow> CertExpiresWarn now (Some (name, expire)) [] = [CertExpired, CertSoon]"
  by (simp add: CertExpiresWarn_def)

text \<open>The user is changed before the group: where only the superuser may change the group, a start with
  both configured ends with an error.\<close>

lemma changeUser_both:
  assumes "\<And>uid p p'. ou_setreuid os uid p = Some p' \<Longrightarrow> uid \<noteq> 0 \<Longrightarrow> \<not> super p'"
    and "\<And>gid p. \<not> super p \<Longrightarrow> ou_setregid os gid p = None"
    and "usr \<noteq> []" "grp \<noteq> []" "ou_user os usr = Some uid" "uid \<noteq> 0"
  shows "\<exists>e. changeUser os usr grp p = Inl e"
  using assms by (auto simp: changeUser_def split: option.split)

text \<open>Only the files that are pages are served, each with all the partials.\<close>

lemma loaded_page:
  "map_of (loadTemplates htdir files) name = Some t \<Longrightarrow> \<exists>f \<in> set files. is_page f \<and> base_name f = name \<and> t = partials files @ [f]"
proof -
  have "map_of (foldl (\<lambda>tm f. AList.update (base_name f) (ps @ [f]) tm) tm fs) name = Some t \<Longrightarrow>
      map_of tm name = Some t \<or> (\<exists>f \<in> set fs. base_name f = name \<and> t = ps @ [f])" for ps :: "string list" and tm fs
    by (induction fs arbitrary: tm) (force simp: AList.update_conv' split: if_splits)+
  from this [of "partials files" "[]" "filter is_page files"]
  show "map_of (loadTemplates htdir files) name = Some t \<Longrightarrow> ?thesis"
    by (auto simp: loadTemplates_def split: if_splits)
qed

lemma served_page:
  "serveTemplate wc host (loadTemplates htdir files) dev path form ctx = PageOf t d \<Longrightarrow>
    \<exists>f \<in> set files. is_page f \<and> base_name f = trim_prefix HTPATH path \<and> t = partials files @ [f]"
  by (auto simp: serveTemplate_def Let_def dest: loaded_page split: if_splits option.splits)

end
