(* ===== verification/GraphRelay.thy ===== *)
theory GraphRelay
  imports Pages Construct
begin

text \<open>
  The queue of graph data for the masters and the handler that takes such data
  (\<open>service/graph.go\<close>), and the constructors of groups and aliases (\<open>group/group.go\<close>,
  \<open>alias/alias.go\<close>).
\<close>

section \<open>The queue\<close>

record relay =
  ry_chan :: "string list"
  ry_drops :: nat

definition graph_line :: "string \<Rightarrow> int \<Rightarrow> status \<Rightarrow> gofloat \<Rightarrow> gofloat \<Rightarrow> gofloat \<Rightarrow> string" where
  "graph_line file when status val yn dn =
     join '' '' [file, show_int when, show_int status, fmt_f val, fmt_f yn, fmt_f dn]"

text \<open>The channel holds 1024 lines; a line that does not fit is dropped.\<close>

definition darpGraphAdd :: "string \<Rightarrow> relay \<Rightarrow> relay" where
  "darpGraphAdd l r =
     (if length (ry_chan r) < 1024 then r\<lparr>ry_chan := ry_chan r @ [l]\<rparr> else r\<lparr>ry_drops := ry_drops r + 1\<rparr>)"

abbreviation (input) graphMaxSend :: nat where "graphMaxSend \<equiv> 128"

definition g_key :: "nat \<Rightarrow> string" where "g_key n = ''g'' @ show_nat n"

text \<open>The loop takes lines from the channel; with an empty channel it turns until one comes.
  \<open>arrivals\<close> are the lines that are taken in order; \<^const>\<open>None\<close>: it is still turning when they are used up.
  The test for the size comes after each turn.\<close>

fun gather_loop :: "nat \<Rightarrow> (string \<rightharpoonup> string) \<Rightarrow> string list \<Rightarrow> ((string \<rightharpoonup> string) \<times> string list) option" where
  "gather_loop n m arrivals =
     (if n \<ge> graphMaxSend then Some (m, arrivals)
      else case arrivals of [] \<Rightarrow> None | l # ls \<Rightarrow> gather_loop (Suc n) (m(g_key n \<mapsto> l)) ls)"

declare gather_loop.simps [simp del]

definition darpGraphGather :: "string \<Rightarrow> string list \<Rightarrow> ((string \<rightharpoonup> string) \<times> string list) option" where
  "darpGraphGather l arrivals = gather_loop 1 [''g0'' \<mapsto> l] arrivals"

text \<open>The handler of \<open>graphdata\<close>: the number of the line is never advanced. \<open>scan\<close> is \<open>fmt.Sscan\<close> of a
  line, \<open>add\<close> is \<open>graph.Add\<close>.\<close>

partial_function (option) add_lines :: "(string \<Rightarrow> string \<times> int \<times> int \<times> gofloat \<times> gofloat \<times> gofloat)
    \<Rightarrow> (string \<Rightarrow> int \<Rightarrow> status \<Rightarrow> gofloat \<Rightarrow> gofloat \<Rightarrow> gofloat \<Rightarrow> gd_world \<Rightarrow> gd_world option) \<Rightarrow> nat \<Rightarrow> api_ctx \<Rightarrow> gd_world \<Rightarrow> gd_world option" where
  "add_lines scan add n ctx w =
     (let l = ctx_arg ctx (g_key n) in
      if l = [] then Some w
      else case scan l of (file, when, status, val, yn, dn) \<Rightarrow>
        add file when status val yn dn w \<bind> add_lines scan add n ctx)"

definition apiAddGraphData :: "(string \<Rightarrow> string \<times> int \<times> int \<times> gofloat \<times> gofloat \<times> gofloat) \<Rightarrow> calendar \<Rightarrow> api_ctx \<Rightarrow> gd_world \<Rightarrow> (api_ctx \<times> gd_world) option" where
  "apiAddGraphData scan lcal ctx w = map_option (Pair (SendOKFinal ctx)) (add_lines scan (gd_Add lcal) 0 ctx w)"

section \<open>What is wrong with it\<close>

text \<open>A batch is only sent when 127 more lines have come.\<close>

lemma gather_loop_full: "n \<le> 128 \<Longrightarrow> (gather_loop n m arrivals = None) = (n + length arrivals < 128)"
proof (induction arrivals arbitrary: n m)
  case Nil
  then show ?case by (subst gather_loop.simps) auto
next
  case (Cons l ls)
  show ?case
  proof (cases "n = 128")
    case False
    then have "gather_loop n m (l # ls) = gather_loop (Suc n) (m(g_key n \<mapsto> l)) ls"
      using Cons.prems by (subst gather_loop.simps) simp
    then show ?thesis using Cons.IH [of "Suc n"] Cons.prems False by simp
  qed (simp add: gather_loop.simps)
qed

lemma gather_waits: "darpGraphGather l arrivals = None \<longleftrightarrow> length arrivals < 127"
  by (auto simp: darpGraphGather_def gather_loop_full)

text \<open>A request with a first line never ends.\<close>

lemma add_lines_never:
  assumes "ctx_arg ctx (g_key n) \<noteq> []"
  shows "add_lines scan add n ctx w = None"
proof (rule ccontr)
  assume "add_lines scan add n ctx w \<noteq> None"
  then obtain w' where "add_lines scan add n ctx w = Some w'" by auto
  then have "ctx_arg ctx (g_key n) = []"
    by (rule add_lines.raw_induct [where P = "\<lambda>_ _ n ctx _ _. ctx_arg ctx (g_key n) = []", rotated])
      (auto simp: Let_def bind_eq_Some_conv split: if_splits prod.splits)
  with assms show False by simp
qed

lemma graphdata_never_ends: "ctx_arg ctx ''g0'' \<noteq> [] \<Longrightarrow> apiAddGraphData scan lcal ctx w = None"
proof -
  have "g_key 0 = ''g0''" by code_simp
  then show "ctx_arg ctx ''g0'' \<noteq> [] \<Longrightarrow> ?thesis" by (simp add: apiAddGraphData_def add_lines_never)
qed

section \<open>Groups and aliases\<close>

text \<open>An object whose configuration is an error stays out of the tree.\<close>

definition new_object :: "monel_env \<Rightarrow> moneler \<Rightarrow> (monel_conf \<Rightarrow> monel_conf) \<Rightarrow> notify_conf \<Rightarrow> cptr \<Rightarrow> ptr \<Rightarrow> monel_state
    \<Rightarrow> ((string + ptr) \<times> monel_state) option" where
  "new_object env me initcf ncf c parent st =
     (let (p, st) = monel_New env me parent st in
      case monel_Config env initcf ncf p c st of
        None \<Rightarrow> None
      | Some (Inl e) \<Rightarrow> Some (Inl e, st)
      | Some (Inr st) \<Rightarrow> Some (Inr p, st))"

definition group_New :: "monel_env \<Rightarrow> (monel_conf \<Rightarrow> monel_conf) \<Rightarrow> notify_conf \<Rightarrow> cptr \<Rightarrow> ptr \<Rightarrow> monel_state
    \<Rightarrow> ((string + ptr) \<times> monel_state) option" where
  "group_New env = new_object env GroupM"

definition alias_New :: "monel_env \<Rightarrow> (monel_conf \<Rightarrow> monel_conf) \<Rightarrow> notify_conf \<Rightarrow> cptr \<Rightarrow> ptr \<Rightarrow> monel_state
    \<Rightarrow> ((string + ptr) \<times> monel_state) option" where
  "alias_New env = new_object env (AliasM [] [] None)"

text \<open>Where they are made: the constructors that \<open>Make\<close> of Construct takes, with the settings of a block
  read by \<open>init\<close>.\<close>

definition maker_of :: "((monel_conf \<Rightarrow> monel_conf) \<Rightarrow> notify_conf \<Rightarrow> cptr \<Rightarrow> ptr \<Rightarrow> monel_state \<Rightarrow> ((string + ptr) \<times> monel_state) option)
    \<Rightarrow> (cptr \<Rightarrow> cf_state \<Rightarrow> (monel_conf \<Rightarrow> monel_conf) \<times> notify_conf \<times> cf_state) \<Rightarrow> monel_state maker" where
  "maker_of new init c parent = (\<lambda>(conf, st).
     let (initcf, ncf, conf) = init c conf
     in map_option (\<lambda>(r, st). (r, ms_conf st, st)) (new initcf ncf c parent (st\<lparr>ms_conf := conf\<rparr>)))"

lemma new_object_found:
  assumes "new_object env me initcf ncf c parent st = Some (Inr p, st')"
  shows "p = ms_next st \<and> Find st' (Unique st' p) = Some p"
proof -
  obtain st0 where n: "monel_New env me parent st = (p, st0)" "monel_Config env initcf ncf p c st0 = Some (Inr st')"
    using assms by (auto simp: new_object_def split: prod.splits option.splits sum.splits)
  then obtain st1 where "monel_Init env p st1 = Some st'" by (auto simp: monel_Config_def Let_def split: option.splits sum.splits if_splits)
  then obtain st2 where "st' = (let st = (case m_Parent (ms_heap st2 p) of [] \<Rightarrow> st2 | q # _ \<Rightarrow> AddChild q p st2); st = st\<lparr>ms_me := ms_me st @ [MeInit p]\<rparr>
      in st\<lparr>ms_byname := (ms_byname st)(Unique st p \<mapsto> p)\<rparr>)"
    by (auto simp: monel_Init_def Let_def bind_eq_Some_conv)
  then have "Find st' (Unique st' p) = Some p" by (simp add: Let_def Find_def Unique_def)
  moreover have "p = ms_next st" using n(1) by (auto simp: monel_New_def Let_def)
  ultimately show ?thesis by simp
qed

end
